(* ===== verification/Garnet_Prelude.thy ===== *)
theory Garnet_Prelude
  imports Main "HOL-Library.Signed_Division" "HOL-Library.Word"
begin

text \<open>
  Shared vocabulary of the development: simulated time, the error values that stand for a failed
  assertion, a \<open>panic\<close>, a \<open>fatal\<close> or an out-of-range vector access of the C++ code, the result type
  with its sequencing operator, checked vector access, loops over index ranges, and the arithmetic
  helpers of \<open>src/base/intmath.hh\<close>. The collections \<open>res_intro\<close> and \<open>res_dest\<close> hold the rules that
  build and take apart successful runs.
\<close>

type_synonym Tick = nat
type_synonym Cycles = nat
type_synonym PortDirection = string
type_synonym u64 = "64 word"

section \<open>Errors as values\<close>

datatype sim_error =
    Assert_fail   \<comment> \<open>a failed \<open>assert\<close>\<close>
  | Panic         \<comment> \<open>\<open>panic\<close>, \<open>panic_if\<close>\<close>
  | Fatal         \<comment> \<open>\<open>fatal\<close>, \<open>fatal_if\<close>\<close>
  | Bad_index     \<comment> \<open>a vector, array or queue accessed outside its range\<close>
  | Null_deref    \<comment> \<open>a null pointer or an uninitialised reference is followed\<close>
  | Div_by_zero   \<comment> \<open>an integer division by zero\<close>
  | No_return     \<comment> \<open>control reaches the end of a function that must return a value\<close>
  | Exit_0        \<comment> \<open>\<open>exit(0)\<close>: the simulation stops on purpose\<close>

type_synonym 'a res = "sim_error + 'a"

fun bindR :: "'a res \<Rightarrow> ('a \<Rightarrow> 'b res) \<Rightarrow> 'b res" where
  "bindR (Inl e) f = Inl e"
| "bindR (Inr x) f = f x"

definition assertR :: "bool \<Rightarrow> unit res" where
  "assertR b = (if b then Inr () else Inl Assert_fail)"

definition failIf :: "bool \<Rightarrow> sim_error \<Rightarrow> unit res" where
  "failIf b e = (if b then Inl e else Inr ())"

definition at :: "'a list \<Rightarrow> int \<Rightarrow> 'a res" where
  "at xs i = (if 0 \<le> i \<and> i < int (length xs) then Inr (xs ! nat i) else Inl Bad_index)"

definition put :: "'a list \<Rightarrow> int \<Rightarrow> 'a \<Rightarrow> 'a list res" where
  "put xs i v = (if 0 \<le> i \<and> i < int (length xs) then Inr (xs[nat i := v]) else Inl Bad_index)"

fun loopR :: "('a \<Rightarrow> 's \<Rightarrow> 's res) \<Rightarrow> 'a list \<Rightarrow> 's \<Rightarrow> 's res" where
  "loopR f [] s = Inr s"
| "loopR f (x # xs) s = bindR (f x s) (loopR f xs)"

fun mapR :: "('a \<Rightarrow> 'b res) \<Rightarrow> 'a list \<Rightarrow> 'b list res" where
  "mapR f [] = Inr []"
| "mapR f (x # xs) = bindR (f x) (\<lambda>y. bindR (mapR f xs) (\<lambda>ys. Inr (y # ys)))"

fun existsR :: "('a \<Rightarrow> bool res) \<Rightarrow> 'a list \<Rightarrow> bool res" where
  "existsR f [] = Inr False"
| "existsR f (x # xs) = bindR (f x) (\<lambda>b. if b then Inr True else existsR f xs)"

fun drainR :: "('q \<Rightarrow> ('x \<times> 'q) res) \<Rightarrow> nat \<Rightarrow> 'q \<Rightarrow> ('x list \<times> 'q) res" where
  "drainR deq 0 q = Inr ([], q)"
| "drainR deq (Suc n) q = bindR (deq q) (\<lambda>(x, q'). bindR (drainR deq n q') (\<lambda>(xs, q''). Inr (x # xs, q'')))"

named_theorems res_intro \<open>rules that establish a successful run\<close>
named_theorems res_dest \<open>rules that take a successful run apart\<close>

lemma bindR_Inr_iff [res_dest]: "bindR m f = Inr y \<longleftrightarrow> (\<exists>x. m = Inr x \<and> f x = Inr y)"
  by (cases m) auto

lemma bindR_assoc: "bindR (bindR m f) g = bindR m (\<lambda>x. bindR (f x) g)"
  by (cases m) simp_all

lemma bindR_InrE: "bindR m f = Inr y \<Longrightarrow> (\<And>x. m = Inr x \<Longrightarrow> f x = Inr y \<Longrightarrow> thesis) \<Longrightarrow> thesis"
  by (auto simp: bindR_Inr_iff)

lemma assertR_Inr_iff [res_dest]: "assertR b = Inr u \<longleftrightarrow> b"
  by (auto simp: assertR_def)

lemma assertR_True [simp]: "assertR True = Inr ()"
  by (simp add: assertR_def)

lemma assertR_False [simp]: "assertR False = Inl Assert_fail"
  by (simp add: assertR_def)

lemma failIf_Inr_iff [res_dest]: "failIf b e = Inr u \<longleftrightarrow> \<not> b"
  by (auto simp: failIf_def)

lemma failIf_simps [simp]: "failIf True e = Inl e" "failIf False e = Inr ()"
  by (simp_all add: failIf_def)

lemma at_Inr_iff [res_dest]:
  "at xs i = Inr x \<longleftrightarrow> 0 \<le> i \<and> i < int (length xs) \<and> x = xs ! nat i"
  by (auto simp: at_def)

lemma at_ok [res_intro]: "0 \<le> i \<Longrightarrow> i < int (length xs) \<Longrightarrow> at xs i = Inr (xs ! nat i)"
  by (simp add: at_def)

lemma at_nat [simp]: "n < length xs \<Longrightarrow> at xs (int n) = Inr (xs ! n)"
  by (simp add: at_def)

lemma put_Inr_iff [res_dest]:
  "put xs i v = Inr ys \<longleftrightarrow> 0 \<le> i \<and> i < int (length xs) \<and> ys = xs[nat i := v]"
  by (auto simp: put_def)

lemma put_ok [res_intro]: "0 \<le> i \<Longrightarrow> i < int (length xs) \<Longrightarrow> put xs i v = Inr (xs[nat i := v])"
  by (simp add: put_def)

lemma put_nat [simp]: "n < length xs \<Longrightarrow> put xs (int n) v = Inr (xs[n := v])"
  by (simp add: put_def)

text \<open>A loop keeps an invariant that its body keeps, and succeeds when its body does.\<close>

lemma loopR_invariant:
  assumes "loopR f xs s = Inr t" and "I s"
    and "\<And>x s t. x \<in> set xs \<Longrightarrow> I s \<Longrightarrow> f x s = Inr t \<Longrightarrow> I t"
  shows "I t"
  using assms
proof (induction xs arbitrary: s)
  case Nil
  then show ?case by simp
next
  case (Cons x xs)
  from Cons.prems(1) obtain u where "f x s = Inr u" and "loopR f xs u = Inr t"
    by (auto simp: bindR_Inr_iff)
  with Cons show ?case by (metis list.set_intros)
qed

lemma loopR_succeeds:
  assumes "I s" and "\<And>x s. x \<in> set xs \<Longrightarrow> I s \<Longrightarrow> \<exists>t. f x s = Inr t \<and> I t"
  shows "\<exists>t. loopR f xs s = Inr t \<and> I t"
  using assms
proof (induction xs arbitrary: s)
  case Nil
  then show ?case by simp
next
  case (Cons x xs)
  then obtain u where "f x s = Inr u" and "I u" by (meson list.set_intros(1))
  moreover from this Cons have "\<exists>t. loopR f xs u = Inr t \<and> I t" by simp
  ultimately show ?case by auto
qed

lemma loopR_upto:
  assumes "I 0 s" and "\<And>k s. k < n \<Longrightarrow> I k s \<Longrightarrow> \<exists>t. f (g k) s = Inr t \<and> I (Suc k) t"
  shows "\<exists>t. loopR f (map g [0..<n]) s = Inr t \<and> I n t"
proof -
  have "\<exists>t. loopR f (map g [m..<n]) s = Inr t \<and> I n t" if "I m s" "m \<le> n" for m s
    using that(2,1)
  proof (induction arbitrary: s rule: inc_induct)
    case (step k)
    from assms(2) [OF step.hyps(2) step.prems] obtain t where "f (g k) s = Inr t" "I (Suc k) t" by blast
    with step.IH [of t] step.hyps(2) show ?case by (simp add: upt_conv_Cons)
  qed simp
  from this [of 0 s] assms(1) show ?thesis by simp
qed

lemma loopR_append: "loopR f (xs @ ys) s = bindR (loopR f xs s) (loopR f ys)"
proof (induction xs arbitrary: s)
  case (Cons x xs)
  then show ?case by (cases "f x s") auto
qed simp

lemma loopR_fold [res_intro]:
  "(\<And>x s. x \<in> set xs \<Longrightarrow> f x s = Inr (g x s)) \<Longrightarrow> loopR f xs s = Inr (fold g xs s)"
  by (induction xs arbitrary: s) auto

lemma mapR_total [res_intro]: "(\<And>x. x \<in> set xs \<Longrightarrow> f x = Inr (g x)) \<Longrightarrow> mapR f xs = Inr (map g xs)"
  by (induction xs) auto

lemma existsR_total [res_intro]:
  "(\<And>x. x \<in> set xs \<Longrightarrow> f x = Inr (g x)) \<Longrightarrow> existsR f xs = Inr (\<exists>x \<in> set xs. g x)"
  by (induction xs) auto

lemma existsR_returns: "(\<And>x. x \<in> set xs \<Longrightarrow> \<exists>b. f x = Inr b) \<Longrightarrow> \<exists>b. existsR f xs = Inr b"
  by (induction xs) force+

section \<open>Integer helpers\<close>

text \<open>
  \<open>divCeil\<close> of \<open>src/base/intmath.hh\<close> on unsigned operands. Where the code calls it on \<open>float\<close> copies
  of integers and truncates, the value is the same for operands whose sum is below \<open>2\<^sup>2\<^sup>4\<close>, the range in
  which \<open>float\<close> is exact on integers; message sizes and link widths are far inside it.
\<close>

definition divCeil :: "nat \<Rightarrow> nat \<Rightarrow> nat" where
  "divCeil a b = (a + b - 1) div b"

lemma divCeil_mult_ge: "0 < b \<Longrightarrow> a \<le> divCeil a b * b"
proof -
  assume b: "0 < b"
  have "a + b - 1 = divCeil a b * b + (a + b - 1) mod b"
    by (simp add: divCeil_def)
  moreover have "(a + b - 1) mod b < b" using b by simp
  ultimately show ?thesis by linarith
qed

lemma divCeil_mult_less: "0 < b \<Longrightarrow> divCeil a b * b < a + b"
proof -
  assume b: "0 < b"
  have "divCeil a b * b \<le> a + b - 1"
    by (simp add: divCeil_def)
  with b show ?thesis by simp
qed

lemma divCeil_le_iff: "0 < b \<Longrightarrow> divCeil a b \<le> k \<longleftrightarrow> a \<le> k * b"
proof
  assume b: "0 < b" and "divCeil a b \<le> k"
  then have "divCeil a b * b \<le> k * b" by (simp only: mult_le_mono1)
  with divCeil_mult_ge [OF b, of a] show "a \<le> k * b" by (rule le_trans)
next
  assume b: "0 < b" and "a \<le> k * b"
  with divCeil_mult_less [OF b, of a] have "divCeil a b * b < Suc k * b" by simp
  then have "divCeil a b < Suc k" by (rule mult_less_cancel2 [THEN iffD1, THEN conjunct2])
  then show "divCeil a b \<le> k" by simp
qed

lemma less_divCeil_iff: "0 < b \<Longrightarrow> k < divCeil a b \<longleftrightarrow> k * b < a"
  using divCeil_le_iff [of b a k] by linarith

lemma divCeil_mult_self [simp]: "0 < b \<Longrightarrow> divCeil (k * b) b = k"
proof -
  assume b: "0 < b"
  have "divCeil (k * b) b \<le> k" and "\<not> divCeil (k * b) b < k"
    using divCeil_le_iff [OF b, of "k * b" k] divCeil_mult_ge [OF b, of "k * b"] b by auto
  then show ?thesis by simp
qed

text \<open>C division and remainder truncate; on the non-negative identifiers of the mesh they agree with
  \<open>div\<close> and \<open>mod\<close>.\<close>

lemma sdiv_nonneg [simp]: "0 \<le> (a::int) \<Longrightarrow> 0 < b \<Longrightarrow> a sdiv b = a div b"
  by (cases "a = 0") (simp_all add: signed_divide_int_def)

lemma smod_nonneg [simp]: "0 \<le> (a::int) \<Longrightarrow> 0 < b \<Longrightarrow> a smod b = a mod b"
  by (cases "a = 0") (simp_all add: signed_modulo_int_def)

section \<open>Sliding windows\<close>

text \<open>
  \<open>v.erase(v.begin()); v.push_back(x)\<close>, the update of every history table of the code. Erasing from an
  empty vector is an error.
\<close>

definition slide :: "'a \<Rightarrow> 'a list \<Rightarrow> 'a list res" where
  "slide x xs = (if xs = [] then Inl Bad_index else Inr (tl xs @ [x]))"

lemma slide_Inr_iff [res_dest]: "slide x xs = Inr ys \<longleftrightarrow> xs \<noteq> [] \<and> ys = tl xs @ [x]"
  by (auto simp: slide_def)

lemma slide_ok [res_intro]: "xs \<noteq> [] \<Longrightarrow> slide x xs = Inr (tl xs @ [x])"
  by (simp add: slide_def)

section \<open>Lists\<close>

lemma sum_list_update_nat:
  "i < length xs \<Longrightarrow> sum_list (xs[i := (v::nat)]) + xs ! i = sum_list xs + v"
proof (induction xs arbitrary: i)
  case (Cons x xs)
  then show ?case by (cases i) (auto simp: ac_simps)
qed simp

lemma fold_min:
  fixes w :: "'a \<Rightarrow> 'b :: linorder"
  shows "fold (\<lambda>x m. if P x then (if w x \<le> m then w x else m) else m) xs m0
    = Min (insert m0 (w ` {x \<in> set xs. P x}))"
proof (induction xs rule: rev_induct)
  case (snoc x xs)
  let ?S = "w ` {x \<in> set xs. P x}"
  have fin: "finite ?S" by simp
  show ?case
  proof (cases "P x")
    case True
    have "w ` {y \<in> set (xs @ [x]). P y} = insert (w x) ?S" using True by auto
    then have "Min (insert m0 (w ` {y \<in> set (xs @ [x]). P y})) = Min (insert (w x) (insert m0 ?S))"
      by (simp add: insert_commute)
    also have "\<dots> = min (w x) (Min (insert m0 ?S))" using fin by (intro Min_insert) auto
    finally have "Min (insert m0 (w ` {y \<in> set (xs @ [x]). P y})) = min (w x) (Min (insert m0 ?S))" .
    moreover have "fold (\<lambda>x m. if P x then (if w x \<le> m then w x else m) else m) (xs @ [x]) m0
        = min (w x) (Min (insert m0 ?S))"
      using True by (simp only: fold_append fold_simps comp_apply snoc.IH if_True min_def)
    ultimately show ?thesis by (simp only:)
  next
    case False
    then have "{y \<in> set (xs @ [x]). P y} = {y \<in> set xs. P y}" by auto
    with snoc False show ?thesis by simp
  qed
qed simp

lemma fold_collect:
  "fold (\<lambda>x c. if P x then c @ [h x] else c) xs c0 = c0 @ map h (filter P xs)"
  by (induction xs arbitrary: c0) auto

lemma ball_update: "\<forall>x \<in> set xs. P x \<Longrightarrow> P y \<Longrightarrow> \<forall>x \<in> set (xs[i := y]). P x"
  using set_update_subset_insert [of xs i y] by blast

lemma map_update_same: "f q = f (xs ! p) \<Longrightarrow> map f (xs[p := q]) = map f xs"
proof (cases "p < length xs")
  case True
  assume "f q = f (xs ! p)"
  with True have "map f (xs[p := q]) = (map f xs)[p := map f xs ! p]" by (simp add: map_update)
  then show ?thesis by simp
next
  case False
  then show ?thesis by (simp add: list_update_beyond)
qed

section \<open>Queues\<close>

text \<open>
  The contract every buffer of the network offers to its user: elements leave in the order in which they
  entered, and taking from an empty buffer is an error.
\<close>

locale fifo =
  fixes contents :: "'q \<Rightarrow> 'x list"
    and enq :: "'x \<Rightarrow> 'q \<Rightarrow> 'q"
    and deq :: "'q \<Rightarrow> ('x \<times> 'q) res"
    and peek :: "'q \<Rightarrow> 'x res"
  assumes contents_enq: "contents (enq x q) = contents q @ [x]"
    and deq_Cons: "contents q = x # xs \<Longrightarrow> \<exists>q'. deq q = Inr (x, q') \<and> contents q' = xs"
    and deq_Nil: "contents q = [] \<Longrightarrow> deq q = Inl Bad_index"
    and peek_Cons: "contents q = x # xs \<Longrightarrow> peek q = Inr x"
begin

lemma deq_Inr_iff: "(\<exists>q'. deq q = Inr (x, q') \<and> contents q' = xs) \<longleftrightarrow> contents q = x # xs"
proof (cases "contents q")
  case Nil
  then show ?thesis by (simp add: deq_Nil)
next
  case (Cons y ys)
  then show ?thesis using deq_Cons by fastforce
qed

lemma deq_peek:
  assumes "deq q = Inr (x, q')"
  shows "peek q = Inr x" and "contents q = x # contents q'"
proof -
  obtain y ys where q: "contents q = y # ys"
    using assms deq_Nil by (cases "contents q") auto
  then obtain q'' where "deq q = Inr (y, q'')" "contents q'' = ys" using deq_Cons by blast
  with assms q peek_Cons show "peek q = Inr x" and "contents q = x # contents q'" by auto
qed

lemma contents_enq_all: "contents (fold enq xs q) = contents q @ xs"
  by (induction xs arbitrary: q) (simp_all add: contents_enq)

lemma drain:
  "n \<le> length (contents q) \<Longrightarrow>
   \<exists>q'. drainR deq n q = Inr (take n (contents q), q') \<and> contents q' = drop n (contents q)"
proof (induction n arbitrary: q)
  case (Suc n)
  then obtain x xs where q: "contents q = x # xs" by (cases "contents q") auto
  then obtain q' where q': "deq q = Inr (x, q')" "contents q' = xs" using deq_Cons by blast
  with Suc.IH [of q'] Suc.prems q show ?case by fastforce
qed simp

lemma drain_in_order:
  assumes "contents q = []"
  shows "\<exists>q'. drainR deq (length xs) (fold enq xs q) = Inr (xs, q') \<and> contents q' = []"
  using drain [of "length xs" "fold enq xs q"] assms by (simp add: contents_enq_all)

end

end
