(* ===== verification/Net_Dest.thy ===== *)
theory Net_Dest
  imports Garnet_Prelude
begin

text \<open>
  Destination sets of messages: \<open>Set\<close> (\<open>src/mem/ruby/common/Set.hh\<close>, a bit set of 64 bits, the default
  of \<open>NUMBER_BITS_PER_SET\<close>), \<open>MachineID\<close> and \<open>NetDest\<close> (\<open>src/mem/ruby/common/NetDest.cc\<close>, one \<open>Set\<close> per
  machine type). The functions \<open>MachineType_base_level\<close>, \<open>MachineType_base_number\<close>,
  \<open>MachineType_base_count\<close> and \<open>MachineType_from_base_level\<close> are generated from the coherence protocol;
  they are the fields of the parameter \<open>machine_conf\<close>, and \<open>machine_conf_ok\<close> states what the
  generator produces. The abstraction of a \<open>NetDest\<close> is the set of its (machine type, node) pairs.
\<close>

unbundle bit_operations_syntax

section \<open>Set\<close>

record RSet =
  set_nSize :: int
  set_bits :: u64

definition NUMBER_BITS_PER_SET :: nat where
  "NUMBER_BITS_PER_SET = 64"

definition Set_default :: RSet where
  "Set_default = \<lparr>set_nSize = 0, set_bits = 0\<rparr>"

definition Set_sized :: "int \<Rightarrow> RSet res" where
  "Set_sized sz = (if sz > int NUMBER_BITS_PER_SET then Inl Fatal
     else Inr \<lparr>set_nSize = sz, set_bits = 0\<rparr>)"

definition Set_add :: "nat \<Rightarrow> RSet \<Rightarrow> RSet res" where
  "Set_add index s = (if index < NUMBER_BITS_PER_SET
     then Inr (s\<lparr>set_bits := set_bit index (set_bits s)\<rparr>) else Inl Bad_index)"

definition Set_addSet :: "RSet \<Rightarrow> RSet \<Rightarrow> RSet res" where
  "Set_addSet obj s = bindR (assertR (set_nSize s = set_nSize obj)) (\<lambda>_.
     Inr (s\<lparr>set_bits := set_bits s OR set_bits obj\<rparr>))"

definition Set_remove :: "nat \<Rightarrow> RSet \<Rightarrow> RSet res" where
  "Set_remove index s = (if index < NUMBER_BITS_PER_SET
     then Inr (s\<lparr>set_bits := unset_bit index (set_bits s)\<rparr>) else Inl Bad_index)"

definition Set_removeSet :: "RSet \<Rightarrow> RSet \<Rightarrow> RSet res" where
  "Set_removeSet obj s = bindR (assertR (set_nSize s = set_nSize obj)) (\<lambda>_.
     Inr (s\<lparr>set_bits := set_bits s AND NOT (set_bits obj)\<rparr>))"

definition Set_clear :: "RSet \<Rightarrow> RSet" where
  "Set_clear s = s\<lparr>set_bits := 0\<rparr>"

definition Set_broadcast :: "RSet \<Rightarrow> RSet res" where
  "Set_broadcast s = loopR (\<lambda>j t. if 0 \<le> j then Set_remove (nat j) t else Inl Bad_index)
     [set_nSize s..int NUMBER_BITS_PER_SET - 1] (s\<lparr>set_bits := - 1\<rparr>)"

definition Set_count :: "RSet \<Rightarrow> nat" where
  "Set_count s = length (filter (bit (set_bits s)) [0..<NUMBER_BITS_PER_SET])"

definition Set_isEqual :: "RSet \<Rightarrow> RSet \<Rightarrow> bool res" where
  "Set_isEqual s obj = bindR (assertR (set_nSize s = set_nSize obj)) (\<lambda>_.
     Inr (set_bits s = set_bits obj))"

definition Set_OR :: "RSet \<Rightarrow> RSet \<Rightarrow> RSet res" where
  "Set_OR s obj = bindR (assertR (set_nSize s = set_nSize obj)) (\<lambda>_.
     bindR (Set_sized (set_nSize s)) (\<lambda>r. Inr (r\<lparr>set_bits := set_bits s OR set_bits obj\<rparr>)))"

definition Set_AND :: "RSet \<Rightarrow> RSet \<Rightarrow> RSet res" where
  "Set_AND s obj = bindR (assertR (set_nSize s = set_nSize obj)) (\<lambda>_.
     bindR (Set_sized (set_nSize s)) (\<lambda>r. Inr (r\<lparr>set_bits := set_bits s AND set_bits obj\<rparr>)))"

definition Set_intersectionIsEmpty :: "RSet \<Rightarrow> RSet \<Rightarrow> bool" where
  "Set_intersectionIsEmpty s obj = (set_bits s AND set_bits obj = 0)"

definition Set_isSuperset :: "RSet \<Rightarrow> RSet \<Rightarrow> bool res" where
  "Set_isSuperset s test = bindR (assertR (set_nSize s = set_nSize test)) (\<lambda>_.
     Inr (set_bits s OR set_bits test = set_bits s))"

definition Set_isSubset :: "RSet \<Rightarrow> RSet \<Rightarrow> bool res" where
  "Set_isSubset s test = Set_isSuperset test s"

definition Set_isElement :: "RSet \<Rightarrow> nat \<Rightarrow> bool res" where
  "Set_isElement s element = (if element < NUMBER_BITS_PER_SET
     then Inr (bit (set_bits s) element) else Inl Bad_index)"

definition Set_isBroadcast :: "RSet \<Rightarrow> bool" where
  "Set_isBroadcast s = (int (Set_count s) = set_nSize s)"

definition Set_isEmpty :: "RSet \<Rightarrow> bool" where
  "Set_isEmpty s = (set_bits s = 0)"

fun Set_scan :: "RSet \<Rightarrow> nat list \<Rightarrow> nat option res" where
  "Set_scan s [] = Inr None"
| "Set_scan s (i # is) = bindR (Set_isElement s i) (\<lambda>b. if b then Inr (Some i) else Set_scan s is)"

definition Set_smallestElement :: "RSet \<Rightarrow> nat res" where
  "Set_smallestElement s = bindR (Set_scan s [0..<nat (set_nSize s)]) (\<lambda>r.
     case r of Some i \<Rightarrow> Inr i | None \<Rightarrow> Inl Panic)"

definition Set_elementAt :: "RSet \<Rightarrow> nat \<Rightarrow> bool res" where
  "Set_elementAt s index = (if index < NUMBER_BITS_PER_SET
     then Inr (bit (set_bits s) index) else Inl Bad_index)"

definition Set_setSize :: "int \<Rightarrow> RSet \<Rightarrow> RSet res" where
  "Set_setSize sz s = (if sz > int NUMBER_BITS_PER_SET then Inl Fatal
     else Inr (s\<lparr>set_nSize := sz, set_bits := 0\<rparr>))"

section \<open>Machines\<close>

datatype MachineID = MachineID (mach_type: nat) (mach_num: nat)

record machine_conf =
  MachineType_NUM :: nat
  MachineType_base_level :: "nat \<Rightarrow> nat"
  MachineType_from_base_level :: "nat \<Rightarrow> nat"
  MachineType_base_number :: "nat \<Rightarrow> nat"
  MachineType_base_count :: "nat \<Rightarrow> nat"

definition MachineID_default :: "machine_conf \<Rightarrow> MachineID" where
  "MachineID_default mc = MachineID (MachineType_NUM mc) 0"

definition MachineID_isValid :: "machine_conf \<Rightarrow> MachineID \<Rightarrow> bool" where
  "MachineID_isValid mc m = (mach_type m \<noteq> MachineType_NUM mc)"

definition machine_conf_ok :: "machine_conf \<Rightarrow> bool" where
  "machine_conf_ok mc \<longleftrightarrow>
     (\<forall>m \<le> MachineType_NUM mc. MachineType_base_level mc m = m \<and> MachineType_from_base_level mc m = m
        \<and> MachineType_base_number mc m = (\<Sum>k<m. MachineType_base_count mc k)) \<and>
     (\<forall>m < MachineType_NUM mc. MachineType_base_count mc m \<le> NUMBER_BITS_PER_SET)"

section \<open>NetDest\<close>

type_synonym NetDest = "RSet list"

definition vecIndex :: "machine_conf \<Rightarrow> NetDest \<Rightarrow> MachineID \<Rightarrow> nat res" where
  "vecIndex mc nd m = (let vec_index = MachineType_base_level mc (mach_type m) in
     bindR (assertR (vec_index < length nd)) (\<lambda>_. Inr vec_index))"

definition NetDest_resize :: "machine_conf \<Rightarrow> NetDest \<Rightarrow> NetDest res" where
  "NetDest_resize mc nd =
     (let n = MachineType_base_level mc (MachineType_NUM mc);
          grown = take n nd @ replicate (n - length nd) Set_default in
      bindR (assertR (n = MachineType_NUM mc)) (\<lambda>_.
        mapR (\<lambda>(i, s). Set_setSize (int (MachineType_base_count mc i)) s) (enumerate 0 grown)))"

definition NetDest_new :: "machine_conf \<Rightarrow> NetDest res" where
  "NetDest_new mc = NetDest_resize mc []"

definition NetDest_add :: "machine_conf \<Rightarrow> MachineID \<Rightarrow> NetDest \<Rightarrow> NetDest res" where
  "NetDest_add mc newElement nd =
     bindR (vecIndex mc nd newElement) (\<lambda>i.
     bindR (assertR (int (mach_num newElement) < set_nSize (nd ! i))) (\<lambda>_.
     bindR (Set_add (mach_num newElement) (nd ! i)) (\<lambda>s. Inr (nd[i := s]))))"

definition NetDest_addNetDest :: "NetDest \<Rightarrow> NetDest \<Rightarrow> NetDest res" where
  "NetDest_addNetDest netDest nd = bindR (assertR (length nd = length netDest)) (\<lambda>_.
     mapR (\<lambda>(s, t). Set_addSet t s) (zip nd netDest))"

definition NetDest_setNetDest :: "machine_conf \<Rightarrow> nat \<Rightarrow> RSet \<Rightarrow> NetDest \<Rightarrow> NetDest res" where
  "NetDest_setNetDest mc machine st nd =
     bindR (assertR (int (MachineType_base_level mc (machine + 1))
                     - int (MachineType_base_level mc machine) = 1)) (\<lambda>_.
       put nd (int (MachineType_base_level mc machine)) st)"

definition NetDest_remove :: "machine_conf \<Rightarrow> MachineID \<Rightarrow> NetDest \<Rightarrow> NetDest res" where
  "NetDest_remove mc oldElement nd =
     bindR (vecIndex mc nd oldElement) (\<lambda>i.
     bindR (Set_remove (mach_num oldElement) (nd ! i)) (\<lambda>s. Inr (nd[i := s])))"

definition NetDest_removeNetDest :: "NetDest \<Rightarrow> NetDest \<Rightarrow> NetDest res" where
  "NetDest_removeNetDest netDest nd = bindR (assertR (length nd = length netDest)) (\<lambda>_.
     mapR (\<lambda>(s, t). Set_removeSet t s) (zip nd netDest))"

definition NetDest_clear :: "NetDest \<Rightarrow> NetDest" where
  "NetDest_clear nd = map Set_clear nd"

definition NetDest_broadcast_type :: "machine_conf \<Rightarrow> nat \<Rightarrow> NetDest \<Rightarrow> NetDest res" where
  "NetDest_broadcast_type mc machineType nd =
     loopR (\<lambda>i. NetDest_add mc (MachineID machineType i)) [0..<MachineType_base_count mc machineType] nd"

definition NetDest_broadcast :: "machine_conf \<Rightarrow> NetDest \<Rightarrow> NetDest res" where
  "NetDest_broadcast mc nd = loopR (NetDest_broadcast_type mc) [0..<MachineType_NUM mc] nd"

definition Set_elements :: "RSet \<Rightarrow> nat list res" where
  "Set_elements s = bindR (mapR (\<lambda>j. bindR (Set_isElement s j) (\<lambda>b. Inr (if b then [j] else [])))
       [0..<nat (set_nSize s)]) (\<lambda>jss. Inr (concat jss))"

definition NetDest_getAllDest :: "machine_conf \<Rightarrow> NetDest \<Rightarrow> nat list res" where
  "NetDest_getAllDest mc nd =
     bindR (mapR (\<lambda>(i, s). bindR (Set_elements s) (\<lambda>js.
              Inr (map (\<lambda>j. MachineType_base_number mc i + j) js))) (enumerate 0 nd))
       (\<lambda>dest. Inr (concat dest))"

definition NetDest_count :: "NetDest \<Rightarrow> nat" where
  "NetDest_count nd = sum_list (map Set_count nd)"

definition NetDest_elementAt :: "machine_conf \<Rightarrow> NetDest \<Rightarrow> MachineID \<Rightarrow> bool res" where
  "NetDest_elementAt mc nd m = bindR (vecIndex mc nd m) (\<lambda>i. Set_elementAt (nd ! i) (mach_num m))"

definition NetDest_smallestElement_type :: "machine_conf \<Rightarrow> nat \<Rightarrow> NetDest \<Rightarrow> MachineID res" where
  "NetDest_smallestElement_type mc machine nd =
     bindR (at nd (int (MachineType_base_level mc machine))) (\<lambda>s.
     bindR (Set_scan s [0..<nat (set_nSize s)]) (\<lambda>r.
       case r of Some j \<Rightarrow> Inr (MachineID machine j) | None \<Rightarrow> Inl Panic))"

fun NetDest_scan :: "machine_conf \<Rightarrow> (nat \<times> RSet) list \<Rightarrow> MachineID res" where
  "NetDest_scan mc [] = Inl Panic"
| "NetDest_scan mc ((i, s) # ss) = bindR (Set_scan s [0..<nat (set_nSize s)]) (\<lambda>r.
     case r of Some j \<Rightarrow> Inr (MachineID (MachineType_from_base_level mc i) j)
             | None \<Rightarrow> NetDest_scan mc ss)"

definition NetDest_smallestElement :: "machine_conf \<Rightarrow> NetDest \<Rightarrow> MachineID res" where
  "NetDest_smallestElement mc nd = bindR (assertR (0 < NetDest_count nd)) (\<lambda>_.
     NetDest_scan mc (enumerate 0 nd))"

definition NetDest_isBroadcast :: "NetDest \<Rightarrow> bool" where
  "NetDest_isBroadcast nd = list_all Set_isBroadcast nd"

definition NetDest_isEmpty :: "NetDest \<Rightarrow> bool" where
  "NetDest_isEmpty nd = list_all Set_isEmpty nd"

definition NetDest_OR :: "machine_conf \<Rightarrow> NetDest \<Rightarrow> NetDest \<Rightarrow> NetDest res" where
  "NetDest_OR mc nd orNetDest = bindR (assertR (length nd = length orNetDest)) (\<lambda>_.
     bindR (NetDest_new mc) (\<lambda>result.
     bindR (mapR (\<lambda>(s, t). Set_OR s t) (zip nd orNetDest)) (\<lambda>rs.
       if length rs \<le> length result then Inr (rs @ drop (length rs) result) else Inl Bad_index)))"

definition NetDest_AND :: "machine_conf \<Rightarrow> NetDest \<Rightarrow> NetDest \<Rightarrow> NetDest res" where
  "NetDest_AND mc nd andNetDest = bindR (assertR (length nd = length andNetDest)) (\<lambda>_.
     bindR (NetDest_new mc) (\<lambda>result.
     bindR (mapR (\<lambda>(s, t). Set_AND s t) (zip nd andNetDest)) (\<lambda>rs.
       if length rs \<le> length result then Inr (rs @ drop (length rs) result) else Inl Bad_index)))"

definition NetDest_intersectionIsNotEmpty :: "NetDest \<Rightarrow> NetDest \<Rightarrow> bool res" where
  "NetDest_intersectionIsNotEmpty nd other = bindR (assertR (length nd = length other)) (\<lambda>_.
     Inr (list_ex (\<lambda>(s, t). \<not> Set_intersectionIsEmpty s t) (zip nd other)))"

definition NetDest_isSuperset :: "NetDest \<Rightarrow> NetDest \<Rightarrow> bool res" where
  "NetDest_isSuperset nd test = bindR (assertR (length nd = length test)) (\<lambda>_.
     bindR (existsR (\<lambda>(s, t). bindR (Set_isSuperset s t) (\<lambda>b. Inr (\<not> b))) (zip nd test)) (\<lambda>found.
       Inr (\<not> found)))"

definition NetDest_isSubset :: "NetDest \<Rightarrow> NetDest \<Rightarrow> bool res" where
  "NetDest_isSubset nd test = NetDest_isSuperset test nd"

definition NetDest_isElement :: "machine_conf \<Rightarrow> NetDest \<Rightarrow> MachineID \<Rightarrow> bool res" where
  "NetDest_isElement mc nd m = bindR (vecIndex mc nd m) (\<lambda>i. Set_isElement (nd ! i) (mach_num m))"

definition NetDest_isEqual :: "NetDest \<Rightarrow> NetDest \<Rightarrow> bool res" where
  "NetDest_isEqual nd n = bindR (assertR (length nd = length n)) (\<lambda>_.
     bindR (existsR (\<lambda>(s, t). bindR (Set_isEqual s t) (\<lambda>b. Inr (\<not> b))) (zip nd n)) (\<lambda>found.
       Inr (\<not> found)))"

section \<open>Sets refine finite sets of node numbers\<close>

definition Set_elems :: "RSet \<Rightarrow> nat set" where
  "Set_elems s = {i. bit (set_bits s) i}"

definition Set_ok :: "RSet \<Rightarrow> bool" where
  "Set_ok s \<longleftrightarrow> 0 \<le> set_nSize s \<and> set_nSize s \<le> int NUMBER_BITS_PER_SET
     \<and> (\<forall>i \<in> Set_elems s. int i < set_nSize s)"

lemma bit_u64: "bit (w :: u64) n \<Longrightarrow> n < 64"
  using bit_imp_le_length [of w n] by simp

lemma Set_elems_bound: "i \<in> Set_elems s \<Longrightarrow> i < 64"
  by (auto simp: Set_elems_def dest: bit_imp_le_length)

lemma finite_Set_elems [simp]: "finite (Set_elems s)"
  by (rule finite_subset [of _ "{..<64}"]) (auto dest: Set_elems_bound)

lemma Set_bits_eq_iff: "set_bits s = set_bits t \<longleftrightarrow> Set_elems s = Set_elems t"
  by (auto simp: Set_elems_def set_eq_iff bit_eq_iff dest: bit_u64)

lemma Set_bits_zero_iff: "set_bits s = 0 \<longleftrightarrow> Set_elems s = {}"
  by (auto simp: Set_elems_def bit_eq_iff dest: bit_u64)

lemma Set_add_elems:
  "n < 64 \<Longrightarrow> \<exists>t. Set_add n s = Inr t \<and> set_nSize t = set_nSize s \<and> Set_elems t = insert n (Set_elems s)"
  by (auto simp: Set_add_def NUMBER_BITS_PER_SET_def Set_elems_def bit_set_bit_iff)

lemma Set_remove_elems:
  "n < 64 \<Longrightarrow> \<exists>t. Set_remove n s = Inr t \<and> set_nSize t = set_nSize s \<and> Set_elems t = Set_elems s - {n}"
  by (auto simp: Set_remove_def NUMBER_BITS_PER_SET_def Set_elems_def bit_unset_bit_iff)

lemma Set_union_elems:
  "Set_elems (s\<lparr>set_bits := set_bits t OR set_bits u\<rparr>) = Set_elems t \<union> Set_elems u"
  by (auto simp: Set_elems_def bit_or_iff)

lemma Set_inter_elems:
  "Set_elems (s\<lparr>set_bits := set_bits t AND set_bits u\<rparr>) = Set_elems t \<inter> Set_elems u"
  by (auto simp: Set_elems_def bit_and_iff)

lemma Set_diff_elems:
  "Set_elems (s\<lparr>set_bits := set_bits t AND NOT (set_bits u)\<rparr>) = Set_elems t - Set_elems u"
  by (auto simp: Set_elems_def bit_and_iff bit_not_iff dest: bit_imp_le_length)

lemma Set_intersectionIsEmpty_iff:
  "Set_intersectionIsEmpty s t \<longleftrightarrow> Set_elems s \<inter> Set_elems t = {}"
  by (auto simp: Set_intersectionIsEmpty_def Set_elems_def bit_eq_iff bit_and_iff dest: bit_u64)

lemma Set_superset_iff: "set_bits s OR set_bits t = set_bits s \<longleftrightarrow> Set_elems t \<subseteq> Set_elems s"
  by (auto simp: Set_elems_def bit_eq_iff bit_or_iff dest: bit_u64)

lemma Set_count_card: "Set_count s = card (Set_elems s)"
proof -
  have "Set_elems s = set (filter (bit (set_bits s)) [0..<64])"
    by (auto simp: Set_elems_def dest: bit_imp_le_length)
  then show ?thesis
    by (simp add: Set_count_def NUMBER_BITS_PER_SET_def distinct_card del: set_filter)
qed

lemma Set_isElement_iff: "n < 64 \<Longrightarrow> Set_isElement s n = Inr (n \<in> Set_elems s)"
  by (simp add: Set_isElement_def NUMBER_BITS_PER_SET_def Set_elems_def)

lemma Set_isBroadcast_iff:
  assumes "Set_ok s"
  shows "Set_isBroadcast s \<longleftrightarrow> Set_elems s = {..<nat (set_nSize s)}"
proof -
  have sub: "Set_elems s \<subseteq> {..<nat (set_nSize s)}"
    using assms by (auto simp: Set_ok_def)
  have "Set_isBroadcast s \<longleftrightarrow> card (Set_elems s) = card {..<nat (set_nSize s)}"
    using assms by (auto simp: Set_isBroadcast_def Set_count_card Set_ok_def)
  also have "\<dots> \<longleftrightarrow> Set_elems s = {..<nat (set_nSize s)}"
    using sub by (auto dest: card_subset_eq [OF finite_lessThan])
  finally show ?thesis .
qed

lemma Set_broadcast_loop:
  "set js \<subseteq> {0..<64} \<Longrightarrow>
   \<exists>t. loopR (\<lambda>j t. if 0 \<le> j then Set_remove (nat j) t else Inl Bad_index) js s = Inr t
      \<and> set_nSize t = set_nSize s \<and> Set_elems t = Set_elems s - nat ` set js"
proof (induction js arbitrary: s)
  case (Cons j js)
  then have j: "0 \<le> j" "nat j < 64" by auto
  from Set_remove_elems [OF j(2), of s] obtain t where
    t: "Set_remove (nat j) s = Inr t" "set_nSize t = set_nSize s" "Set_elems t = Set_elems s - {nat j}"
    by blast
  from Cons.IH [of t] Cons.prems obtain u where
    u: "loopR (\<lambda>j t. if 0 \<le> j then Set_remove (nat j) t else Inl Bad_index) js t = Inr u"
      "set_nSize u = set_nSize t" "Set_elems u = Set_elems t - nat ` set js" by auto
  show ?case by (rule exI [of _ u]) (use j t u in auto)
qed simp

text \<open>\<open>broadcast\<close> sets exactly the bits in use.\<close>

lemma Set_broadcast_elems:
  assumes "0 \<le> set_nSize s" "set_nSize s \<le> 64"
  shows "\<exists>t. Set_broadcast s = Inr t \<and> set_nSize t = set_nSize s \<and> Set_elems t = {..<nat (set_nSize s)}"
proof -
  let ?js = "[set_nSize s..int NUMBER_BITS_PER_SET - 1]"
  have js: "set ?js \<subseteq> {0..<64}" using assms by (auto simp: NUMBER_BITS_PER_SET_def)
  have "{..<64} - nat ` set ?js = {..<nat (set_nSize s)}"
  proof (intro set_eqI iffI)
    fix i assume i: "i \<in> {..<64} - nat ` set ?js"
    show "i \<in> {..<nat (set_nSize s)}"
    proof (rule ccontr)
      assume "i \<notin> {..<nat (set_nSize s)}"
      with i have "int i \<in> set ?js" by (auto simp: NUMBER_BITS_PER_SET_def)
      then have "i \<in> nat ` set ?js" by (metis image_eqI nat_int)
      with i show False by blast
    qed
  qed (use assms in \<open>auto simp: NUMBER_BITS_PER_SET_def\<close>)
  moreover have "Set_elems (s\<lparr>set_bits := - 1\<rparr>) = {..<64}"
    by (auto simp: Set_elems_def bit_minus_1_iff dest: bit_imp_le_length)
  ultimately show ?thesis
    using Set_broadcast_loop [OF js, of "s\<lparr>set_bits := - 1\<rparr>"] by (auto simp: Set_broadcast_def)
qed

lemma Set_scan_spec:
  "set is \<subseteq> {..<64} \<Longrightarrow> Set_scan s is = Inr (find (\<lambda>i. i \<in> Set_elems s) is)"
  by (induction "is") (auto simp: Set_isElement_iff)

lemma Set_elements_spec:
  assumes "Set_ok s"
  shows "Set_elements s = Inr (sorted_list_of_set (Set_elems s))"
proof -
  let ?f = "filter (\<lambda>j. j \<in> Set_elems s) [0..<nat (set_nSize s)]"
  have "mapR (\<lambda>j. bindR (Set_isElement s j) (\<lambda>b. Inr (if b then [j] else []))) [0..<nat (set_nSize s)]
      = Inr (map (\<lambda>j. if j \<in> Set_elems s then [j] else []) [0..<nat (set_nSize s)])"
    using assms by (intro mapR_total) (auto simp: Set_ok_def NUMBER_BITS_PER_SET_def Set_isElement_iff)
  moreover have "concat (map (\<lambda>j. if P j then [j] else []) xs) = filter P xs" for P and xs :: "nat list"
    by (induction xs) auto
  ultimately have "Set_elements s = Inr ?f"
    by (simp add: Set_elements_def)
  moreover have "set ?f = Set_elems s"
    using assms by (auto simp: Set_ok_def)
  then have "?f = sorted_list_of_set (Set_elems s)"
    by (metis distinct_filter distinct_upt sorted_wrt_filter sorted_list_of_set.idem_if_sorted_distinct sorted_upt)
  ultimately show ?thesis by simp
qed

section \<open>NetDest refines finite sets of machines\<close>

definition NetDest_elems :: "NetDest \<Rightarrow> MachineID set" where
  "NetDest_elems nd = {m. mach_type m < length nd \<and> mach_num m \<in> Set_elems (nd ! mach_type m)}"

definition NetDest_ok :: "machine_conf \<Rightarrow> NetDest \<Rightarrow> bool" where
  "NetDest_ok mc nd \<longleftrightarrow> machine_conf_ok mc \<and> length nd = MachineType_NUM mc
     \<and> (\<forall>i < length nd. Set_ok (nd ! i) \<and> set_nSize (nd ! i) = int (MachineType_base_count mc i))"

definition MachineID_ok :: "machine_conf \<Rightarrow> MachineID \<Rightarrow> bool" where
  "MachineID_ok mc m \<longleftrightarrow> mach_type m < MachineType_NUM mc \<and> mach_num m < MachineType_base_count mc (mach_type m)"

lemma NetDest_elems_update:
  "x \<in> NetDest_elems (nd[i := s]) \<longleftrightarrow>
     mach_type x < length nd \<and> mach_num x \<in> Set_elems (if mach_type x = i then s else nd ! mach_type x)"
  by (auto simp: NetDest_elems_def nth_list_update)

lemma MachineID_eq_iff: "m = n \<longleftrightarrow> mach_type m = mach_type n \<and> mach_num m = mach_num n"
  by (cases m; cases n) simp

lemma NetDest_ok_update:
  "NetDest_ok mc nd \<Longrightarrow> i < length nd \<Longrightarrow> set_nSize s = set_nSize (nd ! i) \<Longrightarrow> Set_ok s
    \<Longrightarrow> NetDest_ok mc (nd[i := s])"
  by (auto simp: NetDest_ok_def nth_list_update)

lemma NetDest_ok_elemsD: "NetDest_ok mc nd \<Longrightarrow> m \<in> NetDest_elems nd \<Longrightarrow> MachineID_ok mc m"
  by (fastforce simp: NetDest_ok_def NetDest_elems_def MachineID_ok_def Set_ok_def)

lemma vecIndex_ok:
  "NetDest_ok mc nd \<Longrightarrow> MachineID_ok mc m \<Longrightarrow> vecIndex mc nd m = Inr (mach_type m)"
  by (auto simp: vecIndex_def NetDest_ok_def MachineID_ok_def machine_conf_ok_def)

lemma MachineID_ok_num: "NetDest_ok mc nd \<Longrightarrow> MachineID_ok mc m \<Longrightarrow>
    mach_num m < 64 \<and> int (mach_num m) < set_nSize (nd ! mach_type m) \<and> mach_type m < length nd"
  by (fastforce simp: NetDest_ok_def MachineID_ok_def machine_conf_ok_def NUMBER_BITS_PER_SET_def)

lemma NetDest_add_elems:
  assumes nd: "NetDest_ok mc nd" and m: "MachineID_ok mc m"
  shows "\<exists>nd'. NetDest_add mc m nd = Inr nd' \<and> NetDest_ok mc nd' \<and> NetDest_elems nd' = insert m (NetDest_elems nd)"
proof -
  let ?i = "mach_type m"
  note b = MachineID_ok_num [OF nd m]
  obtain s where s: "Set_add (mach_num m) (nd ! ?i) = Inr s" "set_nSize s = set_nSize (nd ! ?i)"
      "Set_elems s = insert (mach_num m) (Set_elems (nd ! ?i))"
    using Set_add_elems b by blast
  have "Set_ok s" using nd b s by (auto simp: Set_ok_def NetDest_ok_def)
  then have "NetDest_ok mc (nd[?i := s])" using nd b s by (intro NetDest_ok_update) auto
  moreover have "NetDest_elems (nd[?i := s]) = insert m (NetDest_elems nd)"
  proof (rule set_eqI)
    fix x show "x \<in> NetDest_elems (nd[?i := s]) \<longleftrightarrow> x \<in> insert m (NetDest_elems nd)"
      using b s(3) by (cases "mach_type x = mach_type m")
        (simp_all add: NetDest_elems_def MachineID_eq_iff conj_ac)
  qed
  ultimately show ?thesis using b s by (auto simp: NetDest_add_def vecIndex_ok [OF nd m])
qed

lemma NetDest_remove_elems:
  assumes nd: "NetDest_ok mc nd" and m: "MachineID_ok mc m"
  shows "\<exists>nd'. NetDest_remove mc m nd = Inr nd' \<and> NetDest_ok mc nd' \<and> NetDest_elems nd' = NetDest_elems nd - {m}"
proof -
  let ?i = "mach_type m"
  note b = MachineID_ok_num [OF nd m]
  obtain s where s: "Set_remove (mach_num m) (nd ! ?i) = Inr s" "set_nSize s = set_nSize (nd ! ?i)"
      "Set_elems s = Set_elems (nd ! ?i) - {mach_num m}"
    using Set_remove_elems b by blast
  have "Set_ok s" using nd b s by (auto simp: Set_ok_def NetDest_ok_def)
  then have "NetDest_ok mc (nd[?i := s])" using nd b s by (intro NetDest_ok_update) auto
  moreover have "NetDest_elems (nd[?i := s]) = NetDest_elems nd - {m}"
  proof (rule set_eqI)
    fix x show "x \<in> NetDest_elems (nd[?i := s]) \<longleftrightarrow> x \<in> NetDest_elems nd - {m}"
      using b s(3) by (cases "mach_type x = mach_type m")
        (simp_all add: NetDest_elems_def MachineID_eq_iff conj_ac)
  qed
  ultimately show ?thesis using b s by (auto simp: NetDest_remove_def vecIndex_ok [OF nd m])
qed

text \<open>A set-wise operation on two well-formed destination sets is the operation on their elements.\<close>

lemma NetDest_pointwise:
  assumes a: "NetDest_ok mc a" and b: "NetDest_ok mc b"
    and f: "\<And>s t. set_nSize s = set_nSize t \<Longrightarrow> Set_ok s \<Longrightarrow> Set_ok t \<Longrightarrow>
       f (s, t) = Inr (g (s, t)) \<and> set_nSize (g (s, t)) = set_nSize s
         \<and> Set_elems (g (s, t)) = {i. P (i \<in> Set_elems s) (i \<in> Set_elems t)}"
    and P: "\<not> P False False"
  shows "mapR f (zip a b) = Inr (map g (zip a b))"
    and "NetDest_ok mc (map g (zip a b))"
    and "NetDest_elems (map g (zip a b)) = {m. P (m \<in> NetDest_elems a) (m \<in> NetDest_elems b)}"
proof -
  have len: "length a = length b" using a b by (simp add: NetDest_ok_def)
  have fi: "f (a ! i, b ! i) = Inr (g (a ! i, b ! i)) \<and> set_nSize (g (a ! i, b ! i)) = set_nSize (a ! i)
         \<and> Set_elems (g (a ! i, b ! i)) = {k. P (k \<in> Set_elems (a ! i)) (k \<in> Set_elems (b ! i))}"
    if "i < length a" for i
    using that a b f [of "a ! i" "b ! i"] by (auto simp: NetDest_ok_def)
  show "mapR f (zip a b) = Inr (map g (zip a b))"
    by (rule mapR_total) (use fi in \<open>auto simp: in_set_zip\<close>)
  show "NetDest_ok mc (map g (zip a b))"
    unfolding NetDest_ok_def
  proof (intro conjI allI impI)
    fix i assume i: "i < length (map g (zip a b))"
    then have i': "i < length a" by simp
    have sub: "k \<in> Set_elems (a ! i) \<or> k \<in> Set_elems (b ! i)" if "k \<in> Set_elems (g (a ! i, b ! i))" for k
      using that fi [OF i'] P by (cases "k \<in> Set_elems (a ! i)"; cases "k \<in> Set_elems (b ! i)") auto
    have "Set_ok (a ! i)" and "Set_ok (b ! i)" and "set_nSize (a ! i) = set_nSize (b ! i)"
      using i' a b by (auto simp: NetDest_ok_def)
    then show "Set_ok (map g (zip a b) ! i)"
      using i i' len fi [OF i'] sub by (fastforce simp: Set_ok_def)
    show "set_nSize (map g (zip a b) ! i) = int (MachineType_base_count mc i)"
      using i i' len a fi [OF i'] by (simp add: NetDest_ok_def)
  qed (use a b in \<open>auto simp: NetDest_ok_def\<close>)
  show "NetDest_elems (map g (zip a b)) = {m. P (m \<in> NetDest_elems a) (m \<in> NetDest_elems b)}"
  proof (rule set_eqI)
    fix m
    show "m \<in> NetDest_elems (map g (zip a b)) \<longleftrightarrow> m \<in> {m. P (m \<in> NetDest_elems a) (m \<in> NetDest_elems b)}"
    proof (cases "mach_type m < length a")
      case True
      from fi [OF this] True len show ?thesis by (simp add: NetDest_elems_def)
    next
      case False
      with len P show ?thesis by (simp add: NetDest_elems_def)
    qed
  qed
qed

lemma NetDest_addNetDest_elems:
  assumes "NetDest_ok mc a" "NetDest_ok mc b"
  shows "\<exists>c. NetDest_addNetDest b a = Inr c \<and> NetDest_ok mc c \<and> NetDest_elems c = NetDest_elems a \<union> NetDest_elems b"
proof -
  let ?g = "\<lambda>(s, t). s\<lparr>set_bits := set_bits s OR set_bits t\<rparr>"
  have f: "(\<lambda>(s, t). Set_addSet t s) (s, t) = Inr (?g (s, t)) \<and> set_nSize (?g (s, t)) = set_nSize s
      \<and> Set_elems (?g (s, t)) = {i. i \<in> Set_elems s \<or> i \<in> Set_elems t}"
    if "set_nSize s = set_nSize t" for s t
    using that by (simp add: Set_addSet_def Set_union_elems Un_def)
  note pw = NetDest_pointwise [OF assms, of _ ?g "(\<or>)", OF f]
  have "NetDest_addNetDest b a = Inr (map ?g (zip a b))"
    using assms pw(1) by (simp add: NetDest_addNetDest_def NetDest_ok_def)
  moreover have "NetDest_ok mc (map ?g (zip a b))" by (rule pw(2)) simp_all
  moreover have "NetDest_elems (map ?g (zip a b)) = NetDest_elems a \<union> NetDest_elems b"
    using pw(3) by auto
  ultimately show ?thesis by blast
qed

lemma NetDest_removeNetDest_elems:
  assumes "NetDest_ok mc a" "NetDest_ok mc b"
  shows "\<exists>c. NetDest_removeNetDest b a = Inr c \<and> NetDest_ok mc c \<and> NetDest_elems c = NetDest_elems a - NetDest_elems b"
proof -
  let ?g = "\<lambda>(s, t). s\<lparr>set_bits := set_bits s AND NOT (set_bits t)\<rparr>"
  have f: "(\<lambda>(s, t). Set_removeSet t s) (s, t) = Inr (?g (s, t)) \<and> set_nSize (?g (s, t)) = set_nSize s
      \<and> Set_elems (?g (s, t)) = {i. i \<in> Set_elems s \<and> i \<notin> Set_elems t}"
    if "set_nSize s = set_nSize t" for s t
    using that by (simp add: Set_removeSet_def Set_diff_elems set_diff_eq)
  note pw = NetDest_pointwise [OF assms, of _ ?g "\<lambda>p q. p \<and> \<not> q", OF f]
  have "NetDest_removeNetDest b a = Inr (map ?g (zip a b))"
    using assms pw(1) by (simp add: NetDest_removeNetDest_def NetDest_ok_def)
  moreover have "NetDest_ok mc (map ?g (zip a b))" by (rule pw(2)) simp_all
  moreover have "NetDest_elems (map ?g (zip a b)) = NetDest_elems a - NetDest_elems b"
    using pw(3) by auto
  ultimately show ?thesis by blast
qed

lemma NetDest_resize_elems:
  assumes "machine_conf_ok mc"
  shows "\<exists>c. NetDest_resize mc nd = Inr c \<and> NetDest_ok mc c \<and> NetDest_elems c = {}"
proof -
  let ?n = "MachineType_NUM mc"
  define grown where "grown = take ?n nd @ replicate (?n - length nd) Set_default"
  let ?g = "\<lambda>(i, s :: RSet). \<lparr>set_nSize = int (MachineType_base_count mc i), set_bits = 0\<rparr>"
  let ?c = "map ?g (enumerate 0 grown)"
  have len: "length grown = ?n" by (simp add: grown_def)
  have "mapR (\<lambda>(i, s). Set_setSize (int (MachineType_base_count mc i)) s) (enumerate 0 grown) = Inr ?c"
    using assms len by (intro mapR_total) (auto simp: Set_setSize_def machine_conf_ok_def in_set_enumerate_eq)
  then have "NetDest_resize mc nd = Inr ?c"
    using assms by (simp add: NetDest_resize_def machine_conf_ok_def Let_def grown_def)
  moreover have nth: "?c ! i = \<lparr>set_nSize = int (MachineType_base_count mc i), set_bits = 0\<rparr>" if "i < ?n" for i
    using that len by (simp add: nth_enumerate_eq)
  then have "NetDest_ok mc ?c"
    using assms len by (auto simp: NetDest_ok_def Set_ok_def Set_elems_def machine_conf_ok_def)
  moreover have "NetDest_elems ?c = {}"
    using nth len by (auto simp: NetDest_elems_def Set_elems_def)
  ultimately show ?thesis by blast
qed

lemma NetDest_new_elems:
  "machine_conf_ok mc \<Longrightarrow> \<exists>c. NetDest_new mc = Inr c \<and> NetDest_ok mc c \<and> NetDest_elems c = {}"
  unfolding NetDest_new_def by (rule NetDest_resize_elems)

lemma NetDest_AND_elems:
  assumes "NetDest_ok mc a" "NetDest_ok mc b"
  shows "\<exists>c. NetDest_AND mc a b = Inr c \<and> NetDest_ok mc c \<and> NetDest_elems c = NetDest_elems a \<inter> NetDest_elems b"
proof -
  let ?g = "\<lambda>(s, t). \<lparr>set_nSize = set_nSize s, set_bits = set_bits s AND set_bits t\<rparr>"
  have f: "(\<lambda>(s, t). Set_AND s t) (s, t) = Inr (?g (s, t)) \<and> set_nSize (?g (s, t)) = set_nSize s
      \<and> Set_elems (?g (s, t)) = {i. i \<in> Set_elems s \<and> i \<in> Set_elems t}"
    if "set_nSize s = set_nSize t" and "Set_ok s" for s t
    using that by (auto simp: Set_AND_def Set_sized_def Set_ok_def Set_elems_def bit_and_iff)
  note pw = NetDest_pointwise [OF assms, of _ ?g "(\<and>)", OF f]
  obtain e where e: "NetDest_new mc = Inr e" "NetDest_ok mc e"
    using NetDest_new_elems [of mc] assms(1) unfolding NetDest_ok_def by blast
  have "NetDest_AND mc a b = Inr (map ?g (zip a b))"
    using assms pw(1) e by (simp add: NetDest_AND_def NetDest_ok_def)
  moreover have "NetDest_ok mc (map ?g (zip a b))" by (rule pw(2)) simp_all
  moreover have "NetDest_elems (map ?g (zip a b)) = NetDest_elems a \<inter> NetDest_elems b"
    using pw(3) by auto
  ultimately show ?thesis by blast
qed

lemma NetDest_OR_elems:
  assumes "NetDest_ok mc a" "NetDest_ok mc b"
  shows "\<exists>c. NetDest_OR mc a b = Inr c \<and> NetDest_ok mc c \<and> NetDest_elems c = NetDest_elems a \<union> NetDest_elems b"
proof -
  let ?g = "\<lambda>(s, t). \<lparr>set_nSize = set_nSize s, set_bits = set_bits s OR set_bits t\<rparr>"
  have f: "(\<lambda>(s, t). Set_OR s t) (s, t) = Inr (?g (s, t)) \<and> set_nSize (?g (s, t)) = set_nSize s
      \<and> Set_elems (?g (s, t)) = {i. i \<in> Set_elems s \<or> i \<in> Set_elems t}"
    if "set_nSize s = set_nSize t" and "Set_ok s" for s t
    using that by (auto simp: Set_OR_def Set_sized_def Set_ok_def Set_elems_def bit_or_iff)
  note pw = NetDest_pointwise [OF assms, of _ ?g "(\<or>)", OF f]
  obtain e where e: "NetDest_new mc = Inr e" "NetDest_ok mc e"
    using NetDest_new_elems [of mc] assms(1) unfolding NetDest_ok_def by blast
  have "NetDest_OR mc a b = Inr (map ?g (zip a b))"
    using assms pw(1) e by (simp add: NetDest_OR_def NetDest_ok_def)
  moreover have "NetDest_ok mc (map ?g (zip a b))" by (rule pw(2)) simp_all
  moreover have "NetDest_elems (map ?g (zip a b)) = NetDest_elems a \<union> NetDest_elems b"
    using pw(3) by auto
  ultimately show ?thesis by blast
qed

lemma NetDest_intersection_iff:
  assumes "NetDest_ok mc a" "NetDest_ok mc b"
  shows "NetDest_intersectionIsNotEmpty a b = Inr (NetDest_elems a \<inter> NetDest_elems b \<noteq> {})"
proof -
  have len: "length a = length b" using assms by (simp add: NetDest_ok_def)
  have "list_ex (\<lambda>(s, t). \<not> Set_intersectionIsEmpty s t) (zip a b)
      \<longleftrightarrow> (\<exists>i < length a. Set_elems (a ! i) \<inter> Set_elems (b ! i) \<noteq> {})"
    unfolding list_ex_iff set_zip Set_intersectionIsEmpty_iff using len by force
  also have "\<dots> \<longleftrightarrow> NetDest_elems a \<inter> NetDest_elems b \<noteq> {}"
  proof
    assume "\<exists>i < length a. Set_elems (a ! i) \<inter> Set_elems (b ! i) \<noteq> {}"
    then obtain i n where "i < length a" "n \<in> Set_elems (a ! i)" "n \<in> Set_elems (b ! i)" by blast
    then have "MachineID i n \<in> NetDest_elems a \<inter> NetDest_elems b"
      using len by (simp add: NetDest_elems_def)
    then show "NetDest_elems a \<inter> NetDest_elems b \<noteq> {}" by blast
  qed (auto simp: NetDest_elems_def)
  finally show ?thesis using len by (simp add: NetDest_intersectionIsNotEmpty_def)
qed

lemma NetDest_isElement_iff:
  "NetDest_ok mc nd \<Longrightarrow> MachineID_ok mc m \<Longrightarrow> NetDest_isElement mc nd m = Inr (m \<in> NetDest_elems nd)"
  using MachineID_ok_num [of mc nd m]
  by (simp add: NetDest_isElement_def vecIndex_ok Set_isElement_iff NetDest_elems_def)

lemma NetDest_subset_iff:
  assumes "length a = length b"
  shows "NetDest_elems b \<subseteq> NetDest_elems a \<longleftrightarrow> (\<forall>i < length a. Set_elems (b ! i) \<subseteq> Set_elems (a ! i))"
proof
  assume sub: "NetDest_elems b \<subseteq> NetDest_elems a"
  show "\<forall>i < length a. Set_elems (b ! i) \<subseteq> Set_elems (a ! i)"
  proof (intro allI impI subsetI)
    fix i n assume "i < length a" "n \<in> Set_elems (b ! i)"
    then have "MachineID i n \<in> NetDest_elems b" using assms by (simp add: NetDest_elems_def)
    with sub have "MachineID i n \<in> NetDest_elems a" by blast
    then show "n \<in> Set_elems (a ! i)" by (simp add: NetDest_elems_def)
  qed
qed (use assms in \<open>auto simp: NetDest_elems_def\<close>)

lemma NetDest_isSuperset_iff:
  assumes "NetDest_ok mc a" "NetDest_ok mc b"
  shows "NetDest_isSuperset a b = Inr (NetDest_elems b \<subseteq> NetDest_elems a)"
proof -
  have len: "length a = length b" using assms by (simp add: NetDest_ok_def)
  have "existsR (\<lambda>(s, t). bindR (Set_isSuperset s t) (\<lambda>b. Inr (\<not> b))) (zip a b)
      = Inr (\<exists>p \<in> set (zip a b). \<not> Set_elems (snd p) \<subseteq> Set_elems (fst p))"
    using assms by (intro existsR_total)
      (auto simp: in_set_zip NetDest_ok_def Set_isSuperset_def Set_superset_iff)
  moreover have "(\<exists>p \<in> set (zip a b). \<not> Set_elems (snd p) \<subseteq> Set_elems (fst p))
      \<longleftrightarrow> \<not> NetDest_elems b \<subseteq> NetDest_elems a"
    unfolding NetDest_subset_iff [OF len] set_zip using len by force
  ultimately show ?thesis using len by (simp add: NetDest_isSuperset_def)
qed

lemma NetDest_eq_iff:
  assumes "length a = length b"
  shows "NetDest_elems a = NetDest_elems b \<longleftrightarrow> (\<forall>i < length a. Set_elems (a ! i) = Set_elems (b ! i))"
  unfolding set_eq_subset NetDest_subset_iff [OF assms] NetDest_subset_iff [OF assms [symmetric]] using assms by auto

lemma NetDest_isEqual_iff:
  assumes "NetDest_ok mc a" "NetDest_ok mc b"
  shows "NetDest_isEqual a b = Inr (NetDest_elems a = NetDest_elems b)"
proof -
  have len: "length a = length b" using assms by (simp add: NetDest_ok_def)
  have "existsR (\<lambda>(s, t). bindR (Set_isEqual s t) (\<lambda>b. Inr (\<not> b))) (zip a b)
      = Inr (\<exists>p \<in> set (zip a b). Set_elems (fst p) \<noteq> Set_elems (snd p))"
    using assms by (intro existsR_total) (auto simp: in_set_zip NetDest_ok_def Set_isEqual_def Set_bits_eq_iff)
  moreover have "(\<exists>p \<in> set (zip a b). Set_elems (fst p) \<noteq> Set_elems (snd p)) \<longleftrightarrow> NetDest_elems a \<noteq> NetDest_elems b"
    unfolding NetDest_eq_iff [OF len] set_zip using len by force
  ultimately show ?thesis using len by (simp add: NetDest_isEqual_def)
qed

lemma NetDest_elems_Union: "NetDest_elems nd = (\<Union>i \<in> {..<length nd}. MachineID i ` Set_elems (nd ! i))"
proof (rule set_eqI)
  fix m show "m \<in> NetDest_elems nd \<longleftrightarrow> m \<in> (\<Union>i \<in> {..<length nd}. MachineID i ` Set_elems (nd ! i))"
    by (cases m) (auto simp: NetDest_elems_def)
qed

lemma finite_NetDest_elems: "finite (NetDest_elems nd)"
  by (simp add: NetDest_elems_Union)

lemma NetDest_count_card: "NetDest_count nd = card (NetDest_elems nd)"
proof -
  have "card (NetDest_elems nd) = (\<Sum>i<length nd. card (MachineID i ` Set_elems (nd ! i)))"
    unfolding NetDest_elems_Union by (rule card_UN_disjoint) auto
  also have "\<dots> = (\<Sum>i<length nd. Set_count (nd ! i))"
    by (simp add: card_image inj_on_def Set_count_card)
  finally show ?thesis by (simp add: NetDest_count_def sum_list_sum_nth lessThan_atLeast0)
qed

lemma NetDest_isEmpty_iff: "NetDest_isEmpty nd \<longleftrightarrow> NetDest_elems nd = {}"
  unfolding NetDest_isEmpty_def list_all_length Set_isEmpty_def Set_bits_zero_iff NetDest_elems_Union by auto

lemma NetDest_clear_elems:
  assumes "NetDest_ok mc nd"
  shows "NetDest_ok mc (NetDest_clear nd) \<and> NetDest_elems (NetDest_clear nd) = {}"
proof -
  have "Set_elems (Set_clear s) = {}" "set_nSize (Set_clear s) = set_nSize s" for s
    by (simp_all add: Set_clear_def Set_elems_def)
  then show ?thesis using assms
    by (auto simp: NetDest_clear_def NetDest_ok_def NetDest_elems_def Set_ok_def)
qed

lemma NetDest_setNetDest_elems:
  assumes nd: "NetDest_ok mc nd" and t: "t < MachineType_NUM mc" and s: "Set_ok s" "set_nSize s = int (MachineType_base_count mc t)"
  shows "\<exists>c. NetDest_setNetDest mc t s nd = Inr c \<and> NetDest_ok mc c
      \<and> NetDest_elems c = {m \<in> NetDest_elems nd. mach_type m \<noteq> t} \<union> MachineID t ` Set_elems s"
proof -
  have l: "t < length nd" "MachineType_base_level mc t = t" "MachineType_base_level mc (Suc t) = Suc t"
    using nd t by (auto simp: NetDest_ok_def machine_conf_ok_def)
  then have "NetDest_setNetDest mc t s nd = Inr (nd[t := s])" by (simp add: NetDest_setNetDest_def put_def)
  moreover have "NetDest_ok mc (nd[t := s])"
    using nd l s by (intro NetDest_ok_update) (simp_all add: NetDest_ok_def)
  moreover have "NetDest_elems (nd[t := s]) = {m \<in> NetDest_elems nd. mach_type m \<noteq> t} \<union> MachineID t ` Set_elems s"
  proof (rule set_eqI)
    fix m show "m \<in> NetDest_elems (nd[t := s]) \<longleftrightarrow> m \<in> {m \<in> NetDest_elems nd. mach_type m \<noteq> t} \<union> MachineID t ` Set_elems s"
      using l(1) by (cases m; cases "mach_type m = t") (auto simp: NetDest_elems_def)
  qed
  ultimately show ?thesis by blast
qed

lemma NetDest_elementAt_iff:
  "NetDest_ok mc nd \<Longrightarrow> MachineID_ok mc m \<Longrightarrow> NetDest_elementAt mc nd m = Inr (m \<in> NetDest_elems nd)"
  using MachineID_ok_num [of mc nd m]
  by (simp add: NetDest_elementAt_def vecIndex_ok Set_elementAt_def NUMBER_BITS_PER_SET_def NetDest_elems_def Set_elems_def)

text \<open>The scan of one set finds its least element.\<close>

lemma find_least:
  assumes "A \<subseteq> {..<n}"
  shows "find (\<lambda>i. i \<in> A) [0..<n] = (if A = {} then None else Some (LEAST i. i \<in> A))"
proof (cases "A = {}")
  case False
  then obtain x where x: "x \<in> A" by blast
  define k where "k = (LEAST i. i \<in> A)"
  have k: "k \<in> A" unfolding k_def using x by (rule LeastI)
  then have n: "k < n" using assms by blast
  have "\<forall>j < k. j \<notin> A" unfolding k_def using not_less_Least by blast
  then have "find (\<lambda>i. i \<in> A) [0..<n] = Some k"
    unfolding find_Some_iff using k n by (intro exI [of _ k]) simp
  with False show ?thesis by (simp add: k_def)
qed (simp add: find_None_iff)

lemma Set_scan_least:
  assumes "Set_ok s"
  shows "Set_scan s [0..<nat (set_nSize s)] = Inr (if Set_elems s = {} then None else Some (LEAST n. n \<in> Set_elems s))"
proof -
  have "Set_elems s \<subseteq> {..<nat (set_nSize s)}" using assms by (auto simp: Set_ok_def)
  then show ?thesis using assms find_least [of "Set_elems s"]
    by (subst Set_scan_spec) (auto simp: Set_ok_def NUMBER_BITS_PER_SET_def)
qed

lemma NetDest_smallestElement_type_least:
  assumes nd: "NetDest_ok mc nd" and t: "t < MachineType_NUM mc"
  shows "NetDest_smallestElement_type mc t nd =
    (if \<exists>m \<in> NetDest_elems nd. mach_type m = t then Inr (MachineID t (LEAST n. MachineID t n \<in> NetDest_elems nd)) else Inl Panic)"
proof -
  have l: "t < length nd" "MachineType_base_level mc t = t" "Set_ok (nd ! t)"
    using nd t by (auto simp: NetDest_ok_def machine_conf_ok_def)
  have e: "MachineID t n \<in> NetDest_elems nd \<longleftrightarrow> n \<in> Set_elems (nd ! t)" for n using l(1) by (simp add: NetDest_elems_def)
  have "(\<exists>m \<in> NetDest_elems nd. mach_type m = t) \<longleftrightarrow> Set_elems (nd ! t) \<noteq> {}"
    using e by (metis MachineID.sel(1) MachineID.collapse ex_in_conv)
  then show ?thesis using l by (simp add: NetDest_smallestElement_type_def at_def Set_scan_least e)
qed

text \<open>The order in which \<open>smallestElement\<close> looks: by type, then by number.\<close>

definition mach_le :: "MachineID \<Rightarrow> MachineID \<Rightarrow> bool" where
  "mach_le m n \<longleftrightarrow> mach_type m < mach_type n \<or> mach_type m = mach_type n \<and> mach_num m \<le> mach_num n"

lemma NetDest_scan_least:
  assumes "\<forall>i < length nd. Set_ok (nd ! i)" and "\<forall>i < k + length nd. MachineType_from_base_level mc i = i" and "\<exists>i < length nd. Set_elems (nd ! i) \<noteq> {}"
  shows "\<exists>i < length nd. \<exists>n. NetDest_scan mc (enumerate k nd) = Inr (MachineID (k + i) n) \<and> n \<in> Set_elems (nd ! i)
     \<and> (\<forall>x \<in> Set_elems (nd ! i). n \<le> x) \<and> (\<forall>j < i. Set_elems (nd ! j) = {})"
  using assms
proof (induction nd arbitrary: k)
  case (Cons s ss)
  have s: "Set_ok s" using Cons.prems(1) by fastforce
  show ?case
  proof (cases "Set_elems s = {}")
    case False
    then have "(LEAST n. n \<in> Set_elems s) \<in> Set_elems s" by (metis LeastI ex_in_conv)
    moreover have "\<forall>x \<in> Set_elems s. (LEAST n. n \<in> Set_elems s) \<le> x" by (simp add: Least_le)
    moreover have "NetDest_scan mc (enumerate k (s # ss)) = Inr (MachineID k (LEAST n. n \<in> Set_elems s))"
      using False Cons.prems(2) by (simp add: Set_scan_least [OF s])
    ultimately show ?thesis by (intro exI [of _ 0]) auto
  next
    case True
    have p: "\<forall>i < length ss. Set_ok (ss ! i)" "\<forall>i < Suc k + length ss. MachineType_from_base_level mc i = i"
      "\<exists>i < length ss. Set_elems (ss ! i) \<noteq> {}"
      using Cons.prems True by (auto simp: less_Suc_eq_0_disj)
    from Cons.IH [OF p] obtain i n where i: "i < length ss" "NetDest_scan mc (enumerate (Suc k) ss) = Inr (MachineID (Suc k + i) n)" "n \<in> Set_elems (ss ! i)"
      "\<forall>x \<in> Set_elems (ss ! i). n \<le> x" "\<forall>j < i. Set_elems (ss ! j) = {}" by blast
    then show ?thesis using True by (intro exI [of _ "Suc i"]) (auto simp: Set_scan_least [OF s] less_Suc_eq_0_disj)
  qed
qed simp

lemma NetDest_smallestElement_least:
  assumes "NetDest_ok mc nd"
  shows "if NetDest_elems nd = {} then NetDest_smallestElement mc nd = Inl Assert_fail
    else \<exists>m \<in> NetDest_elems nd. NetDest_smallestElement mc nd = Inr m \<and> (\<forall>n \<in> NetDest_elems nd. mach_le m n)"
proof (cases "NetDest_elems nd = {}")
  case True
  then show ?thesis by (simp add: NetDest_smallestElement_def NetDest_count_card)
next
  case False
  then have c: "0 < NetDest_count nd" by (simp add: NetDest_count_card card_gt_0_iff finite_NetDest_elems)
  have "\<exists>i < length nd. Set_elems (nd ! i) \<noteq> {}" using False by (auto simp: NetDest_elems_Union)
  with NetDest_scan_least [of nd 0 mc] assms obtain i n where
    i: "i < length nd" "NetDest_scan mc (enumerate 0 nd) = Inr (MachineID i n)" "n \<in> Set_elems (nd ! i)"
      "\<forall>x \<in> Set_elems (nd ! i). n \<le> x" "\<forall>j < i. Set_elems (nd ! j) = {}"
    by (auto simp: NetDest_ok_def machine_conf_ok_def)
  have "mach_le (MachineID i n) m" if "m \<in> NetDest_elems nd" for m
    using that i(4,5) by (cases "mach_type m < i") (auto simp: mach_le_def NetDest_elems_def not_less le_less)
  moreover have "MachineID i n \<in> NetDest_elems nd" using i(1,3) by (simp add: NetDest_elems_def)
  ultimately show ?thesis using False c i(2) by (auto simp: NetDest_smallestElement_def)
qed

section \<open>The interface the network uses\<close>

text \<open>
  What the routing tables and the interfaces rely on: a representation of sets of destinations that
  starts empty, grows by single members, and whose meeting test decides a common member.
\<close>

locale destination_set =
  fixes elems :: "'d \<Rightarrow> 'm set"
    and invar :: "'d \<Rightarrow> bool"
    and valid :: "'m \<Rightarrow> bool"
    and add_member :: "'m \<Rightarrow> 'd \<Rightarrow> 'd res"
    and meets :: "'d \<Rightarrow> 'd \<Rightarrow> bool res"
  assumes add_law: "invar d \<Longrightarrow> valid m \<Longrightarrow>
      \<exists>d'. add_member m d = Inr d' \<and> invar d' \<and> elems d' = insert m (elems d)"
    and meets_law: "invar d \<Longrightarrow> invar e \<Longrightarrow> meets d e = Inr (elems d \<inter> elems e \<noteq> {})"
begin

lemma add_members:
  assumes "invar d" and "\<forall>m \<in> set ms. valid m"
  shows "\<exists>d'. loopR add_member ms d = Inr d' \<and> invar d' \<and> elems d' = set ms \<union> elems d"
  using assms
proof (induction ms arbitrary: d)
  case (Cons m ms)
  then obtain e where e: "add_member m d = Inr e" "invar e" "elems e = insert m (elems d)"
    using add_law [of d m] by auto
  with Cons.IH [of e] Cons.prems obtain f where "loopR add_member ms e = Inr f" "invar f"
    "elems f = set ms \<union> elems e" by auto
  with e show ?case by auto
qed simp

lemma meets_exists:
  assumes "invar d" and "\<forall>e \<in> set es. invar e"
  shows "existsR (meets d) es = Inr (elems d \<inter> (\<Union>e \<in> set es. elems e) \<noteq> {})"
proof -
  have "existsR (meets d) es = Inr (\<exists>e \<in> set es. elems d \<inter> elems e \<noteq> {})"
    using assms by (intro existsR_total) (simp add: meets_law)
  moreover have "(\<exists>e \<in> set es. elems d \<inter> elems e \<noteq> {}) \<longleftrightarrow> elems d \<inter> (\<Union>e \<in> set es. elems e) \<noteq> {}"
    by blast
  ultimately show ?thesis by simp
qed

end

interpretation nd: destination_set NetDest_elems "NetDest_ok mc" "MachineID_ok mc" "NetDest_add mc"
  NetDest_intersectionIsNotEmpty
  for mc
  by unfold_locales (auto simp: NetDest_add_elems NetDest_intersection_iff)

lemma loopR_map: "loopR (\<lambda>i. f (g i)) xs s = loopR f (map g xs) s"
  by (induction xs arbitrary: s) (auto intro: arg_cong [where f = "bindR _"])

lemma NetDest_broadcast_type_elems:
  assumes "NetDest_ok mc nd" and "t < MachineType_NUM mc"
  shows "\<exists>nd'. NetDest_broadcast_type mc t nd = Inr nd' \<and> NetDest_ok mc nd'
      \<and> NetDest_elems nd' = MachineID t ` {..<MachineType_base_count mc t} \<union> NetDest_elems nd"
  using nd.add_members [OF assms(1), of "map (MachineID t) [0..<MachineType_base_count mc t]"] assms(2)
  by (simp add: NetDest_broadcast_type_def loopR_map MachineID_ok_def lessThan_atLeast0)

lemma NetDest_broadcast_loop:
  assumes "NetDest_ok mc nd" and "n \<le> MachineType_NUM mc"
  shows "\<exists>nd'. loopR (NetDest_broadcast_type mc) [0..<n] nd = Inr nd' \<and> NetDest_ok mc nd'
      \<and> NetDest_elems nd' = {m. MachineID_ok mc m \<and> mach_type m < n} \<union> NetDest_elems nd"
  using assms
proof (induction n)
  case (Suc n)
  then obtain e where e: "loopR (NetDest_broadcast_type mc) [0..<n] nd = Inr e" "NetDest_ok mc e"
      "NetDest_elems e = {m. MachineID_ok mc m \<and> mach_type m < n} \<union> NetDest_elems nd" by auto
  from NetDest_broadcast_type_elems [OF e(2), of n] Suc.prems obtain f where
    f: "NetDest_broadcast_type mc n e = Inr f" "NetDest_ok mc f"
      "NetDest_elems f = MachineID n ` {..<MachineType_base_count mc n} \<union> NetDest_elems e" by auto
  have "{m. MachineID_ok mc m \<and> mach_type m < Suc n}
      = MachineID n ` {..<MachineType_base_count mc n} \<union> {m. MachineID_ok mc m \<and> mach_type m < n}"
  proof (rule set_eqI)
    fix m show "m \<in> {m. MachineID_ok mc m \<and> mach_type m < Suc n} \<longleftrightarrow>
      m \<in> MachineID n ` {..<MachineType_base_count mc n} \<union> {m. MachineID_ok mc m \<and> mach_type m < n}"
      using Suc.prems by (cases m) (auto simp: MachineID_ok_def less_Suc_eq)
  qed
  with e f show ?case by (simp add: loopR_append Un_assoc)
qed simp

lemma NetDest_isBroadcast_iff:
  assumes "NetDest_ok mc nd"
  shows "NetDest_isBroadcast nd \<longleftrightarrow> NetDest_elems nd = {m. MachineID_ok mc m}"
proof -
  have len: "length nd = MachineType_NUM mc" using assms by (simp add: NetDest_ok_def)
  have i: "Set_isBroadcast (nd ! i) \<longleftrightarrow> Set_elems (nd ! i) = {..<MachineType_base_count mc i}" if "i < length nd" for i
    using assms that by (simp add: NetDest_ok_def Set_isBroadcast_iff)
  have "{m. MachineID_ok mc m} = (\<Union>i \<in> {..<length nd}. MachineID i ` {..<MachineType_base_count mc i})" (is "?L = ?R")
  proof (rule set_eqI)
    fix m show "m \<in> ?L \<longleftrightarrow> m \<in> ?R" by (cases m) (auto simp: MachineID_ok_def len)
  qed
  also have "NetDest_elems nd = \<dots> \<longleftrightarrow> (\<forall>i < length nd. Set_elems (nd ! i) = {..<MachineType_base_count mc i})"
  proof
    assume e: "NetDest_elems nd = (\<Union>i \<in> {..<length nd}. MachineID i ` {..<MachineType_base_count mc i})"
    show "\<forall>i < length nd. Set_elems (nd ! i) = {..<MachineType_base_count mc i}"
    proof (intro allI impI set_eqI)
      fix i n assume "i < length nd"
      then have "n \<in> Set_elems (nd ! i) \<longleftrightarrow> MachineID i n \<in> NetDest_elems nd" by (simp add: NetDest_elems_def)
      with \<open>i < length nd\<close> show "n \<in> Set_elems (nd ! i) \<longleftrightarrow> n \<in> {..<MachineType_base_count mc i}" unfolding e by auto
    qed
  qed (simp add: NetDest_elems_Union)
  finally show ?thesis using i by (simp add: NetDest_isBroadcast_def list_all_length)
qed

lemma NetDest_broadcast_elems:
  assumes "NetDest_ok mc nd"
  shows "\<exists>nd'. NetDest_broadcast mc nd = Inr nd' \<and> NetDest_ok mc nd' \<and> NetDest_elems nd' = {m. MachineID_ok mc m}"
proof -
  obtain e where e: "NetDest_broadcast mc nd = Inr e" "NetDest_ok mc e"
      "NetDest_elems e = {m. MachineID_ok mc m \<and> mach_type m < MachineType_NUM mc} \<union> NetDest_elems nd"
    using NetDest_broadcast_loop [OF assms] by (auto simp: NetDest_broadcast_def)
  have "NetDest_elems e = {m. MachineID_ok mc m}"
    using e(3) NetDest_ok_elemsD [OF assms] by (auto simp: MachineID_ok_def)
  with e(1,2) show ?thesis by blast
qed


lemma concat_blocks_sorted:
  fixes f :: "nat \<Rightarrow> nat list"
  assumes "\<And>i. i < n \<Longrightarrow> sorted_wrt (<) (f i) \<and> set (f i) \<subseteq> {b i..<b (Suc i)}"
    and "\<And>i. i < n \<Longrightarrow> b i \<le> b (Suc i)"
  shows "sorted_wrt (<) (concat (map f [0..<n])) \<and> set (concat (map f [0..<n])) \<subseteq> {b 0..<b n}
    \<and> b 0 \<le> b n"
  using assms
proof (induction n)
  case (Suc n)
  then have IH: "sorted_wrt (<) (concat (map f [0..<n]))" "set (concat (map f [0..<n])) \<subseteq> {b 0..<b n}" "b 0 \<le> b n"
    by auto
  have n: "sorted_wrt (<) (f n)" "set (f n) \<subseteq> {b n..<b (Suc n)}" "b n \<le> b (Suc n)"
    using Suc.prems by auto
  have "x < y" if "x \<in> set (concat (map f [0..<n]))" "y \<in> set (f n)" for x y
    using that IH(2) n(2) by (meson atLeastLessThan_iff less_le_trans subsetD)
  moreover have "set (concat (map f [0..<Suc n])) \<subseteq> {b 0..<b (Suc n)}"
    using IH n by (simp only: upt_Suc_append [OF le0] map_append concat_append set_append) force
  ultimately show ?case
    using IH n by (simp add: sorted_wrt_append)
qed simp

lemma NetDest_getAllDest_eq:
  assumes "NetDest_ok mc nd"
  shows "NetDest_getAllDest mc nd = Inr (concat (map (\<lambda>i. map (\<lambda>j. MachineType_base_number mc i + j)
           (sorted_list_of_set (Set_elems (nd ! i)))) [0..<length nd]))"
proof -
  have "mapR (\<lambda>(i, s). bindR (Set_elements s) (\<lambda>js. Inr (map (\<lambda>j. MachineType_base_number mc i + j) js)))
         (enumerate 0 nd)
      = Inr (map (\<lambda>(i, s). map (\<lambda>j. MachineType_base_number mc i + j) (sorted_list_of_set (Set_elems s)))
         (enumerate 0 nd))"
    using assms by (intro mapR_total) (auto simp: in_set_enumerate_eq NetDest_ok_def Set_elements_spec)
  moreover have "map (\<lambda>(i, s). g i s) (enumerate 0 nd) = map (\<lambda>i. g i (nd ! i)) [0..<length nd]"
    for g :: "nat \<Rightarrow> RSet \<Rightarrow> nat list"
    by (rule nth_equalityI) (auto simp: nth_enumerate_eq)
  ultimately show ?thesis by (simp add: NetDest_getAllDest_def)
qed

text \<open>\<open>getAllDest\<close> lists, in strictly increasing order and without repetition, exactly the
  global numbers of the machines in the destination set, one per member: a multicast message is
  split into one packet per destination, none missing and none twice.\<close>

lemma getAllDest_spec:
  assumes "NetDest_ok mc nd"
  shows "\<exists>dest. NetDest_getAllDest mc nd = Inr dest \<and> sorted_wrt (<) dest
      \<and> set dest = (\<lambda>m. MachineType_base_number mc (mach_type m) + mach_num m) ` NetDest_elems nd
      \<and> length dest = NetDest_count nd"
proof -
  let ?b = "\<lambda>i. \<Sum>k<i. MachineType_base_count mc k"
  let ?f = "\<lambda>i. map (\<lambda>j. MachineType_base_number mc i + j) (sorted_list_of_set (Set_elems (nd ! i)))"
  have bn: "MachineType_base_number mc i = ?b i" if "i < length nd" for i
    using assms that by (simp add: NetDest_ok_def machine_conf_ok_def)
  have blk: "sorted_wrt (<) (?f i) \<and> set (?f i) \<subseteq> {?b i..<?b (Suc i)}" if i: "i < length nd" for i
  proof
    show "sorted_wrt (<) (?f i)"
      by (simp add: sorted_wrt_map)
    have "\<forall>n \<in> Set_elems (nd ! i). n < MachineType_base_count mc i"
      using i assms by (auto simp: NetDest_ok_def Set_ok_def)
    then show "set (?f i) \<subseteq> {?b i..<?b (Suc i)}" using bn [OF i] by auto
  qed
  have "sorted_wrt (<) (concat (map ?f [0..<length nd]))"
    using concat_blocks_sorted [where b = ?b, OF blk] by simp
  moreover have "set (concat (map ?f [0..<length nd]))
      = (\<lambda>m. MachineType_base_number mc (mach_type m) + mach_num m) ` NetDest_elems nd" (is "?L = ?R")
  proof
    show "?L \<subseteq> ?R"
    proof
      fix x assume "x \<in> ?L"
      then obtain i n where "i < length nd" "n \<in> Set_elems (nd ! i)" "x = MachineType_base_number mc i + n"
        by auto
      then show "x \<in> ?R"
        by (intro image_eqI [of _ _ "MachineID i n"]) (auto simp: NetDest_elems_def)
    qed
  qed (auto simp: NetDest_elems_def)
  moreover have "length (concat (map ?f [0..<length nd])) = NetDest_count nd"
  proof -
    have "map (\<lambda>i. card (Set_elems (nd ! i))) [0..<length nd] = map Set_count nd"
      by (rule nth_equalityI) (auto simp: Set_count_card)
    then show ?thesis by (simp add: length_concat comp_def NetDest_count_def)
  qed
  ultimately show ?thesis using NetDest_getAllDest_eq [OF assms] by blast
qed

text \<open>Claim C30. \<open>NetDest\<close> implements finite sets of machines. On well-formed arguments no operation fails an assertion
  other than as stated, every result is well formed, and on the sets of machines represented
  the constructor and \<open>resize\<close> give the empty set, as does \<open>clear\<close>; \<open>add\<close>, \<open>remove\<close>, \<open>addNetDest\<close>, \<open>removeNetDest\<close>, \<open>OR\<close> and \<open>AND\<close> are insertion,
  deletion, union, difference, union and intersection; \<open>setNetDest\<close> replaces the machines of one type; the two forms of
  \<open>broadcast\<close> add all machines of a type and give all machines; \<open>isElement\<close> and \<open>elementAt\<close> are membership; \<open>isEqual\<close>, \<open>isSuperset\<close>,
  \<open>isSubset\<close>, \<open>intersectionIsNotEmpty\<close>, \<open>isEmpty\<close> and \<open>isBroadcast\<close> decide what they name; \<open>count\<close> is the cardinality; \<open>smallestElement\<close> is the
  least member, by type and then by number (for an empty set it stops with the assertion), or the least member of the
  given type (without one it panics); \<open>getAllDest\<close> lists the global numbers of the members in increasing order.\<close>

theorem NetDest_refines_sets:
  assumes "NetDest_ok mc a" and "NetDest_ok mc b" and "MachineID_ok mc m"
    and "t < MachineType_NUM mc" and "Set_ok s" and "set_nSize s = int (MachineType_base_count mc t)"
  shows "(\<exists>c. NetDest_new mc = Inr c \<and> NetDest_ok mc c \<and> NetDest_elems c = {})
    \<and> (\<exists>c. NetDest_resize mc a = Inr c \<and> NetDest_ok mc c \<and> NetDest_elems c = {})
    \<and> NetDest_ok mc (NetDest_clear a) \<and> NetDest_elems (NetDest_clear a) = {}
    \<and> (\<exists>c. NetDest_add mc m a = Inr c \<and> NetDest_ok mc c \<and> NetDest_elems c = insert m (NetDest_elems a))
    \<and> (\<exists>c. NetDest_remove mc m a = Inr c \<and> NetDest_ok mc c \<and> NetDest_elems c = NetDest_elems a - {m})
    \<and> (\<exists>c. NetDest_addNetDest b a = Inr c \<and> NetDest_ok mc c \<and> NetDest_elems c = NetDest_elems a \<union> NetDest_elems b)
    \<and> (\<exists>c. NetDest_removeNetDest b a = Inr c \<and> NetDest_ok mc c \<and> NetDest_elems c = NetDest_elems a - NetDest_elems b)
    \<and> (\<exists>c. NetDest_setNetDest mc t s a = Inr c \<and> NetDest_ok mc c
         \<and> NetDest_elems c = {x \<in> NetDest_elems a. mach_type x \<noteq> t} \<union> MachineID t ` Set_elems s)
    \<and> (\<exists>c. NetDest_broadcast_type mc t a = Inr c \<and> NetDest_ok mc c
         \<and> NetDest_elems c = MachineID t ` {..<MachineType_base_count mc t} \<union> NetDest_elems a)
    \<and> (\<exists>c. NetDest_broadcast mc a = Inr c \<and> NetDest_ok mc c \<and> NetDest_elems c = {x. MachineID_ok mc x})
    \<and> (\<exists>c. NetDest_OR mc a b = Inr c \<and> NetDest_ok mc c \<and> NetDest_elems c = NetDest_elems a \<union> NetDest_elems b)
    \<and> (\<exists>c. NetDest_AND mc a b = Inr c \<and> NetDest_ok mc c \<and> NetDest_elems c = NetDest_elems a \<inter> NetDest_elems b)
    \<and> NetDest_isElement mc a m = Inr (m \<in> NetDest_elems a)
    \<and> NetDest_elementAt mc a m = Inr (m \<in> NetDest_elems a)
    \<and> NetDest_isEqual a b = Inr (NetDest_elems a = NetDest_elems b)
    \<and> NetDest_isSuperset a b = Inr (NetDest_elems b \<subseteq> NetDest_elems a)
    \<and> NetDest_isSubset a b = Inr (NetDest_elems a \<subseteq> NetDest_elems b)
    \<and> NetDest_intersectionIsNotEmpty a b = Inr (NetDest_elems a \<inter> NetDest_elems b \<noteq> {})
    \<and> (NetDest_isEmpty a \<longleftrightarrow> NetDest_elems a = {})
    \<and> (NetDest_isBroadcast a \<longleftrightarrow> NetDest_elems a = {x. MachineID_ok mc x})
    \<and> NetDest_count a = card (NetDest_elems a)
    \<and> (if NetDest_elems a = {} then NetDest_smallestElement mc a = Inl Assert_fail
       else \<exists>x \<in> NetDest_elems a. NetDest_smallestElement mc a = Inr x \<and> (\<forall>y \<in> NetDest_elems a. mach_le x y))
    \<and> NetDest_smallestElement_type mc t a =
        (if \<exists>x \<in> NetDest_elems a. mach_type x = t then Inr (MachineID t (LEAST n. MachineID t n \<in> NetDest_elems a)) else Inl Panic)
    \<and> (\<exists>dest. NetDest_getAllDest mc a = Inr dest \<and> sorted_wrt (<) dest
         \<and> set dest = (\<lambda>x. MachineType_base_number mc (mach_type x) + mach_num x) ` NetDest_elems a
         \<and> length dest = card (NetDest_elems a))"
proof -
  have mc: "machine_conf_ok mc" using assms(1) by (simp add: NetDest_ok_def)
  note modify = NetDest_new_elems [OF mc] NetDest_resize_elems [OF mc, of a] NetDest_clear_elems [OF assms(1)] NetDest_add_elems [OF assms(1,3)]
    NetDest_remove_elems [OF assms(1,3)] NetDest_addNetDest_elems [OF assms(1,2)] NetDest_removeNetDest_elems [OF assms(1,2)]
    NetDest_setNetDest_elems [OF assms(1,4-6)] NetDest_broadcast_type_elems [OF assms(1,4)] NetDest_broadcast_elems [OF assms(1)]
    NetDest_OR_elems [OF assms(1,2)] NetDest_AND_elems [OF assms(1,2)]
  note observe = NetDest_isElement_iff [OF assms(1,3)] NetDest_elementAt_iff [OF assms(1,3)] NetDest_isEqual_iff [OF assms(1,2)]
    NetDest_isSuperset_iff [OF assms(1,2)] NetDest_isSuperset_iff [OF assms(2,1), folded NetDest_isSubset_def] NetDest_intersection_iff [OF assms(1,2)]
    NetDest_isEmpty_iff [of a] NetDest_isBroadcast_iff [OF assms(1)] NetDest_count_card [of a] NetDest_smallestElement_least [OF assms(1)]
    NetDest_smallestElement_type_least [OF assms(1,4)] getAllDest_spec [OF assms(1), unfolded NetDest_count_card]
  show ?thesis using modify observe by (intro conjI) (assumption | elim conjE, assumption)+
qed

section \<open>A small system\<close>

text \<open>Two machine types, with two and one machines: a concrete instance of the generated functions.\<close>

definition small_conf :: machine_conf where
  "small_conf = \<lparr>MachineType_NUM = 2, MachineType_base_level = id, MachineType_from_base_level = id,
     MachineType_base_number = (\<lambda>m. \<Sum>k<m. if k = 0 then 2 else 1),
     MachineType_base_count = (\<lambda>m. if m = 0 then 2 else 1)\<rparr>"

definition small_dest :: NetDest where
  "small_dest = [\<lparr>set_nSize = 2, set_bits = 1\<rparr>, \<lparr>set_nSize = 1, set_bits = 1\<rparr>]"

lemma small_dest_ok: "NetDest_ok small_conf small_dest"
proof -
  have "Set_elems \<lparr>set_nSize = 2, set_bits = 1\<rparr> = {0}"
    by (auto simp: Set_elems_def bit_1_iff)
  moreover have "Set_elems \<lparr>set_nSize = 1, set_bits = 1\<rparr> = {0}"
    by (auto simp: Set_elems_def bit_1_iff)
  ultimately show ?thesis
    by (auto simp: NetDest_ok_def small_dest_def small_conf_def machine_conf_ok_def Set_ok_def
        NUMBER_BITS_PER_SET_def less_2_cases_iff)
qed


theorem NetDest_refines_sets_witness:
  "MachineID_ok small_conf (MachineID 0 0) \<and> NetDest_ok small_conf small_dest
   \<and> (\<exists>c. NetDest_add small_conf (MachineID 0 0) small_dest = Inr c \<and> NetDest_ok small_conf c
      \<and> NetDest_elems c = insert (MachineID 0 0) (NetDest_elems small_dest))
   \<and> (\<exists>c. NetDest_setNetDest small_conf 0 \<lparr>set_nSize = 2, set_bits = 1\<rparr> small_dest = Inr c \<and> NetDest_ok small_conf c
      \<and> NetDest_elems c = {x \<in> NetDest_elems small_dest. mach_type x \<noteq> 0} \<union> MachineID 0 ` Set_elems \<lparr>set_nSize = 2, set_bits = 1\<rparr>)
   \<and> NetDest_count small_dest = card (NetDest_elems small_dest)"
proof -
  have m: "MachineID_ok small_conf (MachineID 0 0)" by (simp add: MachineID_ok_def small_conf_def)
  let ?s = "\<lparr>set_nSize = 2, set_bits = 1\<rparr>"
  have s: "0 < MachineType_NUM small_conf" "Set_ok ?s" "set_nSize ?s = int (MachineType_base_count small_conf 0)"
    by (auto simp: small_conf_def Set_ok_def Set_elems_def bit_1_iff NUMBER_BITS_PER_SET_def)
  note r = NetDest_refines_sets [OF small_dest_ok small_dest_ok m s]
  from r have "\<exists>c. NetDest_add small_conf (MachineID 0 0) small_dest = Inr c \<and> NetDest_ok small_conf c
      \<and> NetDest_elems c = insert (MachineID 0 0) (NetDest_elems small_dest)" by (elim conjE)
  moreover from r have "\<exists>c. NetDest_setNetDest small_conf 0 ?s small_dest = Inr c \<and> NetDest_ok small_conf c
      \<and> NetDest_elems c = {x \<in> NetDest_elems small_dest. mach_type x \<noteq> 0} \<union> MachineID 0 ` Set_elems ?s" by (elim conjE)
  moreover from r have "NetDest_count small_dest = card (NetDest_elems small_dest)" by (elim conjE)
  ultimately show ?thesis using m small_dest_ok by (intro conjI)
qed

end
