(* ===== verification/Flits.thy ===== *)
theory Flits
  imports Net_Dest
begin

text \<open>
  The units that travel through the network: \<open>RouteInfo\<close> and the enumerations of \<open>CommonTypes.hh\<close>, \<open>flit\<close>
  with its head/body/tail classification and the width conversions \<open>serialize\<close> and \<open>deserialize\<close>, its
  subclass \<open>Credit\<close> (a flit of type \<open>CREDIT\<close> with a free signal), and \<open>flitBuffer\<close>, the timed queue every
  component stores flits in. A message is referred to by its position in a message heap; the functional
  access of the heap is a parameter. Fields that a constructor leaves unset and that are written before
  they are read (\<open>m_outport\<close>, \<open>src_delay\<close>) start as zero.
\<close>

section \<open>Enumerations\<close>

datatype flit_type = HEAD | BODY | TAIL | HEAD_TAIL | CREDIT | NUM_FLIT_TYPE
datatype VC_state_type = IDLE | VC_AB | ACTIVE | NUM_VC_STATE_TYPE
datatype VNET_type = CTRL_VNET | DATA_VNET | NULL_VNET | NUM_VNET_TYPE
datatype flit_stage = I_stage | VA | SA | ST | LT | NUM_FLIT_STAGE
datatype link_type = EXT_IN | EXT_OUT | INT_link | NUM_LINK_TYPES
datatype RoutingAlgorithm = TABLE | XY | RANWESTFIRST | SECTEST | TEST | DEFENSE0 | DEFENSE1 | ORIVA
  | CUSTOM | NUM_ROUTING_ALGORITHM

definition INFINITE :: nat where
  "INFINITE = 10000"

section \<open>Routes\<close>

record RouteInfo =
  r_vnet :: int
  net_dest :: NetDest
  src_ni :: int
  src_router :: int
  dest_ni :: int
  dest_router :: int
  hops_traversed :: int
  sTag :: int
  inter_route :: int
  passedMid :: bool

definition RouteInfo_default :: "NetDest \<Rightarrow> RouteInfo" where
  "RouteInfo_default nd = \<lparr>r_vnet = 0, net_dest = nd, src_ni = 0, src_router = 0, dest_ni = 0,
     dest_router = 0, hops_traversed = 0, sTag = 0, inter_route = -1, passedMid = False\<rparr>"

definition setTag :: "int \<Rightarrow> RouteInfo \<Rightarrow> RouteInfo" where
  "setTag newT r = r\<lparr>sTag := newT\<rparr>"

definition setInter :: "int \<Rightarrow> RouteInfo \<Rightarrow> RouteInfo" where
  "setInter mid r = r\<lparr>inter_route := mid\<rparr>"

definition setPassed :: "RouteInfo \<Rightarrow> RouteInfo" where
  "setPassed r = r\<lparr>passedMid := True\<rparr>"

section \<open>Flits\<close>

record flit =
  f_width :: nat
  f_msgSize :: nat
  f_packet_id :: int
  f_id :: int
  f_vnet :: int
  f_vc :: int
  f_route :: RouteInfo
  f_size :: int
  f_enqueue_time :: Tick
  f_dequeue_time :: Tick
  f_time :: Tick
  f_type :: flit_type
  f_msg_ptr :: "nat option"
  f_outport :: int
  f_src_delay :: Tick
  f_stage :: "flit_stage \<times> Tick"
  f_is_free_signal :: bool

definition flit_kind :: "int \<Rightarrow> int \<Rightarrow> flit_type" where
  "flit_kind fid sz = (if sz = 1 then HEAD_TAIL else if fid = 0 then HEAD
     else if fid = sz - 1 then TAIL else BODY)"

definition flit_new ::
  "int \<Rightarrow> int \<Rightarrow> int \<Rightarrow> int \<Rightarrow> RouteInfo \<Rightarrow> int \<Rightarrow> nat option \<Rightarrow> nat \<Rightarrow> nat \<Rightarrow> Tick \<Rightarrow> flit" where
  "flit_new packet_id fid vc vnet route sz msg_ptr MsgSize bWidth curTime =
     \<lparr>f_width = bWidth, f_msgSize = MsgSize, f_packet_id = fid, f_id = fid, f_vnet = vnet, f_vc = vc,
      f_route = route, f_size = sz, f_enqueue_time = curTime, f_dequeue_time = curTime,
      f_time = curTime, f_type = flit_kind fid sz, f_msg_ptr = msg_ptr, f_outport = 0, f_src_delay = 0,
      f_stage = (I_stage, curTime), f_is_free_signal = False\<rparr>"

definition increment_hops :: "flit \<Rightarrow> flit" where
  "increment_hops f = f\<lparr>f_route := (f_route f)\<lparr>hops_traversed := hops_traversed (f_route f) + 1\<rparr>\<rparr>"

definition is_stage :: "flit_stage \<Rightarrow> Tick \<Rightarrow> flit \<Rightarrow> bool" where
  "is_stage stage time f = (stage = fst (f_stage f) \<and> time \<ge> snd (f_stage f))"

definition advance_stage :: "flit_stage \<Rightarrow> Tick \<Rightarrow> flit \<Rightarrow> flit" where
  "advance_stage t_stage newTime f = f\<lparr>f_stage := (t_stage, newTime)\<rparr>"

definition flit_greater :: "flit \<Rightarrow> flit \<Rightarrow> bool" where
  "flit_greater n1 n2 = (if f_time n1 = f_time n2 then f_id n1 > f_id n2 else f_time n1 > f_time n2)"

text \<open>\<open>Credit\<close> and its constructor; \<open>nd\<close> is the empty destination set of \<open>RouteInfo()\<close>.\<close>

definition Credit_new :: "NetDest \<Rightarrow> int \<Rightarrow> bool \<Rightarrow> Tick \<Rightarrow> flit" where
  "Credit_new nd vc free curTime =
     (flit_new 0 0 vc 0 (RouteInfo_default nd) 0 None 0 0 curTime)\<lparr>f_is_free_signal := free, f_type := CREDIT\<rparr>"

definition Credit_serialize :: "NetDest \<Rightarrow> int \<Rightarrow> int \<Rightarrow> nat \<Rightarrow> flit \<Rightarrow> flit" where
  "Credit_serialize nd ser_id parts bWidth c =
     (let new_free = (ser_id + 1 = parts \<and> f_is_free_signal c) in Credit_new nd (f_vc c) new_free (f_time c))"

definition Credit_deserialize :: "NetDest \<Rightarrow> int \<Rightarrow> int \<Rightarrow> nat \<Rightarrow> flit \<Rightarrow> flit" where
  "Credit_deserialize nd des_id num_flits bWidth c =
     (if f_is_free_signal c then Credit_new nd (f_vc c) True (f_time c)
      else Credit_new nd (f_vc c) False (f_time c))"

definition flit_serialize :: "int \<Rightarrow> int \<Rightarrow> nat \<Rightarrow> flit \<Rightarrow> flit res" where
  "flit_serialize ser_id parts bWidth f =
     bindR (assertR (f_width f > bWidth)) (\<lambda>_.
     bindR (failIf (bWidth = 0) Div_by_zero) (\<lambda>_.
       let ratio = int (divCeil (f_width f) bWidth);
           new_id = f_id f * ratio + ser_id;
           new_size = int (divCeil (f_msgSize f) bWidth) in
       bindR (assertR (new_id < new_size)) (\<lambda>_.
         Inr ((flit_new (f_packet_id f) new_id (f_vc f) (f_vnet f) (f_route f) new_size (f_msg_ptr f)
                 (f_msgSize f) bWidth (f_time f))
               \<lparr>f_enqueue_time := f_enqueue_time f, f_src_delay := f_src_delay f\<rparr>))))"

definition flit_deserialize :: "int \<Rightarrow> int \<Rightarrow> nat \<Rightarrow> flit \<Rightarrow> flit res" where
  "flit_deserialize des_id num_flits bWidth f =
     bindR (failIf (bWidth = 0 \<or> f_width f = 0) Div_by_zero) (\<lambda>_.
       let ratio = divCeil bWidth (f_width f);
           new_id = int (divCeil (nat (f_id f + 1)) ratio) - 1;
           new_size = int (divCeil (f_msgSize f) bWidth) in
       bindR (assertR (new_id < new_size)) (\<lambda>_.
         Inr ((flit_new (f_packet_id f) new_id (f_vc f) (f_vnet f) (f_route f) new_size (f_msg_ptr f)
                 (f_msgSize f) bWidth (f_time f))
               \<lparr>f_enqueue_time := f_enqueue_time f, f_src_delay := f_src_delay f\<rparr>)))"

text \<open>The virtual calls \<open>serialize\<close> and \<open>deserialize\<close>: credits take the methods of \<open>Credit\<close>.\<close>

definition serialize :: "NetDest \<Rightarrow> int \<Rightarrow> int \<Rightarrow> nat \<Rightarrow> flit \<Rightarrow> flit res" where
  "serialize nd ser_id parts bWidth f = (if f_type f = CREDIT
     then Inr (Credit_serialize nd ser_id parts bWidth f) else flit_serialize ser_id parts bWidth f)"

definition deserialize :: "NetDest \<Rightarrow> int \<Rightarrow> int \<Rightarrow> nat \<Rightarrow> flit \<Rightarrow> flit res" where
  "deserialize nd des_id num_flits bWidth f = (if f_type f = CREDIT
     then Inr (Credit_deserialize nd des_id num_flits bWidth f)
     else flit_deserialize des_id num_flits bWidth f)"

text \<open>Functional accesses reach the message through the shared pointer; \<open>acc\<close> is the message's own
  access on a heap state, and reports whether it touched the requested address.\<close>

type_synonym 'h access = "nat \<Rightarrow> 'h \<Rightarrow> bool \<times> 'h"

definition flit_functional :: "'h access \<Rightarrow> flit \<Rightarrow> 'h \<Rightarrow> (bool \<times> 'h) res" where
  "flit_functional acc f h = (case f_msg_ptr f of None \<Rightarrow> Inl Bad_index | Some p \<Rightarrow> Inr (acc p h))"

section \<open>flitBuffer\<close>

record flitBuffer =
  fb_buffer :: "flit list"
  fb_max_size :: int

definition flitBuffer_new :: flitBuffer where
  "flitBuffer_new = \<lparr>fb_buffer = [], fb_max_size = int INFINITE\<rparr>"

definition flitBuffer_sized :: "int \<Rightarrow> flitBuffer" where
  "flitBuffer_sized maximum_size = \<lparr>fb_buffer = [], fb_max_size = maximum_size\<rparr>"

definition fb_isEmpty :: "flitBuffer \<Rightarrow> bool" where
  "fb_isEmpty b = (length (fb_buffer b) = 0)"

definition fb_peekTopFlit :: "flitBuffer \<Rightarrow> flit res" where
  "fb_peekTopFlit b = (case fb_buffer b of [] \<Rightarrow> Inl Bad_index | f # _ \<Rightarrow> Inr f)"

definition fb_isReady :: "Tick \<Rightarrow> flitBuffer \<Rightarrow> bool" where
  "fb_isReady curTime b = (case fb_buffer b of [] \<Rightarrow> False | t_flit # _ \<Rightarrow> f_time t_flit \<le> curTime)"

definition fb_isFull :: "flitBuffer \<Rightarrow> bool" where
  "fb_isFull b = (int (length (fb_buffer b)) \<ge> fb_max_size b)"

definition fb_setMaxSize :: "int \<Rightarrow> flitBuffer \<Rightarrow> flitBuffer" where
  "fb_setMaxSize maximum b = b\<lparr>fb_max_size := maximum\<rparr>"

definition fb_getTopFlit :: "flitBuffer \<Rightarrow> (flit \<times> flitBuffer) res" where
  "fb_getTopFlit b = (case fb_buffer b of [] \<Rightarrow> Inl Bad_index
     | f # fs \<Rightarrow> Inr (f, b\<lparr>fb_buffer := fs\<rparr>))"

definition fb_insert :: "flit \<Rightarrow> flitBuffer \<Rightarrow> flitBuffer" where
  "fb_insert flt b = b\<lparr>fb_buffer := fb_buffer b @ [flt]\<rparr>"

fun flits_functionalRead :: "'h access \<Rightarrow> flit list \<Rightarrow> bool \<Rightarrow> 'h \<Rightarrow> (bool \<times> 'h) res" where
  "flits_functionalRead acc [] rd h = Inr (rd, h)"
| "flits_functionalRead acc (f # fs) rd h =
     bindR (flit_functional acc f h) (\<lambda>(b, h'). flits_functionalRead acc fs (if b then True else rd) h')"

definition fb_functionalRead :: "'h access \<Rightarrow> flitBuffer \<Rightarrow> 'h \<Rightarrow> (bool \<times> 'h) res" where
  "fb_functionalRead acc b h = flits_functionalRead acc (fb_buffer b) False h"

fun flits_functionalWrite :: "'h access \<Rightarrow> flit list \<Rightarrow> nat \<Rightarrow> 'h \<Rightarrow> (nat \<times> 'h) res" where
  "flits_functionalWrite acc [] num h = Inr (num, h)"
| "flits_functionalWrite acc (f # fs) num h =
     bindR (flit_functional acc f h) (\<lambda>(b, h'). flits_functionalWrite acc fs (if b then num + 1 else num) h')"

definition fb_functionalWrite :: "'h access \<Rightarrow> flitBuffer \<Rightarrow> 'h \<Rightarrow> (nat \<times> 'h) res" where
  "fb_functionalWrite acc b h = flits_functionalWrite acc (fb_buffer b) 0 h"

interpretation fb: fifo fb_buffer fb_insert fb_getTopFlit fb_peekTopFlit
  by unfold_locales (auto simp: fb_insert_def fb_getTopFlit_def fb_peekTopFlit_def)

section \<open>Packets\<close>

text \<open>Within a packet of \<open>n\<close> flits the classification by position marks exactly the first flit as a head
  and exactly the last one as a tail.\<close>

definition is_head :: "flit_type \<Rightarrow> bool" where
  "is_head t = (t = HEAD \<or> t = HEAD_TAIL)"

definition is_tail :: "flit_type \<Rightarrow> bool" where
  "is_tail t = (t = TAIL \<or> t = HEAD_TAIL)"

lemma flit_kind_head_iff: "0 \<le> i \<Longrightarrow> i < sz \<Longrightarrow> is_head (flit_kind i sz) \<longleftrightarrow> i = 0"
  by (auto simp: flit_kind_def is_head_def)

lemma flit_kind_tail_iff: "0 \<le> i \<Longrightarrow> i < sz \<Longrightarrow> is_tail (flit_kind i sz) \<longleftrightarrow> i = sz - 1"
  by (auto simp: flit_kind_def is_tail_def)

lemma flit_kind_not_credit [simp]: "flit_kind i sz \<noteq> CREDIT"
  by (simp add: flit_kind_def)

section \<open>Width conversion\<close>

lemma int_divCeil_pred: "0 < r \<Longrightarrow> int (divCeil (i + 1) r) - 1 = int (i div r)"
  by (simp add: divCeil_def div_add_self2)

lemmas serdes_defs = flit_serialize_def flit_deserialize_def serialize_def deserialize_def flit_new_def

text \<open>What a serialised flit looks like: the part \<open>j\<close> of flit \<open>i\<close> has position \<open>i * k + j\<close> in the packet
  of narrow flits.\<close>

lemma serialize_part:
  assumes "f_type f \<noteq> CREDIT" and "0 < b" and "1 < k" and "f_width f = k * b"
    and "f_id f = int i" and "i * k + j < divCeil (f_msgSize f) b"
  shows "serialize nd (int j) parts b f = Inr
     ((flit_new (f_packet_id f) (int (i * k + j)) (f_vc f) (f_vnet f) (f_route f)
         (int (divCeil (f_msgSize f) b)) (f_msg_ptr f) (f_msgSize f) b (f_time f))
       \<lparr>f_enqueue_time := f_enqueue_time f, f_src_delay := f_src_delay f\<rparr>)"
proof -
  have "int i * int k + int j < int (divCeil (f_msgSize f) b)" using assms(6)
    by (metis of_nat_add of_nat_less_iff of_nat_mult)
  then show ?thesis
    using assms by (simp add: serialize_def flit_serialize_def Let_def)
qed

text \<open>Claim C31. Crossing a narrow link and coming back loses nothing: when a flit of a packet is cut into
  parts whose width divides its own, deserialising any of the parts to the original width gives a flit
  with the original position, packet size, classification, virtual channel, virtual network, route,
  message, time stamps and width.\<close>

theorem serialize_deserialize_roundtrip:
  assumes "f_type f = flit_kind (int i) (f_size f)" and "f_size f = int (divCeil (f_msgSize f) (k * b))"
    and "0 < b" and "1 < k" and "f_width f = k * b" and "f_id f = int i"
    and "j < k" and "i * k + j < divCeil (f_msgSize f) b"
  shows "\<exists>g h. serialize nd (int j) (int k) b f = Inr g \<and> f_id g = int (i * k + j) \<and> f_width g = b
     \<and> deserialize nd d n (k * b) g = Inr h
     \<and> f_id h = f_id f \<and> f_size h = f_size f \<and> f_type h = f_type f \<and> f_width h = f_width f
     \<and> f_vc h = f_vc f \<and> f_vnet h = f_vnet f \<and> f_route h = f_route f \<and> f_msg_ptr h = f_msg_ptr f
     \<and> f_msgSize h = f_msgSize f \<and> f_time h = f_time f \<and> f_enqueue_time h = f_enqueue_time f
     \<and> f_src_delay h = f_src_delay f"
proof -
  let ?g = "(flit_new (f_packet_id f) (int (i * k + j)) (f_vc f) (f_vnet f) (f_route f)
         (int (divCeil (f_msgSize f) b)) (f_msg_ptr f) (f_msgSize f) b (f_time f))
       \<lparr>f_enqueue_time := f_enqueue_time f, f_src_delay := f_src_delay f\<rparr>"
  have ser: "serialize nd (int j) (int k) b f = Inr ?g"
    using assms by (intro serialize_part) simp_all
  have pos: "0 < k" "0 < k * b" using assms by simp_all
  have ratio: "divCeil (k * b) b = k" using assms(3) by simp
  have nid: "int (divCeil (nat (int (i * k + j) + 1)) k) - 1 = int i"
  proof -
    have "int (i * k + j) + 1 = int (i * k + j + 1)" by simp
    then have "nat (int (i * k + j) + 1) = i * k + j + 1" by (simp only: nat_int)
    moreover have "(i * k + j) div k = i" using assms(7) pos by simp
    ultimately show ?thesis using int_divCeil_pred [OF pos(1), of "i * k + j"] by simp
  qed
  have "i < divCeil (f_msgSize f) (k * b)"
  proof -
    have "(i * k + j) * b < f_msgSize f"
      using assms(3,8) by (simp add: less_divCeil_iff)
    then have "i * (k * b) < f_msgSize f"
      by (simp add: algebra_simps)
    then show ?thesis using pos by (simp add: less_divCeil_iff)
  qed
  then have des: "deserialize nd d n (k * b) ?g = Inr
     ((flit_new (f_packet_id ?g) (int i) (f_vc f) (f_vnet f) (f_route f)
         (int (divCeil (f_msgSize f) (k * b))) (f_msg_ptr f) (f_msgSize f) (k * b) (f_time f))
       \<lparr>f_enqueue_time := f_enqueue_time f, f_src_delay := f_src_delay f\<rparr>)"
    using assms(3,4) ratio nid by (simp add: deserialize_def flit_deserialize_def Let_def flit_new_def)
  have "f_id ?g = int (i * k + j)" "f_width ?g = b" by (simp_all add: flit_new_def)
  with ser des assms show ?thesis
    by (intro exI [of _ ?g] exI [of _ "(flit_new (f_packet_id ?g) (int i) (f_vc f) (f_vnet f) (f_route f)
         (int (divCeil (f_msgSize f) (k * b))) (f_msg_ptr f) (f_msgSize f) (k * b) (f_time f))
       \<lparr>f_enqueue_time := f_enqueue_time f, f_src_delay := f_src_delay f\<rparr>"] conjI)
      (assumption | simp add: flit_new_def)+
qed

definition sample_flit :: "int \<Rightarrow> flit" where
  "sample_flit i = flit_new 7 i 0 2 (RouteInfo_default []) 5 (Some 0) 576 128 1000"

theorem serialize_deserialize_roundtrip_witness:
  "f_type (sample_flit 1) = flit_kind (int 1) (f_size (sample_flit 1)) \<and>
   (\<exists>g h. serialize [] (int 2) (int 4) 32 (sample_flit 1) = Inr g \<and> f_id g = int (1 * 4 + 2)
      \<and> deserialize [] 0 0 (4 * 32) g = Inr h \<and> f_id h = f_id (sample_flit 1) \<and> f_size h = 5)"
  using serialize_deserialize_roundtrip [of "sample_flit 1" 1 4 32 2 "[]" 0 0]
  by (auto simp: sample_flit_def flit_new_def divCeil_def)

end
