(* ===== verification/Clocks.thy ===== *)
theory Clocks
  imports Garnet_Prelude
begin

text \<open>
  Simulated time. \<open>Clocked\<close> (\<open>src/sim/clocked_object.hh\<close>) caches the next clock edge and its cycle number
  and realigns them on demand; \<open>Consumer\<close> (\<open>src/mem/ruby/common/Consumer.cc\<close>) keeps the ordered set of
  ticks at which a component asked to be woken and one pending event. The clock is shown to compute the
  closed form \<open>clockEdge_at\<close> the other theories use, and a consumer to be woken at every requested
  tick. The event queue is the caller: it fires the pending event when the current tick reaches it.
\<close>

section \<open>Clocked\<close>

record Clocked =
  ck_tick :: Tick
  ck_cycle :: Cycles

definition Clocked_new :: Clocked where
  "Clocked_new = \<lparr>ck_tick = 0, ck_cycle = 0\<rparr>"

definition ck_update :: "nat \<Rightarrow> Tick \<Rightarrow> Clocked \<Rightarrow> Clocked" where
  "ck_update period now c =
     (if ck_tick c \<ge> now then c
      else let c1 = c\<lparr>ck_tick := ck_tick c + period, ck_cycle := ck_cycle c + 1\<rparr> in
        if ck_tick c1 \<ge> now then c1
        else let elapsedCycles = divCeil (now - ck_tick c1) period in
          c1\<lparr>ck_cycle := ck_cycle c1 + elapsedCycles, ck_tick := ck_tick c1 + elapsedCycles * period\<rparr>)"

definition ck_resetClock :: "nat \<Rightarrow> Tick \<Rightarrow> Clocked \<Rightarrow> Clocked" where
  "ck_resetClock period now c = (let elapsedCycles = divCeil now period in
     c\<lparr>ck_cycle := elapsedCycles, ck_tick := elapsedCycles * period\<rparr>)"

definition clockEdge :: "nat \<Rightarrow> Tick \<Rightarrow> Cycles \<Rightarrow> Clocked \<Rightarrow> Tick \<times> Clocked" where
  "clockEdge period now cycles c =
     (let c' = ck_update period now c in (ck_tick c' + period * cycles, c'))"

definition curCycle :: "nat \<Rightarrow> Tick \<Rightarrow> Clocked \<Rightarrow> Cycles \<times> Clocked" where
  "curCycle period now c = (let c' = ck_update period now c in (ck_cycle c', c'))"

definition nextCycle :: "nat \<Rightarrow> Tick \<Rightarrow> Clocked \<Rightarrow> Tick \<times> Clocked" where
  "nextCycle period now c = clockEdge period now 1 c"

definition ticksToCycles :: "nat \<Rightarrow> Tick \<Rightarrow> Cycles" where
  "ticksToCycles period t = divCeil t period"

definition cyclesToTicks :: "nat \<Rightarrow> Cycles \<Rightarrow> Tick" where
  "cyclesToTicks period c = period * c"

text \<open>The closed form: the first multiple of the period that is not in the past, plus whole periods.\<close>

definition clockEdge_at :: "nat \<Rightarrow> Tick \<Rightarrow> Cycles \<Rightarrow> Tick" where
  "clockEdge_at period now cycles = divCeil now period * period + period * cycles"

text \<open>A clock last used at tick \<open>prev\<close>.\<close>

definition ck_ok :: "nat \<Rightarrow> Tick \<Rightarrow> Clocked \<Rightarrow> bool" where
  "ck_ok period prev c \<longleftrightarrow> ck_tick c = divCeil prev period * period \<and> ck_cycle c = divCeil prev period"

lemma divCeil_unique:
  assumes "0 < b" and "a \<le> k * b" and "k * b < a + b"
  shows "divCeil a b = k"
proof (rule antisym)
  show "divCeil a b \<le> k" using assms by (simp add: divCeil_le_iff)
  have "\<not> a \<le> (k - 1) * b" if "0 < k"
    using assms that by (cases k) auto
  then show "k \<le> divCeil a b"
    using divCeil_le_iff [OF assms(1), of a "k - 1"] by (cases "0 < k") auto
qed

lemma ck_update_ok:
  assumes p: "0 < period" and ok: "ck_ok period prev c" and "prev \<le> now"
  shows "ck_ok period now (ck_update period now c)"
proof -
  let ?k = "divCeil prev period"
  have tick: "ck_tick c = ?k * period" "ck_cycle c = ?k" using ok by (simp_all add: ck_ok_def)
  have lt: "?k * period < prev + period" using p by (rule divCeil_mult_less)
  consider "now \<le> ?k * period" | "?k * period < now" "now \<le> Suc ?k * period" | "Suc ?k * period < now"
    by linarith
  then show ?thesis
  proof cases
    case 1
    with lt assms have "divCeil now period = ?k" by (intro divCeil_unique) simp_all
    with 1 tick show ?thesis by (simp add: ck_ok_def ck_update_def)
  next
    case 2
    with p have "divCeil now period = Suc ?k" by (intro divCeil_unique) simp_all
    with 2 tick show ?thesis by (simp add: ck_ok_def ck_update_def Let_def)
  next
    case 3
    let ?e = "divCeil (now - Suc ?k * period) period"
    have "now - Suc ?k * period \<le> ?e * period" "?e * period < now - Suc ?k * period + period"
      using divCeil_mult_ge [OF p] divCeil_mult_less [OF p] by blast+
    with 3 p have "divCeil now period = Suc ?k + ?e"
      by (intro divCeil_unique) (simp_all add: algebra_simps)
    with 3 tick show ?thesis by (simp add: ck_ok_def ck_update_def Let_def algebra_simps)
  qed
qed

lemma Clocked_new_ok: "0 < period \<Longrightarrow> ck_ok period 0 Clocked_new"
  by (simp add: ck_ok_def Clocked_new_def divCeil_def)

lemma resetClock_ok: "ck_ok period now (ck_resetClock period now c)"
  by (simp add: ck_ok_def ck_resetClock_def Let_def)

text \<open>Claim C36. The cached, incrementally realigned clock is the closed form: queried at any later
  tick, \<open>clockEdge\<close> returns the first clock edge not in the past plus the requested number of whole
  periods, \<open>curCycle\<close> returns that edge's cycle number, and the cache is again exact.\<close>

theorem clockEdge_closed_form:
  assumes "0 < period" and "ck_ok period prev c" and "prev \<le> now"
  shows "fst (clockEdge period now cycles c) = clockEdge_at period now cycles
    \<and> fst (curCycle period now c) = divCeil now period
    \<and> ck_ok period now (snd (clockEdge period now cycles c))
    \<and> now \<le> clockEdge_at period now 0 \<and> clockEdge_at period now 0 < now + period"
proof -
  from ck_update_ok [OF assms] have "ck_ok period now (ck_update period now c)" .
  then show ?thesis
    using divCeil_mult_ge [OF assms(1), of now] divCeil_mult_less [OF assms(1), of now]
    by (simp add: clockEdge_def curCycle_def Let_def ck_ok_def clockEdge_at_def)
qed

theorem clockEdge_closed_form_witness:
  "ck_ok 500 0 Clocked_new \<and> fst (clockEdge 500 1700 2 Clocked_new) = 3000"
  using clockEdge_closed_form [of 500 0 Clocked_new 1700 2] Clocked_new_ok [of 500]
  by (simp add: clockEdge_at_def divCeil_def)

lemma clockEdge_at_ge: "0 < period \<Longrightarrow> now \<le> clockEdge_at period now k"
  using divCeil_mult_ge [of period now] by (simp add: clockEdge_at_def trans_le_add1)

lemma clockEdge_at_mono: "0 < period \<Longrightarrow> s \<le> t \<Longrightarrow> clockEdge_at period s k \<le> clockEdge_at period t k"
  by (simp add: clockEdge_at_def divCeil_def div_le_mono)

lemma clockEdge_at_aligned: "0 < period \<Longrightarrow> clockEdge_at period (k * period) n = (k + n) * period"
  by (simp add: clockEdge_at_def algebra_simps)

section \<open>Consumer\<close>

text \<open>The ordered set of wakeup ticks as its increasing enumeration, and the tick of the pending event.\<close>

record Consumer =
  wakeup_ticks :: "Tick list"
  wakeup_event :: "Tick option"

definition Consumer_new :: Consumer where
  "Consumer_new = \<lparr>wakeup_ticks = [], wakeup_event = None\<rparr>"

definition alreadyScheduled :: "Tick \<Rightarrow> Consumer \<Rightarrow> bool" where
  "alreadyScheduled time c = List.member (wakeup_ticks c) time"

definition lower_bound :: "Tick \<Rightarrow> Tick list \<Rightarrow> Tick option" where
  "lower_bound t ts = List.find (\<lambda>x. t \<le> x) ts"

definition scheduleNextWakeup :: "Tick \<Rightarrow> Consumer \<Rightarrow> Consumer res" where
  "scheduleNextWakeup edge c =
     (case lower_bound edge (wakeup_ticks c) of None \<Rightarrow> Inr c
      | Some wh \<Rightarrow>
          bindR (assertR (wh \<ge> edge)) (\<lambda>_.
            Inr (case wakeup_event c of
                   Some ev \<Rightarrow> if wh < ev then c\<lparr>wakeup_event := Some wh\<rparr> else c
                 | None \<Rightarrow> c\<lparr>wakeup_event := Some wh\<rparr>)))"

definition scheduleEvent :: "nat \<Rightarrow> Tick \<Rightarrow> Cycles \<Rightarrow> Consumer \<Rightarrow> Consumer res" where
  "scheduleEvent period now timeDelta c =
     scheduleNextWakeup (clockEdge_at period now 0)
       (c\<lparr>wakeup_ticks := insort_insert (clockEdge_at period now timeDelta) (wakeup_ticks c)\<rparr>)"

definition scheduleEventAbsolute :: "nat \<Rightarrow> Tick \<Rightarrow> Tick \<Rightarrow> Consumer \<Rightarrow> Consumer res" where
  "scheduleEventAbsolute period now evt_time c =
     scheduleNextWakeup (clockEdge_at period now 0)
       (c\<lparr>wakeup_ticks := insort_insert (divCeil evt_time period * period) (wakeup_ticks c)\<rparr>)"

text \<open>The pending event fires: it is no longer scheduled while it is processed. \<open>wakeup\<close> is the component's
  own virtual function; it may only act on this consumer by scheduling further wakeups.\<close>

definition processCurrentEvent ::
  "nat \<Rightarrow> Tick \<Rightarrow> (Consumer \<Rightarrow> Consumer res) \<Rightarrow> Consumer \<Rightarrow> Consumer res" where
  "processCurrentEvent period now wakeup c =
     (case wakeup_ticks c of [] \<Rightarrow> Inl Bad_index
      | cur # rest \<Rightarrow>
          bindR (assertR (clockEdge_at period now 0 = cur)) (\<lambda>_.
          bindR (wakeup (c\<lparr>wakeup_ticks := rest, wakeup_event := None\<rparr>)) (\<lambda>c'.
            scheduleNextWakeup (clockEdge_at period now 0) c')))"

text \<open>Every wanted tick lies at or after the current edge and on an edge, and the earliest of them has the
  pending event.\<close>

definition Consumer_ok :: "nat \<Rightarrow> Tick \<Rightarrow> Consumer \<Rightarrow> bool" where
  "Consumer_ok period now c \<longleftrightarrow> sorted_wrt (<) (wakeup_ticks c)
     \<and> (\<forall>t \<in> set (wakeup_ticks c). now \<le> t \<and> period dvd t)
     \<and> wakeup_event c = (case wakeup_ticks c of [] \<Rightarrow> None | t # _ \<Rightarrow> Some t)"

text \<open>The state between taking an event out of the queue and scheduling the next one.\<close>

definition Consumer_open :: "nat \<Rightarrow> Tick \<Rightarrow> Consumer \<Rightarrow> bool" where
  "Consumer_open period now c \<longleftrightarrow> sorted_wrt (<) (wakeup_ticks c)
     \<and> (\<forall>t \<in> set (wakeup_ticks c). now \<le> t \<and> period dvd t)
     \<and> (\<forall>e. wakeup_event c = Some e \<longrightarrow> (\<exists>t \<in> set (wakeup_ticks c). t \<le> e))
     \<and> (\<forall>e. wakeup_event c = Some e \<longrightarrow> e \<in> set (wakeup_ticks c))"

lemma edge_le_multiple:
  assumes "0 < period" and "now \<le> t" and "period dvd t"
  shows "clockEdge_at period now 0 \<le> t"
proof -
  obtain k where t: "t = k * period" using assms(3) by (metis dvd_def mult.commute)
  then have "divCeil now period \<le> k" using assms by (simp add: divCeil_le_iff)
  then show ?thesis by (simp add: clockEdge_at_def t)
qed

lemma lower_bound_hd:
  assumes "\<forall>t \<in> set ts. e \<le> t"
  shows "lower_bound e ts = (case ts of [] \<Rightarrow> None | t # _ \<Rightarrow> Some t)"
  using assms by (cases ts) (auto simp: lower_bound_def)

lemma scheduleNextWakeup_ok:
  assumes "0 < period" and "Consumer_open period now c"
  shows "\<exists>c'. scheduleNextWakeup (clockEdge_at period now 0) c = Inr c' \<and> Consumer_ok period now c'
     \<and> wakeup_ticks c' = wakeup_ticks c"
proof -
  have ge: "\<forall>t \<in> set (wakeup_ticks c). clockEdge_at period now 0 \<le> t"
    using assms by (auto simp: Consumer_open_def intro: edge_le_multiple)
  show ?thesis
  proof (cases "wakeup_ticks c")
    case Nil
    with assms(2) have "wakeup_event c = None"
      by (cases "wakeup_event c") (auto simp: Consumer_open_def)
    with Nil assms show ?thesis
      by (simp add: scheduleNextWakeup_def lower_bound_hd Consumer_ok_def Consumer_open_def)
  next
    case (Cons t ts)
    have lb: "lower_bound (clockEdge_at period now 0) (wakeup_ticks c) = Some t"
      using ge Cons by (simp add: lower_bound_hd)
    have le: "\<forall>u \<in> set (wakeup_ticks c). t \<le> u"
      using assms(2) Cons by (auto simp: Consumer_open_def intro: less_imp_le)
    have "wakeup_event c = Some e \<Longrightarrow> \<not> t < e \<Longrightarrow> e = t" for e
      using assms(2) le unfolding Consumer_open_def by (metis antisym_conv2)
    then show ?thesis
      using ge Cons lb assms(2)
      by (auto simp: scheduleNextWakeup_def Consumer_ok_def Consumer_open_def split: option.split)
  qed
qed

lemma wakeup_ticks_insert:
  assumes "sorted_wrt (<) (ts :: nat list)"
  shows "sorted_wrt (<) (insort_insert t ts)" and "set (insort_insert t ts) = insert t (set ts)"
  using assms by (simp_all add: strict_sorted_iff set_insort_insert sorted_insort_insert distinct_insort_insert)

lemma Consumer_ok_open: "Consumer_ok period now c \<Longrightarrow> Consumer_open period now c"
  by (auto simp: Consumer_ok_def Consumer_open_def split: list.splits)

lemma Consumer_open_insert:
  assumes "Consumer_open period now c" and "now \<le> t" and "period dvd t"
  shows "Consumer_open period now (c\<lparr>wakeup_ticks := insort_insert t (wakeup_ticks c)\<rparr>)"
  using assms wakeup_ticks_insert [of "wakeup_ticks c" t]
  unfolding Consumer_open_def by auto

lemma clockEdge_at_dvd: "period dvd clockEdge_at period now k"
  by (simp add: clockEdge_at_def)

lemma scheduleEvent_open:
  assumes "0 < period" and "Consumer_open period now c"
  shows "\<exists>c'. scheduleEvent period now d c = Inr c' \<and> Consumer_ok period now c'
     \<and> set (wakeup_ticks c') = insert (clockEdge_at period now d) (set (wakeup_ticks c))"
proof -
  have "Consumer_open period now
      (c\<lparr>wakeup_ticks := insort_insert (clockEdge_at period now d) (wakeup_ticks c)\<rparr>)"
    using assms by (intro Consumer_open_insert clockEdge_at_ge clockEdge_at_dvd)
  from scheduleNextWakeup_ok [OF assms(1) this] show ?thesis
    using assms(2) by (auto simp: scheduleEvent_def wakeup_ticks_insert Consumer_open_def)
qed

lemma scheduleEventAbsolute_open:
  assumes "0 < period" and "Consumer_open period now c" and "now \<le> t"
  shows "\<exists>c'. scheduleEventAbsolute period now t c = Inr c' \<and> Consumer_ok period now c'
     \<and> set (wakeup_ticks c') = insert (clockEdge_at period t 0) (set (wakeup_ticks c))"
proof -
  have "Consumer_open period now
      (c\<lparr>wakeup_ticks := insort_insert (divCeil t period * period) (wakeup_ticks c)\<rparr>)"
    using assms divCeil_mult_ge [of period t] by (intro Consumer_open_insert) auto
  from scheduleNextWakeup_ok [OF assms(1) this] show ?thesis
    using assms(2) by (auto simp: scheduleEventAbsolute_def wakeup_ticks_insert Consumer_open_def clockEdge_at_def)
qed

lemma schedule_delays_open:
  assumes "0 < period" and "Consumer_open period now c"
  shows "\<exists>c'. loopR (scheduleEvent period now) ds c = Inr c' \<and> Consumer_open period now c'
     \<and> set (wakeup_ticks c') = clockEdge_at period now ` set ds \<union> set (wakeup_ticks c)"
  using assms(2)
proof (induction ds arbitrary: c)
  case (Cons d ds)
  from scheduleEvent_open [OF assms(1) Cons.prems, of d] obtain c1 where
    c1: "scheduleEvent period now d c = Inr c1" "Consumer_open period now c1"
      "set (wakeup_ticks c1) = insert (clockEdge_at period now d) (set (wakeup_ticks c))"
    by (blast intro: Consumer_ok_open)
  from Cons.IH [OF c1(2)] obtain c2 where "loopR (scheduleEvent period now) ds c1 = Inr c2"
    "Consumer_open period now c2"
    "set (wakeup_ticks c2) = clockEdge_at period now ` set ds \<union> set (wakeup_ticks c1)" by blast
  with c1 show ?case by (intro exI [of _ c2]) auto
qed simp

lemma processCurrentEvent_ok:
  assumes "0 < period" and "Consumer_ok period now c" and "wakeup_event c = Some now"
  shows "\<exists>c'. processCurrentEvent period now (loopR (scheduleEvent period now) ds) c = Inr c'
     \<and> Consumer_ok period now c'
     \<and> set (wakeup_ticks c') = clockEdge_at period now ` set ds \<union> (set (wakeup_ticks c) - {now})"
proof -
  obtain rest where ticks: "wakeup_ticks c = now # rest"
    using assms(2,3) by (auto simp: Consumer_ok_def split: list.splits)
  then have now: "clockEdge_at period now 0 = now"
    using assms(1,2) edge_le_multiple [of period now now] clockEdge_at_ge [of period now 0]
    by (simp add: Consumer_ok_def)
  have "Consumer_open period now (c\<lparr>wakeup_ticks := rest, wakeup_event := None\<rparr>)"
    using assms(2) ticks by (auto simp: Consumer_ok_def Consumer_open_def)
  from schedule_delays_open [OF assms(1) this, of ds] obtain c1 where
    c1: "loopR (scheduleEvent period now) ds (c\<lparr>wakeup_ticks := rest, wakeup_event := None\<rparr>) = Inr c1"
      "Consumer_open period now c1" "set (wakeup_ticks c1) = clockEdge_at period now ` set ds \<union> set rest"
    by auto
  from scheduleNextWakeup_ok [OF assms(1) c1(2)] obtain c2 where
    "scheduleNextWakeup (clockEdge_at period now 0) c1 = Inr c2" "Consumer_ok period now c2"
    "wakeup_ticks c2 = wakeup_ticks c1" by blast
  moreover have "set (wakeup_ticks c) - {now} = set rest"
    using assms(2) ticks by (auto simp: Consumer_ok_def)
  ultimately show ?thesis using c1 ticks now by (simp add: processCurrentEvent_def)
qed

text \<open>
  A consumer in the simulation: requests for a wakeup arrive while time passes, and time never passes a
  pending event. The third and fourth components record the ticks asked for and the ticks served.
\<close>

type_synonym consumer_run = "Tick \<times> Consumer \<times> Tick set \<times> Tick set"

inductive consumer_step :: "nat \<Rightarrow> consumer_run \<Rightarrow> consumer_run \<Rightarrow> bool" for period where
  relative: "scheduleEvent period now d c = Inr c' \<Longrightarrow>
    consumer_step period (now, c, W, S) (now, c', insert (clockEdge_at period now d) W, S)"
| absolute: "now \<le> t \<Longrightarrow> scheduleEventAbsolute period now t c = Inr c' \<Longrightarrow>
    consumer_step period (now, c, W, S) (now, c', insert (clockEdge_at period t 0) W, S)"
| advance: "now \<le> now' \<Longrightarrow> (\<And>e. wakeup_event c = Some e \<Longrightarrow> now' \<le> e) \<Longrightarrow>
    consumer_step period (now, c, W, S) (now', c, W, S)"
| fire: "wakeup_event c = Some now \<Longrightarrow>
    processCurrentEvent period now (loopR (scheduleEvent period now) ds) c = Inr c' \<Longrightarrow>
    consumer_step period (now, c, W, S) (now, c', clockEdge_at period now ` set ds \<union> W, insert now S)"

definition consumer_inv :: "nat \<Rightarrow> consumer_run \<Rightarrow> bool" where
  "consumer_inv period r = (case r of (now, c, W, S) \<Rightarrow>
     Consumer_ok period now c \<and> W = S \<union> set (wakeup_ticks c) \<and> (\<forall>t \<in> S. t \<le> now \<and> period dvd t))"

lemma consumer_step_inv:
  assumes "0 < period" and "consumer_step period r r'" and "consumer_inv period r"
  shows "consumer_inv period r'"
  using assms(2,3)
proof (cases rule: consumer_step.cases)
  case (relative now d c c' W S)
  with assms scheduleEvent_open [OF assms(1), of now c d] show ?thesis
    by (auto simp: consumer_inv_def dest: Consumer_ok_open)
next
  case (absolute now t c c' W S)
  with assms scheduleEventAbsolute_open [OF assms(1), of now c t] show ?thesis
    by (auto simp: consumer_inv_def dest: Consumer_ok_open)
next
  case (advance now now' c W S)
  with assms(3) have "Consumer_ok period now' c"
    by (auto simp: consumer_inv_def Consumer_ok_def split: list.splits)
  with advance assms(3) show ?thesis by (auto simp: consumer_inv_def intro: le_trans)
next
  case (fire c now ds c' W S)
  then have ok: "Consumer_ok period now c" and W: "W = S \<union> set (wakeup_ticks c)" and S: "\<forall>t \<in> S. t \<le> now \<and> period dvd t"
    using assms(3) by (simp_all add: consumer_inv_def)
  have now: "now \<in> set (wakeup_ticks c)" "period dvd now" using ok fire(3) by (auto simp: Consumer_ok_def split: list.splits)
  from processCurrentEvent_ok [OF assms(1) ok fire(3), of ds] fire(4)
  have c': "Consumer_ok period now c'" "set (wakeup_ticks c') = clockEdge_at period now ` set ds \<union> (set (wakeup_ticks c) - {now})" by simp_all
  have "clockEdge_at period now ` set ds \<union> W = insert now S \<union> set (wakeup_ticks c')" unfolding c'(2) W using now(1) by blast
  with c'(1) S now(2) fire(2) show ?thesis by (simp add: consumer_inv_def)
qed

lemma consumer_reachable_inv:
  assumes "0 < period" and "(consumer_step period)\<^sup>*\<^sup>* (0, Consumer_new, {}, {}) r"
  shows "consumer_inv period r"
  using assms(2)
proof (induction rule: rtranclp_induct)
  case base
  show ?case by (simp add: consumer_inv_def Consumer_ok_def Consumer_new_def)
next
  case (step r r')
  then show ?case using consumer_step_inv [OF assms(1)] by blast
qed

text \<open>Claim C26. No wake-up is lost and none is spurious. In every reachable state of a consumer, the ticks it has
  been served at are ticks it was asked to wake at, none of them in the future and each of them on a clock edge. Each
  requested tick that lies in the past has been served, and as long as a requested tick has not been served there
  is a pending event, on a clock edge, that is neither in the past nor later than that tick. When the pending event
  fires, it finds the current tick at the head of the wake-up set, so that the assertion of \<open>processCurrentEvent\<close> holds and
  processing succeeds whatever further wake-ups the component asks for; afterwards exactly the remaining ticks and the new
  ones are pending.\<close>

theorem consumer_no_lost_wakeup:
  assumes "0 < period" and "(consumer_step period)\<^sup>*\<^sup>* (0, Consumer_new, {}, {}) (now, c, W, S)"
  shows "S \<subseteq> W \<and> (\<forall>t \<in> S. t \<le> now \<and> period dvd t)
    \<and> (\<forall>t \<in> W. t < now \<longrightarrow> t \<in> S)
    \<and> (\<forall>t \<in> W - S. \<exists>e. wakeup_event c = Some e \<and> now \<le> e \<and> e \<le> t \<and> period dvd e)
    \<and> (wakeup_event c = Some now \<longrightarrow>
        (\<forall>ds. \<exists>c'. processCurrentEvent period now (loopR (scheduleEvent period now) ds) c = Inr c'
           \<and> set (wakeup_ticks c') = clockEdge_at period now ` set ds \<union> (set (wakeup_ticks c) - {now})))"
proof -
  have "consumer_inv period (now, c, W, S)" using consumer_reachable_inv [OF assms] .
  then have ok: "Consumer_ok period now c" and W: "W = S \<union> set (wakeup_ticks c)" and S: "\<forall>t \<in> S. t \<le> now \<and> period dvd t"
    by (simp_all add: consumer_inv_def)
  have "\<exists>e. wakeup_event c = Some e \<and> now \<le> e \<and> e \<le> t \<and> period dvd e" if "t \<in> set (wakeup_ticks c)" for t
    using ok that by (cases "wakeup_ticks c") (auto simp: Consumer_ok_def intro: less_imp_le)
  moreover have "\<forall>t \<in> W. t < now \<longrightarrow> t \<in> S" using ok W by (fastforce simp: Consumer_ok_def)
  moreover have "\<exists>c'. processCurrentEvent period now (loopR (scheduleEvent period now) ds) c = Inr c'
      \<and> set (wakeup_ticks c') = clockEdge_at period now ` set ds \<union> (set (wakeup_ticks c) - {now})" if "wakeup_event c = Some now" for ds
    using processCurrentEvent_ok [OF assms(1) ok that] by blast
  ultimately show ?thesis using W S by auto
qed

theorem consumer_no_lost_wakeup_witness:
  "\<exists>c. (consumer_step 500)\<^sup>*\<^sup>* (0, Consumer_new, {}, {}) (1000, c, {1000}, {})
     \<and> wakeup_event c = Some 1000
     \<and> (\<forall>t \<in> {1000} - {}. \<exists>e. wakeup_event c = Some e \<and> 1000 \<le> e \<and> e \<le> t \<and> 500 dvd e)
     \<and> (\<exists>c'. processCurrentEvent 500 1000 (loopR (scheduleEvent 500 1000) [1]) c = Inr c')"
proof -
  let ?c = "\<lparr>wakeup_ticks = [1000], wakeup_event = Some 1000\<rparr>"
  have "scheduleEventAbsolute 500 0 700 Consumer_new = Inr ?c"
    by code_simp
  moreover have "clockEdge_at 500 700 0 = 1000" by code_simp
  ultimately have "consumer_step 500 (0, Consumer_new, {}, {}) (0, ?c, {1000}, {})"
    using consumer_step.absolute [of 0 700 500 Consumer_new ?c "{}" "{}"] by simp
  moreover have "consumer_step 500 (0, ?c, {1000}, {}) (1000, ?c, {1000}, {})"
    by (rule consumer_step.advance) simp_all
  ultimately have r: "(consumer_step 500)\<^sup>*\<^sup>* (0, Consumer_new, {}, {}) (1000, ?c, {1000}, {})"
    by (rule converse_rtranclp_into_rtranclp [OF _ r_into_rtranclp])
  with consumer_no_lost_wakeup [of 500 1000 ?c "{1000}" "{}"] show ?thesis
    by (intro exI [of _ ?c]) auto
qed

end
