(* ===== verification/Network_Link.thy ===== *)
theory Network_Link
  imports Flits Clocks
begin

text \<open>
  \<open>NetworkLink\<close> (and \<open>CreditLink\<close>, the same class under another name): once per cycle of its own clock a link
  takes the first ready flit of its source queue, stamps it with the tick at which the transmission ends
  and appends it to its buffer, from which the consumer takes it. The source queue lives in the sending
  unit; it is passed in and returned, and is \<open>None\<close> before \<open>setSourceQueue\<close>. Calls that wake another
  component are returned as a list of requests, in the order in which the code makes them.
\<close>

datatype wake_req =
    Wake_self Cycles            \<comment> \<open>\<open>scheduleEvent(d)\<close> on the component itself\<close>
  | Wake_router Cycles          \<comment> \<open>\<open>schedule_wakeup(d)\<close> of the router\<close>
  | Wake_output_unit int Cycles \<comment> \<open>\<open>scheduleEvent(d)\<close> of an output unit on itself\<close>
  | Wake_consumer Tick          \<comment> \<open>\<open>scheduleEventAbsolute(t)\<close> on the consumer of the link\<close>
  | Wake_out_link int Tick      \<comment> \<open>\<open>scheduleEventAbsolute(t)\<close> on the output link of a port\<close>
  | Wake_credit_link int Tick   \<comment> \<open>\<open>scheduleEventAbsolute(t)\<close> on the credit link of a port\<close>

record NetworkLink =
  nl_id :: int
  nl_type :: link_type
  nl_latency :: Cycles
  nl_link_utilized :: nat
  nl_vc_load :: "nat list"
  nl_virt_nets :: nat
  nl_buffer :: flitBuffer
  nl_mVnets :: "int list"
  nl_bitWidth :: nat

definition NetworkLink_new :: "int \<Rightarrow> Cycles \<Rightarrow> nat \<Rightarrow> int list \<Rightarrow> nat \<Rightarrow> NetworkLink" where
  "NetworkLink_new lid latency virt_nets supported_vnets width =
     \<lparr>nl_id = lid, nl_type = NUM_LINK_TYPES, nl_latency = latency, nl_link_utilized = 0,
      nl_vc_load = [], nl_virt_nets = virt_nets, nl_buffer = flitBuffer_new,
      nl_mVnets = supported_vnets, nl_bitWidth = width\<rparr>"

definition nl_setVcsPerVnet :: "nat \<Rightarrow> NetworkLink \<Rightarrow> NetworkLink" where
  "nl_setVcsPerVnet consumerVcs l = (let n = nl_virt_nets l * consumerVcs in
     l\<lparr>nl_vc_load := take n (nl_vc_load l) @ replicate (n - length (nl_vc_load l)) 0\<rparr>)"

definition nl_wakeup :: "nat \<Rightarrow> Tick \<Rightarrow> flitBuffer option \<Rightarrow> NetworkLink
    \<Rightarrow> (flitBuffer \<times> NetworkLink \<times> wake_req list) res" where
  "nl_wakeup period now srcq l =
     (case srcq of None \<Rightarrow> Inl Assert_fail | Some src \<Rightarrow>
      bindR (assertR (now = clockEdge_at period now 0)) (\<lambda>_.
      bindR (if fb_isReady now src then
               bindR (fb_getTopFlit src) (\<lambda>(t_flit, src1).
               bindR (assertR (nl_type l \<noteq> NUM_LINK_TYPES \<longrightarrow> f_width t_flit = nl_bitWidth l)) (\<lambda>_.
               bindR (assertR (nl_type l \<noteq> NUM_LINK_TYPES \<longrightarrow>
                   f_vnet t_flit \<in> set (nl_mVnets l) \<or> length (nl_mVnets l) = 0)) (\<lambda>_.
                 let done = clockEdge_at period now (nl_latency l);
                     t_flit' = t_flit\<lparr>f_time := done\<rparr> in
                 bindR (at (nl_vc_load l) (f_vc t_flit')) (\<lambda>n.
                 bindR (put (nl_vc_load l) (f_vc t_flit') (n + 1)) (\<lambda>load.
                   Inr (src1, l\<lparr>nl_buffer := fb_insert t_flit' (nl_buffer l),
                                nl_link_utilized := nl_link_utilized l + 1, nl_vc_load := load\<rparr>,
                        [Wake_consumer done]))))))
             else Inr (src, l, [])) (\<lambda>(src', l', reqs).
        Inr (src', l', reqs @ (if \<not> fb_isEmpty src' then [Wake_self 1] else [])))))"

definition nl_resetStats :: "NetworkLink \<Rightarrow> NetworkLink" where
  "nl_resetStats l = l\<lparr>nl_vc_load := map (\<lambda>_. 0) (nl_vc_load l), nl_link_utilized := 0\<rparr>"

definition nl_isReady :: "Tick \<Rightarrow> NetworkLink \<Rightarrow> bool" where
  "nl_isReady curTime l = fb_isReady curTime (nl_buffer l)"

definition nl_peekLink :: "NetworkLink \<Rightarrow> flit res" where
  "nl_peekLink l = fb_peekTopFlit (nl_buffer l)"

definition nl_consumeLink :: "NetworkLink \<Rightarrow> (flit \<times> NetworkLink) res" where
  "nl_consumeLink l = bindR (fb_getTopFlit (nl_buffer l)) (\<lambda>(f, b). Inr (f, l\<lparr>nl_buffer := b\<rparr>))"

definition nl_functionalRead :: "'h access \<Rightarrow> NetworkLink \<Rightarrow> 'h \<Rightarrow> (bool \<times> 'h) res" where
  "nl_functionalRead acc l h = fb_functionalRead acc (nl_buffer l) h"

definition nl_functionalWrite :: "'h access \<Rightarrow> NetworkLink \<Rightarrow> 'h \<Rightarrow> (nat \<times> 'h) res" where
  "nl_functionalWrite acc l h = fb_functionalWrite acc (nl_buffer l) h"

section \<open>What a wakeup does\<close>

text \<open>A flit without its time stamp: what a link must not change.\<close>

definition untimed :: "flit \<Rightarrow> flit" where
  "untimed f = f\<lparr>f_time := 0\<rparr>"

definition nl_accepts :: "NetworkLink \<Rightarrow> flit \<Rightarrow> bool" where
  "nl_accepts l f \<longleftrightarrow> 0 \<le> f_vc f \<and> f_vc f < int (length (nl_vc_load l))
     \<and> (nl_type l \<noteq> NUM_LINK_TYPES \<longrightarrow> f_width f = nl_bitWidth l
         \<and> (f_vnet f \<in> set (nl_mVnets l) \<or> nl_mVnets l = []))"

lemma untimed_time [simp]: "untimed (f\<lparr>f_time := t\<rparr>) = untimed f"
  by (simp add: untimed_def)

lemma nl_accepts_wakeup_irrelevant [simp]:
  "nl_accepts (l\<lparr>nl_buffer := b\<rparr>) f = nl_accepts l f"
  "nl_accepts (l\<lparr>nl_link_utilized := n\<rparr>) f = nl_accepts l f"
  by (simp_all add: nl_accepts_def)

lemma nl_wakeup_move:
  assumes "fb_buffer src = f # fs" and "f_time f \<le> now" and "now = clockEdge_at period now 0"
    and "nl_accepts l f"
  shows "\<exists>l'. nl_wakeup period now (Some src) l = Inr (src\<lparr>fb_buffer := fs\<rparr>, l',
       Wake_consumer (clockEdge_at period now (nl_latency l)) # (if fs = [] then [] else [Wake_self 1]))
     \<and> fb_buffer (nl_buffer l') = fb_buffer (nl_buffer l) @ [f\<lparr>f_time := clockEdge_at period now (nl_latency l)\<rparr>]
     \<and> nl_latency l' = nl_latency l \<and> nl_type l' = nl_type l \<and> nl_bitWidth l' = nl_bitWidth l
     \<and> nl_mVnets l' = nl_mVnets l \<and> length (nl_vc_load l') = length (nl_vc_load l)
     \<and> nl_link_utilized l' = nl_link_utilized l + 1
     \<and> sum_list (nl_vc_load l') = sum_list (nl_vc_load l) + 1"
proof -
  let ?t = "clockEdge_at period now (nl_latency l)"
  let ?i = "nat (f_vc f)"
  have i: "?i < length (nl_vc_load l)" "0 \<le> f_vc f" "f_vc f < int (length (nl_vc_load l))"
    using assms(4) by (auto simp: nl_accepts_def)
  have ready: "fb_isReady now src" "fb_getTopFlit src = Inr (f, src\<lparr>fb_buffer := fs\<rparr>)"
    using assms by (auto simp: fb_isReady_def fb_getTopFlit_def)
  have "sum_list ((nl_vc_load l)[?i := nl_vc_load l ! ?i + 1]) = sum_list (nl_vc_load l) + 1"
    using sum_list_update_nat [OF i(1), of "nl_vc_load l ! ?i + 1"] by simp
  then show ?thesis
    using assms ready i by (auto simp: nl_wakeup_def Let_def at_ok put_ok nl_accepts_def fb_insert_def
        fb_isEmpty_def simp flip: assms(3))
qed

lemma nl_wakeup_idle:
  assumes "\<not> fb_isReady now src" and "now = clockEdge_at period now 0"
  shows "nl_wakeup period now (Some src) l = Inr (src, l, if fb_buffer src = [] then [] else [Wake_self 1])"
  using assms(1) by (auto simp: nl_wakeup_def fb_isEmpty_def simp flip: assms(2))

section \<open>A link in use\<close>

text \<open>The sender inserts flits, the link wakes up on clock edges, the consumer takes ready flits. The last two
  components record what was inserted and what was taken.\<close>

record link_run =
  lr_now :: Tick
  lr_src :: flitBuffer
  lr_link :: NetworkLink
  lr_in :: "flit list"
  lr_out :: "flit list"

inductive link_step :: "nat \<Rightarrow> link_run \<Rightarrow> link_run \<Rightarrow> bool" for period where
  send: "nl_accepts (lr_link s) f \<Longrightarrow>
    link_step period s (s\<lparr>lr_src := fb_insert f (lr_src s), lr_in := lr_in s @ [f]\<rparr>)"
| pass: "lr_now s \<le> t \<Longrightarrow> link_step period s (s\<lparr>lr_now := t\<rparr>)"
| wake: "nl_wakeup period (lr_now s) (Some (lr_src s)) (lr_link s) = Inr (src', l', reqs) \<Longrightarrow>
    link_step period s (s\<lparr>lr_src := src', lr_link := l'\<rparr>)"
| take: "nl_isReady (lr_now s) (lr_link s) \<Longrightarrow> nl_consumeLink (lr_link s) = Inr (f, l') \<Longrightarrow>
    link_step period s (s\<lparr>lr_link := l', lr_out := lr_out s @ [f]\<rparr>)"

definition link_start :: "NetworkLink \<Rightarrow> link_run" where
  "link_start l = \<lparr>lr_now = 0, lr_src = flitBuffer_new, lr_link = l, lr_in = [], lr_out = []\<rparr>"

definition link_inv :: "nat \<Rightarrow> NetworkLink \<Rightarrow> link_run \<Rightarrow> bool" where
  "link_inv period l0 s \<longleftrightarrow>
     map untimed (lr_out s @ fb_buffer (nl_buffer (lr_link s)) @ fb_buffer (lr_src s)) = map untimed (lr_in s)
     \<and> sorted (map f_time (lr_out s @ fb_buffer (nl_buffer (lr_link s))))
     \<and> (\<forall>f \<in> set (fb_buffer (nl_buffer (lr_link s))). f_time f \<le> clockEdge_at period (lr_now s) (nl_latency l0))
     \<and> (\<forall>f \<in> set (lr_out s). f_time f \<le> lr_now s)
     \<and> (\<forall>f \<in> set (fb_buffer (lr_src s)). nl_accepts (lr_link s) f)
     \<and> (\<forall>f. nl_accepts (lr_link s) f = nl_accepts l0 f)
     \<and> nl_latency (lr_link s) = nl_latency l0
     \<and> nl_link_utilized (lr_link s) = length (lr_out s) + length (fb_buffer (nl_buffer (lr_link s)))"

lemma nl_wakeup_edge:
  "nl_wakeup period now (Some src) l = Inr r \<Longrightarrow> now = clockEdge_at period now 0"
  by (auto simp: nl_wakeup_def bindR_Inr_iff assertR_Inr_iff)

lemma link_inv_send:
  assumes "link_inv period l0 s" and "nl_accepts (lr_link s) f"
  shows "link_inv period l0 (s\<lparr>lr_src := fb_insert f (lr_src s), lr_in := lr_in s @ [f]\<rparr>)"
proof -
  have "map untimed (lr_out s @ fb_buffer (nl_buffer (lr_link s)) @ fb_buffer (fb_insert f (lr_src s)))
      = map untimed (lr_in s @ [f])"
    using assms(1) by (simp add: link_inv_def fb_insert_def flip: append_assoc)
  then show ?thesis using assms by (auto simp: link_inv_def fb_insert_def)
qed

lemma link_inv_pass:
  assumes "0 < period" and "link_inv period l0 s" and "lr_now s \<le> t"
  shows "link_inv period l0 (s\<lparr>lr_now := t\<rparr>)"
  using assms clockEdge_at_mono [OF assms(1,3), of "nl_latency l0"]
  unfolding link_inv_def by (auto intro: order_trans)

lemma link_inv_wake:
  assumes p: "0 < period" and inv: "link_inv period l0 s"
    and w: "nl_wakeup period (lr_now s) (Some (lr_src s)) (lr_link s) = Inr (src', l', reqs)"
  shows "link_inv period l0 (s\<lparr>lr_src := src', lr_link := l'\<rparr>)"
proof (cases "fb_isReady (lr_now s) (lr_src s)")
  case False
  with w nl_wakeup_idle [OF False nl_wakeup_edge [OF w]] inv show ?thesis by (auto simp: link_inv_def)
next
  case True
  then obtain f fs where f: "fb_buffer (lr_src s) = f # fs" "f_time f \<le> lr_now s"
    by (auto simp: fb_isReady_def split: list.splits)
  then have acc: "nl_accepts (lr_link s) f" using inv by (auto simp: link_inv_def)
  let ?t = "clockEdge_at period (lr_now s) (nl_latency l0)"
  have lat: "nl_latency (lr_link s) = nl_latency l0" using inv by (simp add: link_inv_def)
  from nl_wakeup_move [OF f nl_wakeup_edge [OF w] acc] w
  have m: "src' = (lr_src s)\<lparr>fb_buffer := fs\<rparr>"
    "fb_buffer (nl_buffer l') = fb_buffer (nl_buffer (lr_link s)) @ [f\<lparr>f_time := ?t\<rparr>]"
    "nl_latency l' = nl_latency l0" "nl_link_utilized l' = nl_link_utilized (lr_link s) + 1"
    "\<forall>g. nl_accepts l' g = nl_accepts (lr_link s) g"
    by (auto simp: lat nl_accepts_def)
  have "sorted (map f_time (lr_out s @ fb_buffer (nl_buffer l')))"
  proof -
    have "\<forall>g \<in> set (lr_out s). f_time g \<le> ?t"
      using inv clockEdge_at_ge [OF p, of "lr_now s" "nl_latency l0"]
      unfolding link_inv_def by (auto intro: order_trans)
    then show ?thesis using inv m(2) by (auto simp: link_inv_def sorted_append)
  qed
  moreover have "map untimed (lr_out s @ fb_buffer (nl_buffer l') @ fb_buffer src')
      = map untimed (lr_out s @ fb_buffer (nl_buffer (lr_link s)) @ fb_buffer (lr_src s))"
    by (simp add: m f)
  ultimately show ?thesis using inv m f by (auto simp: link_inv_def)
qed

lemma link_inv_take:
  assumes inv: "link_inv period l0 s" and ready: "nl_isReady (lr_now s) (lr_link s)"
    and c: "nl_consumeLink (lr_link s) = Inr (f, l')"
  shows "link_inv period l0 (s\<lparr>lr_link := l', lr_out := lr_out s @ [f]\<rparr>)"
proof -
  from c obtain fs where l': "fb_buffer (nl_buffer (lr_link s)) = f # fs"
    "l' = (lr_link s)\<lparr>nl_buffer := (nl_buffer (lr_link s))\<lparr>fb_buffer := fs\<rparr>\<rparr>"
    by (auto simp: nl_consumeLink_def fb_getTopFlit_def split: list.splits)
  moreover from ready l' have "f_time f \<le> lr_now s" by (simp add: nl_isReady_def fb_isReady_def)
  ultimately show ?thesis using inv by (auto simp: link_inv_def)
qed

lemmas link_inv_steps = link_inv_send link_inv_pass link_inv_wake link_inv_take

lemma link_step_inv:
  assumes "0 < period" and "link_step period s s'" and "link_inv period l0 s"
  shows "link_inv period l0 s'"
  using assms(2,3) by (induction rule: link_step.induct) (auto intro: link_inv_steps assms(1))

definition link_fresh :: "NetworkLink \<Rightarrow> bool" where
  "link_fresh l \<longleftrightarrow> fb_buffer (nl_buffer l) = [] \<and> nl_link_utilized l = 0"

lemma link_reachable_inv:
  assumes "0 < period" and "link_fresh l" and "(link_step period)\<^sup>*\<^sup>* (link_start l) s"
  shows "link_inv period l s"
  using assms(3)
proof (induction rule: rtranclp_induct)
  case base
  show ?case using assms(2) by (simp add: link_inv_def link_start_def link_fresh_def flitBuffer_new_def)
next
  case (step s s')
  then show ?case using link_step_inv [OF assms(1)] by blast
qed

text \<open>Claim C12. A link neither loses, duplicates, reorders nor alters flits: in every reachable state the
  flits taken by the consumer, those in the link's buffer and those still in the source queue are, in
  this order and apart from their time stamps, exactly the flits the sender inserted. The consumer sees
  arrival times in non-decreasing order, never takes a flit before its arrival time, and the
  utilisation counter is the number of flits transmitted.\<close>

theorem link_delivers_in_order:
  assumes "0 < period" and "link_fresh l" and "(link_step period)\<^sup>*\<^sup>* (link_start l) s"
  shows "map untimed (lr_out s @ fb_buffer (nl_buffer (lr_link s)) @ fb_buffer (lr_src s)) = map untimed (lr_in s)
    \<and> sorted (map f_time (lr_out s @ fb_buffer (nl_buffer (lr_link s))))
    \<and> (\<forall>f \<in> set (lr_out s). f_time f \<le> lr_now s)
    \<and> nl_link_utilized (lr_link s) = length (lr_out s) + length (fb_buffer (nl_buffer (lr_link s)))"
  using link_reachable_inv [OF assms] unfolding link_inv_def by blast

definition sample_link :: NetworkLink where
  "sample_link = nl_setVcsPerVnet 4 (NetworkLink_new 0 1 3 [] 128)"

theorem link_delivers_in_order_witness:
  "link_fresh sample_link \<and> (\<exists>s. (link_step 500)\<^sup>*\<^sup>* (link_start sample_link) s
     \<and> length (lr_out s) = 1 \<and> map untimed (lr_out s) = map untimed (lr_in s))"
proof -
  let ?f = "(sample_flit 0)\<lparr>f_time := 0\<rparr>"
  have fresh: "link_fresh sample_link"
    by (simp add: link_fresh_def sample_link_def nl_setVcsPerVnet_def NetworkLink_new_def flitBuffer_new_def Let_def)
  have acc: "nl_accepts sample_link ?f"
    by (simp add: nl_accepts_def sample_link_def nl_setVcsPerVnet_def NetworkLink_new_def sample_flit_def flit_new_def Let_def)
  define s1 where "s1 = (link_start sample_link)\<lparr>lr_src := fb_insert ?f flitBuffer_new, lr_in := [?f]\<rparr>"
  have step1: "link_step 500 (link_start sample_link) s1"
    using link_step.send [of "link_start sample_link" ?f 500] acc by (simp add: link_start_def s1_def)
  have b: "fb_buffer (lr_src s1) = [?f]" "lr_now s1 = 0" "lr_link s1 = sample_link" "lr_in s1 = [?f]"
    by (simp_all add: s1_def fb_insert_def flitBuffer_new_def link_start_def)
  obtain l' where l': "nl_wakeup 500 0 (Some (lr_src s1)) sample_link
      = Inr ((lr_src s1)\<lparr>fb_buffer := []\<rparr>, l', [Wake_consumer (clockEdge_at 500 0 (nl_latency sample_link))])"
    "fb_buffer (nl_buffer l') = [?f\<lparr>f_time := 500\<rparr>]"
    using nl_wakeup_move [of "lr_src s1" ?f "[]" 0 500 sample_link] b acc
    by (auto simp: clockEdge_at_def divCeil_def sample_link_def nl_setVcsPerVnet_def NetworkLink_new_def
        flitBuffer_new_def Let_def)
  define s2 where "s2 = s1\<lparr>lr_src := (lr_src s1)\<lparr>fb_buffer := []\<rparr>, lr_link := l'\<rparr>"
  have step2: "link_step 500 s1 s2"
    unfolding s2_def by (rule link_step.wake) (use b l' in simp)
  define s3 where "s3 = s2\<lparr>lr_now := 500\<rparr>"
  have step3: "link_step 500 s2 s3"
    unfolding s3_def by (rule link_step.pass) (simp add: s2_def b)
  define s4 where "s4 = s3\<lparr>lr_link := l'\<lparr>nl_buffer := (nl_buffer l')\<lparr>fb_buffer := []\<rparr>\<rparr>,
      lr_out := [?f\<lparr>f_time := 500\<rparr>]\<rparr>"
  have step4: "link_step 500 s3 s4"
    using link_step.take [of s3 "?f\<lparr>f_time := 500\<rparr>" "l'\<lparr>nl_buffer := (nl_buffer l')\<lparr>fb_buffer := []\<rparr>\<rparr>" 500] l'
    by (simp add: s4_def s3_def s2_def s1_def link_start_def nl_isReady_def fb_isReady_def
        nl_consumeLink_def fb_getTopFlit_def)
  have r: "(link_step 500)\<^sup>*\<^sup>* (link_start sample_link) s4"
    using step1 step2 step3 step4 by (auto intro: converse_rtranclp_into_rtranclp)
  have "lr_out s4 = [?f\<lparr>f_time := 500\<rparr>]" "fb_buffer (nl_buffer (lr_link s4)) = []" "fb_buffer (lr_src s4) = []"
    by (simp_all add: s4_def s3_def s2_def)
  with link_delivers_in_order [OF _ fresh r] fresh r show ?thesis
    by (intro conjI exI [of _ s4]) auto
qed

end
