(* ===== verification/Virtual_Channels.thy ===== *)
theory Virtual_Channels
  imports Network_Link
begin

text \<open>
  The two views of a virtual channel: \<open>VirtualChannel\<close>, the buffer and state at a router's input, and
  \<open>OutVcState\<close>/\<open>OutputUnit\<close>, the upstream router's record of whether the downstream channel is free and how
  many of its buffer slots are. The record \<open>net_conf\<close> holds the network parameters the constructors read
  (\<open>GarnetNetwork::get_vnet_type\<close>, \<open>getBuffersPerDataVC\<close>, \<open>getBuffersPerCtrlVC\<close>, the number of virtual
  networks).
\<close>

record net_conf =
  nc_num_vnets :: nat
  nc_vnet_type :: "int \<Rightarrow> VNET_type"
  nc_buffers_per_data_vc :: int
  nc_buffers_per_ctrl_vc :: int

section \<open>VirtualChannel\<close>

record VirtualChannel =
  vc_inputBuffer :: flitBuffer
  vc_state :: "VC_state_type \<times> Tick"
  vc_output_port :: int
  vc_enqueue_time :: Tick
  vc_output_vc :: int

definition VirtualChannel_new :: VirtualChannel where
  "VirtualChannel_new = \<lparr>vc_inputBuffer = flitBuffer_new, vc_state = (IDLE, 0), vc_output_port = -1,
     vc_enqueue_time = INFINITE, vc_output_vc = -1\<rparr>"

definition vc_set_idle :: "Tick \<Rightarrow> VirtualChannel \<Rightarrow> VirtualChannel" where
  "vc_set_idle curTime v = v\<lparr>vc_state := (IDLE, curTime), vc_enqueue_time := INFINITE,
     vc_output_port := -1, vc_output_vc := -1\<rparr>"

definition vc_set_active :: "Tick \<Rightarrow> VirtualChannel \<Rightarrow> VirtualChannel" where
  "vc_set_active curTime v = v\<lparr>vc_state := (ACTIVE, curTime), vc_enqueue_time := curTime\<rparr>"

definition vc_isReady :: "Tick \<Rightarrow> VirtualChannel \<Rightarrow> bool" where
  "vc_isReady curTime v = fb_isReady curTime (vc_inputBuffer v)"

definition vc_insertFlit :: "flit \<Rightarrow> VirtualChannel \<Rightarrow> VirtualChannel" where
  "vc_insertFlit t_flit v = v\<lparr>vc_inputBuffer := fb_insert t_flit (vc_inputBuffer v)\<rparr>"

definition vc_peekTopFlit :: "VirtualChannel \<Rightarrow> flit res" where
  "vc_peekTopFlit v = fb_peekTopFlit (vc_inputBuffer v)"

definition vc_getTopFlit :: "VirtualChannel \<Rightarrow> (flit \<times> VirtualChannel) res" where
  "vc_getTopFlit v = bindR (fb_getTopFlit (vc_inputBuffer v)) (\<lambda>(f, b). Inr (f, v\<lparr>vc_inputBuffer := b\<rparr>))"

definition vc_need_stage :: "flit_stage \<Rightarrow> Tick \<Rightarrow> VirtualChannel \<Rightarrow> bool res" where
  "vc_need_stage stage time v =
     (if fb_isReady time (vc_inputBuffer v) then
        bindR (assertR (fst (vc_state v) = ACTIVE \<and> snd (vc_state v) \<le> time)) (\<lambda>_.
        bindR (fb_peekTopFlit (vc_inputBuffer v)) (\<lambda>t_flit. Inr (is_stage stage time t_flit)))
      else Inr False)"

definition vc_functionalRead :: "'h access \<Rightarrow> VirtualChannel \<Rightarrow> 'h \<Rightarrow> (bool \<times> 'h) res" where
  "vc_functionalRead acc v h = fb_functionalRead acc (vc_inputBuffer v) h"

definition vc_functionalWrite :: "'h access \<Rightarrow> VirtualChannel \<Rightarrow> 'h \<Rightarrow> (nat \<times> 'h) res" where
  "vc_functionalWrite acc v h = fb_functionalWrite acc (vc_inputBuffer v) h"

abbreviation vc_flits :: "VirtualChannel \<Rightarrow> flit list" where
  "vc_flits v \<equiv> fb_buffer (vc_inputBuffer v)"

interpretation vcq: fifo vc_flits vc_insertFlit vc_getTopFlit vc_peekTopFlit
  by unfold_locales (auto simp: vc_insertFlit_def vc_getTopFlit_def vc_peekTopFlit_def fb_insert_def
      fb_getTopFlit_def fb_peekTopFlit_def)

section \<open>OutVcState\<close>

record OutVcState =
  ov_id :: int
  ov_time :: Tick
  ov_vc_state :: VC_state_type
  ov_credit_count :: int
  ov_max_credit_count :: int

definition OutVcState_new :: "net_conf \<Rightarrow> nat \<Rightarrow> nat \<Rightarrow> OutVcState res" where
  "OutVcState_new nc oid consumerVcs =
     bindR (failIf (consumerVcs = 0) Div_by_zero) (\<lambda>_.
       let vnet = int (oid div consumerVcs);
           credits = (if nc_vnet_type nc vnet = DATA_VNET then nc_buffers_per_data_vc nc
                      else nc_buffers_per_ctrl_vc nc) in
       bindR (assertR (credits \<ge> 1)) (\<lambda>_.
         Inr \<lparr>ov_id = int oid, ov_time = 0, ov_vc_state = IDLE, ov_credit_count = credits,
              ov_max_credit_count = credits\<rparr>))"

definition ov_has_credit :: "OutVcState \<Rightarrow> bool" where
  "ov_has_credit w = (ov_credit_count w > 0)"

definition ov_increment_credit :: "OutVcState \<Rightarrow> OutVcState res" where
  "ov_increment_credit w = (let w' = w\<lparr>ov_credit_count := ov_credit_count w + 1\<rparr> in
     bindR (assertR (ov_credit_count w' \<le> ov_max_credit_count w')) (\<lambda>_. Inr w'))"

definition ov_decrement_credit :: "OutVcState \<Rightarrow> OutVcState res" where
  "ov_decrement_credit w = (let w' = w\<lparr>ov_credit_count := ov_credit_count w - 1\<rparr> in
     bindR (assertR (ov_credit_count w' \<ge> 0)) (\<lambda>_. Inr w'))"

definition ov_isInState :: "VC_state_type \<Rightarrow> Tick \<Rightarrow> OutVcState \<Rightarrow> bool" where
  "ov_isInState state request_time w = (ov_vc_state w = state \<and> request_time \<ge> ov_time w)"

definition ov_setState :: "VC_state_type \<Rightarrow> Tick \<Rightarrow> OutVcState \<Rightarrow> OutVcState" where
  "ov_setState state time w = w\<lparr>ov_vc_state := state, ov_time := time\<rparr>"

section \<open>OutputUnit\<close>

record OutputUnit =
  ou_id :: int
  ou_direction :: PortDirection
  ou_vc_per_vnet :: nat
  ou_outBuffer :: flitBuffer
  ou_outVcState :: "OutVcState list"

definition OutputUnit_new :: "net_conf \<Rightarrow> int \<Rightarrow> PortDirection \<Rightarrow> nat \<Rightarrow> OutputUnit res" where
  "OutputUnit_new nc oid direction consumerVcs =
     bindR (mapR (\<lambda>i. OutVcState_new nc i consumerVcs) [0..<consumerVcs * nc_num_vnets nc]) (\<lambda>states.
       Inr \<lparr>ou_id = oid, ou_direction = direction, ou_vc_per_vnet = consumerVcs,
            ou_outBuffer = flitBuffer_new, ou_outVcState = states\<rparr>)"

definition ou_on_vc :: "(OutVcState \<Rightarrow> OutVcState res) \<Rightarrow> int \<Rightarrow> OutputUnit \<Rightarrow> OutputUnit res" where
  "ou_on_vc f vc u = bindR (at (ou_outVcState u) vc) (\<lambda>w. bindR (f w) (\<lambda>w'.
     bindR (put (ou_outVcState u) vc w') (\<lambda>os. Inr (u\<lparr>ou_outVcState := os\<rparr>))))"

definition ou_decrement_credit :: "int \<Rightarrow> OutputUnit \<Rightarrow> OutputUnit res" where
  "ou_decrement_credit out_vc u = ou_on_vc ov_decrement_credit out_vc u"

definition ou_increment_credit :: "int \<Rightarrow> OutputUnit \<Rightarrow> OutputUnit res" where
  "ou_increment_credit out_vc u = ou_on_vc ov_increment_credit out_vc u"

definition ou_has_credit :: "Tick \<Rightarrow> int \<Rightarrow> OutputUnit \<Rightarrow> bool res" where
  "ou_has_credit now out_vc u = bindR (at (ou_outVcState u) out_vc) (\<lambda>w.
     bindR (assertR (ov_isInState ACTIVE now w)) (\<lambda>_. Inr (ov_has_credit w)))"

definition ou_set_vc_state :: "VC_state_type \<Rightarrow> int \<Rightarrow> Tick \<Rightarrow> OutputUnit \<Rightarrow> OutputUnit res" where
  "ou_set_vc_state state vc curTime u = ou_on_vc (\<lambda>w. Inr (ov_setState state curTime w)) vc u"

definition ou_is_vc_idle :: "int \<Rightarrow> Tick \<Rightarrow> OutputUnit \<Rightarrow> bool res" where
  "ou_is_vc_idle vc curTime u = bindR (at (ou_outVcState u) vc) (\<lambda>w. Inr (ov_isInState IDLE curTime w))"

definition vc_range :: "int \<Rightarrow> nat \<Rightarrow> int list" where
  "vc_range vnet per = (let vc_base = vnet * int per in [vc_base..vc_base + int per - 1])"

definition ou_has_free_vc :: "Tick \<Rightarrow> int \<Rightarrow> OutputUnit \<Rightarrow> bool res" where
  "ou_has_free_vc now vnet u = existsR (\<lambda>vc. ou_is_vc_idle vc now u) (vc_range vnet (ou_vc_per_vnet u))"

fun ou_first_idle :: "Tick \<Rightarrow> OutputUnit \<Rightarrow> int list \<Rightarrow> int option res" where
  "ou_first_idle now u [] = Inr None"
| "ou_first_idle now u (vc # vcs) = bindR (ou_is_vc_idle vc now u) (\<lambda>b.
     if b then Inr (Some vc) else ou_first_idle now u vcs)"

definition ou_select_free_vc :: "Tick \<Rightarrow> int \<Rightarrow> OutputUnit \<Rightarrow> (int \<times> OutputUnit) res" where
  "ou_select_free_vc now vnet u = bindR (ou_first_idle now u (vc_range vnet (ou_vc_per_vnet u))) (\<lambda>r.
     case r of None \<Rightarrow> Inr (-1, u)
     | Some vc \<Rightarrow> bindR (ou_set_vc_state ACTIVE vc now u) (\<lambda>u'. Inr (vc, u')))"

definition ou_wakeup :: "Tick \<Rightarrow> NetworkLink \<Rightarrow> OutputUnit \<Rightarrow> (NetworkLink \<times> OutputUnit \<times> wake_req list) res" where
  "ou_wakeup now credit_link u =
     (if nl_isReady now credit_link then
        bindR (nl_consumeLink credit_link) (\<lambda>(t_credit, cl).
        bindR (ou_increment_credit (f_vc t_credit) u) (\<lambda>u1.
        bindR (if f_is_free_signal t_credit then ou_set_vc_state IDLE (f_vc t_credit) now u1 else Inr u1) (\<lambda>u2.
          Inr (cl, u2, if nl_isReady now cl then [Wake_self 1] else []))))
      else Inr (credit_link, u, []))"

definition ou_insert_flit :: "nat \<Rightarrow> Tick \<Rightarrow> flit \<Rightarrow> OutputUnit \<Rightarrow> OutputUnit \<times> wake_req list" where
  "ou_insert_flit period now t_flit u =
     (u\<lparr>ou_outBuffer := fb_insert t_flit (ou_outBuffer u)\<rparr>,
      [Wake_out_link (ou_id u) (clockEdge_at period now 1)])"

definition ou_functionalRead :: "'h access \<Rightarrow> OutputUnit \<Rightarrow> 'h \<Rightarrow> (bool \<times> 'h) res" where
  "ou_functionalRead acc u h = fb_functionalRead acc (ou_outBuffer u) h"

definition ou_functionalWrite :: "'h access \<Rightarrow> OutputUnit \<Rightarrow> 'h \<Rightarrow> (nat \<times> 'h) res" where
  "ou_functionalWrite acc u h = fb_functionalWrite acc (ou_outBuffer u) h"

section \<open>Correctness of the output unit\<close>

lemma ou_on_vc_Inr_iff [res_dest]:
  "ou_on_vc f vc u = Inr u' \<longleftrightarrow> 0 \<le> vc \<and> vc < int (length (ou_outVcState u)) \<and>
     (\<exists>w'. f (ou_outVcState u ! nat vc) = Inr w' \<and> u' = u\<lparr>ou_outVcState := (ou_outVcState u)[nat vc := w']\<rparr>)"
  by (auto simp: ou_on_vc_def bindR_Inr_iff at_Inr_iff put_Inr_iff)

lemma ov_increment_Inr_iff [res_dest]:
  "ov_increment_credit w = Inr w' \<longleftrightarrow> ov_credit_count w < ov_max_credit_count w
     \<and> w' = w\<lparr>ov_credit_count := ov_credit_count w + 1\<rparr>"
  by (auto simp: ov_increment_credit_def Let_def bindR_Inr_iff assertR_Inr_iff)

lemma ov_decrement_Inr_iff [res_dest]:
  "ov_decrement_credit w = Inr w' \<longleftrightarrow> 0 < ov_credit_count w
     \<and> w' = w\<lparr>ov_credit_count := ov_credit_count w - 1\<rparr>"
  by (auto simp: ov_decrement_credit_def Let_def bindR_Inr_iff assertR_Inr_iff)

lemma vc_range_iff [simp]: "vc \<in> set (vc_range vnet per) \<longleftrightarrow> vnet * int per \<le> vc \<and> vc < (vnet + 1) * int per"
  by (auto simp: vc_range_def Let_def algebra_simps)

text \<open>The channels of a virtual network all exist in the unit.\<close>

definition ou_has_vnet :: "int \<Rightarrow> OutputUnit \<Rightarrow> bool" where
  "ou_has_vnet vnet u \<longleftrightarrow> 0 \<le> vnet \<and> (vnet + 1) * int (ou_vc_per_vnet u) \<le> int (length (ou_outVcState u))"

lemma ou_has_vnet_range:
  assumes "ou_has_vnet vnet u" and "vc \<in> set (vc_range vnet (ou_vc_per_vnet u))"
  shows "0 \<le> vc" and "vc < int (length (ou_outVcState u))"
proof -
  have "0 \<le> vnet * int (ou_vc_per_vnet u)" using assms(1) by (simp add: ou_has_vnet_def)
  then show "0 \<le> vc" using assms(2) by simp
  show "vc < int (length (ou_outVcState u))" using assms by (simp add: ou_has_vnet_def)
qed

lemma ou_is_vc_idle_eq:
  "0 \<le> vc \<Longrightarrow> vc < int (length (ou_outVcState u)) \<Longrightarrow>
   ou_is_vc_idle vc now u = Inr (ov_isInState IDLE now (ou_outVcState u ! nat vc))"
  by (simp add: ou_is_vc_idle_def at_ok)

lemma ou_first_idle_find:
  "(\<And>vc. vc \<in> set vcs \<Longrightarrow> 0 \<le> vc \<and> vc < int (length (ou_outVcState u))) \<Longrightarrow>
   ou_first_idle now u vcs = Inr (find (\<lambda>vc. ov_isInState IDLE now (ou_outVcState u ! nat vc)) vcs)"
  by (induction vcs) (auto simp: ou_is_vc_idle_eq)

lemma ou_select_eq:
  assumes "ou_has_vnet vnet u"
  shows "ou_select_free_vc now vnet u =
     (case find (\<lambda>vc. ov_isInState IDLE now (ou_outVcState u ! nat vc)) (vc_range vnet (ou_vc_per_vnet u)) of
        None \<Rightarrow> Inr (-1, u)
      | Some vc \<Rightarrow> Inr (vc, u\<lparr>ou_outVcState :=
          (ou_outVcState u)[nat vc := ov_setState ACTIVE now (ou_outVcState u ! nat vc)]\<rparr>))"
proof -
  let ?vcs = "vc_range vnet (ou_vc_per_vnet u)"
  have b: "\<And>vc. vc \<in> set ?vcs \<Longrightarrow> 0 \<le> vc \<and> vc < int (length (ou_outVcState u))"
    using ou_has_vnet_range [OF assms] by blast
  have "set_option (find P ?vcs) \<subseteq> set ?vcs" for P
    by (auto simp: find_Some_iff simp del: vc_range_iff)
  then show ?thesis
    using ou_first_idle_find [OF b] b
    by (fastforce simp: ou_select_free_vc_def ou_set_vc_state_def ou_on_vc_def at_ok put_ok
        simp del: vc_range_iff split: option.split)
qed

lemma ou_has_free_vc_eq:
  assumes "ou_has_vnet vnet u"
  shows "ou_has_free_vc now vnet u = Inr (\<exists>vc \<in> set (vc_range vnet (ou_vc_per_vnet u)).
     ov_isInState IDLE now (ou_outVcState u ! nat vc))"
  unfolding ou_has_free_vc_def
  by (rule existsR_total) (simp add: ou_is_vc_idle_eq ou_has_vnet_range [OF assms])

text \<open>Claim C32. Output channel allocation: \<open>select_free_vc\<close> never runs out of range and gives out a channel
  exactly when \<open>has_free_vc\<close> says there is one; the channel belongs to the requested virtual network, was
  idle, becomes active, has no lower idle channel in its virtual network, and no other channel, credit count
  or buffer changes. Otherwise it returns -1 and changes nothing.\<close>

theorem select_free_vc_correct:
  assumes "ou_has_vnet vnet u"
  shows "\<exists>vc u'. ou_select_free_vc now vnet u = Inr (vc, u') \<and>
     ou_has_free_vc now vnet u = Inr (vc \<noteq> -1) \<and>
     (if vc = -1 then u' = u
      else vc \<in> set (vc_range vnet (ou_vc_per_vnet u))
         \<and> ov_isInState IDLE now (ou_outVcState u ! nat vc)
         \<and> (\<forall>v. v \<in> set (vc_range vnet (ou_vc_per_vnet u)) \<longrightarrow> v < vc \<longrightarrow>
               \<not> ov_isInState IDLE now (ou_outVcState u ! nat v))
         \<and> u' = u\<lparr>ou_outVcState := (ou_outVcState u)[nat vc :=
               (ou_outVcState u ! nat vc)\<lparr>ov_vc_state := ACTIVE, ov_time := now\<rparr>]\<rparr>)"
proof -
  let ?P = "\<lambda>vc. ov_isInState IDLE now (ou_outVcState u ! nat vc)"
  let ?vcs = "vc_range vnet (ou_vc_per_vnet u)"
  show ?thesis
  proof (cases "find ?P ?vcs")
    case None
    then have "\<not> (\<exists>vc \<in> set ?vcs. ?P vc)" by (simp only: find_None_iff) blast
    with None show ?thesis
      using ou_select_eq [OF assms, of now] ou_has_free_vc_eq [OF assms, of now]
      by (simp del: vc_range_iff)
  next
    case (Some vc)
    then obtain i where i: "i < length ?vcs" "?vcs ! i = vc" "?P vc" "\<forall>j<i. \<not> ?P (?vcs ! j)"
      by (auto simp: find_Some_iff)
    have vc: "vc \<in> set ?vcs" using i nth_mem by blast
    moreover have "vc \<noteq> -1" using ou_has_vnet_range(1) [OF assms vc] by simp
    moreover have "\<not> ?P v" if v: "v \<in> set ?vcs" and lt: "v < vc" for v
    proof -
      obtain j where j: "j < length ?vcs" "?vcs ! j = v" using v unfolding in_set_conv_nth by blast
      have "sorted ?vcs" by (simp add: vc_range_def Let_def)
      then have "j < i" using lt i j by (metis leD leI sorted_nth_mono)
      with i j show ?thesis by blast
    qed
    ultimately show ?thesis
      using ou_select_eq [OF assms, of now] ou_has_free_vc_eq [OF assms, of now] Some i
      by (auto simp: ov_setState_def)
  qed
qed

definition sample_conf :: net_conf where
  "sample_conf = \<lparr>nc_num_vnets = 3, nc_vnet_type = (\<lambda>v. if v = 2 then DATA_VNET else CTRL_VNET),
     nc_buffers_per_data_vc = 4, nc_buffers_per_ctrl_vc = 1\<rparr>"

definition sample_ou :: OutputUnit where
  "sample_ou = \<lparr>ou_id = 1, ou_direction = ''East'', ou_vc_per_vnet = 2, ou_outBuffer = flitBuffer_new,
     ou_outVcState = map (\<lambda>i. \<lparr>ov_id = i, ov_time = 0, ov_vc_state = (if i = 2 then ACTIVE else IDLE),
        ov_credit_count = (if i \<ge> 4 then 4 else 1), ov_max_credit_count = (if i \<ge> 4 then 4 else 1)\<rparr>) [0,1,2,3,4,5]\<rparr>"

theorem select_free_vc_correct_witness:
  "ou_has_vnet 1 sample_ou \<and> (\<exists>u'. ou_select_free_vc 100 1 sample_ou = Inr (3, u'))"
proof -
  have v: "ou_has_vnet 1 sample_ou" by (simp add: ou_has_vnet_def sample_ou_def)
  from select_free_vc_correct [OF v, of 100] obtain vc u' where
    r: "ou_select_free_vc 100 1 sample_ou = Inr (vc, u')" by blast
  moreover have "fst (projr (ou_select_free_vc 100 1 sample_ou)) = 3" by code_simp
  ultimately have "vc = 3" by simp
  with r v show ?thesis by blast
qed

section \<open>An output channel has one owner at a time\<close>

text \<open>What can happen to an output unit, with the channel concerned.\<close>

datatype ou_event = Selected int | Credited int bool | Internal

inductive ou_step :: "OutputUnit \<Rightarrow> ou_event \<Rightarrow> OutputUnit \<Rightarrow> bool" where
  select: "ou_select_free_vc now vnet u = Inr (vc, u') \<Longrightarrow> vc \<noteq> -1 \<Longrightarrow> ou_step u (Selected vc) u'"
| none: "ou_select_free_vc now vnet u = Inr (-1, u') \<Longrightarrow> ou_step u Internal u'"
| send: "ou_decrement_credit vc u = Inr u' \<Longrightarrow> ou_step u Internal u'"
| credit: "nl_isReady now cl \<Longrightarrow> nl_consumeLink cl = Inr (c, cl1) \<Longrightarrow>
    ou_wakeup now cl u = Inr (cl2, u', reqs) \<Longrightarrow> ou_step u (Credited (f_vc c) (f_is_free_signal c)) u'"
| idle: "\<not> nl_isReady now cl \<Longrightarrow> ou_wakeup now cl u = Inr (cl2, u', reqs) \<Longrightarrow> ou_step u Internal u'"
| insert: "ou_insert_flit period now f u = (u', reqs) \<Longrightarrow> ou_step u Internal u'"

inductive ou_trace :: "OutputUnit \<Rightarrow> ou_event list \<Rightarrow> OutputUnit \<Rightarrow> bool" where
  nil: "ou_trace u [] u"
| cons: "ou_step u e u1 \<Longrightarrow> ou_trace u1 es u' \<Longrightarrow> ou_trace u (e # es) u'"

inductive_cases ou_trace_consE: "ou_trace u (e # es) u'"
inductive_cases ou_trace_nilE: "ou_trace u [] u'"
inductive_cases ou_step_selectedE: "ou_step u (Selected vc) u'"

definition ou_state :: "int \<Rightarrow> OutputUnit \<Rightarrow> VC_state_type option" where
  "ou_state vc u = (if 0 \<le> vc \<and> vc < int (length (ou_outVcState u))
     then Some (ov_vc_state (ou_outVcState u ! nat vc)) else None)"

lemma ou_first_idle_SomeD:
  "ou_first_idle now u vcs = Inr (Some vc) \<Longrightarrow> vc \<in> set vcs \<and> ou_state vc u = Some IDLE"
  by (induction vcs) (auto simp: bindR_Inr_iff ou_is_vc_idle_def at_Inr_iff ou_state_def ov_isInState_def
      split: if_splits)

lemma ou_state_update:
  "0 \<le> vc \<Longrightarrow> vc < int (length (ou_outVcState u)) \<Longrightarrow>
   ou_state v (u\<lparr>ou_outVcState := (ou_outVcState u)[nat vc := w']\<rparr>) =
     (if v = vc then Some (ov_vc_state w') else ou_state v u)"
  by (auto simp: ou_state_def nth_list_update eq_nat_nat_iff)

lemma ou_select_cases:
  assumes "ou_select_free_vc now vnet u = Inr (vc, u')"
  obtains "vc = -1" and "u' = u"
  | w' where "ou_state vc u = Some IDLE" and "0 \<le> vc" and "vc < int (length (ou_outVcState u))"
      and "u' = u\<lparr>ou_outVcState := (ou_outVcState u)[nat vc := w']\<rparr>" and "ov_vc_state w' = ACTIVE"
proof -
  from assms obtain r where r: "ou_first_idle now u (vc_range vnet (ou_vc_per_vnet u)) = Inr r"
    "(case r of None \<Rightarrow> Inr (-1, u)
       | Some vc \<Rightarrow> bindR (ou_set_vc_state ACTIVE vc now u) (\<lambda>u'. Inr (vc, u'))) = Inr (vc, u')"
    by (auto simp: ou_select_free_vc_def bindR_Inr_iff)
  show thesis
  proof (cases r)
    case None
    with r that(1) show thesis by simp
  next
    case (Some v)
    with r have "v = vc" "ou_set_vc_state ACTIVE vc now u = Inr u'" by (auto simp: bindR_Inr_iff)
    moreover have "ou_state v u = Some IDLE" using r(1) Some ou_first_idle_SomeD by blast
    ultimately show thesis
      using that(2) by (auto simp: ou_set_vc_state_def ou_on_vc_Inr_iff ov_setState_def)
  qed
qed

lemma ou_step_selected:
  assumes "ou_step u (Selected vc) u'"
  shows "ou_state vc u = Some IDLE \<and> ou_state vc u' = Some ACTIVE"
  using assms
proof (rule ou_step_selectedE)
  fix now vnet assume sel: "ou_select_free_vc now vnet u = Inr (vc, u')" and "vc \<noteq> -1"
  from sel show ?thesis by (rule ou_select_cases) (use \<open>vc \<noteq> -1\<close> in \<open>auto simp: ou_state_update\<close>)
qed

lemma ou_step_keeps_active:
  assumes "ou_step u e u'" and act: "ou_state v u = Some ACTIVE" and no: "e \<noteq> Credited v True"
  shows "ou_state v u' = Some ACTIVE"
  using assms(1)
proof (cases rule: ou_step.cases)
  case (select now vnet vc)
  from select(2) show ?thesis by (rule ou_select_cases) (use act in \<open>auto simp: ou_state_update\<close>)
next
  case (none now vnet)
  from none(2) show ?thesis by (rule ou_select_cases) (use act in \<open>auto simp: ou_state_update\<close>)
next
  case (send vc)
  then show ?thesis using act
    by (auto simp: ou_decrement_credit_def ou_on_vc_Inr_iff ov_decrement_Inr_iff ou_state_update) (simp add: ou_state_def)
next
  case (credit now cl c cl1 cl2 reqs)
  then obtain u1 where u1: "ou_increment_credit (f_vc c) u = Inr u1"
    "(if f_is_free_signal c then ou_set_vc_state IDLE (f_vc c) now u1 else Inr u1) = Inr u'"
    by (auto simp: ou_wakeup_def bindR_Inr_iff)
  from u1(1) act have "ou_state v u1 = Some ACTIVE"
    by (auto simp: ou_increment_credit_def ou_on_vc_Inr_iff ov_increment_Inr_iff ou_state_update) (simp add: ou_state_def)
  with u1(2) credit(1) no show ?thesis
    by (auto simp: ou_set_vc_state_def ou_on_vc_Inr_iff ou_state_update split: if_splits)
next
  case (idle now cl cl2 reqs)
  then show ?thesis using act by (simp add: ou_wakeup_def)
next
  case (insert period now f reqs)
  then show ?thesis using act by (auto simp: ou_insert_flit_def ou_state_def split: if_splits)
qed

lemma ou_trace_keeps_active:
  assumes "ou_trace u es u'" and "ou_state v u = Some ACTIVE" and "Credited v True \<notin> set es"
  shows "ou_state v u' = Some ACTIVE"
  using assms by (induction rule: ou_trace.induct) (auto dest: ou_step_keeps_active)

lemma ou_trace_appendE:
  assumes "ou_trace u (es @ fs) u'"
  obtains u1 where "ou_trace u es u1" and "ou_trace u1 fs u'"
  using assms
proof (induction es arbitrary: u thesis)
  case Nil
  then show ?case using ou_trace.nil by auto
next
  case (Cons e es)
  then show ?case by (metis append_Cons ou_trace.cons ou_trace_consE)
qed

text \<open>Claim C3. Exclusive ownership of output channels: in any history of an output unit, the same output
  channel is never given out twice without a credit carrying the free signal for it in between. Flits
  of two packets are therefore never interleaved in a downstream buffer.\<close>

theorem output_vc_exclusive:
  assumes "ou_trace u (Selected v # es @ [Selected v]) u'"
  shows "Credited v True \<in> set es"
proof (rule ccontr)
  assume no: "Credited v True \<notin> set es"
  from assms obtain u1 where u1: "ou_step u (Selected v) u1" "ou_trace u1 (es @ [Selected v]) u'"
    by (auto elim: ou_trace_consE)
  from u1(2) obtain u2 where u2: "ou_trace u1 es u2" "ou_trace u2 [Selected v] u'"
    by (rule ou_trace_appendE)
  have "ou_state v u2 = Some ACTIVE"
    using ou_trace_keeps_active [OF u2(1) ou_step_selected [OF u1(1), THEN conjunct2] no] .
  moreover have "ou_state v u2 = Some IDLE"
    using u2(2) by (auto elim!: ou_trace_consE dest: ou_step_selected)
  ultimately show False by simp
qed

definition one_vc :: "Tick \<Rightarrow> VC_state_type \<Rightarrow> int \<Rightarrow> OutputUnit" where
  "one_vc t st credits = \<lparr>ou_id = 1, ou_direction = ''East'', ou_vc_per_vnet = 1, ou_outBuffer = flitBuffer_new,
     ou_outVcState = [\<lparr>ov_id = 0, ov_time = t, ov_vc_state = st, ov_credit_count = credits, ov_max_credit_count = 4\<rparr>]\<rparr>"

definition credit_on_link :: "flit list \<Rightarrow> NetworkLink" where
  "credit_on_link fs = (NetworkLink_new 0 1 1 [] 0)\<lparr>nl_buffer := flitBuffer_new\<lparr>fb_buffer := fs\<rparr>\<rparr>"

lemma one_vc_steps:
  "ou_step (one_vc 0 IDLE 4) (Selected 0) (one_vc 100 ACTIVE 4)"
  "ou_step (one_vc 100 ACTIVE 4) Internal (one_vc 100 ACTIVE 3)"
  "ou_step (one_vc 100 ACTIVE 3) (Credited 0 True) (one_vc 300 IDLE 4)"
  "ou_step (one_vc 300 IDLE 4) (Selected 0) (one_vc 400 ACTIVE 4)"
proof -
  have r: "vc_range 0 1 = [0]" by (simp add: vc_range_def)
  note defs = one_vc_def ou_set_vc_state_def ou_on_vc_def at_def put_def ov_setState_def
  have 1: "ou_select_free_vc 100 0 (one_vc 0 IDLE 4) = Inr (0, one_vc 100 ACTIVE 4)"
    "ou_select_free_vc 400 0 (one_vc 300 IDLE 4) = Inr (0, one_vc 400 ACTIVE 4)"
    using r by (simp_all add: ou_select_free_vc_def ou_is_vc_idle_def ov_isInState_def defs)
  then show "ou_step (one_vc 0 IDLE 4) (Selected 0) (one_vc 100 ACTIVE 4)"
    "ou_step (one_vc 300 IDLE 4) (Selected 0) (one_vc 400 ACTIVE 4)"
    by (auto intro: ou_step.select)
  show "ou_step (one_vc 100 ACTIVE 4) Internal (one_vc 100 ACTIVE 3)"
    by (rule ou_step.send [of 0]) (simp add: ou_decrement_credit_def ov_decrement_credit_def defs)
  let ?c = "Credit_new [] 0 True 300"
  have c: "f_vc ?c = 0" "f_is_free_signal ?c" "f_time ?c = 300" by (simp_all add: Credit_new_def flit_new_def)
  have link: "nl_isReady 300 (credit_on_link [?c])" "\<not> nl_isReady 300 (credit_on_link [])"
    "nl_consumeLink (credit_on_link [?c]) = Inr (?c, credit_on_link [])"
    using c by (simp_all add: nl_isReady_def fb_isReady_def credit_on_link_def nl_consumeLink_def fb_getTopFlit_def)
  have "ou_wakeup 300 (credit_on_link [?c]) (one_vc 100 ACTIVE 3) = Inr (credit_on_link [], one_vc 300 IDLE 4, [])"
    using c link by (simp add: ou_wakeup_def ou_increment_credit_def ov_increment_credit_def Let_def defs)
  from ou_step.credit [OF link(1,3) this] c show "ou_step (one_vc 100 ACTIVE 3) (Credited 0 True) (one_vc 300 IDLE 4)"
    by simp
qed

theorem output_vc_exclusive_witness:
  "\<exists>u'. ou_trace (one_vc 0 IDLE 4) (Selected 0 # [Internal, Credited 0 True] @ [Selected 0]) u'
     \<and> Credited 0 True \<in> set [Internal, Credited 0 True]"
proof -
  have t: "ou_trace (one_vc 0 IDLE 4) (Selected 0 # [Internal, Credited 0 True] @ [Selected 0]) (one_vc 400 ACTIVE 4)"
    by (auto intro!: ou_trace.intros intro: one_vc_steps)
  from output_vc_exclusive [OF t] t show ?thesis by blast
qed

end
