(* ===== verification/Routing_Unit.thy ===== *)
theory Routing_Unit
  imports Virtual_Channels
begin

text \<open>
  \<open>RoutingUnit\<close>: the routing table, the dimension-ordered routes of a mesh, the randomised west-first routes,
  the counter-based routes, the pattern-triggered deflection (\<open>DEFENSE0\<close>) and the two Valiant routes
  (\<open>DEFENSE1\<close>, \<open>ORIVA\<close>). What the unit reads from its router and network is the record \<open>route_env\<close>; the file's
  global counters are \<open>route_glob\<close>; every draw from a random generator is a field of \<open>rng\<close>, whose
  documented ranges are stated by \<open>rng_ok\<close>. Floating-point arithmetic is the record \<open>fp\<close> of operations, so
  that nothing depends on how \<open>double\<close> rounds. Console output is left out.
\<close>

section \<open>Parameters\<close>

record route_env =
  re_id :: int
  re_num_rows :: int
  re_num_cols :: int
  re_routing_algorithm :: int
  re_ordered :: "int \<Rightarrow> bool"
  re_curTick :: Tick

record rng =
  rng_rand :: int                      \<comment> \<open>\<open>rand()\<close>\<close>
  rng_my :: "int \<Rightarrow> int \<Rightarrow> int"          \<comment> \<open>\<open>myRandom::getMyRandom(lo, hi)\<close>\<close>
  rng_mt :: "int \<Rightarrow> int \<Rightarrow> int"          \<comment> \<open>\<open>random_mt.random<unsigned>(lo, hi)\<close>\<close>

text \<open>\<open>std::uniform_int_distribution\<close> and \<open>Random::random\<close> return a value of the closed range they are
  given, \<open>std::rand\<close> a non-negative one.\<close>

definition rng_ok :: "rng \<Rightarrow> bool" where
  "rng_ok g \<longleftrightarrow> 0 \<le> rng_rand g
     \<and> (\<forall>lo hi. lo \<le> hi \<longrightarrow> lo \<le> rng_my g lo hi \<and> rng_my g lo hi \<le> hi)
     \<and> (\<forall>lo hi. lo \<le> hi \<longrightarrow> lo \<le> rng_mt g lo hi \<and> rng_mt g lo hi \<le> hi)"

record 'd fp =
  fp_of_u64 :: "u64 \<Rightarrow> 'd"
  fp_of_int :: "int \<Rightarrow> 'd"
  fp_add :: "'d \<Rightarrow> 'd \<Rightarrow> 'd"
  fp_sub :: "'d \<Rightarrow> 'd \<Rightarrow> 'd"
  fp_mul :: "'d \<Rightarrow> 'd \<Rightarrow> 'd"
  fp_div :: "'d \<Rightarrow> 'd \<Rightarrow> 'd"
  fp_sqrt :: "'d \<Rightarrow> 'd"
  fp_abs :: "'d \<Rightarrow> 'd"
  fp_le :: "'d \<Rightarrow> 'd \<Rightarrow> bool"
  fp_lt :: "'d \<Rightarrow> 'd \<Rightarrow> bool"
  fp_to_int :: "'d \<Rightarrow> int"
  fp_to_u64 :: "'d \<Rightarrow> u64"
  fp_lit :: "int \<Rightarrow> int \<Rightarrow> 'd"           \<comment> \<open>a decimal literal as a quotient\<close>

text \<open>One such arithmetic, on integers, for evaluating the definitions on concrete inputs.\<close>

definition int_fp :: "int fp" where
  "int_fp = \<lparr>fp_of_u64 = uint, fp_of_int = id, fp_add = (+), fp_sub = (-), fp_mul = (*), fp_div = (div),
     fp_sqrt = (\<lambda>x. x), fp_abs = abs, fp_le = (\<le>), fp_lt = (<), fp_to_int = id, fp_to_u64 = of_int,
     fp_lit = (div)\<rparr>"

record route_glob =
  counterr :: int
  routerr :: "u64 list"

definition MAXN :: nat where
  "MAXN = 1000"

definition route_glob_new :: route_glob where
  "route_glob_new = \<lparr>counterr = 0, routerr = replicate MAXN 0\<rparr>"

section \<open>State\<close>

record route_pattern =
  rp_src :: int
  rp_dst :: int
  rp_inport :: int
  rp_output :: PortDirection
  rp_cycleRecieve :: u64

record RoutingUnit =
  routing_table :: "NetDest list list"
  weight_table :: "int list"
  inports_dirn2idx :: "PortDirection \<rightharpoonup> int"
  inports_idx2dirn :: "int \<rightharpoonup> PortDirection"
  outports_idx2dirn :: "int \<rightharpoonup> PortDirection"
  outports_dirn2idx :: "PortDirection \<rightharpoonup> int"
  patternTable :: "route_pattern list"

definition patternLen :: nat where
  "patternLen = 8"

definition route_pattern_init :: route_pattern where
  "route_pattern_init = \<lparr>rp_src = 0, rp_dst = 0, rp_inport = 0, rp_output = ''Unknown'', rp_cycleRecieve = 0\<rparr>"

definition RoutingUnit_new :: RoutingUnit where
  "RoutingUnit_new = \<lparr>routing_table = [], weight_table = [], inports_dirn2idx = Map.empty,
     inports_idx2dirn = Map.empty, outports_idx2dirn = Map.empty, outports_dirn2idx = Map.empty,
     patternTable = replicate patternLen route_pattern_init\<rparr>"

definition compute_dirn :: "int \<Rightarrow> PortDirection" where
  "compute_dirn index = (if index = 0 then ''North'' else if index = 1 then ''East''
     else if index = 2 then ''West'' else if index = 3 then ''South'' else ''Unknown'')"

definition compute_neighbor_id :: "int \<Rightarrow> int \<Rightarrow> int \<Rightarrow> int" where
  "compute_neighbor_id my_id index num_cols =
     (if index = 0 then my_id + num_cols else if index = 1 then my_id + 1
      else if index = 2 then my_id - 1 else if index = 3 then my_id - num_cols else my_id)"

section \<open>Routing table\<close>

definition addRoute :: "NetDest list \<Rightarrow> RoutingUnit \<Rightarrow> RoutingUnit" where
  "addRoute entry ru =
     (let grown = routing_table ru @ replicate (length entry - length (routing_table ru)) [];
          pushed = map (\<lambda>(t, e). t @ [e]) (zip grown entry) in
      ru\<lparr>routing_table := pushed @ drop (length entry) grown\<rparr>)"

definition addWeight :: "int \<Rightarrow> RoutingUnit \<Rightarrow> RoutingUnit" where
  "addWeight link_weight ru = ru\<lparr>weight_table := weight_table ru @ [link_weight]\<rparr>"

definition supportsVnet :: "int \<Rightarrow> int list \<Rightarrow> bool" where
  "supportsVnet vnet sVnets = (if length sVnets = 0 then True else vnet \<in> set sVnets)"

definition min_weight_step :: "NetDest \<Rightarrow> int list \<Rightarrow> (nat \<times> NetDest) \<Rightarrow> int \<Rightarrow> int res" where
  "min_weight_step dest weights le min_weight = (case le of (link, entry) \<Rightarrow>
     bindR (NetDest_intersectionIsNotEmpty dest entry) (\<lambda>b.
       if b then bindR (at weights (int link)) (\<lambda>w. Inr (if w \<le> min_weight then w else min_weight))
       else Inr min_weight))"

definition candidate_step ::
  "NetDest \<Rightarrow> int list \<Rightarrow> int \<Rightarrow> (nat \<times> NetDest) \<Rightarrow> int list \<Rightarrow> int list res" where
  "candidate_step dest weights min_weight le cands = (case le of (link, entry) \<Rightarrow>
     bindR (NetDest_intersectionIsNotEmpty dest entry) (\<lambda>b.
       if b then bindR (at weights (int link)) (\<lambda>w.
         Inr (if w = min_weight then cands @ [int link] else cands))
       else Inr cands))"

definition lookupRoutingTable :: "route_env \<Rightarrow> rng \<Rightarrow> RoutingUnit \<Rightarrow> int \<Rightarrow> NetDest \<Rightarrow> int res" where
  "lookupRoutingTable env g ru vnet msg_destination =
     bindR (at (routing_table ru) vnet) (\<lambda>table.
     bindR (loopR (min_weight_step msg_destination (weight_table ru)) (enumerate 0 table) (int INFINITE)) (\<lambda>min_weight.
     bindR (loopR (candidate_step msg_destination (weight_table ru) min_weight) (enumerate 0 table) []) (\<lambda>cands.
       if length cands = 0 then Inl Fatal
       else at cands (if \<not> re_ordered env vnet then rng_rand g smod int (length cands) else 0))))"

definition addInDirection :: "PortDirection \<Rightarrow> int \<Rightarrow> RoutingUnit \<Rightarrow> RoutingUnit" where
  "addInDirection inport_dirn inport_idx ru =
     ru\<lparr>inports_dirn2idx := (inports_dirn2idx ru)(inport_dirn \<mapsto> inport_idx),
        inports_idx2dirn := (inports_idx2dirn ru)(inport_idx \<mapsto> inport_dirn)\<rparr>"

definition addOutDirection :: "PortDirection \<Rightarrow> int \<Rightarrow> RoutingUnit \<Rightarrow> RoutingUnit" where
  "addOutDirection outport_dirn outport_idx ru =
     ru\<lparr>outports_dirn2idx := (outports_dirn2idx ru)(outport_dirn \<mapsto> outport_idx),
        outports_idx2dirn := (outports_idx2dirn ru)(outport_idx \<mapsto> outport_dirn)\<rparr>"

text \<open>\<open>m_outports_dirn2idx[d]\<close>: a missing direction is inserted with index 0, which is returned.\<close>

definition outport_of :: "PortDirection \<Rightarrow> RoutingUnit \<Rightarrow> int \<times> RoutingUnit" where
  "outport_of d ru = (case outports_dirn2idx ru d of Some k \<Rightarrow> (k, ru)
     | None \<Rightarrow> (0, ru\<lparr>outports_dirn2idx := (outports_dirn2idx ru)(d \<mapsto> 0)\<rparr>))"

section \<open>Dimension-ordered routing\<close>

definition xy_dirn :: "route_env \<Rightarrow> int \<Rightarrow> PortDirection \<Rightarrow> PortDirection res" where
  "xy_dirn env dest_id inport_dirn =
     (let num_cols = re_num_cols env in
      bindR (assertR (re_num_rows env > 0 \<and> num_cols > 0)) (\<lambda>_.
        let my_x = re_id env smod num_cols; my_y = re_id env sdiv num_cols;
            dest_x = dest_id smod num_cols; dest_y = dest_id sdiv num_cols;
            x_hops = \<bar>dest_x - my_x\<bar>; y_hops = \<bar>dest_y - my_y\<bar>;
            x_dirn = (dest_x \<ge> my_x); y_dirn = (dest_y \<ge> my_y) in
        bindR (assertR (\<not> (x_hops = 0 \<and> y_hops = 0))) (\<lambda>_.
          if x_hops > 0 then
            if x_dirn then bindR (assertR (inport_dirn = ''Local'' \<or> inport_dirn = ''West'')) (\<lambda>_. Inr ''East'')
            else bindR (assertR (inport_dirn = ''Local'' \<or> inport_dirn = ''East'')) (\<lambda>_. Inr ''West'')
          else if y_hops > 0 then
            if y_dirn then bindR (assertR (inport_dirn \<noteq> ''North'')) (\<lambda>_. Inr ''North'')
            else bindR (assertR (inport_dirn \<noteq> ''South'')) (\<lambda>_. Inr ''South'')
          else Inl Panic)))"

definition outportComputeXY ::
  "route_env \<Rightarrow> RoutingUnit \<Rightarrow> RouteInfo \<Rightarrow> int \<Rightarrow> PortDirection \<Rightarrow> (int \<times> RoutingUnit) res" where
  "outportComputeXY env ru route inport inport_dirn =
     bindR (xy_dirn env (dest_router route) inport_dirn) (\<lambda>outport_dirn. Inr (outport_of outport_dirn ru))"

definition xy_mid_dirn :: "route_env \<Rightarrow> int \<Rightarrow> PortDirection res" where
  "xy_mid_dirn env dest_id =
     (let num_cols = re_num_cols env in
      bindR (assertR (re_num_rows env > 0 \<and> num_cols > 0)) (\<lambda>_.
        let my_x = re_id env smod num_cols; my_y = re_id env sdiv num_cols;
            dest_x = dest_id smod num_cols; dest_y = dest_id sdiv num_cols;
            x_hops = \<bar>dest_x - my_x\<bar>; y_hops = \<bar>dest_y - my_y\<bar>;
            x_dirn = (dest_x \<ge> my_x); y_dirn = (dest_y \<ge> my_y) in
        bindR (assertR (\<not> (x_hops = 0 \<and> y_hops = 0))) (\<lambda>_.
          if x_hops > 0 then (if x_dirn then Inr ''East'' else Inr ''West'')
          else if y_hops > 0 then (if y_dirn then Inr ''North'' else Inr ''South'')
          else Inl Panic)))"

definition outportComputeXY_mid ::
  "route_env \<Rightarrow> RoutingUnit \<Rightarrow> RouteInfo \<Rightarrow> int \<Rightarrow> PortDirection \<Rightarrow> bool \<Rightarrow> (int \<times> RoutingUnit) res" where
  "outportComputeXY_mid env ru route inport inport_dirn mid =
     bindR (xy_mid_dirn env (if mid then inter_route route else dest_router route)) (\<lambda>outport_dirn.
       Inr (outport_of outport_dirn ru))"

section \<open>Valiant routing\<close>

definition others :: "int \<Rightarrow> int \<Rightarrow> int list" where
  "others n skip = filter (\<lambda>i. i \<noteq> skip) [0..n - 1]"

definition valiant_inter :: "route_env \<Rightarrow> rng \<Rightarrow> RouteInfo \<Rightarrow> RouteInfo res" where
  "valiant_inter env g route =
     (let num_cols = re_num_cols env in
      bindR (assertR (re_num_rows env > 0 \<and> num_cols > 0)) (\<lambda>_.
        let my_x = re_id env smod num_cols; my_y = re_id env sdiv num_cols;
            dest_x = dest_router route smod num_cols; dest_y = dest_router route sdiv num_cols;
            x_hops = \<bar>dest_x - my_x\<bar>; y_hops = \<bar>dest_y - my_y\<bar>;
            rNum = rng_my g 0 (num_cols - 2) in
        if x_hops > 0 \<and> y_hops = 0 then
          bindR (at (others num_cols my_y) rNum) (\<lambda>newY. Inr (setInter (newY * num_cols + my_x) route))
        else if y_hops > 0 \<and> x_hops = 0 then
          bindR (assertR (y_hops > 0)) (\<lambda>_.
          bindR (at (others num_cols dest_x) rNum) (\<lambda>newX. Inr (setInter (dest_y * num_cols + newX) route)))
        else if y_hops > 0 \<and> x_hops > 0 then
          bindR (at (others num_cols dest_x) rNum) (\<lambda>newX. Inr (setInter (newX + dest_y * num_cols) route))
        else Inr route))"

definition pass_inter :: "route_env \<Rightarrow> RouteInfo \<Rightarrow> RouteInfo" where
  "pass_inter env route =
     (if inter_route route \<noteq> -1 \<and> sTag route = 1 \<and> \<not> passedMid route \<and> inter_route route = re_id env
      then setPassed route else route)"

definition outportValiant ::
  "route_env \<Rightarrow> rng \<Rightarrow> RoutingUnit \<Rightarrow> RouteInfo \<Rightarrow> int \<Rightarrow> PortDirection \<Rightarrow> (int \<times> RoutingUnit \<times> RouteInfo) res" where
  "outportValiant env g ru route inport inport_dirn =
     (if sTag route = 0 then
        bindR (outportComputeXY_mid env ru route inport inport_dirn False) (\<lambda>(k, ru'). Inr (k, ru', route))
      else let route1 = pass_inter env route in
        if inter_route route1 = -1 then
          bindR (valiant_inter env g route1) (\<lambda>route2.
          bindR (outportComputeXY_mid env ru route2 inport inport_dirn True) (\<lambda>(k, ru'). Inr (k, ru', route2)))
        else
          bindR (outportComputeXY_mid env ru route1 inport inport_dirn (\<not> passedMid route1)) (\<lambda>(k, ru').
            Inr (k, ru', route1)))"

definition ori_inter :: "route_env \<Rightarrow> rng \<Rightarrow> RouteInfo \<Rightarrow> RouteInfo res" where
  "ori_inter env g route =
     (let num_rows = re_num_rows env; num_cols = re_num_cols env in
      bindR (assertR (num_rows > 0 \<and> num_cols > 0)) (\<lambda>_.
        let my_option = filter (\<lambda>i. i \<noteq> re_id env \<and> i \<noteq> dest_router route) [0..num_cols * num_rows - 1];
            rNum = rng_my g 0 (num_cols * num_rows - 3) in
        bindR (at my_option rNum) (\<lambda>newNode. Inr (setInter newNode route))))"

definition outportOriValiant ::
  "route_env \<Rightarrow> rng \<Rightarrow> RoutingUnit \<Rightarrow> RouteInfo \<Rightarrow> int \<Rightarrow> PortDirection \<Rightarrow> (int \<times> RoutingUnit \<times> RouteInfo) res" where
  "outportOriValiant env g ru route inport inport_dirn =
     (if sTag route = 0 then
        bindR (outportComputeXY_mid env ru route inport inport_dirn False) (\<lambda>(k, ru'). Inr (k, ru', route))
      else let route1 = pass_inter env route in
        if inter_route route1 = -1 then
          bindR (ori_inter env g route1) (\<lambda>route2.
          bindR (outportComputeXY_mid env ru route2 inport inport_dirn True) (\<lambda>(k, ru'). Inr (k, ru', route2)))
        else
          bindR (outportComputeXY_mid env ru route1 inport inport_dirn (\<not> passedMid route1)) (\<lambda>(k, ru').
            Inr (k, ru', route1)))"

section \<open>Pattern-triggered deflection\<close>

definition differences :: "u64 list \<Rightarrow> u64 list" where
  "differences ts = map (\<lambda>(a, b). b - a) (zip ts (tl ts))"

definition fp_sum :: "'d fp \<Rightarrow> 'd list \<Rightarrow> 'd" where
  "fp_sum F xs = fold (\<lambda>x acc. fp_add F acc x) xs (fp_of_int F 0)"

definition route_variance :: "'d fp \<Rightarrow> u64 list \<Rightarrow> 'd" where
  "route_variance F xs = (if length xs \<le> 1 then fp_of_int F 0
     else let n = fp_of_int F (int (length xs));
              avg = fp_div F (fp_sum F (map (fp_of_u64 F) xs)) n;
              dev = map (\<lambda>x. fp_mul F (fp_sub F (fp_of_u64 F x) avg) (fp_sub F (fp_of_u64 F x) avg)) xs in
          fp_div F (fp_sum F dev) n)"

definition route_average :: "'d fp \<Rightarrow> u64 list \<Rightarrow> 'd" where
  "route_average F ts = fp_div F (fp_sum F (map (fp_of_u64 F) (differences ts))) (fp_of_int F (int (length ts) - 1))"

definition route_entryCmp :: "route_pattern \<Rightarrow> route_pattern \<Rightarrow> bool" where
  "route_entryCmp a b = (rp_src a = rp_src b \<and> rp_dst a = rp_dst b \<and> rp_output a = rp_output b)"

definition route_riskFind :: "'d fp \<Rightarrow> RoutingUnit \<Rightarrow> route_pattern \<Rightarrow> (bool \<times> route_pattern) res" where
  "route_riskFind F ru riskEntry =
     bindR (mapR (at (patternTable ru)) (map int [0..<patternLen])) (\<lambda>tab.
       if \<exists>e \<in> set tab. rp_cycleRecieve e = 0 then Inr (False, riskEntry)
       else
         let dominant = filter (\<lambda>e. 2 * length (filter (route_entryCmp e) tab) > patternLen) tab in
         if dominant = [] then Inr (False, riskEntry)
         else
           let risk = last dominant;
               timePattern = map rp_cycleRecieve (filter (\<lambda>e. route_entryCmp e risk) tab);
               variance = route_variance F (differences timePattern);
               avg = route_average F timePattern in
           Inr (fp_le F variance (fp_of_int F 3) \<and> fp_lt F (fp_abs F avg) (fp_of_int F 6), risk))"

definition pattern_free_dirn :: "int \<Rightarrow> int \<Rightarrow> int \<Rightarrow> PortDirection res" where
  "pattern_free_dirn trySending dx dy =
     (let x = (if dx \<ge> 0 then ''East'' else ''West''); y = (if dy \<ge> 0 then ''North'' else ''South'') in
      if trySending < 50 then
        (if \<bar>dx\<bar> > 0 then Inr x else if \<bar>dy\<bar> > 0 then Inr y else Inl Panic)
      else
        (if \<bar>dy\<bar> > 0 then Inr y else if \<bar>dx\<bar> > 0 then Inr x else Inl Panic))"

definition pattern_deflect_dirn ::
  "int \<Rightarrow> PortDirection \<Rightarrow> int \<Rightarrow> int \<Rightarrow> int \<Rightarrow> int \<Rightarrow> int \<Rightarrow> PortDirection res" where
  "pattern_deflect_dirn rNum former dy my_x my_y num_rows num_cols =
     (let allList = filter (\<lambda>d. d \<noteq> former) [''East'', ''West'', ''South'', ''North''];
          delete_dir = (if dy \<ge> 0 then ''South'' else ''North'');
          allList2 = filter (\<lambda>d. d \<noteq> delete_dir) allList;
          chooseId = (if rNum < 50 then 0 else 1) in
      bindR (at allList2 chooseId) (\<lambda>now_dirn.
        let boundConflic = (now_dirn = ''South'' \<and> my_y = 0) \<or> (now_dirn = ''North'' \<and> my_y = num_rows - 1) \<or>
              (now_dirn = ''West'' \<and> my_x = 0) \<or> (now_dirn = ''East'' \<and> my_x = num_cols - 1) in
        if boundConflic then at allList2 (if chooseId = 0 then 1 else 0) else Inr now_dirn))"

definition outportPattern ::
  "'d fp \<Rightarrow> route_env \<Rightarrow> rng \<Rightarrow> RoutingUnit \<Rightarrow> RouteInfo \<Rightarrow> int \<Rightarrow> PortDirection \<Rightarrow> (int \<times> RoutingUnit) res" where
  "outportPattern F env g ru route inport inport_dirn =
     (let num_rows = re_num_rows env; num_cols = re_num_cols env in
      bindR (assertR (num_rows > 0 \<and> num_cols > 0)) (\<lambda>_.
        let my_x = re_id env smod num_cols; my_y = re_id env sdiv num_cols;
            dest_id = dest_router route;
            dx = dest_id smod num_cols - my_x; dy = dest_id sdiv num_cols - my_y in
        bindR (assertR (\<not> (\<bar>dx\<bar> = 0 \<and> \<bar>dy\<bar> = 0))) (\<lambda>_.
        bindR (route_riskFind F ru route_pattern_init) (\<lambda>(risk, riskEntry).
        bindR (if risk \<and> rp_dst riskEntry = dest_id \<and> rp_src riskEntry = src_router route
               then pattern_deflect_dirn (rng_mt g 0 100) (rp_output riskEntry) dy my_x my_y num_rows num_cols
               else pattern_free_dirn (rng_mt g 0 100) dx dy) (\<lambda>outport_dirn.
        bindR (slide \<lparr>rp_src = src_router route, rp_dst = dest_router route, rp_inport = inport,
                 rp_output = outport_dirn, rp_cycleRecieve = of_nat (re_curTick env div 500)\<rparr> (patternTable ru)) (\<lambda>tab.
          Inr (outport_of outport_dirn (ru\<lparr>patternTable := tab\<rparr>))))))))"

section \<open>West-first and counter-based routing\<close>

definition west_first_avail :: "int \<Rightarrow> int \<Rightarrow> int list" where
  "west_first_avail ex ey = (if ex < 0 then [0, 0, 1, 0]
     else [if ey > 0 then 1 else 0, if ex > 0 then 1 else 0, 0, if ey > 0 then 0 else if ey < 0 then 1 else 0])"

definition avail_dirns :: "int list \<Rightarrow> PortDirection list" where
  "avail_dirns avail = map (\<lambda>(i, n). compute_dirn (int i)) (filter (\<lambda>(i, n). n \<noteq> 0) (enumerate 0 avail))"

definition pick_dirn :: "int \<Rightarrow> int list \<Rightarrow> PortDirection" where
  "pick_dirn random_var avail =
     (let ds = avail_dirns avail; dir_count = sum_list avail in
      if dir_count = 2 then (if random_var smod 2 = 0 then ds ! 0 else ds ! 1)
      else if ds = [] then ''Unknown'' else last ds)"

definition outportRanWestFirst ::
  "route_env \<Rightarrow> rng \<Rightarrow> RoutingUnit \<Rightarrow> RouteInfo \<Rightarrow> int \<Rightarrow> PortDirection \<Rightarrow> (int \<times> RoutingUnit) res" where
  "outportRanWestFirst env g ru route inport inport_dirn =
     (let num_cols = re_num_cols env in
      bindR (assertR (re_num_rows env > 0 \<and> num_cols > 0)) (\<lambda>_.
        let ex = dest_router route smod num_cols - re_id env smod num_cols;
            ey = dest_router route sdiv num_cols - re_id env sdiv num_cols in
        bindR (assertR (\<not> (ex = 0 \<and> ey = 0))) (\<lambda>_.
          Inr (outport_of (pick_dirn (rng_rand g) (west_first_avail ex ey)) ru))))"

definition neighbour_counts :: "int \<Rightarrow> int \<Rightarrow> u64 list \<Rightarrow> u64 list res" where
  "neighbour_counts my_id num_cols counts =
     mapR (\<lambda>k. at counts (compute_neighbor_id my_id k num_cols)) [0, 1, 2, 3]"

definition outportSecTest ::
  "route_env \<Rightarrow> rng \<Rightarrow> route_glob \<Rightarrow> RoutingUnit \<Rightarrow> RouteInfo \<Rightarrow> int \<Rightarrow> PortDirection \<Rightarrow> (int \<times> RoutingUnit) res" where
  "outportSecTest env g gl ru route inport inport_dirn =
     (let num_cols = re_num_cols env in
      bindR (assertR (re_num_rows env > 0 \<and> num_cols > 0)) (\<lambda>_.
        let ex = dest_router route smod num_cols - re_id env smod num_cols;
            ey = dest_router route sdiv num_cols - re_id env sdiv num_cols in
        bindR (assertR (\<not> (ex = 0 \<and> ey = 0))) (\<lambda>_.
          let avail = west_first_avail ex ey in
          bindR (if sum_list avail = 2 then neighbour_counts (re_id env) num_cols (routerr gl) else Inr []) (\<lambda>tmp.
            Inr (outport_of (pick_dirn (rng_rand g) avail) ru)))))"

definition saturate_neighbour :: "bool \<Rightarrow> int \<Rightarrow> int \<Rightarrow> u64 list \<Rightarrow> (int \<times> u64 list) res" where
  "saturate_neighbour off slot cnt counts =
     (if off then bindR (put counts slot 0x7fffffff) (\<lambda>cs. Inr (slot, cs)) else Inr (cnt, counts))"

definition outportTest ::
  "route_env \<Rightarrow> route_glob \<Rightarrow> RoutingUnit \<Rightarrow> RouteInfo \<Rightarrow> int \<Rightarrow> PortDirection
     \<Rightarrow> (int \<times> RoutingUnit \<times> route_glob) res" where
  "outportTest env gl ru route inport inport_dirn =
     (let num_rows = re_num_rows env; num_cols = re_num_cols env; my_id = re_id env in
      bindR (assertR (num_rows > 0 \<and> num_cols > 0)) (\<lambda>_.
        let c1 = compute_neighbor_id my_id 0 num_cols; c2 = compute_neighbor_id my_id 1 num_cols;
            c3 = compute_neighbor_id my_id 2 num_cols; c4 = compute_neighbor_id my_id 3 num_cols in
        bindR (saturate_neighbour (c1 \<ge> num_cols * num_rows) 900 c1 (routerr gl)) (\<lambda>(cnt1, r1).
        bindR (saturate_neighbour (c2 \<ge> num_cols * num_rows \<or> c2 sdiv num_cols \<noteq> my_id sdiv num_cols) 901 c2 r1) (\<lambda>(cnt2, r2).
        bindR (saturate_neighbour (c3 < 0 \<or> c3 sdiv num_cols \<noteq> my_id sdiv num_cols) 902 c3 r2) (\<lambda>(cnt3, r3).
        bindR (saturate_neighbour (c4 < 0) 903 c4 r3) (\<lambda>(cnt4, r4).
        bindR (mapR (at r4) [cnt1, cnt2, cnt3, cnt4]) (\<lambda>tmp.
          let lowest = foldr min tmp (tmp ! 0);
              i = (if lowest = tmp ! 0 then 0 else if lowest = tmp ! 1 then 1
                   else if lowest = tmp ! 2 then 2 else 3) in
          Inr (case outport_of (compute_dirn i) ru of (k, ru') \<Rightarrow> (k, ru', gl\<lparr>routerr := r4\<rparr>)))))))))"

definition outportComputeCustom ::
  "RoutingUnit \<Rightarrow> RouteInfo \<Rightarrow> int \<Rightarrow> PortDirection \<Rightarrow> (int \<times> RoutingUnit) res" where
  "outportComputeCustom ru route inport inport_dirn = Inl Panic"

section \<open>Route computation\<close>

definition to_RoutingAlgorithm :: "int \<Rightarrow> RoutingAlgorithm" where
  "to_RoutingAlgorithm n = (if n = 0 then TABLE else if n = 1 then XY else if n = 2 then RANWESTFIRST
     else if n = 3 then SECTEST else if n = 4 then TEST else if n = 5 then DEFENSE0
     else if n = 6 then DEFENSE1 else if n = 7 then ORIVA else if n = 8 then CUSTOM
     else NUM_ROUTING_ALGORITHM)"

definition with_route ::
  "RouteInfo \<Rightarrow> route_glob \<Rightarrow> (int \<times> RoutingUnit) res \<Rightarrow> (int \<times> RoutingUnit \<times> RouteInfo \<times> route_glob) res" where
  "with_route route gl m = bindR m (\<lambda>(k, ru). Inr (k, ru, route, gl))"

definition run_algorithm ::
  "'d fp \<Rightarrow> route_env \<Rightarrow> rng \<Rightarrow> RoutingUnit \<Rightarrow> route_glob \<Rightarrow> RouteInfo \<Rightarrow> int \<Rightarrow> PortDirection
     \<Rightarrow> (int \<times> RoutingUnit \<times> RouteInfo \<times> route_glob) res" where
  "run_algorithm F env g ru gl route inport inport_dirn =
     (case to_RoutingAlgorithm (re_routing_algorithm env) of
        TABLE \<Rightarrow> bindR (lookupRoutingTable env g ru (r_vnet route) (net_dest route)) (\<lambda>k. Inr (k, ru, route, gl))
      | XY \<Rightarrow> with_route route gl (outportComputeXY env ru route inport inport_dirn)
      | RANWESTFIRST \<Rightarrow> with_route route gl (outportRanWestFirst env g ru route inport inport_dirn)
      | SECTEST \<Rightarrow> with_route route gl (outportSecTest env g gl ru route inport inport_dirn)
      | TEST \<Rightarrow> bindR (outportTest env gl ru route inport inport_dirn) (\<lambda>(k, ru', gl'). Inr (k, ru', route, gl'))
      | DEFENSE0 \<Rightarrow> with_route route gl (outportPattern F env g ru route inport inport_dirn)
      | DEFENSE1 \<Rightarrow> bindR (outportValiant env g ru route inport inport_dirn) (\<lambda>(k, ru', r'). Inr (k, ru', r', gl))
      | ORIVA \<Rightarrow> bindR (outportOriValiant env g ru route inport inport_dirn) (\<lambda>(k, ru', r'). Inr (k, ru', r', gl))
      | CUSTOM \<Rightarrow> with_route route gl (outportComputeCustom ru route inport inport_dirn)
      | NUM_ROUTING_ALGORITHM \<Rightarrow>
          bindR (lookupRoutingTable env g ru (r_vnet route) (net_dest route)) (\<lambda>k. Inr (k, ru, route, gl)))"

definition count_route :: "int \<Rightarrow> route_glob \<Rightarrow> route_glob res" where
  "count_route m_id gl = bindR (at (routerr gl) m_id) (\<lambda>n. bindR (put (routerr gl) m_id (n + 1)) (\<lambda>r.
     Inr (gl\<lparr>counterr := counterr gl + 1, routerr := r\<rparr>)))"

definition outportCompute ::
  "'d fp \<Rightarrow> route_env \<Rightarrow> rng \<Rightarrow> RoutingUnit \<Rightarrow> route_glob \<Rightarrow> RouteInfo \<Rightarrow> int \<Rightarrow> PortDirection
     \<Rightarrow> (int \<times> RoutingUnit \<times> RouteInfo \<times> route_glob) res" where
  "outportCompute F env g ru gl route inport inport_dirn =
     (if dest_router route = re_id env then
        bindR (lookupRoutingTable env g ru (r_vnet route) (net_dest route)) (\<lambda>k. Inr (k, ru, route, gl))
      else
        bindR (run_algorithm F env g ru gl route inport inport_dirn) (\<lambda>(outport, ru', route', gl').
        bindR (count_route (re_id env) gl') (\<lambda>gl''.
        bindR (assertR (outport \<noteq> -1)) (\<lambda>_. Inr (outport, ru', route', gl'')))))"

end
