(* ===== verification/Routing_Table.thy ===== *)
theory Routing_Table
  imports Routing_Unit
begin

text \<open>
  What a lookup in the routing table returns: the links of minimal weight among those that lead to one of
  the message's destinations, the first of them on an ordered virtual network, and \<open>fatal\<close> exactly when there
  is none. The lookup rests on the interface of destination sets.
\<close>

definition link_leads :: "NetDest \<Rightarrow> NetDest list \<Rightarrow> nat \<Rightarrow> bool" where
  "link_leads dest table l \<longleftrightarrow> l < length table \<and> NetDest_elems dest \<inter> NetDest_elems (table ! l) \<noteq> {}"

definition best_weight :: "NetDest \<Rightarrow> NetDest list \<Rightarrow> int list \<Rightarrow> int" where
  "best_weight dest table weights = Min (insert (int INFINITE) ((!) weights ` {l. link_leads dest table l}))"

definition best_links :: "NetDest \<Rightarrow> NetDest list \<Rightarrow> int list \<Rightarrow> nat list" where
  "best_links dest table weights =
     filter (\<lambda>l. link_leads dest table l \<and> weights ! l = best_weight dest table weights) [0..<length table]"

text \<open>A table as \<open>addRoute\<close> and \<open>addWeight\<close> build it: well-formed entries, one weight per link.\<close>

definition table_ok :: "machine_conf \<Rightarrow> NetDest list \<Rightarrow> int list \<Rightarrow> bool" where
  "table_ok mc table weights \<longleftrightarrow> (\<forall>e \<in> set table. NetDest_ok mc e) \<and> length table \<le> length weights"

lemma link_leads_less: "link_leads dest table l \<Longrightarrow> l < length table"
  by (simp add: link_leads_def)

lemma set_enumerate_nth: "set (enumerate 0 xs) = {(l, xs ! l) | l. l < length xs}"
  by (auto simp: in_set_enumerate_eq)

lemma min_weight_loop:
  assumes "NetDest_ok mc dest" and "table_ok mc table weights"
  shows "loopR (min_weight_step dest weights) (enumerate 0 table) (int INFINITE)
    = Inr (best_weight dest table weights)"
proof -
  let ?P = "\<lambda>(l, e). NetDest_elems dest \<inter> NetDest_elems e \<noteq> {}"
  let ?g = "\<lambda>x m. if ?P x then (if weights ! fst x \<le> m then weights ! fst x else m) else m"
  have "min_weight_step dest weights x m = Inr (?g x m)" if x0: "x \<in> set (enumerate 0 table)" for x m
  proof -
    obtain l where x: "x = (l, table ! l)" "l < length table" using x0 by (auto simp: set_enumerate_nth)
    then have "NetDest_ok mc (table ! l)" using assms(2) by (simp add: table_ok_def)
    moreover have "at weights (int l) = Inr (weights ! l)" using x assms(2) by (simp add: table_ok_def)
    ultimately show ?thesis
      using nd.meets_law [OF assms(1)] by (simp add: min_weight_step_def x)
  qed
  then have "loopR (min_weight_step dest weights) (enumerate 0 table) (int INFINITE)
      = Inr (fold ?g (enumerate 0 table) (int INFINITE))" by (rule loopR_fold)
  also have "fold ?g (enumerate 0 table) (int INFINITE)
      = Min (insert (int INFINITE) ((\<lambda>x. weights ! fst x) ` {x \<in> set (enumerate 0 table). ?P x}))"
    by (rule fold_min)
  also have "(\<lambda>x. weights ! fst x) ` {x \<in> set (enumerate 0 table). ?P x} = (!) weights ` {l. link_leads dest table l}"
    by (force simp: set_enumerate_nth link_leads_def)
  finally show ?thesis by (simp add: best_weight_def)
qed

lemma candidate_loop:
  assumes "NetDest_ok mc dest" and "table_ok mc table weights"
  shows "loopR (candidate_step dest weights m) (enumerate 0 table) []
    = Inr (map int (filter (\<lambda>l. link_leads dest table l \<and> weights ! l = m) [0..<length table]))"
proof -
  let ?P = "\<lambda>x. NetDest_elems dest \<inter> NetDest_elems (snd x) \<noteq> {} \<and> weights ! fst x = m"
  let ?g = "\<lambda>x c. if ?P x then c @ [int (fst x)] else c"
  have "candidate_step dest weights m x c = Inr (?g x c)" if x0: "x \<in> set (enumerate 0 table)" for x c
  proof -
    obtain l where x: "x = (l, table ! l)" "l < length table" using x0 by (auto simp: set_enumerate_nth)
    then have "NetDest_ok mc (table ! l)" using assms(2) by (simp add: table_ok_def)
    moreover have "at weights (int l) = Inr (weights ! l)" using x assms(2) by (simp add: table_ok_def)
    ultimately show ?thesis
      using nd.meets_law [OF assms(1)] by (simp add: candidate_step_def x)
  qed
  then have "loopR (candidate_step dest weights m) (enumerate 0 table) [] = Inr (fold ?g (enumerate 0 table) [])"
    by (rule loopR_fold)
  also have "fold ?g (enumerate 0 table) [] = map (int \<circ> fst) (filter ?P (enumerate 0 table))"
    by (subst fold_collect) (simp add: comp_def)
  also have "\<dots> = map int (map fst (filter ?P (enumerate 0 table)))" by simp
  also have "map fst (filter ?P (enumerate 0 table))
      = filter (\<lambda>l. link_leads dest table l \<and> weights ! l = m) [0..<length table]"
  proof -
    have "enumerate 0 table = map (\<lambda>l. (l, table ! l)) [0..<length table]"
      by (rule nth_equalityI) (simp_all add: nth_enumerate_eq)
    then have "map fst (filter ?P (enumerate 0 table))
        = filter (\<lambda>l. NetDest_elems dest \<inter> NetDest_elems (table ! l) \<noteq> {} \<and> weights ! l = m) [0..<length table]"
      by (simp add: filter_map comp_def)
    also have "\<dots> = filter (\<lambda>l. link_leads dest table l \<and> weights ! l = m) [0..<length table]"
      by (rule filter_cong) (auto simp: link_leads_def)
    finally show ?thesis .
  qed
  finally show ?thesis .
qed

lemma lookup_eq:
  assumes "NetDest_ok mc dest" and "0 \<le> vnet" and "vnet < int (length (routing_table ru))"
    and "table_ok mc (routing_table ru ! nat vnet) (weight_table ru)"
  shows "lookupRoutingTable env g ru vnet dest =
    (let cands = best_links dest (routing_table ru ! nat vnet) (weight_table ru) in
     if cands = [] then Inl Fatal
     else at (map int cands) (if \<not> re_ordered env vnet then rng_rand g smod int (length cands) else 0))"
  using assms(2,3)
  by (simp add: lookupRoutingTable_def at_ok min_weight_loop [OF assms(1,4)] candidate_loop [OF assms(1,4)]
      best_links_def Let_def)

lemma best_links_Nil_iff:
  "best_links dest table weights = [] \<longleftrightarrow> (\<forall>l. link_leads dest table l \<longrightarrow> weights ! l > int INFINITE)"
proof -
  let ?S = "(!) weights ` {l. link_leads dest table l}"
  have fin: "finite {l. link_leads dest table l}"
    by (rule finite_subset [of _ "{..<length table}"]) (auto simp: link_leads_def)
  have "best_links dest table weights = [] \<longleftrightarrow> best_weight dest table weights \<notin> ?S"
    unfolding best_links_def filter_empty_conv image_iff by (force dest: link_leads_less)
  also have "\<dots> \<longleftrightarrow> (\<forall>x \<in> ?S. x > int INFINITE)"
  proof
    assume n: "best_weight dest table weights \<notin> ?S"
    then have "best_weight dest table weights = int INFINITE"
      using Min_in [of "insert (int INFINITE) ?S"] fin by (auto simp: best_weight_def)
    moreover have "best_weight dest table weights \<le> x" if "x \<in> ?S" for x
      using that fin by (auto simp: best_weight_def intro: Min_le)
    ultimately show "\<forall>x \<in> ?S. x > int INFINITE" using n by (metis order_le_less)
  next
    assume "\<forall>x \<in> ?S. x > int INFINITE"
    moreover have "best_weight dest table weights \<le> int INFINITE"
      using fin by (simp add: best_weight_def)
    ultimately show "best_weight dest table weights \<notin> ?S" by auto
  qed
  finally show ?thesis by blast
qed

text \<open>Claim C16. Table lookup: on a well-formed table, \<open>lookupRoutingTable\<close> stops with \<open>fatal\<close> exactly when no
  link leading to one of the destinations has a weight of at most \<open>INFINITE_\<close>. Otherwise it returns a link that
  leads there and whose weight is minimal among all that do; on an ordered virtual network it is the first
  such link, whatever the random number.\<close>

theorem lookup_minimal_weight:
  assumes "NetDest_ok mc dest" and "0 \<le> vnet" and "vnet < int (length (routing_table ru))"
    and "table_ok mc (routing_table ru ! nat vnet) (weight_table ru)" and "rng_ok g"
  shows "if \<forall>l. link_leads dest (routing_table ru ! nat vnet) l \<longrightarrow> weight_table ru ! l > int INFINITE
    then lookupRoutingTable env g ru vnet dest = Inl Fatal
    else \<exists>l. lookupRoutingTable env g ru vnet dest = Inr (int l)
      \<and> link_leads dest (routing_table ru ! nat vnet) l
      \<and> (\<forall>k. link_leads dest (routing_table ru ! nat vnet) k \<longrightarrow> weight_table ru ! l \<le> weight_table ru ! k)
      \<and> (re_ordered env vnet \<longrightarrow> (\<forall>k < l. link_leads dest (routing_table ru ! nat vnet) k \<longrightarrow>
            weight_table ru ! l < weight_table ru ! k))"
proof -
  let ?T = "routing_table ru ! nat vnet" and ?W = "weight_table ru"
  let ?c = "best_links dest ?T ?W"
  have fin: "finite {l. link_leads dest ?T l}"
    by (rule finite_subset [of _ "{..<length ?T}"]) (auto simp: link_leads_def)
  have bw: "best_weight dest ?T ?W \<le> ?W ! k" if "link_leads dest ?T k" for k
    using that fin by (auto simp: best_weight_def intro: Min_le)
  have mem: "link_leads dest ?T l \<and> ?W ! l = best_weight dest ?T ?W" if "l \<in> set ?c" for l
    using that by (auto simp: best_links_def)
  show ?thesis
  proof (cases "?c = []")
    case True
    then have "\<forall>l. link_leads dest ?T l \<longrightarrow> ?W ! l > int INFINITE" by (simp add: best_links_Nil_iff)
    with True show ?thesis using lookup_eq [OF assms(1-4), of env g] by simp
  next
    case False
    then have nf: "\<not> (\<forall>l. link_leads dest ?T l \<longrightarrow> ?W ! l > int INFINITE)" by (simp add: best_links_Nil_iff)
    define n where "n = (if \<not> re_ordered env vnet then rng_rand g smod int (length ?c) else 0)"
    have n: "0 \<le> n" "n < int (length ?c)" using assms(5) False by (auto simp: n_def rng_ok_def)
    let ?l = "?c ! nat n"
    have "lookupRoutingTable env g ru vnet dest = at (map int ?c) n"
      using lookup_eq [OF assms(1-4), of env g] False by (simp add: n_def Let_def)
    then have r: "lookupRoutingTable env g ru vnet dest = Inr (int ?l)"
      using n by (simp add: at_ok)
    have l: "link_leads dest ?T ?l" "?W ! ?l = best_weight dest ?T ?W"
      using mem [of ?l] n by auto
    have "?W ! ?l < ?W ! k" if "re_ordered env vnet" "k < ?l" "link_leads dest ?T k" for k
    proof -
      have hd: "?l = hd ?c" using that(1) False by (simp add: n_def hd_conv_nth)
      have "sorted ?c" by (simp add: best_links_def sorted_wrt_filter)
      then have "k \<notin> set ?c" using that(2) hd False by (cases ?c) auto
      then have "?W ! k \<noteq> best_weight dest ?T ?W"
        using that(3) by (auto simp: best_links_def link_leads_def)
      with bw [OF that(3)] l(2) show ?thesis by simp
    qed
    with nf r l bw show ?thesis by auto
  qed
qed

definition small_unit :: RoutingUnit where
  "small_unit = addWeight 2 (addRoute [small_dest] (addWeight 1 (addRoute [small_dest] RoutingUnit_new)))"

theorem lookup_minimal_weight_witness:
  "NetDest_ok small_conf small_dest \<and> table_ok small_conf (routing_table small_unit ! 0) (weight_table small_unit)
   \<and> (\<exists>l. lookupRoutingTable \<lparr>re_id = 0, re_num_rows = 1, re_num_cols = 1, re_routing_algorithm = 0,
         re_ordered = (\<lambda>_. True), re_curTick = 0\<rparr> \<lparr>rng_rand = 0, rng_my = (\<lambda>lo hi. lo), rng_mt = (\<lambda>lo hi. lo)\<rparr>
         small_unit 0 small_dest = Inr (int l) \<and> weight_table small_unit ! l \<le> 1)"
proof -
  have t: "routing_table small_unit = [[small_dest, small_dest]]" "weight_table small_unit = [1, 2]"
    by (simp_all add: small_unit_def addRoute_def addWeight_def RoutingUnit_new_def Let_def)
  have ok: "table_ok small_conf (routing_table small_unit ! nat 0) (weight_table small_unit)"
    using small_dest_ok by (simp add: table_ok_def t)
  have "MachineID 0 0 \<in> NetDest_elems small_dest"
    by (simp add: NetDest_elems_def small_dest_def Set_elems_def bit_1_iff)
  then have l0: "link_leads small_dest (routing_table small_unit ! nat 0) 0" by (auto simp: link_leads_def t)
  let ?g = "\<lparr>rng_rand = 0, rng_my = (\<lambda>lo hi. lo), rng_mt = (\<lambda>lo hi. lo)\<rparr> :: rng"
  let ?env = "\<lparr>re_id = 0, re_num_rows = 1, re_num_cols = 1, re_routing_algorithm = 0,
         re_ordered = (\<lambda>_. True), re_curTick = 0\<rparr> :: route_env"
  have g: "rng_ok ?g" by (simp add: rng_ok_def)
  have nf: "\<not> (\<forall>l. link_leads small_dest (routing_table small_unit ! nat 0) l \<longrightarrow> weight_table small_unit ! l > int INFINITE)"
    using l0 by (intro notI) (auto simp: t INFINITE_def dest!: spec [of _ 0])
  have v: "(0 :: int) \<le> 0" "0 < int (length (routing_table small_unit))" by (simp_all add: t)
  from lookup_minimal_weight [OF small_dest_ok v ok g, of ?env, unfolded if_not_P [OF nf]] l0 obtain l where
    l: "lookupRoutingTable ?env ?g small_unit 0 small_dest = Inr (int l)"
      "weight_table small_unit ! l \<le> weight_table small_unit ! 0" by blast
  moreover have "weight_table small_unit ! 0 = 1" by (simp add: t)
  ultimately show ?thesis using small_dest_ok ok by auto
qed

end
