(* ===== verification/Mesh_Delivery.thy ===== *)
theory Mesh_Delivery
  imports Mesh_Routing
begin

text \<open>
  Delivery through the mesh: dimension-ordered routing (\<open>XY\<close>), randomised west-first routing and the
  security-oriented Valiant routing (\<open>DEFENSE1\<close>) bring every packet to its destination, with the number of
  hops each of them promises.
\<close>

section \<open>More fuel changes nothing\<close>

lemma walk_stopped: "stop i s \<Longrightarrow> walk cols step stop n i d s = Inr ([], i, d, s)"
  by (cases n) simp_all

lemma walk_more:
  assumes "walk cols step stop m i d s = Inr (p, j, e, t)" and "length p = m" and "stop j t" and "m \<le> n"
  shows "walk cols step stop n i d s = Inr (p, j, e, t)"
  using walk_append [OF assms(1,2), of "n - m"] assms(3,4) by (simp add: walk_stopped)

section \<open>Steps that follow the dimension order\<close>

text \<open>The side from which dimension-ordered routing from \<open>i\<close> enters \<open>t\<close>.\<close>

definition xy_entry :: "int \<Rightarrow> int \<Rightarrow> int \<Rightarrow> PortDirection \<Rightarrow> PortDirection" where
  "xy_entry cols i t d = (if mesh_y cols i < mesh_y cols t then ''South'' else if mesh_y cols t < mesh_y cols i then ''North''
     else if mesh_x cols i < mesh_x cols t then ''West'' else if mesh_x cols t < mesh_x cols i then ''East'' else d)"

lemma xy_entry_hop:
  assumes "in_mesh rows cols i" and "in_mesh rows cols t" and "i \<noteq> t"
  shows "xy_entry cols (hop cols i (xy_first cols i t)) t (opposite (xy_first cols i t)) = xy_entry cols i t d"
proof -
  have ne: "\<not> (mesh_x cols t = mesh_x cols i \<and> mesh_y cols t = mesh_y cols i)"
    using assms(3) mesh_eq_iff [of i t cols] by auto
  note h = hop_coords [of cols i]
  have b: "0 < cols" "0 \<le> mesh_x cols i" "mesh_x cols i < cols" "0 \<le> mesh_x cols t" "mesh_x cols t < cols"
    using in_meshD [OF assms(1)] in_meshD [OF assms(2)] by simp_all
  consider "mesh_x cols i < mesh_x cols t" | "mesh_x cols t < mesh_x cols i"
    | "mesh_x cols i = mesh_x cols t" "mesh_y cols i < mesh_y cols t"
    | "mesh_x cols i = mesh_x cols t" "mesh_y cols t < mesh_y cols i" using ne by linarith
  then show ?thesis
    using h b by cases (simp_all add: xy_first_def xy_entry_def opposite_def)
qed

locale xy_step = mesh_step +
  assumes follows_xy: "inv rows cols i d s \<Longrightarrow> i \<noteq> goal s \<Longrightarrow>
      \<exists>s'. step i d s = Inr (xy_first cols i (goal s), s')"
begin

lemma reaches_goal_entering:
  "inv rows cols i d s \<Longrightarrow>
   \<exists>p t. walk cols step stop (mesh_dist cols i (goal s)) i d s = Inr (p, goal s, xy_entry cols i (goal s) d, t)"
proof (induction "mesh_dist cols i (goal s)" arbitrary: i d s)
  case 0
  then have "i = goal s" using mesh_dist_eq_0_iff by metis
  with 0 show ?case by (auto simp: xy_entry_def)
next
  case (Suc n)
  from Suc.hyps(2) have ne: "i \<noteq> goal s" using mesh_dist_eq_0_iff [of cols i "goal s"] by auto
  let ?dir = "xy_first cols i (goal s)"
  from progress [OF Suc.prems ne] follows_xy [OF Suc.prems ne] obtain s' where
    st: "step i d s = Inr (?dir, s')" "goal s' = goal s" "inv rows cols (hop cols i ?dir) (opposite ?dir) s'" by auto
  note m = inv_mesh [OF Suc.prems]
  have "Suc (mesh_dist cols (hop cols i ?dir) (goal s)) = mesh_dist cols i (goal s)"
    using productive_hop(2) m xy_first_productive [OF ne] by blast
  with Suc.hyps(2) st(2) have n: "n = mesh_dist cols (hop cols i ?dir) (goal s')" by simp
  from Suc.hyps(1) [OF n st(3)] obtain p t where
    w: "walk cols step stop n (hop cols i ?dir) (opposite ?dir) s'
        = Inr (p, goal s', xy_entry cols (hop cols i ?dir) (goal s') (opposite ?dir), t)" unfolding n by blast
  have "xy_entry cols (hop cols i ?dir) (goal s') (opposite ?dir) = xy_entry cols i (goal s) d"
    unfolding st(2) using m ne by (intro xy_entry_hop) auto
  with w st(1,2) not_stopped [OF Suc.prems ne] show ?case
    by (auto simp flip: Suc.hyps(2))
qed

end

interpretation xy: xy_step "mesh_route F" "\<lambda>s. dest_router (mr_route s)" mr_route arrived xy_inv
  for F :: "'d fp"
proof unfold_locales
  fix rows cols i d s
  assume inv: "xy_inv rows cols i d s"
  then show "in_mesh rows cols i \<and> in_mesh rows cols (dest_router (mr_route s))"
    by (simp add: xy_inv_def mesh_ok_def)
  assume ne: "i \<noteq> dest_router (mr_route s)"
  then show "\<not> arrived i s" by (simp add: arrived_def)
  from xy_progress [OF inv ne, of F] xy_first_productive [OF ne, of cols]
  show "\<exists>dir s'. mesh_route F i d s = Inr (dir, s') \<and> productive cols i (dest_router (mr_route s)) dir
      \<and> dest_router (mr_route s') = dest_router (mr_route s) \<and> mr_route s' = mr_route s
      \<and> xy_inv rows cols (hop cols i dir) (opposite dir) s'"
    and "\<exists>s'. mesh_route F i d s = Inr (xy_first cols i (dest_router (mr_route s)), s')"
    by auto
qed

section \<open>Dimension-ordered routing delivers\<close>

lemma xy_inv_start:
  "mesh_ok rows cols s \<Longrightarrow> in_mesh rows cols src \<Longrightarrow> mr_alg s = 1 \<Longrightarrow> xy_inv rows cols src ''Local'' s"
  by (simp add: xy_inv_def xy_inport_ok_def)

text \<open>Claim C1. Dimension-ordered routing delivers. In a wired mesh, \<open>outportCompute\<close> called hop by hop
  with algorithm \<open>XY\<close> from any source to any destination never fails one of its assertions (turn
  restrictions included), never leaves the mesh, and reaches the destination after exactly as many hops as
  the two are apart; the packet then stays there however long it is followed.\<close>

theorem xy_delivers:
  assumes "mesh_ok rows cols s" and "in_mesh rows cols src" and "mr_alg s = 1"
    and "mesh_dist cols src (dest_router (mr_route s)) \<le> n"
  shows "\<exists>p e t. walk cols (mesh_route F) arrived n src ''Local'' s = Inr (p, dest_router (mr_route s), e, t)
     \<and> length p = mesh_dist cols src (dest_router (mr_route s))
     \<and> (\<forall>j \<in> set p. in_mesh rows cols j \<and> j \<noteq> dest_router (mr_route s))"
proof -
  from xy.reaches_goal [OF xy_inv_start [OF assms(1-3)], of F] obtain p e t where
    w: "walk cols (mesh_route F) arrived (mesh_dist cols src (dest_router (mr_route s))) src ''Local'' s
        = Inr (p, dest_router (mr_route s), e, t)"
      "length p = mesh_dist cols src (dest_router (mr_route s))"
      "\<forall>j \<in> set p. in_mesh rows cols j \<and> j \<noteq> dest_router (mr_route s)"
      "dest_router (mr_route t) = dest_router (mr_route s)"
    by (blast dest: xy.inv_mesh)
  from walk_more [OF w(1,2) _ assms(4)] w show ?thesis by (auto simp: arrived_def)
qed

section \<open>A concrete mesh\<close>

text \<open>Every router registers the output directions it has, as \<open>Router::addOutPort\<close> does; port 0 is the local one.\<close>

definition demo_ports :: "(PortDirection \<times> int) list" where
  "demo_ports = [(''North'', 1), (''East'', 2), (''South'', 3), (''West'', 4)]"

definition demo_unit :: "int \<Rightarrow> int \<Rightarrow> int \<Rightarrow> RoutingUnit" where
  "demo_unit rows cols i = fold (\<lambda>(d, k) ru. if has_port rows cols i d then addOutDirection d k ru else ru)
     demo_ports RoutingUnit_new"

definition demo_rng :: rng where
  "demo_rng = \<lparr>rng_rand = 1, rng_my = (\<lambda>lo hi. lo), rng_mt = (\<lambda>lo hi. lo)\<rparr>"

definition demo_route :: "int \<Rightarrow> int \<Rightarrow> RouteInfo" where
  "demo_route dest tag = (RouteInfo_default [])\<lparr>dest_router := dest, sTag := tag\<rparr>"

definition demo_run :: "int \<Rightarrow> int \<Rightarrow> int \<Rightarrow> RouteInfo \<Rightarrow> mesh_run" where
  "demo_run rows cols alg r = \<lparr>mr_rows = rows, mr_cols = cols, mr_alg = alg, mr_ordered = (\<lambda>_. False),
     mr_tick = 0, mr_units = demo_unit rows cols, mr_glob = route_glob_new, mr_route = r,
     mr_draws = (\<lambda>_. demo_rng), mr_hops = 0\<rparr>"

lemma demo_rng_ok: "rng_ok demo_rng"
  by (simp add: rng_ok_def demo_rng_def)

lemma demo_wired: "wired_unit rows cols i (demo_unit rows cols i)"
  unfolding wired_unit_def
proof (intro allI impI)
  fix d assume d: "has_port rows cols i d"
  then consider "d = ''North''" | "d = ''East''" | "d = ''South''" | "d = ''West''" by (auto simp: has_port_def)
  then show "\<exists>k. outports_dirn2idx (demo_unit rows cols i) d = Some k
      \<and> outports_idx2dirn (demo_unit rows cols i) k = Some d \<and> k \<noteq> -1"
    using d by cases (simp_all add: demo_ports_def demo_unit_def addOutDirection_def)
qed

lemma demo_mesh_ok:
  assumes "in_mesh rows cols (dest_router r)" and "rows * cols \<le> 1000"
  shows "mesh_ok rows cols (demo_run rows cols alg r)"
  using assms by (simp add: mesh_ok_def demo_run_def demo_wired route_glob_new_def MAXN_def)

theorem xy_delivers_witness:
  "mesh_ok 4 4 (demo_run 4 4 1 (demo_route 14 0)) \<and> in_mesh 4 4 1 \<and>
   (\<exists>p e t. walk 4 (mesh_route int_fp) arrived 10 1 ''Local'' (demo_run 4 4 1 (demo_route 14 0)) = Inr (p, 14, e, t)
      \<and> length p = 4)"
proof -
  let ?s = "demo_run 4 4 1 (demo_route 14 0)"
  have r: "dest_router (mr_route ?s) = 14" "mr_alg ?s = 1" by (simp_all add: demo_run_def demo_route_def)
  have ok: "mesh_ok 4 4 ?s"
    by (rule demo_mesh_ok) (simp_all add: demo_route_def in_mesh_def)
  have d: "mesh_dist 4 1 14 = 4" by (simp add: mesh_dist_def mesh_x_def mesh_y_def)
  have src: "in_mesh 4 4 1" by (simp add: in_mesh_def)
  from xy_delivers [OF ok src, of 10 int_fp] r d obtain p e t where
    "walk 4 (mesh_route int_fp) arrived 10 1 ''Local'' ?s = Inr (p, 14, e, t)" "length p = 4" by auto
  with ok src show ?thesis by blast
qed

section \<open>West-first routing delivers\<close>

definition wf_inv :: "int \<Rightarrow> int \<Rightarrow> int \<Rightarrow> PortDirection \<Rightarrow> mesh_run \<Rightarrow> bool" where
  "wf_inv rows cols i d s \<longleftrightarrow> mesh_ok rows cols s \<and> in_mesh rows cols i \<and> mr_alg s = 2"

definition wf_dirn :: "int \<Rightarrow> int \<Rightarrow> int \<Rightarrow> int \<Rightarrow> PortDirection" where
  "wf_dirn r cols i t = pick_dirn r (west_first_avail (mesh_x cols t - mesh_x cols i) (mesh_y cols t - mesh_y cols i))"

lemma wf_dirn_cases:
  assumes "i \<noteq> t"
  shows "(mesh_x cols t < mesh_x cols i \<longrightarrow> wf_dirn r cols i t = ''West'') \<and>
     (mesh_x cols i \<le> mesh_x cols t \<longrightarrow> wf_dirn r cols i t \<noteq> ''West'') \<and> productive cols i t (wf_dirn r cols i t)"
proof -
  have ne: "\<not> (mesh_x cols t = mesh_x cols i \<and> mesh_y cols t = mesh_y cols i)"
    using assms mesh_eq_iff [of i t cols] by auto
  let ?ex = "mesh_x cols t - mesh_x cols i" and ?ey = "mesh_y cols t - mesh_y cols i"
  consider "?ex < 0" | "?ex > 0" "?ey > 0" | "?ex > 0" "?ey < 0" | "?ex > 0" "?ey = 0"
    | "?ex = 0" "?ey > 0" | "?ex = 0" "?ey < 0"
    using ne by linarith
  then show ?thesis
    by cases (simp_all add: wf_dirn_def west_first_avail_def pick_dirn_def avail_dirns_def compute_dirn_def
        productive_def Let_def)
qed

lemma wf_progress:
  assumes inv: "wf_inv rows cols i d s" and ne: "i \<noteq> dest_router (mr_route s)"
  shows "\<exists>dir s'. mesh_route F i d s = Inr (dir, s') \<and> productive cols i (dest_router (mr_route s)) dir
     \<and> mr_route s' = mr_route s \<and> wf_inv rows cols (hop cols i dir) (opposite dir) s'"
proof -
  let ?t = "dest_router (mr_route s)"
  let ?dir = "wf_dirn (rng_rand (mr_draws s (mr_hops s))) cols i ?t"
  have ok: "mesh_ok rows cols s" and i: "in_mesh rows cols i" and t: "in_mesh rows cols ?t" and alg: "mr_alg s = 2"
    using inv by (auto simp: wf_inv_def mesh_ok_def)
  have c: "i smod cols = mesh_x cols i" "i sdiv cols = mesh_y cols i"
    "?t smod cols = mesh_x cols ?t" "?t sdiv cols = mesh_y cols ?t"
    using in_meshD [OF i] in_meshD [OF t] by (simp_all add: mesh_x_def mesh_y_def)
  have p: "productive cols i ?t ?dir" using wf_dirn_cases [OF ne] by blast
  have conf: "mr_rows s = rows" "mr_cols s = cols" "0 < rows" "0 < cols"
    using ok in_meshD [OF i] by (simp_all add: mesh_ok_def)
  have "\<not> (mesh_x cols ?t - mesh_x cols i = 0 \<and> mesh_y cols ?t - mesh_y cols i = 0)"
    using ne mesh_eq_iff [of i ?t cols] by auto
  then have "outportRanWestFirst (mesh_env s i) (mr_draws s (mr_hops s)) (mr_units s i) (mr_route s) inp d
      = Inr (outport_of ?dir (mr_units s i))" for inp
    using conf by (simp add: outportRanWestFirst_def mesh_env_def Let_def c wf_dirn_def)
  then have "run_algorithm F (mesh_env s i) (mr_draws s (mr_hops s)) (mr_units s i) (mr_glob s) (mr_route s) inp d
      = Inr (fst (outport_of ?dir (mr_units s i)), snd (outport_of ?dir (mr_units s i)), mr_route s, mr_glob s)" for inp
    using alg by (simp add: run_algorithm_def to_RoutingAlgorithm_def mesh_env_def with_route_def split_beta)
  from mesh_route_productive [OF ok i ne t p this refl] alg obtain s' where
    s': "mesh_route F i d s = Inr (?dir, s')" "mesh_ok rows cols s'" "mr_route s' = mr_route s" "mr_alg s' = 2"
    by auto
  then have "wf_inv rows cols (hop cols i ?dir) (opposite ?dir) s'"
    using productive_hop(1) [OF i t p] by (simp add: wf_inv_def)
  with s' p show ?thesis by blast
qed

interpretation wf: mesh_step "mesh_route F" "\<lambda>s. dest_router (mr_route s)" mr_route arrived wf_inv
  for F :: "'d fp"
proof unfold_locales
  fix rows cols i d s
  assume inv: "wf_inv rows cols i d s"
  then show "in_mesh rows cols i \<and> in_mesh rows cols (dest_router (mr_route s))"
    by (simp add: wf_inv_def mesh_ok_def)
  assume ne: "i \<noteq> dest_router (mr_route s)"
  then show "\<not> arrived i s" by (simp add: arrived_def)
  from wf_progress [OF inv ne, of F]
  show "\<exists>dir s'. mesh_route F i d s = Inr (dir, s') \<and> productive cols i (dest_router (mr_route s)) dir
      \<and> dest_router (mr_route s') = dest_router (mr_route s) \<and> mr_route s' = mr_route s
      \<and> wf_inv rows cols (hop cols i dir) (opposite dir) s'"
    by auto
qed

text \<open>Claim C13. Randomised west-first routing delivers. Whatever the random draws, \<open>outportCompute\<close> with
  algorithm \<open>RANWESTFIRST\<close> brings a packet to its destination in exactly the minimal number of hops, without
  leaving the mesh and without an error.\<close>

theorem west_first_delivers:
  assumes "mesh_ok rows cols s" and "in_mesh rows cols src" and "mr_alg s = 2"
    and "mesh_dist cols src (dest_router (mr_route s)) \<le> n"
  shows "\<exists>p e t. walk cols (mesh_route F) arrived n src ''Local'' s = Inr (p, dest_router (mr_route s), e, t)
     \<and> length p = mesh_dist cols src (dest_router (mr_route s))
     \<and> (\<forall>j \<in> set p. in_mesh rows cols j \<and> j \<noteq> dest_router (mr_route s))"
proof -
  have "wf_inv rows cols src ''Local'' s" using assms by (simp add: wf_inv_def)
  from wf.reaches_goal [OF this, of F] obtain p e t where
    w: "walk cols (mesh_route F) arrived (mesh_dist cols src (dest_router (mr_route s))) src ''Local'' s
        = Inr (p, dest_router (mr_route s), e, t)"
      "length p = mesh_dist cols src (dest_router (mr_route s))"
      "\<forall>j \<in> set p. in_mesh rows cols j \<and> j \<noteq> dest_router (mr_route s)"
      "dest_router (mr_route t) = dest_router (mr_route s)"
    by (blast dest: wf.inv_mesh)
  from walk_more [OF w(1,2) _ assms(4)] w show ?thesis by (auto simp: arrived_def)
qed

theorem west_first_delivers_witness:
  "mesh_ok 3 4 (demo_run 3 4 2 (demo_route 8 0)) \<and> in_mesh 3 4 2 \<and>
   (\<exists>p e t. walk 4 (mesh_route int_fp) arrived 9 2 ''Local'' (demo_run 3 4 2 (demo_route 8 0)) = Inr (p, 8, e, t)
      \<and> length p = 4)"
proof -
  let ?s = "demo_run 3 4 2 (demo_route 8 0)"
  have r: "dest_router (mr_route ?s) = 8" "mr_alg ?s = 2" by (simp_all add: demo_run_def demo_route_def)
  have ok: "mesh_ok 3 4 ?s"
    by (rule demo_mesh_ok) (simp_all add: demo_route_def in_mesh_def)
  have d: "mesh_dist 4 2 8 = 4" by (simp add: mesh_dist_def mesh_x_def mesh_y_def)
  have src: "in_mesh 3 4 2" by (simp add: in_mesh_def)
  from west_first_delivers [OF ok src, of 9 int_fp] r d obtain p e t where
    "walk 4 (mesh_route int_fp) arrived 9 2 ''Local'' ?s = Inr (p, 8, e, t)" "length p = 4" by auto
  with ok src show ?thesis by blast
qed

section \<open>Valiant routing delivers through its intermediate router\<close>

text \<open>The routers on the dimension-ordered route from \<open>i\<close> to \<open>t\<close>.\<close>

definition on_xy_route :: "int \<Rightarrow> int \<Rightarrow> int \<Rightarrow> int \<Rightarrow> bool" where
  "on_xy_route cols i t j \<longleftrightarrow>
     (mesh_y cols j = mesh_y cols i \<and> min (mesh_x cols i) (mesh_x cols t) \<le> mesh_x cols j
        \<and> mesh_x cols j \<le> max (mesh_x cols i) (mesh_x cols t)) \<or>
     (mesh_x cols j = mesh_x cols t \<and> min (mesh_y cols i) (mesh_y cols t) \<le> mesh_y cols j
        \<and> mesh_y cols j \<le> max (mesh_y cols i) (mesh_y cols t))"

lemma on_xy_route_hop:
  assumes "in_mesh rows cols i" and "in_mesh rows cols t" and "i \<noteq> t"
    and "on_xy_route cols (hop cols i (xy_first cols i t)) t j"
  shows "on_xy_route cols i t j"
proof -
  have ne: "\<not> (mesh_x cols t = mesh_x cols i \<and> mesh_y cols t = mesh_y cols i)"
    using assms(3) mesh_eq_iff [of i t cols] by auto
  note h = hop_coords [of cols i]
  have b: "0 < cols" "0 \<le> mesh_x cols i" "mesh_x cols i < cols" "0 \<le> mesh_x cols t" "mesh_x cols t < cols"
    using in_meshD [OF assms(1)] in_meshD [OF assms(2)] by simp_all
  consider "mesh_x cols i < mesh_x cols t" | "mesh_x cols t < mesh_x cols i"
    | "mesh_x cols i = mesh_x cols t" "mesh_y cols i < mesh_y cols t"
    | "mesh_x cols i = mesh_x cols t" "mesh_y cols t < mesh_y cols i" using ne by linarith
  then show ?thesis
  proof cases
    case 1
    with h(1) b assms(4) show ?thesis by (simp add: xy_first_def on_xy_route_def) linarith
  next
    case 2
    with h(2) b assms(4) show ?thesis by (simp add: xy_first_def on_xy_route_def) linarith
  next
    case 3
    with h(3) b assms(4) show ?thesis by (simp add: xy_first_def on_xy_route_def) linarith
  next
    case 4
    with h(4) b assms(4) show ?thesis by (simp add: xy_first_def on_xy_route_def) linarith
  qed
qed

lemma on_xy_route_self: "on_xy_route cols i t i"
  by (simp add: on_xy_route_def)

text \<open>What one call of the Valiant algorithm does once the route it works on and its target are known.\<close>

lemma valiant_hop:
  assumes ok: "mesh_ok rows cols s" and i: "in_mesh rows cols i" and t: "in_mesh rows cols t"
    and ne: "i \<noteq> dest_router (mr_route s)" and it: "i \<noteq> t" and alg: "mr_alg s = 6"
    and val: "outportValiant (mesh_env s i) (mr_draws s (mr_hops s)) (mr_units s i) (mr_route s)
          (case inports_dirn2idx (mr_units s i) d of Some k \<Rightarrow> k | None \<Rightarrow> 0) d
        = bindR (xy_mid_dirn (mesh_env s i) t) (\<lambda>dir.
            Inr (fst (outport_of dir (mr_units s i)), snd (outport_of dir (mr_units s i)), route'))"
    and dest: "dest_router route' = dest_router (mr_route s)"
  shows "\<exists>s'. mesh_route F i d s = Inr (xy_first cols i t, s') \<and> mesh_ok rows cols s' \<and> mr_route s' = route'
     \<and> mr_alg s' = 6 \<and> mr_draws s' = mr_draws s \<and> in_mesh rows cols (hop cols i (xy_first cols i t))"
proof -
  have "xy_mid_dirn (mesh_env s i) t = Inr (xy_first cols i t)"
    using ok by (intro xy_mid_dirn_eq [OF i t it]) (auto simp: mesh_env_def mesh_ok_def)
  with val have "run_algorithm F (mesh_env s i) (mr_draws s (mr_hops s)) (mr_units s i) (mr_glob s) (mr_route s)
        (case inports_dirn2idx (mr_units s i) d of Some k \<Rightarrow> k | None \<Rightarrow> 0) d
      = Inr (fst (outport_of (xy_first cols i t) (mr_units s i)),
             snd (outport_of (xy_first cols i t) (mr_units s i)), route', mr_glob s)"
    using alg by (simp add: run_algorithm_def to_RoutingAlgorithm_def mesh_env_def)
  from mesh_route_productive [OF ok i ne t xy_first_productive [OF it] this dest] alg
    productive_hop(1) [OF i t xy_first_productive [OF it]] show ?thesis by auto
qed

definition v1_inv :: "int \<Rightarrow> int \<Rightarrow> int \<Rightarrow> PortDirection \<Rightarrow> mesh_run \<Rightarrow> bool" where
  "v1_inv rows cols i d s \<longleftrightarrow> mesh_ok rows cols s \<and> in_mesh rows cols i \<and> mr_alg s = 6
     \<and> sTag (mr_route s) = 1 \<and> \<not> passedMid (mr_route s) \<and> in_mesh rows cols (inter_route (mr_route s))
     \<and> \<not> on_xy_route cols i (inter_route (mr_route s)) (dest_router (mr_route s))"

definition v2_inv :: "int \<Rightarrow> int \<Rightarrow> int \<Rightarrow> PortDirection \<Rightarrow> mesh_run \<Rightarrow> bool" where
  "v2_inv rows cols i d s \<longleftrightarrow> mesh_ok rows cols s \<and> in_mesh rows cols i \<and> mr_alg s = 6
     \<and> sTag (mr_route s) = 1 \<and> in_mesh rows cols (inter_route (mr_route s))
     \<and> (passedMid (mr_route s) \<or> i = inter_route (mr_route s))"

lemma v1_progress:
  assumes inv: "v1_inv rows cols i d s" and ne: "i \<noteq> inter_route (mr_route s)"
  shows "\<exists>s'. mesh_route F i d s = Inr (xy_first cols i (inter_route (mr_route s)), s')
     \<and> mr_route s' = mr_route s
     \<and> v1_inv rows cols (hop cols i (xy_first cols i (inter_route (mr_route s))))
          (opposite (xy_first cols i (inter_route (mr_route s)))) s'"
proof -
  let ?m = "inter_route (mr_route s)"
  have ok: "mesh_ok rows cols s" and i: "in_mesh rows cols i" and m: "in_mesh rows cols ?m" and alg: "mr_alg s = 6"
    and tag: "sTag (mr_route s) = 1" "\<not> passedMid (mr_route s)"
    and off: "\<not> on_xy_route cols i ?m (dest_router (mr_route s))"
    using inv by (auto simp: v1_inv_def)
  have nd: "i \<noteq> dest_router (mr_route s)" using off on_xy_route_self by metis
  have "?m \<noteq> -1" using in_meshD(3) [OF m] by simp
  then have "outportValiant (mesh_env s i) g (mr_units s i) (mr_route s) inp d
      = bindR (xy_mid_dirn (mesh_env s i) ?m) (\<lambda>dir.
            Inr (fst (outport_of dir (mr_units s i)), snd (outport_of dir (mr_units s i)), mr_route s))" for g inp
    using tag ne by (cases "xy_mid_dirn (mesh_env s i) ?m")
      (simp_all add: outportValiant_def pass_inter_def outportComputeXY_mid_def mesh_env_def split_beta)
  from valiant_hop [OF ok i m nd ne alg this refl] obtain s' where
    s': "mesh_route F i d s = Inr (xy_first cols i ?m, s')" "mesh_ok rows cols s'" "mr_route s' = mr_route s"
      "mr_alg s' = 6" "in_mesh rows cols (hop cols i (xy_first cols i ?m))" by auto
  with tag m off on_xy_route_hop [OF i m ne] show ?thesis by (auto simp: v1_inv_def)
qed

lemma v2_progress:
  assumes inv: "v2_inv rows cols i d s" and ne: "i \<noteq> dest_router (mr_route s)"
  shows "\<exists>s'. mesh_route F i d s = Inr (xy_first cols i (dest_router (mr_route s)), s')
     \<and> mr_route s' = setPassed (mr_route s)
     \<and> v2_inv rows cols (hop cols i (xy_first cols i (dest_router (mr_route s))))
          (opposite (xy_first cols i (dest_router (mr_route s)))) s'"
proof -
  let ?t = "dest_router (mr_route s)" and ?m = "inter_route (mr_route s)"
  have ok: "mesh_ok rows cols s" and i: "in_mesh rows cols i" and t: "in_mesh rows cols ?t" and alg: "mr_alg s = 6"
    and tag: "sTag (mr_route s) = 1" and m: "in_mesh rows cols ?m" and ps: "passedMid (mr_route s) \<or> i = ?m"
    using inv by (auto simp: v2_inv_def mesh_ok_def)
  have "?m \<noteq> -1" using in_meshD(3) [OF m] by simp
  then have "outportValiant (mesh_env s i) g (mr_units s i) (mr_route s) inp d
      = bindR (xy_mid_dirn (mesh_env s i) ?t) (\<lambda>dir. Inr (fst (outport_of dir (mr_units s i)),
            snd (outport_of dir (mr_units s i)), setPassed (mr_route s)))" for g inp
    using tag ps by (cases "xy_mid_dirn (mesh_env s i) ?t"; cases "passedMid (mr_route s)")
      (simp_all add: outportValiant_def pass_inter_def outportComputeXY_mid_def mesh_env_def setPassed_def split_beta)
  from valiant_hop [OF ok i t ne ne alg this] obtain s' where
    s': "mesh_route F i d s = Inr (xy_first cols i ?t, s')" "mesh_ok rows cols s'" "mr_route s' = setPassed (mr_route s)"
      "mr_alg s' = 6" "in_mesh rows cols (hop cols i (xy_first cols i ?t))" by (auto simp: setPassed_def)
  with tag m show ?thesis by (auto simp: v2_inv_def setPassed_def)
qed

interpretation v1: xy_step "mesh_route F" "\<lambda>s. inter_route (mr_route s)" mr_route arrived v1_inv
  for F :: "'d fp"
proof unfold_locales
  fix rows cols i d s
  assume inv: "v1_inv rows cols i d s"
  then show "in_mesh rows cols i \<and> in_mesh rows cols (inter_route (mr_route s))"
    by (simp add: v1_inv_def)
  assume ne: "i \<noteq> inter_route (mr_route s)"
  show "\<not> arrived i s"
    using inv on_xy_route_self [of cols i] by (auto simp: arrived_def v1_inv_def)
  from v1_progress [OF inv ne, of F] xy_first_productive [OF ne, of cols]
  show "\<exists>dir s'. mesh_route F i d s = Inr (dir, s') \<and> productive cols i (inter_route (mr_route s)) dir
      \<and> inter_route (mr_route s') = inter_route (mr_route s) \<and> mr_route s' = mr_route s
      \<and> v1_inv rows cols (hop cols i dir) (opposite dir) s'"
    and "\<exists>s'. mesh_route F i d s = Inr (xy_first cols i (inter_route (mr_route s)), s')"
    by auto
qed

interpretation v2: xy_step "mesh_route F" "\<lambda>s. dest_router (mr_route s)" "\<lambda>s. setPassed (mr_route s)" arrived v2_inv
  for F :: "'d fp"
proof unfold_locales
  fix rows cols i d s
  assume inv: "v2_inv rows cols i d s"
  then show "in_mesh rows cols i \<and> in_mesh rows cols (dest_router (mr_route s))"
    by (simp add: v2_inv_def mesh_ok_def)
  assume ne: "i \<noteq> dest_router (mr_route s)"
  then show "\<not> arrived i s" by (simp add: arrived_def)
  from v2_progress [OF inv ne, of F] xy_first_productive [OF ne, of cols]
  show "\<exists>dir s'. mesh_route F i d s = Inr (dir, s') \<and> productive cols i (dest_router (mr_route s)) dir
      \<and> dest_router (mr_route s') = dest_router (mr_route s) \<and> setPassed (mr_route s') = setPassed (mr_route s)
      \<and> v2_inv rows cols (hop cols i dir) (opposite dir) s'"
    and "\<exists>s'. mesh_route F i d s = Inr (xy_first cols i (dest_router (mr_route s)), s')"
    by (auto simp: setPassed_def)
qed

lemma others_pick:
  assumes "0 \<le> r" and "r \<le> n - 2"
  shows "\<exists>v. at (others n skip) r = Inr v \<and> 0 \<le> v \<and> v < n \<and> v \<noteq> skip"
proof -
  have st: "set (others n skip) = {0..n - 1} - {skip}" by (auto simp: others_def)
  have "length (others n skip) = card ({0..n - 1} - {skip})"
    using distinct_card [of "others n skip"] st by (simp add: others_def)
  moreover have "card {0..n - 1} - 1 \<le> card ({0..n - 1} - {skip})" by (simp add: card_Diff_singleton_if)
  ultimately have len: "nat r < length (others n skip)" using assms by simp
  then have "others n skip ! nat r \<in> set (others n skip)" by (rule nth_mem)
  with st assms len show ?thesis by (auto simp: at_def)
qed

lemma valiant_inter_ok:
  assumes i: "in_mesh rows cols i" and t: "in_mesh rows cols (dest_router route)" and ne: "i \<noteq> dest_router route"
    and env: "re_id env = i" "re_num_rows env = rows" "re_num_cols env = cols"
    and cols: "1 < cols" and sq: "mesh_y cols i = mesh_y cols (dest_router route) \<longrightarrow> cols \<le> rows" and g: "rng_ok g"
  shows "\<exists>m. valiant_inter env g route = Inr (setInter m route) \<and> in_mesh rows cols m \<and> m \<noteq> i
     \<and> \<not> on_xy_route cols i m (dest_router route)
     \<and> xy_entry cols m (dest_router route) d \<noteq> xy_entry cols i (dest_router route) d'"
proof -
  let ?t = "dest_router route" and ?r = "rng_my g 0 (cols - 2)"
  note bi = in_meshD [OF i] and bt = in_meshD [OF t]
  have c: "i smod cols = mesh_x cols i" "i sdiv cols = mesh_y cols i"
    "?t smod cols = mesh_x cols ?t" "?t sdiv cols = mesh_y cols ?t"
    using bi bt by (simp_all add: mesh_x_def mesh_y_def)
  have nec: "\<not> (mesh_x cols ?t = mesh_x cols i \<and> mesh_y cols ?t = mesh_y cols i)"
    using ne mesh_eq_iff [of i ?t cols] by auto
  have r: "0 \<le> ?r" "?r \<le> cols - 2" using g cols by (simp_all add: rng_ok_def)
  show ?thesis
  proof (cases "mesh_y cols ?t = mesh_y cols i")
    case True
    with nec have x: "mesh_x cols ?t \<noteq> mesh_x cols i" by simp
    from others_pick [OF r] obtain v where
      v: "at (others cols (mesh_y cols i)) ?r = Inr v" "0 \<le> v" "v < cols" "v \<noteq> mesh_y cols i" by blast
    let ?m = "v * cols + mesh_x cols i"
    have m: "mesh_x cols ?m = mesh_x cols i" "mesh_y cols ?m = v"
      using coords_unique [of "mesh_x cols i" cols v] bi by simp_all
    have "in_mesh rows cols ?m" using v sq True bi by (intro in_meshI) simp_all
    moreover have "valiant_inter env g route = Inr (setInter ?m route)"
      using True x v bi by (simp add: valiant_inter_def Let_def env c)
    moreover have "?m \<noteq> i" using m v by metis
    moreover have "\<not> on_xy_route cols i ?m ?t" using m x by (auto simp: on_xy_route_def)
    moreover have "xy_entry cols ?m ?t d \<noteq> xy_entry cols i ?t d'"
      using m v x True by (auto simp: xy_entry_def)
    ultimately show ?thesis by blast
  next
    case False
    from others_pick [OF r] obtain v where
      v: "at (others cols (mesh_x cols ?t)) ?r = Inr v" "0 \<le> v" "v < cols" "v \<noteq> mesh_x cols ?t" by blast
    let ?m = "mesh_y cols ?t * cols + v"
    have m: "mesh_x cols ?m = v" "mesh_y cols ?m = mesh_y cols ?t"
      using coords_unique [of v cols "mesh_y cols ?t"] v by simp_all
    have "in_mesh rows cols ?m" using v bt by (intro in_meshI) simp_all
    moreover have "valiant_inter env g route = Inr (setInter ?m route)"
      using False v bi by (auto simp: valiant_inter_def Let_def env c add.commute)
    moreover have "?m \<noteq> i" using m False by metis
    moreover have "\<not> on_xy_route cols i ?m ?t" using m v False by (auto simp: on_xy_route_def)
    moreover have "xy_entry cols ?m ?t d \<noteq> xy_entry cols i ?t d'"
      using m v False by (auto simp: xy_entry_def)
    ultimately show ?thesis by blast
  qed
qed

text \<open>The first call at the router where a packet was tagged.\<close>

lemma valiant_first_hop:
  assumes ok: "mesh_ok rows cols s" and i: "in_mesh rows cols i" and ne: "i \<noteq> dest_router (mr_route s)"
    and alg: "mr_alg s = 6" and tag: "sTag (mr_route s) = 1" "\<not> passedMid (mr_route s)" "inter_route (mr_route s) = -1"
    and cols: "1 < cols" and sq: "mesh_y cols i = mesh_y cols (dest_router (mr_route s)) \<longrightarrow> cols \<le> rows"
    and g: "rng_ok (mr_draws s (mr_hops s))"
  shows "\<exists>m s'. mesh_route F i d s = Inr (xy_first cols i m, s') \<and> mr_route s' = setInter m (mr_route s)
     \<and> in_mesh rows cols m \<and> m \<noteq> i \<and> m \<noteq> dest_router (mr_route s)
     \<and> v1_inv rows cols (hop cols i (xy_first cols i m)) (opposite (xy_first cols i m)) s'
     \<and> (\<forall>d d'. xy_entry cols m (dest_router (mr_route s)) d \<noteq> xy_entry cols i (dest_router (mr_route s)) d')"
proof -
  let ?t = "dest_router (mr_route s)"
  have t: "in_mesh rows cols ?t" and conf: "mr_rows s = rows" "mr_cols s = cols" using ok by (simp_all add: mesh_ok_def)
  have "\<exists>m. valiant_inter (mesh_env s i) (mr_draws s (mr_hops s)) (mr_route s) = Inr (setInter m (mr_route s))
      \<and> in_mesh rows cols m \<and> m \<noteq> i \<and> \<not> on_xy_route cols i m ?t
      \<and> xy_entry cols m ?t ''Local'' \<noteq> xy_entry cols i ?t ''Local''"
    using conf by (intro valiant_inter_ok [OF i t ne _ _ _ cols sq g]) (simp_all add: mesh_env_def)
  then obtain m where m: "valiant_inter (mesh_env s i) (mr_draws s (mr_hops s)) (mr_route s) = Inr (setInter m (mr_route s))"
      "in_mesh rows cols m" "m \<noteq> i" "\<not> on_xy_route cols i m ?t"
      "xy_entry cols m ?t ''Local'' \<noteq> xy_entry cols i ?t ''Local''" by blast
  have "on_xy_route cols i m m" by (simp add: on_xy_route_def)
  with m(4) have mt: "m \<noteq> ?t" by metis
  have "outportValiant (mesh_env s i) (mr_draws s (mr_hops s)) (mr_units s i) (mr_route s) inp d
      = bindR (xy_mid_dirn (mesh_env s i) m) (\<lambda>dir. Inr (fst (outport_of dir (mr_units s i)),
            snd (outport_of dir (mr_units s i)), setInter m (mr_route s)))" for inp
    using tag m(1) by (cases "xy_mid_dirn (mesh_env s i) m")
      (simp_all add: outportValiant_def pass_inter_def outportComputeXY_mid_def setInter_def split_beta)
  from valiant_hop [OF ok i m(2) ne m(3) [symmetric] alg this] obtain s' where
    s': "mesh_route F i d s = Inr (xy_first cols i m, s')" "mesh_ok rows cols s'" "mr_route s' = setInter m (mr_route s)"
      "mr_alg s' = 6" "in_mesh rows cols (hop cols i (xy_first cols i m))" by (auto simp: setInter_def)
  have "v1_inv rows cols (hop cols i (xy_first cols i m)) (opposite (xy_first cols i m)) s'"
    using s' tag m on_xy_route_hop [OF i m(2) m(3) [symmetric]] by (auto simp: v1_inv_def setInter_def)
  moreover have "xy_entry cols m ?t d \<noteq> xy_entry cols i ?t d'" for d d'
  proof -
    have "xy_entry cols j ?t e = xy_entry cols j ?t e'" if "j \<noteq> ?t" for j e e'
      using that mesh_eq_iff [of j ?t cols] by (auto simp: xy_entry_def)
    with m(5) mt ne show ?thesis by metis
  qed
  ultimately show ?thesis using s' m mt by blast
qed

text \<open>Claim C2. The security-oriented Valiant route delivers through its detour. A tagged packet for which no
  intermediate router has been chosen yet is given one inside the mesh, different from the current router and
  from the destination; it visits that router before the destination, then the destination, in exactly the
  number of hops of the two dimension-ordered legs, without error. It enters the destination through a
  different port than the direct dimension-ordered route would use. The intermediate row for a packet
  that shares its row with the destination is drawn from the number of columns, so for such packets the mesh
  must have at least as many rows as columns.\<close>

theorem valiant_delivers:
  assumes "mesh_ok rows cols s" and "in_mesh rows cols src" and "src \<noteq> dest_router (mr_route s)"
    and "mr_alg s = 6" and "sTag (mr_route s) = 1" and "\<not> passedMid (mr_route s)" and "inter_route (mr_route s) = -1"
    and "1 < cols" and "mesh_y cols src = mesh_y cols (dest_router (mr_route s)) \<longrightarrow> cols \<le> rows"
    and "rng_ok (mr_draws s (mr_hops s))"
  shows "\<exists>m p e t. in_mesh rows cols m \<and> m \<noteq> src \<and> m \<noteq> dest_router (mr_route s)
     \<and> walk cols (mesh_route F) arrived
         (mesh_dist cols src m + mesh_dist cols m (dest_router (mr_route s))) src ''Local'' s
       = Inr (p, dest_router (mr_route s), e, t)
     \<and> length p = mesh_dist cols src m + mesh_dist cols m (dest_router (mr_route s))
     \<and> m \<in> set p \<and> dest_router (mr_route s) \<notin> set p \<and> inter_route (mr_route t) = m
     \<and> e \<noteq> xy_entry cols src (dest_router (mr_route s)) ''Local''"
proof -
  let ?t = "dest_router (mr_route s)"
  from valiant_first_hop [OF assms, of F "''Local''"] obtain m s1 where
    h: "mesh_route F src ''Local'' s = Inr (xy_first cols src m, s1)" "mr_route s1 = setInter m (mr_route s)"
      "in_mesh rows cols m" "m \<noteq> src" "m \<noteq> ?t"
      "v1_inv rows cols (hop cols src (xy_first cols src m)) (opposite (xy_first cols src m)) s1"
      "\<forall>d d'. xy_entry cols m ?t d \<noteq> xy_entry cols src ?t d'" by blast
  let ?j = "hop cols src (xy_first cols src m)" and ?o = "opposite (xy_first cols src m)"
  have m1: "inter_route (mr_route s1) = m" and t1: "dest_router (mr_route s1) = ?t"
    using h(2) by (simp_all add: setInter_def)
  have dist: "Suc (mesh_dist cols ?j m) = mesh_dist cols src m"
    using productive_hop(2) [OF assms(2) h(3) xy_first_productive [OF h(4) [symmetric]]] .
  from v1.reaches_goal [OF h(6), of F] obtain p e s2 where
    p1: "walk cols (mesh_route F) arrived (mesh_dist cols ?j m) ?j ?o s1 = Inr (p, m, e, s2)"
      "length p = mesh_dist cols ?j m" "v1_inv rows cols m e s2" "mr_route s2 = mr_route s1"
      "\<forall>j \<in> set p. \<exists>f u. v1_inv rows cols j f u \<and> mr_route u = mr_route s1"
    unfolding m1 by blast
  have d1: "?t \<notin> set p"
    using p1(5) on_xy_route_self unfolding v1_inv_def by (metis t1)
  have "v2_inv rows cols m e s2"
    using p1(3,4) m1 by (simp add: v1_inv_def v2_inv_def)
  note v2.reaches_goal [OF this, of F] v2.reaches_goal_entering [OF this, of F]
  then obtain q f s3 where
    p2: "walk cols (mesh_route F) arrived (mesh_dist cols m ?t) m e s2 = Inr (q, ?t, xy_entry cols m ?t e, s3)"
      "length q = mesh_dist cols m ?t" "?t \<notin> set q" "setPassed (mr_route s3) = setPassed (mr_route s2)"
    unfolding p1(4) t1 by auto
  have ns: "\<not> arrived src s" using assms(3) by (auto simp: arrived_def)
  have "walk cols (mesh_route F) arrived (Suc (mesh_dist cols ?j m)) src ''Local'' s = Inr (src # p, m, e, s2)"
    using ns h(1) p1(1) by simp
  from walk_append [OF this, of "mesh_dist cols m ?t"] p1(2) p2(1)
  have "walk cols (mesh_route F) arrived (mesh_dist cols src m + mesh_dist cols m ?t) src ''Local'' s
      = Inr ((src # p) @ q, ?t, xy_entry cols m ?t e, s3)"
    by (simp flip: dist)
  moreover have "m \<in> set q"
  proof -
    have "\<not> arrived m s2" using h(5) p1(4) t1 by (auto simp: arrived_def)
    moreover obtain n where "mesh_dist cols m ?t = Suc n"
      using h(5) mesh_dist_eq_0_iff [of cols m ?t] by (cases "mesh_dist cols m ?t") auto
    ultimately show ?thesis using p2(1) by (auto simp: bindR_Inr_iff)
  qed
  moreover have "length ((src # p) @ q) = mesh_dist cols src m + mesh_dist cols m ?t"
    using p1(2) p2(2) dist by simp
  moreover have "inter_route (mr_route s3) = m"
    using arg_cong [OF p2(4), of inter_route] p1(4) m1 by (simp add: setPassed_def)
  ultimately show ?thesis
    using h d1 p2(3) assms(3) by (intro exI [of _ m] exI [of _ "(src # p) @ q"]) auto
qed

theorem valiant_delivers_witness:
  "mesh_ok 4 4 (demo_run 4 4 6 (demo_route 14 1)) \<and> rng_ok demo_rng \<and>
   (\<exists>m p e t. in_mesh 4 4 m \<and> m \<in> set p \<and>
      walk 4 (mesh_route int_fp) arrived (mesh_dist 4 1 m + mesh_dist 4 m 14) 1 ''Local''
        (demo_run 4 4 6 (demo_route 14 1)) = Inr (p, 14, e, t))"
proof -
  let ?s = "demo_run 4 4 6 (demo_route 14 1)"
  have ok: "mesh_ok 4 4 ?s"
    by (rule demo_mesh_ok) (simp_all add: demo_route_def in_mesh_def)
  have r: "dest_router (mr_route ?s) = 14" "mr_alg ?s = 6" "sTag (mr_route ?s) = 1" "\<not> passedMid (mr_route ?s)"
    "inter_route (mr_route ?s) = -1" "rng_ok (mr_draws ?s (mr_hops ?s))"
    using demo_rng_ok by (simp_all add: demo_run_def demo_route_def RouteInfo_default_def)
  have "in_mesh 4 4 1" by (simp add: in_mesh_def)
  from valiant_delivers [OF ok this, of int_fp] r ok demo_rng_ok show ?thesis by auto
qed

lemma others_nth:
  assumes "0 \<le> r" and "r \<le> n - 2" and "0 \<le> skip"
  shows "at (others n skip) r = Inr (if r < skip then r else r + 1)"
proof (cases "skip < n")
  case True
  then have "[0..n - 1] = [0..skip - 1] @ skip # [skip + 1..n - 1]"
    using assms upto_split1 [of 0 "skip" "n - 1"] upto_rec1 [of skip "n - 1"] by simp
  then have o: "others n skip = [0..skip - 1] @ [skip + 1..n - 1]" by (simp add: others_def)
  have "nat r < length (others n skip)" using assms True by (simp add: o)
  moreover have "others n skip ! nat r = (if r < skip then r else r + 1)"
    using assms True by (simp add: o nth_append nat_less_iff)
  ultimately show ?thesis using assms(1) by (simp add: at_def)
next
  case False
  then have "others n skip = [0..n - 1]" by (simp add: others_def)
  with False assms show ?thesis by (simp add: at_def)
qed

text \<open>Claim C38. The row of the intermediate router is drawn from the number of columns. For a tagged packet whose
  destination lies in the row of the current router, \<open>outportValiant\<close> sends the packet towards the router in the current
  column whose row is the draw, or the draw plus one from the current row on; that router exists iff the draw plus one is below the number
  of rows. So in a mesh with at least as many rows as columns every draw names a router of the mesh, and in a mesh with more columns than rows
  the draws from the number of rows minus one on do not: the packet heads north for a row that does not exist, and in the top row, where there is no
  port to the north, the lookup of the direction answers port 0.\<close>

theorem valiant_intermediate_outside_mesh:
  assumes i: "in_mesh rows cols i" and t: "in_mesh rows cols (dest_router route)" and ne: "i \<noteq> dest_router route"
    and row: "mesh_y cols (dest_router route) = mesh_y cols i"
    and env: "re_id env = i" "re_num_rows env = rows" "re_num_cols env = cols"
    and tag: "sTag route = 1" "inter_route route = -1"
    and draw: "0 \<le> rng_my g 0 (cols - 2)" "rng_my g 0 (cols - 2) \<le> cols - 2"
  shows "\<exists>m dirn. outportValiant env g ru route inport inport_dirn
        = Inr (fst (outport_of dirn ru), snd (outport_of dirn ru), setInter m route)
    \<and> m = (if rng_my g 0 (cols - 2) < mesh_y cols i then rng_my g 0 (cols - 2) else rng_my g 0 (cols - 2) + 1) * cols + mesh_x cols i
    \<and> (in_mesh rows cols m \<longleftrightarrow> rng_my g 0 (cols - 2) + 1 < rows)
    \<and> (\<not> in_mesh rows cols m \<longrightarrow> dirn = ''North'' \<and> rows < cols)
    \<and> (\<not> in_mesh rows cols m \<and> mesh_y cols i = rows - 1 \<and> outports_dirn2idx ru ''North'' = None \<longrightarrow>
         \<not> has_port rows cols i dirn \<and> fst (outport_of dirn ru) = 0)"
proof -
  let ?t = "dest_router route" and ?r = "rng_my g 0 (cols - 2)"
  let ?v = "if ?r < mesh_y cols i then ?r else ?r + 1"
  let ?m = "?v * cols + mesh_x cols i" and ?d = "if mesh_y cols i \<le> ?v then ''North'' else ''South''"
  note bi = in_meshD [OF i] and bt = in_meshD [OF t]
  have c: "i smod cols = mesh_x cols i" "i sdiv cols = mesh_y cols i"
    "?t smod cols = mesh_x cols ?t" "?t sdiv cols = mesh_y cols ?t"
    using bi bt by (simp_all add: mesh_x_def mesh_y_def)
  have x: "mesh_x cols ?t \<noteq> mesh_x cols i" using ne row mesh_eq_iff [of i ?t cols] by auto
  have m: "mesh_x cols ?m = mesh_x cols i" "mesh_y cols ?m = ?v" using coords_unique [of "mesh_x cols i" cols ?v] bi by simp_all
  have m0: "0 \<le> ?m" using bi draw by simp
  then have cm: "?m smod cols = mesh_x cols i" "?m sdiv cols = ?v" using m bi by (simp_all add: mesh_x_def mesh_y_def)
  have inside: "in_mesh rows cols ?m \<longleftrightarrow> ?r + 1 < rows"
    unfolding in_mesh_iff_coords [OF bi(1,2)] m using bi draw by auto
  have at: "bindR (at (others cols (mesh_y cols i)) ?r) f = f ?v" for f :: "int \<Rightarrow> RouteInfo res"
    using draw bi by (simp add: others_nth)
  have "valiant_inter env g route = Inr (setInter ?m route)"
    using x row bi at by (simp add: valiant_inter_def Let_def env c)
  moreover have "xy_mid_dirn env ?m = Inr ?d"
    using bi cm by (auto simp: xy_mid_dirn_def Let_def env c)
  ultimately have "outportValiant env g ru route inport inport_dirn = Inr (fst (outport_of ?d ru), snd (outport_of ?d ru), setInter ?m route)"
    using tag by (simp add: outportValiant_def pass_inter_def outportComputeXY_mid_def setInter_def split_beta)
  then show ?thesis using inside draw bi
    by (intro exI [of _ ?m] exI [of _ ?d]) (auto simp: has_port_def outport_of_def)
qed

text \<open>A mesh of 2 rows and 4 columns: with the last draw, a packet from router 4 in the top row to router 7 is sent towards router 12.\<close>

theorem valiant_intermediate_outside_mesh_witness:
  "\<exists>ru'. outportValiant \<lparr>re_id = 4, re_num_rows = 2, re_num_cols = 4, re_routing_algorithm = 6, re_ordered = (\<lambda>_. False), re_curTick = 0\<rparr>
       (demo_rng\<lparr>rng_my := \<lambda>lo hi. hi\<rparr>) (demo_unit 2 4 4) (demo_route 7 1) 0 ''Local''
     = Inr (0, ru', setInter 12 (demo_route 7 1)) \<and> \<not> in_mesh 2 4 12"
proof -
  let ?env = "\<lparr>re_id = 4, re_num_rows = 2, re_num_cols = 4, re_routing_algorithm = 6, re_ordered = (\<lambda>_. False), re_curTick = 0\<rparr>"
    and ?g = "demo_rng\<lparr>rng_my := \<lambda>lo hi. hi\<rparr>" and ?r = "demo_route 7 1"
  have r: "dest_router ?r = 7" "sTag ?r = 1" "inter_route ?r = -1" by (simp_all add: demo_route_def RouteInfo_default_def)
  have y: "mesh_y 4 4 = 1" "mesh_y 4 7 = 1" "mesh_x 4 4 = 0" by (simp_all add: mesh_y_def mesh_x_def)
  have no: "outports_dirn2idx (demo_unit 2 4 4) ''North'' = None"
    by (simp add: demo_unit_def demo_ports_def has_port_def mesh_x_def mesh_y_def addOutDirection_def RoutingUnit_new_def)
  have "\<exists>m dirn. outportValiant ?env ?g (demo_unit 2 4 4) ?r 0 ''Local''
        = Inr (fst (outport_of dirn (demo_unit 2 4 4)), snd (outport_of dirn (demo_unit 2 4 4)), setInter m ?r)
    \<and> m = (if rng_my ?g 0 (4 - 2) < mesh_y 4 4 then rng_my ?g 0 (4 - 2) else rng_my ?g 0 (4 - 2) + 1) * 4 + mesh_x 4 4
    \<and> (in_mesh 2 4 m \<longleftrightarrow> rng_my ?g 0 (4 - 2) + 1 < 2)
    \<and> (\<not> in_mesh 2 4 m \<longrightarrow> dirn = ''North'' \<and> (2 :: int) < 4)
    \<and> (\<not> in_mesh 2 4 m \<and> mesh_y 4 4 = 2 - 1 \<and> outports_dirn2idx (demo_unit 2 4 4) ''North'' = None \<longrightarrow>
         \<not> has_port 2 4 4 dirn \<and> fst (outport_of dirn (demo_unit 2 4 4)) = 0)"
    by (rule valiant_intermediate_outside_mesh) (simp_all add: r y in_mesh_def)
  then show ?thesis using no y by (auto simp: in_mesh_def)
qed

section \<open>Pattern-triggered deflection\<close>

text \<open>The two directions the deflection chooses between. It leaves the mesh iff neither has a port.\<close>

lemma pattern_deflect_port:
  assumes i: "in_mesh rows cols i" and t: "in_mesh rows cols t" and ne: "i \<noteq> t"
  shows "\<exists>d. pattern_deflect_dirn r former (mesh_y cols t - mesh_y cols i) (mesh_x cols i) (mesh_y cols i) rows cols = Inr d
    \<and> d \<noteq> former \<and> d \<in> {''East'', ''West'', ''South'', ''North''}
    \<and> (has_port rows cols i d \<longleftrightarrow>
        \<not> (mesh_y cols i = rows - 1 \<and> mesh_y cols t = rows - 1 \<and> (former = ''East'' \<and> mesh_x cols i = 0 \<or> former = ''West'' \<and> mesh_x cols i = cols - 1)
           \<or> cols = 1 \<and> former \<noteq> ''East'' \<and> former \<noteq> ''West''))"
proof -
  note bi = in_meshD [OF i] and bt = in_meshD [OF t]
  have n: "\<not> (mesh_x cols t = mesh_x cols i \<and> mesh_y cols t = mesh_y cols i)" using ne mesh_eq_iff [of i t cols] by auto
  consider "former = ''East''" | "former = ''West''" | "former = ''South''" | "former = ''North''"
    | "former \<notin> {''East'', ''West'', ''South'', ''North''}" by blast
  then show ?thesis using bi bt n
    by cases (cases "mesh_y cols i \<le> mesh_y cols t"; cases "r < 50";
      auto simp: pattern_deflect_dirn_def Let_def at_def has_port_def)+
qed

text \<open>Claim C39. What the deflection of \<open>DEFENSE0\<close> does with a packet of the flow its detector reports, at any router of any mesh and
  for any draw. \<open>outportPattern\<close> records the packet in its table and picks one of the four directions, never the suspicious one. The
  direction has a port at the router except in two cases: in the top row, for a destination in that row, at the west end if the
  suspicious direction was east and at the east end if it was west; and in a mesh of a single column if the suspicious direction was not
  east or west. There the check against the border rejects the first choice but not the second: the direction points out of the mesh, and its lookup
  inserts and answers port 0, a local port.\<close>

theorem pattern_deflects_outside_mesh:
  assumes i: "in_mesh rows cols i" and t: "in_mesh rows cols (dest_router route)" and ne: "i \<noteq> dest_router route"
    and env: "re_id env = i" "re_num_rows env = rows" "re_num_cols env = cols"
    and risk: "route_riskFind F ru route_pattern_init = Inr (True, e)" "rp_dst e = dest_router route" "rp_src e = src_router route"
    and tab: "patternTable ru \<noteq> []"
  shows "\<exists>d. outportPattern F env g ru route inport inport_dirn = Inr (outport_of d (ru\<lparr>patternTable := tl (patternTable ru) @
        [\<lparr>rp_src = src_router route, rp_dst = dest_router route, rp_inport = inport, rp_output = d, rp_cycleRecieve = of_nat (re_curTick env div 500)\<rparr>]\<rparr>))
    \<and> d \<noteq> rp_output e \<and> d \<in> {''East'', ''West'', ''South'', ''North''}
    \<and> (has_port rows cols i d \<longleftrightarrow>
        \<not> (mesh_y cols i = rows - 1 \<and> mesh_y cols (dest_router route) = rows - 1
             \<and> (rp_output e = ''East'' \<and> mesh_x cols i = 0 \<or> rp_output e = ''West'' \<and> mesh_x cols i = cols - 1)
           \<or> cols = 1 \<and> rp_output e \<noteq> ''East'' \<and> rp_output e \<noteq> ''West''))
    \<and> (outports_dirn2idx ru d = None \<longrightarrow> fst (outport_of d ru) = 0 \<and> outports_dirn2idx (snd (outport_of d ru)) d = Some 0)"
proof -
  let ?t = "dest_router route"
  note bi = in_meshD [OF i] and bt = in_meshD [OF t]
  have c: "i smod cols = mesh_x cols i" "i sdiv cols = mesh_y cols i"
    "?t smod cols = mesh_x cols ?t" "?t sdiv cols = mesh_y cols ?t"
    using bi bt by (simp_all add: mesh_x_def mesh_y_def)
  have n: "\<not> (mesh_x cols ?t = mesh_x cols i \<and> mesh_y cols ?t = mesh_y cols i)" using ne mesh_eq_iff [of i ?t cols] by auto
  from pattern_deflect_port [OF i t ne, of "rng_mt g 0 100" "rp_output e"] obtain d where
    d: "pattern_deflect_dirn (rng_mt g 0 100) (rp_output e) (mesh_y cols ?t - mesh_y cols i) (mesh_x cols i) (mesh_y cols i) rows cols = Inr d"
      "d \<noteq> rp_output e" "d \<in> {''East'', ''West'', ''South'', ''North''}" and port: "has_port rows cols i d \<longleftrightarrow>
        \<not> (mesh_y cols i = rows - 1 \<and> mesh_y cols ?t = rows - 1 \<and> (rp_output e = ''East'' \<and> mesh_x cols i = 0 \<or> rp_output e = ''West'' \<and> mesh_x cols i = cols - 1)
           \<or> cols = 1 \<and> rp_output e \<noteq> ''East'' \<and> rp_output e \<noteq> ''West'')" by blast
  have "outportPattern F env g ru route inport inport_dirn = Inr (outport_of d (ru\<lparr>patternTable := tl (patternTable ru) @
      [\<lparr>rp_src = src_router route, rp_dst = ?t, rp_inport = inport, rp_output = d, rp_cycleRecieve = of_nat (re_curTick env div 500)\<rparr>]\<rparr>))"
    using bi n risk tab d(1) by (simp add: outportPattern_def Let_def env c slide_ok)
  moreover have "outports_dirn2idx ru d = None \<longrightarrow> fst (outport_of d ru) = 0 \<and> outports_dirn2idx (snd (outport_of d ru)) d = Some 0"
    by (simp add: outport_of_def)
  ultimately show ?thesis using d(2,3) port by (intro exI [of _ d] conjI)
qed

text \<open>The corner is reached: at the north-west router of a 4 by 4 mesh, eight packets of one flow to the east end of the row, one per cycle,
  are sent east and fill the table of a fresh unit; the ninth is deflected to the north.\<close>

definition demo_pattern_env :: "nat \<Rightarrow> route_env" where
  "demo_pattern_env k = \<lparr>re_id = 12, re_num_rows = 4, re_num_cols = 4, re_routing_algorithm = 5, re_ordered = (\<lambda>_. False), re_curTick = 500 * Suc k\<rparr>"

definition demo_pattern :: "nat \<Rightarrow> route_pattern" where
  "demo_pattern k = \<lparr>rp_src = src_router (demo_route 15 0), rp_dst = 15, rp_inport = 0, rp_output = ''East'', rp_cycleRecieve = of_nat (Suc k)\<rparr>"

definition demo_pattern_packet :: "nat \<Rightarrow> RoutingUnit \<Rightarrow> RoutingUnit res" where
  "demo_pattern_packet k ru = bindR (outportPattern int_fp (demo_pattern_env k) demo_rng ru (demo_route 15 0) 0 ''Local'') (\<lambda>(_, ru'). Inr ru')"

definition demo_table :: "nat \<Rightarrow> route_pattern list" where
  "demo_table k = replicate (8 - k) route_pattern_init @ map demo_pattern [0..<k]"

lemma demo_table_read: "length tab = 8 \<Longrightarrow> mapR (at tab) (map int [0..<patternLen]) = Inr tab"
proof -
  assume len: "length tab = 8"
  have "mapR (at tab) (map int [0..<patternLen]) = Inr (map (\<lambda>k. tab ! nat k) (map int [0..<patternLen]))"
    by (rule mapR_total) (use len in \<open>auto simp: at_def patternLen_def\<close>)
  also have "map (\<lambda>k. tab ! nat k) (map int [0..<patternLen]) = tab"
    using map_nth [of tab] len by (simp add: comp_def patternLen_def)
  finally show ?thesis .
qed

lemma demo_pattern_fills:
  assumes "k < 8" and "outports_dirn2idx ru ''East'' = Some p"
  shows "demo_pattern_packet k (ru\<lparr>patternTable := demo_table k\<rparr>) = Inr (ru\<lparr>patternTable := demo_table (Suc k)\<rparr>)"
proof -
  have len: "length (demo_table k) = 8" using assms(1) by (simp add: demo_table_def)
  have hd: "demo_table k = route_pattern_init # replicate (7 - k) route_pattern_init @ map demo_pattern [0..<k]"
    using assms(1) by (simp add: demo_table_def Suc_diff_Suc [symmetric] flip: replicate_Suc)
  then have "\<exists>e \<in> set (demo_table k). rp_cycleRecieve e = 0" by (simp add: route_pattern_init_def)
  then have risk: "route_riskFind int_fp (ru\<lparr>patternTable := demo_table k\<rparr>) route_pattern_init = Inr (False, route_pattern_init)"
    by (simp add: route_riskFind_def demo_table_read [OF len])
  have "slide (demo_pattern k) (demo_table k) = Inr (demo_table (Suc k))"
    using assms(1) by (subst hd) (simp add: slide_def demo_table_def)
  then show ?thesis using risk assms(2)
    by (simp add: demo_pattern_packet_def outportPattern_def demo_pattern_env_def demo_route_def RouteInfo_default_def Let_def
        pattern_free_dirn_def demo_rng_def demo_pattern_def outport_of_def)
qed

lemma demo_pattern_run:
  assumes "n \<le> 8" and "outports_dirn2idx ru ''East'' = Some p"
  shows "loopR demo_pattern_packet [0..<n] (ru\<lparr>patternTable := demo_table 0\<rparr>) = Inr (ru\<lparr>patternTable := demo_table n\<rparr>)"
  using assms(1)
proof (induction n)
  case (Suc n)
  then show ?case using demo_pattern_fills [OF _ assms(2), of n] by (simp add: loopR_append)
qed simp

lemma demo_pattern_risk:
  assumes "patternTable ru = demo_table 8"
  shows "route_riskFind int_fp ru route_pattern_init = Inr (True, demo_pattern 7)"
proof -
  let ?tab = "map demo_pattern [0..<8]"
  have upt: "[0..<8] = [0, 1, 2, 3, 4, 5, 6, 7 :: nat]" by (simp add: upt_rec)
  have rd: "mapR (at (patternTable ru)) (map int [0..<patternLen]) = Inr ?tab"
    using demo_table_read [of "demo_table 8"] assms by (simp add: demo_table_def)
  have times: "map rp_cycleRecieve ?tab = [1, 2, 3, 4, 5, 6, 7, 8]" by (simp add: upt demo_pattern_def)
  have nz: "\<not> (\<exists>e \<in> set ?tab. rp_cycleRecieve e = 0)" by (simp add: upt demo_pattern_def)
  have cmp: "route_entryCmp (demo_pattern a) (demo_pattern b)" for a b by (simp add: route_entryCmp_def demo_pattern_def)
  have same: "filter (route_entryCmp (demo_pattern a)) ?tab = ?tab" "filter (\<lambda>e. route_entryCmp e (demo_pattern a)) ?tab = ?tab" for a
    using cmp by (simp_all add: filter_id_conv)
  have dom: "filter (\<lambda>e. 2 * length (filter (route_entryCmp e) ?tab) > patternLen) ?tab = ?tab"
    using same(1) by (auto simp: filter_id_conv patternLen_def)
  have last: "last ?tab = demo_pattern 7" "?tab \<noteq> []" by (simp_all add: upt)
  have diffs: "differences [1, 2, 3, 4, 5, 6, 7, 8] = [1, 1, 1, 1, 1, 1, 1]" by (simp add: differences_def)
  have "route_variance int_fp [1, 1, 1, 1, 1, 1, 1] \<le> 3" "\<bar>route_average int_fp [1, 2, 3, 4, 5, 6, 7, 8]\<bar> < 6"
    by (simp_all add: route_variance_def route_average_def diffs int_fp_def fp_sum_def)
  then show ?thesis unfolding route_riskFind_def rd bindR.simps if_not_P [OF nz] Let_def dom if_not_P [OF last(2)] last(1) same(2) times diffs
    by (simp add: int_fp_def)
qed

theorem pattern_deflects_outside_mesh_witness:
  "\<exists>ru ru'. loopR demo_pattern_packet [0..<8] (demo_unit 4 4 12) = Inr ru
     \<and> outportPattern int_fp (demo_pattern_env 8) demo_rng ru (demo_route 15 0) 0 ''Local'' = Inr (0, ru')"
proof -
  let ?u = "demo_unit 4 4 12" and ?r = "demo_route 15 0"
  have u: "outports_dirn2idx ?u ''East'' = Some 2" "outports_dirn2idx ?u ''North'' = None" "outports_dirn2idx ?u ''West'' = None"
     "patternTable ?u = demo_table 0"
    by (simp_all add: demo_unit_def demo_ports_def has_port_def mesh_x_def mesh_y_def addOutDirection_def RoutingUnit_new_def demo_table_def patternLen_def)
  let ?ru = "?u\<lparr>patternTable := demo_table 8\<rparr>"
  have run: "loopR demo_pattern_packet [0..<8] ?u = Inr ?ru"
  proof -
    have "?u\<lparr>patternTable := demo_table 0\<rparr> = ?u" using u(4) by (cases ?u) simp
    then show ?thesis using demo_pattern_run [OF order_refl u(1)] by simp
  qed
  have rf: "route_riskFind int_fp ?ru route_pattern_init = Inr (True, demo_pattern 7)"
    using demo_pattern_risk [of ?ru] by simp
  have r: "dest_router ?r = 15" by (simp add: demo_route_def)
  have y: "mesh_y 4 12 = 3" "mesh_y 4 15 = 3" "mesh_x 4 12 = 0" by (simp_all add: mesh_x_def mesh_y_def)
  have "\<exists>d. outportPattern int_fp (demo_pattern_env 8) demo_rng ?ru ?r 0 ''Local'' = Inr (outport_of d (?ru\<lparr>patternTable := tl (patternTable ?ru) @
        [\<lparr>rp_src = src_router ?r, rp_dst = dest_router ?r, rp_inport = 0, rp_output = d, rp_cycleRecieve = of_nat (re_curTick (demo_pattern_env 8) div 500)\<rparr>]\<rparr>))
    \<and> d \<noteq> rp_output (demo_pattern 7) \<and> d \<in> {''East'', ''West'', ''South'', ''North''}
    \<and> (has_port 4 4 12 d \<longleftrightarrow>
        \<not> (mesh_y 4 12 = 4 - 1 \<and> mesh_y 4 (dest_router ?r) = 4 - 1
             \<and> (rp_output (demo_pattern 7) = ''East'' \<and> mesh_x 4 12 = 0 \<or> rp_output (demo_pattern 7) = ''West'' \<and> mesh_x 4 12 = 4 - 1)
           \<or> (4 :: int) = 1 \<and> rp_output (demo_pattern 7) \<noteq> ''East'' \<and> rp_output (demo_pattern 7) \<noteq> ''West''))
    \<and> (outports_dirn2idx ?ru d = None \<longrightarrow> fst (outport_of d ?ru) = 0 \<and> outports_dirn2idx (snd (outport_of d ?ru)) d = Some 0)"
    by (rule pattern_deflects_outside_mesh)
      (use rf in \<open>simp_all add: r in_mesh_def demo_pattern_env_def demo_pattern_def demo_table_def\<close>)
  then obtain d where d: "outportPattern int_fp (demo_pattern_env 8) demo_rng ?ru ?r 0 ''Local'' = Inr (outport_of d (?ru\<lparr>patternTable := tl (patternTable ?ru) @
        [\<lparr>rp_src = src_router ?r, rp_dst = dest_router ?r, rp_inport = 0, rp_output = d, rp_cycleRecieve = of_nat (re_curTick (demo_pattern_env 8) div 500)\<rparr>]\<rparr>))"
    "d \<in> {''West'', ''South'', ''North''}" "\<not> has_port 4 4 12 d" by (auto simp: r y demo_pattern_def)
  then have "d = ''West'' \<or> d = ''North''" by (auto simp: has_port_def y)
  then have "outports_dirn2idx ?u d = None" using u by auto
  then have "outport_of d (?ru\<lparr>patternTable := tab\<rparr>)
      = (0, ?ru\<lparr>patternTable := tab, outports_dirn2idx := (outports_dirn2idx ?u)(d \<mapsto> 0)\<rparr>)" for tab
    by (simp add: outport_of_def)
  then show ?thesis using run d(1) by auto
qed

end
