(* ===== verification/Channel_Dependencies.thy ===== *)
theory Channel_Dependencies
  imports Mesh_Delivery
begin

text \<open>
  Deadlock freedom of wormhole routing by the absence of cyclic channel dependencies: a channel is a router
  with one of its output directions, and a channel depends on the next one a packet may ask for while it
  holds the first. A rank that grows along every dependency excludes cycles.
\<close>

type_synonym channel = "int \<times> PortDirection"

locale ranked_channels =
  fixes dep :: "'c \<Rightarrow> 'c \<Rightarrow> bool"
    and rank :: "'c \<Rightarrow> nat"
  assumes dep_rank: "dep a b \<Longrightarrow> rank a < rank b"
begin

lemma dep_trancl_rank: "dep\<^sup>+\<^sup>+ a b \<Longrightarrow> rank a < rank b"
  by (induction rule: tranclp_induct) (auto dest: dep_rank)

lemma no_cycle: "\<not> dep\<^sup>+\<^sup>+ a a"
  using dep_trancl_rank by blast

end

definition plain_env :: "int \<Rightarrow> int \<Rightarrow> int \<Rightarrow> route_env" where
  "plain_env rows cols i = \<lparr>re_id = i, re_num_rows = rows, re_num_cols = cols, re_routing_algorithm = 1,
     re_ordered = (\<lambda>_. False), re_curTick = 0\<rparr>"

text \<open>Some packet is routed by \<open>outportComputeXY\<close> through the first channel and asks for the second one next.\<close>

definition xy_dep :: "int \<Rightarrow> int \<Rightarrow> channel \<Rightarrow> channel \<Rightarrow> bool" where
  "xy_dep rows cols a b \<longleftrightarrow> (\<exists>t d. in_mesh rows cols (fst a) \<and> in_mesh rows cols t \<and> fst a \<noteq> t \<and> fst b \<noteq> t
     \<and> xy_dirn (plain_env rows cols (fst a)) t d = Inr (snd a)
     \<and> fst b = hop cols (fst a) (snd a)
     \<and> xy_dirn (plain_env rows cols (fst b)) t (opposite (snd a)) = Inr (snd b))"

definition xy_rank :: "int \<Rightarrow> int \<Rightarrow> channel \<Rightarrow> nat" where
  "xy_rank rows cols a = nat (if snd a = ''East'' then mesh_x cols (fst a)
     else if snd a = ''West'' then cols - mesh_x cols (fst a)
     else if snd a = ''North'' then cols + 1 + mesh_y cols (fst a)
     else cols + 1 + rows - mesh_y cols (fst a))"

lemma xy_dirn_first:
  assumes "in_mesh rows cols i" and "in_mesh rows cols t" and "i \<noteq> t"
    and "xy_dirn (plain_env rows cols i) t d = Inr dir"
  shows "dir = xy_first cols i t"
proof -
  have ne: "\<not> (mesh_x cols t = mesh_x cols i \<and> mesh_y cols t = mesh_y cols i)"
    using assms(3) mesh_eq_iff [of i t cols] by auto
  have c: "i smod cols = mesh_x cols i" "i sdiv cols = mesh_y cols i"
    "t smod cols = mesh_x cols t" "t sdiv cols = mesh_y cols t"
    using in_meshD [OF assms(1)] in_meshD [OF assms(2)] by (simp_all add: mesh_x_def mesh_y_def)
  have e: "re_id (plain_env rows cols i) = i" "re_num_rows (plain_env rows cols i) = rows"
    "re_num_cols (plain_env rows cols i) = cols" by (simp_all add: plain_env_def)
  show ?thesis
    using assms(4) ne unfolding xy_dirn_def Let_def e c
    by (auto simp: bindR_Inr_iff assertR_Inr_iff xy_first_def split: if_splits)
qed

lemma xy_first_rank:
  assumes i: "in_mesh rows cols i" and t: "in_mesh rows cols t" and "i \<noteq> t"
    and j: "j = hop cols i (xy_first cols i t)" and "j \<noteq> t"
  shows "xy_rank rows cols (i, xy_first cols i t) < xy_rank rows cols (j, xy_first cols j t)"
proof -
  have p: "productive cols i t (xy_first cols i t)" using xy_first_productive [OF assms(3)] .
  note b = in_meshD [OF i] in_meshD [OF t] in_meshD [OF productive_hop(1) [OF i t p]]
  note h = hop_coords [of cols i]
  have ne: "\<not> (mesh_x cols t = mesh_x cols i \<and> mesh_y cols t = mesh_y cols i)"
    "\<not> (mesh_x cols t = mesh_x cols j \<and> mesh_y cols t = mesh_y cols j)"
    using assms(3,5) mesh_eq_iff [of i t cols] mesh_eq_iff [of j t cols] by auto
  consider "mesh_x cols i < mesh_x cols t" | "mesh_x cols t < mesh_x cols i"
    | "mesh_x cols i = mesh_x cols t" "mesh_y cols i < mesh_y cols t"
    | "mesh_x cols i = mesh_x cols t" "mesh_y cols t < mesh_y cols i" using ne by linarith
  then show ?thesis
  proof cases
    case 1
    then have f: "xy_first cols i t = ''East''" by (simp add: xy_first_def)
    with h(1) b 1 have "mesh_x cols j = mesh_x cols i + 1" by (simp add: j)
    with 1 f b show ?thesis by (auto simp: xy_rank_def xy_first_def j)
  next
    case 2
    then have f: "xy_first cols i t = ''West''" by (simp add: xy_first_def)
    with h(2) b 2 have "mesh_x cols j = mesh_x cols i - 1" by (simp add: j)
    with 2 f b show ?thesis by (auto simp: xy_rank_def xy_first_def j)
  next
    case 3
    then have f: "xy_first cols i t = ''North''" by (simp add: xy_first_def)
    with h(3) b 3 have "mesh_x cols j = mesh_x cols i" "mesh_y cols j = mesh_y cols i + 1" by (simp_all add: j)
    with 3 f b ne show ?thesis by (auto simp: xy_rank_def xy_first_def j)
  next
    case 4
    then have f: "xy_first cols i t = ''South''" by (simp add: xy_first_def)
    with h(4) b 4 have "mesh_x cols j = mesh_x cols i" "mesh_y cols j = mesh_y cols i - 1" by (simp_all add: j)
    with 4 f b ne show ?thesis by (auto simp: xy_rank_def xy_first_def j)
  qed
qed

interpretation xyc: ranked_channels "xy_dep rows cols" "xy_rank rows cols"
  for rows cols :: int
proof unfold_locales
  fix a b assume dep: "xy_dep rows cols a b"
  then obtain t d where t: "in_mesh rows cols (fst a)" "in_mesh rows cols t" "fst a \<noteq> t" "fst b \<noteq> t"
     "xy_dirn (plain_env rows cols (fst a)) t d = Inr (snd a)" "fst b = hop cols (fst a) (snd a)"
     "xy_dirn (plain_env rows cols (fst b)) t (opposite (snd a)) = Inr (snd b)"
    by (auto simp: xy_dep_def)
  have 1: "snd a = xy_first cols (fst a) t" using xy_dirn_first [OF t(1-3,5)] .
  have m: "in_mesh rows cols (fst b)"
    using productive_hop(1) [OF t(1,2) xy_first_productive [OF t(3)]] t(6) 1 by simp
  have 2: "snd b = xy_first cols (fst b) t" using xy_dirn_first [OF m t(2,4,7)] .
  have "fst b = hop cols (fst a) (xy_first cols (fst a) t)" using t(6) 1 by simp
  from xy_first_rank [OF t(1-3) this t(4)] 1 2 show "xy_rank rows cols a < xy_rank rows cols b"
    by (metis prod.collapse)
qed

text \<open>Claim C14. Dimension-ordered routing has no cyclic channel dependency, in a mesh of any size: no chain
  of packets, each holding a channel and waiting for the next, can close.\<close>

theorem xy_deadlock_free: "\<not> (xy_dep rows cols)\<^sup>+\<^sup>+ c c"
  by (rule xyc.no_cycle)

section \<open>West-first\<close>

definition wf_dep :: "int \<Rightarrow> int \<Rightarrow> channel \<Rightarrow> channel \<Rightarrow> bool" where
  "wf_dep rows cols a b \<longleftrightarrow> (\<exists>t r r'. in_mesh rows cols (fst a) \<and> in_mesh rows cols t \<and> fst a \<noteq> t \<and> fst b \<noteq> t
     \<and> snd a = pick_dirn r (west_first_avail (t smod cols - fst a smod cols) (t sdiv cols - fst a sdiv cols))
     \<and> fst b = hop cols (fst a) (snd a)
     \<and> snd b = pick_dirn r' (west_first_avail (t smod cols - fst b smod cols) (t sdiv cols - fst b sdiv cols)))"

definition wf_rank :: "int \<Rightarrow> int \<Rightarrow> channel \<Rightarrow> nat" where
  "wf_rank rows cols a = nat (if snd a = ''West'' then cols - mesh_x cols (fst a)
     else cols + 1 + mesh_x cols (fst a) * (rows + 1) +
       (if snd a = ''East'' then rows
        else if snd a = ''North'' then mesh_y cols (fst a) else rows - mesh_y cols (fst a)))"

lemma wf_dirn_direction:
  assumes "i \<noteq> t"
  shows "mesh_x cols t < mesh_x cols i \<and> wf_dirn r cols i t = ''West'' \<or>
     mesh_x cols i < mesh_x cols t \<and> wf_dirn r cols i t = ''East'' \<or>
     mesh_x cols i \<le> mesh_x cols t \<and> mesh_y cols i < mesh_y cols t \<and> wf_dirn r cols i t = ''North'' \<or>
     mesh_x cols i \<le> mesh_x cols t \<and> mesh_y cols t < mesh_y cols i \<and> wf_dirn r cols i t = ''South''"
  using wf_dirn_cases [OF assms, of cols r] unfolding productive_def by linarith

lemma wf_rank_not_west:
  assumes "in_mesh rows cols j" and "d \<noteq> ''West''"
  shows "cols < int (wf_rank rows cols (j, d))"
proof -
  define k where "k = mesh_x cols j * (rows + 1)"
  have "0 \<le> k" using in_meshD [OF assms(1)] by (simp add: k_def)
  then show ?thesis
    using assms(2) in_meshD [OF assms(1)] unfolding wf_rank_def fst_conv snd_conv k_def [symmetric] by auto
qed

lemma wf_rank_hop:
  assumes i: "in_mesh rows cols i" and t: "in_mesh rows cols t" and "i \<noteq> t"
    and j: "j = hop cols i (wf_dirn r cols i t)" and "j \<noteq> t"
  shows "wf_rank rows cols (i, wf_dirn r cols i t) < wf_rank rows cols (j, wf_dirn r' cols j t)"
proof -
  have p: "productive cols i t (wf_dirn r cols i t)" using wf_dirn_cases [OF assms(3)] by blast
  have jm: "in_mesh rows cols j" unfolding j using productive_hop(1) [OF i t p] .
  note b = in_meshD [OF i] in_meshD [OF t] in_meshD [OF jm]
  note h = hop_coords [of cols i]
  note nx = wf_dirn_direction [OF assms(5), of cols r']
  let ?x = "mesh_x cols i" and ?y = "mesh_y cols i"
  define k where "k = ?x * (rows + 1)"
  define k' where "k' = mesh_x cols j * (rows + 1)"
  have pos: "0 \<le> k" "0 \<le> k'" using b by (simp_all add: k_def k'_def)
  note rank = wf_rank_def fst_conv snd_conv k_def [symmetric] k'_def [symmetric]
  consider "mesh_x cols t < ?x" "wf_dirn r cols i t = ''West''"
    | "?x < mesh_x cols t" "wf_dirn r cols i t = ''East''"
    | "?x \<le> mesh_x cols t" "?y < mesh_y cols t" "wf_dirn r cols i t = ''North''"
    | "?x \<le> mesh_x cols t" "mesh_y cols t < ?y" "wf_dirn r cols i t = ''South''"
    using wf_dirn_direction [OF assms(3), of cols r] by blast
  then show ?thesis
  proof cases
    case 1
    then have x: "mesh_x cols j = ?x - 1" using h(2) b j by simp
    show ?thesis
    proof (cases "wf_dirn r' cols j t = ''West''")
      case True
      with 1 x b show ?thesis by (simp add: wf_rank_def)
    next
      case False
      have "int (wf_rank rows cols (i, ''West'')) \<le> cols" using b by (simp add: wf_rank_def)
      with wf_rank_not_west [OF jm False] 1(2) show ?thesis by simp
    qed
  next
    case 2
    then have x: "mesh_x cols j = ?x + 1" using h(1) b j by simp
    then have "k' = k + rows + 1" by (simp add: k_def k'_def algebra_simps)
    with 2 x b nx pos show ?thesis unfolding rank by auto
  next
    case 3
    then have x: "mesh_x cols j = ?x" "mesh_y cols j = ?y + 1" using h(3) b j by simp_all
    then have "k' = k" by (simp add: k_def k'_def)
    with 3 x b nx pos show ?thesis unfolding rank by auto
  next
    case 4
    then have x: "mesh_x cols j = ?x" "mesh_y cols j = ?y - 1" using h(4) b j by simp_all
    then have "k' = k" by (simp add: k_def k'_def)
    with 4 x b nx pos show ?thesis unfolding rank by auto
  qed
qed

interpretation wfc: ranked_channels "wf_dep rows cols" "wf_rank rows cols"
  for rows cols :: int
proof unfold_locales
  fix a b assume dep: "wf_dep rows cols a b"
  then obtain t r r' where t: "in_mesh rows cols (fst a)" "in_mesh rows cols t" "fst a \<noteq> t" "fst b \<noteq> t"
    and da: "snd a = pick_dirn r (west_first_avail (t smod cols - fst a smod cols) (t sdiv cols - fst a sdiv cols))"
    and nb: "fst b = hop cols (fst a) (snd a)"
    and db: "snd b = pick_dirn r' (west_first_avail (t smod cols - fst b smod cols) (t sdiv cols - fst b sdiv cols))"
    by (auto simp: wf_dep_def)
  have c: "k smod cols = mesh_x cols k \<and> k sdiv cols = mesh_y cols k" if "in_mesh rows cols k" for k
    using in_meshD [OF that] by (simp add: mesh_x_def mesh_y_def)
  have 1: "snd a = wf_dirn r cols (fst a) t" using da c [OF t(1)] c [OF t(2)] by (simp add: wf_dirn_def)
  have m: "in_mesh rows cols (fst b)"
    using productive_hop(1) [OF t(1,2)] wf_dirn_cases [OF t(3)] nb 1 by simp
  have 2: "snd b = wf_dirn r' cols (fst b) t" using db c [OF m] c [OF t(2)] by (simp add: wf_dirn_def)
  from wf_rank_hop [OF t(1-3) _ t(4), of r r'] nb 1 2 show "wf_rank rows cols a < wf_rank rows cols b"
    by (metis prod.collapse)
qed

text \<open>Claim C15. Randomised west-first routing has no cyclic channel dependency either, whatever the random
  draws.\<close>

theorem west_first_deadlock_free: "\<not> (wf_dep rows cols)\<^sup>+\<^sup>+ c c"
  by (rule wfc.no_cycle)

end
