(* ===== verification/Risk_Detection.thy ===== *)
theory Risk_Detection
  imports Routing_Unit
begin

text \<open>
  Detection of suspicious traffic at an input port: the per-output record of recent flows
  (\<open>outportRecord\<close> of \<open>CommonTypes.hh\<close>) and \<open>HistoryRecord\<close> of \<open>InputUnit.hh\<close> with its short-term injection
  history (a window of the last \<open>patternLen\<close> head flits), its long-term history of suspicious flows and the
  tests for the attack variants. \<open>F\<close> is the floating-point arithmetic and \<open>junk\<close> the indeterminate value of a
  local variable that the code reads before writing.
\<close>

section \<open>outportRecord\<close>

record outportRecord =
  or_record :: "(int \<times> int) list list"
  or_numPort :: int

definition eachEn :: nat where
  "eachEn = 8"

definition outportRecord_new :: "nat \<Rightarrow> outportRecord res" where
  "outportRecord_new sz = bindR (assertR (sz > 0)) (\<lambda>_.
     Inr \<lparr>or_record = replicate sz (replicate eachEn (-1, -1)), or_numPort = int sz\<rparr>)"

definition or_update :: "int \<Rightarrow> int \<Rightarrow> int \<Rightarrow> outportRecord \<Rightarrow> outportRecord res" where
  "or_update outport src_rout dest_rout r =
     bindR (at (or_record r) outport) (\<lambda>row.
     bindR (slide (src_rout, dest_rout) row) (\<lambda>row'.
     bindR (put (or_record r) outport row') (\<lambda>rec. Inr (r\<lparr>or_record := rec\<rparr>))))"

text \<open>\<open>findMutual\<close> returns its result and the new value of the reference parameter \<open>conNum\<close>.\<close>

definition findMutual :: "int \<Rightarrow> int \<Rightarrow> int \<Rightarrow> int \<Rightarrow> outportRecord \<Rightarrow> (bool \<times> int) res" where
  "findMutual srcRoute destRoute conNum outport r =
     bindR (at (or_record r) outport) (\<lambda>row.
     bindR (mapR (at row) (map int [0..<eachEn])) (\<lambda>es.
       if \<not> list_ex (\<lambda>e. fst e = srcRoute \<and> snd e = destRoute) es then Inr (False, conNum)
       else
         let conNum' = fold (\<lambda>e n. if fst e \<noteq> -1 then (if fst e = srcRoute \<and> snd e = destRoute then n + 1 else n) else n)
               es conNum in
         Inr (conNum' \<noteq> 0, conNum')))"

section \<open>HistoryRecord\<close>

record patternEntry =
  pe_src :: int
  pe_dst :: int
  pe_inport :: int
  pe_output :: int
  pe_cycleRecieve :: u64
  pe_packet_type :: int

definition patternEntry_new :: patternEntry where
  "patternEntry_new = \<lparr>pe_src = 0, pe_dst = 0, pe_inport = 0, pe_output = 0, pe_cycleRecieve = 0, pe_packet_type = 0\<rparr>"

record LIH_entry =
  lih_dst :: int
  lih_allocate_time :: u64
  lih_update_time :: u64
  lih_sampleAvg :: u64
  lih_packet_type :: int

definition LIH_entry_new :: LIH_entry where
  "LIH_entry_new = \<lparr>lih_dst = 0, lih_allocate_time = 0, lih_update_time = 0, lih_sampleAvg = 0, lih_packet_type = 0\<rparr>"

datatype Variant = Regular | Variant_1 | Variant_2 | Variant_3 | ALL

definition AVG_TH :: int where "AVG_TH = 120"
definition VAR_TH :: int where "VAR_TH = 10"

definition isVariant :: "int \<Rightarrow> Variant \<Rightarrow> bool res" where
  "isVariant a vNow = (if a = 0 then Inr (vNow = Regular) else if a = 7 then Inr True
     else if odd a then Inr (vNow = Variant_1) else if bit a 1 then Inr (vNow = Variant_2)
     else if bit a 2 then Inr (vNow = Variant_3) else Inl No_return)"

record HistoryRecord =
  hr_patternTable :: "patternEntry list"
  hr_patternLen :: nat
  hr_LIH_table :: "LIH_entry list"

definition LIH_length :: nat where
  "LIH_length = 4"

definition HistoryRecord_new :: "nat \<Rightarrow> HistoryRecord" where
  "HistoryRecord_new sz = \<lparr>hr_patternTable = replicate sz patternEntry_new, hr_patternLen = sz,
     hr_LIH_table = replicate LIH_length LIH_entry_new\<rparr>"

definition updateHistory :: "patternEntry \<Rightarrow> HistoryRecord \<Rightarrow> HistoryRecord res" where
  "updateHistory riskEntry h = bindR (slide riskEntry (hr_patternTable h)) (\<lambda>t. Inr (h\<lparr>hr_patternTable := t\<rparr>))"

definition hr_variance :: "'d fp \<Rightarrow> u64 list \<Rightarrow> 'd" where
  "hr_variance F xs = (if length xs \<le> 1 then fp_of_int F 0
     else let n = fp_of_int F (int (length xs));
              avg = fp_div F (fp_sum F (map (fp_of_u64 F) xs)) n;
              dev = map (\<lambda>x. fp_mul F (fp_sub F (fp_of_u64 F x) avg) (fp_sub F (fp_of_u64 F x) avg)) xs in
          fp_sqrt F (fp_div F (fp_sum F dev) n))"

definition hr_fluctuation :: "'d fp \<Rightarrow> u64 list \<Rightarrow> int res" where
  "hr_fluctuation F ts =
     (let avg = fp_div F (fp_sum F (map (fp_of_u64 F) ts)) (fp_of_int F (int (length ts)));
          repo = map (\<lambda>t. fp_to_int F (fp_abs F (fp_sub F (fp_of_u64 F t) avg))) ts in
      if repo = [] then Inl Bad_index else Inr (foldr max repo (hd repo)))"

definition hr_average :: "'d fp \<Rightarrow> u64 list \<Rightarrow> 'd" where
  "hr_average F ts = fp_div F (fp_sum F (map (fp_of_u64 F) (differences ts))) (fp_of_int F (int (length ts) - 1))"

definition entryCmp :: "patternEntry \<Rightarrow> patternEntry \<Rightarrow> bool" where
  "entryCmp a b = (pe_src a = pe_src b \<and> pe_dst a = pe_dst b \<and> pe_output a = pe_output b)"

text \<open>The conversion of a 64-bit value to the \<open>int\<close> parameters of \<open>compareAvg\<close>.\<close>

definition u64_to_int :: "u64 \<Rightarrow> int" where
  "u64_to_int w = sint (ucast w :: 32 word)"

definition compareAvg :: "'d fp \<Rightarrow> int \<Rightarrow> int \<Rightarrow> bool" where
  "compareAvg F avg0 avgRecord =
     (let margin = fp_mul F (fp_of_int F avgRecord) (fp_lit F 1 10) in
      fp_lt F (fp_sub F (fp_of_int F avgRecord) margin) (fp_of_int F avg0) \<and>
      fp_lt F (fp_of_int F avg0) (fp_add F (fp_of_int F avgRecord) margin))"

definition hr_window :: "HistoryRecord \<Rightarrow> patternEntry list res" where
  "hr_window h = mapR (at (hr_patternTable h)) (map int [0..<hr_patternLen h])"

definition matches :: "patternEntry list \<Rightarrow> patternEntry \<Rightarrow> nat" where
  "matches tab e = length (filter (entryCmp e) tab)"

definition riskFind_Gen :: "patternEntry \<Rightarrow> HistoryRecord \<Rightarrow> bool res" where
  "riskFind_Gen riskEntryNow h =
     bindR (hr_window h) (\<lambda>tab.
       if \<exists>e \<in> set tab. pe_cycleRecieve e = 0 then Inr False
       else let dominant = filter (\<lambda>e. 4 * matches tab e \<ge> 3 * hr_patternLen h) tab in
         if dominant = [] then Inr False else Inr (entryCmp riskEntryNow (last dominant)))"

definition lih_touch :: "patternEntry \<Rightarrow> LIH_entry \<Rightarrow> LIH_entry" where
  "lih_touch now e = (if pe_cycleRecieve now - lih_update_time e \<le> 1000
     then e\<lparr>lih_update_time := pe_cycleRecieve now\<rparr>
     else e\<lparr>lih_update_time := pe_cycleRecieve now, lih_allocate_time := pe_cycleRecieve now\<rparr>)"

definition lih_match :: "'d fp \<Rightarrow> int \<Rightarrow> u64 \<Rightarrow> LIH_entry \<Rightarrow> bool" where
  "lih_match F dst Pkt_avg e = (compareAvg F (u64_to_int Pkt_avg) (u64_to_int (lih_sampleAvg e)) \<and> dst = lih_dst e)"

definition updateLIH :: "'d fp \<Rightarrow> patternEntry \<Rightarrow> u64 \<Rightarrow> HistoryRecord \<Rightarrow> HistoryRecord res" where
  "updateLIH F now Pkt_avg h =
     bindR (failIf (length (hr_LIH_table h) < LIH_length) Bad_index) (\<lambda>_.
       let m = lih_match F (pe_dst now) Pkt_avg;
           scanned = take LIH_length (hr_LIH_table h);
           tab = map (\<lambda>e. if m e then lih_touch now e else e) scanned @ drop LIH_length (hr_LIH_table h) in
       if list_ex m scanned then Inr (h\<lparr>hr_LIH_table := tab\<rparr>)
       else bindR (slide \<lparr>lih_dst = pe_dst now, lih_allocate_time = pe_cycleRecieve now,
                     lih_update_time = pe_cycleRecieve now, lih_sampleAvg = Pkt_avg,
                     lih_packet_type = pe_packet_type now\<rparr> tab) (\<lambda>t. Inr (h\<lparr>hr_LIH_table := t\<rparr>)))"

text \<open>The counters of \<open>InputUnitStats\<close> that the detection and the detour update.\<close>

record InputUnitStats =
  detour_counts :: u64
  risk_counts :: u64
  all_counts :: u64
  regular_Var :: u64
  Var_1 :: u64
  Var_2 :: u64
  Var_3 :: u64

definition InputUnitStats_new :: InputUnitStats where
  "InputUnitStats_new = \<lparr>detour_counts = 0, risk_counts = 0, all_counts = 0, regular_Var = 0, Var_1 = 0, Var_2 = 0, Var_3 = 0\<rparr>"

definition bump :: "bool \<Rightarrow> u64 \<Rightarrow> u64" where
  "bump b n = (if b then n + 1 else n)"

text \<open>The tests on the timing of the dominant flow: each enabled variant overwrites \<open>hasRisk\<close> in turn.\<close>

definition timing_tests ::
  "'d fp \<Rightarrow> int \<Rightarrow> u64 list \<Rightarrow> 'd \<Rightarrow> 'd \<Rightarrow> InputUnitStats \<Rightarrow> (bool \<times> InputUnitStats) res" where
  "timing_tests F variant diffs variance avg st =
     bindR (isVariant variant Regular) (\<lambda>vr. bindR (isVariant variant Variant_1) (\<lambda>v1.
     bindR (isVariant variant Variant_2) (\<lambda>v2.
       let small = fp_lt F (fp_abs F avg) (fp_of_int F AVG_TH);
           t0 = (fp_le F variance (fp_of_int F VAR_TH) \<and> small);
           risk0 = (if vr then t0 else False);
           st0 = (if vr then st\<lparr>regular_Var := bump t0 (regular_Var st)\<rparr> else st) in
       bindR (if v1 then hr_fluctuation F diffs else Inr 0) (\<lambda>fluct.
         let t1 = (fp_lt F (fp_of_int F fluct) avg \<and> small);
             risk1 = (if v1 then t1 else risk0);
             st1 = (if v1 then st0\<lparr>Var_1 := bump t1 (Var_1 st0)\<rparr> else st0);
             risk2 = (if v2 then True else risk1);
             st2 = (if v2 then st1\<lparr>Var_2 := Var_2 st1 + 1\<rparr> else st1) in
         Inr (risk2, st2)))))"

definition riskFind ::
  "'d fp \<Rightarrow> 'd \<Rightarrow> patternEntry \<Rightarrow> u64 \<Rightarrow> bool \<Rightarrow> outportRecord \<Rightarrow> int \<Rightarrow> int \<Rightarrow> int \<Rightarrow> InputUnitStats \<Rightarrow> int
     \<Rightarrow> HistoryRecord \<Rightarrow> (bool \<times> u64 \<times> InputUnitStats \<times> HistoryRecord) res" where
  "riskFind F junk riskEntryNow Pkt_avg packetHead outBuf nowRoute destRoute variant st outport h =
     bindR (hr_window h) (\<lambda>tab.
       if \<exists>e \<in> set tab. pe_cycleRecieve e = 0 then Inr (False, Pkt_avg, st, h)
       else
         let dominant = filter (\<lambda>e. 2 * matches tab e > hr_patternLen h) tab;
             fnd = (dominant \<noteq> []);
             riskEntry = (if fnd then last dominant else patternEntry_new);
             same = entryCmp riskEntryNow riskEntry in
         bindR (isVariant variant Variant_3) (\<lambda>v3.
           if (\<not> fnd \<and> \<not> v3) \<or> (\<not> same \<and> \<not> v3) then Inr (False, Pkt_avg, st, h)
           else
             let timePattern = map pe_cycleRecieve (filter (\<lambda>e. entryCmp e riskEntry) tab);
                 diffs = differences timePattern;
                 avg = (if fnd \<and> same then hr_average F timePattern else junk) in
             bindR (if fnd \<and> same then timing_tests F variant diffs (hr_variance F diffs) avg st
                    else Inr (False, st)) (\<lambda>(risk, st1).
             bindR (if v3 then bindR (findMutual nowRoute destRoute 0 outport outBuf) (\<lambda>(_, num).
                        if 2 * num \<ge> int eachEn then Inr (True, st1\<lparr>Var_3 := Var_3 st1 + 1\<rparr>) else Inr (risk, st1))
                    else Inr (risk, st1)) (\<lambda>(risk', st2).
               if risk' then
                 let Pkt_avg' = fp_to_u64 F avg in
                 bindR (if packetHead \<and> fnd \<and> same then updateLIH F riskEntryNow Pkt_avg' h else Inr h) (\<lambda>h'.
                   Inr (True, Pkt_avg', st2, h'))
               else Inr (False, Pkt_avg, st2, h)))))"

definition non_linear_judge :: "u64 \<Rightarrow> int" where
  "non_linear_judge existing = (if existing < 5000 then 4 else if existing \<ge> 5000 then 4 else 0)"

definition getDelayBounds :: "'d fp \<Rightarrow> int \<Rightarrow> bool \<Rightarrow> u64 list" where
  "getDelayBounds F sampleC hasMutual =
     (if \<not> hasMutual then [of_int sampleC, 0]
      else [fp_to_u64 F (fp_mul F (fp_of_int F sampleC) (fp_lit F 3 2)), 0])"

fun risk_scan :: "'d fp \<Rightarrow> int \<Rightarrow> u64 \<Rightarrow> int \<Rightarrow> u64 \<Rightarrow> LIH_entry list \<Rightarrow> int option" where
  "risk_scan F dst pkg_avg loose_mode nowTime [] = None"
| "risk_scan F dst pkg_avg loose_mode nowTime (e # es) =
     (let match = (if loose_mode = 0 then lih_match F dst pkg_avg e else if loose_mode = 1 then dst = lih_dst e else False) in
      if match then Some (non_linear_judge (if loose_mode = 0 then lih_update_time e - lih_allocate_time e
                                            else nowTime - lih_allocate_time e))
      else risk_scan F dst pkg_avg loose_mode nowTime es)"

definition getRiskLevel :: "'d fp \<Rightarrow> int \<Rightarrow> u64 \<Rightarrow> int \<Rightarrow> u64 \<Rightarrow> HistoryRecord \<Rightarrow> int res" where
  "getRiskLevel F dst pkg_avg loose_mode nowTime h =
     bindR (failIf (length (hr_LIH_table h) < LIH_length) Bad_index) (\<lambda>_.
       case risk_scan F dst pkg_avg loose_mode nowTime (take LIH_length (hr_LIH_table h)) of
         Some l \<Rightarrow> Inr l
       | None \<Rightarrow> bindR (assertR (loose_mode \<noteq> 0)) (\<lambda>_. Inr 0))"

section \<open>Windows keep their length\<close>

definition or_ok :: "outportRecord \<Rightarrow> bool" where
  "or_ok r \<longleftrightarrow> or_numPort r = int (length (or_record r)) \<and> (\<forall>row \<in> set (or_record r). length row = eachEn)"

definition hr_ok :: "HistoryRecord \<Rightarrow> bool" where
  "hr_ok h \<longleftrightarrow> length (hr_patternTable h) = hr_patternLen h \<and> length (hr_LIH_table h) = LIH_length"

text \<open>The contract of a fixed-size window: an update never fails, drops the oldest element, appends the new one
  and keeps the size.\<close>

locale sliding_window =
  fixes window :: "'s \<Rightarrow> 'x list"
    and push :: "'x \<Rightarrow> 's \<Rightarrow> 's res"
    and invar :: "'s \<Rightarrow> bool"
  assumes nonempty: "invar s \<Longrightarrow> window s \<noteq> []"
    and push_law: "invar s \<Longrightarrow> \<exists>s'. push x s = Inr s' \<and> invar s' \<and> window s' = tl (window s) @ [x]"
begin

lemma push_length: "invar s \<Longrightarrow> push x s = Inr s' \<Longrightarrow> length (window s') = length (window s)"
  using push_law [of s x] nonempty [of s] by (cases "window s") auto

lemma push_many:
  "invar s \<Longrightarrow> \<exists>s'. loopR push xs s = Inr s' \<and> invar s' \<and>
     window s' = drop (length xs) (window s @ xs) \<and> length (window s') = length (window s)"
proof (induction xs arbitrary: s)
  case (Cons x xs)
  from push_law [OF Cons.prems, of x] obtain s1 where
    s1: "push x s = Inr s1" "invar s1" "window s1 = tl (window s) @ [x]" by blast
  from Cons.IH [OF s1(2)] obtain s2 where
    s2: "loopR push xs s1 = Inr s2" "invar s2" "window s2 = drop (length xs) (window s1 @ xs)"
      "length (window s2) = length (window s1)" by blast
  have "drop (length xs) (window s1 @ xs) = drop (length (x # xs)) (window s @ x # xs)"
    using nonempty [OF Cons.prems] s1(3) by (cases "window s") auto
  moreover have "length (window s1) = length (window s)" using push_length [OF Cons.prems s1(1)] .
  ultimately show ?case using s1(1) s2 by auto
qed simp

text \<open>After as many updates as the window is long, nothing of the old contents is left.\<close>

lemma push_forgets:
  assumes "invar s" and "length (window s) \<le> length xs"
  shows "\<exists>s'. loopR push xs s = Inr s' \<and> invar s' \<and> window s' = drop (length xs - length (window s)) xs"
  using push_many [OF assms(1), of xs] assms(2) by auto

end

interpretation sih: sliding_window hr_patternTable updateHistory "\<lambda>h. hr_ok h \<and> 0 < hr_patternLen h"
proof unfold_locales
  fix h x
  assume h: "hr_ok h \<and> 0 < hr_patternLen h"
  then show ne: "hr_patternTable h \<noteq> []" by (auto simp: hr_ok_def)
  from h ne show "\<exists>h'. updateHistory x h = Inr h' \<and> (hr_ok h' \<and> 0 < hr_patternLen h')
      \<and> hr_patternTable h' = tl (hr_patternTable h) @ [x]"
    by (auto simp: updateHistory_def slide_def hr_ok_def)
qed

text \<open>A row of the output record, for a fixed output port.\<close>

interpretation orow: sliding_window "\<lambda>r. or_record r ! k" "\<lambda>x. or_update (int k) (fst x) (snd x)"
  "\<lambda>r. or_ok r \<and> k < length (or_record r)" for k
proof unfold_locales
  fix r :: outportRecord and x :: "int \<times> int"
  assume r: "or_ok r \<and> k < length (or_record r)"
  then have len: "length (or_record r ! k) = eachEn" by (simp add: or_ok_def)
  then show ne: "or_record r ! k \<noteq> []" by (auto simp: eachEn_def)
  let ?row = "tl (or_record r ! k) @ [x]"
  have "length row = eachEn" if "row \<in> set ((or_record r)[k := ?row])" for row
    using that r len set_update_subset_insert [of "or_record r" k ?row] by (fastforce simp: or_ok_def eachEn_def)
  with r ne show "\<exists>r'. or_update (int k) (fst x) (snd x) r = Inr r' \<and> (or_ok r' \<and> k < length (or_record r'))
      \<and> or_record r' ! k = ?row"
    by (auto simp: or_update_def slide_def or_ok_def)
qed

lemma findMutual_counts:
  assumes "or_ok r" and "0 \<le> outport" and "outport < int (length (or_record r))" and "src \<noteq> -1"
  shows "findMutual src dst 0 outport r
    = Inr (0 < count_list (or_record r ! nat outport) (src, dst), int (count_list (or_record r ! nat outport) (src, dst)))"
proof -
  let ?row = "or_record r ! nat outport"
  have len: "length ?row = eachEn" using assms(1-3) by (simp add: or_ok_def)
  have "mapR (at ?row) (map int [0..<eachEn]) = Inr (map (\<lambda>i. ?row ! nat i) (map int [0..<eachEn]))"
    by (rule mapR_total) (auto simp: len)
  also have "map (\<lambda>i. ?row ! nat i) (map int [0..<eachEn]) = ?row"
    by (rule nth_equalityI) (simp_all add: len)
  finally have es: "mapR (at ?row) (map int [0..<eachEn]) = Inr ?row" .
  have fold: "fold (\<lambda>e n. if fst e \<noteq> -1 then (if fst e = src \<and> snd e = dst then n + 1 else n) else n) row m
      = m + int (count_list row (src, dst))" for row m
    using assms(4) by (induction row arbitrary: m) auto
  have "list_ex (\<lambda>e. fst e = src \<and> snd e = dst) ?row \<longleftrightarrow> 0 < count_list ?row (src, dst)"
    using count_list_0_iff [of ?row "(src, dst)"] by (force simp: list_ex_iff)
  then show ?thesis
    using assms(2,3) es by (auto simp: findMutual_def at_ok fold Let_def count_list_0_iff)
qed

section \<open>A flow with a majority is unique\<close>

lemma entryCmp_equiv: "entryCmp a a" "entryCmp a b \<longleftrightarrow> entryCmp b a" "entryCmp a b \<Longrightarrow> entryCmp b c \<Longrightarrow> entryCmp a c"
  by (auto simp: entryCmp_def)

lemma matches_cong: "entryCmp a b \<Longrightarrow> matches tab a = matches tab b"
  by (simp add: matches_def entryCmp_def [abs_def])

lemma length_filter_disjoint:
  "(\<And>x. x \<in> set xs \<Longrightarrow> \<not> (P x \<and> Q x)) \<Longrightarrow> length (filter P xs) + length (filter Q xs) \<le> length xs"
  by (induction xs) force+

lemma majority_unique:
  assumes "2 * matches tab a > length tab" and "2 * matches tab b > length tab"
  shows "entryCmp a b"
proof (rule ccontr)
  assume "\<not> entryCmp a b"
  then have "\<not> (entryCmp a x \<and> entryCmp b x)" for x by (auto simp: entryCmp_def)
  then have "matches tab a + matches tab b \<le> length tab"
    unfolding matches_def by (intro length_filter_disjoint) auto
  with assms show False by simp
qed

lemma dominant_same_iff:
  fixes tab e
  defines "dm \<equiv> filter (\<lambda>e. 2 * matches tab e > length tab) tab"
  shows "(dm \<noteq> [] \<and> entryCmp e (last dm)) \<longleftrightarrow> 2 * matches tab e > length tab"
proof
  assume d: "dm \<noteq> [] \<and> entryCmp e (last dm)"
  then have "last dm \<in> set dm" by simp
  then have "2 * matches tab (last dm) > length tab" by (simp add: dm_def)
  with d matches_cong [of e "last dm" tab] show "2 * matches tab e > length tab" by simp
next
  assume m: "2 * matches tab e > length tab"
  then obtain x where x: "x \<in> set tab" "entryCmp e x"
    unfolding matches_def by (metis filter_False list.size(3) mult_0_right not_less_zero)
  then have "x \<in> set dm" using m matches_cong [OF x(2), of tab] by (simp add: dm_def)
  then have ne: "dm \<noteq> []" by auto
  then have "last dm \<in> set dm" by simp
  then have "2 * matches tab (last dm) > length tab" by (simp add: dm_def)
  from majority_unique [OF m this] ne show "dm \<noteq> [] \<and> entryCmp e (last dm)" by simp
qed

lemma hr_window_eq: "hr_ok h \<Longrightarrow> hr_window h = Inr (hr_patternTable h)"
proof -
  assume h: "hr_ok h"
  have "hr_window h = Inr (map (\<lambda>i. hr_patternTable h ! nat i) (map int [0..<hr_patternLen h]))"
    unfolding hr_window_def using h by (intro mapR_total) (auto simp: hr_ok_def)
  also have "map (\<lambda>i. hr_patternTable h ! nat i) (map int [0..<hr_patternLen h]) = hr_patternTable h"
    using h by (intro nth_equalityI) (auto simp: hr_ok_def)
  finally show ?thesis .
qed

lemma updateLIH_ok: "hr_ok h \<Longrightarrow> \<exists>h'. updateLIH F e a h = Inr h' \<and> hr_ok h' \<and> hr_patternTable h' = hr_patternTable h"
  by (auto simp: updateLIH_def hr_ok_def LIH_length_def Let_def slide_def)

section \<open>What the detection decides\<close>

definition window_full :: "HistoryRecord \<Rightarrow> bool" where
  "window_full h \<longleftrightarrow> (\<forall>e \<in> set (hr_patternTable h). pe_cycleRecieve e \<noteq> 0)"

definition majority_flow :: "patternEntry \<Rightarrow> HistoryRecord \<Rightarrow> bool" where
  "majority_flow e h \<longleftrightarrow> 2 * matches (hr_patternTable h) e > hr_patternLen h"

text \<open>The arrival times of the entries of one flow, in the order of the window.\<close>

definition flow_times :: "patternEntry \<Rightarrow> HistoryRecord \<Rightarrow> u64 list" where
  "flow_times e h = map pe_cycleRecieve (filter (\<lambda>x. entryCmp x e) (hr_patternTable h))"

lemma flow_times_length: "length (flow_times e h) = matches (hr_patternTable h) e"
  by (auto simp: flow_times_def matches_def entryCmp_def eq_commute intro!: arg_cong [where f = length] filter_cong)

lemma flow_times_cong: "entryCmp a b \<Longrightarrow> flow_times a h = flow_times b h"
  by (auto simp: flow_times_def entryCmp_def)

lemma isVariant_ALL: "isVariant 7 v = Inr True"
  by (simp add: isVariant_def)

lemma isVariant_Regular: "isVariant 0 v = Inr (v = Regular)"
  by (simp add: isVariant_def)

lemma length_differences: "length (differences ts) = length ts - 1"
  by (simp add: differences_def)

lemma timing_tests_ALL:
  assumes "diffs \<noteq> []"
  shows "\<exists>st'. timing_tests F 7 diffs v a st = Inr (True, st')"
  using assms by (simp add: timing_tests_def isVariant_ALL hr_fluctuation_def Let_def)

lemma timing_tests_Regular:
  "\<exists>st'. timing_tests F 0 diffs v a st
     = Inr (fp_le F v (fp_of_int F VAR_TH) \<and> fp_lt F (fp_abs F a) (fp_of_int F AVG_TH), st')"
  by (simp add: timing_tests_def isVariant_Regular Let_def)

text \<open>\<open>riskFind\<close> on a full window, with the search for the dominant entry replaced by the majority of the current flow.\<close>

definition risk_decide ::
  "'d fp \<Rightarrow> 'd \<Rightarrow> patternEntry \<Rightarrow> u64 \<Rightarrow> bool \<Rightarrow> outportRecord \<Rightarrow> int \<Rightarrow> int \<Rightarrow> int \<Rightarrow> InputUnitStats \<Rightarrow> int
     \<Rightarrow> HistoryRecord \<Rightarrow> (bool \<times> u64 \<times> InputUnitStats \<times> HistoryRecord) res" where
  "risk_decide F junk e p packetHead ob nowR destR variant st outport h =
     (let m = majority_flow e h; ts = flow_times e h; avg = (if m then hr_average F ts else junk) in
      bindR (isVariant variant Variant_3) (\<lambda>v3.
      if \<not> m \<and> \<not> v3 then Inr (False, p, st, h)
      else bindR (if m then timing_tests F variant (differences ts) (hr_variance F (differences ts)) avg st
                  else Inr (False, st)) (\<lambda>(risk, st1).
           bindR (if v3 then bindR (findMutual nowR destR 0 outport ob) (\<lambda>(_, num).
                      if 2 * num \<ge> int eachEn then Inr (True, st1\<lparr>Var_3 := Var_3 st1 + 1\<rparr>) else Inr (risk, st1))
                  else Inr (risk, st1)) (\<lambda>(risk', st2).
             if risk' then bindR (if packetHead \<and> m then updateLIH F e (fp_to_u64 F avg) h else Inr h)
                 (\<lambda>h'. Inr (True, fp_to_u64 F avg, st2, h'))
             else Inr (False, p, st2, h)))))"

lemma riskFind_decides:
  assumes h: "hr_ok h"
  shows "riskFind F junk e p packetHead ob nowR destR variant st outport h
    = (if window_full h then risk_decide F junk e p packetHead ob nowR destR variant st outport h else Inr (False, p, st, h))"
proof -
  let ?tab = "hr_patternTable h"
  let ?dm = "filter (\<lambda>e. 2 * matches ?tab e > hr_patternLen h) ?tab"
  have len: "length ?tab = hr_patternLen h" using h by (simp add: hr_ok_def)
  have m: "(?dm \<noteq> [] \<and> entryCmp e (last ?dm)) = majority_flow e h"
    using dominant_same_iff [of ?tab e] by (simp add: len majority_flow_def)
  define r where "r = (if ?dm \<noteq> [] then last ?dm else patternEntry_new)"
  have conj: "(?dm \<noteq> [] \<and> entryCmp e r) = majority_flow e h"
    using m by (auto simp: r_def)
  then have guard: "((\<not> ?dm \<noteq> []) \<and> \<not> v) \<or> (\<not> entryCmp e r \<and> \<not> v) \<longleftrightarrow> \<not> majority_flow e h \<and> \<not> v" for v
    by auto
  have full: "(\<exists>e \<in> set ?tab. pe_cycleRecieve e = 0) = (\<not> window_full h)" by (auto simp: window_full_def)
  note unfolded = riskFind_def risk_decide_def hr_window_eq [OF h] bindR.simps Let_def full r_def [symmetric] guard conj
  show ?thesis
  proof (cases "majority_flow e h")
    case True
    then have "entryCmp e r" using conj by simp
    from flow_times_cong [OF this, of h]
    have ts: "map pe_cycleRecieve (filter (\<lambda>x. entryCmp x r) ?tab) = flow_times e h"
      by (simp add: flow_times_def)
    show ?thesis unfolding unfolded ts by simp
  next
    case False
    show ?thesis unfolding unfolded using False by simp
  qed
qed

lemma riskFind_all_variants:
  assumes "hr_ok h" and "2 \<le> hr_patternLen h" and "or_ok ob" and "nowR \<noteq> -1"
    and "0 \<le> outport" and "outport < int (length (or_record ob))"
  shows "\<exists>avg st' h'. riskFind F junk e p packetHead ob nowR destR 7 st outport h
    = Inr (window_full h \<and> (majority_flow e h \<or> eachEn \<le> 2 * count_list (or_record ob ! nat outport) (nowR, destR)),
           avg, st', h') \<and> hr_ok h' \<and> hr_patternTable h' = hr_patternTable h"
proof (cases "window_full h")
  case True
  note mut = findMutual_counts [OF assms(3,5,6,4), of destR]
  have lih: "\<exists>h'. (if b then updateLIH F e a h else Inr h) = Inr h' \<and> hr_ok h' \<and> hr_patternTable h' = hr_patternTable h" for a b
    using updateLIH_ok [OF assms(1)] assms(1) by auto
  show ?thesis
  proof (cases "majority_flow e h")
    case m: True
    then have "differences (flow_times e h) \<noteq> []"
      using assms(2) length_differences [of "flow_times e h"] flow_times_length [of e h]
      by (auto simp: majority_flow_def)
    from timing_tests_ALL [OF this, of F "hr_variance F (differences (flow_times e h))" "hr_average F (flow_times e h)" st]
    obtain st1 where
      st1: "timing_tests F 7 (differences (flow_times e h)) (hr_variance F (differences (flow_times e h)))
        (hr_average F (flow_times e h)) st = Inr (True, st1)" by blast
    with True m mut lih [of packetHead "fp_to_u64 F (hr_average F (flow_times e h))"] show ?thesis
      by (auto simp: riskFind_decides [OF assms(1)] risk_decide_def isVariant_ALL Let_def split: if_splits)
  next
    case False
    with True mut assms(1) show ?thesis
      by (auto simp: riskFind_decides [OF assms(1)] risk_decide_def isVariant_ALL Let_def)
  qed
next
  case False
  with assms(1) show ?thesis by (simp add: riskFind_decides)
qed

text \<open>The detection leaves the packet counters alone.\<close>

definition same_counts :: "InputUnitStats \<Rightarrow> InputUnitStats \<Rightarrow> bool" where
  "same_counts a b \<longleftrightarrow> all_counts b = all_counts a \<and> risk_counts b = risk_counts a \<and> detour_counts b = detour_counts a"

lemma timing_tests_counts: "timing_tests F variant diffs v a st = Inr (r, st') \<Longrightarrow> same_counts st st'"
  by (auto simp: timing_tests_def same_counts_def Let_def bindR_Inr_iff split: if_splits)

lemma riskFind_counts:
  assumes "hr_ok h" and "riskFind F junk e p packetHead ob nowR destR variant st outport h = Inr (r, avg, st', h')"
  shows "same_counts st st'"
proof (cases "window_full h")
  case True
  with assms obtain v3 risk st1 risk' st2 where
    1: "(if majority_flow e h then timing_tests F variant (differences (flow_times e h))
           (hr_variance F (differences (flow_times e h))) (hr_average F (flow_times e h)) st
         else Inr (False, st)) = Inr (risk, st1) \<or> st1 = st"
    and 2: "st2 = st1 \<or> st2 = st1\<lparr>Var_3 := Var_3 st1 + 1\<rparr>" "st' = st2"
    by (auto simp: riskFind_decides risk_decide_def Let_def bindR_Inr_iff split: if_splits prod.splits)
  from 1 have "same_counts st st1"
    by (auto simp: same_counts_def split: if_splits dest!: timing_tests_counts)
  with 2 show ?thesis by (auto simp: same_counts_def)
next
  case False
  with assms show ?thesis by (simp add: riskFind_decides same_counts_def)
qed

text \<open>Claim C4. With every attack variant enabled, the detector never fails on a well-formed state, keeps the history
  well-formed, and its verdict does not depend on the timing statistics (the floating-point arithmetic \<open>F\<close> and the
  indeterminate value \<open>junk\<close> are arbitrary): it reports a risk iff the window of recent head flits is full and either
  the flow of the current flit holds a strict majority of it, or at least half of the output port's record
  holds the pair of source and destination routers.\<close>

theorem risk_verdict_all_variants:
  assumes "hr_ok h" and "2 \<le> hr_patternLen h" and "or_ok ob" and "nowR \<noteq> -1"
    and "0 \<le> outport" and "outport < int (length (or_record ob))"
  shows "\<exists>avg st' h'. riskFind F junk e p packetHead ob nowR destR 7 st outport h
    = Inr (window_full h \<and> (majority_flow e h \<or> eachEn \<le> 2 * count_list (or_record ob ! nat outport) (nowR, destR)),
           avg, st', h') \<and> hr_ok h' \<and> hr_patternTable h' = hr_patternTable h"
  using assms by (rule riskFind_all_variants)

definition demo_entry :: "u64 \<Rightarrow> patternEntry" where
  "demo_entry t = \<lparr>pe_src = 1, pe_dst = 2, pe_inport = 0, pe_output = 3, pe_cycleRecieve = t, pe_packet_type = 0\<rparr>"

definition demo_history :: HistoryRecord where
  "demo_history = \<lparr>hr_patternTable = [demo_entry 5, demo_entry 25, demo_entry 45], hr_patternLen = 3,
     hr_LIH_table = replicate 4 LIH_entry_new\<rparr>"

definition demo_outputs :: outportRecord where
  "demo_outputs = \<lparr>or_record = [replicate 8 (-1, -1)], or_numPort = 1\<rparr>"

lemma demo_history_ok: "hr_ok demo_history" "window_full demo_history" "majority_flow (demo_entry 60) demo_history"
  by (simp_all add: hr_ok_def demo_history_def LIH_length_def window_full_def majority_flow_def matches_def entryCmp_def
      demo_entry_def)

theorem risk_verdict_all_variants_witness:
  "hr_ok demo_history \<and> or_ok demo_outputs \<and>
   (\<exists>avg st' h'. riskFind int_fp 0 (demo_entry 60) 0 True demo_outputs 4 9 7 InputUnitStats_new 0 demo_history
      = Inr (True, avg, st', h'))"
proof -
  have "or_ok demo_outputs" "length (or_record demo_outputs) = 1"
    by (simp_all add: or_ok_def demo_outputs_def eachEn_def)
  moreover have "hr_patternLen demo_history = 3" by (simp add: demo_history_def)
  ultimately show ?thesis
    using risk_verdict_all_variants [of demo_history demo_outputs 4 0 int_fp 0 "demo_entry 60" 0 True 9 InputUnitStats_new]
      demo_history_ok by auto
qed

text \<open>Claim C33. With only the regular variant enabled, a risk is reported iff the window is full, the flow of the
  current flit holds a strict majority of it, and the arrival times of that flow in the window are regular: the
  deviation of their gaps is at most \<open>VAR_TH\<close> and the mean gap is below \<open>AVG_TH\<close> in absolute value.  Without a
  risk the long-term history is left alone.\<close>

theorem risk_verdict_regular:
  assumes "hr_ok h"
  shows "\<exists>avg st' h'. riskFind F junk e p packetHead ob nowR destR 0 st outport h
    = Inr (window_full h \<and> majority_flow e h
             \<and> fp_le F (hr_variance F (differences (flow_times e h))) (fp_of_int F VAR_TH)
             \<and> fp_lt F (fp_abs F (hr_average F (flow_times e h))) (fp_of_int F AVG_TH),
           avg, st', h') \<and> hr_ok h'
      \<and> (h' \<noteq> h \<longrightarrow> window_full h \<and> majority_flow e h \<and> packetHead)"
proof (cases "window_full h \<and> majority_flow e h")
  case True
  from timing_tests_Regular [of F "differences (flow_times e h)" "hr_variance F (differences (flow_times e h))"
      "hr_average F (flow_times e h)" st]
  obtain st1 where st1: "timing_tests F 0 (differences (flow_times e h)) (hr_variance F (differences (flow_times e h)))
      (hr_average F (flow_times e h)) st
    = Inr (fp_le F (hr_variance F (differences (flow_times e h))) (fp_of_int F VAR_TH)
        \<and> fp_lt F (fp_abs F (hr_average F (flow_times e h))) (fp_of_int F AVG_TH), st1)" by blast
  from updateLIH_ok [OF assms, of F e "fp_to_u64 F (hr_average F (flow_times e h))"] obtain h1 where
    "updateLIH F e (fp_to_u64 F (hr_average F (flow_times e h))) h = Inr h1" "hr_ok h1" by blast
  with True st1 assms show ?thesis
    by (auto simp: riskFind_decides [OF assms] risk_decide_def isVariant_Regular Let_def)
next
  case False
  with assms show ?thesis
    by (auto simp: riskFind_decides [OF assms] risk_decide_def isVariant_Regular Let_def)
qed

theorem risk_verdict_regular_witness:
  "hr_ok demo_history \<and>
   (\<exists>avg st' h'. riskFind int_fp 0 (demo_entry 60) 0 True demo_outputs 4 9 0 InputUnitStats_new 0 demo_history
      = Inr (True, avg, st', h'))"
proof -
  have ts: "flow_times (demo_entry 60) demo_history = [5, 25, 45]"
    by (simp add: flow_times_def demo_history_def entryCmp_def demo_entry_def)
  have "differences [5, 25, 45] = [20, 20]" by (simp add: differences_def)
  then have "hr_variance int_fp (differences [5, 25, 45]) \<le> VAR_TH" "\<bar>hr_average int_fp [5, 25, 45]\<bar> < AVG_TH"
    by (simp_all add: hr_variance_def hr_average_def int_fp_def fp_sum_def VAR_TH_def AVG_TH_def)
  then show ?thesis
    using risk_verdict_regular [of demo_history int_fp 0 "demo_entry 60" 0 True demo_outputs 4 9 InputUnitStats_new 0]
      demo_history_ok ts by (auto simp: int_fp_def)
qed

lemma risk_scan_level:
  "risk_scan F d a mode t es =
     (if \<exists>x \<in> set es. if mode = 0 then lih_match F d a x else mode = 1 \<and> d = lih_dst x then Some 4 else None)"
  by (induction es) (auto simp: Let_def non_linear_judge_def)

lemma getRiskLevel_answers:
  assumes "hr_ok h"
  shows "getRiskLevel F d a mode t h =
    (if mode = 0 then if \<exists>x \<in> set (hr_LIH_table h). lih_match F d a x then Inr 4 else Inl Assert_fail
     else Inr (if mode = 1 \<and> d \<in> lih_dst ` set (hr_LIH_table h) then 4 else 0))"
  using assms by (auto simp: getRiskLevel_def hr_ok_def risk_scan_level LIH_length_def)

lemma lih_touch_dst [simp]: "lih_dst (lih_touch now e) = lih_dst e"
  by (simp add: lih_touch_def)

lemma updateLIH_records:
  assumes "hr_ok h" and "updateLIH F e a h = Inr h'"
  shows "pe_dst e \<in> lih_dst ` set (hr_LIH_table h')"
proof (cases "list_ex (lih_match F (pe_dst e) a) (hr_LIH_table h)")
  case True
  then obtain x where x: "x \<in> set (hr_LIH_table h)" "lih_match F (pe_dst e) a x" by (auto simp: list_ex_iff)
  then have "lih_touch e x \<in> set (hr_LIH_table h')" "lih_dst x = pe_dst e"
    using assms True by (auto simp: updateLIH_def hr_ok_def Let_def lih_match_def)
  then show ?thesis by (metis image_eqI lih_touch_dst)
next
  case False
  then show ?thesis using assms by (auto simp: updateLIH_def hr_ok_def Let_def bindR_Inr_iff slide_Inr_iff)
qed

text \<open>A recorded flow is found again under the average it was recorded with, by the entry it updated or by its own.\<close>

lemma updateLIH_found:
  assumes "hr_ok h" and "updateLIH F e a h = Inr h'"
  shows "(\<exists>x \<in> set (hr_LIH_table h'). lih_match F (pe_dst e) a x)
    \<longleftrightarrow> (\<exists>x \<in> set (hr_LIH_table h). lih_match F (pe_dst e) a x) \<or> compareAvg F (u64_to_int a) (u64_to_int a)"
proof (cases "list_ex (lih_match F (pe_dst e) a) (hr_LIH_table h)")
  case True
  then obtain x where x: "x \<in> set (hr_LIH_table h)" "lih_match F (pe_dst e) a x" by (auto simp: list_ex_iff)
  then have "lih_touch e x \<in> set (hr_LIH_table h')"
    using assms True by (auto simp: updateLIH_def hr_ok_def Let_def)
  moreover have "lih_match F (pe_dst e) a (lih_touch e x)" using x(2) by (simp add: lih_match_def lih_touch_def)
  ultimately show ?thesis using x by blast
next
  case False
  then have none: "\<forall>x \<in> set (hr_LIH_table h). \<not> lih_match F (pe_dst e) a x" by (simp add: list_ex_iff)
  let ?new = "\<lparr>lih_dst = pe_dst e, lih_allocate_time = pe_cycleRecieve e, lih_update_time = pe_cycleRecieve e, lih_sampleAvg = a,
     lih_packet_type = pe_packet_type e\<rparr>"
  have m: "map (\<lambda>x. if lih_match F (pe_dst e) a x then lih_touch e x else x) (hr_LIH_table h) = hr_LIH_table h"
    using none by (simp add: map_idI)
  have "hr_LIH_table h' = tl (hr_LIH_table h) @ [?new]"
    using assms False m by (auto simp: updateLIH_def hr_ok_def Let_def bindR_Inr_iff slide_Inr_iff)
  moreover have "set (tl (hr_LIH_table h)) \<subseteq> set (hr_LIH_table h)" by (cases "hr_LIH_table h") auto
  ultimately have "(\<exists>x \<in> set (hr_LIH_table h'). lih_match F (pe_dst e) a x) \<longleftrightarrow> lih_match F (pe_dst e) a ?new"
    using none by auto
  also have "\<dots> \<longleftrightarrow> compareAvg F (u64_to_int a) (u64_to_int a)" by (simp add: lih_match_def)
  finally show ?thesis using none by auto
qed

text \<open>Claim C35. Recording a flow in the long-term history never fails and keeps the table well formed. Afterwards
  \<open>getRiskLevel\<close> has three kinds of answers, whatever time is asked for. In its default mode, which compares destination and
  average, it answers the maximal deflection level 4 for the destination and average of an entry and fails its assertion
  for anything else; in loose mode 1, which compares the destination only, it answers 4 or 0 according to whether the destination is in the table;
  in any other mode it answers 0. For the flow just recorded, loose mode 1 therefore answers 4 whatever average is asked
  for, and the default mode, asked with the recorded average, answers 4 if an earlier entry was updated or the average lies within the tolerance of itself,
  and fails its assertion otherwise (as it does for an average of 0 in exact arithmetic, the tolerance being strict and relative).\<close>

theorem recorded_flow_max_level:
  assumes "hr_ok h"
  shows "\<exists>h'. updateLIH F e avg h = Inr h' \<and> hr_ok h'
    \<and> (\<forall>d a mode t. getRiskLevel F d a mode t h' =
        (if mode = 0 then if \<exists>x \<in> set (hr_LIH_table h'). lih_match F d a x then Inr 4 else Inl Assert_fail
         else Inr (if mode = 1 \<and> d \<in> lih_dst ` set (hr_LIH_table h') then 4 else 0)))
    \<and> (\<forall>a t. getRiskLevel F (pe_dst e) a 1 t h' = Inr 4)
    \<and> (\<forall>t. getRiskLevel F (pe_dst e) avg 0 t h' =
        (if (\<exists>x \<in> set (hr_LIH_table h). lih_match F (pe_dst e) avg x) \<or> compareAvg F (u64_to_int avg) (u64_to_int avg)
         then Inr 4 else Inl Assert_fail))"
proof -
  from updateLIH_ok [OF assms] obtain h' where h': "updateLIH F e avg h = Inr h'" "hr_ok h'" by blast
  note answers = getRiskLevel_answers [OF h'(2)]
  have "getRiskLevel F (pe_dst e) a 1 t h' = Inr 4" for a t
    unfolding answers using updateLIH_records [OF assms h'(1)] by simp
  moreover have "getRiskLevel F (pe_dst e) avg 0 t h' =
      (if (\<exists>x \<in> set (hr_LIH_table h). lih_match F (pe_dst e) avg x) \<or> compareAvg F (u64_to_int avg) (u64_to_int avg)
       then Inr 4 else Inl Assert_fail)" for t
    unfolding answers updateLIH_found [OF assms h'(1)] by simp
  ultimately show ?thesis using h' answers by (intro exI [of _ h'] conjI allI)
qed

text \<open>An arithmetic with three decimals, for evaluating the tolerance.\<close>

definition milli_fp :: "int fp" where
  "milli_fp = \<lparr>fp_of_u64 = (\<lambda>w. 1000 * uint w), fp_of_int = (*) 1000, fp_add = (+), fp_sub = (-), fp_mul = (\<lambda>x y. x * y div 1000),
     fp_div = (\<lambda>x y. 1000 * x div y), fp_sqrt = (\<lambda>x. x), fp_abs = abs, fp_le = (\<le>), fp_lt = (<), fp_to_int = (\<lambda>x. x div 1000),
     fp_to_u64 = (\<lambda>x. of_int (x div 1000)), fp_lit = (\<lambda>a b. 1000 * a div b)\<rparr>"

theorem recorded_flow_max_level_witness:
  "\<exists>h'. updateLIH milli_fp (demo_entry 60) 20 demo_history = Inr h'
     \<and> getRiskLevel milli_fp (pe_dst (demo_entry 60)) 20 1 70 h' = Inr 4
     \<and> getRiskLevel milli_fp (pe_dst (demo_entry 60)) 20 0 70 h' = Inr 4"
proof -
  have "u64_to_int 20 = 20" by (simp add: u64_to_int_def)
  then have "compareAvg milli_fp (u64_to_int 20) (u64_to_int 20)"
    by (simp add: compareAvg_def milli_fp_def)
  with recorded_flow_max_level [OF demo_history_ok(1), of milli_fp "demo_entry 60" 20] show ?thesis by auto
qed

end
