(* ===== verification/Input_Unit.thy ===== *)
theory Input_Unit
  imports Risk_Detection
begin

text \<open>
  \<open>InputUnit\<close>: the input port of a router with its virtual channels, its credit queue and, at the port of the
  local network interface, the detector. \<open>InputUnit.cc\<close> has one \<open>wakeup\<close> per value of the compile-time constant
  \<open>InputStruct\<close>: the plain unit (0), the detecting unit (2, and 5 which stops the simulation at the first
  detection), the unit that detours every packet (3) and the time-division unit (4). Each is a definition
  here; the steps the source repeats in all of them are \<open>receive_flit\<close>. What a unit reads of its router is \<open>in_env\<close>,
  what it shares with the other units of the router is \<open>in_shared\<close>, and the file's global variables of the
  time-division unit are \<open>tdma\<close>. The counters of buffer accesses, which the source keeps in \<open>double\<close>s, are
  natural numbers.
\<close>

section \<open>State\<close>

record InputUnit =
  iu_id :: int
  iu_direction :: PortDirection
  iu_vc_per_vnet :: int
  iu_HR :: HistoryRecord
  iu_creditQueue :: flitBuffer
  iu_virtualChannels :: "VirtualChannel list"
  iu_num_buffer_writes :: "nat list"
  iu_num_buffer_reads :: "nat list"
  iu_round_flit :: int

record in_env =
  ie_route :: route_env
  ie_bit_width :: nat
  ie_pipe_stages :: Cycles
  ie_period :: nat
  ie_no_dest :: NetDest          \<comment> \<open>the destination set of a fresh credit\<close>

record in_shared =
  is_ru :: RoutingUnit
  is_glob :: route_glob
  is_outBuf :: outportRecord
  is_InS :: InputUnitStats

abbreviation ie_now :: "in_env \<Rightarrow> Tick" where
  "ie_now ie \<equiv> re_curTick (ie_route ie)"

definition InputUnit_new :: "int \<Rightarrow> PortDirection \<Rightarrow> nat \<Rightarrow> nat \<Rightarrow> InputUnit res" where
  "InputUnit_new iid direction num_vcs vc_per_vnet =
     bindR (failIf (vc_per_vnet = 0) Div_by_zero) (\<lambda>_.
       Inr \<lparr>iu_id = iid, iu_direction = direction, iu_vc_per_vnet = int vc_per_vnet, iu_HR = HistoryRecord_new 8,
            iu_creditQueue = flitBuffer_new, iu_virtualChannels = replicate num_vcs VirtualChannel_new,
            iu_num_buffer_writes = replicate (num_vcs div vc_per_vnet) 0,
            iu_num_buffer_reads = replicate (num_vcs div vc_per_vnet) 0, iu_round_flit = 0\<rparr>)"

section \<open>Access to the virtual channels\<close>

definition iu_on_vc :: "(VirtualChannel \<Rightarrow> VirtualChannel) \<Rightarrow> int \<Rightarrow> InputUnit \<Rightarrow> InputUnit res" where
  "iu_on_vc f vc iu = bindR (at (iu_virtualChannels iu) vc) (\<lambda>v.
     bindR (put (iu_virtualChannels iu) vc (f v)) (\<lambda>vs. Inr (iu\<lparr>iu_virtualChannels := vs\<rparr>)))"

definition iu_set_vc_idle :: "int \<Rightarrow> Tick \<Rightarrow> InputUnit \<Rightarrow> InputUnit res" where
  "iu_set_vc_idle vc curTime iu = iu_on_vc (vc_set_idle curTime) vc iu"

definition iu_set_vc_active :: "int \<Rightarrow> Tick \<Rightarrow> InputUnit \<Rightarrow> InputUnit res" where
  "iu_set_vc_active vc curTime iu = iu_on_vc (vc_set_active curTime) vc iu"

definition iu_grant_outport :: "int \<Rightarrow> int \<Rightarrow> InputUnit \<Rightarrow> InputUnit res" where
  "iu_grant_outport vc outport iu = iu_on_vc (\<lambda>v. v\<lparr>vc_output_port := outport\<rparr>) vc iu"

definition iu_grant_outvc :: "int \<Rightarrow> int \<Rightarrow> InputUnit \<Rightarrow> InputUnit res" where
  "iu_grant_outvc vc outvc iu = iu_on_vc (\<lambda>v. v\<lparr>vc_output_vc := outvc\<rparr>) vc iu"

definition iu_get_outport :: "int \<Rightarrow> InputUnit \<Rightarrow> int res" where
  "iu_get_outport invc iu = bindR (at (iu_virtualChannels iu) invc) (\<lambda>v. Inr (vc_output_port v))"

definition iu_get_outvc :: "int \<Rightarrow> InputUnit \<Rightarrow> int res" where
  "iu_get_outvc invc iu = bindR (at (iu_virtualChannels iu) invc) (\<lambda>v. Inr (vc_output_vc v))"

definition iu_get_enqueue_time :: "int \<Rightarrow> InputUnit \<Rightarrow> Tick res" where
  "iu_get_enqueue_time invc iu = bindR (at (iu_virtualChannels iu) invc) (\<lambda>v. Inr (vc_enqueue_time v))"

definition iu_peekTopFlit :: "int \<Rightarrow> InputUnit \<Rightarrow> flit res" where
  "iu_peekTopFlit vc iu = bindR (at (iu_virtualChannels iu) vc) vc_peekTopFlit"

definition iu_getTopFlit :: "int \<Rightarrow> InputUnit \<Rightarrow> (flit \<times> InputUnit) res" where
  "iu_getTopFlit vc iu = bindR (at (iu_virtualChannels iu) vc) (\<lambda>v. bindR (vc_getTopFlit v) (\<lambda>(f, v').
     bindR (put (iu_virtualChannels iu) vc v') (\<lambda>vs. Inr (f, iu\<lparr>iu_virtualChannels := vs\<rparr>))))"

definition iu_need_stage :: "int \<Rightarrow> flit_stage \<Rightarrow> Tick \<Rightarrow> InputUnit \<Rightarrow> bool res" where
  "iu_need_stage vc stage time iu = bindR (at (iu_virtualChannels iu) vc) (vc_need_stage stage time)"

definition iu_isReady :: "int \<Rightarrow> Tick \<Rightarrow> InputUnit \<Rightarrow> bool res" where
  "iu_isReady invc curTime iu = bindR (at (iu_virtualChannels iu) invc) (\<lambda>v. Inr (vc_isReady curTime v))"

definition iu_insertFlit :: "int \<Rightarrow> flit \<Rightarrow> InputUnit \<Rightarrow> InputUnit res" where
  "iu_insertFlit vc f iu = iu_on_vc (vc_insertFlit f) vc iu"

definition iu_increment_credit :: "in_env \<Rightarrow> int \<Rightarrow> bool \<Rightarrow> Tick \<Rightarrow> InputUnit \<Rightarrow> InputUnit \<times> wake_req list" where
  "iu_increment_credit ie in_vc free_signal curTime iu =
     (iu\<lparr>iu_creditQueue := fb_insert (Credit_new (ie_no_dest ie) in_vc free_signal curTime) (iu_creditQueue iu)\<rparr>,
      [Wake_credit_link (iu_id iu) (clockEdge_at (ie_period ie) (ie_now ie) 1)])"

section \<open>Receiving a flit\<close>

definition count_access :: "int \<Rightarrow> InputUnit \<Rightarrow> InputUnit res" where
  "count_access vnet iu =
     bindR (at (iu_num_buffer_writes iu) vnet) (\<lambda>w. bindR (put (iu_num_buffer_writes iu) vnet (w + 1)) (\<lambda>ws.
     bindR (at (iu_num_buffer_reads iu) vnet) (\<lambda>r. bindR (put (iu_num_buffer_reads iu) vnet (r + 1)) (\<lambda>rs.
       Inr (iu\<lparr>iu_num_buffer_writes := ws, iu_num_buffer_reads := rs\<rparr>)))))"

text \<open>The pipeline: the flit becomes a candidate of the switch allocation at once or after \<open>pipe_stages - 1\<close> cycles.\<close>

definition enter_pipeline :: "in_env \<Rightarrow> flit \<Rightarrow> (flit \<times> wake_req list) res" where
  "enter_pipeline ie t_flit =
     (if ie_pipe_stages ie = 1 then Inr (advance_stage SA (ie_now ie) t_flit, [])
      else bindR (assertR (ie_pipe_stages ie > 1)) (\<lambda>_.
        let wait_time = ie_pipe_stages ie - 1 in
        Inr (advance_stage SA (clockEdge_at (ie_period ie) (ie_now ie) wait_time) t_flit, [Wake_router wait_time])))"

text \<open>The part of \<open>wakeup\<close> from \<open>int vc = t_flit->get_vc()\<close> on. The detecting unit also records the output port of
  packets injected at port 0 (\<open>rec\<close>). The source advances the stage of the flit after buffering it through the
  same pointer; here the flit is buffered with its stage advanced.\<close>

definition route_head ::
  "'d fp \<Rightarrow> in_env \<Rightarrow> rng \<Rightarrow> bool \<Rightarrow> flit \<Rightarrow> InputUnit \<Rightarrow> in_shared \<Rightarrow> (flit \<times> InputUnit \<times> in_shared) res" where
  "route_head F ie g rec t_flit iu sh =
     bindR (iu_set_vc_active (f_vc t_flit) (ie_now ie) iu) (\<lambda>iu1.
     bindR (outportCompute F (ie_route ie) g (is_ru sh) (is_glob sh) (f_route t_flit) (iu_id iu) (iu_direction iu))
       (\<lambda>(outport, ru, route, gl).
     bindR (iu_grant_outport (f_vc t_flit) outport iu1) (\<lambda>iu2.
     bindR (if rec \<and> iu_id iu = 0 then or_update outport (src_router route) (dest_router route) (is_outBuf sh)
            else Inr (is_outBuf sh)) (\<lambda>ob.
       Inr (t_flit\<lparr>f_route := route\<rparr>, iu2, sh\<lparr>is_ru := ru, is_glob := gl, is_outBuf := ob\<rparr>)))))"

definition receive_flit ::
  "'d fp \<Rightarrow> in_env \<Rightarrow> rng \<Rightarrow> bool \<Rightarrow> flit \<Rightarrow> InputUnit \<Rightarrow> in_shared \<Rightarrow> (InputUnit \<times> in_shared \<times> wake_req list) res" where
  "receive_flit F ie g rec fl iu sh =
     (let vc = f_vc fl; t_flit = increment_hops fl in
      bindR (at (iu_virtualChannels iu) vc) (\<lambda>v.
      bindR (if f_type t_flit = HEAD \<or> f_type t_flit = HEAD_TAIL
             then bindR (assertR (fst (vc_state v) = IDLE)) (\<lambda>_. route_head F ie g rec t_flit iu sh)
             else bindR (assertR (fst (vc_state v) = ACTIVE)) (\<lambda>_. Inr (t_flit, iu, sh))) (\<lambda>(t_flit1, iu1, sh1).
      bindR (failIf (iu_vc_per_vnet iu = 0) Div_by_zero) (\<lambda>_.
      bindR (count_access (vc sdiv iu_vc_per_vnet iu) iu1) (\<lambda>iu2.
      bindR (enter_pipeline ie t_flit1) (\<lambda>(t_flit2, reqs).
      bindR (iu_insertFlit vc t_flit2 iu2) (\<lambda>iu3. Inr (iu3, sh1, reqs))))))))"

definition more_ready :: "in_env \<Rightarrow> NetworkLink \<Rightarrow> wake_req list" where
  "more_ready ie link = (if nl_isReady (ie_now ie) link then [Wake_router 1] else [])"

section \<open>The plain unit\<close>

definition iu_wakeup_plain ::
  "'d fp \<Rightarrow> in_env \<Rightarrow> rng \<Rightarrow> NetworkLink \<Rightarrow> InputUnit \<Rightarrow> in_shared
     \<Rightarrow> (NetworkLink \<times> InputUnit \<times> in_shared \<times> wake_req list) res" where
  "iu_wakeup_plain F ie g in_link iu sh =
     (if nl_isReady (ie_now ie) in_link then
        bindR (nl_consumeLink in_link) (\<lambda>(t_flit, link).
        bindR (assertR (f_width t_flit = ie_bit_width ie)) (\<lambda>_.
        bindR (receive_flit F ie g False t_flit iu sh) (\<lambda>(iu', sh', reqs).
          Inr (link, iu', sh', reqs @ more_ready ie link))))
      else Inr (in_link, iu, sh, []))"

section \<open>The detecting unit\<close>

definition getCycle :: "Tick \<Rightarrow> u64" where
  "getCycle curTick = of_nat (curTick div 500)"

definition flow_entry :: "in_env \<Rightarrow> RouteInfo \<Rightarrow> int \<Rightarrow> patternEntry" where
  "flow_entry ie route m_id = \<lparr>pe_src = src_router route, pe_dst = dest_router route, pe_inport = m_id,
     pe_output = dest_router route, pe_cycleRecieve = getCycle (ie_now ie), pe_packet_type = 0\<rparr>"

text \<open>The block guarded by \<open>m_id == 0\<close>. The draws are, in order, those of the trial route computation (\<open>gs 0\<close>) and the
  detour decision (\<open>gs 1\<close>); \<open>injRange\<close> is \<open>pow(10, 4)\<close>. The build script writes the detour rate into \<open>CALI\<close>. The parameter
  \<open>cali\<close> is the product \<open>injRange * calibrate\<close> rounded up: a draw between 0 and 10000 is exact as a \<open>float\<close> and integral, so it is below
  the product iff it is below \<open>cali\<close>. \<open>latency\<close> is \<open>InputStruct == 5\<close>.\<close>

text \<open>The value for \<open>CALI\<close> as the source has it, 1.0.\<close>

definition CALI_default :: int where
  "CALI_default = 10000"

definition inspect_flit ::
  "'d fp \<Rightarrow> 'd \<Rightarrow> bool \<Rightarrow> int \<Rightarrow> in_env \<Rightarrow> (nat \<Rightarrow> rng) \<Rightarrow> flit \<Rightarrow> InputUnit \<Rightarrow> in_shared
     \<Rightarrow> (flit \<times> InputUnit \<times> in_shared) res" where
  "inspect_flit F junk latency cali ie gs t_flit iu sh =
     (let headPacket = (f_type t_flit = HEAD \<or> f_type t_flit = HEAD_TAIL);
          route = f_route t_flit; m_id = iu_id iu in
      bindR (if headPacket \<and> sTag route = 0
             then bindR (updateHistory (flow_entry ie route m_id) (iu_HR iu)) (\<lambda>h.
                    Inr (h, (is_InS sh)\<lparr>all_counts := all_counts (is_InS sh) + 1\<rparr>))
             else Inr (iu_HR iu, is_InS sh)) (\<lambda>(h, st).
      if headPacket \<and> dest_router route \<noteq> re_id (ie_route ie) then
        bindR (outportCompute F (ie_route ie) (gs 0) (is_ru sh) (is_glob sh) route m_id (iu_direction iu))
          (\<lambda>(outport_preGet, ru, route1, gl).
        bindR (riskFind F junk (flow_entry ie route1 m_id) 0 True (is_outBuf sh) (src_router route1) (dest_router route1)
                 7 st outport_preGet h) (\<lambda>(hasRisk, pkt_avg, st1, h1).
          let trySending = rng_my (gs 1) 0 10000;
              sh1 = sh\<lparr>is_ru := ru, is_glob := gl\<rparr>; iu1 = iu\<lparr>iu_HR := h1\<rparr>; fl1 = t_flit\<lparr>f_route := route1\<rparr> in
          if hasRisk then
            bindR (failIf latency Exit_0) (\<lambda>_.
              let st2 = st1\<lparr>risk_counts := risk_counts st1 + 1\<rparr> in
              if trySending < cali
              then Inr (fl1\<lparr>f_route := setTag 1 route1\<rparr>, iu1,
                        sh1\<lparr>is_InS := st2\<lparr>detour_counts := detour_counts st2 + 1\<rparr>\<rparr>)
              else Inr (fl1, iu1, sh1\<lparr>is_InS := st2\<rparr>))
          else Inr (fl1, iu1, sh1\<lparr>is_InS := st1\<rparr>)))
      else Inr (t_flit, iu\<lparr>iu_HR := h\<rparr>, sh\<lparr>is_InS := st\<rparr>)))"

definition iu_wakeup_detect ::
  "'d fp \<Rightarrow> 'd \<Rightarrow> bool \<Rightarrow> int \<Rightarrow> in_env \<Rightarrow> (nat \<Rightarrow> rng) \<Rightarrow> NetworkLink \<Rightarrow> InputUnit \<Rightarrow> in_shared
     \<Rightarrow> (NetworkLink \<times> InputUnit \<times> in_shared \<times> wake_req list) res" where
  "iu_wakeup_detect F junk latency cali ie gs in_link iu sh =
     (if nl_isReady (ie_now ie) in_link then
        bindR (nl_consumeLink in_link) (\<lambda>(t_flit, link).
        bindR (assertR (f_width t_flit = ie_bit_width ie)) (\<lambda>_.
        bindR (if iu_id iu = 0 then inspect_flit F junk latency cali ie gs t_flit iu sh else Inr (t_flit, iu, sh))
          (\<lambda>(t_flit1, iu1, sh1).
        bindR (receive_flit F ie (gs 2) True t_flit1 iu1 sh1) (\<lambda>(iu', sh', reqs).
          Inr (link, iu', sh', reqs @ more_ready ie link)))))
      else Inr (in_link, iu, sh, []))"

section \<open>The unit that detours every packet\<close>

definition iu_wakeup_valiant ::
  "'d fp \<Rightarrow> in_env \<Rightarrow> rng \<Rightarrow> NetworkLink \<Rightarrow> InputUnit \<Rightarrow> in_shared
     \<Rightarrow> (NetworkLink \<times> InputUnit \<times> in_shared \<times> wake_req list) res" where
  "iu_wakeup_valiant F ie g in_link iu sh =
     (if nl_isReady (ie_now ie) in_link then
        bindR (nl_consumeLink in_link) (\<lambda>(t_flit, link).
        bindR (assertR (f_width t_flit = ie_bit_width ie)) (\<lambda>_.
          let headPacket = (f_type t_flit = HEAD \<or> f_type t_flit = HEAD_TAIL);
              tagged = (iu_id iu = 0 \<and> headPacket \<and> dest_router (f_route t_flit) \<noteq> re_id (ie_route ie));
              t_flit1 = (if tagged then t_flit\<lparr>f_route := setTag 1 (f_route t_flit)\<rparr> else t_flit);
              sh1 = (if tagged then sh\<lparr>is_InS := (is_InS sh)\<lparr>detour_counts := detour_counts (is_InS sh) + 1\<rparr>\<rparr> else sh) in
        bindR (receive_flit F ie g False t_flit1 iu sh1) (\<lambda>(iu', sh', reqs).
          Inr (link, iu', sh', reqs @ more_ready ie link))))
      else Inr (in_link, iu, sh, []))"

section \<open>The time-division unit\<close>

definition CORE_NUM :: nat where "CORE_NUM = 16"
definition THRES_SLOT :: int where "THRES_SLOT = 100"
definition THRES_FLIT :: int where "THRES_FLIT = 80"

record tdma =
  td_init :: bool
  td_counter :: "int list"
  td_round_cnt :: int
  td_round_list :: "int list"

definition tdma_new :: tdma where
  "tdma_new = \<lparr>td_init = False, td_counter = -1 # replicate (CORE_NUM - 1) 0, td_round_cnt = 0,
     td_round_list = -1 # replicate (CORE_NUM - 1) 0\<rparr>"

definition tdma_start :: "int \<Rightarrow> tdma \<Rightarrow> tdma" where
  "tdma_start routerID t = (if td_init t then t
     else \<lparr>td_init = True, td_counter = map (\<lambda>i. if int i = routerID then 0 else -1) [0..<CORE_NUM],
           td_round_cnt = routerID, td_round_list = map int [0..<CORE_NUM]\<rparr>)"

text \<open>The end of a slot: the token goes to the next router of the round; a new round starts with the shuffled
  list \<open>numbers\<close>.\<close>

definition tdma_pass :: "int list \<Rightarrow> int \<Rightarrow> tdma \<Rightarrow> tdma res" where
  "tdma_pass numbers routerID t =
     bindR (put (td_counter t) routerID (-1)) (\<lambda>cs.
     bindR (if td_round_cnt t < int CORE_NUM - 1 then Inr (td_round_cnt t + 1, td_round_list t)
            else bindR (mapR (at numbers) (map int [0..<CORE_NUM])) (\<lambda>ns. Inr (0, ns))) (\<lambda>(cnt, rl).
     bindR (at rl cnt) (\<lambda>nextID.
     bindR (put cs nextID 0) (\<lambda>cs'. Inr (t\<lparr>td_counter := cs', td_round_cnt := cnt, td_round_list := rl\<rparr>)))))"

definition tdma_receive ::
  "'d fp \<Rightarrow> in_env \<Rightarrow> rng \<Rightarrow> NetworkLink \<Rightarrow> InputUnit \<Rightarrow> in_shared \<Rightarrow> tdma
     \<Rightarrow> (NetworkLink \<times> InputUnit \<times> in_shared \<times> tdma \<times> wake_req list) res" where
  "tdma_receive F ie g in_link iu sh t =
     bindR (nl_consumeLink in_link) (\<lambda>(t_flit, link).
       let iu0 = iu\<lparr>iu_round_flit := iu_round_flit iu + 1\<rparr>; routerID = re_id (ie_route ie);
           tailPacket = (f_type t_flit = TAIL \<or> f_type t_flit = HEAD_TAIL);
           sh0 = (if dest_router (f_route t_flit) \<noteq> routerID \<and> tailPacket
                  then sh\<lparr>is_InS := (is_InS sh)\<lparr>detour_counts := detour_counts (is_InS sh) + 1\<rparr>\<rparr> else sh) in
     bindR (assertR (f_width t_flit = ie_bit_width ie)) (\<lambda>_.
     bindR (receive_flit F ie g False t_flit iu0 sh0) (\<lambda>(iu', sh', reqs).
     bindR (if ie_pipe_stages ie = 1 then Inr t
            else bindR (at (td_counter t) routerID) (\<lambda>c.
                 bindR (put (td_counter t) routerID (c + int (ie_pipe_stages ie - 1))) (\<lambda>cs. Inr (t\<lparr>td_counter := cs\<rparr>)))) (\<lambda>t'.
       Inr (link, iu', sh', t', reqs)))))"

definition iu_wakeup_tdma ::
  "'d fp \<Rightarrow> in_env \<Rightarrow> rng \<Rightarrow> int list \<Rightarrow> NetworkLink \<Rightarrow> InputUnit \<Rightarrow> in_shared \<Rightarrow> tdma
     \<Rightarrow> (NetworkLink \<times> InputUnit \<times> in_shared \<times> tdma \<times> wake_req list) res" where
  "iu_wakeup_tdma F ie g numbers in_link iu sh t =
     (if iu_id iu = 0 then
        let routerID = re_id (ie_route ie); t0 = tdma_start routerID t;
            formerID = (if routerID > 0 then routerID - 1 else int CORE_NUM - 1) in
        bindR (at (td_counter t0) formerID) (\<lambda>_.
        bindR (at (td_counter t0) routerID) (\<lambda>cnt.
          if cnt \<ge> 0 then
            let roundChange = (cnt \<ge> THRES_SLOT) in
            bindR (if nl_isReady (ie_now ie) in_link \<and> \<not> roundChange \<and> iu_round_flit iu < THRES_FLIT
                   then tdma_receive F ie g in_link iu sh t0
                   else Inr (in_link, iu, sh, t0, [])) (\<lambda>(link, iu1, sh1, t1, reqs).
            if roundChange then
              bindR (tdma_pass numbers routerID t1) (\<lambda>t2.
                Inr (link, iu1\<lparr>iu_round_flit := 0\<rparr>, sh1, t2, reqs @ [Wake_router (nat THRES_SLOT)]))
            else
              bindR (at (td_counter t1) routerID) (\<lambda>c.
              bindR (put (td_counter t1) routerID (c + 1)) (\<lambda>cs.
                Inr (link, iu1, sh1, t1\<lparr>td_counter := cs\<rparr>, reqs @ [Wake_router 1]))))
          else Inr (in_link, iu, sh, t0, [Wake_router (nat THRES_SLOT)])))
      else bindR (iu_wakeup_plain F ie g in_link iu sh) (\<lambda>(link, iu', sh', reqs). Inr (link, iu', sh', t, reqs)))"

section \<open>Functional accesses and statistics\<close>

fun vcs_functionalRead :: "'h access \<Rightarrow> VirtualChannel list \<Rightarrow> bool \<Rightarrow> 'h \<Rightarrow> (bool \<times> 'h) res" where
  "vcs_functionalRead acc [] rd h = Inr (rd, h)"
| "vcs_functionalRead acc (v # vs) rd h =
     bindR (vc_functionalRead acc v h) (\<lambda>(b, h'). vcs_functionalRead acc vs (if b then True else rd) h')"

definition iu_functionalRead :: "'h access \<Rightarrow> InputUnit \<Rightarrow> 'h \<Rightarrow> (bool \<times> 'h) res" where
  "iu_functionalRead acc iu h = vcs_functionalRead acc (iu_virtualChannels iu) False h"

fun vcs_functionalWrite :: "'h access \<Rightarrow> VirtualChannel list \<Rightarrow> nat \<Rightarrow> 'h \<Rightarrow> (nat \<times> 'h) res" where
  "vcs_functionalWrite acc [] num h = Inr (num, h)"
| "vcs_functionalWrite acc (v # vs) num h =
     bindR (vc_functionalWrite acc v h) (\<lambda>(n, h'). vcs_functionalWrite acc vs (num + n) h')"

definition iu_functionalWrite :: "'h access \<Rightarrow> InputUnit \<Rightarrow> 'h \<Rightarrow> (nat \<times> 'h) res" where
  "iu_functionalWrite acc iu h = vcs_functionalWrite acc (iu_virtualChannels iu) 0 h"

definition iu_resetStats :: "InputUnit \<Rightarrow> InputUnit" where
  "iu_resetStats iu = iu\<lparr>iu_num_buffer_reads := map (\<lambda>_. 0) (iu_num_buffer_reads iu),
     iu_num_buffer_writes := map (\<lambda>_. 0) (iu_num_buffer_writes iu)\<rparr>"

section \<open>One router at a time owns the slot\<close>

text \<open>The documented result of \<open>std::shuffle\<close>: a permutation of the numbers \<open>0\<close> to \<open>CORE_NUM - 1\<close>.\<close>

definition shuffled :: "int list \<Rightarrow> bool" where
  "shuffled numbers \<longleftrightarrow> length numbers = CORE_NUM \<and> set numbers = {0..<int CORE_NUM}"

definition tdma_owner :: "tdma \<Rightarrow> int" where
  "tdma_owner t = td_round_list t ! nat (td_round_cnt t)"

definition tdma_ok :: "tdma \<Rightarrow> bool" where
  "tdma_ok t \<longleftrightarrow> length (td_counter t) = CORE_NUM \<and> shuffled (td_round_list t)
     \<and> 0 \<le> td_round_cnt t \<and> td_round_cnt t < int CORE_NUM
     \<and> (\<forall>i < CORE_NUM. if int i = tdma_owner t then 0 \<le> td_counter t ! i else td_counter t ! i = -1)"

lemma shuffled_nth: "shuffled xs \<Longrightarrow> i < CORE_NUM \<Longrightarrow> 0 \<le> xs ! i \<and> xs ! i < int CORE_NUM"
  unfolding shuffled_def by (metis atLeastLessThan_iff nth_mem)

lemma tdma_owner_range: "tdma_ok t \<Longrightarrow> 0 \<le> tdma_owner t \<and> tdma_owner t < int CORE_NUM"
  unfolding tdma_ok_def tdma_owner_def by (intro shuffled_nth) auto

lemma tdma_counter_owner:
  assumes "tdma_ok t" and "0 \<le> r" and "r < int CORE_NUM"
  shows "at (td_counter t) r = Inr (td_counter t ! nat r)"
    and "0 \<le> td_counter t ! nat r \<longleftrightarrow> r = tdma_owner t"
proof -
  have "int (nat r) = r" "nat r < CORE_NUM" using assms by auto
  with assms show "at (td_counter t) r = Inr (td_counter t ! nat r)"
    and "0 \<le> td_counter t ! nat r \<longleftrightarrow> r = tdma_owner t"
    by (auto simp: tdma_ok_def at_ok split: if_splits)
qed

lemma tdma_start_ok:
  assumes "td_init t \<Longrightarrow> tdma_ok t" and "0 \<le> r" and "r < int CORE_NUM"
  shows "tdma_ok (tdma_start r t)" and "td_init (tdma_start r t)"
proof -
  have "set (map int [0..<CORE_NUM]) = {0..<int CORE_NUM}" by (auto simp: image_iff Bex_def) presburger
  with assms show "tdma_ok (tdma_start r t)"
    by (auto simp: tdma_start_def tdma_ok_def tdma_owner_def shuffled_def)
  show "td_init (tdma_start r t)" by (simp add: tdma_start_def)
qed

lemma tdma_count_ok:
  assumes "tdma_ok t" and "0 \<le> c"
  shows "tdma_ok (t\<lparr>td_counter := (td_counter t)[nat (tdma_owner t) := c]\<rparr>)"
proof -
  from tdma_owner_range [OF assms(1)] have "int (nat (tdma_owner t)) = tdma_owner t" "nat (tdma_owner t) < CORE_NUM" by auto
  with assms show ?thesis by (auto simp: tdma_ok_def tdma_owner_def nth_list_update split: if_splits)
qed

lemma tdma_move_ok:
  assumes ok: "tdma_ok t" and rl: "shuffled rl" and cnt: "0 \<le> cnt" "cnt < int CORE_NUM"
  shows "tdma_ok (t\<lparr>td_counter := (td_counter t)[nat (tdma_owner t) := -1, nat (rl ! nat cnt) := 0],
      td_round_cnt := cnt, td_round_list := rl\<rparr>)" (is "tdma_ok ?t")
proof -
  have n: "0 \<le> rl ! nat cnt" "rl ! nat cnt < int CORE_NUM" using shuffled_nth [OF rl, of "nat cnt"] cnt by auto
  have own: "tdma_owner ?t = rl ! nat cnt" by (simp add: tdma_owner_def)
  have o: "0 \<le> tdma_owner t" "tdma_owner t < int CORE_NUM" using tdma_owner_range [OF ok] by auto
  have len: "length (td_counter t) = CORE_NUM" using ok by (simp add: tdma_ok_def)
  have "if int i = tdma_owner ?t then 0 \<le> td_counter ?t ! i else td_counter ?t ! i = -1" if i: "i < CORE_NUM" for i
  proof -
    have "int i \<noteq> tdma_owner t \<Longrightarrow> td_counter t ! i = -1" using ok i by (auto simp: tdma_ok_def)
    then show ?thesis using i len n o by (auto simp: own nth_list_update)
  qed
  moreover have "length (td_counter ?t) = CORE_NUM" "shuffled (td_round_list ?t)" "td_round_cnt ?t = cnt"
    using len rl by simp_all
  ultimately show ?thesis unfolding tdma_ok_def using cnt by metis
qed

lemma shuffled_copy: "shuffled numbers \<Longrightarrow> mapR (at numbers) (map int [0..<CORE_NUM]) = Inr numbers"
proof -
  assume sh: "shuffled numbers"
  have "mapR (at numbers) (map int [0..<CORE_NUM]) = Inr (map (\<lambda>i. numbers ! nat i) (map int [0..<CORE_NUM]))"
    using sh by (intro mapR_total) (auto simp: shuffled_def)
  also have "map (\<lambda>i. numbers ! nat i) (map int [0..<CORE_NUM]) = numbers"
    using sh by (intro nth_equalityI) (auto simp: shuffled_def)
  finally show ?thesis .
qed

lemma tdma_pass_ok:
  assumes ok: "tdma_ok t" and sh: "shuffled numbers"
  shows "\<exists>t'. tdma_pass numbers (tdma_owner t) t = Inr t' \<and> tdma_ok t' \<and> td_init t' = td_init t
    \<and> tdma_owner t' = (if td_round_cnt t < int CORE_NUM - 1 then td_round_list t ! nat (td_round_cnt t + 1) else numbers ! 0)"
proof -
  define cnt where "cnt = (if td_round_cnt t < int CORE_NUM - 1 then td_round_cnt t + 1 else 0)"
  define rl where "rl = (if td_round_cnt t < int CORE_NUM - 1 then td_round_list t else numbers)"
  have c: "0 \<le> cnt" "cnt < int CORE_NUM" and rl: "shuffled rl"
    using ok sh by (auto simp: tdma_ok_def cnt_def rl_def CORE_NUM_def)
  have step: "(if td_round_cnt t < int CORE_NUM - 1 then Inr (td_round_cnt t + 1, td_round_list t)
      else bindR (mapR (at numbers) (map int [0..<CORE_NUM])) (\<lambda>ns. Inr (0, ns))) = Inr (cnt, rl)"
    unfolding shuffled_copy [OF sh] by (simp add: cnt_def rl_def)
  have len: "length (td_counter t) = CORE_NUM" "length rl = CORE_NUM" using ok rl by (auto simp: tdma_ok_def shuffled_def)
  have n: "0 \<le> rl ! nat cnt" "rl ! nat cnt < int CORE_NUM" using shuffled_nth [OF rl, of "nat cnt"] c by auto
  have o: "0 \<le> tdma_owner t" "tdma_owner t < int CORE_NUM" using tdma_owner_range [OF ok] by auto
  have "tdma_pass numbers (tdma_owner t) t
      = Inr (t\<lparr>td_counter := (td_counter t)[nat (tdma_owner t) := -1, nat (rl ! nat cnt) := 0],
          td_round_cnt := cnt, td_round_list := rl\<rparr>)"
    unfolding tdma_pass_def step using c len n o by (simp add: put_ok at_ok)
  with tdma_move_ok [OF ok rl c] show ?thesis by (auto simp: tdma_owner_def cnt_def rl_def)
qed

text \<open>What a successful wake-up of a port does to the slots.\<close>

lemma iu_on_vc_Inr_iff [res_dest]:
  "iu_on_vc f vc iu = Inr iu' \<longleftrightarrow> 0 \<le> vc \<and> vc < int (length (iu_virtualChannels iu)) \<and>
     iu' = iu\<lparr>iu_virtualChannels := (iu_virtualChannels iu)[nat vc := f (iu_virtualChannels iu ! nat vc)]\<rparr>"
  by (auto simp: iu_on_vc_def bindR_Inr_iff at_Inr_iff put_Inr_iff)

lemma count_access_Inr_iff [res_dest]:
  "count_access vnet iu = Inr iu' \<longleftrightarrow> 0 \<le> vnet \<and> vnet < int (length (iu_num_buffer_writes iu))
     \<and> vnet < int (length (iu_num_buffer_reads iu)) \<and>
     iu' = iu\<lparr>iu_num_buffer_writes := (iu_num_buffer_writes iu)[nat vnet := iu_num_buffer_writes iu ! nat vnet + 1],
              iu_num_buffer_reads := (iu_num_buffer_reads iu)[nat vnet := iu_num_buffer_reads iu ! nat vnet + 1]\<rparr>"
  by (auto simp: count_access_def bindR_Inr_iff at_Inr_iff put_Inr_iff)

lemma route_head_round_flit: "route_head F ie g rec fl iu sh = Inr (fl', iu', sh') \<Longrightarrow> iu_round_flit iu' = iu_round_flit iu"
  by (auto simp: route_head_def bindR_Inr_iff iu_set_vc_active_def iu_grant_outport_def iu_on_vc_Inr_iff
      split: prod.splits)

lemma increment_hops_simps [simp]:
  "f_type (increment_hops f) = f_type f" "f_vc (increment_hops f) = f_vc f" "f_width (increment_hops f) = f_width f"
  "f_time (increment_hops f) = f_time f"
  by (simp_all add: increment_hops_def)

lemma receive_flitE:
  assumes "receive_flit F ie g rec fl iu sh = Inr (iu', sh', reqs)"
  obtains v t1 iu1 iu2 t2 where "at (iu_virtualChannels iu) (f_vc fl) = Inr v"
    and "if is_head (f_type fl)
         then fst (vc_state v) = IDLE \<and> route_head F ie g rec (increment_hops fl) iu sh = Inr (t1, iu1, sh')
         else fst (vc_state v) = ACTIVE \<and> t1 = increment_hops fl \<and> iu1 = iu \<and> sh' = sh"
    and "iu_vc_per_vnet iu \<noteq> 0" and "count_access (f_vc fl sdiv iu_vc_per_vnet iu) iu1 = Inr iu2"
    and "enter_pipeline ie t1 = Inr (t2, reqs)" and "iu_insertFlit (f_vc fl) t2 iu2 = Inr iu'"
proof (cases "is_head (f_type fl)")
  case True
  then have h: "f_type fl = HEAD \<or> f_type fl = HEAD_TAIL" by (simp add: is_head_def)
  from assms show thesis
    unfolding receive_flit_def Let_def increment_hops_simps if_P [OF h]
    by (elim bindR_InrE) (auto simp: assertR_Inr_iff failIf_Inr_iff True split: prod.splits elim!: bindR_InrE intro!: that)
next
  case False
  then have h: "\<not> (f_type fl = HEAD \<or> f_type fl = HEAD_TAIL)" by (simp add: is_head_def)
  from assms show thesis
    unfolding receive_flit_def Let_def increment_hops_simps if_not_P [OF h]
    by (elim bindR_InrE) (auto simp: assertR_Inr_iff failIf_Inr_iff False split: prod.splits elim!: bindR_InrE intro!: that)
qed

lemma receive_flit_round_flit:
  assumes "receive_flit F ie g rec fl iu sh = Inr (iu', sh', reqs)"
  shows "iu_round_flit iu' = iu_round_flit iu"
  using assms
proof (rule receive_flitE)
  fix v t1 iu1 iu2 t2
  assume 1: "if is_head (f_type fl)
         then fst (vc_state v) = IDLE \<and> route_head F ie g rec (increment_hops fl) iu sh = Inr (t1, iu1, sh')
         else fst (vc_state v) = ACTIVE \<and> t1 = increment_hops fl \<and> iu1 = iu \<and> sh' = sh"
    and 2: "count_access (f_vc fl sdiv iu_vc_per_vnet iu) iu1 = Inr iu2" "iu_insertFlit (f_vc fl) t2 iu2 = Inr iu'"
  from 1 have "iu_round_flit iu1 = iu_round_flit iu" by (auto split: if_splits dest: route_head_round_flit)
  with 2 show ?thesis by (auto simp: count_access_Inr_iff iu_insertFlit_def iu_on_vc_Inr_iff)
qed

lemma tdma_receive_ok:
  assumes ok: "tdma_ok t" and own: "re_id (ie_route ie) = tdma_owner t"
    and r: "tdma_receive F ie g link iu sh t = Inr (link', iu', sh', t', reqs)"
  shows "tdma_ok t' \<and> td_init t' = td_init t \<and> tdma_owner t' = tdma_owner t \<and> iu_round_flit iu' = iu_round_flit iu + 1
    \<and> td_counter t ! nat (tdma_owner t) \<le> td_counter t' ! nat (tdma_owner t)"
proof -
  let ?o = "tdma_owner t" and ?c = "td_counter t ! nat (tdma_owner t)"
  have o: "0 \<le> ?o" "?o < int CORE_NUM" using tdma_owner_range [OF ok] by auto
  have len: "length (td_counter t) = CORE_NUM" using ok by (simp add: tdma_ok_def)
  have c: "at (td_counter t) ?o = Inr ?c" "0 \<le> ?c"
    using tdma_counter_owner [OF ok o] by auto
  have "t' = t \<or> t' = t\<lparr>td_counter := (td_counter t)[nat ?o := ?c + int (ie_pipe_stages ie - 1)]\<rparr>"
    using r c(1) by (auto simp: tdma_receive_def Let_def bindR_Inr_iff own put_Inr_iff split: if_splits prod.splits)
  moreover have "iu_round_flit iu' = iu_round_flit iu + 1"
    using r by (auto simp: tdma_receive_def Let_def bindR_Inr_iff split: prod.splits dest!: receive_flit_round_flit)
  ultimately show ?thesis
    using ok tdma_count_ok [OF ok, of "?c + int (ie_pipe_stages ie - 1)"] c(2) o len
    by (auto simp: tdma_owner_def)
qed

lemma tdma_wakeup_idle:
  assumes "tdma_ok t" and "td_init t" and "iu_id iu = 0" and "0 \<le> re_id (ie_route ie)"
    and "re_id (ie_route ie) < int CORE_NUM" and "re_id (ie_route ie) \<noteq> tdma_owner t"
  shows "iu_wakeup_tdma F ie g numbers link iu sh t = Inr (link, iu, sh, t, [Wake_router (nat THRES_SLOT)])"
proof -
  let ?r = "re_id (ie_route ie)"
  let ?f = "if ?r > 0 then ?r - 1 else int CORE_NUM - 1"
  have f: "0 \<le> ?f" "?f < int CORE_NUM" using assms by (auto simp: CORE_NUM_def)
  show ?thesis
    using assms tdma_counter_owner(1) [OF assms(1) f] tdma_counter_owner [OF assms(1,4,5)]
    by (simp add: iu_wakeup_tdma_def tdma_start_def Let_def)
qed

lemma tdma_wakeup_owner:
  assumes ok: "tdma_ok t" "td_init t" and iu: "iu_id iu = 0" and own: "re_id (ie_route ie) = tdma_owner t"
    and sh: "shuffled numbers"
    and w: "iu_wakeup_tdma F ie g numbers link iu s t = Inr (link', iu', s', t', reqs)"
  shows "tdma_ok t' \<and> td_init t' \<and> (if THRES_SLOT \<le> td_counter t ! nat (tdma_owner t)
     then tdma_owner t' = (if td_round_cnt t < int CORE_NUM - 1 then td_round_list t ! nat (td_round_cnt t + 1) else numbers ! 0)
       \<and> iu_round_flit iu' = 0 \<and> link' = link \<and> s' = s
     else tdma_owner t' = tdma_owner t
       \<and> td_counter t ! nat (tdma_owner t) < td_counter t' ! nat (tdma_owner t)
       \<and> (iu_round_flit iu' = iu_round_flit iu \<or> iu_round_flit iu < THRES_FLIT \<and> iu_round_flit iu' = iu_round_flit iu + 1))"
proof -
  let ?o = "tdma_owner t" and ?c = "td_counter t ! nat (tdma_owner t)"
  have o: "0 \<le> ?o" "?o < int CORE_NUM" using tdma_owner_range [OF ok(1)] by auto
  have at_o: "at (td_counter t) ?o = Inr ?c" "0 \<le> ?c" using tdma_counter_owner [OF ok(1) o] by auto
  have start: "tdma_start ?o t = t" using ok by (simp add: tdma_start_def)
  note w = w [unfolded iu_wakeup_tdma_def own start Let_def if_P [OF iu]]
  show ?thesis
  proof (cases "THRES_SLOT \<le> ?c")
    case True
    then obtain t2 where "tdma_pass numbers ?o t = Inr t2" "t' = t2" "iu' = iu\<lparr>iu_round_flit := 0\<rparr>" "link' = link" "s' = s"
      using w at_o by (auto simp: bindR_Inr_iff)
    with True tdma_pass_ok [OF ok(1) sh] ok show ?thesis by auto
  next
    case False
    with w at_o obtain t1 c iu1 link1 s1 reqs1 where
      r: "(if nl_isReady (ie_now ie) link \<and> iu_round_flit iu < THRES_FLIT then tdma_receive F ie g link iu s t
           else Inr (link, iu, s, t, [])) = Inr (link1, iu1, s1, t1, reqs1)"
      and c: "at (td_counter t1) ?o = Inr c" "t' = t1\<lparr>td_counter := (td_counter t1)[nat ?o := c + 1]\<rparr>" "iu' = iu1"
      by (auto simp: bindR_Inr_iff put_Inr_iff)
    have t1: "tdma_ok t1" "td_init t1" "tdma_owner t1 = ?o" "?c \<le> td_counter t1 ! nat ?o"
      "iu_round_flit iu1 = iu_round_flit iu \<or> iu_round_flit iu < THRES_FLIT \<and> iu_round_flit iu1 = iu_round_flit iu + 1"
      using r tdma_receive_ok [OF ok(1) own, of F g link iu s link1 iu1 s1 t1 reqs1] ok by (auto split: if_splits)
    have "c = td_counter t1 ! nat ?o" using c(1) by (simp add: at_Inr_iff)
    moreover have "0 \<le> td_counter t1 ! nat ?o" using t1(4) at_o(2) by simp
    moreover have "nat ?o < length (td_counter t1)" using t1(1) o by (auto simp: tdma_ok_def)
    ultimately show ?thesis
      using False c t1 tdma_count_ok [OF t1(1), of "c + 1"] by (auto simp: tdma_owner_def)
  qed
qed

text \<open>The runs of the time-division system: any local port of the \<open>CORE_NUM\<close> routers may wake up at any time.\<close>

inductive tdma_reach :: "'d fp \<Rightarrow> tdma \<Rightarrow> bool" for F where
  init: "tdma_reach F tdma_new"
| wake: "tdma_reach F t \<Longrightarrow> 0 \<le> re_id (ie_route ie) \<Longrightarrow> re_id (ie_route ie) < int CORE_NUM \<Longrightarrow> shuffled numbers \<Longrightarrow>
    iu_wakeup_tdma F ie g numbers link iu sh t = Inr (link', iu', sh', t', reqs) \<Longrightarrow> tdma_reach F t'"

lemma tdma_first_wakeup:
  assumes "\<not> td_init t" and "0 \<le> re_id (ie_route ie)" and "re_id (ie_route ie) < int CORE_NUM" and "iu_id iu = 0"
  shows "iu_wakeup_tdma F ie g numbers link iu sh t
    = iu_wakeup_tdma F ie g numbers link iu sh (tdma_start (re_id (ie_route ie)) t)"
  using assms by (simp add: iu_wakeup_tdma_def Let_def tdma_start_def)

lemma tdma_reach_ok: "tdma_reach F t \<Longrightarrow> td_init t \<Longrightarrow> tdma_ok t"
proof (induction rule: tdma_reach.induct)
  case init
  then show ?case by (simp add: tdma_new_def)
next
  case (wake t ie numbers g link iu sh link' iu' sh' t' reqs)
  let ?r = "re_id (ie_route ie)"
  show ?case
  proof (cases "iu_id iu = 0")
    case False
    then have "t' = t" using wake.hyps by (auto simp: iu_wakeup_tdma_def bindR_Inr_iff split: prod.splits)
    with wake show ?thesis by simp
  next
    case True
    have s: "tdma_ok (tdma_start ?r t)" "td_init (tdma_start ?r t)"
      using tdma_start_ok [OF wake.IH wake.hyps(2,3)] by auto
    have w: "iu_wakeup_tdma F ie g numbers link iu sh (tdma_start ?r t) = Inr (link', iu', sh', t', reqs)"
    proof (cases "td_init t")
      case i: True
      then show ?thesis using wake.hyps by (simp add: tdma_start_def)
    next
      case i: False
      from tdma_first_wakeup [OF i wake.hyps(2,3) True] wake.hyps(5) show ?thesis by metis
    qed
    show ?thesis
    proof (cases "?r = tdma_owner (tdma_start ?r t)")
      case r: True
      from tdma_wakeup_owner [OF s True r wake.hyps(4) w] show ?thesis by blast
    next
      case r: False
      from tdma_wakeup_idle [OF s True wake.hyps(2,3) r, of F g numbers link sh] w s show ?thesis by auto
    qed
  qed
qed

text \<open>Claim C11. Isolation of the time-division mode: in every reachable state in which the slots have been set up there is
  exactly one owner among the routers, the owner is the one the current round names, and the local port of any
  other router, when it wakes up, takes no flit from its link, changes no state and asks to be woken one slot
  later. The owner keeps its slot until its counter has reached the slot length.\<close>

theorem tdma_isolation:
  assumes "tdma_reach F t" and "td_init t"
  shows "\<exists>owner. owner = td_round_list t ! nat (td_round_cnt t) \<and> 0 \<le> owner \<and> owner < int CORE_NUM
    \<and> (\<forall>r. 0 \<le> r \<and> r < int CORE_NUM \<longrightarrow> (0 \<le> td_counter t ! nat r) = (r = owner))
    \<and> (\<forall>ie g numbers link iu sh. iu_id iu = 0 \<and> 0 \<le> re_id (ie_route ie) \<and> re_id (ie_route ie) < int CORE_NUM
         \<and> re_id (ie_route ie) \<noteq> owner \<longrightarrow>
         iu_wakeup_tdma F ie g numbers link iu sh t = Inr (link, iu, sh, t, [Wake_router 100]))
    \<and> (\<forall>ie g numbers link iu sh link' iu' sh' t' reqs. iu_id iu = 0 \<and> re_id (ie_route ie) = owner \<and> shuffled numbers
         \<and> iu_wakeup_tdma F ie g numbers link iu sh t = Inr (link', iu', sh', t', reqs) \<longrightarrow>
         (tdma_owner t' = owner \<and> td_counter t ! nat owner < td_counter t' ! nat owner
          \<or> THRES_SLOT \<le> td_counter t ! nat owner \<and> link' = link))"
proof -
  have ok: "tdma_ok t" using tdma_reach_ok [OF assms] .
  have "nat THRES_SLOT = 100" by (simp add: THRES_SLOT_def)
  then have idle: "iu_wakeup_tdma F ie g numbers link iu sh t = Inr (link, iu, sh, t, [Wake_router 100])"
    if "iu_id iu = 0 \<and> 0 \<le> re_id (ie_route ie) \<and> re_id (ie_route ie) < int CORE_NUM
         \<and> re_id (ie_route ie) \<noteq> tdma_owner t" for ie g numbers link iu sh
    using tdma_wakeup_idle [OF ok assms(2), of iu ie] that by simp
  have owner: "tdma_owner t' = tdma_owner t \<and> td_counter t ! nat (tdma_owner t) < td_counter t' ! nat (tdma_owner t)
      \<or> THRES_SLOT \<le> td_counter t ! nat (tdma_owner t) \<and> link' = link"
    if "iu_id iu = 0 \<and> re_id (ie_route ie) = tdma_owner t \<and> shuffled numbers
         \<and> iu_wakeup_tdma F ie g numbers link iu sh t = Inr (link', iu', sh', t', reqs)"
    for ie g numbers link iu sh link' iu' sh' t' reqs
    using tdma_wakeup_owner [OF ok assms(2), of iu ie numbers F g link sh link' iu' sh' t' reqs] that
    by (auto split: if_splits)
  have counter: "\<forall>r. 0 \<le> r \<and> r < int CORE_NUM \<longrightarrow> (0 \<le> td_counter t ! nat r) = (r = tdma_owner t)"
    using tdma_counter_owner(2) [OF ok] by blast
  show ?thesis
    using tdma_owner_range [OF ok] counter idle owner
    by (intro exI [of _ "tdma_owner t"] conjI allI impI) (simp_all add: tdma_owner_def)
qed

definition demo_in_env :: "int \<Rightarrow> in_env" where
  "demo_in_env r = \<lparr>ie_route = \<lparr>re_id = r, re_num_rows = 4, re_num_cols = 4, re_routing_algorithm = 1,
     re_ordered = (\<lambda>_. False), re_curTick = 1000\<rparr>, ie_bit_width = 128, ie_pipe_stages = 1, ie_period = 500, ie_no_dest = []\<rparr>"

definition demo_input_unit :: InputUnit where
  "demo_input_unit = \<lparr>iu_id = 0, iu_direction = ''Local'', iu_vc_per_vnet = 1, iu_HR = HistoryRecord_new 8,
     iu_creditQueue = flitBuffer_new, iu_virtualChannels = [VirtualChannel_new], iu_num_buffer_writes = [0],
     iu_num_buffer_reads = [0], iu_round_flit = 0\<rparr>"

definition demo_shared :: in_shared where
  "demo_shared = \<lparr>is_ru = RoutingUnit_new, is_glob = route_glob_new, is_outBuf = demo_outputs,
     is_InS = InputUnitStats_new\<rparr>"

definition demo_draws :: rng where
  "demo_draws = \<lparr>rng_rand = 0, rng_my = (\<lambda>lo hi. lo), rng_mt = (\<lambda>lo hi. lo)\<rparr>"

theorem tdma_isolation_witness:
  "\<exists>t. tdma_reach int_fp t \<and> td_init t \<and> (\<forall>g numbers link sh.
     iu_wakeup_tdma int_fp (demo_in_env 5) g numbers link demo_input_unit sh t
       = Inr (link, demo_input_unit, sh, t, [Wake_router 100]))"
proof -
  let ?l = "NetworkLink_new 0 1 1 [] 128"
  let ?t = "(tdma_start 3 tdma_new)\<lparr>td_counter := (td_counter (tdma_start 3 tdma_new))[3 := 1]\<rparr>"
  have e: "re_id (ie_route (demo_in_env r)) = r" for r by (simp add: demo_in_env_def)
  have c: "td_counter (tdma_start 3 tdma_new) = [-1, -1, -1, 0] @ replicate 12 (-1)"
    by (simp add: tdma_start_def tdma_new_def CORE_NUM_def upt_rec numeral_eq_Suc)
  have "\<not> nl_isReady t ?l" for t by (simp add: nl_isReady_def NetworkLink_new_def fb_isReady_def flitBuffer_new_def)
  then have "iu_wakeup_tdma int_fp (demo_in_env 3) demo_draws (map int [0..<16]) ?l demo_input_unit demo_shared tdma_new
      = Inr (?l, demo_input_unit, demo_shared, ?t, [Wake_router 1])"
    by (simp add: iu_wakeup_tdma_def e c at_def put_def THRES_SLOT_def demo_input_unit_def Let_def)
  moreover have "shuffled (map int [0..<16])" by (auto simp: shuffled_def CORE_NUM_def image_iff Bex_def) presburger
  ultimately have r: "tdma_reach int_fp ?t"
    by (intro tdma_reach.wake [OF tdma_reach.init, where ie = "demo_in_env 3"]) (auto simp: e CORE_NUM_def)
  have i: "td_init ?t" by (simp add: tdma_start_def)
  have own: "td_round_list ?t ! nat (td_round_cnt ?t) = 3"
    by (simp add: tdma_start_def tdma_new_def CORE_NUM_def)
  have "iu_wakeup_tdma int_fp (demo_in_env 5) g numbers link demo_input_unit sh ?t
       = Inr (link, demo_input_unit, sh, ?t, [Wake_router 100])" for g numbers link sh
    using tdma_isolation [OF r i] unfolding own by (auto simp: e demo_input_unit_def CORE_NUM_def)
  with r i show ?thesis by blast
qed

section \<open>Detected packets are detoured\<close>

definition same_flow :: "RouteInfo \<Rightarrow> RouteInfo \<Rightarrow> bool" where
  "same_flow r r' \<longleftrightarrow> src_router r' = src_router r \<and> dest_router r' = dest_router r \<and> sTag r' = sTag r
     \<and> net_dest r' = net_dest r \<and> r_vnet r' = r_vnet r \<and> hops_traversed r' = hops_traversed r"

lemma same_flow_refl [simp]: "same_flow r r"
  by (simp add: same_flow_def)

lemma same_flow_setters [simp]:
  "same_flow r (setInter m r') = same_flow r r'" "same_flow r (setPassed r') = same_flow r r'"
  by (simp_all add: same_flow_def setInter_def setPassed_def)

lemma same_flow_pass_inter [simp]: "same_flow r (pass_inter env r') = same_flow r r'"
  by (simp add: pass_inter_def)

lemma valiant_inter_same_flow: "valiant_inter env g r = Inr r' \<Longrightarrow> same_flow r r'"
  by (auto simp: valiant_inter_def Let_def bindR_Inr_iff split: if_splits)

lemma ori_inter_same_flow: "ori_inter env g r = Inr r' \<Longrightarrow> same_flow r r'"
  by (auto simp: ori_inter_def Let_def bindR_Inr_iff)

lemma same_flow_trans: "same_flow a b \<Longrightarrow> same_flow b c \<Longrightarrow> same_flow a c"
  by (simp add: same_flow_def)

lemma outportValiant_same_flow: "outportValiant env g ru r i d = Inr (k, ru', r') \<Longrightarrow> same_flow r r'"
  by (auto simp: outportValiant_def Let_def bindR_Inr_iff split: if_splits
      dest!: valiant_inter_same_flow intro: same_flow_trans [of r "pass_inter env r"])

lemma outportOriValiant_same_flow: "outportOriValiant env g ru r i d = Inr (k, ru', r') \<Longrightarrow> same_flow r r'"
  by (auto simp: outportOriValiant_def Let_def bindR_Inr_iff split: if_splits
      dest!: ori_inter_same_flow intro: same_flow_trans [of r "pass_inter env r"])

text \<open>Route computation only ever changes the intermediate router and the passed flag of a route.\<close>

lemma outportCompute_same_flow:
  assumes "outportCompute F env g ru gl r i d = Inr (k, ru', r', gl')"
  shows "same_flow r r'"
proof -
  have "run_algorithm F env g ru gl r i d = Inr (k, ru1, r1, gl1) \<Longrightarrow> same_flow r r1" for k ru1 r1 gl1
    by (cases "to_RoutingAlgorithm (re_routing_algorithm env)")
      (auto simp: run_algorithm_def with_route_def bindR_Inr_iff
        dest: outportValiant_same_flow outportOriValiant_same_flow)
  with assms show ?thesis
    by (auto simp: outportCompute_def bindR_Inr_iff split: if_splits prod.splits)
qed

lemma flow_entry_same: "same_flow r r' \<Longrightarrow> flow_entry ie r' m = flow_entry ie r m"
  by (simp add: same_flow_def flow_entry_def)

definition risk_of :: "outportRecord \<Rightarrow> int \<Rightarrow> patternEntry \<Rightarrow> HistoryRecord \<Rightarrow> bool" where
  "risk_of ob outport e h \<longleftrightarrow> window_full h \<and> (majority_flow e h
     \<or> eachEn \<le> 2 * count_list (or_record ob ! nat outport) (pe_src e, pe_dst e))"

lemma riskFind_risk_of:
  assumes "hr_ok h" and "2 \<le> hr_patternLen h" and "or_ok ob" and "pe_src e \<noteq> -1"
    and "0 \<le> outport" and "outport < int (length (or_record ob))"
  shows "\<exists>avg st' h'. riskFind F junk e p packetHead ob (pe_src e) (pe_dst e) 7 st outport h
    = Inr (risk_of ob outport e h, avg, st', h') \<and> same_counts st st' \<and> hr_patternTable h' = hr_patternTable h"
  using riskFind_all_variants [OF assms, of F junk e p packetHead "pe_dst e" st]
    riskFind_counts [OF assms(1), of F junk e p packetHead ob "pe_src e" "pe_dst e" 7 st outport]
  unfolding risk_of_def by blast

text \<open>Claim C34. The detecting unit at the local port, on a head flit for another router that is not yet tagged. The
  flow is entered into the short-term history and counted. It is risky exactly when the updated window is full and the
  packet's flow holds a strict majority of it or half of the record of its output port. The packet is counted as risky exactly then, and
  tagged for a detour and counted as detoured exactly when it is risky and the calibration draw is below the bound the
  detour rate sets; a risky packet whose draw is not below the bound is counted and passes untagged. Nothing else
  about the flit changes but the intermediate router the trial route computation may have chosen. In the latency
  configuration the simulation stops at a risky packet instead.\<close>

theorem detection_tags_packet:
  assumes "is_head (f_type fl)" and "dest_router (f_route fl) \<noteq> re_id (ie_route ie)" and "sTag (f_route fl) = 0"
    and "hr_ok (iu_HR iu)" and "2 \<le> hr_patternLen (iu_HR iu)" and "or_ok (is_outBuf sh)"
    and "src_router (f_route fl) \<noteq> -1"
    and "outportCompute F (ie_route ie) (gs 0) (is_ru sh) (is_glob sh) (f_route fl) (iu_id iu) (iu_direction iu)
      = Inr (outport, ru, route1, gl)"
    and "0 \<le> outport" and "outport < int (length (or_record (is_outBuf sh)))"
  shows "\<exists>h. updateHistory (flow_entry ie (f_route fl) (iu_id iu)) (iu_HR iu) = Inr h \<and>
    (let risk = risk_of (is_outBuf sh) outport (flow_entry ie (f_route fl) (iu_id iu)) h;
         detour = (risk \<and> rng_my (gs 1) 0 10000 < cali) in
     if risk \<and> latency then inspect_flit F junk latency cali ie gs fl iu sh = Inl Exit_0
     else \<exists>iu' sh'. inspect_flit F junk latency cali ie gs fl iu sh
           = Inr (fl\<lparr>f_route := (if detour then setTag 1 route1 else route1)\<rparr>, iu', sh')
         \<and> sTag route1 = 0
         \<and> iu_virtualChannels iu' = iu_virtualChannels iu \<and> hr_patternTable (iu_HR iu') = hr_patternTable h
         \<and> all_counts (is_InS sh') = all_counts (is_InS sh) + 1
         \<and> risk_counts (is_InS sh') = risk_counts (is_InS sh) + (if risk then 1 else 0)
         \<and> detour_counts (is_InS sh') = detour_counts (is_InS sh) + (if detour then 1 else 0))"
proof -
  let ?e = "flow_entry ie (f_route fl) (iu_id iu)"
  from sih.push_law [of "iu_HR iu" ?e] assms(4,5) obtain h where
    h: "updateHistory ?e (iu_HR iu) = Inr h" "hr_ok h" "hr_patternLen h = hr_patternLen (iu_HR iu)"
    by (auto simp: updateHistory_def bindR_Inr_iff)
  have sf: "same_flow (f_route fl) route1" using outportCompute_same_flow [OF assms(8)] .
  then have e: "flow_entry ie route1 (iu_id iu) = ?e" "src_router route1 = pe_src ?e" "dest_router route1 = pe_dst ?e"
    by (simp_all add: flow_entry_same) (simp_all add: same_flow_def flow_entry_def)
  have src: "pe_src ?e \<noteq> -1" using assms(7) by (simp add: flow_entry_def)
  let ?st = "(is_InS sh)\<lparr>all_counts := all_counts (is_InS sh) + 1\<rparr>"
  from riskFind_risk_of [OF h(2) assms(5) [folded h(3)] assms(6) src assms(9,10), of F junk 0 True ?st]
  obtain avg st' h' where rf: "riskFind F junk ?e 0 True (is_outBuf sh) (pe_src ?e) (pe_dst ?e) 7 ?st outport h
      = Inr (risk_of (is_outBuf sh) outport ?e h, avg, st', h')" "same_counts ?st st'" "hr_patternTable h' = hr_patternTable h"
    by blast
  have head: "(f_type fl = HEAD \<or> f_type fl = HEAD_TAIL) = True" using assms(1) by (simp add: is_head_def)
  show ?thesis
    using h(1) rf assms(2,3,8) e sf
    by (auto simp: inspect_flit_def head Let_def same_counts_def same_flow_def)
qed

definition demo_head :: flit where
  "demo_head = flit_new 0 0 0 0 ((RouteInfo_default [])\<lparr>src_router := 5, dest_router := 6\<rparr>) 1 (Some 0) 128 128 900"

definition demo_watched_unit :: InputUnit where
  "demo_watched_unit = demo_input_unit\<lparr>iu_HR := \<lparr>hr_patternTable = replicate 3 (flow_entry (demo_in_env 5) (f_route demo_head) 0),
     hr_patternLen = 3, hr_LIH_table = replicate 4 LIH_entry_new\<rparr>\<rparr>"

definition demo_ports_shared :: in_shared where
  "demo_ports_shared = demo_shared\<lparr>is_ru := RoutingUnit_new\<lparr>outports_dirn2idx := [''East'' \<mapsto> 0]\<rparr>\<rparr>"

theorem detection_tags_packet_witness:
  "\<exists>iu' sh' r. inspect_flit int_fp 0 False CALI_default (demo_in_env 5) (\<lambda>_. demo_draws) demo_head demo_watched_unit demo_ports_shared
     = Inr (demo_head\<lparr>f_route := setTag 1 r\<rparr>, iu', sh') \<and> detour_counts (is_InS sh') = 1"
proof -
  let ?ie = "demo_in_env 5" and ?r = "f_route demo_head"
  note defs = demo_head_def flit_new_def RouteInfo_default_def demo_watched_unit_def demo_input_unit_def demo_in_env_def
    demo_ports_shared_def demo_shared_def
  have head: "is_head (f_type demo_head)" "dest_router ?r = 6" "src_router ?r = 5" "sTag ?r = 0"
    by (simp_all add: defs is_head_def flit_kind_def)
  have hr: "hr_ok (iu_HR demo_watched_unit)" "2 \<le> hr_patternLen (iu_HR demo_watched_unit)"
    by (simp_all add: demo_watched_unit_def hr_ok_def LIH_length_def)
  have ob: "or_ok (is_outBuf demo_ports_shared)" "length (or_record (is_outBuf demo_ports_shared)) = 1"
    by (simp_all add: demo_ports_shared_def demo_shared_def or_ok_def demo_outputs_def eachEn_def)
  have oc: "outportCompute int_fp (ie_route ?ie) demo_draws (is_ru demo_ports_shared) (is_glob demo_ports_shared) ?r
      (iu_id demo_watched_unit) (iu_direction demo_watched_unit)
    = Inr (0, is_ru demo_ports_shared, ?r, \<lparr>counterr = 1, routerr = (replicate MAXN 0)[5 := 1]\<rparr>)"
    by (simp add: outportCompute_def run_algorithm_def to_RoutingAlgorithm_def with_route_def outportComputeXY_def xy_dirn_def
        Let_def outport_of_def count_route_def at_def put_def route_glob_new_def MAXN_def defs)
  let ?e = "flow_entry ?ie ?r 0"
  let ?h = "(iu_HR demo_watched_unit)\<lparr>hr_patternTable := [?e, ?e, ?e]\<rparr>"
  have up: "updateHistory ?e (iu_HR demo_watched_unit) = Inr ?h"
    by (simp add: updateHistory_def slide_def demo_watched_unit_def numeral_eq_Suc)
  have "pe_cycleRecieve ?e \<noteq> 0" by (simp add: flow_entry_def getCycle_def demo_in_env_def)
  then have risk: "risk_of (is_outBuf demo_ports_shared) 0 ?e ?h"
    by (simp add: risk_of_def window_full_def majority_flow_def matches_def entryCmp_def demo_watched_unit_def)
  have idz: "iu_id demo_watched_unit = 0" by (simp add: demo_watched_unit_def demo_input_unit_def)
  have z: "all_counts (is_InS demo_ports_shared) = 0" "detour_counts (is_InS demo_ports_shared) = 0"
    by (simp_all add: demo_ports_shared_def demo_shared_def InputUnitStats_new_def)
  have ne: "dest_router ?r \<noteq> re_id (ie_route ?ie)" "src_router ?r \<noteq> -1" "rng_my demo_draws 0 10000 < CALI_default"
    using head by (simp_all add: demo_in_env_def demo_draws_def CALI_default_def)
  from detection_tags_packet [where gs = "\<lambda>_. demo_draws" and latency = False and junk = 0 and cali = CALI_default,
      OF head(1) ne(1) head(4) hr ob(1) ne(2) oc]
  show ?thesis using ob(2) up risk z ne(3) unfolding idz by (auto simp: Let_def)
qed

end
