(* ===== verification/Switch_Allocation.thy ===== *)
theory Switch_Allocation
  imports Input_Unit
begin

text \<open>
  \<open>SwitchAllocator\<close> and \<open>CrossbarSwitch\<close>, with the record \<open>Router\<close> they act on. The allocator is separable: every input
  port picks one of its virtual channels in round-robin order (\<open>arbitrate_inports\<close>), then every output port grants one of
  the input ports that asked for it (\<open>arbitrate_outports\<close>), which moves the flit from the input buffer to the crossbar,
  takes a credit of the output channel and returns a credit upstream. The activity counters, \<open>double\<close>s in the source,
  are natural numbers.
\<close>

section \<open>State\<close>

record SwitchAllocator =
  sa_num_inports :: nat
  sa_num_outports :: nat
  sa_num_vcs :: nat
  sa_vc_per_vnet :: nat
  sa_input_arbiter_activity :: nat
  sa_output_arbiter_activity :: nat
  sa_round_robin_invc :: "int list"
  sa_round_robin_inport :: "int list"
  sa_port_requests :: "int list"
  sa_vc_winners :: "int list"

definition SwitchAllocator_new :: "nat \<Rightarrow> nat \<Rightarrow> SwitchAllocator" where
  "SwitchAllocator_new num_vcs vc_per_vnet = \<lparr>sa_num_inports = 0, sa_num_outports = 0, sa_num_vcs = num_vcs,
     sa_vc_per_vnet = vc_per_vnet, sa_input_arbiter_activity = 0, sa_output_arbiter_activity = 0,
     sa_round_robin_invc = [], sa_round_robin_inport = [], sa_port_requests = [], sa_vc_winners = []\<rparr>"

definition sa_init :: "nat \<Rightarrow> nat \<Rightarrow> SwitchAllocator \<Rightarrow> SwitchAllocator" where
  "sa_init num_inports num_outports sa = sa\<lparr>sa_num_inports := num_inports, sa_num_outports := num_outports,
     sa_round_robin_invc := replicate num_inports 0, sa_port_requests := replicate num_inports (-1),
     sa_vc_winners := replicate num_inports (-1), sa_round_robin_inport := replicate num_outports 0\<rparr>"

record CrossbarSwitch =
  xb_crossbar_activity :: nat
  xb_switchBuffers :: "flitBuffer list"

definition CrossbarSwitch_new :: CrossbarSwitch where
  "CrossbarSwitch_new = \<lparr>xb_crossbar_activity = 0, xb_switchBuffers = []\<rparr>"

definition xb_init :: "nat \<Rightarrow> CrossbarSwitch \<Rightarrow> CrossbarSwitch" where
  "xb_init num_inports xb = (let bs = xb_switchBuffers xb in
     xb\<lparr>xb_switchBuffers := take num_inports bs @ replicate (num_inports - length bs) flitBuffer_new\<rparr>)"

record Router =
  rt_latency :: Cycles
  rt_virtual_networks :: nat
  rt_vc_per_vnet :: nat
  rt_num_vcs :: nat
  rt_bit_width :: nat
  rt_shared :: in_shared
  rt_tdma :: tdma
  rt_sa :: SwitchAllocator
  rt_xbar :: CrossbarSwitch
  rt_input_unit :: "InputUnit list"
  rt_output_unit :: "OutputUnit list"
  rt_consumer :: Consumer

definition getInputUnit :: "int \<Rightarrow> Router \<Rightarrow> InputUnit res" where
  "getInputUnit port rt = bindR (assertR (0 \<le> port \<and> port < int (length (rt_input_unit rt)))) (\<lambda>_.
     Inr (rt_input_unit rt ! nat port))"

definition getOutputUnit :: "int \<Rightarrow> Router \<Rightarrow> OutputUnit res" where
  "getOutputUnit port rt = bindR (assertR (0 \<le> port \<and> port < int (length (rt_output_unit rt)))) (\<lambda>_.
     Inr (rt_output_unit rt ! nat port))"

text \<open>Writing back a unit that was fetched with the functions above.\<close>

definition setInputUnit :: "int \<Rightarrow> InputUnit \<Rightarrow> Router \<Rightarrow> Router" where
  "setInputUnit port iu rt = rt\<lparr>rt_input_unit := (rt_input_unit rt)[nat port := iu]\<rparr>"

definition setOutputUnit :: "int \<Rightarrow> OutputUnit \<Rightarrow> Router \<Rightarrow> Router" where
  "setOutputUnit port ou rt = rt\<lparr>rt_output_unit := (rt_output_unit rt)[nat port := ou]\<rparr>"

definition update_sw_winner :: "int \<Rightarrow> flit \<Rightarrow> CrossbarSwitch \<Rightarrow> CrossbarSwitch res" where
  "update_sw_winner inport t_flit xb = bindR (at (xb_switchBuffers xb) inport) (\<lambda>b.
     bindR (put (xb_switchBuffers xb) inport (fb_insert t_flit b)) (\<lambda>bs. Inr (xb\<lparr>xb_switchBuffers := bs\<rparr>)))"

definition grant_switch :: "int \<Rightarrow> flit \<Rightarrow> Router \<Rightarrow> Router res" where
  "grant_switch inport t_flit rt = bindR (update_sw_winner inport t_flit (rt_xbar rt)) (\<lambda>xb. Inr (rt\<lparr>rt_xbar := xb\<rparr>))"

section \<open>Stage 1: one channel per input port\<close>

definition get_vnet :: "int \<Rightarrow> Router \<Rightarrow> int res" where
  "get_vnet invc rt = bindR (failIf (sa_vc_per_vnet (rt_sa rt) = 0) Div_by_zero) (\<lambda>_.
     let vnet = invc sdiv int (sa_vc_per_vnet (rt_sa rt)) in
     bindR (assertR (0 \<le> vnet \<and> vnet < int (rt_virtual_networks rt))) (\<lambda>_. Inr vnet))"

definition send_allowed :: "in_env \<Rightarrow> int \<Rightarrow> int \<Rightarrow> int \<Rightarrow> int \<Rightarrow> Router \<Rightarrow> bool res" where
  "send_allowed ie inport invc outport outvc rt =
     bindR (get_vnet invc rt) (\<lambda>vnet.
     bindR (getOutputUnit outport rt) (\<lambda>output_unit.
     bindR (if outvc = -1 then bindR (ou_has_free_vc (ie_now ie) vnet output_unit) (\<lambda>b. Inr (b, b))
            else bindR (ou_has_credit (ie_now ie) outvc output_unit) (\<lambda>b. Inr (True, b))) (\<lambda>(has_outvc, has_credit).
     if \<not> has_outvc \<or> \<not> has_credit then Inr False
     else if re_ordered (ie_route ie) vnet then
       bindR (getInputUnit inport rt) (\<lambda>input_unit.
       bindR (iu_get_enqueue_time invc input_unit) (\<lambda>t_enqueue_time.
       bindR (existsR (\<lambda>temp_vc.
           bindR (iu_need_stage temp_vc SA (ie_now ie) input_unit) (\<lambda>b.
             if \<not> b then Inr False
             else bindR (iu_get_outport temp_vc input_unit) (\<lambda>k.
                  bindR (iu_get_enqueue_time temp_vc input_unit) (\<lambda>t. Inr (k = outport \<and> t < t_enqueue_time)))))
         (vc_range vnet (sa_vc_per_vnet (rt_sa rt)))) (\<lambda>violated. Inr (\<not> violated))))
     else Inr True)))"

definition wrap_next :: "nat \<Rightarrow> int \<Rightarrow> int" where
  "wrap_next n i = (if i + 1 \<ge> int n then 0 else i + 1)"

text \<open>The loop over the channels of one port; the first argument counts the iterations left.\<close>

fun pick_invc :: "nat \<Rightarrow> in_env \<Rightarrow> int \<Rightarrow> int \<Rightarrow> Router \<Rightarrow> (int \<times> int) option res" where
  "pick_invc 0 ie inport invc rt = Inr None"
| "pick_invc (Suc n) ie inport invc rt =
     bindR (getInputUnit inport rt) (\<lambda>input_unit.
     bindR (iu_need_stage invc SA (ie_now ie) input_unit) (\<lambda>b.
     bindR (if b then
              bindR (iu_get_outport invc input_unit) (\<lambda>outport.
              bindR (iu_get_outvc invc input_unit) (\<lambda>outvc.
              bindR (send_allowed ie inport invc outport outvc rt) (\<lambda>make_request.
                Inr (if make_request then Some (outport, invc) else None))))
            else Inr None) (\<lambda>w.
     case w of Some r \<Rightarrow> Inr (Some r)
     | None \<Rightarrow> pick_invc n ie inport (wrap_next (sa_num_vcs (rt_sa rt)) invc) rt)))"

definition arbitrate_inport :: "in_env \<Rightarrow> int \<Rightarrow> Router \<Rightarrow> Router res" where
  "arbitrate_inport ie inport rt =
     (let sa = rt_sa rt in
      bindR (at (sa_round_robin_invc sa) inport) (\<lambda>invc.
      bindR (pick_invc (sa_num_vcs sa) ie inport invc rt) (\<lambda>w.
      case w of None \<Rightarrow> Inr rt
      | Some (outport, invc') \<Rightarrow>
          bindR (put (sa_port_requests sa) inport outport) (\<lambda>reqs.
          bindR (put (sa_vc_winners sa) inport invc') (\<lambda>wins.
            Inr (rt\<lparr>rt_sa := sa\<lparr>sa_input_arbiter_activity := sa_input_arbiter_activity sa + 1,
                    sa_port_requests := reqs, sa_vc_winners := wins\<rparr>\<rparr>))))))"

definition arbitrate_inports :: "in_env \<Rightarrow> Router \<Rightarrow> Router res" where
  "arbitrate_inports ie rt = loopR (arbitrate_inport ie) (map int [0..<sa_num_inports (rt_sa rt)]) rt"

section \<open>Stage 2: one input port per output port\<close>

definition vc_allocate :: "in_env \<Rightarrow> int \<Rightarrow> int \<Rightarrow> int \<Rightarrow> Router \<Rightarrow> (int \<times> Router) res" where
  "vc_allocate ie outport inport invc rt =
     bindR (get_vnet invc rt) (\<lambda>vnet.
     bindR (getOutputUnit outport rt) (\<lambda>ou.
     bindR (ou_select_free_vc (ie_now ie) vnet ou) (\<lambda>(outvc, ou').
     bindR (assertR (outvc \<noteq> -1)) (\<lambda>_.
     bindR (getInputUnit inport rt) (\<lambda>iu.
     bindR (iu_grant_outvc invc outvc iu) (\<lambda>iu'.
       Inr (outvc, setInputUnit inport iu' (setOutputUnit outport ou' rt))))))))"

definition release_invc :: "in_env \<Rightarrow> int \<Rightarrow> flit_type \<Rightarrow> InputUnit \<Rightarrow> (InputUnit \<times> wake_req list) res" where
  "release_invc ie invc ty iu =
     (if ty = TAIL \<or> ty = HEAD_TAIL then
        bindR (iu_isReady invc (ie_now ie) iu) (\<lambda>b.
        bindR (assertR (\<not> b)) (\<lambda>_.
        bindR (iu_set_vc_idle invc (ie_now ie) iu) (\<lambda>iu'.
          Inr (iu_increment_credit ie invc True (ie_now ie) iu'))))
      else Inr (iu_increment_credit ie invc False (ie_now ie) iu))"

definition grant_outport :: "in_env \<Rightarrow> int \<Rightarrow> int \<Rightarrow> Router \<Rightarrow> (Router \<times> wake_req list) res" where
  "grant_outport ie outport inport rt =
     bindR (getOutputUnit outport rt) (\<lambda>_.
     bindR (getInputUnit inport rt) (\<lambda>iu.
     bindR (at (sa_vc_winners (rt_sa rt)) inport) (\<lambda>invc.
     bindR (iu_get_outvc invc iu) (\<lambda>outvc0.
     bindR (if outvc0 = -1 then vc_allocate ie outport inport invc rt else Inr (outvc0, rt)) (\<lambda>(outvc, rt1).
     bindR (getInputUnit inport rt1) (\<lambda>iu1.
     bindR (iu_getTopFlit invc iu1) (\<lambda>(t_flit, iu2).
     bindR (getOutputUnit outport rt1) (\<lambda>ou1.
     bindR (ou_decrement_credit outvc ou1) (\<lambda>ou2.
       let t_flit' = advance_stage ST (ie_now ie) (t_flit\<lparr>f_outport := outport, f_vc := outvc\<rparr>) in
     bindR (grant_switch inport t_flit' (setOutputUnit outport ou2 rt1)) (\<lambda>rt2.
     bindR (release_invc ie invc (f_type t_flit') iu2) (\<lambda>(iu3, reqs).
       let sa = rt_sa rt2 in
     bindR (put (sa_port_requests sa) inport (-1)) (\<lambda>prs.
     bindR (put (sa_round_robin_inport sa) outport (wrap_next (sa_num_inports sa) inport)) (\<lambda>rri.
     bindR (put (sa_round_robin_invc sa) inport (wrap_next (sa_num_vcs sa) invc)) (\<lambda>rrv.
       Inr ((setInputUnit inport iu3 rt2)\<lparr>rt_sa := sa\<lparr>sa_output_arbiter_activity := sa_output_arbiter_activity sa + 1,
              sa_port_requests := prs, sa_round_robin_inport := rri, sa_round_robin_invc := rrv\<rparr>\<rparr>, reqs)))))))))))))))"

fun find_request :: "nat \<Rightarrow> SwitchAllocator \<Rightarrow> int \<Rightarrow> int \<Rightarrow> int option res" where
  "find_request 0 sa outport inport = Inr None"
| "find_request (Suc n) sa outport inport =
     bindR (at (sa_port_requests sa) inport) (\<lambda>k.
       if k = outport then Inr (Some inport) else find_request n sa outport (wrap_next (sa_num_inports sa) inport))"

definition arbitrate_outport :: "in_env \<Rightarrow> int \<Rightarrow> Router \<times> wake_req list \<Rightarrow> (Router \<times> wake_req list) res" where
  "arbitrate_outport ie outport = (\<lambda>(rt, reqs).
     let sa = rt_sa rt in
     bindR (at (sa_round_robin_inport sa) outport) (\<lambda>inport.
     bindR (find_request (sa_num_inports sa) sa outport inport) (\<lambda>w.
     case w of None \<Rightarrow> Inr (rt, reqs)
     | Some inport' \<Rightarrow> bindR (grant_outport ie outport inport' rt) (\<lambda>(rt', rs). Inr (rt', reqs @ rs)))))"

definition arbitrate_outports :: "in_env \<Rightarrow> Router \<Rightarrow> (Router \<times> wake_req list) res" where
  "arbitrate_outports ie rt = loopR (arbitrate_outport ie) (map int [0..<sa_num_outports (rt_sa rt)]) (rt, [])"

section \<open>The allocator's wake-up\<close>

definition clear_request_vector :: "Router \<Rightarrow> Router" where
  "clear_request_vector rt = rt\<lparr>rt_sa := (rt_sa rt)\<lparr>sa_port_requests := map (\<lambda>_. -1) (sa_port_requests (rt_sa rt))\<rparr>\<rparr>"

definition check_for_wakeup :: "in_env \<Rightarrow> Router \<Rightarrow> wake_req list res" where
  "check_for_wakeup ie rt =
     (let next_cycle = clockEdge_at (ie_period ie) (ie_now ie) 1; sa = rt_sa rt in
      if alreadyScheduled next_cycle (rt_consumer rt) then Inr []
      else bindR (existsR (\<lambda>(i, j). bindR (getInputUnit (int i) rt) (iu_need_stage (int j) SA next_cycle))
                   (List.product [0..<sa_num_inports sa] [0..<sa_num_vcs sa])) (\<lambda>b.
             Inr (if b then [Wake_router 1] else [])))"

definition sa_wakeup :: "in_env \<Rightarrow> Router \<Rightarrow> (Router \<times> wake_req list) res" where
  "sa_wakeup ie rt =
     bindR (arbitrate_inports ie rt) (\<lambda>rt1.
     bindR (arbitrate_outports ie rt1) (\<lambda>(rt2, reqs).
       let rt3 = clear_request_vector rt2 in
     bindR (check_for_wakeup ie rt3) (\<lambda>ws. Inr (rt3, reqs @ ws))))"

definition sa_resetStats :: "SwitchAllocator \<Rightarrow> SwitchAllocator" where
  "sa_resetStats sa = sa\<lparr>sa_input_arbiter_activity := 0, sa_output_arbiter_activity := 0\<rparr>"

section \<open>Crossbar\<close>

definition xb_send :: "in_env \<Rightarrow> nat \<Rightarrow> Router \<times> wake_req list \<Rightarrow> (Router \<times> wake_req list) res" where
  "xb_send ie i = (\<lambda>(rt, reqs).
     bindR (at (xb_switchBuffers (rt_xbar rt)) (int i)) (\<lambda>b.
     if \<not> fb_isReady (ie_now ie) b then Inr (rt, reqs)
     else bindR (fb_peekTopFlit b) (\<lambda>t_flit.
       if is_stage ST (ie_now ie) t_flit then
         let edge = clockEdge_at (ie_period ie) (ie_now ie) 1;
             t_flit' = (advance_stage LT edge t_flit)\<lparr>f_time := edge\<rparr> in
         bindR (getOutputUnit (f_outport t_flit) rt) (\<lambda>ou.
         bindR (fb_getTopFlit b) (\<lambda>(_, b').
           let (ou', rs) = ou_insert_flit (ie_period ie) (ie_now ie) t_flit' ou; xb = rt_xbar rt in
           Inr ((setOutputUnit (f_outport t_flit) ou' rt)\<lparr>rt_xbar := xb\<lparr>xb_switchBuffers := (xb_switchBuffers xb)[i := b'],
                  xb_crossbar_activity := xb_crossbar_activity xb + 1\<rparr>\<rparr>, reqs @ rs)))
       else Inr (rt, reqs))))"

definition xb_wakeup :: "in_env \<Rightarrow> Router \<Rightarrow> (Router \<times> wake_req list) res" where
  "xb_wakeup ie rt = loopR (xb_send ie) [0..<length (xb_switchBuffers (rt_xbar rt))] (rt, [])"

fun fbs_functionalRead :: "'h access \<Rightarrow> flitBuffer list \<Rightarrow> bool \<Rightarrow> 'h \<Rightarrow> (bool \<times> 'h) res" where
  "fbs_functionalRead acc [] rd h = Inr (rd, h)"
| "fbs_functionalRead acc (b # bs) rd h =
     bindR (fb_functionalRead acc b h) (\<lambda>(r, h'). fbs_functionalRead acc bs (if r then True else rd) h')"

definition xb_functionalRead :: "'h access \<Rightarrow> CrossbarSwitch \<Rightarrow> 'h \<Rightarrow> (bool \<times> 'h) res" where
  "xb_functionalRead acc xb h = fbs_functionalRead acc (xb_switchBuffers xb) False h"

fun fbs_functionalWrite :: "'h access \<Rightarrow> flitBuffer list \<Rightarrow> nat \<Rightarrow> 'h \<Rightarrow> (nat \<times> 'h) res" where
  "fbs_functionalWrite acc [] num h = Inr (num, h)"
| "fbs_functionalWrite acc (b # bs) num h =
     bindR (fb_functionalWrite acc b h) (\<lambda>(n, h'). fbs_functionalWrite acc bs (num + n) h')"

definition xb_functionalWrite :: "'h access \<Rightarrow> CrossbarSwitch \<Rightarrow> 'h \<Rightarrow> (nat \<times> 'h) res" where
  "xb_functionalWrite acc xb h = fbs_functionalWrite acc (xb_switchBuffers xb) 0 h"

definition xb_resetStats :: "CrossbarSwitch \<Rightarrow> CrossbarSwitch" where
  "xb_resetStats xb = xb\<lparr>xb_crossbar_activity := 0\<rparr>"

end
