(* ===== verification/Switch_Safety.thy ===== *)
theory Switch_Safety
  imports Switch_Allocation
begin

text \<open>
  The switch allocation cannot fail: from a router state that satisfies the invariant \<open>rt_ok\<close>, the wake-up of the
  allocator returns, keeps the invariant, and moves a matching of flits from the input buffers to the crossbar, at most
  one per input port and at most one per output port, losing and duplicating none.
\<close>

section \<open>Invariant\<close>

fun tail_last :: "flit list \<Rightarrow> bool" where
  "tail_last [] = True"
| "tail_last (f # fs) = ((is_tail (f_type f) \<longrightarrow> fs = []) \<and> tail_last fs)"

definition out_vc_ok :: "Tick \<Rightarrow> OutputUnit \<Rightarrow> int \<Rightarrow> bool" where
  "out_vc_ok now ou k \<longleftrightarrow> 0 \<le> k \<and> k < int (length (ou_outVcState ou)) \<and> ov_isInState ACTIVE now (ou_outVcState ou ! nat k)"

text \<open>An idle output channel always has a credit: \<open>send_allowed\<close> relies on it when it lets a head flit go without
  looking at the credits.\<close>

definition ou_ok :: "nat \<Rightarrow> OutputUnit \<Rightarrow> bool" where
  "ou_ok vnets ou \<longleftrightarrow> (\<forall>w \<in> set (ou_outVcState ou). ov_vc_state w = IDLE \<longrightarrow> 0 < ov_credit_count w)
     \<and> (\<forall>vnet. 0 \<le> vnet \<and> vnet < int vnets \<longrightarrow> ou_has_vnet vnet ou)"

definition vc_ok :: "Tick \<Rightarrow> OutputUnit list \<Rightarrow> VirtualChannel \<Rightarrow> bool" where
  "vc_ok now ous v \<longleftrightarrow> (vc_flits v \<noteq> [] \<longrightarrow> fst (vc_state v) = ACTIVE)
     \<and> (if fst (vc_state v) = ACTIVE
        then snd (vc_state v) \<le> now \<and> 0 \<le> vc_output_port v \<and> vc_output_port v < int (length ous)
           \<and> (vc_output_vc v \<noteq> -1 \<longrightarrow> out_vc_ok now (ous ! nat (vc_output_port v)) (vc_output_vc v))
        else vc_output_vc v = -1)
     \<and> tail_last (vc_flits v)"

definition rt_shape :: "Router \<Rightarrow> bool" where
  "rt_shape rt \<longleftrightarrow>
     (let sa = rt_sa rt; n = length (rt_input_unit rt); m = length (rt_output_unit rt) in
      sa_num_inports sa = n \<and> sa_num_outports sa = m \<and> length (sa_round_robin_invc sa) = n
      \<and> length (sa_port_requests sa) = n \<and> length (sa_vc_winners sa) = n \<and> length (sa_round_robin_inport sa) = m
      \<and> length (xb_switchBuffers (rt_xbar rt)) = n
      \<and> 0 < sa_vc_per_vnet sa \<and> sa_num_vcs sa = rt_virtual_networks rt * sa_vc_per_vnet sa
      \<and> (\<forall>i < n. length (iu_virtualChannels (rt_input_unit rt ! i)) = sa_num_vcs sa)
      \<and> (\<forall>k \<in> set (sa_round_robin_invc sa). 0 \<le> k \<and> (k < int (sa_num_vcs sa) \<or> sa_num_vcs sa = 0))
      \<and> (\<forall>k \<in> set (sa_round_robin_inport sa). 0 \<le> k \<and> (k < int n \<or> n = 0)))"

lemma rt_shapeD:
  assumes "rt_shape rt"
  shows "sa_num_inports (rt_sa rt) = length (rt_input_unit rt)"
    and "sa_num_outports (rt_sa rt) = length (rt_output_unit rt)"
    and "length (sa_round_robin_invc (rt_sa rt)) = length (rt_input_unit rt)"
    and "length (sa_port_requests (rt_sa rt)) = length (rt_input_unit rt)"
    and "length (sa_vc_winners (rt_sa rt)) = length (rt_input_unit rt)"
    and "length (sa_round_robin_inport (rt_sa rt)) = length (rt_output_unit rt)"
    and "\<forall>k \<in> set (sa_round_robin_invc (rt_sa rt)). 0 \<le> k \<and> (k < int (sa_num_vcs (rt_sa rt)) \<or> sa_num_vcs (rt_sa rt) = 0)"
    and "\<forall>k \<in> set (sa_round_robin_inport (rt_sa rt)). 0 \<le> k
      \<and> (k < int (length (rt_input_unit rt)) \<or> length (rt_input_unit rt) = 0)"
  using assms unfolding rt_shape_def Let_def by (iprover | argo)+

definition rt_ok :: "Tick \<Rightarrow> Router \<Rightarrow> bool" where
  "rt_ok now rt \<longleftrightarrow> rt_shape rt
     \<and> (\<forall>ou \<in> set (rt_output_unit rt). ou_ok (rt_virtual_networks rt) ou)
     \<and> (\<forall>iu \<in> set (rt_input_unit rt). \<forall>v \<in> set (iu_virtualChannels iu). vc_ok now (rt_output_unit rt) v)"

section \<open>The output side of a grant\<close>

definition has_room :: "Tick \<Rightarrow> int \<Rightarrow> int \<Rightarrow> OutputUnit \<Rightarrow> bool" where
  "has_room now vnet outvc ou \<longleftrightarrow> (if outvc = -1
     then \<exists>vc \<in> set (vc_range vnet (ou_vc_per_vnet ou)). ov_isInState IDLE now (ou_outVcState ou ! nat vc)
     else out_vc_ok now ou outvc \<and> ov_has_credit (ou_outVcState ou ! nat outvc))"

lemma ou_ok_update:
  assumes "ou_ok n ou" and "k < length (ou_outVcState ou)" and "ov_vc_state w = IDLE \<longrightarrow> 0 < ov_credit_count w"
  shows "ou_ok n (ou\<lparr>ou_outVcState := (ou_outVcState ou)[k := w]\<rparr>)"
  using assms unfolding ou_ok_def
  by (auto simp: ou_has_vnet_def dest!: set_update_subset_insert [THEN subsetD])

lemma out_vc_ok_update:
  assumes "out_vc_ok now ou j" and "k < length (ou_outVcState ou)" and "ov_isInState ACTIVE now w"
  shows "out_vc_ok now (ou\<lparr>ou_outVcState := (ou_outVcState ou)[k := w]\<rparr>) j"
  using assms by (auto simp: out_vc_ok_def nth_list_update)

lemma take_credit:
  assumes ok: "ou_ok n ou" and vnet: "0 \<le> vnet" "vnet < int n" and room: "has_room now vnet outvc ou"
  obtains outvc' ou1 ou2 where
    "if outvc = -1 then ou_select_free_vc now vnet ou = Inr (outvc', ou1) \<and> outvc' \<noteq> -1 else outvc' = outvc \<and> ou1 = ou"
    and "ou_decrement_credit outvc' ou1 = Inr ou2" and "ou_ok n ou2" and "out_vc_ok now ou2 outvc'"
    and "\<And>k. out_vc_ok now ou k \<Longrightarrow> out_vc_ok now ou2 k"
    and "ou_outBuffer ou2 = ou_outBuffer ou" and "outvc' \<noteq> -1"
proof -
  have vn: "ou_has_vnet vnet ou" using ok vnet by (simp add: ou_ok_def)
  have dec: "\<exists>ou2. ou_decrement_credit k u = Inr ou2 \<and> ou_ok n ou2 \<and> out_vc_ok now ou2 k
      \<and> (\<forall>j. out_vc_ok now u j \<longrightarrow> out_vc_ok now ou2 j) \<and> ou_outBuffer ou2 = ou_outBuffer u"
    if u: "ou_ok n u" and k: "out_vc_ok now u k" and c: "0 < ov_credit_count (ou_outVcState u ! nat k)" for u k
  proof -
    let ?w = "(ou_outVcState u ! nat k)\<lparr>ov_credit_count := ov_credit_count (ou_outVcState u ! nat k) - 1\<rparr>"
    have kk: "0 \<le> k" "k < int (length (ou_outVcState u))" "nat k < length (ou_outVcState u)" "ov_isInState ACTIVE now ?w"
      using k by (auto simp: out_vc_ok_def ov_isInState_def)
    have "ou_decrement_credit k u = Inr (u\<lparr>ou_outVcState := (ou_outVcState u)[nat k := ?w]\<rparr>)"
      using kk c by (auto simp: ou_decrement_credit_def ou_on_vc_Inr_iff ov_decrement_Inr_iff)
    moreover have "ou_ok n (u\<lparr>ou_outVcState := (ou_outVcState u)[nat k := ?w]\<rparr>)"
      using kk(4) by (intro ou_ok_update [OF u kk(3)]) (auto simp: ov_isInState_def)
    ultimately show ?thesis using out_vc_ok_update [OF _ kk(3,4)] k by auto
  qed
  show thesis
  proof (cases "outvc = -1")
    case True
    let ?P = "\<lambda>vc. ov_isInState IDLE now (ou_outVcState ou ! nat vc)"
    let ?vcs = "vc_range vnet (ou_vc_per_vnet ou)"
    have "find ?P ?vcs \<noteq> None" using room True by (auto simp: has_room_def find_None_iff simp del: vc_range_iff)
    then obtain vc where f: "find ?P ?vcs = Some vc" by blast
    then have vc: "vc \<in> set ?vcs" "?P vc" by (auto simp: find_Some_iff simp del: vc_range_iff)
    note r = ou_has_vnet_range [OF vn vc(1)]
    let ?w = "ov_setState ACTIVE now (ou_outVcState ou ! nat vc)"
    let ?u = "ou\<lparr>ou_outVcState := (ou_outVcState ou)[nat vc := ?w]\<rparr>"
    have sel: "ou_select_free_vc now vnet ou = Inr (vc, ?u)" using ou_select_eq [OF vn, of now] f by simp
    have len: "nat vc < length (ou_outVcState ou)" using r by simp
    have act: "ov_isInState ACTIVE now ?w" by (simp add: ov_isInState_def ov_setState_def)
    have u: "ou_ok n ?u" by (rule ou_ok_update [OF ok len]) (simp add: ov_setState_def)
    have k: "out_vc_ok now ?u vc" using r len act by (simp add: out_vc_ok_def)
    have "ou_outVcState ou ! nat vc \<in> set (ou_outVcState ou)" using len by simp
    then have "0 < ov_credit_count (ou_outVcState ou ! nat vc)" using ok vc(2) by (auto simp: ou_ok_def ov_isInState_def)
    then have c: "0 < ov_credit_count (ou_outVcState ?u ! nat vc)" using len by (simp add: ov_setState_def)
    from dec [OF u k c] obtain ou2 where d: "ou_decrement_credit vc ?u = Inr ou2" "ou_ok n ou2" "out_vc_ok now ou2 vc"
      "\<forall>j. out_vc_ok now ?u j \<longrightarrow> out_vc_ok now ou2 j" "ou_outBuffer ou2 = ou_outBuffer ou" by auto
    show thesis
      by (rule that [of vc ?u ou2]) (use True sel r d out_vc_ok_update [OF _ len act] in auto)
  next
    case False
    then have k: "out_vc_ok now ou outvc" "0 < ov_credit_count (ou_outVcState ou ! nat outvc)"
      using room by (auto simp: has_room_def ov_has_credit_def)
    from dec [OF ok k] obtain ou2 where "ou_decrement_credit outvc ou = Inr ou2" "ou_ok n ou2" "out_vc_ok now ou2 outvc"
      "\<forall>j. out_vc_ok now ou j \<longrightarrow> out_vc_ok now ou2 j" "ou_outBuffer ou2 = ou_outBuffer ou" by auto
    with False show thesis by (intro that [of outvc ou ou2]) auto
  qed
qed

section \<open>The input side of a grant\<close>

definition pop_vc :: "Tick \<Rightarrow> VirtualChannel \<Rightarrow> VirtualChannel" where
  "pop_vc now v = (case vc_flits v of [] \<Rightarrow> v
     | f # fs \<Rightarrow> let v1 = v\<lparr>vc_inputBuffer := (vc_inputBuffer v)\<lparr>fb_buffer := fs\<rparr>\<rparr> in
         if is_tail (f_type f) then vc_set_idle now v1 else v1)"

definition credit_for :: "in_env \<Rightarrow> int \<Rightarrow> bool \<Rightarrow> flit" where
  "credit_for ie invc free = Credit_new (ie_no_dest ie) invc free (ie_now ie)"

lemma pop_vc_flits [simp]: "vc_flits (pop_vc now v) = tl (vc_flits v)"
  by (simp add: pop_vc_def Let_def vc_set_idle_def split: list.split)

lemma release_eq:
  assumes vc: "0 \<le> invc" "invc < int (length (iu_virtualChannels iu))"
    and top: "vc_flits (iu_virtualChannels iu ! nat invc) = f # fs" and last: "is_tail (f_type f) \<longrightarrow> fs = []"
  shows "\<exists>iu2 reqs. iu_getTopFlit invc iu = Inr (f, iu2) \<and> release_invc ie invc (f_type f) iu2
    = Inr (iu\<lparr>iu_virtualChannels := (iu_virtualChannels iu)[nat invc := pop_vc (ie_now ie) (iu_virtualChannels iu ! nat invc)],
        iu_creditQueue := fb_insert (credit_for ie invc (is_tail (f_type f))) (iu_creditQueue iu)\<rparr>, reqs)"
proof -
  let ?v = "iu_virtualChannels iu ! nat invc"
  let ?v1 = "?v\<lparr>vc_inputBuffer := (vc_inputBuffer ?v)\<lparr>fb_buffer := fs\<rparr>\<rparr>"
  let ?iu2 = "iu\<lparr>iu_virtualChannels := (iu_virtualChannels iu)[nat invc := ?v1]\<rparr>"
  have n: "nat invc < length (iu_virtualChannels iu)" using vc by simp
  have get: "iu_getTopFlit invc iu = Inr (f, ?iu2)"
    using vc top by (simp add: iu_getTopFlit_def vc_getTopFlit_def fb_getTopFlit_def at_ok put_ok)
  show ?thesis
  proof (cases "is_tail (f_type f)")
    case True
    then have t: "f_type f = TAIL \<or> f_type f = HEAD_TAIL" and "fs = []" using last by (auto simp: is_tail_def)
    then have "iu_isReady invc (ie_now ie) ?iu2 = Inr False"
      using vc n by (simp add: iu_isReady_def at_ok vc_isReady_def fb_isReady_def)
    moreover have "pop_vc (ie_now ie) ?v = vc_set_idle (ie_now ie) ?v1" using True top by (simp add: pop_vc_def)
    ultimately show ?thesis
      using get t True vc n
      by (auto simp: release_invc_def iu_set_vc_idle_def iu_on_vc_def at_ok put_ok iu_increment_credit_def credit_for_def
          list_update_overwrite)
  next
    case False
    then have t: "f_type f \<noteq> TAIL" "f_type f \<noteq> HEAD_TAIL" by (auto simp: is_tail_def)
    moreover have "pop_vc (ie_now ie) ?v = ?v1" using False top by (simp add: pop_vc_def)
    ultimately show ?thesis
      using get False by (simp add: release_invc_def iu_increment_credit_def credit_for_def)
  qed
qed

lemma vc_ok_mono:
  assumes "vc_ok now ous v" and "length ous' = length ous"
    and "\<And>p k. p < length ous \<Longrightarrow> out_vc_ok now (ous ! p) k \<Longrightarrow> out_vc_ok now (ous' ! p) k"
  shows "vc_ok now ous' v"
  using assms by (auto simp: vc_ok_def)

lemma tail_last_tl: "tail_last fs \<Longrightarrow> tail_last (tl fs)"
  by (cases fs) auto

lemma vc_ok_pop:
  assumes "vc_ok now ous v" and "vc_flits v \<noteq> []"
  shows "vc_ok now ous (pop_vc now v)"
proof -
  from assms(2) obtain f fs where f: "vc_flits v = f # fs" by (cases "vc_flits v") auto
  show ?thesis
  proof (cases "is_tail (f_type f)")
    case True
    then have "fs = []" using assms(1) f by (simp add: vc_ok_def)
    with True f show ?thesis by (simp add: pop_vc_def vc_ok_def vc_set_idle_def)
  next
    case False
    with assms f show ?thesis by (auto simp: pop_vc_def vc_ok_def)
  qed
qed

section \<open>A grant\<close>

lemma getInputUnit_nat [simp]: "i < length (rt_input_unit rt) \<Longrightarrow> getInputUnit (int i) rt = Inr (rt_input_unit rt ! i)"
  by (simp add: getInputUnit_def)

lemma getOutputUnit_nat [simp]: "i < length (rt_output_unit rt) \<Longrightarrow> getOutputUnit (int i) rt = Inr (rt_output_unit rt ! i)"
  by (simp add: getOutputUnit_def)

text \<open>What the first stage establishes for an input port with a request, and the second stage relies on.\<close>

definition winner_vc :: "Router \<Rightarrow> nat \<Rightarrow> VirtualChannel" where
  "winner_vc rt i = iu_virtualChannels (rt_input_unit rt ! i) ! nat (sa_vc_winners (rt_sa rt) ! i)"

definition req_ok :: "Tick \<Rightarrow> Router \<Rightarrow> nat \<Rightarrow> bool" where
  "req_ok now rt i \<longleftrightarrow> (let k = sa_port_requests (rt_sa rt) ! i; invc = sa_vc_winners (rt_sa rt) ! i; v = winner_vc rt i in
     k \<noteq> -1 \<longrightarrow> 0 \<le> k \<and> k < int (length (rt_output_unit rt)) \<and> 0 \<le> invc \<and> invc < int (sa_num_vcs (rt_sa rt))
       \<and> vc_flits v \<noteq> [] \<and> f_time (hd (vc_flits v)) \<le> now \<and> vc_output_port v = k
       \<and> has_room now (invc div int (sa_vc_per_vnet (rt_sa rt))) (vc_output_vc v) (rt_output_unit rt ! nat k))"

lemma get_vnet_ok:
  assumes "rt_shape rt" and "0 \<le> invc" and "invc < int (sa_num_vcs (rt_sa rt))"
  defines "vnet \<equiv> invc div int (sa_vc_per_vnet (rt_sa rt))"
  shows "get_vnet invc rt = Inr vnet" and "0 \<le> vnet" and "vnet < int (rt_virtual_networks rt)"
proof -
  have p: "0 < int (sa_vc_per_vnet (rt_sa rt))"
    and n: "int (sa_num_vcs (rt_sa rt)) = int (rt_virtual_networks rt) * int (sa_vc_per_vnet (rt_sa rt))"
    using assms(1) by (auto simp: rt_shape_def Let_def)
  have "vnet * int (sa_vc_per_vnet (rt_sa rt)) \<le> invc"
    using p by (simp add: vnet_def minus_mod_eq_div_mult [symmetric])
  also have "\<dots> < int (rt_virtual_networks rt) * int (sa_vc_per_vnet (rt_sa rt))" using assms(3) n by simp
  finally show v2: "vnet < int (rt_virtual_networks rt)" using p mult_less_cancel_right_pos by blast
  show v: "0 \<le> vnet" using assms(2) p by (simp add: vnet_def pos_imp_zdiv_nonneg_iff)
  with v2 show "get_vnet invc rt = Inr vnet"
    using p assms(2) by (simp add: get_vnet_def Let_def vnet_def)
qed

definition moved :: "in_env \<Rightarrow> nat \<Rightarrow> int \<Rightarrow> flit \<Rightarrow> flit" where
  "moved ie p outvc f = advance_stage ST (ie_now ie) (f\<lparr>f_outport := int p, f_vc := outvc\<rparr>)"

text \<open>The router after input port \<open>i\<close> was granted output port \<open>p\<close> with output channel \<open>outvc\<close>.\<close>

definition after_grant :: "in_env \<Rightarrow> nat \<Rightarrow> nat \<Rightarrow> int \<Rightarrow> OutputUnit \<Rightarrow> Router \<Rightarrow> Router" where
  "after_grant ie p i outvc ou rt =
     (let sa = rt_sa rt; invc = sa_vc_winners sa ! i; iu = rt_input_unit rt ! i; v = winner_vc rt i;
          f = hd (vc_flits v); bs = xb_switchBuffers (rt_xbar rt) in
      rt\<lparr>rt_output_unit := (rt_output_unit rt)[p := ou],
         rt_xbar := (rt_xbar rt)\<lparr>xb_switchBuffers := bs[i := fb_insert (moved ie p outvc f) (bs ! i)]\<rparr>,
         rt_input_unit := (rt_input_unit rt)[i := iu\<lparr>
           iu_virtualChannels := (iu_virtualChannels iu)[nat invc := pop_vc (ie_now ie) (v\<lparr>vc_output_vc := outvc\<rparr>)],
           iu_creditQueue := fb_insert (credit_for ie invc (is_tail (f_type f))) (iu_creditQueue iu)\<rparr>],
         rt_sa := sa\<lparr>sa_output_arbiter_activity := sa_output_arbiter_activity sa + 1,
           sa_port_requests := (sa_port_requests sa)[i := -1],
           sa_round_robin_inport := (sa_round_robin_inport sa)[p := wrap_next (sa_num_inports sa) (int i)],
           sa_round_robin_invc := (sa_round_robin_invc sa)[i := wrap_next (sa_num_vcs sa) invc]\<rparr>\<rparr>)"

lemma grant_switch_ok:
  "i < length (xb_switchBuffers (rt_xbar rt)) \<Longrightarrow> grant_switch (int i) f rt = Inr (rt\<lparr>rt_xbar := (rt_xbar rt)\<lparr>xb_switchBuffers :=
     (xb_switchBuffers (rt_xbar rt))[i := fb_insert f (xb_switchBuffers (rt_xbar rt) ! i)]\<rparr>\<rparr>)"
  by (simp add: grant_switch_def update_sw_winner_def)

lemma grant_eq:
  assumes ok: "rt_ok (ie_now ie) rt" and i: "i < length (rt_input_unit rt)" and r: "req_ok (ie_now ie) rt i"
    and k: "sa_port_requests (rt_sa rt) ! i = int p"
  obtains outvc ou reqs where "grant_outport ie (int p) (int i) rt = Inr (after_grant ie p i outvc ou rt, reqs)"
    and "ou_ok (rt_virtual_networks rt) ou" and "out_vc_ok (ie_now ie) ou outvc" and "outvc \<noteq> -1"
    and "\<And>k. out_vc_ok (ie_now ie) (rt_output_unit rt ! p) k \<Longrightarrow> out_vc_ok (ie_now ie) ou k"
    and "ou_outBuffer ou = ou_outBuffer (rt_output_unit rt ! p)"
proof -
  let ?now = "ie_now ie" and ?sa = "rt_sa rt"
  define invc where "invc = sa_vc_winners ?sa ! i"
  define v where "v = winner_vc rt i"
  define iu where "iu = rt_input_unit rt ! i"
  define ou0 where "ou0 = rt_output_unit rt ! p"
  define vnet where "vnet = invc div int (sa_vc_per_vnet ?sa)"
  have shape: "rt_shape rt" using ok by (simp add: rt_ok_def)
  have lens: "length (sa_vc_winners ?sa) = length (rt_input_unit rt)" "length (sa_port_requests ?sa) = length (rt_input_unit rt)"
    "length (sa_round_robin_invc ?sa) = length (rt_input_unit rt)" "length (sa_round_robin_inport ?sa) = length (rt_output_unit rt)"
    "length (xb_switchBuffers (rt_xbar rt)) = length (rt_input_unit rt)" "length (iu_virtualChannels iu) = sa_num_vcs ?sa"
    using shape i by (auto simp: rt_shape_def Let_def iu_def)
  have p: "p < length (rt_output_unit rt)" and invc: "0 \<le> invc" "invc < int (sa_num_vcs ?sa)"
    and ne: "vc_flits v \<noteq> []" and room: "has_room ?now vnet (vc_output_vc v) ou0"
    using r k by (auto simp: req_ok_def Let_def invc_def v_def vnet_def ou0_def)
  note vn = get_vnet_ok [OF shape invc, folded vnet_def]
  have ou0: "ou_ok (rt_virtual_networks rt) ou0" using ok p by (auto simp: rt_ok_def ou0_def)
  have v: "iu_virtualChannels iu ! nat invc = v" by (simp add: v_def winner_vc_def iu_def invc_def)
  have vin: "nat invc < length (iu_virtualChannels iu)" "invc < int (length (iu_virtualChannels iu))" using invc lens by auto
  have "vc_ok ?now (rt_output_unit rt) v"
    using ok i v vin nth_mem [OF vin(1)] nth_mem [OF i] by (auto simp: rt_ok_def iu_def)
  then have tl: "tail_last (vc_flits v)" by (simp add: vc_ok_def)
  from ne obtain f fs where f: "vc_flits v = f # fs" by (cases "vc_flits v") auto
  from take_credit [OF ou0 vn(2,3) room] obtain outvc ou1 ou2 where
    sel: "if vc_output_vc v = -1 then ou_select_free_vc ?now vnet ou0 = Inr (outvc, ou1) \<and> outvc \<noteq> -1
          else outvc = vc_output_vc v \<and> ou1 = ou0"
    and dec: "ou_decrement_credit outvc ou1 = Inr ou2"
    and ou2: "ou_ok (rt_virtual_networks rt) ou2" "out_vc_ok ?now ou2 outvc" "\<And>k. out_vc_ok ?now ou0 k \<Longrightarrow> out_vc_ok ?now ou2 k"
      "ou_outBuffer ou2 = ou_outBuffer ou0" "outvc \<noteq> -1" by blast
  let ?v1 = "v\<lparr>vc_output_vc := outvc\<rparr>"
  define iu1 where "iu1 = iu\<lparr>iu_virtualChannels := (iu_virtualChannels iu)[nat invc := ?v1]\<rparr>"
  define rt1 where "rt1 = rt\<lparr>rt_output_unit := (rt_output_unit rt)[p := ou1], rt_input_unit := (rt_input_unit rt)[i := iu1]\<rparr>"
  have alloc: "(if vc_output_vc v = -1 then vc_allocate ie (int p) (int i) invc rt else Inr (vc_output_vc v, rt)) = Inr (outvc, rt1)"
  proof (cases "vc_output_vc v = -1")
    case True
    then have "iu_grant_outvc invc outvc iu = Inr iu1"
      using invc vin v by (simp add: iu_grant_outvc_def iu_on_vc_def at_ok put_ok iu1_def)
    with True sel vn(1) p i show ?thesis
      by (simp add: vc_allocate_def ou0_def iu_def setInputUnit_def setOutputUnit_def rt1_def)
  next
    case False
    then have "?v1 = v" "ou1 = ou0" using sel by auto
    then have "rt1 = rt" using v p i vin by (simp add: rt1_def iu1_def ou0_def iu_def list_update_id flip: v)
    with False sel show ?thesis by simp
  qed
  have iu1v: "iu_virtualChannels iu1 ! nat invc = ?v1" "length (iu_virtualChannels iu1) = length (iu_virtualChannels iu)"
    using vin by (auto simp: iu1_def)
  have "vc_flits (iu_virtualChannels iu1 ! nat invc) = f # fs" "is_tail (f_type f) \<longrightarrow> fs = []"
    using iu1v f tl by auto
  from release_eq [OF invc(1) _ this, of ie] iu1v vin obtain iu2 reqs where
    rel: "iu_getTopFlit invc iu1 = Inr (f, iu2)" "release_invc ie invc (f_type f) iu2
      = Inr (iu1\<lparr>iu_virtualChannels := (iu_virtualChannels iu1)[nat invc := pop_vc ?now ?v1],
          iu_creditQueue := fb_insert (credit_for ie invc (is_tail (f_type f))) (iu_creditQueue iu1)\<rparr>, reqs)" by auto
  have ty: "f_type (moved ie p outvc f) = f_type f" by (simp add: moved_def advance_stage_def)
  have fetch: "at (sa_vc_winners ?sa) (int i) = Inr invc" "iu_get_outvc invc iu = Inr (vc_output_vc v)"
    "getInputUnit (int i) rt1 = Inr iu1" "getOutputUnit (int p) rt1 = Inr ou1" "getInputUnit (int i) rt = Inr iu"
    "getOutputUnit (int p) rt = Inr ou0"
    using i p lens invc vin v by (simp_all add: invc_def iu_get_outvc_def at_ok rt1_def getInputUnit_def getOutputUnit_def iu_def ou0_def)
  have "grant_outport ie (int p) (int i) rt = Inr (after_grant ie p i outvc ou2 rt, reqs)"
    unfolding grant_outport_def fetch bindR.simps alloc case_prod_conv rel(1) dec Let_def moved_def [symmetric] ty rel(2)
    using i p lens f
    by (simp add: grant_switch_ok setOutputUnit_def setInputUnit_def rt1_def iu1_def rel(2) ty after_grant_def Let_def
        flip: invc_def v_def iu_def)
  with ou2 that show thesis by (auto simp: ou0_def)
qed

lemma wrap_next_range: "0 \<le> k \<Longrightarrow> 0 \<le> wrap_next n k \<and> (wrap_next n k < int n \<or> n = 0)"
  by (auto simp: wrap_next_def)

lemma after_grant_ok:
  assumes ok: "rt_ok (ie_now ie) rt" and i: "i < length (rt_input_unit rt)" and r: "req_ok (ie_now ie) rt i"
    and k: "sa_port_requests (rt_sa rt) ! i = int p"
    and ou: "ou_ok (rt_virtual_networks rt) ou" "out_vc_ok (ie_now ie) ou outvc"
      "\<And>k. out_vc_ok (ie_now ie) (rt_output_unit rt ! p) k \<Longrightarrow> out_vc_ok (ie_now ie) ou k"
  shows "rt_ok (ie_now ie) (after_grant ie p i outvc ou rt)"
proof -
  let ?now = "ie_now ie" and ?sa = "rt_sa rt" and ?rt = "after_grant ie p i outvc ou rt"
  define invc where "invc = sa_vc_winners ?sa ! i"
  define v where "v = winner_vc rt i"
  have shape: "rt_shape rt" using ok by (simp add: rt_ok_def)
  have p: "p < length (rt_output_unit rt)" and invc: "0 \<le> invc" "invc < int (sa_num_vcs ?sa)"
    and ne: "vc_flits v \<noteq> []" and port: "vc_output_port v = int p"
    using r k by (auto simp: req_ok_def Let_def invc_def v_def)
  have shape': "rt_shape ?rt"
    using shape i invc wrap_next_range [of invc "sa_num_vcs ?sa"] wrap_next_range [of "int i" "sa_num_inports ?sa"]
    by (auto simp: rt_shape_def after_grant_def Let_def nth_list_update simp flip: invc_def
        dest!: set_update_subset_insert [THEN subsetD])
  have outs: "rt_output_unit ?rt = (rt_output_unit rt)[p := ou]" "rt_virtual_networks ?rt = rt_virtual_networks rt"
    by (simp_all add: after_grant_def Let_def)
  have ous: "\<forall>u \<in> set (rt_output_unit ?rt). ou_ok (rt_virtual_networks ?rt) u"
    using ok ou(1) unfolding outs by (auto simp: rt_ok_def dest!: set_update_subset_insert [THEN subsetD])
  have mono: "vc_ok ?now (rt_output_unit ?rt) w" if "vc_ok ?now (rt_output_unit rt) w" for w
    using that unfolding outs by (rule vc_ok_mono) (use p ou(3) in \<open>auto simp: nth_list_update\<close>)
  have vcs: "vc_ok ?now (rt_output_unit ?rt) w"
    if u: "u \<in> set (rt_input_unit ?rt)" and w: "w \<in> set (iu_virtualChannels u)" for u w
  proof -
    let ?v1 = "v\<lparr>vc_output_vc := outvc\<rparr>"
    have "length (iu_virtualChannels (rt_input_unit rt ! i)) = sa_num_vcs ?sa"
      using shape i unfolding rt_shape_def Let_def by blast
    with invc have vin: "nat invc < length (iu_virtualChannels (rt_input_unit rt ! i))" by linarith
    then have "v \<in> set (iu_virtualChannels (rt_input_unit rt ! i))"
      unfolding v_def winner_vc_def invc_def [symmetric] by (rule nth_mem)
    then have v0: "vc_ok ?now (rt_output_unit rt) v" using ok i by (auto simp: rt_ok_def)
    then have "fst (vc_state v) = ACTIVE" using ne by (simp add: vc_ok_def)
    then have "vc_ok ?now (rt_output_unit ?rt) ?v1"
      using mono [OF v0] port p ou(2) unfolding outs by (auto simp: vc_ok_def)
    then have v1: "vc_ok ?now (rt_output_unit ?rt) (pop_vc ?now ?v1)" using ne by (intro vc_ok_pop) auto
    have "u \<in> set (rt_input_unit rt) \<or> iu_virtualChannels u
        = (iu_virtualChannels (rt_input_unit rt ! i))[nat invc := pop_vc ?now ?v1]"
      using u by (auto simp: after_grant_def Let_def simp flip: invc_def v_def dest!: set_update_subset_insert [THEN subsetD])
    then have "w = pop_vc ?now ?v1 \<or> vc_ok ?now (rt_output_unit rt) w"
      using w ok nth_mem [OF i] by (fastforce simp: rt_ok_def dest!: set_update_subset_insert [THEN subsetD])
    then show ?thesis using v1 mono by blast
  qed
  show ?thesis using shape' ous vcs by (simp add: rt_ok_def)
qed

section \<open>The first stage\<close>

lemma rt_ok_vc:
  assumes "rt_ok now rt" and "i < length (rt_input_unit rt)" and "0 \<le> j" and "j < int (sa_num_vcs (rt_sa rt))"
  shows "at (iu_virtualChannels (rt_input_unit rt ! i)) j = Inr (iu_virtualChannels (rt_input_unit rt ! i) ! nat j)"
    and "vc_ok now (rt_output_unit rt) (iu_virtualChannels (rt_input_unit rt ! i) ! nat j)"
proof -
  have "length (iu_virtualChannels (rt_input_unit rt ! i)) = sa_num_vcs (rt_sa rt)"
    using assms(1,2) unfolding rt_ok_def rt_shape_def Let_def by blast
  with assms(3,4) have j: "j < int (length (iu_virtualChannels (rt_input_unit rt ! i)))"
    "nat j < length (iu_virtualChannels (rt_input_unit rt ! i))" by linarith+
  then show "at (iu_virtualChannels (rt_input_unit rt ! i)) j = Inr (iu_virtualChannels (rt_input_unit rt ! i) ! nat j)"
    using assms(3) by (simp add: at_ok)
  show "vc_ok now (rt_output_unit rt) (iu_virtualChannels (rt_input_unit rt ! i) ! nat j)"
    using assms(1) nth_mem [OF assms(2)] nth_mem [OF j(2)] by (auto simp: rt_ok_def)
qed

lemma vc_need_stage_ok:
  assumes "vc_ok now ous v" and "now \<le> t"
  shows "\<exists>b. vc_need_stage st t v = Inr b \<and> (b \<longrightarrow> vc_flits v \<noteq> [] \<and> f_time (hd (vc_flits v)) \<le> t)"
  using assms
  by (cases "vc_flits v") (auto simp: vc_need_stage_def vc_ok_def fb_isReady_def fb_peekTopFlit_def)

lemma vc_range_in_vcs:
  assumes "rt_shape rt" and "0 \<le> vnet" and "vnet < int (rt_virtual_networks rt)"
    and "j \<in> set (vc_range vnet (sa_vc_per_vnet (rt_sa rt)))"
  shows "0 \<le> j \<and> j < int (sa_num_vcs (rt_sa rt))"
proof -
  have "(vnet + 1) * int (sa_vc_per_vnet (rt_sa rt)) \<le> int (rt_virtual_networks rt) * int (sa_vc_per_vnet (rt_sa rt))"
    using assms(3) by (intro mult_right_mono) auto
  also have "\<dots> = int (sa_num_vcs (rt_sa rt))" using assms(1) by (simp add: rt_shape_def Let_def)
  finally have "j < int (sa_num_vcs (rt_sa rt))" using assms(4) by simp
  moreover have "0 \<le> vnet * int (sa_vc_per_vnet (rt_sa rt))" using assms(2) by simp
  ultimately show ?thesis using assms(4) by simp
qed

lemma send_allowed_ok:
  assumes ok: "rt_ok (ie_now ie) rt" and i: "i < length (rt_input_unit rt)"
    and j: "0 \<le> j" "j < int (sa_num_vcs (rt_sa rt))"
  defines "v \<equiv> iu_virtualChannels (rt_input_unit rt ! i) ! nat j"
  assumes act: "fst (vc_state v) = ACTIVE"
  shows "\<exists>b. send_allowed ie (int i) j (vc_output_port v) (vc_output_vc v) rt = Inr b
    \<and> (b \<longrightarrow> has_room (ie_now ie) (j div int (sa_vc_per_vnet (rt_sa rt))) (vc_output_vc v)
           (rt_output_unit rt ! nat (vc_output_port v)))"
proof -
  let ?now = "ie_now ie" and ?k = "vc_output_port v" and ?w = "vc_output_vc v"
  let ?vnet = "j div int (sa_vc_per_vnet (rt_sa rt))" and ?ou = "rt_output_unit rt ! nat (vc_output_port v)"
  let ?iu = "rt_input_unit rt ! i"
  have shape: "rt_shape rt" using ok by (simp add: rt_ok_def)
  note vn = get_vnet_ok [OF shape j]
  note vo = rt_ok_vc [OF ok i j, folded v_def]
  have k: "0 \<le> ?k" "?k < int (length (rt_output_unit rt))" "nat ?k < length (rt_output_unit rt)"
    and w: "?w \<noteq> -1 \<longrightarrow> out_vc_ok ?now ?ou ?w" using vo(2) act by (auto simp: vc_ok_def)
  have gou: "getOutputUnit ?k rt = Inr ?ou" using k by (simp add: getOutputUnit_def)
  have "ou_ok (rt_virtual_networks rt) ?ou" using ok k(3) by (auto simp: rt_ok_def)
  then have "ou_has_vnet ?vnet ?ou" using vn by (simp add: ou_ok_def)
  then have free: "ou_has_free_vc ?now ?vnet ?ou = Inr (\<exists>vc \<in> set (vc_range ?vnet (ou_vc_per_vnet ?ou)).
     ov_isInState IDLE ?now (ou_outVcState ?ou ! nat vc))" by (rule ou_has_free_vc_eq)
  have cred: "?w \<noteq> -1 \<Longrightarrow> ou_has_credit ?now ?w ?ou = Inr (ov_has_credit (ou_outVcState ?ou ! nat ?w))"
    using w by (simp add: ou_has_credit_def out_vc_ok_def at_ok)
  have choose: "(if w = -1 then bindR a (\<lambda>b. Inr (b, b)) else bindR c (\<lambda>b. Inr (True, b))) = Inr (w \<noteq> -1 \<or> r, r)"
    if "w = -1 \<Longrightarrow> a = Inr r" and "w \<noteq> -1 \<Longrightarrow> c = Inr r" for a c :: "bool res" and w :: int and r
    using that by auto
  have res: "(if ?w = -1 then bindR (ou_has_free_vc ?now ?vnet ?ou) (\<lambda>b. Inr (b, b))
      else bindR (ou_has_credit ?now ?w ?ou) (\<lambda>b. Inr (True, b))) = Inr (?w \<noteq> -1 \<or> has_room ?now ?vnet ?w ?ou, has_room ?now ?vnet ?w ?ou)"
  proof (rule choose)
    show "ou_has_free_vc ?now ?vnet ?ou = Inr (has_room ?now ?vnet ?w ?ou)" if "?w = -1"
      using free that unfolding has_room_def by (simp only: if_True simp_thms)
    show "ou_has_credit ?now ?w ?ou = Inr (has_room ?now ?vnet ?w ?ou)" if "?w \<noteq> -1"
      using cred [OF that] w that unfolding has_room_def by (simp only: if_False simp_thms)
  qed
  have ord: "\<exists>b. existsR (\<lambda>x. bindR (iu_need_stage x SA ?now ?iu) (\<lambda>b. if \<not> b then Inr False
             else bindR (iu_get_outport x ?iu) (\<lambda>k. bindR (iu_get_enqueue_time x ?iu) (\<lambda>t. Inr (k = ?k \<and> t < te)))))
         (vc_range ?vnet (sa_vc_per_vnet (rt_sa rt))) = Inr b" for te
  proof (intro existsR_returns)
    fix x assume "x \<in> set (vc_range ?vnet (sa_vc_per_vnet (rt_sa rt)))"
    then have x: "0 \<le> x" "x < int (sa_num_vcs (rt_sa rt))"
      using vc_range_in_vcs [OF shape vn(2,3)] by blast+
    note xo = rt_ok_vc [OF ok i x]
    from vc_need_stage_ok [OF xo(2) order_refl, of SA] obtain b where
      "vc_need_stage SA ?now (iu_virtualChannels ?iu ! nat x) = Inr b" by blast
    with xo(1) show "\<exists>b. bindR (iu_need_stage x SA ?now ?iu) (\<lambda>b. if \<not> b then Inr False
        else bindR (iu_get_outport x ?iu) (\<lambda>k. bindR (iu_get_enqueue_time x ?iu) (\<lambda>t. Inr (k = ?k \<and> t < te)))) = Inr b"
      unfolding iu_need_stage_def iu_get_outport_def iu_get_enqueue_time_def by auto
  qed
  have enq: "iu_get_enqueue_time j ?iu = Inr (vc_enqueue_time v)" using vo(1) by (simp add: iu_get_enqueue_time_def)
  obtain viol where "existsR (\<lambda>x. bindR (iu_need_stage x SA ?now ?iu) (\<lambda>b. if \<not> b then Inr False
             else bindR (iu_get_outport x ?iu) (\<lambda>k. bindR (iu_get_enqueue_time x ?iu)
               (\<lambda>t. Inr (k = ?k \<and> t < vc_enqueue_time v)))))
         (vc_range ?vnet (sa_vc_per_vnet (rt_sa rt))) = Inr viol" using ord by blast
  then have "send_allowed ie (int i) j ?k ?w rt = Inr (has_room ?now ?vnet ?w ?ou \<and> (re_ordered (ie_route ie) ?vnet \<longrightarrow> \<not> viol))"
    unfolding send_allowed_def vn(1) bindR.simps gou res case_prod_conv getInputUnit_nat [OF i] enq by simp
  then show ?thesis by blast
qed

lemma pick_invc_ok:
  assumes ok: "rt_ok (ie_now ie) rt" and i: "i < length (rt_input_unit rt)"
  shows "0 \<le> j \<Longrightarrow> j < int (sa_num_vcs (rt_sa rt)) \<Longrightarrow> \<exists>w. pick_invc n ie (int i) j rt = Inr w \<and>
    (\<forall>k j'. w = Some (k, j') \<longrightarrow> (let v = iu_virtualChannels (rt_input_unit rt ! i) ! nat j' in
       0 \<le> j' \<and> j' < int (sa_num_vcs (rt_sa rt)) \<and> 0 \<le> k \<and> k < int (length (rt_output_unit rt)) \<and> vc_flits v \<noteq> []
       \<and> f_time (hd (vc_flits v)) \<le> ie_now ie \<and> vc_output_port v = k
       \<and> has_room (ie_now ie) (j' div int (sa_vc_per_vnet (rt_sa rt))) (vc_output_vc v) (rt_output_unit rt ! nat k)))"
proof (induction n arbitrary: j)
  case 0
  then show ?case by simp
next
  case (Suc n)
  let ?iu = "rt_input_unit rt ! i" and ?next = "wrap_next (sa_num_vcs (rt_sa rt)) j"
  let ?v = "iu_virtualChannels ?iu ! nat j"
  note vo = rt_ok_vc [OF ok i Suc.prems]
  have "0 \<le> ?next" "?next < int (sa_num_vcs (rt_sa rt))" using Suc.prems by (auto simp: wrap_next_def)
  note IH = Suc.IH [OF this]
  from vc_need_stage_ok [OF vo(2) order_refl, of SA] obtain b where
    b: "vc_need_stage SA (ie_now ie) ?v = Inr b" "b \<longrightarrow> vc_flits ?v \<noteq> [] \<and> f_time (hd (vc_flits ?v)) \<le> ie_now ie" by blast
  then have ns: "iu_need_stage j SA (ie_now ie) ?iu = Inr b" using vo(1) by (simp add: iu_need_stage_def)
  have fetch: "iu_get_outport j ?iu = Inr (vc_output_port ?v)" "iu_get_outvc j ?iu = Inr (vc_output_vc ?v)"
    using vo(1) by (simp_all add: iu_get_outport_def iu_get_outvc_def)
  show ?case
  proof (cases b)
    case False
    then show ?thesis using IH ns i by simp
  next
    case True
    then have act: "fst (vc_state ?v) = ACTIVE" using b vo(2) by (simp add: vc_ok_def)
    from send_allowed_ok [OF ok i Suc.prems act] obtain c where
      c: "send_allowed ie (int i) j (vc_output_port ?v) (vc_output_vc ?v) rt = Inr c"
      "c \<longrightarrow> has_room (ie_now ie) (j div int (sa_vc_per_vnet (rt_sa rt))) (vc_output_vc ?v)
           (rt_output_unit rt ! nat (vc_output_port ?v))" by blast
    have port: "0 \<le> vc_output_port ?v" "vc_output_port ?v < int (length (rt_output_unit rt))"
      using vo(2) act by (auto simp: vc_ok_def)
    show ?thesis
    proof (cases c)
      case f: False
      with IH ns i True fetch c(1) show ?thesis by simp
    next
      case t: True
      with ns i True fetch c(1) have "pick_invc (Suc n) ie (int i) j rt = Inr (Some (vc_output_port ?v, j))" by simp
      with t c(2) port b True Suc.prems show ?thesis by (simp add: Let_def)
    qed
  qed
qed

text \<open>The first stage only writes the requests and the winners.\<close>

definition requested :: "Router \<Rightarrow> Router \<Rightarrow> bool" where
  "requested rt rt' \<longleftrightarrow> (\<exists>a prs ws. length prs = length (sa_port_requests (rt_sa rt)) \<and> length ws = length (sa_vc_winners (rt_sa rt))
     \<and> rt' = rt\<lparr>rt_sa := (rt_sa rt)\<lparr>sa_input_arbiter_activity := a, sa_port_requests := prs, sa_vc_winners := ws\<rparr>\<rparr>)"

lemma requested_refl: "requested rt rt"
  unfolding requested_def
  by (rule exI [of _ "sa_input_arbiter_activity (rt_sa rt)"], rule exI [of _ "sa_port_requests (rt_sa rt)"],
      rule exI [of _ "sa_vc_winners (rt_sa rt)"]) simp

lemma requested_ok: "requested rt rt' \<Longrightarrow> rt_ok now rt \<Longrightarrow> rt_ok now rt'"
  by (auto simp: requested_def rt_ok_def rt_shape_def Let_def)

lemma requested_units:
  "requested rt rt' \<Longrightarrow> rt_input_unit rt' = rt_input_unit rt \<and> rt_output_unit rt' = rt_output_unit rt \<and> rt_xbar rt' = rt_xbar rt
     \<and> rt_virtual_networks rt' = rt_virtual_networks rt \<and> sa_num_vcs (rt_sa rt') = sa_num_vcs (rt_sa rt)
     \<and> sa_vc_per_vnet (rt_sa rt') = sa_vc_per_vnet (rt_sa rt) \<and> sa_num_inports (rt_sa rt') = sa_num_inports (rt_sa rt)
     \<and> sa_num_outports (rt_sa rt') = sa_num_outports (rt_sa rt)
     \<and> sa_round_robin_invc (rt_sa rt') = sa_round_robin_invc (rt_sa rt) \<and> rt_consumer rt' = rt_consumer rt"
  by (auto simp: requested_def)

definition no_requests :: "Router \<Rightarrow> bool" where
  "no_requests rt \<longleftrightarrow> (\<forall>k \<in> set (sa_port_requests (rt_sa rt)). k = -1)"

lemma arbitrate_inport_ok:
  assumes ok: "rt_ok (ie_now ie) rt" and i: "i < length (rt_input_unit rt)"
    and r: "\<forall>x < length (rt_input_unit rt). req_ok (ie_now ie) rt x"
  shows "\<exists>rt'. arbitrate_inport ie (int i) rt = Inr rt' \<and> requested rt rt' \<and> (\<forall>x < length (rt_input_unit rt). req_ok (ie_now ie) rt' x)
    \<and> (\<forall>k j. pick_invc (sa_num_vcs (rt_sa rt)) ie (int i) (sa_round_robin_invc (rt_sa rt) ! i) rt = Inr (Some (k, j))
         \<longrightarrow> sa_port_requests (rt_sa rt') ! i = k)
    \<and> (\<forall>x < length (rt_input_unit rt). x \<noteq> i \<longrightarrow> sa_port_requests (rt_sa rt') ! x = sa_port_requests (rt_sa rt) ! x)"
proof -
  let ?sa = "rt_sa rt"
  have shape: "rt_shape rt" using ok by (simp add: rt_ok_def)
  note lens = rt_shapeD(3,4,5,7) [OF shape]
  let ?j = "sa_round_robin_invc ?sa ! i"
  have at: "at (sa_round_robin_invc ?sa) (int i) = Inr ?j" using i lens by simp
  have j: "0 \<le> ?j" "?j < int (sa_num_vcs ?sa) \<or> sa_num_vcs ?sa = 0" using i lens nth_mem by metis+
  obtain w where w: "pick_invc (sa_num_vcs ?sa) ie (int i) ?j rt = Inr w" "\<forall>k j'. w = Some (k, j') \<longrightarrow>
      (let v = iu_virtualChannels (rt_input_unit rt ! i) ! nat j' in
       0 \<le> j' \<and> j' < int (sa_num_vcs ?sa) \<and> 0 \<le> k \<and> k < int (length (rt_output_unit rt)) \<and> vc_flits v \<noteq> []
       \<and> f_time (hd (vc_flits v)) \<le> ie_now ie \<and> vc_output_port v = k
       \<and> has_room (ie_now ie) (j' div int (sa_vc_per_vnet ?sa)) (vc_output_vc v) (rt_output_unit rt ! nat k))"
  proof (cases "sa_num_vcs ?sa = 0")
    case True
    then have "pick_invc (sa_num_vcs ?sa) ie (int i) ?j rt = Inr None" by (simp only: pick_invc.simps)
    then show thesis by (rule that) simp
  next
    case False
    with pick_invc_ok [OF ok i j(1), of "sa_num_vcs ?sa"] j(2) that show thesis by blast
  qed
  show ?thesis
  proof (cases w)
    case None
    with w(1) at r show ?thesis by (auto simp: arbitrate_inport_def Let_def intro: requested_refl)
  next
    case (Some kj)
    obtain k j' where kj: "kj = (k, j')" by (cases kj)
    let ?rt = "rt\<lparr>rt_sa := ?sa\<lparr>sa_input_arbiter_activity := sa_input_arbiter_activity ?sa + 1,
        sa_port_requests := (sa_port_requests ?sa)[i := k], sa_vc_winners := (sa_vc_winners ?sa)[i := j']\<rparr>\<rparr>"
    have eq: "arbitrate_inport ie (int i) rt = Inr ?rt"
      using Some kj w(1) at i lens by (simp add: arbitrate_inport_def Let_def)
    moreover have "requested rt ?rt" unfolding requested_def by (intro exI conjI) (simp_all add: lens)
    moreover have "req_ok (ie_now ie) ?rt x" if x: "x < length (rt_input_unit rt)" for x
    proof (cases "x = i")
      case True
      with w(2) Some kj i lens show ?thesis by (simp add: req_ok_def winner_vc_def Let_def)
    next
      case False
      with r x lens show ?thesis by (simp add: req_ok_def winner_vc_def Let_def)
    qed
    ultimately show ?thesis using w(1) Some kj i lens by auto
  qed
qed

lemma send_allowed_requested: "requested rt rt' \<Longrightarrow> send_allowed ie i j k w rt' = send_allowed ie i j k w rt"
  using requested_units [of rt rt'] by (simp add: send_allowed_def get_vnet_def getOutputUnit_def getInputUnit_def cong: if_cong)

lemma pick_invc_requested: "requested rt rt' \<Longrightarrow> pick_invc n ie i j rt' = pick_invc n ie i j rt"
proof (induction n arbitrary: j)
  case (Suc n)
  note u = requested_units [OF Suc.prems]
  have "getInputUnit i rt' = getInputUnit i rt" using u by (simp add: getInputUnit_def)
  then show ?case using u by (simp add: send_allowed_requested [OF Suc.prems] Suc.IH [OF Suc.prems] cong: if_cong option.case_cong)
qed simp

lemma requested_trans: "requested a b \<Longrightarrow> requested b c \<Longrightarrow> requested a c"
proof -
  assume "requested a b" "requested b c"
  then obtain x prs ws y prs' ws' where
    b: "length prs = length (sa_port_requests (rt_sa a))" "length ws = length (sa_vc_winners (rt_sa a))"
      "b = a\<lparr>rt_sa := (rt_sa a)\<lparr>sa_input_arbiter_activity := x, sa_port_requests := prs, sa_vc_winners := ws\<rparr>\<rparr>"
    and c: "length prs' = length (sa_port_requests (rt_sa b))" "length ws' = length (sa_vc_winners (rt_sa b))"
      "c = b\<lparr>rt_sa := (rt_sa b)\<lparr>sa_input_arbiter_activity := y, sa_port_requests := prs', sa_vc_winners := ws'\<rparr>\<rparr>"
    unfolding requested_def by blast
  then have "c = a\<lparr>rt_sa := (rt_sa a)\<lparr>sa_input_arbiter_activity := y, sa_port_requests := prs', sa_vc_winners := ws'\<rparr>\<rparr>"
    by simp
  moreover have "length prs' = length (sa_port_requests (rt_sa a))" "length ws' = length (sa_vc_winners (rt_sa a))"
    using b c by simp_all
  ultimately show "requested a c" unfolding requested_def by blast
qed

text \<open>The request an input port makes: the first of its channels, in round-robin order, that may send.\<close>

definition wants :: "in_env \<Rightarrow> Router \<Rightarrow> nat \<Rightarrow> nat \<Rightarrow> bool" where
  "wants ie rt i q \<longleftrightarrow> (\<exists>j. pick_invc (sa_num_vcs (rt_sa rt)) ie (int i) (sa_round_robin_invc (rt_sa rt) ! i) rt = Inr (Some (int q, j)))"

lemma arbitrate_inports_ok:
  assumes ok: "rt_ok (ie_now ie) rt" and none: "no_requests rt"
  shows "\<exists>rt'. arbitrate_inports ie rt = Inr rt' \<and> requested rt rt' \<and> (\<forall>x < length (rt_input_unit rt). req_ok (ie_now ie) rt' x
      \<and> (\<forall>q. wants ie rt x q \<longrightarrow> sa_port_requests (rt_sa rt') ! x = int q))"
proof -
  let ?n = "length (rt_input_unit rt)"
  have shape: "rt_shape rt" using ok by (simp add: rt_ok_def)
  have none': "x < ?n \<Longrightarrow> sa_port_requests (rt_sa rt) ! x = -1" for x
    using none rt_shapeD(4) [OF shape] by (simp add: no_requests_def)
  let ?I = "\<lambda>k rt'. requested rt rt' \<and> (\<forall>x < ?n. req_ok (ie_now ie) rt' x)
      \<and> (\<forall>x < k. \<forall>q. wants ie rt x q \<longrightarrow> sa_port_requests (rt_sa rt') ! x = int q)"
  have "\<exists>t. loopR (arbitrate_inport ie) (map int [0..<?n]) rt = Inr t \<and> ?I ?n t"
  proof (rule loopR_upto [where I = ?I and g = int])
    show "?I 0 rt" using none' requested_refl by (auto simp: req_ok_def Let_def)
  next
    fix k rt' assume k: "k < ?n" and I: "?I k rt'"
    then have u: "rt_input_unit rt' = rt_input_unit rt" "sa_num_vcs (rt_sa rt') = sa_num_vcs (rt_sa rt)"
      "sa_round_robin_invc (rt_sa rt') = sa_round_robin_invc (rt_sa rt)" "rt_ok (ie_now ie) rt'"
      using requested_units requested_ok ok by auto
    from arbitrate_inport_ok [of ie rt' k] u k I obtain rt2 where
      rt2: "arbitrate_inport ie (int k) rt' = Inr rt2" "requested rt' rt2" "\<forall>x < ?n. req_ok (ie_now ie) rt2 x"
      "\<forall>q j. pick_invc (sa_num_vcs (rt_sa rt)) ie (int k) (sa_round_robin_invc (rt_sa rt) ! k) rt' = Inr (Some (q, j))
         \<longrightarrow> sa_port_requests (rt_sa rt2) ! k = q"
      "\<forall>x < ?n. x \<noteq> k \<longrightarrow> sa_port_requests (rt_sa rt2) ! x = sa_port_requests (rt_sa rt') ! x" by auto
    have "requested rt rt2" using I rt2(2) requested_trans by blast
    moreover have "sa_port_requests (rt_sa rt2) ! x = int q" if x: "x < Suc k" and w: "wants ie rt x q" for x q
    proof (cases "x = k")
      case True
      with w rt2(4) pick_invc_requested [of rt rt'] I show ?thesis by (auto simp: wants_def)
    next
      case False
      with x w I rt2(5) k show ?thesis by auto
    qed
    ultimately show "\<exists>t. arbitrate_inport ie (int k) rt' = Inr t \<and> ?I (Suc k) t" using rt2 by blast
  qed
  then show ?thesis unfolding arbitrate_inports_def rt_shapeD(1) [OF shape] by blast
qed

section \<open>The second stage\<close>

lemma wrap_next_mod: "s < n \<Longrightarrow> wrap_next n (int s) = int (Suc s mod n)"
  by (cases "Suc s = n") (auto simp: wrap_next_def)

lemma find_request_ok:
  assumes len: "length (sa_port_requests sa) = n" "sa_num_inports sa = n" and s: "s < n"
  shows "\<exists>w. find_request m sa k (int s) = Inr w
    \<and> (\<forall>x. w = Some x \<longrightarrow> (\<exists>i < n. x = int i \<and> sa_port_requests sa ! i = k))
    \<and> (w = None \<longrightarrow> (\<forall>d < m. sa_port_requests sa ! ((s + d) mod n) \<noteq> k))"
  using s
proof (induction m arbitrary: s)
  case (Suc m)
  let ?s = "Suc s mod n"
  have s': "?s < n" using Suc.prems by simp
  show ?case
  proof (cases "sa_port_requests sa ! s = k")
    case True
    with Suc.prems len show ?thesis by auto
  next
    case False
    from Suc.IH [OF s'] obtain w where w: "find_request m sa k (int ?s) = Inr w"
      "\<forall>x. w = Some x \<longrightarrow> (\<exists>i < n. x = int i \<and> sa_port_requests sa ! i = k)"
      "w = None \<longrightarrow> (\<forall>d < m. sa_port_requests sa ! ((?s + d) mod n) \<noteq> k)" by blast
    have "find_request (Suc m) sa k (int s) = Inr w"
      using False Suc.prems len w(1) by (simp add: wrap_next_mod)
    moreover have "sa_port_requests sa ! ((s + d) mod n) \<noteq> k" if none: "w = None" and d: "d < Suc m" for d
    proof (cases d)
      case 0
      then show ?thesis using False Suc.prems by simp
    next
      case (Suc d')
      then have "(s + d) mod n = (?s + d') mod n" by (simp add: mod_add_left_eq)
      with w(3) none Suc d show ?thesis by simp
    qed
    ultimately show ?thesis using w(2) by blast
  qed
qed simp

lemma find_request_complete:
  assumes "length (sa_port_requests sa) = n" "sa_num_inports sa = n" and "s < n" and "find_request n sa k (int s) = Inr None"
    and "i < n"
  shows "sa_port_requests sa ! i \<noteq> k"
proof -
  have "\<exists>d < n. (s + d) mod n = i"
    using assms(3,5) by (intro exI [of _ "(i + n - s) mod n"]) (simp add: mod_add_right_eq)
  with find_request_ok [OF assms(1-3), of n k] assms(4) show ?thesis by auto
qed

text \<open>The effect on an input port: one of its channels lost its first flit to the crossbar and a credit went
  upstream, or nothing changed.\<close>

definition port_moved :: "in_env \<Rightarrow> Router \<Rightarrow> Router \<Rightarrow> nat \<Rightarrow> nat \<Rightarrow> bool" where
  "port_moved ie rt rt' q i \<longleftrightarrow> (\<exists>invc outvc f fs. let iu = rt_input_unit rt ! i; iu' = rt_input_unit rt' ! i in
     invc < sa_num_vcs (rt_sa rt) \<and> vc_flits (iu_virtualChannels iu ! invc) = f # fs \<and> f_time f \<le> ie_now ie
     \<and> vc_output_port (iu_virtualChannels iu ! invc) = int q
     \<and> map vc_flits (iu_virtualChannels iu') = (map vc_flits (iu_virtualChannels iu))[invc := fs]
     \<and> fb_buffer (xb_switchBuffers (rt_xbar rt') ! i) = fb_buffer (xb_switchBuffers (rt_xbar rt) ! i) @ [moved ie q outvc f]
     \<and> fb_buffer (iu_creditQueue iu') = fb_buffer (iu_creditQueue iu) @ [credit_for ie (int invc) (is_tail (f_type f))])"

definition port_kept :: "Router \<Rightarrow> Router \<Rightarrow> nat \<Rightarrow> bool" where
  "port_kept rt rt' i \<longleftrightarrow> rt_input_unit rt' ! i = rt_input_unit rt ! i
     \<and> xb_switchBuffers (rt_xbar rt') ! i = xb_switchBuffers (rt_xbar rt) ! i"

text \<open>A matching of output ports with input ports that accounts for every change.\<close>

definition matching :: "in_env \<Rightarrow> Router \<Rightarrow> Router \<Rightarrow> (nat \<times> nat) list \<Rightarrow> bool" where
  "matching ie rt rt' gs \<longleftrightarrow> distinct (map fst gs) \<and> distinct (map snd gs)
     \<and> (\<forall>(q, i) \<in> set gs. q < length (rt_output_unit rt) \<and> i < length (rt_input_unit rt) \<and> port_moved ie rt rt' q i)
     \<and> (\<forall>i < length (rt_input_unit rt). i \<notin> snd ` set gs \<longrightarrow> port_kept rt rt' i)"

text \<open>What the allocator never touches.\<close>

definition iu_static :: "InputUnit \<Rightarrow> int \<times> PortDirection \<times> int \<times> HistoryRecord \<times> nat list \<times> nat list" where
  "iu_static iu = (iu_id iu, iu_direction iu, iu_vc_per_vnet iu, iu_HR iu, iu_num_buffer_writes iu, iu_num_buffer_reads iu)"

definition alloc_frame :: "Router \<Rightarrow> Router \<Rightarrow> bool" where
  "alloc_frame rt rt' \<longleftrightarrow> rt_latency rt' = rt_latency rt \<and> rt_virtual_networks rt' = rt_virtual_networks rt
     \<and> rt_bit_width rt' = rt_bit_width rt \<and> rt_shared rt' = rt_shared rt \<and> rt_consumer rt' = rt_consumer rt
     \<and> map ou_outBuffer (rt_output_unit rt') = map ou_outBuffer (rt_output_unit rt)
     \<and> map iu_static (rt_input_unit rt') = map iu_static (rt_input_unit rt)"

lemma alloc_frame_after_grant:
  assumes "alloc_frame rt rt'" and "ou_outBuffer ou = ou_outBuffer (rt_output_unit rt' ! p)"
    and "p < length (rt_output_unit rt')" and "i < length (rt_input_unit rt')"
  shows "alloc_frame rt (after_grant ie p i w ou rt')"
proof -
  let ?rt = "after_grant ie p i w ou rt'"
  have "map ou_outBuffer (rt_output_unit ?rt) = map ou_outBuffer (rt_output_unit rt')"
    using assms(2,3) by (intro nth_equalityI) (simp_all add: after_grant_def Let_def nth_list_update)
  moreover have "map iu_static (rt_input_unit ?rt) = map iu_static (rt_input_unit rt')"
    using assms(4) by (intro nth_equalityI) (simp_all add: after_grant_def Let_def nth_list_update iu_static_def)
  ultimately show ?thesis using assms(1) by (simp add: alloc_frame_def) (simp add: after_grant_def Let_def)
qed

lemma after_grant_frame:
  "x \<noteq> i \<Longrightarrow> rt_input_unit (after_grant ie p i w ou rt) ! x = rt_input_unit rt ! x"
  "x \<noteq> i \<Longrightarrow> xb_switchBuffers (rt_xbar (after_grant ie p i w ou rt)) ! x = xb_switchBuffers (rt_xbar rt) ! x"
  "y \<noteq> p \<Longrightarrow> rt_output_unit (after_grant ie p i w ou rt) ! y = rt_output_unit rt ! y"
  "length (rt_input_unit (after_grant ie p i w ou rt)) = length (rt_input_unit rt)"
  "length (rt_output_unit (after_grant ie p i w ou rt)) = length (rt_output_unit rt)"
  "sa_port_requests (rt_sa (after_grant ie p i w ou rt)) = (sa_port_requests (rt_sa rt))[i := -1]"
  "sa_vc_winners (rt_sa (after_grant ie p i w ou rt)) = sa_vc_winners (rt_sa rt)"
  "sa_num_vcs (rt_sa (after_grant ie p i w ou rt)) = sa_num_vcs (rt_sa rt)"
  "sa_vc_per_vnet (rt_sa (after_grant ie p i w ou rt)) = sa_vc_per_vnet (rt_sa rt)"
  "rt_consumer (after_grant ie p i w ou rt) = rt_consumer rt"
  by (simp_all add: after_grant_def Let_def)

lemma after_grant_moved:
  assumes ok: "rt_ok (ie_now ie) rt" and i: "i < length (rt_input_unit rt)" and r: "req_ok (ie_now ie) rt i"
    and k: "sa_port_requests (rt_sa rt) ! i = int p"
  shows "port_moved ie rt (after_grant ie p i w ou rt) p i"
proof -
  let ?sa = "rt_sa rt" and ?rt = "after_grant ie p i w ou rt"
  define invc where "invc = sa_vc_winners ?sa ! i"
  define v where "v = winner_vc rt i"
  let ?iu = "rt_input_unit rt ! i"
  have shape: "rt_shape rt" using ok by (simp add: rt_ok_def)
  have invc: "0 \<le> invc" "invc < int (sa_num_vcs ?sa)" and ne: "vc_flits v \<noteq> []" and port: "vc_output_port v = int p"
    and due: "f_time (hd (vc_flits v)) \<le> ie_now ie"
    using r k by (auto simp: req_ok_def Let_def invc_def v_def)
  from ne obtain f fs where f: "vc_flits v = f # fs" by (cases "vc_flits v") auto
  have n: "nat invc < sa_num_vcs ?sa" "int (nat invc) = invc" using invc by auto
  have len: "length (xb_switchBuffers (rt_xbar rt)) = length (rt_input_unit rt)"
    using shape by (simp add: rt_shape_def Let_def)
  have v: "v = iu_virtualChannels ?iu ! nat invc" by (simp add: v_def winner_vc_def invc_def)
  have iu': "rt_input_unit ?rt ! i = ?iu\<lparr>
      iu_virtualChannels := (iu_virtualChannels ?iu)[nat invc := pop_vc (ie_now ie) (v\<lparr>vc_output_vc := w\<rparr>)],
      iu_creditQueue := fb_insert (credit_for ie invc (is_tail (f_type f))) (iu_creditQueue ?iu)\<rparr>"
    using i f by (simp add: after_grant_def Let_def flip: invc_def v_def)
  have xb: "xb_switchBuffers (rt_xbar ?rt) ! i = fb_insert (moved ie p w f) (xb_switchBuffers (rt_xbar rt) ! i)"
    using i f len by (simp add: after_grant_def Let_def flip: v_def)
  show ?thesis
    unfolding port_moved_def Let_def iu' xb
    using n f port due v by (intro exI [of _ "nat invc"] exI [of _ w] exI [of _ f] exI [of _ fs])
      (simp add: map_update fb_insert_def)
qed

lemma port_moved_frame:
  "port_kept rt' rt'' i \<Longrightarrow> port_moved ie rt rt' q i \<Longrightarrow> port_moved ie rt rt'' q i"
  by (simp add: port_moved_def port_kept_def Let_def)

lemma port_moved_from:
  "port_kept rt rt' i \<Longrightarrow> sa_num_vcs (rt_sa rt') = sa_num_vcs (rt_sa rt) \<Longrightarrow> port_moved ie rt' rt'' q i
     \<Longrightarrow> port_moved ie rt rt'' q i"
  by (simp add: port_moved_def port_kept_def Let_def)

lemma matching_snoc:
  assumes "matching ie rt rt' gs" and "p < length (rt_output_unit rt)" and "i < length (rt_input_unit rt)"
    and "p \<notin> fst ` set gs" and "i \<notin> snd ` set gs" and "sa_num_vcs (rt_sa rt') = sa_num_vcs (rt_sa rt)"
    and "port_moved ie rt' rt'' p i" and frame: "\<And>x. x \<noteq> i \<Longrightarrow> port_kept rt' rt'' x"
  shows "matching ie rt rt'' (gs @ [(p, i)])"
proof -
  have "port_kept rt rt' i" using assms(1,3,5) by (simp add: matching_def)
  then have new: "port_moved ie rt rt'' p i" using port_moved_from assms(6,7) by blast
  have old: "port_moved ie rt rt'' q x" if "(q, x) \<in> set gs" for q x
  proof -
    have "x \<noteq> i" using that assms(5) by force
    then show ?thesis using that assms(1) port_moved_frame [OF frame] by (auto simp: matching_def)
  qed
  have kept: "port_kept rt rt'' x" if "x < length (rt_input_unit rt)" "x \<notin> snd ` set (gs @ [(p, i)])" for x
    using that assms(1) frame [of x] by (auto simp: matching_def port_kept_def)
  show ?thesis using assms new old kept by (auto simp: matching_def)
qed

text \<open>The state of the second stage before output port \<open>p\<close> is served.\<close>

definition stage2 :: "in_env \<Rightarrow> Router \<Rightarrow> nat \<Rightarrow> Router \<Rightarrow> bool" where
  "stage2 ie rt p rt' \<longleftrightarrow> rt_ok (ie_now ie) rt' \<and> alloc_frame rt rt' \<and> length (rt_input_unit rt') = length (rt_input_unit rt)
     \<and> length (rt_output_unit rt') = length (rt_output_unit rt) \<and> sa_num_vcs (rt_sa rt') = sa_num_vcs (rt_sa rt)
     \<and> (\<forall>i < length (rt_input_unit rt). int p \<le> sa_port_requests (rt_sa rt') ! i \<longrightarrow> req_ok (ie_now ie) rt' i)
     \<and> (\<exists>gs. matching ie rt rt' gs \<and> (\<forall>(q, i) \<in> set gs. q < p \<and> sa_port_requests (rt_sa rt') ! i = -1 \<and> sa_port_requests (rt_sa rt) ! i = int q)
          \<and> (\<forall>i < length (rt_input_unit rt). i \<notin> snd ` set gs \<longrightarrow> sa_port_requests (rt_sa rt') ! i = sa_port_requests (rt_sa rt) ! i)
          \<and> (\<forall>q < p. \<forall>i < length (rt_input_unit rt). sa_port_requests (rt_sa rt) ! i = int q \<longrightarrow> q \<in> fst ` set gs))"

lemma req_ok_frame:
  assumes "req_ok now rt x" and "x \<noteq> i" and "sa_port_requests (rt_sa rt) ! x \<noteq> int p"
  shows "req_ok now (after_grant ie p i w ou rt) x"
proof -
  have w: "winner_vc (after_grant ie p i w ou rt) x = winner_vc rt x"
    using assms(2) by (simp add: winner_vc_def after_grant_frame)
  have "nat (sa_port_requests (rt_sa rt) ! x) \<noteq> p" if "0 \<le> sa_port_requests (rt_sa rt) ! x" using that assms(3) by auto
  with assms w show ?thesis by (auto simp: req_ok_def Let_def after_grant_frame)
qed

lemma arbitrate_outport_ok:
  assumes p: "p < length (rt_output_unit rt)" and I: "stage2 ie rt p rt'"
  shows "\<exists>rt'' rs. arbitrate_outport ie (int p) (rt', reqs) = Inr (rt'', rs) \<and> stage2 ie rt (Suc p) rt''"
proof -
  let ?n = "length (rt_input_unit rt)" and ?sa = "rt_sa rt'"
  from I have ok: "rt_ok (ie_now ie) rt'" and fr: "alloc_frame rt rt'" and len: "length (rt_input_unit rt') = ?n"
      "length (rt_output_unit rt') = length (rt_output_unit rt)" and nv: "sa_num_vcs ?sa = sa_num_vcs (rt_sa rt)"
    and rq: "\<forall>i < ?n. int p \<le> sa_port_requests ?sa ! i \<longrightarrow> req_ok (ie_now ie) rt' i" by (simp_all add: stage2_def)
  from I obtain gs where gs: "matching ie rt rt' gs" "\<forall>(q, i) \<in> set gs. q < p \<and> sa_port_requests ?sa ! i = -1 \<and> sa_port_requests (rt_sa rt) ! i = int q"
      "\<forall>i < ?n. i \<notin> snd ` set gs \<longrightarrow> sa_port_requests ?sa ! i = sa_port_requests (rt_sa rt) ! i"
      "\<forall>q < p. \<forall>i < ?n. sa_port_requests (rt_sa rt) ! i = int q \<longrightarrow> q \<in> fst ` set gs" by (auto simp: stage2_def)
  have shape: "rt_shape rt'" using ok by (simp add: rt_ok_def)
  note sh = rt_shapeD [OF shape, unfolded len]
  let ?s = "sa_round_robin_inport ?sa ! p"
  have at: "at (sa_round_robin_inport ?sa) (int p) = Inr ?s" using p sh(6) by simp
  have "?s \<in> set (sa_round_robin_inport ?sa)" using p sh(6) by simp
  then have s: "0 \<le> ?s" "?s < int ?n \<or> ?n = 0" using sh(8) by auto
  have rp: "\<exists>w. find_request ?n ?sa (int p) ?s = Inr w \<and> (\<forall>x. w = Some x \<longrightarrow> (\<exists>i < ?n. x = int i \<and> sa_port_requests ?sa ! i = int p))
      \<and> (w = None \<longrightarrow> (\<forall>i < ?n. sa_port_requests ?sa ! i \<noteq> int p))"
  proof (cases "?n = 0")
    case True
    then have "find_request ?n ?sa (int p) ?s = Inr None" by (simp only: find_request.simps)
    with True show ?thesis by simp
  next
    case False
    then have ns: "nat ?s < ?n" "int (nat ?s) = ?s" using s by auto
    from find_request_ok [OF sh(4,1) ns(1), of ?n "int p"] find_request_complete [OF sh(4,1) ns(1), of "int p"]
    show ?thesis unfolding ns(2) by blast
  qed
  then obtain w where w: "find_request ?n ?sa (int p) ?s = Inr w"
    "\<forall>x. w = Some x \<longrightarrow> (\<exists>i < ?n. x = int i \<and> sa_port_requests ?sa ! i = int p)"
    "w = None \<longrightarrow> (\<forall>i < ?n. sa_port_requests ?sa ! i \<noteq> int p)" by blast
  show ?thesis
  proof (cases w)
    case None
    then have no: "\<forall>i < ?n. sa_port_requests ?sa ! i \<noteq> int p" using w(3) by simp
    have "arbitrate_outport ie (int p) (rt', reqs) = Inr (rt', reqs)"
      using at w(1) None by (simp add: arbitrate_outport_def Let_def sh(1))
    moreover have "q \<in> fst ` set gs" if "q < Suc p" "i < ?n" "sa_port_requests (rt_sa rt) ! i = int q" for q i
    proof (cases "i \<in> snd ` set gs")
      case True
      then obtain q' where "(q', i) \<in> set gs" by auto
      with gs(2) that show ?thesis by force
    next
      case False
      then have "q \<noteq> p" using that gs(3) no by auto
      with that gs(4) show ?thesis by auto
    qed
    then have "\<exists>gs. matching ie rt rt' gs \<and> (\<forall>(q, i) \<in> set gs. q < Suc p \<and> sa_port_requests ?sa ! i = -1 \<and> sa_port_requests (rt_sa rt) ! i = int q)
        \<and> (\<forall>i < ?n. i \<notin> snd ` set gs \<longrightarrow> sa_port_requests ?sa ! i = sa_port_requests (rt_sa rt) ! i)
        \<and> (\<forall>q < Suc p. \<forall>i < ?n. sa_port_requests (rt_sa rt) ! i = int q \<longrightarrow> q \<in> fst ` set gs)"
      using gs by (intro exI [of _ gs]) (auto split: prod.splits)
    ultimately show ?thesis using ok fr len nv rq by (auto simp: stage2_def)
  next
    case (Some x)
    then obtain i where i: "i < ?n" "x = int i" "sa_port_requests ?sa ! i = int p" using w(2) by blast
    then have i': "i < length (rt_input_unit rt')" and ri: "req_ok (ie_now ie) rt' i" using len rq by auto
    from grant_eq [OF ok i' ri i(3)] obtain outvc ou rs where
      g: "grant_outport ie (int p) (int i) rt' = Inr (after_grant ie p i outvc ou rt', rs)"
      and ou: "ou_ok (rt_virtual_networks rt') ou" "out_vc_ok (ie_now ie) ou outvc"
        "\<And>k. out_vc_ok (ie_now ie) (rt_output_unit rt' ! p) k \<Longrightarrow> out_vc_ok (ie_now ie) ou k"
      and buf: "ou_outBuffer ou = ou_outBuffer (rt_output_unit rt' ! p)" by metis
    let ?rt = "after_grant ie p i outvc ou rt'"
    have eq: "arbitrate_outport ie (int p) (rt', reqs) = Inr (?rt, reqs @ rs)"
      using at w(1) Some i(2) g by (simp add: arbitrate_outport_def Let_def sh(1))
    have ok': "rt_ok (ie_now ie) ?rt" by (rule after_grant_ok [OF ok i' ri i(3) ou])
    have notin: "i \<notin> snd ` set gs" using gs(2) i(3) by force
    have pnotin: "p \<notin> fst ` set gs" using gs(2) by force
    have ipq: "sa_port_requests (rt_sa rt) ! i = int p" using gs(3) notin i by simp
    have m: "matching ie rt ?rt (gs @ [(p, i)])"
      by (rule matching_snoc [OF gs(1) p i(1) pnotin notin nv after_grant_moved [OF ok i' ri i(3)]])
        (simp add: port_kept_def after_grant_frame)
    have reqs': "sa_port_requests (rt_sa ?rt) ! x = (if x = i then -1 else sa_port_requests ?sa ! x)" if "x < ?n" for x
      using that sh(4) i(1) by (simp add: after_grant_frame nth_list_update)
    have rq': "req_ok (ie_now ie) ?rt x" if x: "x < ?n" "int (Suc p) \<le> sa_port_requests (rt_sa ?rt) ! x" for x
    proof -
      have "x \<noteq> i" "int (Suc p) \<le> sa_port_requests ?sa ! x" using x reqs' [OF x(1)] by (auto split: if_splits)
      then show ?thesis using rq x(1) by (intro req_ok_frame) auto
    qed
    have "q < p \<and> sa_port_requests (rt_sa ?rt) ! x = -1 \<and> sa_port_requests (rt_sa rt) ! x = int q" if qx: "(q, x) \<in> set gs" for q x
    proof -
      have "x < ?n" using gs(1) qx by (auto simp: matching_def)
      moreover have "q < p \<and> sa_port_requests ?sa ! x = -1 \<and> sa_port_requests (rt_sa rt) ! x = int q" using gs(2) qx by auto
      ultimately show ?thesis using reqs' by simp
    qed
    then have g2: "\<forall>(q, x) \<in> set (gs @ [(p, i)]). q < Suc p \<and> sa_port_requests (rt_sa ?rt) ! x = -1
        \<and> sa_port_requests (rt_sa rt) ! x = int q"
      using reqs' [OF i(1)] ipq by (auto simp: less_Suc_eq)
    have g3: "\<forall>x < ?n. x \<notin> snd ` set (gs @ [(p, i)]) \<longrightarrow> sa_port_requests (rt_sa ?rt) ! x = sa_port_requests (rt_sa rt) ! x"
      using gs(3) reqs' by auto
    have g4: "\<forall>q < Suc p. \<forall>x < ?n. sa_port_requests (rt_sa rt) ! x = int q \<longrightarrow> q \<in> fst ` set (gs @ [(p, i)])"
      using gs(4) by (auto simp: less_Suc_eq)
    have lens': "length (rt_input_unit ?rt) = ?n" "length (rt_output_unit ?rt) = length (rt_output_unit rt)"
      "sa_num_vcs (rt_sa ?rt) = sa_num_vcs (rt_sa rt)" using len nv by (simp_all add: after_grant_frame)
    have fr': "alloc_frame rt ?rt" by (rule alloc_frame_after_grant [OF fr buf _ i']) (simp add: p len)
    have "stage2 ie rt (Suc p) ?rt"
      unfolding stage2_def using ok' fr' lens' rq' m g2 g3 g4 by blast
    with eq show ?thesis by blast
  qed
qed

lemma arbitrate_outports_ok:
  assumes ok: "rt_ok (ie_now ie) rt" and rq: "\<forall>i < length (rt_input_unit rt). req_ok (ie_now ie) rt i"
  shows "\<exists>rt' reqs. arbitrate_outports ie rt = Inr (rt', reqs) \<and> stage2 ie rt (length (rt_output_unit rt)) rt'"
proof -
  let ?I = "\<lambda>p (rt', reqs). stage2 ie rt p rt'"
  have m0: "matching ie rt rt []" by (simp add: matching_def port_kept_def)
  have "\<exists>t. loopR (arbitrate_outport ie) (map int [0..<length (rt_output_unit rt)]) (rt, []) = Inr t
      \<and> ?I (length (rt_output_unit rt)) t"
  proof (rule loopR_upto [where I = ?I and g = int])
    show "?I 0 (rt, [])" using ok rq m0 by (auto simp: stage2_def alloc_frame_def intro!: exI [of _ "[]"])
    show "\<exists>t. arbitrate_outport ie (int p) s = Inr t \<and> ?I (Suc p) t" if p: "p < length (rt_output_unit rt)" and I: "?I p s" for p s
    proof -
      obtain rt' rs where s: "s = (rt', rs)" by (cases s)
      from arbitrate_outport_ok [OF p, of ie rt' rs] I s show ?thesis by auto
    qed
  qed
  moreover have "sa_num_outports (rt_sa rt) = length (rt_output_unit rt)" using ok rt_shapeD(2) by (simp add: rt_ok_def)
  ultimately show ?thesis by (auto simp: arbitrate_outports_def)
qed

lemma check_for_wakeup_ok:
  assumes ok: "rt_ok (ie_now ie) rt" and p: "0 < ie_period ie"
  shows "\<exists>ws. check_for_wakeup ie rt = Inr ws"
proof -
  let ?t = "clockEdge_at (ie_period ie) (ie_now ie) 1" and ?sa = "rt_sa rt"
  have n: "sa_num_inports ?sa = length (rt_input_unit rt)" using ok rt_shapeD(1) by (simp add: rt_ok_def)
  have t: "ie_now ie \<le> ?t" using clockEdge_at_ge [OF p] .
  have "\<exists>b. existsR (\<lambda>(i, j). bindR (getInputUnit (int i) rt) (iu_need_stage (int j) SA ?t))
      (List.product [0..<sa_num_inports ?sa] [0..<sa_num_vcs ?sa]) = Inr b"
  proof (rule existsR_returns)
    fix x assume "x \<in> set (List.product [0..<sa_num_inports ?sa] [0..<sa_num_vcs ?sa])"
    then obtain i j where x: "x = (i, j)" "i < length (rt_input_unit rt)" "j < sa_num_vcs ?sa" using n by auto
    then have j: "0 \<le> int j" "int j < int (sa_num_vcs ?sa)" by auto
    note vo = rt_ok_vc [OF ok x(2) j]
    from vc_need_stage_ok [OF vo(2) t, of SA] vo(1) x
    show "\<exists>b. (case x of (i, j) \<Rightarrow> bindR (getInputUnit (int i) rt) (iu_need_stage (int j) SA ?t)) = Inr b"
      by (auto simp: iu_need_stage_def)
  qed
  then show ?thesis by (auto simp: check_for_wakeup_def Let_def)
qed

lemma clear_request_vector_units:
  "rt_input_unit (clear_request_vector rt) = rt_input_unit rt" "rt_output_unit (clear_request_vector rt) = rt_output_unit rt"
  "rt_xbar (clear_request_vector rt) = rt_xbar rt"
  by (simp_all add: clear_request_vector_def)

lemma clear_request_vector_ok:
  "rt_ok now rt \<Longrightarrow> rt_ok now (clear_request_vector rt)" "no_requests (clear_request_vector rt)"
  by (auto simp: rt_ok_def rt_shape_def Let_def clear_request_vector_def no_requests_def)

lemma matching_ends:
  assumes "requested rt rt1" and "matching ie rt1 rt2 gs"
  shows "matching ie rt (clear_request_vector rt2) gs"
proof -
  note u = requested_units [OF assms(1)]
  have l: "port_kept rt rt1 i" for i using u by (simp add: port_kept_def)
  have r: "port_kept rt2 (clear_request_vector rt2) i" for i by (simp add: port_kept_def clear_request_vector_units)
  have "port_moved ie rt (clear_request_vector rt2) q i" if "port_moved ie rt1 rt2 q i" for q i
    using port_moved_from [OF l _ port_moved_frame [OF r that]] u by simp
  moreover have "port_kept rt (clear_request_vector rt2) i" if "port_kept rt1 rt2 i" for i
    using that l [of i] r [of i] by (simp add: port_kept_def)
  ultimately show ?thesis using assms(2) u unfolding matching_def by fastforce
qed

lemma sa_wakeup_ok:
  assumes "rt_ok (ie_now ie) rt" and "no_requests rt" and "0 < ie_period ie"
  shows "\<exists>rt' reqs gs. sa_wakeup ie rt = Inr (rt', reqs) \<and> rt_ok (ie_now ie) rt' \<and> no_requests rt' \<and> matching ie rt rt' gs
    \<and> alloc_frame rt rt'
    \<and> (\<forall>i q. i < length (rt_input_unit rt) \<and> q < length (rt_output_unit rt) \<and> wants ie rt i q \<longrightarrow> q \<in> fst ` set gs)"
proof -
  from arbitrate_inports_ok [OF assms(1,2)] obtain rt1 where
    1: "arbitrate_inports ie rt = Inr rt1" "requested rt rt1" "\<forall>x < length (rt_input_unit rt). req_ok (ie_now ie) rt1 x"
      "\<forall>x < length (rt_input_unit rt). \<forall>q. wants ie rt x q \<longrightarrow> sa_port_requests (rt_sa rt1) ! x = int q" by blast
  note u = requested_units [OF 1(2)]
  have ok1: "rt_ok (ie_now ie) rt1" using requested_ok [OF 1(2) assms(1)] .
  have "\<forall>i < length (rt_input_unit rt1). req_ok (ie_now ie) rt1 i" using 1(3) u by simp
  from arbitrate_outports_ok [OF ok1 this] obtain rt2 reqs where
    2: "arbitrate_outports ie rt1 = Inr (rt2, reqs)" "stage2 ie rt1 (length (rt_output_unit rt1)) rt2" by blast
  then obtain gs where gs: "rt_ok (ie_now ie) rt2" "matching ie rt1 rt2 gs"
    "\<forall>q < length (rt_output_unit rt1). \<forall>i < length (rt_input_unit rt1). sa_port_requests (rt_sa rt1) ! i = int q \<longrightarrow> q \<in> fst ` set gs"
    and fr: "alloc_frame rt1 rt2" by (auto simp: stage2_def)
  let ?rt = "clear_request_vector rt2"
  have ok3: "rt_ok (ie_now ie) ?rt" using clear_request_vector_ok(1) [OF gs(1)] .
  from check_for_wakeup_ok [OF ok3 assms(3)] obtain ws where ws: "check_for_wakeup ie ?rt = Inr ws" by blast
  have "sa_wakeup ie rt = Inr (?rt, reqs @ ws)" using 1(1) 2(1) ws by (simp add: sa_wakeup_def Let_def)
  moreover have "matching ie rt ?rt gs"
    using matching_ends [OF 1(2) gs(2)] .
  moreover have "\<forall>i q. i < length (rt_input_unit rt) \<and> q < length (rt_output_unit rt) \<and> wants ie rt i q \<longrightarrow> q \<in> fst ` set gs"
    using gs(3) 1(4) u by auto
  moreover have "alloc_frame rt ?rt"
    using fr 1(2) by (auto simp: alloc_frame_def requested_def clear_request_vector_def)
  ultimately show ?thesis using ok3 clear_request_vector_ok(2) by blast
qed

text \<open>Claim C6. Switch allocation is safe and work-conserving: from a router state that satisfies the invariant and has
  no request pending, the wake-up of the allocator returns (none of its assertions fails: the granted head flits find a
  free output channel, no credit count becomes negative, a channel whose tail left is empty), the invariant holds again,
  and the change is described by a matching of output ports with input ports: every matched input port gives the
  first flit of one of its channels, stamped with the output port, to the crossbar and returns one credit (with the free
  signal iff the flit is a tail), every other input port is unchanged, and every output port that some input port
  asked for is matched.\<close>

theorem switch_allocation_safe:
  assumes "rt_ok (ie_now ie) rt" and "no_requests rt" and "0 < ie_period ie"
  shows "\<exists>rt' reqs gs. sa_wakeup ie rt = Inr (rt', reqs) \<and> rt_ok (ie_now ie) rt' \<and> no_requests rt' \<and> matching ie rt rt' gs
    \<and> (\<forall>i q. i < length (rt_input_unit rt) \<and> q < length (rt_output_unit rt) \<and> wants ie rt i q \<longrightarrow> q \<in> fst ` set gs)"
  using sa_wakeup_ok [OF assms] by blast

definition demo_vc :: VirtualChannel where
  "demo_vc = \<lparr>vc_inputBuffer = \<lparr>fb_buffer = [advance_stage SA 900 demo_head], fb_max_size = 10000\<rparr>, vc_state = (ACTIVE, 900),
     vc_output_port = 0, vc_enqueue_time = 900, vc_output_vc = -1\<rparr>"

definition demo_router :: Router where
  "demo_router = \<lparr>rt_latency = 1, rt_virtual_networks = 1, rt_vc_per_vnet = 1, rt_num_vcs = 1, rt_bit_width = 128,
     rt_shared = demo_shared, rt_tdma = tdma_new, rt_sa = sa_init 1 1 (SwitchAllocator_new 1 1), rt_xbar = xb_init 1 CrossbarSwitch_new,
     rt_input_unit = [demo_input_unit\<lparr>iu_virtualChannels := [demo_vc]\<rparr>], rt_output_unit = [one_vc 0 IDLE 4],
     rt_consumer = Consumer_new\<rparr>"

lemma demo_router_ok: "rt_ok 1000 demo_router" "no_requests demo_router"
proof -
  have h: "is_tail (f_type (advance_stage SA 900 demo_head))"
    by (simp add: demo_head_def flit_new_def flit_kind_def advance_stage_def is_tail_def)
  have shape: "rt_shape demo_router"
    by (simp add: rt_shape_def demo_router_def Let_def sa_init_def SwitchAllocator_new_def xb_init_def CrossbarSwitch_new_def)
  have "vc_ok 1000 [one_vc 0 IDLE 4] demo_vc" by (simp add: vc_ok_def demo_vc_def)
  moreover have "ou_ok 1 (one_vc 0 IDLE 4)" by (auto simp: ou_ok_def one_vc_def ou_has_vnet_def)
  ultimately show "rt_ok 1000 demo_router" using shape by (simp add: rt_ok_def demo_router_def)
  show "no_requests demo_router" by (simp add: no_requests_def demo_router_def sa_init_def)
qed

theorem switch_allocation_safe_witness:
  "rt_ok 1000 demo_router \<and> (\<exists>rt' reqs i. sa_wakeup (demo_in_env 5) demo_router = Inr (rt', reqs) \<and> rt_ok 1000 rt'
     \<and> port_moved (demo_in_env 5) demo_router rt' 0 i)"
proof -
  have e: "ie_now (demo_in_env 5) = 1000" "0 < ie_period (demo_in_env 5)" "\<not> re_ordered (ie_route (demo_in_env 5)) v" for v
    by (simp_all add: demo_in_env_def)
  have r: "vc_range 0 1 = [0]" by (simp add: vc_range_def)
  have "pick_invc 1 (demo_in_env 5) 0 0 demo_router = Inr (Some (0, 0))"
    using r e(3) unfolding One_nat_def pick_invc.simps
    by (simp add: demo_router_def getInputUnit_def getOutputUnit_def iu_need_stage_def at_def vc_need_stage_def fb_isReady_def
        demo_vc_def fb_peekTopFlit_def is_stage_def advance_stage_def e(1) iu_get_outport_def iu_get_outvc_def send_allowed_def
        get_vnet_def sa_init_def SwitchAllocator_new_def ou_has_free_vc_def one_vc_def ou_is_vc_idle_def ov_isInState_def
        demo_head_def flit_new_def Let_def)
  then have w: "wants (demo_in_env 5) demo_router 0 0"
    by (auto simp: wants_def demo_router_def sa_init_def SwitchAllocator_new_def)
  have n: "length (rt_input_unit demo_router) = 1" "length (rt_output_unit demo_router) = 1" by (simp_all add: demo_router_def)
  from switch_allocation_safe [of "demo_in_env 5" demo_router, unfolded e(1), OF demo_router_ok e(2)] w n
  obtain rt' reqs gs where "sa_wakeup (demo_in_env 5) demo_router = Inr (rt', reqs)" "rt_ok 1000 rt'"
    "matching (demo_in_env 5) demo_router rt' gs" "0 \<in> fst ` set gs" by auto
  then show ?thesis using demo_router_ok by (fastforce simp: matching_def)
qed

end
