(* ===== verification/Garnet_Router.thy ===== *)
theory Garnet_Router
  imports Switch_Safety
begin

text \<open>
  \<open>Router\<close>: construction and wiring (\<open>addInPort\<close>, \<open>addOutPort\<close>, \<open>init\<close>), the wake-up that runs the input units, the
  output units, the switch allocator and the crossbar in this order, and the statistics. The links of a router are
  passed in as lists, one per port, and returned. A request to wake the router itself is served at once on its
  \<open>Consumer\<close>, as \<open>schedule_wakeup\<close> does, so that the allocator's check for a pending wake-up sees it; the others are returned.
  The globals of the time-division unit, shared by all routers, are carried in \<open>rt_tdma\<close>.
\<close>

section \<open>Construction\<close>

text \<open>The value of \<open>InputStruct\<close> the program is compiled with; the units that inspect packets carry the bound of the
  calibration draw that \<open>CALI\<close> sets.\<close>

datatype InputStruct = Plain_unit | Detecting_unit int | Valiant_unit | Tdma_unit | Latency_unit int

definition outportRecord_default :: outportRecord where
  "outportRecord_default = \<lparr>or_record = [], or_numPort = 0\<rparr>"

definition Router_new :: "Cycles \<Rightarrow> nat \<Rightarrow> nat \<Rightarrow> nat \<Rightarrow> route_glob \<Rightarrow> tdma \<Rightarrow> Router" where
  "Router_new latency virt_nets vcs_per_vnet width gl t =
     \<lparr>rt_latency = latency, rt_virtual_networks = virt_nets, rt_vc_per_vnet = vcs_per_vnet,
      rt_num_vcs = virt_nets * vcs_per_vnet, rt_bit_width = width,
      rt_shared = \<lparr>is_ru = RoutingUnit_new, is_glob = gl, is_outBuf = outportRecord_default, is_InS = InputUnitStats_new\<rparr>,
      rt_tdma = t, rt_sa = SwitchAllocator_new (virt_nets * vcs_per_vnet) vcs_per_vnet,
      rt_xbar = CrossbarSwitch_new, rt_input_unit = [], rt_output_unit = [], rt_consumer = Consumer_new\<rparr>"

text \<open>What the units read of the router, from the network context \<open>re\<close> and the clock period.\<close>

definition router_env :: "route_env \<Rightarrow> nat \<Rightarrow> NetDest \<Rightarrow> Router \<Rightarrow> in_env" where
  "router_env re period no_dest rt = \<lparr>ie_route = re, ie_bit_width = rt_bit_width rt, ie_pipe_stages = rt_latency rt,
     ie_period = period, ie_no_dest = no_dest\<rparr>"

text \<open>\<open>addInPort\<close> returns the two links with their channel counts set.\<close>

definition addInPort :: "PortDirection \<Rightarrow> NetworkLink \<Rightarrow> NetworkLink \<Rightarrow> Router \<Rightarrow> (Router \<times> NetworkLink \<times> NetworkLink) res" where
  "addInPort inport_dirn in_link credit_link rt =
     bindR (failIf (nl_bitWidth in_link \<noteq> rt_bit_width rt) Fatal) (\<lambda>_.
       let port_num = int (length (rt_input_unit rt)) in
     bindR (InputUnit_new port_num inport_dirn (rt_num_vcs rt) (rt_vc_per_vnet rt)) (\<lambda>iu.
       let sh = rt_shared rt in
       Inr (rt\<lparr>rt_input_unit := rt_input_unit rt @ [iu],
               rt_shared := sh\<lparr>is_ru := addInDirection inport_dirn port_num (is_ru sh)\<rparr>\<rparr>,
            nl_setVcsPerVnet (rt_vc_per_vnet rt) in_link, nl_setVcsPerVnet (rt_vc_per_vnet rt) credit_link)))"

definition addOutPort ::
  "net_conf \<Rightarrow> PortDirection \<Rightarrow> NetworkLink \<Rightarrow> NetDest list \<Rightarrow> int \<Rightarrow> NetworkLink \<Rightarrow> nat \<Rightarrow> Router
     \<Rightarrow> (Router \<times> NetworkLink \<times> NetworkLink) res" where
  "addOutPort nc outport_dirn out_link routing_table_entry link_weight credit_link consumerVcs rt =
     bindR (failIf (nl_bitWidth out_link \<noteq> rt_bit_width rt) Fatal) (\<lambda>_.
       let port_num = int (length (rt_output_unit rt)) in
     bindR (OutputUnit_new (nc\<lparr>nc_num_vnets := rt_virtual_networks rt\<rparr>) port_num outport_dirn consumerVcs) (\<lambda>ou.
       let sh = rt_shared rt in
       Inr (rt\<lparr>rt_output_unit := rt_output_unit rt @ [ou],
               rt_shared := sh\<lparr>is_ru := addOutDirection outport_dirn port_num
                 (addWeight link_weight (addRoute routing_table_entry (is_ru sh)))\<rparr>\<rparr>,
            nl_setVcsPerVnet consumerVcs out_link, nl_setVcsPerVnet consumerVcs credit_link)))"

definition getOutportDirection :: "int \<Rightarrow> Router \<Rightarrow> PortDirection res" where
  "getOutportDirection outport rt = bindR (at (rt_output_unit rt) outport) (\<lambda>ou. Inr (ou_direction ou))"

definition getInportDirection :: "int \<Rightarrow> Router \<Rightarrow> PortDirection res" where
  "getInportDirection inport rt = bindR (at (rt_input_unit rt) inport) (\<lambda>iu. Inr (iu_direction iu))"

definition route_compute ::
  "'d fp \<Rightarrow> route_env \<Rightarrow> rng \<Rightarrow> RouteInfo \<Rightarrow> int \<Rightarrow> PortDirection \<Rightarrow> Router \<Rightarrow> (int \<times> RouteInfo \<times> Router) res" where
  "route_compute F re g route inport inport_dirn rt =
     (let sh = rt_shared rt in
      bindR (outportCompute F re g (is_ru sh) (is_glob sh) route inport inport_dirn) (\<lambda>(outport, ru, route', gl).
        Inr (outport, route', rt\<lparr>rt_shared := sh\<lparr>is_ru := ru, is_glob := gl\<rparr>\<rparr>)))"

section \<open>Wake-ups\<close>

definition schedule_wakeup :: "in_env \<Rightarrow> Cycles \<Rightarrow> Router \<Rightarrow> Router res" where
  "schedule_wakeup ie time rt =
     bindR (scheduleEvent (ie_period ie) (ie_now ie) time (rt_consumer rt)) (\<lambda>c. Inr (rt\<lparr>rt_consumer := c\<rparr>))"

fun serve :: "in_env \<Rightarrow> wake_req list \<Rightarrow> Router \<Rightarrow> (Router \<times> wake_req list) res" where
  "serve ie [] rt = Inr (rt, [])"
| "serve ie (Wake_router d # qs) rt = bindR (schedule_wakeup ie d rt) (serve ie qs)"
| "serve ie (q # qs) rt = bindR (serve ie qs rt) (\<lambda>(rt', out). Inr (rt', q # out))"

text \<open>\<open>InputUnit::wakeup\<close> of the compiled variant; \<open>gs\<close> are the random draws of this call and \<open>numbers\<close> the
  shuffled list of a new time-division round.\<close>

definition iu_wakeup ::
  "InputStruct \<Rightarrow> 'd fp \<Rightarrow> 'd \<Rightarrow> in_env \<Rightarrow> (nat \<Rightarrow> rng) \<Rightarrow> int list \<Rightarrow> NetworkLink \<Rightarrow> InputUnit \<Rightarrow> in_shared \<Rightarrow> tdma
     \<Rightarrow> (NetworkLink \<times> InputUnit \<times> in_shared \<times> tdma \<times> wake_req list) res" where
  "iu_wakeup str F junk ie gs numbers link iu sh t =
     (let keep = (\<lambda>m. bindR m (\<lambda>(l, u, s, q). Inr (l, u, s, t, q))) in
      case str of
        Plain_unit \<Rightarrow> keep (iu_wakeup_plain F ie (gs 2) link iu sh)
      | Detecting_unit cali \<Rightarrow> keep (iu_wakeup_detect F junk False cali ie gs link iu sh)
      | Latency_unit cali \<Rightarrow> keep (iu_wakeup_detect F junk True cali ie gs link iu sh)
      | Valiant_unit \<Rightarrow> keep (iu_wakeup_valiant F ie (gs 2) link iu sh)
      | Tdma_unit \<Rightarrow> iu_wakeup_tdma F ie (gs 2) numbers link iu sh t)"

definition wake_inport ::
  "InputStruct \<Rightarrow> 'd fp \<Rightarrow> 'd \<Rightarrow> in_env \<Rightarrow> (nat \<Rightarrow> nat \<Rightarrow> rng) \<Rightarrow> (nat \<Rightarrow> int list) \<Rightarrow> nat
     \<Rightarrow> Router \<times> NetworkLink list \<times> wake_req list \<Rightarrow> (Router \<times> NetworkLink list \<times> wake_req list) res" where
  "wake_inport str F junk ie gs numbers i = (\<lambda>(rt, in_links, reqs).
     bindR (at (rt_input_unit rt) (int i)) (\<lambda>iu.
     bindR (at in_links (int i)) (\<lambda>link.
     bindR (iu_wakeup str F junk ie (gs i) (numbers i) link iu (rt_shared rt) (rt_tdma rt)) (\<lambda>(link', iu', sh, t, qs).
     bindR (serve ie qs ((setInputUnit (int i) iu' rt)\<lparr>rt_shared := sh, rt_tdma := t\<rparr>)) (\<lambda>(rt', out).
       Inr (rt', in_links[i := link'], reqs @ out))))))"

definition wake_outport ::
  "in_env \<Rightarrow> nat \<Rightarrow> Router \<times> NetworkLink list \<times> wake_req list \<Rightarrow> (Router \<times> NetworkLink list \<times> wake_req list) res" where
  "wake_outport ie k = (\<lambda>(rt, credit_links, reqs).
     bindR (at (rt_output_unit rt) (int k)) (\<lambda>ou.
     bindR (at credit_links (int k)) (\<lambda>link.
     bindR (ou_wakeup (ie_now ie) link ou) (\<lambda>(link', ou', qs).
       Inr (setOutputUnit (int k) ou' rt, credit_links[k := link'],
            reqs @ map (\<lambda>q. case q of Wake_self d \<Rightarrow> Wake_output_unit (int k) d | _ \<Rightarrow> q) qs)))))"

definition router_wakeup ::
  "InputStruct \<Rightarrow> 'd fp \<Rightarrow> 'd \<Rightarrow> route_env \<Rightarrow> nat \<Rightarrow> NetDest \<Rightarrow> (nat \<Rightarrow> nat \<Rightarrow> rng) \<Rightarrow> (nat \<Rightarrow> int list)
     \<Rightarrow> NetworkLink list \<Rightarrow> NetworkLink list \<Rightarrow> Router
     \<Rightarrow> (Router \<times> NetworkLink list \<times> NetworkLink list \<times> wake_req list) res" where
  "router_wakeup str F junk re period no_dest gs numbers in_links credit_links rt =
     (let ie = router_env re period no_dest rt in
      bindR (assertR (clockEdge_at period (re_curTick re) 0 = re_curTick re)) (\<lambda>_.
      bindR (loopR (wake_inport str F junk ie gs numbers) [0..<length (rt_input_unit rt)] (rt, in_links, [])) (\<lambda>(rt1, ils, q1).
      bindR (loopR (wake_outport ie) [0..<length (rt_output_unit rt1)] (rt1, credit_links, [])) (\<lambda>(rt2, cls, q2).
      bindR (sa_wakeup ie rt2) (\<lambda>(rt3, q3).
      bindR (serve ie q3 rt3) (\<lambda>(rt4, q3').
      bindR (xb_wakeup ie rt4) (\<lambda>(rt5, q4).
        Inr (rt5, ils, cls, q1 @ q2 @ q3' @ q4))))))))"

text \<open>\<open>init\<close> runs once all ports are added; the time-division build also runs the first wake-up of input unit 0.\<close>

definition router_init ::
  "InputStruct \<Rightarrow> 'd fp \<Rightarrow> 'd \<Rightarrow> route_env \<Rightarrow> nat \<Rightarrow> NetDest \<Rightarrow> (nat \<Rightarrow> rng) \<Rightarrow> int list \<Rightarrow> NetworkLink list \<Rightarrow> Router
     \<Rightarrow> (Router \<times> NetworkLink list \<times> wake_req list) res" where
  "router_init str F junk re period no_dest gs numbers in_links rt =
     (let n = length (rt_input_unit rt); m = length (rt_output_unit rt); ie = router_env re period no_dest rt in
      bindR (outportRecord_new m) (\<lambda>ob.
        let rt1 = rt\<lparr>rt_sa := sa_init n m (rt_sa rt), rt_xbar := xb_init n (rt_xbar rt),
                     rt_shared := (rt_shared rt)\<lparr>is_outBuf := ob\<rparr>\<rparr> in
        if str = Tdma_unit then
          bindR (getInputUnit 0 rt1) (\<lambda>_.
          wake_inport str F junk ie (\<lambda>_. gs) (\<lambda>_. numbers) 0 (rt1, in_links, []))
        else Inr (rt1, in_links, [])))"

section \<open>Statistics and functional accesses\<close>

record router_stats =
  m_buffer_reads :: nat
  m_buffer_writes :: nat
  m_sw_input_arbiter_activity :: nat
  m_sw_output_arbiter_activity :: nat
  m_crossbar_activity :: nat
  st_inputs :: InputUnitStats

definition get_buf_read_activity :: "nat \<Rightarrow> InputUnit \<Rightarrow> nat res" where
  "get_buf_read_activity vnet iu = at (iu_num_buffer_reads iu) (int vnet)"

definition get_buf_write_activity :: "nat \<Rightarrow> InputUnit \<Rightarrow> nat res" where
  "get_buf_write_activity vnet iu = at (iu_num_buffer_writes iu) (int vnet)"

definition rt_collateStats :: "Router \<Rightarrow> router_stats \<Rightarrow> router_stats res" where
  "rt_collateStats rt st =
     bindR (loopR (\<lambda>(j, i) s.
         bindR (at (rt_input_unit rt) (int i)) (\<lambda>iu.
         bindR (get_buf_read_activity j iu) (\<lambda>r.
         bindR (get_buf_write_activity j iu) (\<lambda>w.
           Inr (s\<lparr>m_buffer_reads := m_buffer_reads s + r, m_buffer_writes := m_buffer_writes s + w\<rparr>)))))
       (List.product [0..<rt_virtual_networks rt] [0..<length (rt_input_unit rt)]) st) (\<lambda>s.
     Inr (s\<lparr>m_sw_input_arbiter_activity := sa_input_arbiter_activity (rt_sa rt),
            m_sw_output_arbiter_activity := sa_output_arbiter_activity (rt_sa rt),
            m_crossbar_activity := xb_crossbar_activity (rt_xbar rt), st_inputs := is_InS (rt_shared rt)\<rparr>))"

definition rt_resetStats :: "Router \<Rightarrow> Router" where
  "rt_resetStats rt = (let sh = rt_shared rt in
     rt\<lparr>rt_input_unit := map iu_resetStats (rt_input_unit rt), rt_xbar := xb_resetStats (rt_xbar rt),
        rt_sa := sa_resetStats (rt_sa rt), rt_shared := sh\<lparr>is_InS := (is_InS sh)\<lparr>detour_counts := 0, risk_counts := 0\<rparr>\<rparr>\<rparr>)"

text \<open>The loops over the units: a read is reported if one unit reports it, writes add up.\<close>

fun read_all :: "('u \<Rightarrow> 'h \<Rightarrow> (bool \<times> 'h) res) \<Rightarrow> 'u list \<Rightarrow> bool \<Rightarrow> 'h \<Rightarrow> (bool \<times> 'h) res" where
  "read_all rd [] b h = Inr (b, h)"
| "read_all rd (u # us) b h = bindR (rd u h) (\<lambda>(r, h'). read_all rd us (if r then True else b) h')"

fun write_all :: "('u \<Rightarrow> 'h \<Rightarrow> (nat \<times> 'h) res) \<Rightarrow> 'u list \<Rightarrow> nat \<Rightarrow> 'h \<Rightarrow> (nat \<times> 'h) res" where
  "write_all wr [] n h = Inr (n, h)"
| "write_all wr (u # us) n h = bindR (wr u h) (\<lambda>(k, h'). write_all wr us (n + k) h')"

definition rt_functionalRead :: "'h access \<Rightarrow> Router \<Rightarrow> 'h \<Rightarrow> (bool \<times> 'h) res" where
  "rt_functionalRead acc rt h =
     bindR (xb_functionalRead acc (rt_xbar rt) h) (\<lambda>(b, h1).
     bindR (read_all (iu_functionalRead acc) (rt_input_unit rt) b h1) (\<lambda>(b2, h2).
       read_all (ou_functionalRead acc) (rt_output_unit rt) b2 h2))"

definition rt_functionalWrite :: "'h access \<Rightarrow> Router \<Rightarrow> 'h \<Rightarrow> (nat \<times> 'h) res" where
  "rt_functionalWrite acc rt h =
     bindR (xb_functionalWrite acc (rt_xbar rt) h) (\<lambda>(n, h1).
     bindR (write_all (iu_functionalWrite acc) (rt_input_unit rt) n h1) (\<lambda>(n2, h2).
       write_all (ou_functionalWrite acc) (rt_output_unit rt) n2 h2))"

end
