(* ===== verification/Router_Safety.thy ===== *)
theory Router_Safety
  imports Garnet_Router
begin

text \<open>
  A wake-up of a whole router. The input units rely on the routing unit through the contract \<open>routing_contract\<close>: on
  a valid route the computation returns a port of the router and keeps its own state good. Under this contract, and
  with neighbours that respect the flow control, the wake-up of the router returns, keeps the
  invariant of the router, and neither loses nor duplicates a flit. The contract is discharged for XY routing.
\<close>

section \<open>Receiving a flit\<close>

definition iu_wf :: "InputUnit \<Rightarrow> bool" where
  "iu_wf iu \<longleftrightarrow> 0 < iu_vc_per_vnet iu \<and> (\<forall>vc. 0 \<le> vc \<and> vc < int (length (iu_virtualChannels iu)) \<longrightarrow>
     vc div iu_vc_per_vnet iu < int (length (iu_num_buffer_writes iu))
     \<and> vc div iu_vc_per_vnet iu < int (length (iu_num_buffer_reads iu)))
   \<and> hr_ok (iu_HR iu) \<and> 2 \<le> hr_patternLen (iu_HR iu)"

text \<open>What the upstream neighbour guarantees about the flit it delivers: it fits the router, a head finds its channel
  idle, another flit finds it active with the packet still open.\<close>

definition arrives :: "in_env \<Rightarrow> InputUnit \<Rightarrow> flit \<Rightarrow> bool" where
  "arrives ie iu fl \<longleftrightarrow> f_width fl = ie_bit_width ie \<and> 0 \<le> f_vc fl \<and> f_vc fl < int (length (iu_virtualChannels iu))
     \<and> (let v = iu_virtualChannels iu ! nat (f_vc fl) in
        if is_head (f_type fl) then fst (vc_state v) = IDLE
        else fst (vc_state v) = ACTIVE \<and> (\<forall>f \<in> set (vc_flits v). \<not> is_tail (f_type f)))"

definition arrived_vc :: "Tick \<Rightarrow> flit \<Rightarrow> int \<Rightarrow> VirtualChannel \<Rightarrow> VirtualChannel" where
  "arrived_vc now fl p v = vc_insertFlit fl (if is_head (f_type fl) then (vc_set_active now v)\<lparr>vc_output_port := p\<rparr> else v)"

lemma tail_last_snoc: "tail_last (fs @ [f]) \<longleftrightarrow> (\<forall>g \<in> set fs. \<not> is_tail (f_type g))"
  by (induction fs) auto

lemma arrived_vc_ok:
  assumes "vc_ok now ous v" and "is_head (f_type fl) \<longrightarrow> 0 \<le> p \<and> p < int (length ous)"
    and "if is_head (f_type fl) then fst (vc_state v) = IDLE
         else fst (vc_state v) = ACTIVE \<and> (\<forall>f \<in> set (vc_flits v). \<not> is_tail (f_type f))"
  shows "vc_ok now ous (arrived_vc now fl p v)"
proof (cases "is_head (f_type fl)")
  case True
  with assms have "fst (vc_state v) = IDLE" by simp
  with assms(1) have "vc_flits v = []" "vc_output_vc v = -1" by (auto simp: vc_ok_def)
  with True assms show ?thesis by (simp add: vc_ok_def arrived_vc_def vc_insertFlit_def vc_set_active_def fb_insert_def)
next
  case False
  with assms show ?thesis by (simp add: vc_ok_def arrived_vc_def vc_insertFlit_def fb_insert_def tail_last_snoc)
qed

lemma arrived_vc_flits [simp]: "vc_flits (arrived_vc now fl p v) = vc_flits v @ [fl]"
  by (simp add: arrived_vc_def vc_insertFlit_def vc_set_active_def fb_insert_def)

lemma count_access_ok:
  assumes "0 \<le> vnet" and "vnet < int (length (iu_num_buffer_writes iu))" and "vnet < int (length (iu_num_buffer_reads iu))"
  shows "\<exists>ws rs. count_access vnet iu = Inr (iu\<lparr>iu_num_buffer_writes := ws, iu_num_buffer_reads := rs\<rparr>)
    \<and> length ws = length (iu_num_buffer_writes iu) \<and> length rs = length (iu_num_buffer_reads iu)"
  using assms
  by (intro exI [of _ "(iu_num_buffer_writes iu)[nat vnet := iu_num_buffer_writes iu ! nat vnet + 1]"]
      exI [of _ "(iu_num_buffer_reads iu)[nat vnet := iu_num_buffer_reads iu ! nat vnet + 1]"])
    (simp add: count_access_def at_ok put_ok)

lemma enter_pipeline_ok:
  assumes "1 \<le> ie_pipe_stages ie"
  shows "\<exists>t reqs. enter_pipeline ie fl = Inr (advance_stage SA t fl, reqs) \<and> (\<forall>q \<in> set reqs. \<exists>d. q = Wake_router d)"
  using assms by (auto simp: enter_pipeline_def Let_def)

definition received :: "in_env \<Rightarrow> nat \<Rightarrow> NetworkLink \<Rightarrow> InputUnit \<Rightarrow> NetworkLink \<Rightarrow> InputUnit \<Rightarrow> bool" where
  "received ie ports link iu link' iu' \<longleftrightarrow> (if nl_isReady (ie_now ie) link
     then \<exists>fl fs fl' p ws rs h. fb_buffer (nl_buffer link) = fl # fs \<and> fb_buffer (nl_buffer link') = fs \<and> arrives ie iu fl
       \<and> iu' = iu\<lparr>iu_HR := h, iu_num_buffer_writes := ws, iu_num_buffer_reads := rs, iu_virtualChannels := (iu_virtualChannels iu)
            [nat (f_vc fl) := arrived_vc (ie_now ie) fl' p (iu_virtualChannels iu ! nat (f_vc fl))]\<rparr>
       \<and> f_type fl' = f_type fl \<and> (is_head (f_type fl) \<longrightarrow> 0 \<le> p \<and> p < int ports)
     else link' = link \<and> iu' = iu)"

lemma received_ok:
  assumes "received ie (length ous) link iu link' iu'" and "\<forall>v \<in> set (iu_virtualChannels iu). vc_ok (ie_now ie) ous v"
  shows "\<forall>v \<in> set (iu_virtualChannels iu'). vc_ok (ie_now ie) ous v"
    and "length (iu_virtualChannels iu') = length (iu_virtualChannels iu)"
    and "iu_id iu' = iu_id iu" and "iu_direction iu' = iu_direction iu" and "iu_creditQueue iu' = iu_creditQueue iu"
    and "sum_list (map (length \<circ> vc_flits) (iu_virtualChannels iu'))
      = sum_list (map (length \<circ> vc_flits) (iu_virtualChannels iu)) + (if nl_isReady (ie_now ie) link then 1 else 0)"
proof -
  consider "\<not> nl_isReady (ie_now ie) link" "iu' = iu"
    | fl fl' p ws rs h where "nl_isReady (ie_now ie) link" "arrives ie iu fl"
      "iu' = iu\<lparr>iu_HR := h, iu_num_buffer_writes := ws, iu_num_buffer_reads := rs, iu_virtualChannels := (iu_virtualChannels iu)
            [nat (f_vc fl) := arrived_vc (ie_now ie) fl' p (iu_virtualChannels iu ! nat (f_vc fl))]\<rparr>"
      "f_type fl' = f_type fl" "is_head (f_type fl) \<longrightarrow> 0 \<le> p \<and> p < int (length ous)"
    using assms(1) by (auto simp: received_def split: if_splits)
  then have "(\<forall>v \<in> set (iu_virtualChannels iu'). vc_ok (ie_now ie) ous v) \<and> length (iu_virtualChannels iu') = length (iu_virtualChannels iu)
    \<and> iu_id iu' = iu_id iu \<and> iu_direction iu' = iu_direction iu \<and> iu_creditQueue iu' = iu_creditQueue iu
    \<and> sum_list (map (length \<circ> vc_flits) (iu_virtualChannels iu'))
      = sum_list (map (length \<circ> vc_flits) (iu_virtualChannels iu)) + (if nl_isReady (ie_now ie) link then 1 else 0)"
  proof cases
    case 1
    then show ?thesis using assms(2) by simp
  next
    case 2
    let ?vc = "nat (f_vc fl)"
    let ?v = "iu_virtualChannels iu ! ?vc"
    have vc: "?vc < length (iu_virtualChannels iu)" using 2(2) by (auto simp: arrives_def)
    have "vc_ok (ie_now ie) ous (arrived_vc (ie_now ie) fl' p ?v)"
      by (rule arrived_vc_ok) (use assms(2) vc 2 in \<open>auto simp: arrives_def Let_def\<close>)
    moreover have "sum_list (map (length \<circ> vc_flits) ((iu_virtualChannels iu)[?vc := arrived_vc (ie_now ie) fl' p ?v]))
        = Suc (sum_list (map (length \<circ> vc_flits) (iu_virtualChannels iu)))"
      using sum_list_update_nat [of ?vc "map (length \<circ> vc_flits) (iu_virtualChannels iu)" "Suc (length (vc_flits ?v))"] vc
      by (simp add: map_update)
    ultimately show ?thesis
      using 2 assms(2) by (auto dest!: set_update_subset_insert [THEN subsetD])
  qed
  then show "\<forall>v \<in> set (iu_virtualChannels iu'). vc_ok (ie_now ie) ous v"
    and "length (iu_virtualChannels iu') = length (iu_virtualChannels iu)"
    and "iu_id iu' = iu_id iu" and "iu_direction iu' = iu_direction iu" and "iu_creditQueue iu' = iu_creditQueue iu"
    and "sum_list (map (length \<circ> vc_flits) (iu_virtualChannels iu'))
      = sum_list (map (length \<circ> vc_flits) (iu_virtualChannels iu)) + (if nl_isReady (ie_now ie) link then 1 else 0)"
    by blast+
qed

text \<open>The state the input units share, and a flit whose route the routing unit can compute; \<open>good\<close> and \<open>valid\<close> are the
  routing unit's own notions of a good state and of a valid route.\<close>

definition shared_ok :: "(RoutingUnit \<Rightarrow> route_glob \<Rightarrow> bool) \<Rightarrow> nat \<Rightarrow> in_shared \<Rightarrow> bool" where
  "shared_ok good ports sh \<longleftrightarrow> good (is_ru sh) (is_glob sh) \<and> or_ok (is_outBuf sh) \<and> length (or_record (is_outBuf sh)) = ports"

definition flit_valid :: "(RouteInfo \<Rightarrow> int \<Rightarrow> PortDirection \<Rightarrow> bool) \<Rightarrow> InputUnit \<Rightarrow> flit \<Rightarrow> bool" where
  "flit_valid valid iu fl \<longleftrightarrow>
     (is_head (f_type fl) \<longrightarrow> valid (f_route fl) (iu_id iu) (iu_direction iu) \<and> src_router (f_route fl) \<noteq> -1)"

locale routing_contract =
  fixes F :: "'d fp" and env :: route_env and ports :: nat
    and good :: "RoutingUnit \<Rightarrow> route_glob \<Rightarrow> bool"
    and valid :: "RouteInfo \<Rightarrow> int \<Rightarrow> PortDirection \<Rightarrow> bool"
  assumes compute_ok: "good ru gl \<Longrightarrow> valid route i d \<Longrightarrow> \<exists>p ru' route' gl'.
      outportCompute F env g ru gl route i d = Inr (p, ru', route', gl') \<and> good ru' gl' \<and> 0 \<le> p \<and> p < int ports
      \<and> valid route' i d"
    and valid_hop: "valid route i d \<Longrightarrow> valid (route\<lparr>hops_traversed := h\<rparr>) i d"
    and valid_tag: "valid route i d \<Longrightarrow> valid (setTag 1 route) i d"
begin

abbreviation sh_ok :: "in_shared \<Rightarrow> bool" where
  "sh_ok \<equiv> shared_ok good ports"

abbreviation flit_ok :: "InputUnit \<Rightarrow> flit \<Rightarrow> bool" where
  "flit_ok \<equiv> flit_valid valid"

lemma or_update_ok:
  assumes "sh_ok sh" and "0 \<le> p" and "p < int ports"
  shows "\<exists>ob. or_update p src dst (is_outBuf sh) = Inr ob \<and> or_ok ob \<and> length (or_record ob) = ports"
proof -
  have "or_ok (is_outBuf sh) \<and> nat p < length (or_record (is_outBuf sh))" using assms by (auto simp: shared_ok_def)
  from orow.push_law [OF this, of "(src, dst)"] assms obtain ob where "or_update p src dst (is_outBuf sh) = Inr ob" "or_ok ob"
    by auto
  moreover from this(1) have "length (or_record ob) = length (or_record (is_outBuf sh))"
    by (auto simp: or_update_def bindR_Inr_iff put_Inr_iff)
  ultimately show ?thesis using assms(1) by (simp add: shared_ok_def)
qed

lemma receive_ok:
  assumes ie: "ie_route ie = env" "1 \<le> ie_pipe_stages ie" and sh: "sh_ok sh" and wf: "iu_wf iu"
    and arr: "arrives ie iu fl" and fl: "flit_ok iu fl"
  defines "vc \<equiv> nat (f_vc fl)"
  shows "\<exists>iu' sh' reqs fl' p ws rs. receive_flit F ie g rec fl iu sh = Inr (iu', sh', reqs) \<and> sh_ok sh'
    \<and> iu' = iu\<lparr>iu_num_buffer_writes := ws, iu_num_buffer_reads := rs,
        iu_virtualChannels := (iu_virtualChannels iu)[vc := arrived_vc (ie_now ie) fl' p (iu_virtualChannels iu ! vc)]\<rparr>
    \<and> length ws = length (iu_num_buffer_writes iu) \<and> length rs = length (iu_num_buffer_reads iu)
    \<and> f_type fl' = f_type fl \<and> (is_head (f_type fl) \<longrightarrow> 0 \<le> p \<and> p < int ports) \<and> (\<forall>q \<in> set reqs. \<exists>d. q = Wake_router d)"
proof -
  let ?v = "iu_virtualChannels iu ! vc" and ?t = "increment_hops fl"
  have vc: "0 \<le> f_vc fl" "f_vc fl < int (length (iu_virtualChannels iu))" "vc < length (iu_virtualChannels iu)"
    using arr by (auto simp: arrives_def vc_def)
  have at: "at (iu_virtualChannels iu) (f_vc fl) = Inr ?v" using vc by (simp add: at_ok vc_def)
  have per: "0 < iu_vc_per_vnet iu" using wf by (simp add: iu_wf_def)
  then have vnet: "f_vc fl sdiv iu_vc_per_vnet iu = f_vc fl div iu_vc_per_vnet iu" "0 \<le> f_vc fl div iu_vc_per_vnet iu"
    using vc by (simp_all add: pos_imp_zdiv_nonneg_iff)
  have cnt: "f_vc fl div iu_vc_per_vnet iu < int (length (iu_num_buffer_writes iu))"
    "f_vc fl div iu_vc_per_vnet iu < int (length (iu_num_buffer_reads iu))" using wf vc by (auto simp: iu_wf_def)
  show ?thesis
  proof (cases "is_head (f_type fl)")
    case True
    then have h: "f_type fl = HEAD \<or> f_type fl = HEAD_TAIL" by (simp add: is_head_def)
    have idle: "fst (vc_state ?v) = IDLE" using arr True by (simp add: arrives_def vc_def Let_def)
    have "valid (f_route ?t) (iu_id iu) (iu_direction iu)"
      using fl True valid_hop by (simp add: flit_valid_def increment_hops_def)
    from compute_ok [OF _ this, of "is_ru sh" "is_glob sh" g] sh obtain p ru r gl where
      oc: "outportCompute F env g (is_ru sh) (is_glob sh) (f_route ?t) (iu_id iu) (iu_direction iu) = Inr (p, ru, r, gl)"
      "good ru gl" "0 \<le> p" "p < int ports" by (auto simp: shared_ok_def)
    from or_update_ok [OF sh oc(3,4), of "src_router r" "dest_router r"] obtain ob' where
      ob': "or_update p (src_router r) (dest_router r) (is_outBuf sh) = Inr ob'" "or_ok ob'" "length (or_record ob') = ports" by blast
    define ob where "ob = (if rec \<and> iu_id iu = 0 then ob' else is_outBuf sh)"
    have ob: "(if rec \<and> iu_id iu = 0 then or_update p (src_router r) (dest_router r) (is_outBuf sh)
        else Inr (is_outBuf sh)) = Inr ob" "or_ok ob" "length (or_record ob) = ports" using sh ob' by (simp_all add: ob_def shared_ok_def)
    let ?v1 = "(vc_set_active (ie_now ie) ?v)\<lparr>vc_output_port := p\<rparr>"
    define iu1 where "iu1 = iu\<lparr>iu_virtualChannels := (iu_virtualChannels iu)[vc := ?v1]\<rparr>"
    have rh: "route_head F ie g rec ?t iu sh = Inr (?t\<lparr>f_route := r\<rparr>, iu1, sh\<lparr>is_ru := ru, is_glob := gl, is_outBuf := ob\<rparr>)"
      using vc oc ie(1) ob(1) by (simp add: route_head_def iu_set_vc_active_def iu_grant_outport_def iu_on_vc_def at_ok put_ok
          vc_def iu1_def)
    have "iu_num_buffer_writes iu1 = iu_num_buffer_writes iu" "iu_num_buffer_reads iu1 = iu_num_buffer_reads iu"
      by (simp_all add: iu1_def)
    with count_access_ok [of "f_vc fl div iu_vc_per_vnet iu" iu1] vnet cnt obtain ws rs where
      ca: "count_access (f_vc fl div iu_vc_per_vnet iu) iu1 = Inr (iu1\<lparr>iu_num_buffer_writes := ws, iu_num_buffer_reads := rs\<rparr>)"
      "length ws = length (iu_num_buffer_writes iu)" "length rs = length (iu_num_buffer_reads iu)" by auto
    from enter_pipeline_ok [OF ie(2), of "?t\<lparr>f_route := r\<rparr>"] obtain t reqs where
      ep: "enter_pipeline ie (?t\<lparr>f_route := r\<rparr>) = Inr (advance_stage SA t (?t\<lparr>f_route := r\<rparr>), reqs)"
      "\<forall>q \<in> set reqs. \<exists>d. q = Wake_router d" by blast
    let ?fl = "advance_stage SA t (?t\<lparr>f_route := r\<rparr>)"
    have ty: "f_type ?fl = f_type fl" by (simp add: advance_stage_def)
    let ?iu3 = "iu\<lparr>iu_num_buffer_writes := ws, iu_num_buffer_reads := rs,
        iu_virtualChannels := (iu_virtualChannels iu)[vc := arrived_vc (ie_now ie) ?fl p ?v]\<rparr>"
    have ins: "iu_insertFlit (f_vc fl) ?fl (iu1\<lparr>iu_num_buffer_writes := ws, iu_num_buffer_reads := rs\<rparr>) = Inr ?iu3"
      using vc True ty by (simp add: iu_insertFlit_def iu_on_vc_def iu1_def at_ok put_ok arrived_vc_def vc_def [symmetric])
    have "receive_flit F ie g rec fl iu sh = Inr (?iu3, sh\<lparr>is_ru := ru, is_glob := gl, is_outBuf := ob\<rparr>, reqs)"
      unfolding receive_flit_def Let_def increment_hops_simps if_P [OF h] at bindR.simps idle
      using per by (simp add: rh ca(1) vnet(1) ep(1) ins)
    then show ?thesis using ca(2,3) ty oc(2-4) ob ep(2) by (auto simp: shared_ok_def intro!: exI [of _ ?fl])
  next
    case False
    then have h: "\<not> (f_type fl = HEAD \<or> f_type fl = HEAD_TAIL)" by (simp add: is_head_def)
    have act: "fst (vc_state ?v) = ACTIVE" using arr False by (simp add: arrives_def vc_def Let_def)
    from count_access_ok [OF vnet(2) cnt] obtain ws rs where
      ca: "count_access (f_vc fl div iu_vc_per_vnet iu) iu = Inr (iu\<lparr>iu_num_buffer_writes := ws, iu_num_buffer_reads := rs\<rparr>)"
      "length ws = length (iu_num_buffer_writes iu)" "length rs = length (iu_num_buffer_reads iu)" by auto
    from enter_pipeline_ok [OF ie(2), of ?t] obtain t reqs where
      ep: "enter_pipeline ie ?t = Inr (advance_stage SA t ?t, reqs)" "\<forall>q \<in> set reqs. \<exists>d. q = Wake_router d" by blast
    let ?fl = "advance_stage SA t ?t"
    have ty: "f_type ?fl = f_type fl" by (simp add: advance_stage_def)
    let ?iu3 = "iu\<lparr>iu_num_buffer_writes := ws, iu_num_buffer_reads := rs,
        iu_virtualChannels := (iu_virtualChannels iu)[vc := arrived_vc (ie_now ie) ?fl 0 ?v]\<rparr>"
    have ins: "iu_insertFlit (f_vc fl) ?fl (iu\<lparr>iu_num_buffer_writes := ws, iu_num_buffer_reads := rs\<rparr>) = Inr ?iu3"
      using vc False ty by (simp add: iu_insertFlit_def iu_on_vc_def at_ok put_ok arrived_vc_def vc_def [symmetric])
    have "receive_flit F ie g rec fl iu sh = Inr (?iu3, sh, reqs)"
      unfolding receive_flit_def Let_def increment_hops_simps if_not_P [OF h] at bindR.simps act
      using per by (simp add: ca(1) vnet(1) ep(1) ins)
    then show ?thesis using ca(2,3) ty sh False ep(2) by (auto intro!: exI [of _ ?fl] exI [of _ "0::int"])
  qed
qed

text \<open>The detection block leaves the channels alone and prepares a flit that can still be routed.\<close>

lemma inspect_ok:
  assumes ie: "ie_route ie = env" and sh: "sh_ok sh" and wf: "iu_wf iu" and fl: "flit_ok iu fl"
  shows "\<exists>fl' h sh'. inspect_flit F junk False cali ie gs fl iu sh = Inr (fl', iu\<lparr>iu_HR := h\<rparr>, sh') \<and> sh_ok sh'
    \<and> iu_wf (iu\<lparr>iu_HR := h\<rparr>) \<and> flit_ok iu fl' \<and> f_type fl' = f_type fl \<and> f_vc fl' = f_vc fl \<and> f_width fl' = f_width fl"
proof -
  let ?e = "flow_entry ie (f_route fl) (iu_id iu)" and ?head = "f_type fl = HEAD \<or> f_type fl = HEAD_TAIL"
  let ?st = "(is_InS sh)\<lparr>all_counts := all_counts (is_InS sh) + 1\<rparr>"
  have hr: "hr_ok (iu_HR iu) \<and> 0 < hr_patternLen (iu_HR iu)" "2 \<le> hr_patternLen (iu_HR iu)" using wf by (auto simp: iu_wf_def)
  from sih.push_law [OF hr(1), of ?e] hr obtain h1 where
    h1: "updateHistory ?e (iu_HR iu) = Inr h1" "hr_ok h1" "hr_patternLen h1 = hr_patternLen (iu_HR iu)"
    by (auto simp: updateHistory_def bindR_Inr_iff)
  define h2 where "h2 = (if ?head \<and> sTag (f_route fl) = 0 then h1 else iu_HR iu)"
  define st2 where "st2 = (if ?head \<and> sTag (f_route fl) = 0 then ?st else is_InS sh)"
  have first: "(if ?head \<and> sTag (f_route fl) = 0 then bindR (updateHistory ?e (iu_HR iu)) (\<lambda>h. Inr (h, ?st))
      else Inr (iu_HR iu, is_InS sh)) = Inr (h2, st2)" using h1(1) by (simp add: h2_def st2_def)
  have h2: "hr_ok h2" "2 \<le> hr_patternLen h2" using h1 hr by (auto simp: h2_def)
  have wf': "iu_wf (iu\<lparr>iu_HR := h\<rparr>)" if "hr_ok h" "2 \<le> hr_patternLen h" for h
    using wf that by (simp add: iu_wf_def)
  show ?thesis
  proof (cases "?head \<and> dest_router (f_route fl) \<noteq> re_id env")
    case False
    then have "inspect_flit F junk False cali ie gs fl iu sh = Inr (fl, iu\<lparr>iu_HR := h2\<rparr>, sh\<lparr>is_InS := st2\<rparr>)"
      unfolding inspect_flit_def Let_def first bindR.simps ie by auto
    then show ?thesis using wf' [OF h2] sh fl by (auto simp: shared_ok_def)
  next
    case True
    then have v: "valid (f_route fl) (iu_id iu) (iu_direction iu)" "src_router (f_route fl) \<noteq> -1"
      using fl by (auto simp: flit_valid_def is_head_def)
    from compute_ok [OF _ v(1), of "is_ru sh" "is_glob sh" "gs 0"] sh obtain p ru r gl where
      oc: "outportCompute F env (gs 0) (is_ru sh) (is_glob sh) (f_route fl) (iu_id iu) (iu_direction iu) = Inr (p, ru, r, gl)"
      "good ru gl" "0 \<le> p" "p < int ports" "valid r (iu_id iu) (iu_direction iu)" by (auto simp: shared_ok_def)
    note sf = outportCompute_same_flow [OF oc(1)]
    have src: "src_router r \<noteq> -1" using sf v(2) by (simp add: same_flow_def)
    have ob: "or_ok (is_outBuf sh)" "p < int (length (or_record (is_outBuf sh)))" using sh oc(4) by (auto simp: shared_ok_def)
    from riskFind_all_variants [OF h2 ob(1) src oc(3) ob(2)] obtain risk avg st3 h3 where
      rf: "riskFind F junk (flow_entry ie r (iu_id iu)) 0 True (is_outBuf sh) (src_router r) (dest_router r) 7 st2 p h2
        = Inr (risk, avg, st3, h3)" "hr_ok h3" "hr_patternTable h3 = hr_patternTable h2" by metis
    have h3: "2 \<le> hr_patternLen h3" using rf(2,3) h2 by (simp add: hr_ok_def)
    have tag: "valid (setTag 1 r) (iu_id iu) (iu_direction iu)" "src_router (setTag 1 r) \<noteq> -1"
      using valid_tag [OF oc(5)] src by (simp_all add: setTag_def)
    define fl' where "fl' = fl\<lparr>f_route := (if risk \<and> rng_my (gs 1) 0 10000 < cali then setTag 1 r else r)\<rparr>"
    have "\<exists>st. inspect_flit F junk False cali ie gs fl iu sh
        = Inr (fl', iu\<lparr>iu_HR := h3\<rparr>, sh\<lparr>is_ru := ru, is_glob := gl, is_InS := st\<rparr>)"
      using True unfolding inspect_flit_def Let_def first bindR.simps ie by (simp add: oc(1) rf(1) fl'_def) (intro conjI impI exI; rule refl)
    then show ?thesis using wf' [OF rf(2) h3] oc tag src sh by (auto simp: shared_ok_def flit_valid_def fl'_def)
  qed
qed

lemma unit_wakeup_ok:
  assumes str: "str \<in> {Plain_unit, Valiant_unit} \<union> range Detecting_unit"
    and ie: "ie_route ie = env" "1 \<le> ie_pipe_stages ie" and sh: "sh_ok sh" and wf: "iu_wf iu"
    and arr: "nl_isReady (ie_now ie) link \<longrightarrow> arrives ie iu (hd (fb_buffer (nl_buffer link))) \<and> flit_ok iu (hd (fb_buffer (nl_buffer link)))"
  shows "\<exists>link' iu' sh' reqs. iu_wakeup str F junk ie gs numbers link iu sh t = Inr (link', iu', sh', t, reqs) \<and> sh_ok sh'
    \<and> received ie ports link iu link' iu' \<and> iu_wf iu' \<and> (\<forall>q \<in> set reqs. \<exists>d. q = Wake_router d)"
proof (cases "nl_isReady (ie_now ie) link")
  case False
  then have "iu_wakeup str F junk ie gs numbers link iu sh t = Inr (link, iu, sh, t, [])"
    using str by (auto simp: iu_wakeup_def iu_wakeup_plain_def iu_wakeup_detect_def iu_wakeup_valiant_def)
  with False sh wf show ?thesis by (auto simp: received_def)
next
  case ready: True
  then obtain fl fs where fl: "fb_buffer (nl_buffer link) = fl # fs"
    by (auto simp: nl_isReady_def fb_isReady_def split: list.splits)
  with arr ready have a: "arrives ie iu fl" "flit_ok iu fl" by auto
  let ?link = "link\<lparr>nl_buffer := (nl_buffer link)\<lparr>fb_buffer := fs\<rparr>\<rparr>"
  have con: "nl_consumeLink link = Inr (fl, ?link)" using fl by (simp add: nl_consumeLink_def fb_getTopFlit_def)
  have wid: "f_width fl = ie_bit_width ie" using a(1) by (simp add: arrives_def)
  let ?head = "f_type fl = HEAD \<or> f_type fl = HEAD_TAIL"
  let ?tagged = "iu_id iu = 0 \<and> ?head \<and> dest_router (f_route fl) \<noteq> re_id (ie_route ie)"
  have "\<exists>rec g fl1 h sh1. iu_wakeup str F junk ie gs numbers link iu sh t
      = bindR (receive_flit F ie g rec fl1 (iu\<lparr>iu_HR := h\<rparr>) sh1) (\<lambda>(iu', sh', reqs). Inr (?link, iu', sh', t, reqs @ more_ready ie ?link))
      \<and> sh_ok sh1 \<and> iu_wf (iu\<lparr>iu_HR := h\<rparr>) \<and> flit_ok iu fl1 \<and> f_type fl1 = f_type fl \<and> f_vc fl1 = f_vc fl \<and> f_width fl1 = f_width fl"
    (is "\<exists>rec g fl1 h sh1. ?P rec g fl1 h sh1")
  proof -
    consider "str = Plain_unit \<or> (\<exists>cali. str = Detecting_unit cali) \<and> iu_id iu \<noteq> 0" | "str = Valiant_unit"
      | cali where "str = Detecting_unit cali" "iu_id iu = 0"
      using str by auto
    then show ?thesis
    proof cases
      case 1
      then have "?P (str \<noteq> Plain_unit) (gs 2) fl (iu_HR iu) sh"
        using ready con wid sh wf a(2) by (auto simp: iu_wakeup_def iu_wakeup_plain_def iu_wakeup_detect_def Let_def bindR_assoc split_def)
      then show ?thesis by blast
    next
      case 2
      let ?fl1 = "if ?tagged then fl\<lparr>f_route := setTag 1 (f_route fl)\<rparr> else fl"
      let ?sh1 = "if ?tagged then sh\<lparr>is_InS := (is_InS sh)\<lparr>detour_counts := detour_counts (is_InS sh) + 1\<rparr>\<rparr> else sh"
      have "sh_ok ?sh1" using sh by (simp add: shared_ok_def)
      moreover have "flit_ok iu ?fl1" using a(2) valid_tag by (auto simp: flit_valid_def setTag_def)
      ultimately have "?P False (gs 2) ?fl1 (iu_HR iu) ?sh1"
        using ready con wid wf 2 by (auto simp: iu_wakeup_def iu_wakeup_valiant_def Let_def bindR_assoc split_def)
      then show ?thesis by blast
    next
      case 3
      from inspect_ok [OF ie(1) sh wf a(2), of junk cali gs] obtain fl1 h sh1 where
        i: "inspect_flit F junk False cali ie gs fl iu sh = Inr (fl1, iu\<lparr>iu_HR := h\<rparr>, sh1)" "sh_ok sh1" "iu_wf (iu\<lparr>iu_HR := h\<rparr>)"
          "flit_ok iu fl1" "f_type fl1 = f_type fl" "f_vc fl1 = f_vc fl" "f_width fl1 = f_width fl" by blast
      then have "?P True (gs 2) fl1 h sh1"
        using ready con wid 3 by (simp add: iu_wakeup_def iu_wakeup_detect_def Let_def bindR_assoc split_def)
      then show ?thesis by blast
    qed
  qed
  then obtain rec g fl1 h sh1 where w: "iu_wakeup str F junk ie gs numbers link iu sh t
      = bindR (receive_flit F ie g rec fl1 (iu\<lparr>iu_HR := h\<rparr>) sh1) (\<lambda>(iu', sh', reqs). Inr (?link, iu', sh', t, reqs @ more_ready ie ?link))"
    "sh_ok sh1" "iu_wf (iu\<lparr>iu_HR := h\<rparr>)" "flit_ok iu fl1" "f_type fl1 = f_type fl" "f_vc fl1 = f_vc fl" "f_width fl1 = f_width fl"
    by blast
  have "arrives ie (iu\<lparr>iu_HR := h\<rparr>) fl1" "flit_ok (iu\<lparr>iu_HR := h\<rparr>) fl1" using a(1) w by (simp_all add: arrives_def flit_valid_def)
  from receive_ok [OF ie w(2,3) this, of g rec] obtain sh' reqs fl' p ws rs where
    r: "receive_flit F ie g rec fl1 (iu\<lparr>iu_HR := h\<rparr>) sh1 = Inr (iu\<lparr>iu_HR := h, iu_num_buffer_writes := ws, iu_num_buffer_reads := rs,
        iu_virtualChannels := (iu_virtualChannels iu)[nat (f_vc fl) := arrived_vc (ie_now ie) fl' p (iu_virtualChannels iu ! nat (f_vc fl))]\<rparr>, sh', reqs)"
      (is "_ = Inr (?iu', _, _)") "sh_ok sh'" "length ws = length (iu_num_buffer_writes iu)" "length rs = length (iu_num_buffer_reads iu)"
      "f_type fl' = f_type fl" "is_head (f_type fl) \<longrightarrow> 0 \<le> p \<and> p < int ports" "\<forall>q \<in> set reqs. \<exists>d. q = Wake_router d"
    unfolding w(5,6) by auto
  have "received ie ports link iu ?link ?iu'"
    unfolding received_def if_P [OF ready] using fl a(1) r(5,6)
    by (intro exI [of _ fl] exI [of _ fs] exI [of _ fl'] exI [of _ p] exI [of _ ws] exI [of _ rs] exI [of _ h]) auto
  moreover have "iu_wf ?iu'" using w(3) r(3,4) by (simp add: iu_wf_def)
  ultimately show ?thesis using w(1) r by (auto simp: more_ready_def)
qed

end

section \<open>The loops of the wake-up\<close>

lemma scheduleEvent_returns: "\<exists>c'. scheduleEvent period now d c = Inr c'"
proof -
  have "t \<le> wh" if "lower_bound t ts = Some wh" for t wh ts
    using that by (auto simp: lower_bound_def find_Some_iff)
  then show ?thesis by (auto simp: scheduleEvent_def scheduleNextWakeup_def assertR_def split: option.splits)
qed

lemma serve_returns: "\<exists>c out. serve ie qs rt = Inr (rt\<lparr>rt_consumer := c\<rparr>, out)"
proof (induction ie qs rt rule: serve.induct)
  case (1 ie rt)
  then show ?case by (auto intro!: exI [of _ "rt_consumer rt"])
next
  case (2 ie d qs rt)
  from scheduleEvent_returns obtain c where
    c: "scheduleEvent (ie_period ie) (ie_now ie) d (rt_consumer rt) = Inr c" by blast
  with 2 [of "rt\<lparr>rt_consumer := c\<rparr>"] show ?case by (auto simp: schedule_wakeup_def)
qed auto

text \<open>The parts of a router the invariant speaks about.\<close>

definition same_core :: "Router \<Rightarrow> Router \<Rightarrow> bool" where
  "same_core rt rt' \<longleftrightarrow> rt_latency rt' = rt_latency rt \<and> rt_virtual_networks rt' = rt_virtual_networks rt
     \<and> rt_bit_width rt' = rt_bit_width rt \<and> rt_sa rt' = rt_sa rt \<and> rt_xbar rt' = rt_xbar rt"

lemma rt_shape_same:
  assumes "rt_shape rt" and "rt_sa rt' = rt_sa rt" and "rt_input_unit rt' = rt_input_unit rt"
    and "length (rt_output_unit rt') = length (rt_output_unit rt)" and "rt_virtual_networks rt' = rt_virtual_networks rt"
    and "length (xb_switchBuffers (rt_xbar rt')) = length (xb_switchBuffers (rt_xbar rt))"
  shows "rt_shape rt'"
  using assms(1) unfolding rt_shape_def Let_def assms(2-6) .

lemma rt_ok_inputs:
  assumes "rt_ok now rt" and "same_core rt rt'" and "rt_output_unit rt' = rt_output_unit rt"
    and "length (rt_input_unit rt') = length (rt_input_unit rt)"
    and "\<And>i. i < length (rt_input_unit rt) \<Longrightarrow>
      length (iu_virtualChannels (rt_input_unit rt' ! i)) = length (iu_virtualChannels (rt_input_unit rt ! i))
      \<and> (\<forall>v \<in> set (iu_virtualChannels (rt_input_unit rt' ! i)). vc_ok now (rt_output_unit rt) v)"
  shows "rt_ok now rt'"
proof -
  have core: "rt_sa rt' = rt_sa rt" "rt_xbar rt' = rt_xbar rt" "rt_virtual_networks rt' = rt_virtual_networks rt"
    using assms(2) by (simp_all add: same_core_def)
  have sh: "rt_shape rt" using assms(1) by (simp add: rt_ok_def)
  have "\<forall>i < length (rt_input_unit rt). length (iu_virtualChannels (rt_input_unit rt ! i)) = sa_num_vcs (rt_sa rt)"
    using sh unfolding rt_shape_def Let_def by blast
  with assms(5) have "\<forall>i < length (rt_input_unit rt). length (iu_virtualChannels (rt_input_unit rt' ! i)) = sa_num_vcs (rt_sa rt)"
    by simp
  with sh have "rt_shape rt'" unfolding rt_shape_def Let_def core assms(3,4) by iprover
  moreover have "\<forall>v \<in> set (iu_virtualChannels iu). vc_ok now (rt_output_unit rt) v" if "iu \<in> set (rt_input_unit rt')" for iu
    using that assms(4,5) by (metis in_set_conv_nth)
  ultimately show ?thesis using assms(1,2,3) by (auto simp: rt_ok_def same_core_def)
qed

section \<open>Credits\<close>

text \<open>What the downstream neighbour guarantees: a credit is for an existing channel that is not full of credits, and a
  channel is freed only after its packet has left.\<close>

definition credit_arrives :: "Router \<Rightarrow> nat \<Rightarrow> flit \<Rightarrow> bool" where
  "credit_arrives rt k c \<longleftrightarrow> (let ws = ou_outVcState (rt_output_unit rt ! k); w = ws ! nat (f_vc c) in
     0 \<le> f_vc c \<and> f_vc c < int (length ws) \<and> 0 \<le> ov_credit_count w \<and> ov_credit_count w < ov_max_credit_count w
     \<and> (f_is_free_signal c \<longrightarrow> (\<forall>iu \<in> set (rt_input_unit rt). \<forall>v \<in> set (iu_virtualChannels iu).
          fst (vc_state v) = ACTIVE \<and> vc_output_port v = int k \<longrightarrow> vc_output_vc v \<noteq> f_vc c)))"

definition credits_ok :: "Tick \<Rightarrow> NetworkLink list \<Rightarrow> Router \<Rightarrow> bool" where
  "credits_ok now links rt \<longleftrightarrow> length links = length (rt_output_unit rt)
     \<and> (\<forall>k < length links. nl_isReady now (links ! k) \<longrightarrow> credit_arrives rt k (hd (fb_buffer (nl_buffer (links ! k)))))"

definition credited_vc :: "Tick \<Rightarrow> flit \<Rightarrow> OutVcState \<Rightarrow> OutVcState" where
  "credited_vc now c w = (let w1 = w\<lparr>ov_credit_count := ov_credit_count w + 1\<rparr> in
     if f_is_free_signal c then ov_setState IDLE now w1 else w1)"

definition credited :: "Tick \<Rightarrow> NetworkLink \<Rightarrow> OutputUnit \<Rightarrow> NetworkLink \<Rightarrow> OutputUnit \<Rightarrow> bool" where
  "credited now link ou link' ou' \<longleftrightarrow> (if nl_isReady now link
     then let c = hd (fb_buffer (nl_buffer link)); vc = nat (f_vc c) in
       fb_buffer (nl_buffer link') = tl (fb_buffer (nl_buffer link))
       \<and> ou' = ou\<lparr>ou_outVcState := (ou_outVcState ou)[vc := credited_vc now c (ou_outVcState ou ! vc)]\<rparr>
     else link' = link \<and> ou' = ou)"

lemma ou_wakeup_ok:
  assumes "nl_isReady now link \<longrightarrow> credit_arrives rt k (hd (fb_buffer (nl_buffer link)))" and "rt_output_unit rt ! k = ou"
  shows "\<exists>link' ou' reqs. ou_wakeup now link ou = Inr (link', ou', reqs) \<and> credited now link ou link' ou'"
proof (cases "nl_isReady now link")
  case False
  then show ?thesis by (simp add: ou_wakeup_def credited_def)
next
  case True
  then obtain c cs where c: "fb_buffer (nl_buffer link) = c # cs" by (auto simp: nl_isReady_def fb_isReady_def split: list.splits)
  let ?vc = "nat (f_vc c)"
  let ?w = "ou_outVcState ou ! ?vc"
  let ?ou = "ou\<lparr>ou_outVcState := (ou_outVcState ou)[?vc := credited_vc now c ?w]\<rparr>"
  let ?link = "link\<lparr>nl_buffer := (nl_buffer link)\<lparr>fb_buffer := cs\<rparr>\<rparr>"
  have con: "nl_consumeLink link = Inr (c, ?link)" using c by (simp add: nl_consumeLink_def fb_getTopFlit_def)
  have vc: "0 \<le> f_vc c" "f_vc c < int (length (ou_outVcState ou))" "ov_credit_count ?w < ov_max_credit_count ?w"
    using assms True c by (auto simp: credit_arrives_def Let_def)
  then have "ou_increment_credit (f_vc c) ou
      = Inr (ou\<lparr>ou_outVcState := (ou_outVcState ou)[?vc := ?w\<lparr>ov_credit_count := ov_credit_count ?w + 1\<rparr>]\<rparr>)"
    by (simp add: ou_increment_credit_def ou_on_vc_def ov_increment_credit_def at_ok put_ok Let_def)
  then have "\<exists>reqs. ou_wakeup now link ou = Inr (?link, ?ou, reqs)"
    using True con vc by (simp add: ou_wakeup_def ou_set_vc_state_def ou_on_vc_def at_ok put_ok credited_vc_def Let_def)
  moreover have "credited now link ou ?link ?ou" using True c by (simp add: credited_def Let_def)
  ultimately show ?thesis by blast
qed

definition stage_out :: "in_env \<Rightarrow> Router \<Rightarrow> NetworkLink list \<Rightarrow> nat \<Rightarrow> Router \<Rightarrow> NetworkLink list \<Rightarrow> bool" where
  "stage_out ie rt links k rt' links' \<longleftrightarrow> (\<exists>ous. rt' = rt\<lparr>rt_output_unit := ous\<rparr> \<and> length ous = length (rt_output_unit rt)
     \<and> length links' = length links \<and> (\<forall>q < length ous. if q < k
          then credited (ie_now ie) (links ! q) (rt_output_unit rt ! q) (links' ! q) (ous ! q)
          else links' ! q = links ! q \<and> ous ! q = rt_output_unit rt ! q))"

lemma wake_outports_ok:
  assumes "credits_ok (ie_now ie) links rt"
  shows "\<exists>rt' links' qs. loopR (wake_outport ie) [0..<length (rt_output_unit rt)] (rt, links, []) = Inr (rt', links', qs)
    \<and> stage_out ie rt links (length (rt_output_unit rt)) rt' links'"
proof -
  let ?I = "\<lambda>k (rt', links', qs). stage_out ie rt links k rt' links'"
  have "\<exists>t. loopR (wake_outport ie) (map (\<lambda>k. k) [0..<length (rt_output_unit rt)]) (rt, links, []) = Inr t
      \<and> ?I (length (rt_output_unit rt)) t"
  proof (rule loopR_upto [where I = ?I and g = "\<lambda>k. k"])
    show "?I 0 (rt, links, [])" by (auto simp: stage_out_def intro!: exI [of _ "rt_output_unit rt"])
    show "\<exists>t. wake_outport ie k s = Inr t \<and> ?I (Suc k) t" if k: "k < length (rt_output_unit rt)" and I: "?I k s" for k s
    proof -
      from I obtain rt1 links1 qs ous where s: "s = (rt1, links1, qs)" "rt1 = rt\<lparr>rt_output_unit := ous\<rparr>"
        "length ous = length (rt_output_unit rt)" "length links1 = length links" "\<forall>q < length ous. if q < k
          then credited (ie_now ie) (links ! q) (rt_output_unit rt ! q) (links1 ! q) (ous ! q)
          else links1 ! q = links ! q \<and> ous ! q = rt_output_unit rt ! q" by (cases s) (auto simp: stage_out_def)
      have at: "links1 ! k = links ! k" "ous ! k = rt_output_unit rt ! k" and len: "k < length links1"
        using s k assms by (auto simp: credits_ok_def)
      have "nl_isReady (ie_now ie) (links ! k) \<longrightarrow> credit_arrives rt k (hd (fb_buffer (nl_buffer (links ! k))))"
        using assms k by (auto simp: credits_ok_def)
      from ou_wakeup_ok [OF this refl] obtain link' ou' reqs where
        w: "ou_wakeup (ie_now ie) (links ! k) (rt_output_unit rt ! k) = Inr (link', ou', reqs)"
          "credited (ie_now ie) (links ! k) (rt_output_unit rt ! k) link' ou'" by blast
      have "\<exists>qs'. wake_outport ie k s = Inr (rt\<lparr>rt_output_unit := ous[k := ou']\<rparr>, links1[k := link'], qs')"
        using s k at len w(1) by (simp add: wake_outport_def setOutputUnit_def)
      moreover have "stage_out ie rt links (Suc k) (rt\<lparr>rt_output_unit := ous[k := ou']\<rparr>) (links1[k := link'])"
        unfolding stage_out_def using s(3-5) w(2) k len
        by (intro exI [of _ "ous[k := ou']"]) (auto simp: nth_list_update less_Suc_eq)
      ultimately show ?thesis by auto
    qed
  qed
  then show ?thesis by auto
qed

lemma credited_unit:
  assumes "credited now link ou link' ou'" and "ou_ok n ou" and "rt_output_unit rt ! k = ou"
    and arr: "nl_isReady now link \<longrightarrow> credit_arrives rt k (hd (fb_buffer (nl_buffer link)))"
  shows "ou_ok n ou'" and "ou_outBuffer ou' = ou_outBuffer ou"
    and "out_vc_ok now ou j \<Longrightarrow> nl_isReady now link \<longrightarrow> f_is_free_signal (hd (fb_buffer (nl_buffer link))) \<longrightarrow>
      j \<noteq> f_vc (hd (fb_buffer (nl_buffer link))) \<Longrightarrow> out_vc_ok now ou' j"
proof -
  let ?c = "hd (fb_buffer (nl_buffer link))"
  let ?vc = "nat (f_vc ?c)"
  let ?w = "ou_outVcState ou ! ?vc"
  have "ou' = ou \<or> nl_isReady now link \<and> ou' = ou\<lparr>ou_outVcState := (ou_outVcState ou)[?vc := credited_vc now ?c ?w]\<rparr>"
    using assms(1) by (auto simp: credited_def Let_def split: if_splits)
  then consider "ou' = ou" | "nl_isReady now link" "ou' = ou\<lparr>ou_outVcState := (ou_outVcState ou)[?vc := credited_vc now ?c ?w]\<rparr>" by blast
  then have "ou_ok n ou' \<and> ou_outBuffer ou' = ou_outBuffer ou \<and> (out_vc_ok now ou j \<longrightarrow>
      (nl_isReady now link \<longrightarrow> f_is_free_signal ?c \<longrightarrow> j \<noteq> f_vc ?c) \<longrightarrow> out_vc_ok now ou' j)"
  proof cases
    case 1
    then show ?thesis using assms(2) by simp
  next
    case 2
    have vc: "0 \<le> f_vc ?c" "?vc < length (ou_outVcState ou)" "0 \<le> ov_credit_count ?w"
      using arr 2(1) assms(3) by (auto simp: credit_arrives_def Let_def)
    have "0 < ov_credit_count (credited_vc now ?c ?w)" using vc(3) by (simp add: credited_vc_def ov_setState_def Let_def)
    then have "ou_ok n ou'" unfolding 2(2) by (intro ou_ok_update [OF assms(2) vc(2)]) simp
    moreover have "out_vc_ok now ou' j" if o: "out_vc_ok now ou j" and f: "f_is_free_signal ?c \<longrightarrow> j \<noteq> f_vc ?c"
    proof (cases "nat j = ?vc")
      case True
      then have "\<not> f_is_free_signal ?c" using f o vc(1) by (auto simp: out_vc_ok_def)
      with True o vc 2(2) show ?thesis by (simp add: out_vc_ok_def credited_vc_def ov_isInState_def)
    next
      case False
      with o 2(2) show ?thesis by (simp add: out_vc_ok_def)
    qed
    ultimately show ?thesis using 2 by auto
  qed
  then show "ou_ok n ou'" and "ou_outBuffer ou' = ou_outBuffer ou"
    and "out_vc_ok now ou j \<Longrightarrow> nl_isReady now link \<longrightarrow> f_is_free_signal ?c \<longrightarrow> j \<noteq> f_vc ?c \<Longrightarrow> out_vc_ok now ou' j"
    by blast+
qed

lemma stage_out_ok:
  assumes ok: "rt_ok (ie_now ie) rt" and cr: "credits_ok (ie_now ie) links rt"
    and I: "stage_out ie rt links (length (rt_output_unit rt)) rt' links'"
  shows "rt_ok (ie_now ie) rt'" and "map ou_outBuffer (rt_output_unit rt') = map ou_outBuffer (rt_output_unit rt)"
proof -
  let ?now = "ie_now ie" and ?n = "rt_virtual_networks rt"
  from I obtain ous where o: "rt' = rt\<lparr>rt_output_unit := ous\<rparr>" "length ous = length (rt_output_unit rt)"
    "\<forall>q < length ous. credited ?now (links ! q) (rt_output_unit rt ! q) (links' ! q) (ous ! q)"
    by (auto simp: stage_out_def)
  have arr: "nl_isReady ?now (links ! q) \<longrightarrow> credit_arrives rt q (hd (fb_buffer (nl_buffer (links ! q))))"
    if "q < length ous" for q using cr that o(2) by (auto simp: credits_ok_def)
  have ouok: "\<forall>ou \<in> set (rt_output_unit rt). ou_ok ?n ou"
    and vs: "\<forall>iu \<in> set (rt_input_unit rt). \<forall>v \<in> set (iu_virtualChannels iu). vc_ok ?now (rt_output_unit rt) v"
    and sh: "rt_shape rt" using ok by (simp_all add: rt_ok_def)
  have k: "ou_ok ?n (rt_output_unit rt ! q)" if "q < length ous" for q using bspec [OF ouok nth_mem, of q] that o(2) by simp
  have unit: "ou_ok ?n (ous ! q)" "ou_outBuffer (ous ! q) = ou_outBuffer (rt_output_unit rt ! q)" if q: "q < length ous" for q
    by (rule credited_unit(1,2) [OF o(3) [rule_format, OF q] k [OF q] refl arr [OF q]])+
  have "vc_ok ?now ous v" if iu: "iu \<in> set (rt_input_unit rt)" and v: "v \<in> set (iu_virtualChannels iu)" for iu v
  proof -
    have v0: "vc_ok ?now (rt_output_unit rt) v" using vs iu v by blast
    have "out_vc_ok ?now (ous ! nat (vc_output_port v)) (vc_output_vc v)"
      if act: "fst (vc_state v) = ACTIVE" and nn: "vc_output_vc v \<noteq> -1"
    proof -
      let ?q = "nat (vc_output_port v)"
      have q: "0 \<le> vc_output_port v" "?q < length ous" "int ?q = vc_output_port v"
        "out_vc_ok ?now (rt_output_unit rt ! ?q) (vc_output_vc v)" using v0 act nn o(2) by (auto simp: vc_ok_def)
      have "nl_isReady ?now (links ! ?q) \<longrightarrow> f_is_free_signal (hd (fb_buffer (nl_buffer (links ! ?q)))) \<longrightarrow>
          vc_output_vc v \<noteq> f_vc (hd (fb_buffer (nl_buffer (links ! ?q))))"
        using arr [OF q(2)] iu v act q(1,3) by (fastforce simp: credit_arrives_def Let_def)
      then show ?thesis by (rule credited_unit(3) [OF o(3) [rule_format, OF q(2)] k [OF q(2)] refl arr [OF q(2)] q(4)])
    qed
    then show ?thesis using v0 o(2) by (auto simp: vc_ok_def)
  qed
  moreover have "rt_shape rt'" using o(1,2) by (intro rt_shape_same [OF sh]) simp_all
  moreover have "\<forall>ou \<in> set ous. ou_ok ?n ou" using unit(1) by (metis in_set_conv_nth)
  ultimately show "rt_ok ?now rt'" using o(1) by (simp add: rt_ok_def)
  show "map ou_outBuffer (rt_output_unit rt') = map ou_outBuffer (rt_output_unit rt)"
    using unit(2) o(1,2) by (intro nth_equalityI) auto
qed

section \<open>Switch traversal\<close>

definition launched :: "in_env \<Rightarrow> flit \<Rightarrow> flit" where
  "launched ie f = (let edge = clockEdge_at (ie_period ie) (ie_now ie) 1 in (advance_stage LT edge f)\<lparr>f_time := edge\<rparr>)"

definition cross_ok :: "in_env \<Rightarrow> Router \<Rightarrow> bool" where
  "cross_ok ie rt \<longleftrightarrow> (\<forall>b \<in> set (xb_switchBuffers (rt_xbar rt)). fb_buffer b = [] \<or> (\<exists>f. fb_buffer b = [f] \<and> is_stage ST (ie_now ie) f
     \<and> f_time f \<le> ie_now ie \<and> 0 \<le> f_outport f \<and> f_outport f < int (length (rt_output_unit rt))))"

definition crossing :: "Router \<Rightarrow> flit list" where
  "crossing rt = concat (map fb_buffer (xb_switchBuffers (rt_xbar rt)))"

definition sent_to :: "nat \<Rightarrow> flit list \<Rightarrow> flit list" where
  "sent_to q fs = filter (\<lambda>f. f_outport f = int q) fs"

text \<open>The crossbar after \<open>k\<close> of its buffers were served.\<close>

definition stage_x :: "in_env \<Rightarrow> Router \<Rightarrow> nat \<Rightarrow> Router \<Rightarrow> bool" where
  "stage_x ie rt k rt' \<longleftrightarrow> (\<exists>ous bs a. rt' = rt\<lparr>rt_output_unit := ous, rt_xbar := \<lparr>xb_crossbar_activity = a, xb_switchBuffers = bs\<rparr>\<rparr>
     \<and> length ous = length (rt_output_unit rt) \<and> length bs = length (xb_switchBuffers (rt_xbar rt))
     \<and> (\<forall>i < length bs. if i < k then fb_buffer (bs ! i) = [] else bs ! i = xb_switchBuffers (rt_xbar rt) ! i)
     \<and> (\<forall>q < length ous. ous ! q = (rt_output_unit rt ! q)\<lparr>ou_outBuffer := (ou_outBuffer (rt_output_unit rt ! q))\<lparr>fb_buffer :=
          fb_buffer (ou_outBuffer (rt_output_unit rt ! q))
          @ map (launched ie) (sent_to q (concat (map fb_buffer (take k (xb_switchBuffers (rt_xbar rt))))))\<rparr>\<rparr>))"

lemma xb_send_ok:
  assumes ok: "cross_ok ie rt" and k: "k < length (xb_switchBuffers (rt_xbar rt))" and I: "stage_x ie rt k rt1"
  shows "\<exists>rt2 qs'. xb_send ie k (rt1, qs) = Inr (rt2, qs') \<and> stage_x ie rt (Suc k) rt2"
proof -
  let ?bs = "xb_switchBuffers (rt_xbar rt)" and ?outs = "rt_output_unit rt"
  let ?gone = "\<lambda>k. concat (map fb_buffer (take k ?bs))"
  let ?ou = "\<lambda>k q. (?outs ! q)\<lparr>ou_outBuffer := (ou_outBuffer (?outs ! q))\<lparr>fb_buffer :=
          fb_buffer (ou_outBuffer (?outs ! q)) @ map (launched ie) (sent_to q (?gone k))\<rparr>\<rparr>"
  from I obtain ous bs a where s: "rt1 = rt\<lparr>rt_output_unit := ous, rt_xbar := \<lparr>xb_crossbar_activity = a, xb_switchBuffers = bs\<rparr>\<rparr>"
    "length ous = length ?outs" "length bs = length ?bs"
    "\<forall>i < length bs. if i < k then fb_buffer (bs ! i) = [] else bs ! i = ?bs ! i" "\<forall>q < length ous. ous ! q = ?ou k q"
    by (auto simp: stage_x_def)
  have bk: "bs ! k = ?bs ! k" "k < length bs" using s k by auto
  have gone: "?gone (Suc k) = ?gone k @ fb_buffer (?bs ! k)" using k by (simp add: take_Suc_conv_app_nth)
  have b: "?bs ! k \<in> set ?bs" using k by simp
  with ok consider "fb_buffer (?bs ! k) = []" | f where "fb_buffer (?bs ! k) = [f]" "is_stage ST (ie_now ie) f"
      "f_time f \<le> ie_now ie" "0 \<le> f_outport f" "f_outport f < int (length ?outs)" unfolding cross_ok_def by blast
  then show ?thesis
  proof cases
    case 1
    then have "xb_send ie k (rt1, qs) = Inr (rt1, qs)" using s(1) bk by (simp add: xb_send_def fb_isReady_def)
    moreover have "stage_x ie rt (Suc k) rt1"
      unfolding stage_x_def gone 1 using s 1 bk by (intro exI [of _ ous] exI [of _ bs] exI [of _ a]) (auto simp: less_Suc_eq)
    ultimately show ?thesis by blast
  next
    case 2
    let ?q = "nat (f_outport f)"
    let ?b = "(?bs ! k)\<lparr>fb_buffer := []\<rparr>"
    have q: "?q < length ous" "int ?q = f_outport f" using 2 s(2) by auto
    let ?ou' = "(ous ! ?q)\<lparr>ou_outBuffer := fb_insert (launched ie f) (ou_outBuffer (ous ! ?q))\<rparr>"
    let ?rt2 = "rt\<lparr>rt_output_unit := ous[?q := ?ou'], rt_xbar := \<lparr>xb_crossbar_activity = a + 1, xb_switchBuffers = bs[k := ?b]\<rparr>\<rparr>"
    have "getOutputUnit (f_outport f) rt1 = Inr (ous ! ?q)" using q 2(4,5) s(1,2) by (simp add: getOutputUnit_def)
    then have "\<exists>qs'. xb_send ie k (rt1, qs) = Inr (?rt2, qs')"
      using s(1) bk 2 by (simp add: xb_send_def fb_isReady_def fb_peekTopFlit_def fb_getTopFlit_def ou_insert_flit_def
          launched_def setOutputUnit_def Let_def)
    moreover have "stage_x ie rt (Suc k) ?rt2"
    proof -
      have "(ous[?q := ?ou']) ! p = ?ou (Suc k) p" if "p < length ous" for p
        using that q s(5) 2(1) unfolding gone by (auto simp: nth_list_update fb_insert_def sent_to_def)
      then show ?thesis
        unfolding stage_x_def using s bk by (intro exI [of _ "ous[?q := ?ou']"] exI [of _ "bs[k := ?b]"] exI [of _ "a + 1"])
          (auto simp: nth_list_update less_Suc_eq)
    qed
    ultimately show ?thesis by blast
  qed
qed

lemma xb_wakeup_ok:
  assumes "cross_ok ie rt"
  shows "\<exists>rt' qs. xb_wakeup ie rt = Inr (rt', qs) \<and> stage_x ie rt (length (xb_switchBuffers (rt_xbar rt))) rt'"
proof -
  let ?I = "\<lambda>k (rt', qs). stage_x ie rt k rt'"
  have "\<exists>t. loopR (xb_send ie) (map (\<lambda>k. k) [0..<length (xb_switchBuffers (rt_xbar rt))]) (rt, []) = Inr t
      \<and> ?I (length (xb_switchBuffers (rt_xbar rt))) t"
  proof (rule loopR_upto [where I = ?I and g = "\<lambda>k. k"])
    show "?I 0 (rt, [])"
      by (auto simp: stage_x_def sent_to_def intro!: exI [of _ "rt_output_unit rt"] exI [of _ "xb_switchBuffers (rt_xbar rt)"]
          exI [of _ "xb_crossbar_activity (rt_xbar rt)"])
    show "\<exists>t. xb_send ie k s = Inr t \<and> ?I (Suc k) t" if "k < length (xb_switchBuffers (rt_xbar rt))" and "?I k s" for k s
      using xb_send_ok [OF assms that(1), of "fst s" "snd s"] that(2) by (auto split: prod.splits)
  qed
  then show ?thesis by (auto simp: xb_wakeup_def)
qed

section \<open>Counting flits\<close>

definition unit_flits :: "InputUnit \<Rightarrow> nat" where
  "unit_flits iu = sum_list (map (length \<circ> vc_flits) (iu_virtualChannels iu))"

definition buffered :: "Router \<Rightarrow> nat" where
  "buffered rt = sum_list (map unit_flits (rt_input_unit rt))"

definition queued :: "Router \<Rightarrow> nat" where
  "queued rt = sum_list (map (\<lambda>ou. length (fb_buffer (ou_outBuffer ou))) (rt_output_unit rt))"

definition ready_links :: "Tick \<Rightarrow> NetworkLink list \<Rightarrow> nat" where
  "ready_links now links = length (filter (nl_isReady now) links)"

lemma sum_list_pointwise:
  assumes "length b = length (a :: nat list)" and "length c = length a" and "length d = length a"
    and "\<And>i. i < length a \<Longrightarrow> a ! i + b ! i = c ! i + d ! i"
  shows "sum_list a + sum_list b = sum_list c + sum_list d"
  using assms by (simp add: sum_list_sum_nth flip: sum.distrib)

lemma sum_sent_to:
  "\<forall>f \<in> set fs. 0 \<le> f_outport f \<and> f_outport f < int m \<Longrightarrow> (\<Sum>q<m. length (sent_to q fs)) = length fs"
proof (induction fs)
  case (Cons f fs)
  then have q: "nat (f_outport f) < m" "int (nat (f_outport f)) = f_outport f" by auto
  have "(\<Sum>q<m. length (sent_to q (f # fs))) = (\<Sum>q<m. (if q = nat (f_outport f) then 1 else 0) + length (sent_to q fs))"
    using q(2) by (intro sum.cong) (auto simp: sent_to_def)
  also have "\<dots> = 1 + length fs" using q(1) Cons by (simp add: sum.distrib)
  finally show ?case by simp
qed (simp add: sent_to_def)

lemma sent_to_once: "distinct (map f_outport fs) \<Longrightarrow> length (sent_to q fs) \<le> 1"
proof (induction fs)
  case (Cons f fs)
  show ?case
  proof (cases "f_outport f = int q")
    case True
    with Cons.prems have "sent_to q fs = []" by (force simp: sent_to_def filter_empty_conv)
    with True show ?thesis by (simp add: sent_to_def)
  next
    case False
    with Cons show ?thesis by (simp add: sent_to_def)
  qed
qed (simp add: sent_to_def)

lemma distinct_concat_nth:
  assumes "\<And>i. i < length xs \<Longrightarrow> distinct (xs ! i)"
    and "\<And>i j. i < length xs \<Longrightarrow> j < length xs \<Longrightarrow> i \<noteq> j \<Longrightarrow> set (xs ! i) \<inter> set (xs ! j) = {}"
  shows "distinct (concat xs)"
  using assms
proof (induction xs)
  case (Cons x xs)
  have "distinct (concat xs)"
    using Cons.prems(1) [of "Suc _"] Cons.prems(2) [of "Suc _" "Suc _"] by (intro Cons.IH) auto
  moreover have "set x \<inter> set y = {}" if "y \<in> set xs" for y
    using that Cons.prems(2) [of 0 "Suc _"] by (auto simp: in_set_conv_nth)
  ultimately show ?case using Cons.prems(1) [of 0] by auto
qed simp

text \<open>The crossbar after an allocation that started with empty switch buffers.\<close>

lemma matching_crossing:
  assumes m: "matching ie rt rt' gs" and empty: "\<forall>b \<in> set (xb_switchBuffers (rt_xbar rt)). fb_buffer b = []"
    and len: "length (xb_switchBuffers (rt_xbar rt)) = length (rt_input_unit rt)"
      "length (xb_switchBuffers (rt_xbar rt')) = length (rt_input_unit rt)" "length (rt_output_unit rt') = length (rt_output_unit rt)"
  shows "cross_ok ie rt'" and "distinct (map f_outport (crossing rt'))"
proof -
  let ?bs = "xb_switchBuffers (rt_xbar rt')"
  have old: "fb_buffer (xb_switchBuffers (rt_xbar rt) ! i) = []" if "i < length (rt_input_unit rt)" for i
    using empty that len(1) by simp
  have kept: "fb_buffer (?bs ! i) = []" if "i < length (rt_input_unit rt)" "i \<notin> snd ` set gs" for i
    using m old that by (auto simp: matching_def port_kept_def)
  have moved: "\<exists>f w. fb_buffer (?bs ! i) = [moved ie q w f] \<and> f_time f \<le> ie_now ie \<and> q < length (rt_output_unit rt)"
    if "(q, i) \<in> set gs" for q i
    using m old that by (fastforce simp: matching_def port_moved_def Let_def)
  have injq: "i = i'" if "(q, i) \<in> set gs" "(q, i') \<in> set gs" for q i i'
    using m that by (auto simp: matching_def intro: eq_key_imp_eq_value)
  show "cross_ok ie rt'"
    unfolding cross_ok_def
  proof
    fix b assume "b \<in> set ?bs"
    then obtain i where i: "i < length (rt_input_unit rt)" "b = ?bs ! i" using len(2) by (metis in_set_conv_nth)
    show "fb_buffer b = [] \<or> (\<exists>f. fb_buffer b = [f] \<and> is_stage ST (ie_now ie) f
       \<and> f_time f \<le> ie_now ie \<and> 0 \<le> f_outport f \<and> f_outport f < int (length (rt_output_unit rt')))"
    proof (cases "i \<in> snd ` set gs")
      case True
      then obtain q where "(q, i) \<in> set gs" by auto
      from moved [OF this] i len(3) show ?thesis by (auto simp: moved_def advance_stage_def is_stage_def)
    next
      case False
      then show ?thesis using kept i by simp
    qed
  qed
  have port: "\<exists>q. f_outport f = int q \<and> (q, i) \<in> set gs" if "i < length ?bs" "f \<in> set (fb_buffer (?bs ! i))" for i f
  proof (cases "i \<in> snd ` set gs")
    case True
    then obtain q where "(q, i) \<in> set gs" by auto
    from this moved [OF this] that show ?thesis by (auto simp: moved_def advance_stage_def)
  next
    case False
    then show ?thesis using kept [of i] that len(2) by simp
  qed
  have "distinct (concat (map (\<lambda>b. map f_outport (fb_buffer b)) ?bs))"
  proof (rule distinct_concat_nth)
    fix i assume i: "i < length (map (\<lambda>b. map f_outport (fb_buffer b)) ?bs)"
    have "length (fb_buffer (?bs ! i)) \<le> 1"
      using kept [of i] moved i len(2) by (cases "i \<in> snd ` set gs") fastforce+
    then show "distinct (map (\<lambda>b. map f_outport (fb_buffer b)) ?bs ! i)"
      using i by (cases "fb_buffer (?bs ! i)") auto
  next
    fix i j assume "i < length (map (\<lambda>b. map f_outport (fb_buffer b)) ?bs)" "j < length (map (\<lambda>b. map f_outport (fb_buffer b)) ?bs)" "i \<noteq> j"
    then show "set (map (\<lambda>b. map f_outport (fb_buffer b)) ?bs ! i) \<inter> set (map (\<lambda>b. map f_outport (fb_buffer b)) ?bs ! j) = {}"
      using port [of i] port [of j] injq by fastforce
  qed
  then show "distinct (map f_outport (crossing rt'))" by (simp add: crossing_def map_concat comp_def)
qed

lemma matching_counts:
  assumes m: "matching ie rt rt' gs" and shape: "rt_shape rt" "rt_shape rt'" "length (rt_input_unit rt') = length (rt_input_unit rt)"
  shows "buffered rt' + length (crossing rt') = buffered rt + length (crossing rt)"
proof -
  let ?n = "length (rt_input_unit rt)" and ?bs = "xb_switchBuffers (rt_xbar rt)" and ?bs' = "xb_switchBuffers (rt_xbar rt')"
  have len: "length ?bs = ?n" "length ?bs' = ?n" using shape by (simp_all add: rt_shape_def Let_def)
  have vcs: "length (iu_virtualChannels (rt_input_unit rt ! i)) = sa_num_vcs (rt_sa rt)" if "i < ?n" for i
    using shape(1) that unfolding rt_shape_def Let_def by blast
  have each: "unit_flits (rt_input_unit rt' ! i) + length (fb_buffer (?bs' ! i)) = unit_flits (rt_input_unit rt ! i) + length (fb_buffer (?bs ! i))"
    if i: "i < ?n" for i
  proof (cases "i \<in> snd ` set gs")
    case True
    then obtain q where "(q, i) \<in> set gs" by auto
    with m have "port_moved ie rt rt' q i" by (auto simp: matching_def)
    then obtain invc w f fs where p: "invc < sa_num_vcs (rt_sa rt)" "vc_flits (iu_virtualChannels (rt_input_unit rt ! i) ! invc) = f # fs"
      "map vc_flits (iu_virtualChannels (rt_input_unit rt' ! i)) = (map vc_flits (iu_virtualChannels (rt_input_unit rt ! i)))[invc := fs]"
      "fb_buffer (?bs' ! i) = fb_buffer (?bs ! i) @ [moved ie q w f]" unfolding port_moved_def Let_def by blast
    have uf: "unit_flits iu = sum_list (map length (map vc_flits (iu_virtualChannels iu)))" for iu by (simp add: unit_flits_def)
    have "unit_flits (rt_input_unit rt' ! i) + length (f # fs) = unit_flits (rt_input_unit rt ! i) + length fs"
      unfolding uf p(3) map_update
      using sum_list_update_nat [of invc "map length (map vc_flits (iu_virtualChannels (rt_input_unit rt ! i)))" "length fs"]
        p(1,2) vcs [OF i] by simp
    with p(4) show ?thesis by simp
  next
    case False
    with m i show ?thesis by (simp add: matching_def port_kept_def)
  qed
  have "sum_list (map unit_flits (rt_input_unit rt')) + sum_list (map (length \<circ> fb_buffer) ?bs')
      = sum_list (map unit_flits (rt_input_unit rt)) + sum_list (map (length \<circ> fb_buffer) ?bs)"
    by (rule sum_list_pointwise) (use shape(3) len each in auto)
  then show ?thesis by (simp add: buffered_def crossing_def length_concat comp_def)
qed

lemma stage_x_ends:
  assumes I: "stage_x ie rt (length (xb_switchBuffers (rt_xbar rt))) rt'" and x: "cross_ok ie rt" and ok: "rt_ok now rt"
  shows "rt_ok now rt'" and "\<forall>b \<in> set (xb_switchBuffers (rt_xbar rt')). fb_buffer b = []"
    and "queued rt' = queued rt + length (crossing rt)"
    and "rt_input_unit rt' = rt_input_unit rt \<and> rt_sa rt' = rt_sa rt \<and> rt_shared rt' = rt_shared rt \<and> rt_latency rt' = rt_latency rt
      \<and> length (rt_output_unit rt') = length (rt_output_unit rt)"
    and "\<forall>q < length (rt_output_unit rt). fb_buffer (ou_outBuffer (rt_output_unit rt' ! q))
      = fb_buffer (ou_outBuffer (rt_output_unit rt ! q)) @ map (launched ie) (sent_to q (crossing rt))"
proof -
  let ?outs = "rt_output_unit rt" and ?n = "rt_virtual_networks rt"
  from I obtain ous bs a where s: "rt' = rt\<lparr>rt_output_unit := ous, rt_xbar := \<lparr>xb_crossbar_activity = a, xb_switchBuffers = bs\<rparr>\<rparr>"
    "length ous = length ?outs" "length bs = length (xb_switchBuffers (rt_xbar rt))" "\<forall>i < length bs. fb_buffer (bs ! i) = []"
    "\<forall>q < length ous. ous ! q = (?outs ! q)\<lparr>ou_outBuffer := (ou_outBuffer (?outs ! q))\<lparr>fb_buffer :=
          fb_buffer (ou_outBuffer (?outs ! q)) @ map (launched ie) (sent_to q (crossing rt))\<rparr>\<rparr>"
    by (auto simp: stage_x_def crossing_def)
  have "\<forall>b \<in> set bs. fb_buffer b = []" using s(4) by (metis in_set_conv_nth)
  then show "\<forall>b \<in> set (xb_switchBuffers (rt_xbar rt')). fb_buffer b = []" using s(1) by simp
  show "rt_input_unit rt' = rt_input_unit rt \<and> rt_sa rt' = rt_sa rt \<and> rt_shared rt' = rt_shared rt \<and> rt_latency rt' = rt_latency rt
      \<and> length (rt_output_unit rt') = length (rt_output_unit rt)" using s(1,2) by simp
  show out: "\<forall>q < length ?outs. fb_buffer (ou_outBuffer (rt_output_unit rt' ! q))
      = fb_buffer (ou_outBuffer (?outs ! q)) @ map (launched ie) (sent_to q (crossing rt))" using s(1,2,5) by simp
  have st: "ou_outVcState (ous ! q) = ou_outVcState (?outs ! q)" "ou_vc_per_vnet (ous ! q) = ou_vc_per_vnet (?outs ! q)"
    if "q < length ous" for q using s(5) that by simp_all
  have ouok: "\<forall>ou \<in> set ?outs. ou_ok ?n ou" and sh: "rt_shape rt"
    and vs: "\<forall>iu \<in> set (rt_input_unit rt). \<forall>v \<in> set (iu_virtualChannels iu). vc_ok now ?outs v" using ok by (simp_all add: rt_ok_def)
  have "ou_ok ?n (ous ! q)" if q: "q < length ous" for q
    using bspec [OF ouok nth_mem, of q] q s(2) by (simp add: ou_ok_def ou_has_vnet_def st [OF q])
  then have "\<forall>ou \<in> set ous. ou_ok ?n ou" by (metis in_set_conv_nth)
  moreover have "vc_ok now ous v" if "vc_ok now ?outs v" for v
    using that s(2) by (rule vc_ok_mono) (simp add: out_vc_ok_def st s(2))
  moreover have "rt_shape rt'" using s(1-3) by (intro rt_shape_same [OF sh]) simp_all
  ultimately show "rt_ok now rt'" using vs s(1) by (simp add: rt_ok_def)
  have rng: "\<forall>f \<in> set (crossing rt). 0 \<le> f_outport f \<and> f_outport f < int (length ?outs)"
    using x unfolding cross_ok_def crossing_def by fastforce
  have "queued rt' = (\<Sum>q<length ?outs. length (fb_buffer (ou_outBuffer (?outs ! q))) + length (sent_to q (crossing rt)))"
    unfolding queued_def using out s(1,2) by (simp add: sum_list_sum_nth atLeast0LessThan)
  also have "\<dots> = queued rt + length (crossing rt)"
    using sum_sent_to [OF rng] by (simp add: sum.distrib queued_def sum_list_sum_nth atLeast0LessThan)
  finally show "queued rt' = queued rt + length (crossing rt)" .
qed

lemma alloc_wf:
  assumes m: "matching ie rt rt' gs" and fr: "alloc_frame rt rt'" and wf: "\<forall>iu \<in> set (rt_input_unit rt). iu_wf iu"
  shows "\<forall>iu \<in> set (rt_input_unit rt'). iu_wf iu"
proof
  fix iu assume "iu \<in> set (rt_input_unit rt')"
  then obtain i where i: "i < length (rt_input_unit rt')" "iu = rt_input_unit rt' ! i" by (metis in_set_conv_nth)
  have stat: "map iu_static (rt_input_unit rt') = map iu_static (rt_input_unit rt)" using fr by (simp add: alloc_frame_def)
  then have i': "i < length (rt_input_unit rt)" using i map_eq_imp_length_eq by fastforce
  let ?u = "rt_input_unit rt ! i"
  have st: "iu_static iu = iu_static ?u" using stat i i' by (metis nth_map)
  have len: "length (iu_virtualChannels iu) = length (iu_virtualChannels ?u)"
  proof (cases "i \<in> snd ` set gs")
    case True
    then obtain q where "port_moved ie rt rt' q i" using m by (fastforce simp: matching_def)
    then obtain fs invc where "map vc_flits (iu_virtualChannels iu) = (map vc_flits (iu_virtualChannels ?u))[invc := fs]"
      unfolding port_moved_def Let_def i(2) by blast
    then show ?thesis by (metis length_list_update length_map)
  next
    case False
    then show ?thesis using m i' i(2) by (simp add: matching_def port_kept_def)
  qed
  from wf i' have "iu_wf ?u" by simp
  with st len show "iu_wf iu" by (simp add: iu_wf_def iu_static_def)
qed

section \<open>The whole wake-up\<close>

definition router_invariant :: "(RoutingUnit \<Rightarrow> route_glob \<Rightarrow> bool) \<Rightarrow> nat \<Rightarrow> Tick \<Rightarrow> Router \<Rightarrow> bool" where
  "router_invariant good ports now rt \<longleftrightarrow> rt_ok now rt \<and> no_requests rt \<and> 1 \<le> rt_latency rt \<and> length (rt_output_unit rt) = ports
     \<and> shared_ok good ports (rt_shared rt) \<and> (\<forall>iu \<in> set (rt_input_unit rt). iu_wf iu)
     \<and> (\<forall>b \<in> set (xb_switchBuffers (rt_xbar rt)). fb_buffer b = [])"

definition arrivals_ok :: "(RouteInfo \<Rightarrow> int \<Rightarrow> PortDirection \<Rightarrow> bool) \<Rightarrow> in_env \<Rightarrow> NetworkLink list \<Rightarrow> Router \<Rightarrow> bool" where
  "arrivals_ok valid ie links rt \<longleftrightarrow> length links = length (rt_input_unit rt)
     \<and> (\<forall>i < length links. nl_isReady (ie_now ie) (links ! i) \<longrightarrow>
          (let fl = hd (fb_buffer (nl_buffer (links ! i))); iu = rt_input_unit rt ! i in arrives ie iu fl \<and> flit_valid valid iu fl))"

context routing_contract
begin

abbreviation router_inv :: "Tick \<Rightarrow> Router \<Rightarrow> bool" where
  "router_inv \<equiv> router_invariant good ports"

abbreviation inputs_ok :: "in_env \<Rightarrow> NetworkLink list \<Rightarrow> Router \<Rightarrow> bool" where
  "inputs_ok \<equiv> arrivals_ok valid"

definition stage_in :: "in_env \<Rightarrow> Router \<Rightarrow> NetworkLink list \<Rightarrow> nat \<Rightarrow> Router \<Rightarrow> NetworkLink list \<Rightarrow> bool" where
  "stage_in ie rt links k rt' links' \<longleftrightarrow> same_core rt rt' \<and> rt_output_unit rt' = rt_output_unit rt \<and> sh_ok (rt_shared rt')
     \<and> length (rt_input_unit rt') = length (rt_input_unit rt) \<and> length links' = length links
     \<and> (\<forall>i < length (rt_input_unit rt). if i < k
          then received ie ports (links ! i) (rt_input_unit rt ! i) (links' ! i) (rt_input_unit rt' ! i) \<and> iu_wf (rt_input_unit rt' ! i)
          else links' ! i = links ! i \<and> rt_input_unit rt' ! i = rt_input_unit rt ! i)"

lemma wake_inport_ok:
  assumes str: "str \<in> {Plain_unit, Valiant_unit} \<union> range Detecting_unit" and ie: "ie_route ie = env" "1 \<le> ie_pipe_stages ie"
    and wf: "\<forall>iu \<in> set (rt_input_unit rt). iu_wf iu" and links: "inputs_ok ie links rt"
    and k: "k < length (rt_input_unit rt)" and I: "stage_in ie rt links k rt1 links1"
  shows "\<exists>rt2 links2 qs'. wake_inport str F junk ie gs numbers k (rt1, links1, qs) = Inr (rt2, links2, qs')
    \<and> stage_in ie rt links (Suc k) rt2 links2"
proof -
  let ?iu = "rt_input_unit rt ! k" and ?link = "links ! k"
  have len: "length (rt_input_unit rt1) = length (rt_input_unit rt)" "length links1 = length links" "length links = length (rt_input_unit rt)"
    and at: "rt_input_unit rt1 ! k = ?iu" "links1 ! k = ?link" and sh: "sh_ok (rt_shared rt1)"
    using I k links by (auto simp: stage_in_def arrivals_ok_def)
  have wfk: "iu_wf ?iu" using wf k by auto
  have arr: "nl_isReady (ie_now ie) ?link \<longrightarrow> arrives ie ?iu (hd (fb_buffer (nl_buffer ?link))) \<and> flit_ok ?iu (hd (fb_buffer (nl_buffer ?link)))"
    using links k len by (auto simp: arrivals_ok_def Let_def)
  from unit_wakeup_ok [OF str ie sh wfk arr, of junk "gs k" "numbers k" "rt_tdma rt1"] obtain link' iu' sh' reqs where
    u: "iu_wakeup str F junk ie (gs k) (numbers k) ?link ?iu (rt_shared rt1) (rt_tdma rt1) = Inr (link', iu', sh', rt_tdma rt1, reqs)"
      "sh_ok sh'" "received ie ports ?link ?iu link' iu'" "iu_wf iu'" by blast
  let ?rt = "(setInputUnit (int k) iu' rt1)\<lparr>rt_shared := sh', rt_tdma := rt_tdma rt1\<rparr>"
  from serve_returns [of ie reqs ?rt] obtain c out where s: "serve ie reqs ?rt = Inr (?rt\<lparr>rt_consumer := c\<rparr>, out)" by blast
  have "wake_inport str F junk ie gs numbers k (rt1, links1, qs) = Inr (?rt\<lparr>rt_consumer := c\<rparr>, links1[k := link'], qs @ out)"
    using k len at u(1) s by (simp add: wake_inport_def)
  moreover have "stage_in ie rt links (Suc k) (?rt\<lparr>rt_consumer := c\<rparr>) (links1[k := link'])"
    using I u(2-4) k len by (auto simp: stage_in_def same_core_def setInputUnit_def nth_list_update less_Suc_eq)
  ultimately show ?thesis by blast
qed

lemma wake_inports_ok:
  assumes str: "str \<in> {Plain_unit, Valiant_unit} \<union> range Detecting_unit" and ie: "ie_route ie = env" "1 \<le> ie_pipe_stages ie"
    and inv: "router_inv (ie_now ie) rt" and links: "inputs_ok ie links rt"
  shows "\<exists>rt' links' qs. loopR (wake_inport str F junk ie gs numbers) [0..<length (rt_input_unit rt)] (rt, links, []) = Inr (rt', links', qs)
    \<and> stage_in ie rt links (length (rt_input_unit rt)) rt' links'"
proof -
  let ?I = "\<lambda>k (rt', links', qs). stage_in ie rt links k rt' links'"
  have wf: "\<forall>iu \<in> set (rt_input_unit rt). iu_wf iu" using inv by (simp add: router_invariant_def)
  have "\<exists>t. loopR (wake_inport str F junk ie gs numbers) (map (\<lambda>k. k) [0..<length (rt_input_unit rt)]) (rt, links, []) = Inr t
      \<and> ?I (length (rt_input_unit rt)) t"
  proof (rule loopR_upto [where I = ?I and g = "\<lambda>k. k"])
    show "?I 0 (rt, links, [])" using inv by (simp add: stage_in_def same_core_def router_invariant_def)
    show "\<exists>t. wake_inport str F junk ie gs numbers k s = Inr t \<and> ?I (Suc k) t"
      if "k < length (rt_input_unit rt)" and "?I k s" for k s
      using wake_inport_ok [OF str ie wf links that(1), of "fst s" "fst (snd s)" junk gs numbers "snd (snd s)"] that(2)
      by (auto split: prod.splits)
  qed
  then show ?thesis by auto
qed

lemma stage_in_ok:
  assumes inv: "router_inv (ie_now ie) rt" and I: "stage_in ie rt links (length (rt_input_unit rt)) rt' links'"
  shows "router_inv (ie_now ie) rt'"
proof -
  have vs: "\<forall>iu \<in> set (rt_input_unit rt). \<forall>v \<in> set (iu_virtualChannels iu). vc_ok (ie_now ie) (rt_output_unit rt) v"
    using inv by (simp add: router_invariant_def rt_ok_def)
  have each: "length (iu_virtualChannels (rt_input_unit rt' ! i)) = length (iu_virtualChannels (rt_input_unit rt ! i))
      \<and> (\<forall>v \<in> set (iu_virtualChannels (rt_input_unit rt' ! i)). vc_ok (ie_now ie) (rt_output_unit rt) v)"
    if i: "i < length (rt_input_unit rt)" for i
  proof -
    have "received ie (length (rt_output_unit rt)) (links ! i) (rt_input_unit rt ! i) (links' ! i) (rt_input_unit rt' ! i)"
      using I i inv by (simp add: stage_in_def router_invariant_def)
    moreover have "\<forall>v \<in> set (iu_virtualChannels (rt_input_unit rt ! i)). vc_ok (ie_now ie) (rt_output_unit rt) v"
      by (rule bspec [OF vs nth_mem [OF i]])
    ultimately show ?thesis using received_ok(1,2) by blast
  qed
  have parts: "rt_ok (ie_now ie) rt" "same_core rt rt'" "rt_output_unit rt' = rt_output_unit rt" "sh_ok (rt_shared rt')"
    "length (rt_input_unit rt') = length (rt_input_unit rt)"
    "\<forall>i < length (rt_input_unit rt). iu_wf (rt_input_unit rt' ! i)" using I inv by (simp_all add: stage_in_def router_invariant_def)
  have "rt_ok (ie_now ie) rt'" by (rule rt_ok_inputs [OF parts(1-3,5) each])
  moreover have "\<forall>iu \<in> set (rt_input_unit rt'). iu_wf iu" using parts(5,6) by (metis in_set_conv_nth)
  ultimately show ?thesis using parts inv by (simp add: router_invariant_def same_core_def no_requests_def)
qed

lemma stage_in_counts:
  assumes inv: "router_inv (ie_now ie) rt" and I: "stage_in ie rt links (length (rt_input_unit rt)) rt' links'"
    and len: "length links = length (rt_input_unit rt)"
  shows "buffered rt' = buffered rt + ready_links (ie_now ie) links"
proof -
  have vs: "\<forall>iu \<in> set (rt_input_unit rt). \<forall>v \<in> set (iu_virtualChannels iu). vc_ok (ie_now ie) (rt_output_unit rt) v"
    using inv by (simp add: router_invariant_def rt_ok_def)
  let ?r = "map (\<lambda>l. if nl_isReady (ie_now ie) l then 1 else 0) links"
  have "sum_list (map unit_flits (rt_input_unit rt')) + sum_list (replicate (length links) 0)
      = sum_list (map unit_flits (rt_input_unit rt)) + sum_list ?r"
  proof (rule sum_list_pointwise)
    fix i assume "i < length (map unit_flits (rt_input_unit rt'))"
    then have i: "i < length (rt_input_unit rt)" "i < length (rt_input_unit rt')" using I by (auto simp: stage_in_def)
    have r: "received ie (length (rt_output_unit rt)) (links ! i) (rt_input_unit rt ! i) (links' ! i) (rt_input_unit rt' ! i)"
      using I i inv by (simp add: stage_in_def router_invariant_def)
    show "map unit_flits (rt_input_unit rt') ! i + replicate (length links) 0 ! i = map unit_flits (rt_input_unit rt) ! i + ?r ! i"
      using received_ok(6) [OF r bspec [OF vs nth_mem [OF i(1)]]] i len by (simp add: unit_flits_def)
  qed (use I len in \<open>auto simp: stage_in_def\<close>)
  moreover have "sum_list ?r = ready_links (ie_now ie) links" by (induction links) (auto simp: ready_links_def)
  ultimately show ?thesis by (simp add: buffered_def sum_list_replicate)
qed

text \<open>Flits that arrive do not touch the channels that are waiting for credits.\<close>

lemma credits_after_inputs:
  assumes inv: "router_inv (ie_now ie) rt" and I: "stage_in ie rt links (length (rt_input_unit rt)) rt' links'"
    and cr: "credits_ok (ie_now ie) cls rt"
  shows "credits_ok (ie_now ie) cls rt'"
proof -
  have outs: "rt_output_unit rt' = rt_output_unit rt" using I by (simp add: stage_in_def)
  have vs: "\<forall>iu \<in> set (rt_input_unit rt). \<forall>v \<in> set (iu_virtualChannels iu). vc_ok (ie_now ie) (rt_output_unit rt) v"
    using inv by (simp add: router_invariant_def rt_ok_def)
  have held: "\<exists>u \<in> set (rt_input_unit rt). \<exists>w \<in> set (iu_virtualChannels u). fst (vc_state w) = ACTIVE
      \<and> vc_output_port w = vc_output_port v \<and> vc_output_vc w = vc_output_vc v"
    if iu: "iu \<in> set (rt_input_unit rt')" and v: "v \<in> set (iu_virtualChannels iu)"
      and act: "fst (vc_state v) = ACTIVE" "vc_output_vc v \<noteq> -1" for iu v
  proof -
    from iu I obtain i where i: "i < length (rt_input_unit rt)" "iu = rt_input_unit rt' ! i" by (auto simp: stage_in_def in_set_conv_nth)
    let ?u = "rt_input_unit rt ! i"
    have u: "?u \<in> set (rt_input_unit rt)" using i by simp
    have r: "received ie ports (links ! i) ?u (links' ! i) iu" using I i by (simp add: stage_in_def)
    show ?thesis
    proof (cases "v \<in> set (iu_virtualChannels ?u)")
      case True
      with u act show ?thesis by blast
    next
      case False
      with r v obtain fl fl' p where a: "arrives ie ?u fl" "f_type fl' = f_type fl"
        "v \<in> set ((iu_virtualChannels ?u)[nat (f_vc fl) := arrived_vc (ie_now ie) fl' p (iu_virtualChannels ?u ! nat (f_vc fl))])"
        by (auto simp: received_def split: if_splits)
      let ?w = "iu_virtualChannels ?u ! nat (f_vc fl)"
      have v': "v = arrived_vc (ie_now ie) fl' p ?w" using a(3) False set_update_subset_insert by fast
      have w: "?w \<in> set (iu_virtualChannels ?u)" using a(1) by (auto simp: arrives_def)
      then have ok: "vc_ok (ie_now ie) (rt_output_unit rt) ?w" using vs u by blast
      have "\<not> is_head (f_type fl)"
        using a(1,2) ok v' act(2) by (auto simp: arrives_def vc_ok_def arrived_vc_def vc_insertFlit_def vc_set_active_def Let_def)
      then have "fst (vc_state ?w) = ACTIVE" "vc_output_port ?w = vc_output_port v" "vc_output_vc ?w = vc_output_vc v"
        using a(1,2) v' by (auto simp: arrives_def arrived_vc_def vc_insertFlit_def Let_def)
      with u w show ?thesis by blast
    qed
  qed
  have "credit_arrives rt' k c" if "credit_arrives rt k c" for k c
    using that held unfolding credit_arrives_def Let_def outs by fastforce
  with cr show ?thesis by (auto simp: credits_ok_def outs)
qed

lemma router_wakeup_ok:
  assumes str: "str \<in> {Plain_unit, Valiant_unit} \<union> range Detecting_unit" and per: "0 < period" "period dvd re_curTick env"
    and inv: "router_inv (re_curTick env) rt" and ins: "inputs_ok (router_env env period nd rt) ils rt"
    and cr: "credits_ok (re_curTick env) cls rt"
  shows "\<exists>rt' ils' cls' qs. router_wakeup str F junk env period nd gs numbers ils cls rt = Inr (rt', ils', cls', qs)
    \<and> router_inv (re_curTick env) rt'
    \<and> (\<forall>q < ports. \<exists>fs. fb_buffer (ou_outBuffer (rt_output_unit rt' ! q)) = fb_buffer (ou_outBuffer (rt_output_unit rt ! q)) @ fs
         \<and> length fs \<le> 1 \<and> (\<forall>f \<in> set fs. f_outport f = int q \<and> f_time f = re_curTick env + period))
    \<and> buffered rt' + queued rt' = buffered rt + queued rt + ready_links (re_curTick env) ils"
proof -
  let ?ie = "router_env env period nd rt"
  have now: "ie_now ?ie = re_curTick env" "ie_route ?ie = env" "ie_period ?ie = period" by (simp_all add: router_env_def)
  obtain k where k: "re_curTick env = k * period" using per(2) by (metis dvdE mult.commute)
  then have edge: "clockEdge_at period (re_curTick env) 0 = re_curTick env" "clockEdge_at period (re_curTick env) 1 = re_curTick env + period"
    using clockEdge_at_aligned [OF per(1), of k] by simp_all
  have pipe: "1 \<le> ie_pipe_stages ?ie" using inv by (simp add: router_env_def router_invariant_def)
  note inv' = inv [folded now(1)]
  from wake_inports_ok [OF str now(2) pipe inv' ins] obtain rt1 ils' q1 where
    1: "loopR (wake_inport str F junk ?ie gs numbers) [0..<length (rt_input_unit rt)] (rt, ils, []) = Inr (rt1, ils', q1)"
      "stage_in ?ie rt ils (length (rt_input_unit rt)) rt1 ils'" by blast
  have inv1: "router_inv (ie_now ?ie) rt1" by (rule stage_in_ok [OF inv' 1(2)])
  have cr1: "credits_ok (ie_now ?ie) cls rt1" by (rule credits_after_inputs [OF inv' 1(2) cr [folded now(1)]])
  from wake_outports_ok [OF cr1] obtain rt2 cls' q2 where
    2: "loopR (wake_outport ?ie) [0..<length (rt_output_unit rt1)] (rt1, cls, []) = Inr (rt2, cls', q2)"
      "stage_out ?ie rt1 cls (length (rt_output_unit rt1)) rt2 cls'" by blast
  have ok1: "rt_ok (ie_now ?ie) rt1" using inv1 by (simp add: router_invariant_def)
  note so = stage_out_ok [OF ok1 cr1 2(2)]
  have f2: "rt_input_unit rt2 = rt_input_unit rt1" "rt_xbar rt2 = rt_xbar rt1" "rt_sa rt2 = rt_sa rt1" "rt_shared rt2 = rt_shared rt1"
    "rt_latency rt2 = rt_latency rt1" "length (rt_output_unit rt2) = length (rt_output_unit rt1)"
    using 2(2) by (auto simp: stage_out_def)
  have nr: "no_requests rt2" using inv1 f2 by (simp add: router_invariant_def no_requests_def)
  from sa_wakeup_ok [OF so(1) nr] per(1) now(3) obtain rt3 q3 gs' where
    3: "sa_wakeup ?ie rt2 = Inr (rt3, q3)" "rt_ok (ie_now ?ie) rt3" "no_requests rt3" "matching ?ie rt2 rt3 gs'" "alloc_frame rt2 rt3"
    by auto
  from serve_returns obtain c q3' where 4: "serve ?ie q3 rt3 = Inr (rt3\<lparr>rt_consumer := c\<rparr>, q3')" by blast
  let ?rt4 = "rt3\<lparr>rt_consumer := c\<rparr>"
  have sh2: "rt_shape rt2" "rt_shape rt3" using so(1) 3(2) by (simp_all add: rt_ok_def)
  have maps: "map ou_outBuffer (rt_output_unit rt3) = map ou_outBuffer (rt_output_unit rt2)"
    "map iu_static (rt_input_unit rt3) = map iu_static (rt_input_unit rt2)" using 3(5) by (simp_all add: alloc_frame_def)
  have len3: "length (rt_output_unit rt3) = length (rt_output_unit rt2)" "length (rt_input_unit rt3) = length (rt_input_unit rt2)"
    using map_eq_imp_length_eq [OF maps(1)] map_eq_imp_length_eq [OF maps(2)] by simp_all
  have sb: "length (xb_switchBuffers (rt_xbar rt2)) = length (rt_input_unit rt2)" "length (xb_switchBuffers (rt_xbar rt3)) = length (rt_input_unit rt2)"
    using sh2 len3 by (simp_all add: rt_shape_def Let_def)
  have empty: "\<forall>b \<in> set (xb_switchBuffers (rt_xbar rt2)). fb_buffer b = []" using inv1 f2 by (simp add: router_invariant_def)
  note cross = matching_crossing [OF 3(4) empty sb len3(1)]
  have "cross_ok ?ie ?rt4" using cross(1) by (simp add: cross_ok_def)
  from xb_wakeup_ok [OF this] obtain rt5 q4 where
    5: "xb_wakeup ?ie ?rt4 = Inr (rt5, q4)" "stage_x ?ie ?rt4 (length (xb_switchBuffers (rt_xbar rt3))) rt5" by auto
  have run: "router_wakeup str F junk env period nd gs numbers ils cls rt = Inr (rt5, ils', cls', q1 @ q2 @ q3' @ q4)"
    using edge(1) 1(1) 2(1) 3(1) 4 5(1) by (simp add: router_wakeup_def Let_def)
  have ok4: "rt_ok (ie_now ?ie) ?rt4" using 3(2) rt_shape_same [OF sh2(2), of ?rt4] by (simp add: rt_ok_def)
  have cr4: "cross_ok ?ie ?rt4" "crossing ?rt4 = crossing rt3" "queued ?rt4 = queued rt3" "buffered ?rt4 = buffered rt3"
    using cross(1) by (simp_all add: cross_ok_def crossing_def queued_def buffered_def)
  have "stage_x ?ie ?rt4 (length (xb_switchBuffers (rt_xbar ?rt4))) rt5" using 5(2) by simp
  note x = stage_x_ends [OF this cr4(1) ok4]
  have wf1: "\<forall>iu \<in> set (rt_input_unit rt2). iu_wf iu" using inv1 f2(1) by (simp add: router_invariant_def)
  have outs1: "rt_output_unit rt1 = rt_output_unit rt" using 1(2) by (simp add: stage_in_def)
  have m: "length (rt_output_unit rt) = ports" "length (rt_output_unit rt3) = ports" using inv outs1 f2(6) len3(1) by (simp_all add: router_invariant_def)
  have shared: "rt_shared rt3 = rt_shared rt2" "rt_latency rt3 = rt_latency rt2" using 3(5) by (simp_all add: alloc_frame_def)
  have inv5: "router_inv (re_curTick env) rt5"
    using x(1,2,4) 3(3) alloc_wf [OF 3(4,5) wf1] inv1 shared f2(4,5) m(2) now(1) by (simp add: router_invariant_def no_requests_def)
  have bufs: "map ou_outBuffer (rt_output_unit rt3) = map ou_outBuffer (rt_output_unit rt)" using maps(1) so(2) outs1 by simp
  have buf: "ou_outBuffer (rt_output_unit rt3 ! q) = ou_outBuffer (rt_output_unit rt ! q)" if "q < ports" for q
    using arg_cong [OF bufs, of "\<lambda>l. l ! q"] that m by simp
  have out: "\<exists>fs. fb_buffer (ou_outBuffer (rt_output_unit rt5 ! q)) = fb_buffer (ou_outBuffer (rt_output_unit rt ! q)) @ fs
         \<and> length fs \<le> 1 \<and> (\<forall>f \<in> set fs. f_outport f = int q \<and> f_time f = re_curTick env + period)" if q: "q < ports" for q
    using x(5) q m(2) buf [OF q] sent_to_once [OF cross(2), of q] edge(2)
    by (auto simp: cr4(2) launched_def Let_def now advance_stage_def sent_to_def
        intro!: exI [of _ "map (launched ?ie) (sent_to q (crossing rt3))"])
  have c0: "crossing rt2 = []" using empty by (simp add: crossing_def)
  have "queued rt3 = queued rt" using arg_cong [OF bufs, of "map (length \<circ> fb_buffer)"] by (simp add: queued_def comp_def)
  moreover have "buffered rt2 = buffered rt1" using f2(1) by (simp add: buffered_def)
  moreover have "buffered rt5 = buffered rt3" using x(4) by (simp add: buffered_def)
  moreover have "buffered rt1 = buffered rt + ready_links (re_curTick env) ils"
    using stage_in_counts [OF inv' 1(2)] ins now(1) by (simp add: arrivals_ok_def)
  ultimately have "buffered rt5 + queued rt5 = buffered rt + queued rt + ready_links (re_curTick env) ils"
    using x(3) cr4 matching_counts [OF 3(4) sh2 len3(2)] c0 by simp
  with run inv5 out show ?thesis by blast
qed

end

section \<open>XY routing keeps the contract\<close>

definition xy_good :: "route_env \<Rightarrow> RoutingUnit \<Rightarrow> RoutingUnit \<Rightarrow> route_glob \<Rightarrow> bool" where
  "xy_good env ru0 ru gl \<longleftrightarrow> routing_table ru = routing_table ru0 \<and> weight_table ru = weight_table ru0
     \<and> outports_dirn2idx ru = outports_dirn2idx ru0 \<and> 0 \<le> re_id env \<and> re_id env < int (length (routerr gl))"

text \<open>A packet for this router has a port in the table; any other packet came in from a direction that XY routing
  allows, and the direction in which it continues is wired.\<close>

definition xy_valid :: "route_env \<Rightarrow> RoutingUnit \<Rightarrow> nat \<Rightarrow> RouteInfo \<Rightarrow> int \<Rightarrow> PortDirection \<Rightarrow> bool" where
  "xy_valid env ru0 ports route i d \<longleftrightarrow> (if dest_router route = re_id env
     then \<forall>g. \<exists>p. lookupRoutingTable env g ru0 (r_vnet route) (net_dest route) = Inr p \<and> 0 \<le> p \<and> p < int ports
     else \<exists>dd p. xy_dirn env (dest_router route) d = Inr dd \<and> outports_dirn2idx ru0 dd = Some p \<and> 0 \<le> p \<and> p < int ports)"

interpretation xyr: routing_contract F "env\<lparr>re_routing_algorithm := 1\<rparr>" ports "xy_good (env\<lparr>re_routing_algorithm := 1\<rparr>) ru0"
  "xy_valid (env\<lparr>re_routing_algorithm := 1\<rparr>) ru0 ports" for F env ports ru0
proof unfold_locales
  let ?e = "env\<lparr>re_routing_algorithm := 1\<rparr>"
  fix ru gl route i d g
  assume good: "xy_good ?e ru0 ru gl" and valid: "xy_valid ?e ru0 ports route i d"
  have look: "lookupRoutingTable ?e g ru v n = lookupRoutingTable ?e g ru0 v n" for v n
    using good by (simp add: lookupRoutingTable_def xy_good_def)
  show "\<exists>p ru' route' gl'. outportCompute F ?e g ru gl route i d = Inr (p, ru', route', gl') \<and> xy_good ?e ru0 ru' gl'
      \<and> 0 \<le> p \<and> p < int ports \<and> xy_valid ?e ru0 ports route' i d"
  proof (cases "dest_router route = re_id ?e")
    case True
    with valid obtain p where "lookupRoutingTable ?e g ru0 (r_vnet route) (net_dest route) = Inr p" "0 \<le> p" "p < int ports"
      by (auto simp: xy_valid_def)
    with True good valid show ?thesis by (auto simp: outportCompute_def look)
  next
    case False
    with valid obtain dd p where x: "xy_dirn ?e (dest_router route) d = Inr dd" "outports_dirn2idx ru0 dd = Some p"
      "0 \<le> p" "p < int ports" by (auto simp: xy_valid_def)
    have "outport_of dd ru = (p, ru)" using x(2) good by (simp add: outport_of_def xy_good_def)
    moreover have "\<exists>gl'. count_route (re_id ?e) gl = Inr gl' \<and> xy_good ?e ru0 ru gl'"
      using good by (auto simp: count_route_def at_ok put_ok xy_good_def)
    ultimately show ?thesis using False x valid
      by (auto simp: outportCompute_def run_algorithm_def to_RoutingAlgorithm_def with_route_def outportComputeXY_def)
  qed
next
  show "xy_valid (env\<lparr>re_routing_algorithm := 1\<rparr>) ru0 ports (route\<lparr>hops_traversed := h\<rparr>) i d"
    if "xy_valid (env\<lparr>re_routing_algorithm := 1\<rparr>) ru0 ports route i d" for route i d h
    using that by (auto simp: xy_valid_def split: if_splits)
next
  show "xy_valid (env\<lparr>re_routing_algorithm := 1\<rparr>) ru0 ports (setTag 1 route) i d"
    if "xy_valid (env\<lparr>re_routing_algorithm := 1\<rparr>) ru0 ports route i d" for route i d
    using that by (auto simp: xy_valid_def setTag_def split: if_splits)
qed

text \<open>Claim C5. One wake-up of a router that runs XY routing with plain, detecting or detouring input units. If the router
  satisfies its invariant, the flits at the heads of its input links obey the flow control and have a valid route,
  and the credits at the heads of its credit links obey the flow control, then the wake-up returns: no assertion fails,
  no vector is accessed out of range, and every component runs to its end. The invariant holds again; every output port
  has sent at most one flit, stamped with its port and with the next clock edge; and the flits in the router's
  buffers and output queues are those that were there before plus one for every input link that had a flit ready, so
  none is lost or duplicated on the way through the units, the allocator and the crossbar.\<close>

theorem router_wakeup_safe:
  assumes "str \<in> {Plain_unit, Valiant_unit} \<union> range Detecting_unit" and "0 < period" and "period dvd re_curTick env"
    and "re_routing_algorithm env = 1" and "router_invariant (xy_good env ru0) ports (re_curTick env) rt"
    and "arrivals_ok (xy_valid env ru0 ports) (router_env env period nd rt) ils rt" and "credits_ok (re_curTick env) cls rt"
  shows "\<exists>rt' ils' cls' qs. router_wakeup str F junk env period nd gs numbers ils cls rt = Inr (rt', ils', cls', qs)
    \<and> router_invariant (xy_good env ru0) ports (re_curTick env) rt'
    \<and> (\<forall>q < ports. \<exists>fs. fb_buffer (ou_outBuffer (rt_output_unit rt' ! q)) = fb_buffer (ou_outBuffer (rt_output_unit rt ! q)) @ fs
         \<and> length fs \<le> 1 \<and> (\<forall>f \<in> set fs. f_outport f = int q \<and> f_time f = re_curTick env + period))
    \<and> buffered rt' + queued rt' = buffered rt + queued rt + ready_links (re_curTick env) ils"
proof -
  have e: "env\<lparr>re_routing_algorithm := 1\<rparr> = env" using assms(4) by simp
  show ?thesis by (rule xyr.router_wakeup_ok [where env = env, unfolded e, OF assms(1-3,5-7)])
qed

definition demo_link :: NetworkLink where
  "demo_link = (NetworkLink_new 0 1 1 [] 128)\<lparr>nl_buffer := \<lparr>fb_buffer = [demo_head], fb_max_size = 10000\<rparr>\<rparr>"

definition demo_idle_router :: Router where
  "demo_idle_router = demo_router\<lparr>rt_input_unit := [demo_input_unit], rt_shared := demo_ports_shared\<rparr>"

theorem router_wakeup_safe_witness:
  "\<exists>rt' ils' cls' qs. router_wakeup Plain_unit int_fp 0 (ie_route (demo_in_env 5)) 500 [] (\<lambda>_ _. demo_draws) (\<lambda>_. [])
     [demo_link] [NetworkLink_new 0 1 1 [] 128] demo_idle_router = Inr (rt', ils', cls', qs)
   \<and> buffered rt' + queued rt' = 1"
proof -
  let ?e = "ie_route (demo_in_env 5)" and ?rt = "demo_idle_router" and ?cl = "NetworkLink_new 0 1 1 [] 128"
  let ?ru = "is_ru demo_ports_shared"
  have e: "re_curTick ?e = 1000" "re_routing_algorithm ?e = 1" "re_id ?e = 5" "re_num_cols ?e = 4" "re_num_rows ?e = 4"
    by (simp_all add: demo_in_env_def)
  have ie: "ie_now (router_env ?e 500 [] ?rt) = 1000" "ie_bit_width (router_env ?e 500 [] ?rt) = 128"
    by (simp_all add: router_env_def e demo_idle_router_def demo_router_def)
  have units: "rt_input_unit ?rt = [demo_input_unit]" "rt_output_unit ?rt = [one_vc 0 IDLE 4]" "rt_sa ?rt = rt_sa demo_router"
    "rt_xbar ?rt = rt_xbar demo_router" by (simp_all add: demo_idle_router_def demo_router_def)
  have "rt_shape demo_router" using demo_router_ok(1) by (simp add: rt_ok_def)
  then have shape: "rt_shape ?rt"
    unfolding rt_shape_def Let_def by (simp add: demo_idle_router_def demo_router_def demo_input_unit_def sa_init_def SwitchAllocator_new_def)
  have "vc_ok 1000 [one_vc 0 IDLE 4] VirtualChannel_new" by (simp add: vc_ok_def VirtualChannel_new_def flitBuffer_new_def)
  moreover have "ou_ok 1 (one_vc 0 IDLE 4)" by (auto simp: ou_ok_def one_vc_def ou_has_vnet_def)
  ultimately have ok: "rt_ok 1000 ?rt"
    using shape by (simp add: rt_ok_def units demo_input_unit_def) (simp add: demo_idle_router_def demo_router_def)
  have "iu_wf demo_input_unit" by (simp add: iu_wf_def demo_input_unit_def hr_ok_def HistoryRecord_new_def)
  moreover have "shared_ok (xy_good ?e ?ru) 1 demo_ports_shared"
    by (simp add: shared_ok_def xy_good_def e demo_ports_shared_def demo_shared_def route_glob_new_def MAXN_def or_ok_def demo_outputs_def eachEn_def)
  moreover have "\<forall>b \<in> set (xb_switchBuffers (rt_xbar ?rt)). fb_buffer b = []"
    by (simp add: units demo_router_def xb_init_def CrossbarSwitch_new_def flitBuffer_new_def)
  ultimately have inv: "router_invariant (xy_good ?e ?ru) 1 1000 ?rt"
    using ok demo_router_ok(2) by (simp add: router_invariant_def units no_requests_def) (simp add: demo_idle_router_def demo_router_def)
  have head: "is_head (f_type demo_head)" "f_vc demo_head = 0" "f_width demo_head = 128" "f_time demo_head = 900"
    "dest_router (f_route demo_head) = 6" "src_router (f_route demo_head) = 5"
    by (simp_all add: demo_head_def flit_new_def flit_kind_def is_head_def RouteInfo_default_def)
  have "xy_dirn ?e 6 ''Local'' = Inr ''East''" by (simp add: xy_dirn_def e Let_def)
  then have "xy_valid ?e ?ru 1 (f_route demo_head) 0 ''Local''"
    by (simp add: xy_valid_def head e demo_ports_shared_def)
  then have arr: "arrivals_ok (xy_valid ?e ?ru 1) (router_env ?e 500 [] ?rt) [demo_link] ?rt"
    using head by (simp add: arrivals_ok_def units demo_link_def arrives_def flit_valid_def ie demo_input_unit_def VirtualChannel_new_def)
  have quiet: "\<not> nl_isReady t ?cl" for t by (simp add: nl_isReady_def NetworkLink_new_def fb_isReady_def flitBuffer_new_def)
  then have cr: "credits_ok 1000 [?cl] ?rt" by (simp add: credits_ok_def units)
  have cnt: "buffered ?rt = 0" "queued ?rt = 0" "ready_links 1000 [demo_link] = 1"
    using head by (simp_all add: buffered_def queued_def unit_flits_def units demo_input_unit_def VirtualChannel_new_def flitBuffer_new_def
        one_vc_def ready_links_def nl_isReady_def demo_link_def fb_isReady_def)
  from router_wakeup_safe [of Plain_unit 500 ?e ?ru 1 ?rt "[]" "[demo_link]" "[?cl]" int_fp 0 "\<lambda>_ _. demo_draws" "\<lambda>_. []"]
  show ?thesis using inv arr cr e cnt by auto
qed

end
