(* ===== verification/Flow_Control.thy ===== *)
theory Flow_Control
  imports Router_Safety
begin

text \<open>
  Credit-based flow control between two neighbours: an output unit, the link to the next router, the input unit at its
  end and the credit link back. The abstract protocol \<open>chan\<close> describes one virtual channel; the hop of the code is
  shown to refine it channel by channel, and the invariant of the protocol gives what the code asserts: a head flit
  finds its channel idle, credit counts stay within their bounds, no buffer overflows, and a channel is freed only when
  everything sent through it has arrived and left.
\<close>

section \<open>The protocol of one channel\<close>

record chan =
  ch_max :: int
  ch_free :: bool                \<comment> \<open>the sender may allocate the channel\<close>
  ch_credits :: int
  ch_open :: bool                \<comment> \<open>the tail of the current packet is still to be sent\<close>
  ch_wire :: "flit_type list"    \<comment> \<open>flits sent and not yet received\<close>
  ch_buf :: "flit_type list"     \<comment> \<open>flits in the buffer of the receiver\<close>
  ch_busy :: bool                \<comment> \<open>the receiver's channel is active\<close>
  ch_back :: "bool list"         \<comment> \<open>credits on their way back, with their free signals\<close>

inductive chan_step :: "chan \<Rightarrow> chan \<Rightarrow> bool" where
  send_head: "ch_free c \<Longrightarrow> 0 < ch_credits c \<Longrightarrow> is_head t \<Longrightarrow>
    chan_step c (c\<lparr>ch_free := False, ch_credits := ch_credits c - 1, ch_open := \<not> is_tail t, ch_wire := ch_wire c @ [t]\<rparr>)"
| send_next: "ch_open c \<Longrightarrow> 0 < ch_credits c \<Longrightarrow> \<not> is_head t \<Longrightarrow>
    chan_step c (c\<lparr>ch_credits := ch_credits c - 1, ch_open := \<not> is_tail t, ch_wire := ch_wire c @ [t]\<rparr>)"
| deliver: "ch_wire c = t # ts \<Longrightarrow> ch_busy c = (\<not> is_head t) \<Longrightarrow>
    chan_step c (c\<lparr>ch_wire := ts, ch_buf := ch_buf c @ [t], ch_busy := True\<rparr>)"
| grant: "ch_buf c = t # ts \<Longrightarrow> (is_tail t \<longrightarrow> ts = []) \<Longrightarrow>
    chan_step c (c\<lparr>ch_buf := ts, ch_busy := ch_busy c \<and> \<not> is_tail t, ch_back := ch_back c @ [is_tail t]\<rparr>)"
| credit: "ch_back c = f # fs \<Longrightarrow> ch_credits c < ch_max c \<Longrightarrow>
    chan_step c (c\<lparr>ch_back := fs, ch_credits := ch_credits c + 1, ch_free := ch_free c \<or> f\<rparr>)"

text \<open>The packet in progress: nothing of it is left when its tail has been credited; before that only its first flit is a
  head, only its last one a tail, and it is complete iff the sender has closed it.\<close>

definition in_progress :: "chan \<Rightarrow> bool" where
  "in_progress c \<longleftrightarrow> (let stream = ch_buf c @ ch_wire c in
     if True \<in> set (ch_back c)
     then \<not> ch_open c \<and> stream = [] \<and> \<not> ch_busy c \<and> last (ch_back c) \<and> True \<notin> set (butlast (ch_back c))
     else (if ch_busy c then \<forall>t \<in> set (ch_wire c). \<not> is_head t
           else ch_buf c = [] \<and> ch_wire c \<noteq> [] \<and> is_head (hd (ch_wire c)) \<and> (\<forall>t \<in> set (tl (ch_wire c)). \<not> is_head t))
       \<and> (if ch_open c then \<forall>t \<in> set stream. \<not> is_tail t
           else stream \<noteq> [] \<and> is_tail (last stream) \<and> (\<forall>t \<in> set (butlast stream). \<not> is_tail t)))"

definition chan_ok :: "chan \<Rightarrow> bool" where
  "chan_ok c \<longleftrightarrow> 0 < ch_max c \<and> 0 \<le> ch_credits c
     \<and> ch_credits c + int (length (ch_wire c)) + int (length (ch_buf c)) + int (length (ch_back c)) = ch_max c
     \<and> (if ch_free c then \<not> ch_open c \<and> ch_wire c = [] \<and> ch_buf c = [] \<and> ch_back c = [] \<and> \<not> ch_busy c else in_progress c)"

lemma chan_ok_deliver:
  assumes "chan_ok c" and "ch_wire c = t # ts"
  shows "ch_busy c = (\<not> is_head t)" and "\<not> ch_free c" and "\<forall>u \<in> set (ch_buf c). \<not> is_tail u"
  using assms by (auto simp: chan_ok_def in_progress_def Let_def butlast_append split: if_splits)

lemma chan_ok_grant:
  assumes "chan_ok c" and "ch_buf c = t # ts"
  shows "is_tail t \<longrightarrow> ts = [] \<and> ch_wire c = []" and "ch_busy c" and "\<not> ch_free c"
  using assms by (auto simp: chan_ok_def in_progress_def Let_def butlast_append split: if_splits)

lemma chan_ok_credit:
  assumes "chan_ok c" and "ch_back c = f # fs"
  shows "ch_credits c < ch_max c" and "f \<longrightarrow> fs = []" and "\<not> ch_free c"
  using assms by (auto simp: chan_ok_def in_progress_def Let_def split: if_splits)

lemma chan_ok_open:
  assumes "chan_ok c" and "ch_open c"
  shows "\<not> ch_free c" and "True \<notin> set (ch_back c)" and "\<forall>t \<in> set (ch_buf c @ ch_wire c). \<not> is_tail t"
  using assms by (auto simp: chan_ok_def in_progress_def Let_def split: if_splits)

lemma chan_step_ok:
  assumes "chan_step c c'" and ok: "chan_ok c"
  shows "chan_ok c'"
  using assms(1)
proof cases
  case (send_head t)
  then show ?thesis using ok by (auto simp: chan_ok_def in_progress_def)
next
  case (send_next t)
  note o = chan_ok_open [OF ok send_next(2)]
  have "ch_busy c \<or> ch_wire c \<noteq> []" using ok o by (auto simp: chan_ok_def in_progress_def Let_def split: if_splits)
  with send_next o ok show ?thesis
    by (cases "ch_wire c") (simp_all add: chan_ok_def in_progress_def Let_def ball_Un butlast_append split: if_splits)
next
  case (deliver t ts)
  note d = chan_ok_deliver [OF ok deliver(2)]
  let ?stream = "ch_buf c @ t # ts"
  have ip: "in_progress c" "0 < ch_max c" "0 \<le> ch_credits c"
    "ch_credits c + int (length (t # ts)) + int (length (ch_buf c)) + int (length (ch_back c)) = ch_max c"
    using ok d(2) deliver(2) by (simp_all add: chan_ok_def)
  then have nb: "True \<notin> set (ch_back c)" using deliver(2) by (auto simp: in_progress_def Let_def split: if_splits)
  have tail: "if ch_open c then \<forall>t \<in> set ?stream. \<not> is_tail t
      else ?stream \<noteq> [] \<and> is_tail (last ?stream) \<and> (\<forall>t \<in> set (butlast ?stream). \<not> is_tail t)"
    using ip(1) nb unfolding in_progress_def Let_def deliver(2) by presburger
  have "\<forall>u \<in> set ts. \<not> is_head u"
    using ip(1) nb unfolding in_progress_def Let_def deliver(2) by (auto split: if_splits)
  with tail nb d(2) ip(2-4) show ?thesis
    unfolding chan_ok_def in_progress_def Let_def deliver(1) by (cases "ch_open c") simp_all
next
  case (grant t ts)
  note g = chan_ok_grant [OF ok grant(2)]
  have nb: "True \<notin> set (ch_back c)" using ok g(3) grant(2) by (auto simp: chan_ok_def in_progress_def Let_def split: if_splits)
  show ?thesis
  proof (cases "is_tail t")
    case True
    then have "\<not> ch_open c" using chan_ok_open(3) [OF ok] grant(2) by auto
    with True g nb grant ok show ?thesis by (simp add: chan_ok_def in_progress_def Let_def)
  next
    case False
    with g nb grant ok show ?thesis
      by (cases "ts @ ch_wire c = []") (simp_all add: chan_ok_def in_progress_def Let_def split: if_splits)
  qed
next
  case (credit f fs)
  note g = chan_ok_credit [OF ok credit(2)]
  show ?thesis
  proof (cases f)
    case True
    with g credit ok show ?thesis by (auto simp: chan_ok_def in_progress_def Let_def)
  next
    case False
    with g credit ok show ?thesis by (cases fs) (simp_all add: chan_ok_def in_progress_def Let_def split: if_splits)
  qed
qed

section \<open>A hop of the network\<close>

text \<open>The units and links of one hop, with the current tick and the set of channels whose packet the sender has not yet
  completed (the input channels of the sending router that hold an output channel).\<close>

record hop =
  hp_now :: Tick
  hp_ou :: OutputUnit
  hp_link :: NetworkLink
  hp_iu :: InputUnit
  hp_clink :: NetworkLink
  hp_open :: "int set"

text \<open>Sending is the part of a grant that concerns the output unit, as \<open>grant_outport\<close> and \<open>xb_send\<close> perform it:
  a head flit gets a free channel, any other flit needs a credit of the channel of its packet.\<close>

definition send_flit :: "nat \<Rightarrow> Tick \<Rightarrow> int \<Rightarrow> flit \<Rightarrow> OutputUnit \<Rightarrow> OutputUnit res" where
  "send_flit period now vc f ou =
     bindR (ou_decrement_credit vc ou) (\<lambda>ou'. Inr (fst (ou_insert_flit period now (f\<lparr>f_vc := vc\<rparr>) ou')))"

inductive hop_step :: "'d fp \<Rightarrow> nat \<Rightarrow> hop \<Rightarrow> hop \<Rightarrow> bool" for F period where
  tick: "hp_now s \<le> t \<Longrightarrow> hop_step F period s (s\<lparr>hp_now := t\<rparr>)"
| head: "is_head (f_type f) \<Longrightarrow> ou_select_free_vc (hp_now s) vnet (hp_ou s) = Inr (vc, ou1) \<Longrightarrow> vc \<noteq> -1 \<Longrightarrow>
    send_flit period (hp_now s) vc f ou1 = Inr ou2 \<Longrightarrow>
    hop_step F period s (s\<lparr>hp_ou := ou2, hp_open := (if is_tail (f_type f) then hp_open s else insert vc (hp_open s))\<rparr>)"
| more: "\<not> is_head (f_type f) \<Longrightarrow> vc \<in> hp_open s \<Longrightarrow> ou_has_credit (hp_now s) vc (hp_ou s) = Inr True \<Longrightarrow>
    send_flit period (hp_now s) vc f (hp_ou s) = Inr ou2 \<Longrightarrow>
    hop_step F period s (s\<lparr>hp_ou := ou2, hp_open := (if is_tail (f_type f) then hp_open s - {vc} else hp_open s)\<rparr>)"
| link: "nl_wakeup period (hp_now s) (Some (ou_outBuffer (hp_ou s))) (hp_link s) = Inr (b, l, reqs) \<Longrightarrow>
    hop_step F period s (s\<lparr>hp_ou := (hp_ou s)\<lparr>ou_outBuffer := b\<rparr>, hp_link := l\<rparr>)"
| receive: "nl_isReady (hp_now s) (hp_link s) \<Longrightarrow> nl_consumeLink (hp_link s) = Inr (fl, l) \<Longrightarrow> ie_now ie = hp_now s \<Longrightarrow>
    receive_flit F ie g rec fl (hp_iu s) sh = Inr (iu, sh', reqs) \<Longrightarrow>
    hop_step F period s (s\<lparr>hp_link := l, hp_iu := iu\<rparr>)"
| leave: "iu_getTopFlit invc (hp_iu s) = Inr (f, iu1) \<Longrightarrow> ie_now ie = hp_now s \<Longrightarrow>
    release_invc ie invc (f_type f) iu1 = Inr (iu2, reqs) \<Longrightarrow> hop_step F period s (s\<lparr>hp_iu := iu2\<rparr>)"
| credit_link: "nl_wakeup period (hp_now s) (Some (iu_creditQueue (hp_iu s))) (hp_clink s) = Inr (b, l, reqs) \<Longrightarrow>
    hop_step F period s (s\<lparr>hp_iu := (hp_iu s)\<lparr>iu_creditQueue := b\<rparr>, hp_clink := l\<rparr>)"
| credit: "ou_wakeup (hp_now s) (hp_clink s) (hp_ou s) = Inr (l, ou, reqs) \<Longrightarrow>
    hop_step F period s (s\<lparr>hp_clink := l, hp_ou := ou\<rparr>)"

definition hop_start :: "net_conf \<Rightarrow> nat \<Rightarrow> hop \<Rightarrow> bool" where
  "hop_start nc per s \<longleftrightarrow>
     (\<exists>oid d d' iid. OutputUnit_new nc oid d per = Inr (hp_ou s) \<and> InputUnit_new iid d' (per * nc_num_vnets nc) per = Inr (hp_iu s))
     \<and> fb_buffer (nl_buffer (hp_link s)) = [] \<and> fb_buffer (nl_buffer (hp_clink s)) = [] \<and> hp_open s = {}"

section \<open>The channels of a hop\<close>

definition hop_wire :: "hop \<Rightarrow> flit list" where
  "hop_wire s = fb_buffer (nl_buffer (hp_link s)) @ fb_buffer (ou_outBuffer (hp_ou s))"

definition hop_back :: "hop \<Rightarrow> flit list" where
  "hop_back s = fb_buffer (nl_buffer (hp_clink s)) @ fb_buffer (iu_creditQueue (hp_iu s))"

definition on_vc :: "nat \<Rightarrow> flit list \<Rightarrow> flit list" where
  "on_vc k fs = filter (\<lambda>f. f_vc f = int k) fs"

definition chan_of :: "hop \<Rightarrow> nat \<Rightarrow> chan" where
  "chan_of s k = (let w = ou_outVcState (hp_ou s) ! k; v = iu_virtualChannels (hp_iu s) ! k in
     \<lparr>ch_max = ov_max_credit_count w, ch_free = (ov_vc_state w = IDLE), ch_credits = ov_credit_count w,
      ch_open = (int k \<in> hp_open s), ch_wire = map f_type (on_vc k (hop_wire s)), ch_buf = map f_type (vc_flits v),
      ch_busy = (fst (vc_state v) = ACTIVE), ch_back = map f_is_free_signal (on_vc k (hop_back s))\<rparr>)"

lemma chan_of_fields:
  "ch_max (chan_of s k) = ov_max_credit_count (ou_outVcState (hp_ou s) ! k)"
  "ch_free (chan_of s k) = (ov_vc_state (ou_outVcState (hp_ou s) ! k) = IDLE)"
  "ch_credits (chan_of s k) = ov_credit_count (ou_outVcState (hp_ou s) ! k)"
  "ch_open (chan_of s k) = (int k \<in> hp_open s)"
  "ch_wire (chan_of s k) = map f_type (on_vc k (hop_wire s))"
  "ch_buf (chan_of s k) = map f_type (vc_flits (iu_virtualChannels (hp_iu s) ! k))"
  "ch_busy (chan_of s k) = (fst (vc_state (iu_virtualChannels (hp_iu s) ! k)) = ACTIVE)"
  "ch_back (chan_of s k) = map f_is_free_signal (on_vc k (hop_back s))"
  by (simp_all add: chan_of_def Let_def)

definition hop_wf :: "hop \<Rightarrow> bool" where
  "hop_wf s \<longleftrightarrow> (let n = length (ou_outVcState (hp_ou s)) in length (iu_virtualChannels (hp_iu s)) = n
     \<and> (\<forall>f \<in> set (hop_wire s @ hop_back s). 0 \<le> f_vc f \<and> f_vc f < int n) \<and> (\<forall>k \<in> hp_open s. 0 \<le> k \<and> k < int n)
     \<and> (\<forall>w \<in> set (ou_outVcState (hp_ou s)). ov_time w \<le> hp_now s \<and> ov_vc_state w \<in> {IDLE, ACTIVE})
     \<and> (\<forall>v \<in> set (iu_virtualChannels (hp_iu s)). fst (vc_state v) \<in> {IDLE, ACTIVE}))"

definition hop_ok :: "hop \<Rightarrow> bool" where
  "hop_ok s \<longleftrightarrow> hop_wf s \<and> (\<forall>k < length (ou_outVcState (hp_ou s)). chan_ok (chan_of s k))"

section \<open>Refinement\<close>

definition refines :: "hop \<Rightarrow> hop \<Rightarrow> bool" where
  "refines s s' \<longleftrightarrow> hop_wf s' \<and> length (ou_outVcState (hp_ou s')) = length (ou_outVcState (hp_ou s))
     \<and> (\<forall>k < length (ou_outVcState (hp_ou s)). chan_of s' k = chan_of s k \<or> chan_step (chan_of s k) (chan_of s' k))"

lemma refinesI:
  assumes "hop_wf s'" and "length (ou_outVcState (hp_ou s')) = length (ou_outVcState (hp_ou s))"
    and "\<And>k. k \<noteq> j \<Longrightarrow> k < length (ou_outVcState (hp_ou s)) \<Longrightarrow> chan_of s' k = chan_of s k"
    and "j < length (ou_outVcState (hp_ou s)) \<Longrightarrow> chan_step (chan_of s j) (chan_of s' j)"
  shows "refines s s'"
  using assms unfolding refines_def by metis

lemma on_vc_append [simp]: "on_vc k (xs @ ys) = on_vc k xs @ on_vc k ys"
  by (simp add: on_vc_def)

lemma on_vc_Nil [simp]: "on_vc k [] = []"
  by (simp add: on_vc_def)

lemma on_vc_Cons: "on_vc k (x # xs) = (if f_vc x = int k then x # on_vc k xs else on_vc k xs)"
  by (simp add: on_vc_def)

lemma nl_wakeup_keeps:
  assumes "nl_wakeup period now (Some src) l = Inr (b, l', reqs)"
  shows "map untimed (fb_buffer (nl_buffer l') @ fb_buffer b) = map untimed (fb_buffer (nl_buffer l) @ fb_buffer src)"
  using assms
  by (auto simp: nl_wakeup_def bindR_Inr_iff fb_getTopFlit_def fb_insert_def Let_def split: if_splits list.splits)

lemma untimed_fields:
  assumes "map untimed xs = map untimed ys"
  shows "map f_type (on_vc k xs) = map f_type (on_vc k ys)"
    and "map f_is_free_signal (on_vc k xs) = map f_is_free_signal (on_vc k ys)"
    and "f_vc ` set xs = f_vc ` set ys"
proof -
  have f: "f_type f = f_type (untimed f)" "f_vc f = f_vc (untimed f)" "f_is_free_signal f = f_is_free_signal (untimed f)" for f
    by (simp_all add: untimed_def)
  have "map f_type (on_vc k zs) = map f_type (on_vc k (map untimed zs))"
    "map f_is_free_signal (on_vc k zs) = map f_is_free_signal (on_vc k (map untimed zs))"
    "f_vc ` set zs = f_vc ` set (map untimed zs)" for zs
    by (induction zs) (auto simp: on_vc_Cons simp flip: f)
  with assms show "map f_type (on_vc k xs) = map f_type (on_vc k ys)"
    "map f_is_free_signal (on_vc k xs) = map f_is_free_signal (on_vc k ys)" "f_vc ` set xs = f_vc ` set ys" by metis+
qed

lemma ball_f_vc: "(\<forall>f \<in> set xs. P (f_vc f)) \<longleftrightarrow> (\<forall>v \<in> f_vc ` set xs. P v)"
  by simp

lemma select_free_vc_state:
  assumes "ou_select_free_vc now vnet u = Inr (vc, u')" and "vc \<noteq> -1"
  shows "0 \<le> vc" and "vc < int (length (ou_outVcState u))" and "ov_vc_state (ou_outVcState u ! nat vc) = IDLE"
    and "u' = u\<lparr>ou_outVcState := (ou_outVcState u)[nat vc := ov_setState ACTIVE now (ou_outVcState u ! nat vc)]\<rparr>"
proof -
  from assms(1) obtain r where r: "ou_first_idle now u (vc_range vnet (ou_vc_per_vnet u)) = Inr r"
      "(case r of None \<Rightarrow> Inr (-1, u) | Some k \<Rightarrow> bindR (ou_set_vc_state ACTIVE k now u) (\<lambda>u'. Inr (k, u'))) = Inr (vc, u')"
    unfolding ou_select_free_vc_def by (rule bindR_InrE)
  with assms(2) have vc: "r = Some vc" "ou_set_vc_state ACTIVE vc now u = Inr u'"
    by (auto simp: bindR_Inr_iff split: option.splits)
  then show "0 \<le> vc" and "vc < int (length (ou_outVcState u))"
    and "u' = u\<lparr>ou_outVcState := (ou_outVcState u)[nat vc := ov_setState ACTIVE now (ou_outVcState u ! nat vc)]\<rparr>"
    by (auto simp: ou_set_vc_state_def ou_on_vc_Inr_iff)
  have "ou_state vc u = Some IDLE" using ou_first_idle_SomeD r(1) vc(1) by blast
  then show "ov_vc_state (ou_outVcState u ! nat vc) = IDLE" by (auto simp: ou_state_def split: if_splits)
qed

lemma send_flit_Inr:
  assumes "send_flit period now vc f ou = Inr ou'"
  defines "w \<equiv> ou_outVcState ou ! nat vc"
  shows "0 \<le> vc" and "vc < int (length (ou_outVcState ou))" and "0 < ov_credit_count w"
    and "ou' = ou\<lparr>ou_outVcState := (ou_outVcState ou)[nat vc := w\<lparr>ov_credit_count := ov_credit_count w - 1\<rparr>],
      ou_outBuffer := fb_insert (f\<lparr>f_vc := vc\<rparr>) (ou_outBuffer ou)\<rparr>"
  using assms by (auto simp: send_flit_def bindR_Inr_iff ou_decrement_credit_def ou_on_vc_Inr_iff ov_decrement_Inr_iff ou_insert_flit_def)

text \<open>The step that sends: one output channel changes and one flit enters the wire.\<close>

lemma chan_of_send:
  fixes w :: OutVcState
  assumes "0 \<le> vc" and "vc < int (length (ou_outVcState (hp_ou s)))" and "f_vc f = vc" and "\<forall>j. j \<noteq> vc \<longrightarrow> (j \<in> op \<longleftrightarrow> j \<in> hp_open s)"
    and "ov_max_credit_count w = ov_max_credit_count (ou_outVcState (hp_ou s) ! nat vc)"
  defines "s' \<equiv> s\<lparr>hp_ou := (hp_ou s)\<lparr>ou_outVcState := (ou_outVcState (hp_ou s))[nat vc := w],
      ou_outBuffer := fb_insert f (ou_outBuffer (hp_ou s))\<rparr>, hp_open := op\<rparr>"
  shows "k \<noteq> nat vc \<Longrightarrow> chan_of s' k = chan_of s k"
    and "chan_of s' (nat vc) = (chan_of s (nat vc))\<lparr>ch_free := (ov_vc_state w = IDLE),
      ch_credits := ov_credit_count w, ch_open := (vc \<in> op), ch_wire := ch_wire (chan_of s (nat vc)) @ [f_type f]\<rparr>"
  using assms by (auto simp: chan_of_def Let_def hop_wire_def hop_back_def fb_insert_def on_vc_Cons)

lemma hop_wf_send:
  assumes "hop_wf s" and "0 \<le> vc" and "vc < int (length (ou_outVcState (hp_ou s)))" and "f_vc f = vc" and "op \<subseteq> insert vc (hp_open s)"
    and "ov_time w \<le> hp_now s" and "ov_vc_state w = ACTIVE"
  shows "hop_wf (s\<lparr>hp_ou := (hp_ou s)\<lparr>ou_outVcState := (ou_outVcState (hp_ou s))[nat vc := w],
      ou_outBuffer := fb_insert f (ou_outBuffer (hp_ou s))\<rparr>, hp_open := op\<rparr>)"
  using assms
  by (auto simp: hop_wf_def Let_def hop_wire_def hop_back_def fb_insert_def dest!: set_update_subset_insert [THEN subsetD])

lemma hop_head_refines:
  assumes ok: "hop_ok s" and h: "is_head (f_type f)" and sel: "ou_select_free_vc (hp_now s) vnet (hp_ou s) = Inr (vc, ou1)" "vc \<noteq> -1"
    and send: "send_flit period (hp_now s) vc f ou1 = Inr ou2"
  shows "refines s (s\<lparr>hp_ou := ou2, hp_open := (if is_tail (f_type f) then hp_open s else insert vc (hp_open s))\<rparr>)" (is "refines s ?s'")
proof -
  define op where "op = (if is_tail (f_type f) then hp_open s else insert vc (hp_open s))"
  define w where "w = ou_outVcState (hp_ou s) ! nat vc"
  define w' where "w' = (ov_setState ACTIVE (hp_now s) w)\<lparr>ov_credit_count := ov_credit_count w - 1\<rparr>"
  note a = select_free_vc_state [OF sel, folded w_def] and b = send_flit_Inr [OF send]
  have s': "?s' = s\<lparr>hp_ou := (hp_ou s)\<lparr>ou_outVcState := (ou_outVcState (hp_ou s))[nat vc := w'],
      ou_outBuffer := fb_insert (f\<lparr>f_vc := vc\<rparr>) (ou_outBuffer (hp_ou s))\<rparr>, hp_open := op\<rparr>"
    and c: "0 < ov_credit_count w" using a b by (simp_all add: ov_setState_def op_def w'_def)
  have n: "nat vc < length (ou_outVcState (hp_ou s))" using a(1,2) by simp
  have free: "ch_free (chan_of s (nat vc))" using a(3) by (simp add: chan_of_fields w_def)
  have "chan_ok (chan_of s (nat vc))" using ok n by (simp add: hop_ok_def)
  with free have nop: "vc \<notin> hp_open s" using a(1) by (simp add: chan_ok_def chan_of_fields)
  have op: "\<forall>j. j \<noteq> vc \<longrightarrow> (j \<in> op \<longleftrightarrow> j \<in> hp_open s)" "(vc \<in> op) = (\<not> is_tail (f_type f))" "op \<subseteq> insert vc (hp_open s)"
    using nop by (auto simp: op_def)
  have mx: "ov_max_credit_count w' = ov_max_credit_count (ou_outVcState (hp_ou s) ! nat vc)"
    by (simp add: w'_def w_def ov_setState_def)
  have st: "ov_vc_state w' = ACTIVE" "ov_time w' = hp_now s" "ov_credit_count w' = ov_credit_count w - 1"
    by (simp_all add: w'_def ov_setState_def)
  have fv: "f_vc (f\<lparr>f_vc := vc\<rparr>) = vc" "f_type (f\<lparr>f_vc := vc\<rparr>) = f_type f" by simp_all
  note co = chan_of_send [OF a(1,2) fv(1) op(1) mx]
  show ?thesis
    unfolding s'
  proof (rule refinesI [where j = "nat vc"])
    show "hop_wf (s\<lparr>hp_ou := (hp_ou s)\<lparr>ou_outVcState := (ou_outVcState (hp_ou s))[nat vc := w'],
        ou_outBuffer := fb_insert (f\<lparr>f_vc := vc\<rparr>) (ou_outBuffer (hp_ou s))\<rparr>, hp_open := op\<rparr>)"
      using ok by (intro hop_wf_send [OF _ a(1,2) fv(1) op(3)]) (simp_all add: hop_ok_def st)
  next
    show "chan_step (chan_of s (nat vc)) (chan_of (s\<lparr>hp_ou := (hp_ou s)\<lparr>ou_outVcState := (ou_outVcState (hp_ou s))[nat vc := w'],
        ou_outBuffer := fb_insert (f\<lparr>f_vc := vc\<rparr>) (ou_outBuffer (hp_ou s))\<rparr>, hp_open := op\<rparr>) (nat vc))"
      unfolding co(2) using chan_step.send_head [OF free _ h] c by (simp add: st op(2) chan_of_fields w_def)
  qed (simp_all add: co(1))
qed

lemma hop_more_refines:
  assumes ok: "hop_ok s" and h: "\<not> is_head (f_type f)" and opn: "vc \<in> hp_open s" and cr: "ou_has_credit (hp_now s) vc (hp_ou s) = Inr True"
    and send: "send_flit period (hp_now s) vc f (hp_ou s) = Inr ou2"
  shows "refines s (s\<lparr>hp_ou := ou2, hp_open := (if is_tail (f_type f) then hp_open s - {vc} else hp_open s)\<rparr>)" (is "refines s ?s'")
proof -
  define op where "op = (if is_tail (f_type f) then hp_open s - {vc} else hp_open s)"
  define w where "w = ou_outVcState (hp_ou s) ! nat vc"
  define w' where "w' = w\<lparr>ov_credit_count := ov_credit_count w - 1\<rparr>"
  note b = send_flit_Inr [OF send, folded w_def]
  have s': "?s' = s\<lparr>hp_ou := (hp_ou s)\<lparr>ou_outVcState := (ou_outVcState (hp_ou s))[nat vc := w'],
      ou_outBuffer := fb_insert (f\<lparr>f_vc := vc\<rparr>) (ou_outBuffer (hp_ou s))\<rparr>, hp_open := op\<rparr>"
    using b(4) by (simp add: op_def w'_def)
  have n: "nat vc < length (ou_outVcState (hp_ou s))" using b(1,2) by simp
  have act: "ov_isInState ACTIVE (hp_now s) w"
    using cr by (auto simp: ou_has_credit_def bindR_Inr_iff at_Inr_iff assertR_Inr_iff w_def)
  have op: "\<forall>j. j \<noteq> vc \<longrightarrow> (j \<in> op \<longleftrightarrow> j \<in> hp_open s)" "(vc \<in> op) = (\<not> is_tail (f_type f))" "op \<subseteq> insert vc (hp_open s)"
    using opn by (auto simp: op_def)
  have mx: "ov_max_credit_count w' = ov_max_credit_count (ou_outVcState (hp_ou s) ! nat vc)" by (simp add: w'_def w_def)
  have st: "ov_vc_state w' = ACTIVE" "ov_time w' \<le> hp_now s" "ov_credit_count w' = ov_credit_count w - 1" "ov_vc_state w = ACTIVE"
    using act by (simp_all add: w'_def ov_isInState_def)
  have fv: "f_vc (f\<lparr>f_vc := vc\<rparr>) = vc" "f_type (f\<lparr>f_vc := vc\<rparr>) = f_type f" by simp_all
  note co = chan_of_send [OF b(1,2) fv(1) op(1) mx]
  have chopen: "ch_open (chan_of s (nat vc))" "\<not> ch_free (chan_of s (nat vc))" using opn b(1) st(4) by (simp_all add: chan_of_fields w_def)
  show ?thesis
    unfolding s'
  proof (rule refinesI [where j = "nat vc"])
    show "hop_wf (s\<lparr>hp_ou := (hp_ou s)\<lparr>ou_outVcState := (ou_outVcState (hp_ou s))[nat vc := w'],
        ou_outBuffer := fb_insert (f\<lparr>f_vc := vc\<rparr>) (ou_outBuffer (hp_ou s))\<rparr>, hp_open := op\<rparr>)"
      using ok by (intro hop_wf_send [OF _ b(1,2) fv(1) op(3)]) (simp_all add: hop_ok_def st)
  next
    have "C\<lparr>ch_free := False, ch_credits := x, ch_open := y, ch_wire := z\<rparr> = C\<lparr>ch_credits := x, ch_open := y, ch_wire := z\<rparr>"
      if "\<not> ch_free C" for C x y z using that by (cases C) simp
    note eq = this [OF chopen(2)]
    have "0 < ch_credits (chan_of s (nat vc))" "ov_vc_state w' \<noteq> IDLE" "ov_credit_count w' = ch_credits (chan_of s (nat vc)) - 1"
      using b(3) st by (simp_all add: chan_of_fields w_def)
    then show "chan_step (chan_of s (nat vc)) (chan_of (s\<lparr>hp_ou := (hp_ou s)\<lparr>ou_outVcState := (ou_outVcState (hp_ou s))[nat vc := w'],
        ou_outBuffer := fb_insert (f\<lparr>f_vc := vc\<rparr>) (ou_outBuffer (hp_ou s))\<rparr>, hp_open := op\<rparr>) (nat vc))"
      unfolding co(2) op(2) fv(2) using chan_step.send_next [OF chopen(1) _ h] by (simp add: eq)
  qed (simp_all add: co(1))
qed

lemma refines_same:
  assumes "hop_ok s" and "ou_outVcState (hp_ou s') = ou_outVcState (hp_ou s)" and "iu_virtualChannels (hp_iu s') = iu_virtualChannels (hp_iu s)"
    and "hp_open s' = hp_open s" and "hp_now s \<le> hp_now s'"
    and "map untimed (hop_wire s') = map untimed (hop_wire s)" and "map untimed (hop_back s') = map untimed (hop_back s)"
  shows "refines s s'"
proof -
  have "chan_of s' k = chan_of s k" for k
    using assms(2-4) untimed_fields(1) [OF assms(6)] untimed_fields(2) [OF assms(7)] by (simp add: chan_of_def Let_def)
  moreover have "hop_wf s'"
  proof -
    have "f_vc ` set (hop_wire s' @ hop_back s') = f_vc ` set (hop_wire s @ hop_back s)"
      using untimed_fields(3) [OF assms(6)] untimed_fields(3) [OF assms(7)] by (simp add: image_Un)
    with assms(1-5) show ?thesis
      unfolding hop_ok_def hop_wf_def Let_def ball_f_vc [where P = "\<lambda>v. 0 \<le> v \<and> v < _"] by (auto intro: order_trans)
  qed
  ultimately show ?thesis using assms(2) by (simp add: refines_def)
qed

lemma receive_flit_effect:
  assumes "receive_flit F ie g rec fl iu sh = Inr (iu', sh', reqs)"
  obtains t v' where "0 \<le> f_vc fl" and "f_vc fl < int (length (iu_virtualChannels iu))" and "f_type t = f_type fl"
    and "iu_virtualChannels iu' = (iu_virtualChannels iu)[nat (f_vc fl) := v']"
    and "vc_flits v' = vc_flits (iu_virtualChannels iu ! nat (f_vc fl)) @ [t]" and "fst (vc_state v') = ACTIVE"
    and "fst (vc_state (iu_virtualChannels iu ! nat (f_vc fl))) = (if is_head (f_type fl) then IDLE else ACTIVE)"
    and "iu_creditQueue iu' = iu_creditQueue iu"
  using assms
proof (rule receive_flitE)
  fix v t1 iu1 iu2 t2
  assume v: "at (iu_virtualChannels iu) (f_vc fl) = Inr v"
    and r: "if is_head (f_type fl)
         then fst (vc_state v) = IDLE \<and> route_head F ie g rec (increment_hops fl) iu sh = Inr (t1, iu1, sh')
         else fst (vc_state v) = ACTIVE \<and> t1 = increment_hops fl \<and> iu1 = iu \<and> sh' = sh"
    and c: "count_access (f_vc fl sdiv iu_vc_per_vnet iu) iu1 = Inr iu2"
    and e: "enter_pipeline ie t1 = Inr (t2, reqs)" and ins: "iu_insertFlit (f_vc fl) t2 iu2 = Inr iu'"
  let ?vc = "nat (f_vc fl)"
  have vc: "0 \<le> f_vc fl" "f_vc fl < int (length (iu_virtualChannels iu))" "v = iu_virtualChannels iu ! ?vc"
    using v by (simp_all add: at_Inr_iff)
  have "\<exists>v1. iu_virtualChannels iu1 = (iu_virtualChannels iu)[?vc := v1] \<and> vc_flits v1 = vc_flits v \<and> fst (vc_state v1) = ACTIVE
      \<and> f_type t1 = f_type fl \<and> iu_creditQueue iu1 = iu_creditQueue iu"
  proof (cases "is_head (f_type fl)")
    case True
    with r have "route_head F ie g rec (increment_hops fl) iu sh = Inr (t1, iu1, sh')" by simp
    then show ?thesis
      using vc by (auto simp: route_head_def bindR_Inr_iff iu_set_vc_active_def iu_grant_outport_def iu_on_vc_Inr_iff vc_set_active_def
          split: prod.splits)
  next
    case False
    with r vc show ?thesis by (auto intro!: exI [of _ v])
  qed
  then obtain v1 where v1: "iu_virtualChannels iu1 = (iu_virtualChannels iu)[?vc := v1]" "vc_flits v1 = vc_flits v"
    "fst (vc_state v1) = ACTIVE" "f_type t1 = f_type fl" "iu_creditQueue iu1 = iu_creditQueue iu" by blast
  have t2: "f_type t2 = f_type t1" using e by (auto simp: enter_pipeline_def Let_def bindR_Inr_iff advance_stage_def split: if_splits)
  have iu2: "iu_virtualChannels iu2 = iu_virtualChannels iu1" "iu_creditQueue iu2 = iu_creditQueue iu1"
    using c by (auto simp: count_access_Inr_iff)
  have "iu_virtualChannels iu' = (iu_virtualChannels iu)[?vc := vc_insertFlit t2 v1]" "iu_creditQueue iu' = iu_creditQueue iu"
    using ins vc v1 iu2 by (auto simp: iu_insertFlit_def iu_on_vc_Inr_iff)
  then show thesis
    using that [of t2 "vc_insertFlit t2 v1"] vc v1 t2 r by (auto simp: vc_insertFlit_def fb_insert_def split: if_splits)
qed

lemma hop_receive_refines:
  assumes ok: "hop_ok s" and con: "nl_consumeLink (hp_link s) = Inr (fl, l)"
    and rcv: "receive_flit F ie g rec fl (hp_iu s) sh = Inr (iu, sh', reqs)"
  shows "refines s (s\<lparr>hp_link := l, hp_iu := iu\<rparr>)" (is "refines s ?s'")
proof -
  from rcv obtain t v' where e: "0 \<le> f_vc fl" "f_vc fl < int (length (iu_virtualChannels (hp_iu s)))" "f_type t = f_type fl"
    "iu_virtualChannels iu = (iu_virtualChannels (hp_iu s))[nat (f_vc fl) := v']"
    "vc_flits v' = vc_flits (iu_virtualChannels (hp_iu s) ! nat (f_vc fl)) @ [t]" "fst (vc_state v') = ACTIVE"
    "fst (vc_state (iu_virtualChannels (hp_iu s) ! nat (f_vc fl))) = (if is_head (f_type fl) then IDLE else ACTIVE)"
    "iu_creditQueue iu = iu_creditQueue (hp_iu s)" by (rule receive_flit_effect)
  let ?j = "nat (f_vc fl)"
  from con obtain fs where l: "fb_buffer (nl_buffer (hp_link s)) = fl # fs" "l = (hp_link s)\<lparr>nl_buffer := (nl_buffer (hp_link s))\<lparr>fb_buffer := fs\<rparr>\<rparr>"
    by (auto simp: nl_consumeLink_def bindR_Inr_iff fb_getTopFlit_def split: list.splits)
  have w: "hop_wire s = fl # hop_wire ?s'" "hop_back ?s' = hop_back s" using l e(8) by (simp_all add: hop_wire_def hop_back_def)
  have wf: "hop_wf s" using ok by (simp add: hop_ok_def)
  show ?thesis
  proof (rule refinesI [where j = ?j])
    have "\<forall>v \<in> set (iu_virtualChannels iu). fst (vc_state v) \<in> {IDLE, ACTIVE}"
      using wf e(4,6) by (auto simp: hop_wf_def Let_def dest!: set_update_subset_insert [THEN subsetD])
    with wf e(4) w show "hop_wf ?s'" by (simp add: hop_wf_def Let_def)
    show "chan_of ?s' k = chan_of s k" if "k \<noteq> ?j" for k
    proof -
      have "f_vc fl \<noteq> int k" using that e(1) by auto
      then show ?thesis using that e(4) w by (simp add: chan_of_def Let_def on_vc_Cons)
    qed
    have st: "ch_wire (chan_of s ?j) = f_type fl # map f_type (on_vc ?j (hop_wire ?s'))" using e(1) by (simp add: chan_of_fields w(1) on_vc_Cons)
    have "ch_busy (chan_of s ?j) = (\<not> is_head (f_type fl))" using e(7) by (simp add: chan_of_fields)
    note step = chan_step.deliver [OF st this]
    have "chan_of ?s' ?j = (chan_of s ?j)\<lparr>ch_wire := map f_type (on_vc ?j (hop_wire ?s')), ch_buf := ch_buf (chan_of s ?j) @ [f_type fl], ch_busy := True\<rparr>"
      using e(1-6) by (simp add: chan_of_def Let_def w(2))
    with step show "chan_step (chan_of s ?j) (chan_of ?s' ?j)" by simp
  qed simp
qed

lemma hop_leave_refines:
  assumes ok: "hop_ok s" and get: "iu_getTopFlit invc (hp_iu s) = Inr (f, iu1)" and rel: "release_invc ie invc (f_type f) iu1 = Inr (iu2, reqs)"
  shows "refines s (s\<lparr>hp_iu := iu2\<rparr>)" (is "refines s ?s'")
proof -
  let ?j = "nat invc"
  let ?v = "iu_virtualChannels (hp_iu s) ! ?j"
  from get obtain fs where g: "0 \<le> invc" "invc < int (length (iu_virtualChannels (hp_iu s)))" "vc_flits ?v = f # fs"
    by (auto simp: iu_getTopFlit_def bindR_Inr_iff at_Inr_iff vc_getTopFlit_def fb_getTopFlit_def split: list.splits prod.splits)
  have wf: "hop_wf s" using ok by (simp add: hop_ok_def)
  then have len: "length (iu_virtualChannels (hp_iu s)) = length (ou_outVcState (hp_ou s))" by (simp add: hop_wf_def Let_def)
  have cok: "chan_ok (chan_of s ?j)" using ok g len by (simp add: hop_ok_def)
  have buf: "ch_buf (chan_of s ?j) = f_type f # map f_type fs" using g(3) by (simp add: chan_of_fields)
  note cg = chan_ok_grant [OF cok buf]
  have "is_tail (f_type f) \<longrightarrow> fs = []" using cg(1) by simp
  from release_eq [OF g this, of ie] get rel have iu2: "iu2 = (hp_iu s)\<lparr>iu_virtualChannels := (iu_virtualChannels (hp_iu s))[?j := pop_vc (ie_now ie) ?v],
      iu_creditQueue := fb_insert (credit_for ie invc (is_tail (f_type f))) (iu_creditQueue (hp_iu s))\<rparr>" by auto
  have cr: "f_vc (credit_for ie invc b) = invc" "f_is_free_signal (credit_for ie invc b) = b" for b
    by (simp_all add: credit_for_def Credit_new_def flit_new_def)
  have pop: "fst (vc_state (pop_vc (ie_now ie) ?v)) = (if is_tail (f_type f) then IDLE else fst (vc_state ?v))"
    using g(3) by (simp add: pop_vc_def Let_def vc_set_idle_def)
  have bk: "hop_back ?s' = hop_back s @ [credit_for ie invc (is_tail (f_type f))]" "hop_wire ?s' = hop_wire s"
    by (simp_all add: hop_back_def hop_wire_def iu2 fb_insert_def)
  show ?thesis
  proof (rule refinesI [where j = ?j])
    have "?v \<in> set (iu_virtualChannels (hp_iu s))" using g(1,2) by simp
    then have "fst (vc_state ?v) \<in> {IDLE, ACTIVE}" using wf unfolding hop_wf_def Let_def by blast
    then have "fst (vc_state (pop_vc (ie_now ie) ?v)) \<in> {IDLE, ACTIVE}" by (simp add: pop)
    then have "\<forall>v \<in> set (iu_virtualChannels iu2). fst (vc_state v) \<in> {IDLE, ACTIVE}"
      using wf unfolding iu2 by (auto simp: hop_wf_def Let_def dest!: set_update_subset_insert [THEN subsetD])
    moreover have "length (iu_virtualChannels iu2) = length (iu_virtualChannels (hp_iu s))" by (simp add: iu2)
    ultimately show "hop_wf ?s'" using wf bk g(1,2) len cr(1) by (auto simp: hop_wf_def Let_def)
    show "chan_of ?s' k = chan_of s k" if "k \<noteq> ?j" for k
    proof -
      have "invc \<noteq> int k" using that g(1) by auto
      then show ?thesis using that by (simp add: chan_of_def Let_def bk on_vc_Cons cr) (simp add: iu2)
    qed
    have "is_tail (f_type f) \<longrightarrow> map f_type fs = []" using cg(1) by simp
    note step = chan_step.grant [OF buf this]
    have "chan_of ?s' ?j = (chan_of s ?j)\<lparr>ch_buf := map f_type fs, ch_busy := ch_busy (chan_of s ?j) \<and> \<not> is_tail (f_type f),
        ch_back := ch_back (chan_of s ?j) @ [is_tail (f_type f)]\<rparr>"
      using g by (simp add: chan_of_def Let_def bk on_vc_Cons cr) (simp add: iu2 pop)
    with step show "chan_step (chan_of s ?j) (chan_of ?s' ?j)" by simp
  qed simp
qed

lemma hop_credit_refines:
  assumes ok: "hop_ok s" and w: "ou_wakeup (hp_now s) (hp_clink s) (hp_ou s) = Inr (l, ou, reqs)"
  shows "refines s (s\<lparr>hp_clink := l, hp_ou := ou\<rparr>)" (is "refines s ?s'")
proof (cases "nl_isReady (hp_now s) (hp_clink s)")
  case False
  then have "?s' = s" using w by (simp add: ou_wakeup_def)
  with ok show ?thesis by (intro refines_same) simp_all
next
  case True
  from w True obtain c cl u1 where c: "nl_consumeLink (hp_clink s) = Inr (c, cl)" "ou_increment_credit (f_vc c) (hp_ou s) = Inr u1"
    "(if f_is_free_signal c then ou_set_vc_state IDLE (f_vc c) (hp_now s) u1 else Inr u1) = Inr ou" "l = cl"
    by (auto simp: ou_wakeup_def bindR_Inr_iff split: prod.splits)
  from c(1) obtain cs where cs: "fb_buffer (nl_buffer (hp_clink s)) = c # cs" "fb_buffer (nl_buffer l) = cs"
    using c(4) by (auto simp: nl_consumeLink_def bindR_Inr_iff fb_getTopFlit_def split: list.splits)
  let ?j = "nat (f_vc c)"
  define x where "x = ou_outVcState (hp_ou s) ! ?j"
  have inc: "0 \<le> f_vc c" "f_vc c < int (length (ou_outVcState (hp_ou s)))" "ov_credit_count x < ov_max_credit_count x"
    "u1 = (hp_ou s)\<lparr>ou_outVcState := (ou_outVcState (hp_ou s))[?j := x\<lparr>ov_credit_count := ov_credit_count x + 1\<rparr>]\<rparr>"
    using c(2) by (auto simp: ou_increment_credit_def ou_on_vc_Inr_iff ov_increment_Inr_iff x_def)
  have ou: "ou = (hp_ou s)\<lparr>ou_outVcState := (ou_outVcState (hp_ou s))[?j := credited_vc (hp_now s) c x]\<rparr>"
    using c(3) inc by (auto simp: ou_set_vc_state_def ou_on_vc_Inr_iff credited_vc_def Let_def split: if_splits)
  have bk: "hop_back s = c # hop_back ?s'" "hop_wire ?s' = hop_wire s" using cs by (simp_all add: hop_back_def hop_wire_def ou)
  have wf: "hop_wf s" and n: "?j < length (ou_outVcState (hp_ou s))" using ok inc by (simp_all add: hop_ok_def)
  have x: "x \<in> set (ou_outVcState (hp_ou s))" using n by (simp add: x_def)
  show ?thesis
  proof (rule refinesI [where j = ?j])
    have "ov_time (credited_vc (hp_now s) c x) \<le> hp_now s \<and> ov_vc_state (credited_vc (hp_now s) c x) \<in> {IDLE, ACTIVE}"
      using wf x by (simp add: hop_wf_def Let_def credited_vc_def ov_setState_def)
    then have "\<forall>w \<in> set (ou_outVcState ou). ov_time w \<le> hp_now s \<and> ov_vc_state w \<in> {IDLE, ACTIVE}"
      using wf unfolding ou by (auto simp: hop_wf_def Let_def dest!: set_update_subset_insert [THEN subsetD])
    moreover have "length (ou_outVcState ou) = length (ou_outVcState (hp_ou s))" by (simp add: ou)
    ultimately show "hop_wf ?s'" using wf bk by (simp add: hop_wf_def Let_def)
    show "chan_of ?s' k = chan_of s k" if "k \<noteq> ?j" for k
    proof -
      have "f_vc c \<noteq> int k" using that inc(1) by auto
      then show ?thesis using that by (simp add: chan_of_def Let_def bk on_vc_Cons) (simp add: ou)
    qed
    have b: "ch_back (chan_of s ?j) = f_is_free_signal c # map f_is_free_signal (on_vc ?j (hop_back ?s'))"
      using inc(1) by (simp add: chan_of_fields bk(1) on_vc_Cons)
    have "ch_credits (chan_of s ?j) < ch_max (chan_of s ?j)" using inc(3) by (simp add: chan_of_fields x_def)
    note step = chan_step.credit [OF b this]
    have "chan_of ?s' ?j = (chan_of s ?j)\<lparr>ch_back := map f_is_free_signal (on_vc ?j (hop_back ?s')), ch_credits := ch_credits (chan_of s ?j) + 1,
        ch_free := ch_free (chan_of s ?j) \<or> f_is_free_signal c\<rparr>"
      using n by (simp add: chan_of_def Let_def bk(2)) (simp add: ou credited_vc_def ov_setState_def Let_def x_def)
    with step show "chan_step (chan_of s ?j) (chan_of ?s' ?j)" by simp
  qed (simp add: ou)
qed

lemma hop_step_refines:
  assumes "hop_step F period s s'" and ok: "hop_ok s"
  shows "refines s s'"
  using assms(1)
proof cases
  case (tick t)
  then show ?thesis using ok by (intro refines_same) (simp_all add: hop_wire_def hop_back_def)
next
  case (link b l reqs)
  then show ?thesis using ok nl_wakeup_keeps [OF link(2)] by (intro refines_same) (simp_all add: hop_wire_def hop_back_def)
next
  case (credit_link b l reqs)
  then show ?thesis using ok nl_wakeup_keeps [OF credit_link(2)] by (intro refines_same) (simp_all add: hop_wire_def hop_back_def)
next
  case (head f vnet vc ou1 ou2)
  show ?thesis unfolding head(1) by (rule hop_head_refines [OF ok head(2-5)])
next
  case (more f vc ou2)
  show ?thesis unfolding more(1) by (rule hop_more_refines [OF ok more(2-5)])
next
  case (receive fl l ie g rec sh iu sh' reqs)
  show ?thesis unfolding receive(1) by (rule hop_receive_refines [OF ok receive(3,5)])
next
  case (leave invc f iu1 ie iu2 reqs)
  show ?thesis unfolding leave(1) by (rule hop_leave_refines [OF ok leave(2,4)])
next
  case (credit l ou reqs)
  show ?thesis unfolding credit(1) by (rule hop_credit_refines [OF ok credit(2)])
qed

lemma refines_ok: "refines s s' \<Longrightarrow> hop_ok s \<Longrightarrow> hop_ok s'"
  unfolding refines_def hop_ok_def by (metis chan_step_ok)

lemma hop_start_ok:
  assumes "hop_start nc per s"
  shows "hop_ok s"
proof -
  from assms obtain oid d d' iid where o: "OutputUnit_new nc oid d per = Inr (hp_ou s)" and i: "InputUnit_new iid d' (per * nc_num_vnets nc) per = Inr (hp_iu s)"
    and e: "fb_buffer (nl_buffer (hp_link s)) = []" "fb_buffer (nl_buffer (hp_clink s)) = []" "hp_open s = {}" by (auto simp: hop_start_def)
  from o obtain ws where ws: "mapR (\<lambda>i. OutVcState_new nc i per) [0..<per * nc_num_vnets nc] = Inr ws" "ou_outVcState (hp_ou s) = ws"
    "fb_buffer (ou_outBuffer (hp_ou s)) = []" by (auto simp: OutputUnit_new_def bindR_Inr_iff flitBuffer_new_def dest!: sym [of _ "hp_ou s"])
  have len: "length ys = length xs" "\<forall>y \<in> set ys. \<exists>x \<in> set xs. f x = Inr y" if "mapR f xs = Inr ys" for f :: "nat \<Rightarrow> OutVcState res" and xs ys
    using that by (induction xs arbitrary: ys) (fastforce simp: bindR_Inr_iff)+
  have new: "ov_time w = 0 \<and> ov_vc_state w = IDLE \<and> ov_credit_count w = ov_max_credit_count w \<and> 0 < ov_max_credit_count w" if "w \<in> set ws" for w
    using len(2) [OF ws(1)] that by (auto simp: OutVcState_new_def bindR_Inr_iff assertR_Inr_iff Let_def)
  have iu: "iu_virtualChannels (hp_iu s) = replicate (per * nc_num_vnets nc) VirtualChannel_new" "fb_buffer (iu_creditQueue (hp_iu s)) = []"
    using i by (auto simp: InputUnit_new_def bindR_Inr_iff flitBuffer_new_def dest!: sym [of _ "hp_iu s"])
  have n: "length ws = per * nc_num_vnets nc" using len(1) [OF ws(1)] by simp
  have vc: "vc_flits VirtualChannel_new = []" "fst (vc_state VirtualChannel_new) = IDLE"
    by (simp_all add: VirtualChannel_new_def flitBuffer_new_def)
  have emp: "hop_wire s = []" "hop_back s = []" using e ws iu by (simp_all add: hop_wire_def hop_back_def)
  have "hop_wf s" using n iu(1) vc e(3) emp new by (auto simp: hop_wf_def Let_def ws(2))
  moreover have "chan_ok (chan_of s k)" if "k < length ws" for k
    using new [OF nth_mem [OF that]] that n iu(1) vc e(3) emp by (simp add: chan_ok_def chan_of_fields ws(2))
  ultimately show ?thesis by (simp add: hop_ok_def ws(2))
qed

lemma hop_reachable_ok:
  assumes "hop_start nc per s0" and "(hop_step F period)\<^sup>*\<^sup>* s0 s"
  shows "hop_ok s"
  using assms(2)
proof (induction rule: rtranclp_induct)
  case base
  show ?case by (rule hop_start_ok [OF assms(1)])
next
  case (step s s')
  then show ?case using refines_ok [OF hop_step_refines] by blast
qed

section \<open>What flow control guarantees\<close>

lemma hop_ok_arrival:
  assumes ok: "hop_ok s" and con: "nl_consumeLink (hp_link s) = Inr (fl, l)"
  shows "\<exists>v. at (iu_virtualChannels (hp_iu s)) (f_vc fl) = Inr v \<and> fst (vc_state v) = (if is_head (f_type fl) then IDLE else ACTIVE)"
proof -
  from con obtain fs where w: "hop_wire s = fl # fs"
    by (auto simp: nl_consumeLink_def bindR_Inr_iff fb_getTopFlit_def hop_wire_def split: list.splits)
  have wf: "hop_wf s" using ok by (simp add: hop_ok_def)
  with w have vc: "0 \<le> f_vc fl" "f_vc fl < int (length (iu_virtualChannels (hp_iu s)))"
    "length (iu_virtualChannels (hp_iu s)) = length (ou_outVcState (hp_ou s))" by (simp_all add: hop_wf_def Let_def)
  let ?j = "nat (f_vc fl)"
  have j: "?j < length (iu_virtualChannels (hp_iu s))" using vc by simp
  have "chan_ok (chan_of s ?j)" using ok j vc(3) by (simp add: hop_ok_def)
  moreover have "ch_wire (chan_of s ?j) = f_type fl # map f_type (on_vc ?j fs)" using vc(1) by (simp add: chan_of_fields w on_vc_Cons)
  ultimately have "ch_busy (chan_of s ?j) = (\<not> is_head (f_type fl))" by (rule chan_ok_deliver(1))
  then have "(fst (vc_state (iu_virtualChannels (hp_iu s) ! ?j)) = ACTIVE) = (\<not> is_head (f_type fl))" by (simp add: chan_of_fields)
  moreover have "fst (vc_state (iu_virtualChannels (hp_iu s) ! ?j)) \<in> {IDLE, ACTIVE}"
    using wf nth_mem [OF j] unfolding hop_wf_def Let_def by blast
  ultimately show ?thesis using vc by (auto simp: at_Inr_iff)
qed

lemma hop_ok_credit:
  assumes ok: "hop_ok s"
  shows "\<exists>r. ou_wakeup (hp_now s) (hp_clink s) (hp_ou s) = Inr r"
proof (cases "nl_isReady (hp_now s) (hp_clink s)")
  case True
  then obtain c cs where c: "fb_buffer (nl_buffer (hp_clink s)) = c # cs"
    by (cases "fb_buffer (nl_buffer (hp_clink s))") (simp_all add: nl_isReady_def fb_isReady_def)
  then have w: "hop_back s = c # cs @ fb_buffer (iu_creditQueue (hp_iu s))" by (simp add: hop_back_def)
  let ?j = "nat (f_vc c)"
  have vc: "0 \<le> f_vc c" "f_vc c < int (length (ou_outVcState (hp_ou s)))" using ok w by (simp_all add: hop_ok_def hop_wf_def Let_def)
  then have "chan_ok (chan_of s ?j)" using ok by (simp add: hop_ok_def)
  moreover have "ch_back (chan_of s ?j) = f_is_free_signal c # map f_is_free_signal (on_vc ?j (cs @ fb_buffer (iu_creditQueue (hp_iu s))))"
    using vc(1) by (simp add: chan_of_fields w on_vc_Cons)
  ultimately have "ch_credits (chan_of s ?j) < ch_max (chan_of s ?j)" by (rule chan_ok_credit(1))
  then have "ov_credit_count (ou_outVcState (hp_ou s) ! ?j) < ov_max_credit_count (ou_outVcState (hp_ou s) ! ?j)" by (simp add: chan_of_fields)
  then have "\<exists>u. ou_increment_credit (f_vc c) (hp_ou s) = Inr u \<and> length (ou_outVcState u) = length (ou_outVcState (hp_ou s))"
    using vc by (simp add: ou_increment_credit_def ou_on_vc_Inr_iff ov_increment_Inr_iff)
  then obtain u where u: "ou_increment_credit (f_vc c) (hp_ou s) = Inr u" "length (ou_outVcState u) = length (ou_outVcState (hp_ou s))" by blast
  then have "\<exists>u'. ou_set_vc_state IDLE (f_vc c) (hp_now s) u = Inr u'" using vc by (simp add: ou_set_vc_state_def ou_on_vc_Inr_iff)
  with True c u show ?thesis by (auto simp: ou_wakeup_def nl_consumeLink_def fb_getTopFlit_def)
qed (simp add: ou_wakeup_def)

lemma hop_ok_release:
  assumes ok: "hop_ok s" and get: "iu_getTopFlit invc (hp_iu s) = Inr (f, iu1)"
  shows "\<exists>r. release_invc ie invc (f_type f) iu1 = Inr r"
proof -
  let ?j = "nat invc"
  from get obtain fs where g: "0 \<le> invc" "invc < int (length (iu_virtualChannels (hp_iu s)))"
    "vc_flits (iu_virtualChannels (hp_iu s) ! ?j) = f # fs"
    by (auto simp: iu_getTopFlit_def bindR_Inr_iff at_Inr_iff vc_getTopFlit_def fb_getTopFlit_def split: list.splits prod.splits)
  then have "chan_ok (chan_of s ?j)" using ok by (simp add: hop_ok_def hop_wf_def Let_def)
  then have "is_tail (f_type f) \<longrightarrow> fs = []" using chan_ok_grant(1) [of "chan_of s ?j" "f_type f" "map f_type fs"] g(3) by (simp add: chan_of_fields)
  from release_eq [OF g this, of ie] get show ?thesis by auto
qed

text \<open>Claim C8. Refinement of the credit protocol: in every state a hop can reach from freshly constructed units and empty
  links, each step of the code (sending a flit, either link moving one, the input unit receiving one, the allocator
  releasing one, the output unit taking a credit) is on every virtual channel a step of the abstract channel protocol or
  leaves the channel as it was.\<close>

theorem flow_control_refines:
  assumes "hop_start nc per s0" and "(hop_step F period)\<^sup>*\<^sup>* s0 s" and "hop_step F period s s'"
    and "k < length (ou_outVcState (hp_ou s))"
  shows "chan_of s' k = chan_of s k \<or> chan_step (chan_of s k) (chan_of s' k)"
  using hop_step_refines [OF assms(3) hop_reachable_ok [OF assms(1,2)]] assms(4) by (simp add: refines_def)

definition demo_conf :: net_conf where
  "demo_conf = \<lparr>nc_num_vnets = 1, nc_vnet_type = (\<lambda>_. CTRL_VNET), nc_buffers_per_data_vc = 4, nc_buffers_per_ctrl_vc = 4\<rparr>"

definition demo_hop :: hop where
  "demo_hop = \<lparr>hp_now = 1000, hp_ou = one_vc 0 IDLE 4, hp_link = nl_setVcsPerVnet 1 (NetworkLink_new 0 1 1 [] 128),
     hp_iu = demo_input_unit, hp_clink = nl_setVcsPerVnet 1 (NetworkLink_new 1 1 1 [] 128), hp_open = {}\<rparr>"

definition demo_hop_sent :: hop where
  "demo_hop_sent = demo_hop\<lparr>hp_ou := (one_vc 1000 ACTIVE 3)\<lparr>ou_outBuffer := \<lparr>fb_buffer = [demo_head], fb_max_size = int INFINITE\<rparr>\<rparr>,
     hp_open := {}\<rparr>"

definition demo_hop_moved :: hop where
  "demo_hop_moved = demo_hop_sent\<lparr>hp_ou := one_vc 1000 ACTIVE 3,
     hp_link := (hp_link demo_hop)\<lparr>nl_buffer := \<lparr>fb_buffer = [demo_head\<lparr>f_time := 1500\<rparr>], fb_max_size = int INFINITE\<rparr>,
       nl_link_utilized := 1, nl_vc_load := [1]\<rparr>\<rparr>"

lemma demo_hop_start: "hop_start demo_conf 1 demo_hop"
  unfolding hop_start_def
proof (intro conjI)
  have "OutputUnit_new demo_conf 1 ''East'' 1 = Inr (hp_ou demo_hop)"
    by (simp add: OutputUnit_new_def OutVcState_new_def demo_conf_def demo_hop_def one_vc_def failIf_def assertR_def)
  moreover have "InputUnit_new 0 ''Local'' (1 * nc_num_vnets demo_conf) 1 = Inr (hp_iu demo_hop)"
    by (simp add: InputUnit_new_def demo_conf_def demo_hop_def demo_input_unit_def failIf_def)
  ultimately show "\<exists>oid d d' iid. OutputUnit_new demo_conf oid d 1 = Inr (hp_ou demo_hop)
      \<and> InputUnit_new iid d' (1 * nc_num_vnets demo_conf) 1 = Inr (hp_iu demo_hop)" by blast
qed (simp_all add: demo_hop_def nl_setVcsPerVnet_def NetworkLink_new_def flitBuffer_new_def)

lemma demo_hop_steps:
  "hop_step F 500 demo_hop demo_hop_sent" "hop_step F 500 demo_hop_sent demo_hop_moved"
proof -
  have t: "is_head (f_type demo_head)" "is_tail (f_type demo_head)" "demo_head\<lparr>f_vc := 0\<rparr> = demo_head"
    by (simp_all add: demo_head_def flit_new_def flit_kind_def is_head_def is_tail_def)
  have "ou_select_free_vc 1000 0 (one_vc 0 IDLE 4) = Inr (0, one_vc 1000 ACTIVE 4)"
    by (simp add: ou_select_free_vc_def vc_range_def one_vc_def ou_is_vc_idle_def at_def ov_isInState_def ou_set_vc_state_def
        ou_on_vc_def put_def ov_setState_def)
  moreover have "send_flit 500 1000 0 demo_head (one_vc 1000 ACTIVE 4) = Inr (hp_ou demo_hop_sent)"
    by (simp add: send_flit_def ou_decrement_credit_def ou_on_vc_def one_vc_def at_def put_def ov_decrement_credit_def assertR_def
        ou_insert_flit_def fb_insert_def demo_hop_sent_def flitBuffer_new_def t)
  ultimately show "hop_step F 500 demo_hop demo_hop_sent"
    using hop_step.head [OF t(1), of demo_hop 0 0 _ 500 "hp_ou demo_hop_sent" F]
    by (simp add: demo_hop_def demo_hop_sent_def t)
  have "nl_wakeup 500 1000 (Some (ou_outBuffer (hp_ou demo_hop_sent))) (hp_link demo_hop)
      = Inr (flitBuffer_new, hp_link demo_hop_moved, [Wake_consumer 1500])"
    by (simp add: nl_wakeup_def demo_hop_def demo_hop_sent_def demo_hop_moved_def fb_isReady_def fb_getTopFlit_def assertR_def
        clockEdge_at_def divCeil_def nl_setVcsPerVnet_def NetworkLink_new_def at_def put_def fb_insert_def flitBuffer_new_def
        fb_isEmpty_def demo_head_def flit_new_def Let_def)
  then show "hop_step F 500 demo_hop_sent demo_hop_moved"
    using hop_step.link [of 500 demo_hop_sent flitBuffer_new "hp_link demo_hop_moved" _ F]
    by (simp add: demo_hop_moved_def demo_hop_sent_def demo_hop_def one_vc_def)
qed

lemma demo_hop_reachable: "(hop_step F 500)\<^sup>*\<^sup>* demo_hop demo_hop_moved"
  using demo_hop_steps by (meson r_into_rtranclp rtranclp_trans)

theorem flow_control_refines_witness:
  "hop_start demo_conf 1 demo_hop \<and> hop_step int_fp 500 demo_hop demo_hop_sent \<and> chan_step (chan_of demo_hop 0) (chan_of demo_hop_sent 0)"
proof -
  have "ch_credits (chan_of demo_hop_sent 0) \<noteq> ch_credits (chan_of demo_hop 0)"
    unfolding chan_of_fields by (simp add: demo_hop_sent_def demo_hop_def one_vc_def)
  then show ?thesis
    using flow_control_refines [OF demo_hop_start rtranclp.rtrancl_refl demo_hop_steps(1) [of int_fp], of 0] demo_hop_start demo_hop_steps(1)
    by (auto simp: demo_hop_def one_vc_def)
qed

text \<open>Claim C9. Buffers never overflow and credits are conserved: in every state a hop can reach, the credits an output unit
  counts for a channel, the flits on the wire to it, the flits in its buffer and the credits on their way back add up to
  the number of buffers of the channel, so the count stays between 0 and that number and the buffer holds at most that
  many flits.\<close>

theorem flow_control_bounds:
  assumes "hop_start nc per s0" and "(hop_step F period)\<^sup>*\<^sup>* s0 s" and "k < length (ou_outVcState (hp_ou s))"
  shows "let w = ou_outVcState (hp_ou s) ! k; v = iu_virtualChannels (hp_iu s) ! k in
     0 \<le> ov_credit_count w \<and> ov_credit_count w \<le> ov_max_credit_count w \<and> int (length (vc_flits v)) \<le> ov_max_credit_count w
     \<and> ov_credit_count w + int (length (on_vc k (hop_wire s))) + int (length (vc_flits v)) + int (length (on_vc k (hop_back s)))
         = ov_max_credit_count w"
proof -
  have "chan_ok (chan_of s k)" using hop_reachable_ok [OF assms(1,2)] assms(3) by (simp add: hop_ok_def)
  then show ?thesis by (simp add: chan_ok_def chan_of_fields Let_def)
qed

theorem flow_control_bounds_witness:
  "hop_start demo_conf 1 demo_hop \<and> (hop_step int_fp 500)\<^sup>*\<^sup>* demo_hop demo_hop_moved
     \<and> 3 + int (length (on_vc 0 (hop_wire demo_hop_moved))) + 0 + int (length (on_vc 0 (hop_back demo_hop_moved))) = 4"
proof -
  have "ov_credit_count (ou_outVcState (hp_ou demo_hop_moved) ! 0) = 3" "ov_max_credit_count (ou_outVcState (hp_ou demo_hop_moved) ! 0) = 4"
    "vc_flits (iu_virtualChannels (hp_iu demo_hop_moved) ! 0) = []" "0 < length (ou_outVcState (hp_ou demo_hop_moved))"
    by (simp_all add: demo_hop_moved_def demo_hop_sent_def demo_hop_def one_vc_def demo_input_unit_def VirtualChannel_new_def flitBuffer_new_def)
  then show ?thesis
    using flow_control_bounds [OF demo_hop_start demo_hop_reachable [of int_fp], of 0] demo_hop_start demo_hop_reachable [of int_fp]
    by (simp add: Let_def)
qed

text \<open>Claim C10. The assertions of flow control never fail: in every state a hop can reach, the next flit on the link names
  a channel of the input unit which is IDLE if it is a head flit and ACTIVE otherwise, the output unit's wake-up takes the
  next credit without exceeding the maximum, and the release of a granted flit finds the channel empty behind a tail.\<close>

theorem flow_control_safe:
  assumes "hop_start nc per s0" and "(hop_step F period)\<^sup>*\<^sup>* s0 s"
  shows "(\<forall>fl l. nl_consumeLink (hp_link s) = Inr (fl, l) \<longrightarrow> (\<exists>v. at (iu_virtualChannels (hp_iu s)) (f_vc fl) = Inr v
           \<and> fst (vc_state v) = (if is_head (f_type fl) then IDLE else ACTIVE)))
     \<and> (\<exists>r. ou_wakeup (hp_now s) (hp_clink s) (hp_ou s) = Inr r)
     \<and> (\<forall>invc f iu1 ie. iu_getTopFlit invc (hp_iu s) = Inr (f, iu1) \<longrightarrow> (\<exists>r. release_invc ie invc (f_type f) iu1 = Inr r))"
  using hop_reachable_ok [OF assms] hop_ok_arrival hop_ok_credit hop_ok_release by blast

theorem flow_control_safe_witness:
  "hop_start demo_conf 1 demo_hop \<and> (hop_step int_fp 500)\<^sup>*\<^sup>* demo_hop demo_hop_moved
     \<and> (\<exists>r. ou_wakeup (hp_now demo_hop_moved) (hp_clink demo_hop_moved) (hp_ou demo_hop_moved) = Inr r)
     \<and> (\<exists>v. at (iu_virtualChannels (hp_iu demo_hop_moved)) (f_vc demo_head) = Inr v \<and> fst (vc_state v) = IDLE)"
proof -
  have "nl_consumeLink (hp_link demo_hop_moved) = Inr (demo_head\<lparr>f_time := 1500\<rparr>,
      (hp_link demo_hop_moved)\<lparr>nl_buffer := \<lparr>fb_buffer = [], fb_max_size = int INFINITE\<rparr>\<rparr>)"
    by (simp add: demo_hop_moved_def nl_consumeLink_def fb_getTopFlit_def)
  moreover have "is_head (f_type demo_head)" by (simp add: demo_head_def flit_new_def flit_kind_def is_head_def)
  ultimately show ?thesis
    using flow_control_safe [OF demo_hop_start demo_hop_reachable [of int_fp]] demo_hop_start demo_hop_reachable [of int_fp] by fastforce
qed

end
