(* ===== verification/Std_Heap.thy ===== *)
theory Std_Heap
  imports Garnet_Prelude "HOL-Library.Multiset"
begin

text \<open>
  The binary heap of the C++ standard library as the message buffers use it: \<open>std::push_heap\<close> and
  \<open>std::pop_heap\<close> on a vector, written as the library's loops that move a hole (\<open>__push_heap\<close>,
  \<open>__adjust_heap\<close>). The argument \<open>gt\<close> is the comparison object; with \<open>std::greater\<close> the smallest element is in
  front. The locale \<open>heap_order\<close> states what the standard requires of the comparison (a strict weak order) and
  collects what the two operations promise.
\<close>

section \<open>The algorithms\<close>

definition heap_parent :: "nat \<Rightarrow> nat" where
  "heap_parent i = (i - 1) div 2"

lemma heap_parent_less [simp]: "0 < i \<Longrightarrow> heap_parent i < i"
  by (simp add: heap_parent_def less_mult_imp_div_less)

text \<open>\<open>__push_heap\<close>: the hole moves up while the parent is greater than the value.\<close>

function heap_up :: "('a \<Rightarrow> 'a \<Rightarrow> bool) \<Rightarrow> 'a list \<Rightarrow> nat \<Rightarrow> 'a \<Rightarrow> 'a list" where
  "heap_up gt xs hole v =
     (if 0 < hole \<and> gt (xs ! heap_parent hole) v
      then heap_up gt (xs[hole := xs ! heap_parent hole]) (heap_parent hole) v
      else xs[hole := v])"
  by pat_completeness auto
termination by (relation "measure (\<lambda>(gt, xs, hole, v). hole)") simp_all

text \<open>The loop of \<open>__adjust_heap\<close>: the hole moves down to a leaf, the smaller child taking its place.\<close>

function heap_down :: "('a \<Rightarrow> 'a \<Rightarrow> bool) \<Rightarrow> nat \<Rightarrow> 'a list \<Rightarrow> nat \<Rightarrow> 'a list \<times> nat" where
  "heap_down gt len xs hole =
     (if hole < (len - 1) div 2 then
        let right = 2 * (hole + 1); child = (if gt (xs ! right) (xs ! (right - 1)) then right - 1 else right)
        in heap_down gt len (xs[hole := xs ! child]) child
      else if even len \<and> 2 \<le> len \<and> hole = (len - 2) div 2
      then (xs[hole := xs ! (2 * (hole + 1) - 1)], 2 * (hole + 1) - 1)
      else (xs, hole))"
  by pat_completeness auto
termination
  by (relation "measure (\<lambda>(gt, len, xs, hole). len - hole)") (auto simp: Let_def split: if_splits)

declare heap_up.simps [simp del] heap_down.simps [simp del]

definition push_heap :: "('a \<Rightarrow> 'a \<Rightarrow> bool) \<Rightarrow> 'a list \<Rightarrow> 'a list" where
  "push_heap gt xs = (if xs = [] then xs else heap_up gt xs (length xs - 1) (last xs))"

definition pop_heap :: "('a \<Rightarrow> 'a \<Rightarrow> bool) \<Rightarrow> 'a list \<Rightarrow> 'a list" where
  "pop_heap gt xs =
     (if length xs > 1 then
        let len = length xs - 1; v = xs ! len; (ys, hole) = heap_down gt len (xs[len := xs ! 0]) 0
        in heap_up gt ys hole v
      else xs)"

section \<open>What does not depend on the order\<close>

lemma heap_up_length [simp]: "length (heap_up gt xs hole v) = length xs"
  by (induction gt xs hole v rule: heap_up.induct) (simp add: heap_up.simps)

lemma heap_up_above: "hole < k \<Longrightarrow> heap_up gt xs hole v ! k = xs ! k"
proof (induction gt xs hole v rule: heap_up.induct)
  case (1 gt xs hole v)
  have "heap_parent hole < k" if "0 < hole" using heap_parent_less [OF that] 1(2) by simp
  with 1 show ?case by (subst heap_up.simps) simp
qed

lemma mset_move:
  assumes "i < length xs" and "j < length xs" and "i \<noteq> j"
  shows "mset (xs[i := xs ! j, j := v]) = mset (xs[i := v])"
  using mset_swap [of j "xs[i := v]" i] assms by (simp add: list_update_swap)

lemma heap_up_mset: "hole < length xs \<Longrightarrow> mset (heap_up gt xs hole v) = mset (xs[hole := v])"
proof (induction gt xs hole v rule: heap_up.induct)
  case (1 gt xs hole v)
  show ?case
  proof (cases "0 < hole \<and> gt (xs ! heap_parent hole) v")
    case True
    then have "heap_parent hole < hole" by simp
    with 1 True show ?thesis by (simp add: heap_up.simps [of gt xs] mset_move)
  next
    case False
    then show ?thesis by (subst heap_up.simps) auto
  qed
qed

lemma heap_parent_iff: "0 < i \<Longrightarrow> heap_parent i = p \<longleftrightarrow> i = 2 * p + 1 \<or> i = 2 * p + 2"
  by (auto simp: heap_parent_def)

section \<open>The heap property\<close>

definition heap_upto :: "('a \<Rightarrow> 'a \<Rightarrow> bool) \<Rightarrow> nat \<Rightarrow> 'a list \<Rightarrow> bool" where
  "heap_upto gt n xs \<longleftrightarrow> (\<forall>i < n. 0 < i \<longrightarrow> \<not> gt (xs ! heap_parent i) (xs ! i))"

text \<open>A heap with a hole: the element at the hole does not count, and its children may follow its parent.\<close>

definition holed :: "('a \<Rightarrow> 'a \<Rightarrow> bool) \<Rightarrow> nat \<Rightarrow> 'a list \<Rightarrow> nat \<Rightarrow> bool" where
  "holed gt n xs hole \<longleftrightarrow>
     (\<forall>i < n. 0 < i \<longrightarrow> i \<noteq> hole \<longrightarrow> heap_parent i \<noteq> hole \<longrightarrow> \<not> gt (xs ! heap_parent i) (xs ! i))
     \<and> (\<forall>i < n. 0 < i \<longrightarrow> heap_parent i = hole \<longrightarrow> 0 < hole \<longrightarrow> \<not> gt (xs ! heap_parent hole) (xs ! i))"

locale heap_order =
  fixes gt :: "'a \<Rightarrow> 'a \<Rightarrow> bool"
  assumes asym: "gt x y \<Longrightarrow> \<not> gt y x"
    and neg_trans: "\<not> gt x y \<Longrightarrow> \<not> gt y z \<Longrightarrow> \<not> gt x z"
begin

lemma irrefl: "\<not> gt x x"
  using asym by blast

lemma front_least:
  assumes "heap_upto gt n xs" and "i < n"
  shows "\<not> gt (xs ! 0) (xs ! i)"
  using assms(2)
proof (induction i rule: less_induct)
  case (less i)
  show ?case
  proof (cases "i = 0")
    case False
    then have "heap_parent i < i" "\<not> gt (xs ! heap_parent i) (xs ! i)" using assms(1) less.prems by (auto simp: heap_upto_def)
    with less show ?thesis by (meson neg_trans order_less_trans)
  qed (simp add: irrefl)
qed

lemma heap_up_heap:
  assumes "holed gt n xs hole" and "\<forall>i < n. 0 < i \<longrightarrow> heap_parent i = hole \<longrightarrow> \<not> gt v (xs ! i)" and "hole < n" and "n \<le> length xs"
  shows "heap_upto gt n (heap_up gt xs hole v)"
  using assms
proof (induction hole arbitrary: xs rule: less_induct)
  case (less hole)
  note H = less.prems(1) [unfolded holed_def, THEN conjunct1, rule_format] less.prems(1) [unfolded holed_def, THEN conjunct2, rule_format]
  let ?p = "heap_parent hole"
  show ?case
  proof (cases "0 < hole \<and> gt (xs ! ?p) v")
    case True
    let ?xs = "xs[hole := xs ! ?p]"
    have p: "?p < hole" and v: "\<not> gt v (xs ! ?p)" using True asym by simp_all
    have sib: "\<not> gt (xs ! ?p) (?xs ! i)" if "i < n" "0 < i" "heap_parent i = ?p" for i
      using that H(1) [of i] p less.prems irrefl by (cases "i = hole") auto
    have nth: "?xs ! i = (if i = hole then xs ! ?p else xs ! i)" if "i < n" for i using less.prems(4) that by (simp add: nth_list_update)
    have "holed gt n ?xs ?p"
      unfolding holed_def
    proof (intro conjI allI impI)
      fix i
      assume i: "i < n" "0 < i" "i \<noteq> ?p" "heap_parent i \<noteq> ?p"
      then have "i \<noteq> hole" "heap_parent i < n" using heap_parent_less [OF i(2)] by (auto simp del: heap_parent_less)
      with i show "\<not> gt (?xs ! heap_parent i) (?xs ! i)" using H(1) [OF i(1,2)] H(2) [OF i(1,2)] True by (auto simp: nth)
    next
      fix i
      assume i: "i < n" "0 < i" "heap_parent i = ?p" "0 < ?p"
      have pp: "heap_parent ?p < ?p" using i(4) by simp
      then have "?xs ! heap_parent ?p = xs ! heap_parent ?p" using p by simp
      moreover have "\<not> gt (xs ! heap_parent ?p) (xs ! ?p)" using H(1) [of ?p] i(4) p pp less.prems(3) by simp
      ultimately have "\<not> gt (?xs ! heap_parent ?p) (xs ! ?p)" by simp
      then show "\<not> gt (?xs ! heap_parent ?p) (?xs ! i)" using sib [OF i(1-3)] by (rule neg_trans)
    qed
    moreover have "\<forall>i < n. 0 < i \<longrightarrow> heap_parent i = ?p \<longrightarrow> \<not> gt v (?xs ! i)" using sib v neg_trans by blast
    ultimately have "heap_upto gt n (heap_up gt ?xs ?p v)" using less.IH [OF p] p less.prems(3,4) by simp
    with True show ?thesis by (simp add: heap_up.simps [of gt xs])
  next
    case False
    then have eq: "heap_up gt xs hole v = xs[hole := v]" by (auto simp: heap_up.simps [of gt xs])
    have "\<not> gt (xs[hole := v] ! heap_parent i) (xs[hole := v] ! i)" if i: "i < n" "0 < i" for i
    proof -
      have "heap_parent i < i" using i by simp
      then show ?thesis using H(1) [OF i] less.prems(2-4) False i by (cases "i = hole"; cases "heap_parent i = hole") auto
    qed
    then show ?thesis by (simp add: heap_upto_def eq)
  qed
qed

lemma heap_down_cases:
  assumes "heap_down gt len xs hole = (ys, h)" and "hole < len"
  obtains (leaf) "ys = xs" and "h = hole" and "\<forall>i < len. 0 < i \<longrightarrow> heap_parent i \<noteq> hole"
  | (move) c where "0 < c" and "heap_parent c = hole" and "c < len"
      and "\<forall>i < len. 0 < i \<longrightarrow> heap_parent i = hole \<longrightarrow> \<not> gt (xs ! c) (xs ! i)"
      and "heap_down gt len (xs[hole := xs ! c]) c = (ys, h)"
proof -
  let ?r = "2 * (hole + 1)"
  consider "hole < (len - 1) div 2" | "\<not> hole < (len - 1) div 2" "even len" "2 \<le> len" "hole = (len - 2) div 2"
    | "\<not> hole < (len - 1) div 2" "\<not> (even len \<and> 2 \<le> len \<and> hole = (len - 2) div 2)" by blast
  then show thesis
  proof cases
    case 1
    define c where "c = (if gt (xs ! ?r) (xs ! (?r - 1)) then ?r - 1 else ?r)"
    have "heap_down gt len (xs[hole := xs ! c]) c = (ys, h)"
      using assms(1) 1 by (cases "gt (xs ! ?r) (xs ! (?r - 1))") (simp_all add: c_def heap_down.simps [of gt len xs])
    moreover have "\<not> gt (xs ! c) (xs ! ?r)" "\<not> gt (xs ! c) (xs ! (?r - 1))" using irrefl asym by (auto simp: c_def)
    then have "\<forall>i < len. 0 < i \<longrightarrow> heap_parent i = hole \<longrightarrow> \<not> gt (xs ! c) (xs ! i)" by (auto simp: heap_parent_iff)
    moreover have "0 < c" "heap_parent c = hole" "c < len" using 1 by (auto simp: c_def heap_parent_def)
    ultimately show thesis using move by blast
  next
    case 2
    then have e: "2 * (hole + 1) - 1 = len - 1" by presburger
    have "(xs[hole := xs ! (len - 1)], len - 1) = (ys, h)"
      using assms(1) unfolding heap_down.simps [of gt len xs hole] e using 2 by auto
    moreover have "\<not> len - 1 < (len - 1) div 2" "len - 1 \<noteq> (len - 2) div 2" using 2(3) by presburger+
    then have "heap_down gt len zs (len - 1) = (zs, len - 1)" for zs by (simp only: heap_down.simps [of gt len zs "len - 1"] if_False simp_thms)
    ultimately have d: "heap_down gt len (xs[hole := xs ! (len - 1)]) (len - 1) = (ys, h)" by metis
    have "i = len - 1" if "i < len" "0 < i" "heap_parent i = hole" for i using e that by (auto simp: heap_parent_iff)
    then have least: "\<forall>i < len. 0 < i \<longrightarrow> heap_parent i = hole \<longrightarrow> \<not> gt (xs ! (len - 1)) (xs ! i)" using irrefl by metis
    have "heap_parent (len - 1) = hole" "0 < len - 1" "len - 1 < len" using 2 by (auto simp: heap_parent_def numeral_2_eq_2)
    then show thesis using move least d by blast
  next
    case 3
    then have "ys = xs" "h = hole" using assms(1) by (auto simp: heap_down.simps)
    moreover have "\<forall>i < len. 0 < i \<longrightarrow> heap_parent i \<noteq> hole"
      using 3 by (auto simp: heap_parent_iff) presburger+
    ultimately show thesis using leaf by blast
  qed
qed

lemma heap_down_heap:
  assumes "heap_down gt len xs hole = (ys, h)" and "hole < len" and "len \<le> length xs"
  shows "length ys = length xs" and "h < len" and "\<forall>k \<ge> len. ys ! k = xs ! k" and "mset (ys[h := v]) = mset (xs[hole := v])"
    and "\<forall>i < len. 0 < i \<longrightarrow> heap_parent i \<noteq> h" and "holed gt len xs hole \<Longrightarrow> holed gt len ys h"
proof -
  have "length ys = length xs \<and> h < len \<and> (\<forall>k \<ge> len. ys ! k = xs ! k) \<and> mset (ys[h := v]) = mset (xs[hole := v])
      \<and> (\<forall>i < len. 0 < i \<longrightarrow> heap_parent i \<noteq> h) \<and> (holed gt len xs hole \<longrightarrow> holed gt len ys h)"
    using assms
  proof (induction "len - hole" arbitrary: xs hole rule: less_induct)
    case less
    from less.prems(1,2) show ?case
    proof (cases rule: heap_down_cases)
      case leaf
      then show ?thesis using less.prems by simp
    next
      case (move c)
      let ?xs = "xs[hole := xs ! c]"
      have lt: "hole < c" using move(1,2) heap_parent_less [of c] by simp
      have nth: "?xs ! i = (if i = hole then xs ! c else xs ! i)" if "i < len" for i using less.prems(3) that by (simp add: nth_list_update)
      have "holed gt len ?xs c" if H: "holed gt len xs hole"
        unfolding holed_def
      proof (intro conjI allI impI)
        fix i
        assume i: "i < len" "0 < i" "i \<noteq> c" "heap_parent i \<noteq> c"
        have "heap_parent i < i" using i(2) by simp
        then have n: "?xs ! i = (if i = hole then xs ! c else xs ! i)" "?xs ! heap_parent i = (if heap_parent i = hole then xs ! c else xs ! heap_parent i)"
          and ne: "i = hole \<longrightarrow> heap_parent i \<noteq> hole" using nth i(1) by auto
        have "\<not> gt (xs ! c) (xs ! i)" if "heap_parent i = hole" using move(4) i(1,2) that by blast
        moreover have "\<not> gt (xs ! heap_parent hole) (xs ! c)" if "0 < hole" using H move(1-3) that unfolding holed_def by blast
        moreover have "\<not> gt (xs ! heap_parent i) (xs ! i)" if "i \<noteq> hole" "heap_parent i \<noteq> hole" using H i(1,2) that unfolding holed_def by blast
        ultimately show "\<not> gt (?xs ! heap_parent i) (?xs ! i)" unfolding n using ne i(2) by (cases "i = hole"; cases "heap_parent i = hole") auto
      next
        fix i
        assume i: "i < len" "0 < i" "heap_parent i = c" "0 < c"
        have "i \<noteq> hole" using lt heap_parent_less [OF i(2)] i(3) by simp
        moreover from this have "\<not> gt (xs ! c) (xs ! i)" using H i lt unfolding holed_def by (metis less_irrefl)
        ultimately show "\<not> gt (?xs ! heap_parent c) (?xs ! i)" using i(1) less.prems(2) by (simp add: nth move(2))
      qed
      moreover have "mset (?xs[c := v]) = mset (xs[hole := v])" using mset_move [of hole xs c] lt less.prems(3) move(3) by simp
      ultimately show ?thesis using less.hyps [of c ?xs] move(3,5) lt less.prems(2,3) by simp
    qed
  qed
  then show "length ys = length xs" "h < len" "\<forall>k \<ge> len. ys ! k = xs ! k" "mset (ys[h := v]) = mset (xs[hole := v])"
    "\<forall>i < len. 0 < i \<longrightarrow> heap_parent i \<noteq> h" "holed gt len xs hole \<Longrightarrow> holed gt len ys h" by simp_all
qed

text \<open>What the standard promises of the two operations.\<close>

lemma push_heap_heap:
  assumes "heap_upto gt (length xs) xs"
  shows "heap_upto gt (length xs + 1) (push_heap gt (xs @ [x]))" and "mset (push_heap gt (xs @ [x])) = add_mset x (mset xs)"
proof -
  have par: "heap_parent i < length xs" if "i < length xs + 1" "0 < i" for i using heap_parent_less [OF that(2)] that(1) by linarith
  then have leaf: "heap_parent i \<noteq> length xs" if "i < length xs + 1" "0 < i" for i using that by fastforce
  have "holed gt (length xs + 1) (xs @ [x]) (length xs)"
    using assms par leaf by (auto simp: holed_def heap_upto_def nth_append less_Suc_eq)
  then show "heap_upto gt (length xs + 1) (push_heap gt (xs @ [x]))"
    using heap_up_heap [of "length xs + 1" "xs @ [x]" "length xs" x] leaf by (simp add: push_heap_def)
  show "mset (push_heap gt (xs @ [x])) = add_mset x (mset xs)" by (simp add: push_heap_def heap_up_mset)
qed

lemma pop_heap_heap:
  assumes heap: "heap_upto gt (length xs) xs" and ne: "xs \<noteq> []"
  defines "ys \<equiv> pop_heap gt xs"
  shows "length ys = length xs" and "last ys = xs ! 0" and "heap_upto gt (length xs - 1) (butlast ys)"
    and "add_mset (xs ! 0) (mset (butlast ys)) = mset xs"
proof -
  have "length ys = length xs \<and> ys ! (length xs - 1) = xs ! 0 \<and> heap_upto gt (length xs - 1) ys \<and> mset ys = mset xs"
  proof (cases "length xs > 1")
    case False
    then have "length xs = 1" using ne by (cases xs) auto
    then show ?thesis by (simp add: ys_def pop_heap_def heap_upto_def)
  next
    case True
    let ?n = "length xs - 1"
    let ?xs = "xs[?n := xs ! 0]"
    obtain zs h where d: "heap_down gt ?n ?xs 0 = (zs, h)" by force
    note D = heap_down_heap [OF d]
    have "heap_parent i < ?n" if "i < ?n" "0 < i" for i using heap_parent_less [OF that(2)] that(1) by linarith
    then have "?xs ! i = xs ! i" "?xs ! heap_parent i = xs ! heap_parent i" if "i < ?n" "0 < i" for i using that by (metis less_irrefl nth_list_update_neq)+
    then have "holed gt ?n ?xs 0" using heap unfolding holed_def heap_upto_def by simp
    then have hz: "holed gt ?n zs h" using D(6) True by simp
    have ys: "ys = heap_up gt zs h (xs ! ?n)" using True d by (simp add: ys_def pop_heap_def)
    have z: "length zs = length xs" "h < ?n" "zs ! ?n = xs ! 0" "\<forall>i < ?n. 0 < i \<longrightarrow> heap_parent i \<noteq> h" using D True by simp_all
    have "heap_upto gt ?n ys" unfolding ys by (rule heap_up_heap [OF hz]) (use z in auto)
    moreover have "ys ! ?n = xs ! 0" using heap_up_above [of h ?n gt zs "xs ! ?n"] z by (simp add: ys)
    moreover have "mset (?xs[0 := xs ! ?n]) = mset xs" using mset_swap [of 0 xs ?n] True ne by simp
    then have "mset ys = mset xs" using D(4) [of "xs ! ?n"] True z heap_up_mset [of h zs] by (simp add: ys)
    ultimately show ?thesis using z(1) by (simp add: ys)
  qed
  then have r: "length ys = length xs" "ys ! (length xs - 1) = xs ! 0" "heap_upto gt (length xs - 1) ys" "mset ys = mset xs" by simp_all
  show "length ys = length xs" by (rule r(1))
  have ne': "ys \<noteq> []" using r(1) ne by auto
  show l: "last ys = xs ! 0" using r(1,2) ne' by (simp add: last_conv_nth)
  have par: "heap_parent i < length xs - 1" if "i < length xs - 1" "0 < i" for i using heap_parent_less [OF that(2)] that(1) by linarith
  show "heap_upto gt (length xs - 1) (butlast ys)" using r(1,3) par by (auto simp: heap_upto_def nth_butlast)
  have "mset (butlast ys @ [last ys]) = mset xs" using r(4) ne' by simp
  then show "add_mset (xs ! 0) (mset (butlast ys)) = mset xs" by (simp add: l)
qed

end

end
