(* ===== verification/Message_Buffer.thy ===== *)
theory Message_Buffer
  imports Std_Heap Net_Dest
begin

text \<open>
  Protocol messages and \<open>MessageBuffer\<close>, the timed priority queue between the coherence controllers and the
  network interfaces. A message is a value; its protocol-specific content is the field \<open>msg_body\<close> of any type.
  The buffer answers with the requests it makes of its consumer; a registered dequeue callback is reported to the
  caller, which runs it. Random delays are the parameter \<open>draw\<close> (the generator's answer for a range), the flags of
  \<open>RubySystem\<close> the record \<open>ruby_flags\<close>. Sizes and counts are natural numbers; the message counter, which the
  queue order depends on, is a 64-bit word.
\<close>

section \<open>Messages\<close>

datatype MessageSizeType =
    MST_Control | MST_Data | MST_Request_Control | MST_Reissue_Control | MST_Response_Data
  | MST_ResponseL2hit_Data | MST_ResponseLocal_Data | MST_Response_Control | MST_Writeback_Data
  | MST_Writeback_Control | MST_Broadcast_Control | MST_Multicast_Control | MST_Forwarded_Control
  | MST_Invalidate_Control | MST_Unblock_Control | MST_Persistent_Control | MST_Completion_Control

record 'p Message =
  msg_time :: Tick
  msg_LastEnqueueTime :: Tick
  msg_DelayedTicks :: Tick
  msg_counter :: u64
  msg_incoming_link :: int
  msg_vnet :: int
  msg_Destination :: NetDest
  msg_MessageSize :: MessageSizeType
  msg_body :: 'p

definition updateDelayedTicks :: "Tick \<Rightarrow> 'p Message \<Rightarrow> 'p Message res" where
  "updateDelayedTicks curTime m =
     bindR (assertR (msg_LastEnqueueTime m \<le> curTime)) (\<lambda>_.
       Inr (m\<lparr>msg_DelayedTicks := msg_DelayedTicks m + (curTime - msg_LastEnqueueTime m)\<rparr>))"

text \<open>\<open>operator>\<close> on message pointers.\<close>

definition msg_greater :: "'p Message \<Rightarrow> 'p Message \<Rightarrow> bool" where
  "msg_greater l r = (if msg_LastEnqueueTime l = msg_LastEnqueueTime r then msg_counter l > msg_counter r
     else msg_LastEnqueueTime l > msg_LastEnqueueTime r)"

text \<open>The key the order compares.\<close>

datatype msg_key = Msg_key Tick u64

fun key_le :: "msg_key \<Rightarrow> msg_key \<Rightarrow> bool" where
  "key_le (Msg_key t c) (Msg_key t' c') \<longleftrightarrow> t < t' \<or> t = t' \<and> c \<le> c'"

instantiation msg_key :: linorder
begin

definition less_eq_msg_key :: "msg_key \<Rightarrow> msg_key \<Rightarrow> bool" where
  "less_eq_msg_key = key_le"

definition less_msg_key :: "msg_key \<Rightarrow> msg_key \<Rightarrow> bool" where
  "less_msg_key a b \<longleftrightarrow> a \<le> b \<and> \<not> b \<le> (a :: msg_key)"

instance
proof
  fix x y z :: msg_key
  show "x < y \<longleftrightarrow> x \<le> y \<and> \<not> y \<le> x" by (rule less_msg_key_def)
  show "x \<le> x" by (cases x) (simp add: less_eq_msg_key_def)
  show "x \<le> y \<Longrightarrow> y \<le> z \<Longrightarrow> x \<le> z" by (cases x; cases y; cases z) (auto simp: less_eq_msg_key_def)
  show "x \<le> y \<Longrightarrow> y \<le> x \<Longrightarrow> x = y" by (cases x; cases y) (auto simp: less_eq_msg_key_def)
  show "x \<le> y \<or> y \<le> x" by (cases x; cases y) (auto simp: less_eq_msg_key_def)
qed

end

definition key_of :: "'p Message \<Rightarrow> msg_key" where
  "key_of m = Msg_key (msg_LastEnqueueTime m) (msg_counter m)"

lemma msg_greater_key: "msg_greater l r \<longleftrightarrow> key_of r < key_of l"
  by (auto simp: msg_greater_def key_of_def less_msg_key_def less_eq_msg_key_def)

interpretation msgh: heap_order msg_greater
  by unfold_locales (auto simp: msg_greater_key)

section \<open>The buffer\<close>

datatype MessageRandomization = Rand_disabled | Rand_enabled | Rand_ruby_system

record ruby_flags =
  rf_randomization :: bool       \<comment> \<open>\<open>RubySystem::getRandomization\<close>\<close>
  rf_warmup :: bool              \<comment> \<open>\<open>RubySystem::getWarmupEnabled\<close>\<close>
  rf_block_size_bits :: nat      \<comment> \<open>\<open>RubySystem::getBlockSizeBits\<close>\<close>

datatype mb_req =
    Consumer_at Tick             \<comment> \<open>\<open>m_consumer->scheduleEventAbsolute(t)\<close>\<close>
  | Consumer_in Cycles           \<comment> \<open>\<open>m_consumer->scheduleEvent(d)\<close>\<close>
  | Consumer_info int            \<comment> \<open>\<open>m_consumer->storeEventInfo(vnet)\<close>\<close>

record 'p MessageBuffer =
  mb_consumer :: bool            \<comment> \<open>\<open>m_consumer != NULL\<close>\<close>
  mb_prio_heap :: "'p Message list"
  mb_dequeue_callback :: bool
  mb_stall_msg_map :: "(nat \<times> 'p Message list) list"
  mb_deferred_msg_map :: "nat \<Rightarrow> 'p Message list option"
  mb_stall_map_size :: int
  mb_max_size :: nat
  mb_max_dequeue_rate :: nat
  mb_dequeues_this_cy :: nat
  mb_time_last_time_size_checked :: Tick
  mb_size_last_time_size_checked :: nat
  mb_time_last_time_enqueue :: Tick
  mb_time_last_time_pop :: Tick
  mb_last_arrival_time :: Tick
  mb_size_at_cycle_start :: nat
  mb_stalled_at_cycle_start :: nat
  mb_msgs_this_cycle :: nat
  mb_msg_counter :: u64
  mb_priority_rank :: int
  mb_strict_fifo :: bool
  mb_randomization :: MessageRandomization
  mb_allow_zero_latency :: bool
  mb_routing_priority :: int
  mb_input_link_id :: int
  mb_vnet_id :: int
  mb_not_avail_count :: nat
  mb_msg_count :: nat
  mb_buf_msgs :: int
  mb_stall_time :: int
  mb_stall_count :: nat

definition MessageBuffer_new :: "nat \<Rightarrow> nat \<Rightarrow> bool \<Rightarrow> MessageRandomization \<Rightarrow> bool \<Rightarrow> int \<Rightarrow> 'p MessageBuffer" where
  "MessageBuffer_new buffer_size max_dequeue_rate ordered randomization allow_zero_latency routing_priority =
     \<lparr>mb_consumer = False, mb_prio_heap = [], mb_dequeue_callback = False, mb_stall_msg_map = [],
      mb_deferred_msg_map = (\<lambda>_. None), mb_stall_map_size = 0, mb_max_size = buffer_size,
      mb_max_dequeue_rate = max_dequeue_rate, mb_dequeues_this_cy = 0, mb_time_last_time_size_checked = 0,
      mb_size_last_time_size_checked = 0, mb_time_last_time_enqueue = 0, mb_time_last_time_pop = 0,
      mb_last_arrival_time = 0, mb_size_at_cycle_start = 0, mb_stalled_at_cycle_start = 0, mb_msgs_this_cycle = 0,
      mb_msg_counter = 0, mb_priority_rank = 0, mb_strict_fifo = ordered, mb_randomization = randomization,
      mb_allow_zero_latency = allow_zero_latency, mb_routing_priority = routing_priority, mb_input_link_id = 0,
      mb_vnet_id = 0, mb_not_avail_count = 0, mb_msg_count = 0, mb_buf_msgs = 0, mb_stall_time = 0, mb_stall_count = 0\<rparr>"

definition mb_setConsumer :: "'p MessageBuffer \<Rightarrow> 'p MessageBuffer res" where
  "mb_setConsumer b = (if mb_consumer b then Inl Fatal else Inr (b\<lparr>mb_consumer := True\<rparr>))"

definition mb_setPriority :: "int \<Rightarrow> 'p MessageBuffer \<Rightarrow> 'p MessageBuffer" where
  "mb_setPriority rank b = b\<lparr>mb_priority_rank := rank\<rparr>"

definition mb_setIncomingLink :: "int \<Rightarrow> 'p MessageBuffer \<Rightarrow> 'p MessageBuffer" where
  "mb_setIncomingLink link_id b = b\<lparr>mb_input_link_id := link_id\<rparr>"

definition mb_setVnet :: "int \<Rightarrow> 'p MessageBuffer \<Rightarrow> 'p MessageBuffer" where
  "mb_setVnet net b = b\<lparr>mb_vnet_id := net\<rparr>"

definition mb_registerDequeueCallback :: "'p MessageBuffer \<Rightarrow> 'p MessageBuffer" where
  "mb_registerDequeueCallback b = b\<lparr>mb_dequeue_callback := True\<rparr>"

definition mb_unregisterDequeueCallback :: "'p MessageBuffer \<Rightarrow> 'p MessageBuffer" where
  "mb_unregisterDequeueCallback b = b\<lparr>mb_dequeue_callback := False\<rparr>"

definition mb_getSize :: "Tick \<Rightarrow> 'p MessageBuffer \<Rightarrow> nat \<times> 'p MessageBuffer" where
  "mb_getSize curTime b =
     (let b' = (if mb_time_last_time_size_checked b \<noteq> curTime
                then b\<lparr>mb_time_last_time_size_checked := curTime, mb_size_last_time_size_checked := length (mb_prio_heap b)\<rparr>
                else b)
      in (mb_size_last_time_size_checked b', b'))"

definition mb_areNSlotsAvailable :: "nat \<Rightarrow> Tick \<Rightarrow> 'p MessageBuffer \<Rightarrow> bool \<times> 'p MessageBuffer" where
  "mb_areNSlotsAvailable n current_time b =
     (if mb_max_size b = 0 then (True, b)
      else
        let (current_size, current_stall_size) =
          (if mb_time_last_time_pop b < current_time then (length (mb_prio_heap b), nat (mb_stall_map_size b))
           else (if mb_time_last_time_enqueue b < current_time then mb_size_at_cycle_start b
                 else mb_size_at_cycle_start b + mb_msgs_this_cycle b, mb_stalled_at_cycle_start b))
        in if current_size + current_stall_size + n \<le> mb_max_size b then (True, b)
           else (False, b\<lparr>mb_not_avail_count := mb_not_avail_count b + 1\<rparr>))"

text \<open>The head of the queue; \<open>front()\<close> of an empty vector is undefined.\<close>

definition mb_front :: "'p MessageBuffer \<Rightarrow> 'p Message res" where
  "mb_front b = at (mb_prio_heap b) 0"

definition mb_peek :: "'p MessageBuffer \<Rightarrow> 'p Message res" where
  "mb_peek b = mb_front b"

definition random_time :: "(int \<Rightarrow> int \<Rightarrow> int) \<Rightarrow> Tick" where
  "random_time draw = 1 + nat (draw 0 3) + (if draw 0 7 = 0 then 100 + nat (draw 1 15) else 0)"

definition heap_insert :: "'p Message \<Rightarrow> 'p Message list \<Rightarrow> 'p Message list" where
  "heap_insert m h = push_heap msg_greater (h @ [m])"

definition heap_remove :: "'p Message list \<Rightarrow> 'p Message list" where
  "heap_remove h = butlast (pop_heap msg_greater h)"

text \<open>The arrival time of a message and the last arrival time the randomised path raises.\<close>

definition arrival :: "ruby_flags \<Rightarrow> (int \<Rightarrow> int \<Rightarrow> int) \<Rightarrow> Tick \<Rightarrow> Tick \<Rightarrow> 'p MessageBuffer \<Rightarrow> Tick \<times> Tick" where
  "arrival fl draw current_time delta b =
     (if mb_randomization b = Rand_disabled \<or> (mb_randomization b = Rand_ruby_system \<and> \<not> rf_randomization fl)
      then (current_time + delta, mb_last_arrival_time b)
      else if mb_strict_fifo b then
        let last_arrival = max (mb_last_arrival_time b) current_time in (last_arrival + random_time draw, last_arrival)
      else (current_time + random_time draw, mb_last_arrival_time b))"

text \<open>The counters of the enqueues of a cycle, updated first.\<close>

definition count_enqueue :: "Tick \<Rightarrow> 'p MessageBuffer \<Rightarrow> 'p MessageBuffer" where
  "count_enqueue current_time b =
     (let b1 = (if mb_time_last_time_enqueue b < current_time
                then b\<lparr>mb_msgs_this_cycle := 0, mb_time_last_time_enqueue := current_time\<rparr> else b)
      in b1\<lparr>mb_msg_counter := mb_msg_counter b1 + 1, mb_msgs_this_cycle := mb_msgs_this_cycle b1 + 1\<rparr>)"

text \<open>\<open>enqueue\<close> also returns the message with the fields it sets.\<close>

definition mb_enqueue ::
  "ruby_flags \<Rightarrow> (int \<Rightarrow> int \<Rightarrow> int) \<Rightarrow> Tick \<Rightarrow> Tick \<Rightarrow> 'p Message \<Rightarrow> 'p MessageBuffer
     \<Rightarrow> ('p Message \<times> 'p MessageBuffer \<times> mb_req list) res" where
  "mb_enqueue fl draw current_time delta message b0 =
     (let b = count_enqueue current_time b0; (arrival_time, last_arrival) = arrival fl draw current_time delta b in
      bindR (failIf (delta = 0 \<and> \<not> mb_allow_zero_latency b) Panic) (\<lambda>_.
      bindR (assertR (arrival_time \<ge> current_time)) (\<lambda>_.
      bindR (failIf (mb_strict_fifo b \<and> arrival_time < last_arrival) Panic) (\<lambda>_.
      bindR (assertR (current_time \<ge> msg_LastEnqueueTime message)) (\<lambda>_.
      bindR (updateDelayedTicks current_time message) (\<lambda>m1.
        let m2 = m1\<lparr>msg_LastEnqueueTime := arrival_time, msg_counter := mb_msg_counter b\<rparr>;
            h = heap_insert m2 (mb_prio_heap b) in
        bindR (assertR (mb_max_size b = 0 \<or> int (length h) + mb_stall_map_size b \<le> int (mb_max_size b))) (\<lambda>_.
        bindR (assertR (mb_consumer b)) (\<lambda>_.
          Inr (m2, b\<lparr>mb_last_arrival_time := (if rf_warmup fl then last_arrival else arrival_time), mb_prio_heap := h,
                     mb_buf_msgs := mb_buf_msgs b + 1\<rparr>,
               [Consumer_at arrival_time, Consumer_info (mb_vnet_id b)])))))))))"

definition mb_delayHead ::
  "ruby_flags \<Rightarrow> (int \<Rightarrow> int \<Rightarrow> int) \<Rightarrow> Tick \<Rightarrow> Tick \<Rightarrow> 'p MessageBuffer \<Rightarrow> ('p Message \<times> 'p MessageBuffer \<times> mb_req list) res" where
  "mb_delayHead fl draw current_time delta b =
     bindR (mb_front b) (\<lambda>m.
       mb_enqueue fl draw current_time delta m (b\<lparr>mb_prio_heap := heap_remove (mb_prio_heap b)\<rparr>))"

definition mb_isReady :: "Tick \<Rightarrow> 'p MessageBuffer \<Rightarrow> (bool \<times> mb_req list) res" where
  "mb_isReady current_time b =
     bindR (assertR (mb_time_last_time_pop b \<le> current_time)) (\<lambda>_.
       let can_dequeue = (mb_max_dequeue_rate b = 0 \<or> mb_time_last_time_pop b < current_time
             \<or> mb_dequeues_this_cy b < mb_max_dequeue_rate b);
           is_ready = (mb_prio_heap b \<noteq> [] \<and> msg_LastEnqueueTime (hd (mb_prio_heap b)) \<le> current_time) in
       if \<not> can_dequeue \<and> is_ready
       then bindR (failIf (\<not> mb_consumer b) Null_deref) (\<lambda>_. Inr (False, [Consumer_in 1]))
       else Inr (can_dequeue \<and> is_ready, []))"

definition mb_readyTime :: "'p MessageBuffer \<Rightarrow> Tick option" where
  "mb_readyTime b = (case mb_prio_heap b of [] \<Rightarrow> None | m # _ \<Rightarrow> Some (msg_LastEnqueueTime m))"

definition assert_ready :: "Tick \<Rightarrow> 'p MessageBuffer \<Rightarrow> unit res" where
  "assert_ready current_time b = bindR (mb_isReady current_time b) (\<lambda>(ready, _). assertR ready)"

text \<open>The sizes at the start of a cycle are kept at its first pop, so that pops show in the next cycle only.\<close>

definition count_pop :: "Tick \<Rightarrow> 'p MessageBuffer \<Rightarrow> 'p MessageBuffer" where
  "count_pop current_time b =
     (let b1 = (if mb_time_last_time_pop b < current_time
                then b\<lparr>mb_size_at_cycle_start := length (mb_prio_heap b), mb_stalled_at_cycle_start := nat (mb_stall_map_size b),
                       mb_time_last_time_pop := current_time, mb_dequeues_this_cy := 0\<rparr>
                else b)
      in b1\<lparr>mb_dequeues_this_cy := mb_dequeues_this_cy b1 + 1\<rparr>)"

definition count_removed :: "Tick \<Rightarrow> 'p Message \<Rightarrow> 'p MessageBuffer \<Rightarrow> 'p MessageBuffer" where
  "count_removed now message b = b\<lparr>mb_stall_time := mb_stall_time b + (int now - int (msg_LastEnqueueTime message)),
     mb_msg_count := mb_msg_count b + 1, mb_buf_msgs := mb_buf_msgs b - 1\<rparr>"

text \<open>\<open>dequeue\<close> returns the message removed, its delay and whether the callback is to be run; \<open>now\<close> is the current
  tick of the simulation.\<close>

definition mb_dequeue ::
  "Tick \<Rightarrow> Tick \<Rightarrow> bool \<Rightarrow> 'p MessageBuffer \<Rightarrow> ('p Message \<times> Tick \<times> bool \<times> 'p MessageBuffer) res" where
  "mb_dequeue now current_time decrement_messages b =
     bindR (assert_ready current_time b) (\<lambda>_.
     bindR (mb_front b) (\<lambda>m.
     bindR (updateDelayedTicks current_time m) (\<lambda>message.
       let b1 = count_pop current_time b; b2 = b1\<lparr>mb_prio_heap := heap_remove (mb_prio_heap b1)\<rparr>
       in Inr (message, msg_DelayedTicks message, mb_dequeue_callback b2,
               if decrement_messages then count_removed now message b2 else b2))))"

definition mb_clear :: "'p MessageBuffer \<Rightarrow> 'p MessageBuffer" where
  "mb_clear b = b\<lparr>mb_prio_heap := [], mb_msg_counter := 0, mb_time_last_time_enqueue := 0, mb_time_last_time_pop := 0,
     mb_size_at_cycle_start := 0, mb_stalled_at_cycle_start := 0, mb_msgs_this_cycle := 0\<rparr>"

definition mb_clearStats :: "'p MessageBuffer \<Rightarrow> 'p MessageBuffer" where
  "mb_clearStats b = b\<lparr>mb_not_avail_count := 0, mb_msg_counter := 0\<rparr>"

definition mb_recycle :: "Tick \<Rightarrow> Tick \<Rightarrow> 'p MessageBuffer \<Rightarrow> ('p MessageBuffer \<times> mb_req list) res" where
  "mb_recycle current_time recycle_latency b =
     bindR (assert_ready current_time b) (\<lambda>_.
     bindR (mb_front b) (\<lambda>node.
       let h = pop_heap msg_greater (mb_prio_heap b); future_time = current_time + recycle_latency;
           h' = push_heap msg_greater (h[length h - 1 := node\<lparr>msg_LastEnqueueTime := future_time\<rparr>])
       in bindR (failIf (\<not> mb_consumer b) Null_deref) (\<lambda>_. Inr (b\<lparr>mb_prio_heap := h'\<rparr>, [Consumer_at future_time]))))"

section \<open>Stalled and deferred messages\<close>

fun reanalyzeList :: "Tick \<Rightarrow> 'p Message list \<Rightarrow> 'p MessageBuffer \<Rightarrow> ('p MessageBuffer \<times> mb_req list) res" where
  "reanalyzeList schdTick [] b = Inr (b, [])"
| "reanalyzeList schdTick (m # lt) b =
     bindR (assertR (msg_LastEnqueueTime m \<le> schdTick)) (\<lambda>_.
     bindR (failIf (\<not> mb_consumer b) Null_deref) (\<lambda>_.
     bindR (reanalyzeList schdTick lt (b\<lparr>mb_prio_heap := heap_insert m (mb_prio_heap b)\<rparr>)) (\<lambda>(b', reqs).
       Inr (b', Consumer_at schdTick # reqs))))"

definition mb_reanalyzeMessages :: "nat \<Rightarrow> Tick \<Rightarrow> 'p MessageBuffer \<Rightarrow> ('p MessageBuffer \<times> mb_req list) res" where
  "mb_reanalyzeMessages addr current_time b =
     (case map_of (mb_stall_msg_map b) addr of
        None \<Rightarrow> Inl Assert_fail
      | Some lt \<Rightarrow>
          let sz = mb_stall_map_size b - int (length lt) in
          bindR (assertR (sz \<ge> 0)) (\<lambda>_.
          bindR (reanalyzeList current_time lt (b\<lparr>mb_stall_map_size := sz\<rparr>)) (\<lambda>(b', reqs).
            Inr (b'\<lparr>mb_stall_msg_map := filter (\<lambda>e. fst e \<noteq> addr) (mb_stall_msg_map b')\<rparr>, reqs))))"

fun reanalyze_lists :: "Tick \<Rightarrow> (nat \<times> 'p Message list) list \<Rightarrow> 'p MessageBuffer \<Rightarrow> ('p MessageBuffer \<times> mb_req list) res" where
  "reanalyze_lists current_time [] b = Inr (b, [])"
| "reanalyze_lists current_time ((_, lt) # rest) b =
     (let sz = mb_stall_map_size b - int (length lt) in
      bindR (assertR (sz \<ge> 0)) (\<lambda>_.
      bindR (reanalyzeList current_time lt (b\<lparr>mb_stall_map_size := sz\<rparr>)) (\<lambda>(b1, reqs1).
      bindR (reanalyze_lists current_time rest b1) (\<lambda>(b2, reqs2). Inr (b2, reqs1 @ reqs2)))))"

definition mb_reanalyzeAllMessages :: "Tick \<Rightarrow> 'p MessageBuffer \<Rightarrow> ('p MessageBuffer \<times> mb_req list) res" where
  "mb_reanalyzeAllMessages current_time b =
     bindR (reanalyze_lists current_time (mb_stall_msg_map b) b) (\<lambda>(b', reqs). Inr (b'\<lparr>mb_stall_msg_map := []\<rparr>, reqs))"

definition getOffset :: "ruby_flags \<Rightarrow> nat \<Rightarrow> nat" where
  "getOffset fl addr = addr mod 2 ^ rf_block_size_bits fl"

text \<open>\<open>m_stall_msg_map[addr].push_back(m)\<close> on the sorted map.\<close>

fun stall_push :: "nat \<Rightarrow> 'm \<Rightarrow> (nat \<times> 'm list) list \<Rightarrow> (nat \<times> 'm list) list" where
  "stall_push addr m [] = [(addr, [m])]"
| "stall_push addr m ((a, ms) # rest) =
     (if addr = a then (a, ms @ [m]) # rest else if addr < a then (addr, [m]) # (a, ms) # rest
      else (a, ms) # stall_push addr m rest)"

definition mb_stallMessage :: "ruby_flags \<Rightarrow> Tick \<Rightarrow> nat \<Rightarrow> Tick \<Rightarrow> 'p MessageBuffer \<Rightarrow> (bool \<times> 'p MessageBuffer) res" where
  "mb_stallMessage fl now addr current_time b =
     bindR (assert_ready current_time b) (\<lambda>_.
     bindR (assertR (getOffset fl addr = 0)) (\<lambda>_.
     bindR (mb_dequeue now current_time False b) (\<lambda>(message, _, callback, b1).
       Inr (callback, b1\<lparr>mb_stall_msg_map := stall_push addr message (mb_stall_msg_map b1),
         mb_stall_map_size := mb_stall_map_size b1 + 1, mb_stall_count := mb_stall_count b1 + 1\<rparr>))))"

definition mb_hasStalledMsg :: "nat \<Rightarrow> 'p MessageBuffer \<Rightarrow> bool" where
  "mb_hasStalledMsg addr b = (map_of (mb_stall_msg_map b) addr \<noteq> None)"

definition mb_deferEnqueueingMessage :: "nat \<Rightarrow> 'p Message \<Rightarrow> 'p MessageBuffer \<Rightarrow> 'p MessageBuffer" where
  "mb_deferEnqueueingMessage addr message b =
     b\<lparr>mb_deferred_msg_map := (mb_deferred_msg_map b)(addr \<mapsto>
        (case mb_deferred_msg_map b addr of None \<Rightarrow> [] | Some ms \<Rightarrow> ms) @ [message])\<rparr>"

definition mb_isDeferredMsgMapEmpty :: "nat \<Rightarrow> 'p MessageBuffer \<Rightarrow> bool" where
  "mb_isDeferredMsgMapEmpty addr b = (mb_deferred_msg_map b addr = None)"

fun enqueue_all ::
  "ruby_flags \<Rightarrow> (nat \<Rightarrow> int \<Rightarrow> int \<Rightarrow> int) \<Rightarrow> Tick \<Rightarrow> Tick \<Rightarrow> 'p Message list \<Rightarrow> 'p MessageBuffer \<Rightarrow> ('p MessageBuffer \<times> mb_req list) res" where
  "enqueue_all fl draws curTime delay [] b = Inr (b, [])"
| "enqueue_all fl draws curTime delay (m # ms) b =
     bindR (mb_enqueue fl (draws (length ms)) curTime delay m b) (\<lambda>(_, b1, reqs1).
     bindR (enqueue_all fl draws curTime delay ms b1) (\<lambda>(b2, reqs2). Inr (b2, reqs1 @ reqs2)))"

definition mb_enqueueDeferredMessages ::
  "ruby_flags \<Rightarrow> (nat \<Rightarrow> int \<Rightarrow> int \<Rightarrow> int) \<Rightarrow> nat \<Rightarrow> Tick \<Rightarrow> Tick \<Rightarrow> 'p MessageBuffer \<Rightarrow> ('p MessageBuffer \<times> mb_req list) res" where
  "mb_enqueueDeferredMessages fl draws addr curTime delay b =
     (case mb_deferred_msg_map b addr of
        None \<Rightarrow> Inl Assert_fail
      | Some msg_vec \<Rightarrow>
          bindR (assertR (msg_vec \<noteq> [])) (\<lambda>_.
          bindR (enqueue_all fl draws curTime delay msg_vec b) (\<lambda>(b', reqs).
            Inr (b'\<lparr>mb_deferred_msg_map := (mb_deferred_msg_map b')(addr := None)\<rparr>, reqs))))"

section \<open>Functional accesses\<close>

text \<open>The virtual functions of the message classes: a read updates the packet, a write the message.\<close>

record ('p, 'k) msg_access =
  ma_read :: "'p Message \<Rightarrow> 'k \<Rightarrow> (bool \<times> 'k) res"
  ma_read_mask :: "'p Message \<Rightarrow> 'k \<Rightarrow> (bool \<times> 'k) res"
  ma_write :: "'p Message \<Rightarrow> 'k \<Rightarrow> (bool \<times> 'p Message) res"

text \<open>The loop over a list of messages; the first component of the result tells an early return.\<close>

fun access_messages ::
  "('p, 'k) msg_access \<Rightarrow> bool \<Rightarrow> bool \<Rightarrow> 'p Message list \<Rightarrow> nat \<Rightarrow> 'k \<Rightarrow> (bool \<times> nat \<times> 'p Message list \<times> 'k) res" where
  "access_messages acc is_read masked [] n pkt = Inr (False, n, [], pkt)"
| "access_messages acc is_read masked (m # ms) n pkt =
     (if is_read \<and> \<not> masked then
        bindR (ma_read acc m pkt) (\<lambda>(hit, pkt').
          if hit then Inr (True, 1, m # ms, pkt')
          else bindR (access_messages acc is_read masked ms n pkt') (\<lambda>(e, n', ms', p). Inr (e, n', m # ms', p)))
      else if is_read then
        bindR (ma_read_mask acc m pkt) (\<lambda>(hit, pkt').
        bindR (access_messages acc is_read masked ms (if hit then n + 1 else n) pkt') (\<lambda>(e, n', ms', p). Inr (e, n', m # ms', p)))
      else
        bindR (ma_write acc m pkt) (\<lambda>(hit, m').
        bindR (access_messages acc is_read masked ms (if hit then n + 1 else n) pkt) (\<lambda>(e, n', ms', p). Inr (e, n', m' # ms', p))))"

fun access_stalled ::
  "('p, 'k) msg_access \<Rightarrow> bool \<Rightarrow> bool \<Rightarrow> (nat \<times> 'p Message list) list \<Rightarrow> nat \<Rightarrow> 'k
     \<Rightarrow> (nat \<times> (nat \<times> 'p Message list) list \<times> 'k) res" where
  "access_stalled acc is_read masked [] n pkt = Inr (n, [], pkt)"
| "access_stalled acc is_read masked ((a, ms) # rest) n pkt =
     bindR (access_messages acc is_read masked ms n pkt) (\<lambda>(early, n', ms', pkt').
       if early then Inr (n', (a, ms') # rest, pkt')
       else bindR (access_stalled acc is_read masked rest n' pkt') (\<lambda>(n'', rest', p). Inr (n'', (a, ms') # rest', p)))"

definition mb_functionalAccess ::
  "('p, 'k) msg_access \<Rightarrow> bool \<Rightarrow> bool \<Rightarrow> 'k \<Rightarrow> 'p MessageBuffer \<Rightarrow> (nat \<times> 'p MessageBuffer \<times> 'k) res" where
  "mb_functionalAccess acc is_read masked pkt b =
     bindR (access_messages acc is_read masked (mb_prio_heap b) 0 pkt) (\<lambda>(early, n, h, pkt').
       if early then Inr (n, b\<lparr>mb_prio_heap := h\<rparr>, pkt')
       else bindR (access_stalled acc is_read masked (mb_stall_msg_map b) n pkt') (\<lambda>(n', st, p).
         Inr (n', b\<lparr>mb_prio_heap := h, mb_stall_msg_map := st\<rparr>, p)))"

definition mb_functionalWrite :: "('p, 'k) msg_access \<Rightarrow> 'k \<Rightarrow> 'p MessageBuffer \<Rightarrow> (nat \<times> 'p MessageBuffer) res" where
  "mb_functionalWrite acc pkt b = bindR (mb_functionalAccess acc False False pkt b) (\<lambda>(n, b', _). Inr (n, b'))"

definition mb_functionalRead :: "('p, 'k) msg_access \<Rightarrow> 'k \<Rightarrow> 'p MessageBuffer \<Rightarrow> (bool \<times> 'k) res" where
  "mb_functionalRead acc pkt b = bindR (mb_functionalAccess acc True False pkt b) (\<lambda>(n, _, p). Inr (n = 1, p))"

definition mb_functionalRead_mask :: "('p, 'k) msg_access \<Rightarrow> 'k \<Rightarrow> 'p MessageBuffer \<Rightarrow> (bool \<times> 'k) res" where
  "mb_functionalRead_mask acc pkt b = bindR (mb_functionalAccess acc True True pkt b) (\<lambda>(n, _, p). Inr (n = 1, p))"

end
