(* ===== verification/Message_Order.thy ===== *)
theory Message_Order
  imports Message_Buffer
begin

text \<open>
  What a message buffer promises its users: whatever sequence of operations has been performed, \<open>dequeue\<close> removes a
  ready message with the smallest arrival time and, among those, the smallest counter; a buffer that is declared
  ordered is a queue; and a positive answer of \<open>areNSlotsAvailable\<close> is reliable.
\<close>

section \<open>The heap of the buffer\<close>

abbreviation msg_heap :: "'p Message list \<Rightarrow> bool" where
  "msg_heap h \<equiv> heap_upto msg_greater (length h) h"

lemma heap_insert_ok:
  assumes "msg_heap h"
  shows "msg_heap (heap_insert m h)" and "mset (heap_insert m h) = add_mset m (mset h)" and "length (heap_insert m h) = Suc (length h)"
proof -
  show m: "mset (heap_insert m h) = add_mset m (mset h)" unfolding heap_insert_def by (rule msgh.push_heap_heap(2) [OF assms])
  then show l: "length (heap_insert m h) = Suc (length h)" by (metis size_add_mset size_mset)
  show "msg_heap (heap_insert m h)" using msgh.push_heap_heap(1) [OF assms, of m] l by (simp add: heap_insert_def)
qed

lemma heap_remove_ok:
  assumes "msg_heap h" and "h \<noteq> []"
  shows "msg_heap (heap_remove h)" and "add_mset (h ! 0) (mset (heap_remove h)) = mset h" and "length (heap_remove h) = length h - 1"
  using msgh.pop_heap_heap [OF assms] by (simp_all add: heap_remove_def)

lemma heap_remove_mset: "msg_heap h \<Longrightarrow> h \<noteq> [] \<Longrightarrow> mset (heap_remove h) = mset h - {#h ! 0#}"
  by (metis add_mset_remove_trivial heap_remove_ok(2))

lemma heap_front_least:
  assumes "msg_heap h" and "y \<in> set h"
  shows "key_of (h ! 0) \<le> key_of y"
  using msgh.front_least [OF assms(1)] assms(2) by (auto simp: in_set_conv_nth msg_greater_key not_less)

lemma msg_heap_update:
  assumes "msg_heap h" and "h \<noteq> []"
  defines "k \<equiv> pop_heap msg_greater h"
  shows "push_heap msg_greater (k[length k - 1 := x]) = heap_insert x (heap_remove h)"
proof -
  have "k \<noteq> []" using msgh.pop_heap_heap(1) [OF assms(1,2)] assms(2) by (auto simp: k_def)
  then have "k[length k - 1 := x] = butlast k @ [x]" by (cases k rule: rev_cases) simp_all
  then show ?thesis by (simp add: heap_insert_def heap_remove_def k_def)
qed

section \<open>Steps of a buffer in simulated time\<close>

definition stalled :: "'p MessageBuffer \<Rightarrow> 'p Message list" where
  "stalled b = concat (map snd (mb_stall_msg_map b))"

definition mb_start :: "'p MessageBuffer \<Rightarrow> bool" where
  "mb_start b \<longleftrightarrow> (\<exists>sz rate ord rnd zl prio. mb_setConsumer (MessageBuffer_new sz rate ord rnd zl prio) = Inr b)"

inductive mb_step :: "ruby_flags \<Rightarrow> Tick \<times> 'p MessageBuffer \<Rightarrow> Tick \<times> 'p MessageBuffer \<Rightarrow> bool" for fl where
  pass: "now \<le> now' \<Longrightarrow> mb_step fl (now, b) (now', b)"
| enqueue: "mb_enqueue fl draw now delta m b = Inr (m', b', reqs) \<Longrightarrow> mb_step fl (now, b) (now, b')"
| delayHead: "mb_delayHead fl draw now delta b = Inr (m', b', reqs) \<Longrightarrow> mb_step fl (now, b) (now, b')"
| dequeue: "mb_dequeue tick now dec b = Inr (m, delay, cb, b') \<Longrightarrow> mb_step fl (now, b) (now, b')"
| recycle: "mb_recycle now latency b = Inr (b', reqs) \<Longrightarrow> mb_step fl (now, b) (now, b')"
| stall: "mb_stallMessage fl tick addr now b = Inr (cb, b') \<Longrightarrow> mb_step fl (now, b) (now, b')"
| reanalyze: "mb_reanalyzeMessages addr now b = Inr (b', reqs) \<Longrightarrow> mb_step fl (now, b) (now, b')"
| reanalyzeAll: "mb_reanalyzeAllMessages now b = Inr (b', reqs) \<Longrightarrow> mb_step fl (now, b) (now, b')"
| put_off: "mb_step fl (now, b) (now, mb_deferEnqueueingMessage addr m b)"
| deferred: "mb_enqueueDeferredMessages fl draws addr now delay b = Inr (b', reqs) \<Longrightarrow> mb_step fl (now, b) (now, b')"
| slots: "mb_areNSlotsAvailable n now b = (ok, b') \<Longrightarrow> mb_step fl (now, b) (now, b')"
| getSize: "mb_getSize now b = (n, b') \<Longrightarrow> mb_step fl (now, b) (now, b')"
| clear: "0 < now \<Longrightarrow> mb_step fl (now, b) (now, mb_clear b)"

definition mb_ok :: "'p MessageBuffer \<Rightarrow> bool" where
  "mb_ok b \<longleftrightarrow> msg_heap (mb_prio_heap b) \<and> mb_consumer b \<and> mb_stall_map_size b = int (length (stalled b))
     \<and> sorted_wrt (<) (map fst (mb_stall_msg_map b))
     \<and> (mb_max_size b = 0 \<or> length (mb_prio_heap b) + length (stalled b) \<le> mb_max_size b)"

text \<open>The sizes recorded at the start of a cycle bound the number of messages held.\<close>

definition mb_timed :: "Tick \<Rightarrow> 'p MessageBuffer \<Rightarrow> bool" where
  "mb_timed now b \<longleftrightarrow> mb_time_last_time_pop b \<le> now \<and> mb_time_last_time_enqueue b \<le> now
     \<and> (mb_time_last_time_pop b = now \<longrightarrow> length (mb_prio_heap b) + length (stalled b)
           \<le> mb_size_at_cycle_start b + mb_stalled_at_cycle_start b
             + (if mb_time_last_time_enqueue b = now then mb_msgs_this_cycle b else 0))"

definition mb_inv :: "Tick \<times> 'p MessageBuffer \<Rightarrow> bool" where
  "mb_inv s \<longleftrightarrow> mb_ok (snd s) \<and> mb_timed (fst s) (snd s)"

text \<open>What the operations do to the parts the invariant speaks of.\<close>

lemma count_enqueue_fields [simp]:
  "mb_prio_heap (count_enqueue now b) = mb_prio_heap b" "mb_consumer (count_enqueue now b) = mb_consumer b"
  "mb_stall_msg_map (count_enqueue now b) = mb_stall_msg_map b" "mb_stall_map_size (count_enqueue now b) = mb_stall_map_size b"
  "mb_max_size (count_enqueue now b) = mb_max_size b" "mb_time_last_time_pop (count_enqueue now b) = mb_time_last_time_pop b"
  "mb_size_at_cycle_start (count_enqueue now b) = mb_size_at_cycle_start b"
  "mb_stalled_at_cycle_start (count_enqueue now b) = mb_stalled_at_cycle_start b"
  "mb_time_last_time_enqueue (count_enqueue now b) = max now (mb_time_last_time_enqueue b)"
  "mb_msgs_this_cycle (count_enqueue now b) = (if mb_time_last_time_enqueue b < now then 1 else mb_msgs_this_cycle b + 1)"
  "mb_msg_counter (count_enqueue now b) = mb_msg_counter b + 1" "mb_strict_fifo (count_enqueue now b) = mb_strict_fifo b"
  "mb_last_arrival_time (count_enqueue now b) = mb_last_arrival_time b"
  by (simp_all add: count_enqueue_def Let_def)

lemma count_pop_fields [simp]:
  "mb_prio_heap (count_pop now b) = mb_prio_heap b" "mb_consumer (count_pop now b) = mb_consumer b"
  "mb_stall_msg_map (count_pop now b) = mb_stall_msg_map b" "mb_stall_map_size (count_pop now b) = mb_stall_map_size b"
  "mb_max_size (count_pop now b) = mb_max_size b" "mb_time_last_time_pop (count_pop now b) = max now (mb_time_last_time_pop b)"
  "mb_size_at_cycle_start (count_pop now b) = (if mb_time_last_time_pop b < now then length (mb_prio_heap b) else mb_size_at_cycle_start b)"
  "mb_stalled_at_cycle_start (count_pop now b) = (if mb_time_last_time_pop b < now then nat (mb_stall_map_size b) else mb_stalled_at_cycle_start b)"
  "mb_time_last_time_enqueue (count_pop now b) = mb_time_last_time_enqueue b" "mb_msgs_this_cycle (count_pop now b) = mb_msgs_this_cycle b"
  "mb_msg_counter (count_pop now b) = mb_msg_counter b" "mb_strict_fifo (count_pop now b) = mb_strict_fifo b"
  "mb_last_arrival_time (count_pop now b) = mb_last_arrival_time b"
  by (simp_all add: count_pop_def Let_def)

text \<open>The outcome of a successful enqueue, and of a successful dequeue.\<close>

lemma mb_enqueue_InrE:
  assumes "mb_enqueue fl draw now delta m b = Inr (m', b', reqs)"
  obtains t l n where "arrival fl draw now delta (count_enqueue now b) = (t, l)" and "now \<le> t" and "mb_strict_fifo b \<longrightarrow> l \<le> t"
    and "m' = m\<lparr>msg_DelayedTicks := msg_DelayedTicks m + (now - msg_LastEnqueueTime m), msg_LastEnqueueTime := t, msg_counter := mb_msg_counter b + 1\<rparr>"
    and "mb_consumer b" and "mb_max_size b = 0 \<or> int (length (heap_insert m' (mb_prio_heap b))) + mb_stall_map_size b \<le> int (mb_max_size b)"
    and "b' = (count_enqueue now b)\<lparr>mb_last_arrival_time := (if rf_warmup fl then l else t), mb_prio_heap := heap_insert m' (mb_prio_heap b), mb_buf_msgs := n\<rparr>"
proof -
  obtain t l where a: "arrival fl draw now delta (count_enqueue now b) = (t, l)" by force
  show thesis
    using assms unfolding mb_enqueue_def Let_def a updateDelayedTicks_def
    by (intro that [OF a, where n = "mb_buf_msgs (count_enqueue now b) + 1"])
      (auto simp: assertR_Inr_iff failIf_Inr_iff elim!: bindR_InrE)
qed

lemma mb_dequeue_InrE:
  assumes "mb_dequeue tick now dec b = Inr (m, delay, cb, b')"
  obtains x h where "mb_prio_heap b = x # h" and "msg_LastEnqueueTime x \<le> now" and "mb_time_last_time_pop b \<le> now"
    and "m = x\<lparr>msg_DelayedTicks := msg_DelayedTicks x + (now - msg_LastEnqueueTime x)\<rparr>"
    and "b' = (let b1 = (count_pop now b)\<lparr>mb_prio_heap := heap_remove (mb_prio_heap b)\<rparr> in if dec then count_removed tick m b1 else b1)"
proof -
  from assms have r: "mb_time_last_time_pop b \<le> now" "mb_prio_heap b \<noteq> []"
    unfolding mb_dequeue_def assert_ready_def mb_isReady_def Let_def
    by (auto simp: assertR_Inr_iff failIf_Inr_iff bindR_Inr_iff split: if_splits)
  then obtain x h where x: "mb_prio_heap b = x # h" by (cases "mb_prio_heap b") auto
  then have f: "mb_front b = Inr x" by (simp add: mb_front_def at_def)
  show thesis
    using assms x r unfolding mb_dequeue_def f updateDelayedTicks_def Let_def
    by (intro that [OF x]) (auto simp: assertR_Inr_iff bindR_Inr_iff)
qed

lemma mb_enqueue_inv:
  assumes inv: "mb_ok b" "mb_timed now b" and e: "mb_enqueue fl draw now delta m b = Inr (m', b', reqs)"
  shows "mb_ok b'" and "mb_timed now b'"
proof -
  from e obtain t l n where x: "mb_consumer b" "mb_max_size b = 0 \<or> int (length (heap_insert m' (mb_prio_heap b))) + mb_stall_map_size b \<le> int (mb_max_size b)"
    "b' = (count_enqueue now b)\<lparr>mb_last_arrival_time := (if rf_warmup fl then l else t), mb_prio_heap := heap_insert m' (mb_prio_heap b), mb_buf_msgs := n\<rparr>"
    by (rule mb_enqueue_InrE)
  have st: "stalled b' = stalled b" by (simp add: x(3) stalled_def)
  have h: "msg_heap (heap_insert m' (mb_prio_heap b))" "length (heap_insert m' (mb_prio_heap b)) = Suc (length (mb_prio_heap b))"
    using inv(1) heap_insert_ok by (auto simp: mb_ok_def)
  show "mb_ok b'" using inv(1) x(1,2) h st unfolding mb_ok_def by (auto simp: x(3))
  show "mb_timed now b'" using inv(2) h(2) st unfolding mb_timed_def by (auto simp: x(3) max_def)
qed

lemma mb_dequeue_inv:
  assumes inv: "mb_ok b" "mb_timed now b" and e: "mb_dequeue tick now dec b = Inr (m, delay, cb, b')"
  shows "mb_ok b'" and "mb_timed now b'" and "length (mb_prio_heap b) = Suc (length (mb_prio_heap b'))"
    and "stalled b' = stalled b" and "mb_time_last_time_pop b' = now" and "mb_stall_msg_map b' = mb_stall_msg_map b"
proof -
  from e obtain x h where x: "mb_prio_heap b = x # h" "mb_time_last_time_pop b \<le> now"
    "b' = (let b1 = (count_pop now b)\<lparr>mb_prio_heap := heap_remove (mb_prio_heap b)\<rparr> in if dec then count_removed tick m b1 else b1)"
    by (rule mb_dequeue_InrE)
  have f: "mb_prio_heap b' = heap_remove (mb_prio_heap b)" "mb_consumer b' = mb_consumer b" "mb_stall_msg_map b' = mb_stall_msg_map b"
    "mb_stall_map_size b' = mb_stall_map_size b" "mb_max_size b' = mb_max_size b" "mb_time_last_time_pop b' = now"
    "mb_size_at_cycle_start b' = (if mb_time_last_time_pop b < now then length (mb_prio_heap b) else mb_size_at_cycle_start b)"
    "mb_stalled_at_cycle_start b' = (if mb_time_last_time_pop b < now then nat (mb_stall_map_size b) else mb_stalled_at_cycle_start b)"
    "mb_time_last_time_enqueue b' = mb_time_last_time_enqueue b" "mb_msgs_this_cycle b' = mb_msgs_this_cycle b"
    using x(2) by (simp_all add: x(3) Let_def count_removed_def max_def)
  show st: "stalled b' = stalled b" by (simp add: f stalled_def)
  have h: "msg_heap (mb_prio_heap b')" "length (mb_prio_heap b) = Suc (length (mb_prio_heap b'))"
    using heap_remove_ok [of "mb_prio_heap b"] inv(1) x(1) by (simp_all add: mb_ok_def f)
  show "length (mb_prio_heap b) = Suc (length (mb_prio_heap b'))" "mb_time_last_time_pop b' = now" "mb_stall_msg_map b' = mb_stall_msg_map b"
    by (fact h(2) f(6) f(3))+
  show "mb_ok b'" using inv(1) h st unfolding mb_ok_def by (auto simp: f(2-5))
  show "mb_timed now b'" using inv h st x(2) unfolding mb_timed_def mb_ok_def by (auto simp: f(6-10))
qed

lemma mb_recycle_eq:
  assumes "mb_recycle now latency b = Inr (b', reqs)" and "mb_ok b"
  shows "\<exists>x h. mb_prio_heap b = x # h \<and> b' = b\<lparr>mb_prio_heap := heap_insert (x\<lparr>msg_LastEnqueueTime := now + latency\<rparr>) (heap_remove (mb_prio_heap b))\<rparr>"
proof -
  from assms have "mb_prio_heap b \<noteq> []"
    unfolding mb_recycle_def assert_ready_def mb_isReady_def Let_def by (auto simp: assertR_Inr_iff failIf_Inr_iff bindR_Inr_iff split: if_splits)
  then obtain x h where x: "mb_prio_heap b = x # h" by (cases "mb_prio_heap b") auto
  then have f: "mb_front b = Inr x" by (simp add: mb_front_def at_def)
  from assms(1) have "b' = b\<lparr>mb_prio_heap := push_heap msg_greater ((pop_heap msg_greater (mb_prio_heap b))
      [length (pop_heap msg_greater (mb_prio_heap b)) - 1 := x\<lparr>msg_LastEnqueueTime := now + latency\<rparr>])\<rparr>"
    unfolding mb_recycle_def f Let_def by (auto simp: bindR_Inr_iff)
  also have "\<dots> = b\<lparr>mb_prio_heap := heap_insert (x\<lparr>msg_LastEnqueueTime := now + latency\<rparr>) (heap_remove (mb_prio_heap b))\<rparr>"
    using msg_heap_update [of "mb_prio_heap b"] x assms(2) by (simp add: mb_ok_def)
  finally show ?thesis using x by blast
qed

text \<open>Moving stalled messages back leaves the total as it is.\<close>

lemma reanalyzeList_effect:
  assumes "reanalyzeList now lt b = Inr (b', reqs)" and "msg_heap (mb_prio_heap b)"
  shows "\<exists>h. b' = b\<lparr>mb_prio_heap := h\<rparr> \<and> msg_heap h \<and> mset h = mset (mb_prio_heap b) + mset lt"
  using assms
proof (induction lt arbitrary: b b' reqs)
  case Nil
  then show ?case by (auto intro!: exI [of _ "mb_prio_heap b"])
next
  case (Cons m lt)
  let ?b1 = "b\<lparr>mb_prio_heap := heap_insert m (mb_prio_heap b)\<rparr>"
  from Cons.prems(1) obtain reqs1 where r: "reanalyzeList now lt ?b1 = Inr (b', reqs1)" by (auto simp: bindR_Inr_iff)
  have h: "msg_heap (mb_prio_heap ?b1)" "mset (mb_prio_heap ?b1) = add_mset m (mset (mb_prio_heap b))"
    using heap_insert_ok [OF Cons.prems(2)] by simp_all
  from Cons.IH [OF r h(1)] h(2) show ?case by auto
qed

lemma reanalyze_lists_effect:
  assumes "reanalyze_lists now es b = Inr (b', reqs)" and "msg_heap (mb_prio_heap b)"
  shows "\<exists>h. b' = b\<lparr>mb_prio_heap := h, mb_stall_map_size := mb_stall_map_size b - int (length (concat (map snd es)))\<rparr>
    \<and> msg_heap h \<and> mset h = mset (mb_prio_heap b) + mset (concat (map snd es))"
  using assms
proof (induction es arbitrary: b b' reqs)
  case Nil
  then show ?case by (auto intro!: exI [of _ "mb_prio_heap b"])
next
  case (Cons e es)
  obtain a lt where e: "e = (a, lt)" by force
  let ?b0 = "b\<lparr>mb_stall_map_size := mb_stall_map_size b - int (length lt)\<rparr>"
  from Cons.prems(1) obtain b1 reqs1 reqs2 where r: "reanalyzeList now lt ?b0 = Inr (b1, reqs1)" "reanalyze_lists now es b1 = Inr (b', reqs2)"
    by (auto simp: bindR_Inr_iff e Let_def)
  from reanalyzeList_effect [OF r(1)] Cons.prems(2) obtain h where
    h: "b1 = ?b0\<lparr>mb_prio_heap := h\<rparr>" "msg_heap h" "mset h = mset (mb_prio_heap b) + mset lt" by auto
  from Cons.IH [OF r(2)] h obtain k where "b' = b1\<lparr>mb_prio_heap := k, mb_stall_map_size := mb_stall_map_size b1 - int (length (concat (map snd es)))\<rparr>"
    "msg_heap k" "mset k = mset (mb_prio_heap b1) + mset (concat (map snd es))" by auto
  then show ?case using h by (intro exI [of _ k]) (simp add: e algebra_simps)
qed

text \<open>The sorted map of stalled messages.\<close>

lemma stall_push_keys: "fst ` set (stall_push a m es) = insert a (fst ` set es)"
  by (induction a m es rule: stall_push.induct) auto

lemma stall_push_mset: "mset (concat (map snd (stall_push a m es))) = add_mset m (mset (concat (map snd es)))"
  by (induction a m es rule: stall_push.induct) auto

lemma stall_push_sorted: "sorted_wrt (<) (map fst es) \<Longrightarrow> sorted_wrt (<) (map fst (stall_push a m es))"
proof (induction a m es rule: stall_push.induct)
  case (2 a m b ms es)
  then have "\<forall>x \<in> insert a (fst ` set es). b < x" if "\<not> a < b" "a \<noteq> b" using that by auto
  then have "\<forall>x \<in> fst ` set (stall_push a m es). b < x" if "\<not> a < b" "a \<noteq> b" using that by (simp add: stall_push_keys)
  with 2 show ?case by auto
qed simp

lemma stalled_split:
  fixes es :: "(nat \<times> 'a list) list"
  assumes "map_of es a = Some lt" and "sorted_wrt (<) (map fst es)"
  shows "mset (concat (map snd es)) = mset lt + mset (concat (map snd (filter (\<lambda>e. fst e \<noteq> a) es)))"
    and "sorted_wrt (<) (map fst (filter (\<lambda>e. fst e \<noteq> a) es))"
proof -
  have none: "filter (\<lambda>e. fst e \<noteq> a) es = es" if "a \<notin> fst ` set es" for es :: "(nat \<times> 'a list) list"
    using that by (auto intro!: filter_True)
  show "mset (concat (map snd es)) = mset lt + mset (concat (map snd (filter (\<lambda>e. fst e \<noteq> a) es)))"
    using assms
  proof (induction es)
    case (Cons e es)
    show ?case
    proof (cases "fst e = a")
      case True
      with Cons.prems(2) have "a \<notin> fst ` set es" by auto
      with True Cons.prems(1) show ?thesis by (cases e) (simp add: none)
    next
      case False
      with Cons show ?thesis by (cases e) auto
    qed
  qed simp
  show "sorted_wrt (<) (map fst (filter (\<lambda>e. fst e \<noteq> a) es))"
    using assms(2) by (induction es) auto
qed

lemma mb_inv_moved:
  assumes inv: "mb_ok b" "mb_timed now b" and b': "b' = b\<lparr>mb_prio_heap := h, mb_stall_map_size := sz, mb_stall_msg_map := es\<rparr>"
    and h: "msg_heap h" and tot: "mset h + mset (concat (map snd es)) = mset (mb_prio_heap b) + mset (stalled b)"
    and sz: "sz = int (length (concat (map snd es)))" and s: "sorted_wrt (<) (map fst es)"
  shows "mb_ok b'" and "mb_timed now b'"
proof -
  have st: "stalled b' = concat (map snd es)" by (simp add: b' stalled_def)
  have len: "length h + length (concat (map snd es)) = length (mb_prio_heap b) + length (stalled b)"
    using arg_cong [OF tot, of size] by simp
  show "mb_ok b'" using inv(1) h sz s len unfolding mb_ok_def st by (simp add: b')
  show "mb_timed now b'" using inv(2) len unfolding mb_timed_def st by (auto simp: b')
qed

lemma mb_stall_inv:
  assumes inv: "mb_ok b" "mb_timed now b" and s: "mb_stallMessage fl tick addr now b = Inr (cb, b')"
  shows "mb_ok b'" and "mb_timed now b'"
proof -
  from s obtain m d c b1 where d: "mb_dequeue tick now False b = Inr (m, d, c, b1)"
    and b': "b' = b1\<lparr>mb_stall_msg_map := stall_push addr m (mb_stall_msg_map b1), mb_stall_map_size := mb_stall_map_size b1 + 1, mb_stall_count := mb_stall_count b1 + 1\<rparr>"
    by (auto simp: mb_stallMessage_def bindR_Inr_iff)
  note D = mb_dequeue_inv [OF inv d]
  have srt: "sorted_wrt (<) (map fst (mb_stall_msg_map b1))" using D(1) by (simp add: mb_ok_def)
  have "size (mset (stalled b')) = Suc (size (mset (stalled b1)))" by (simp add: b' stalled_def stall_push_mset)
  then have len: "length (stalled b') = Suc (length (stalled b1))" by simp
  have "int (mb_max_size b1) = int (mb_max_size b)"
    using d by (rule mb_dequeue_InrE) (simp add: Let_def count_removed_def)
  then show "mb_ok b'" using inv(1) D(1,3,4) stall_push_sorted [OF srt] len unfolding mb_ok_def by (auto simp: b')
  have t: "mb_time_last_time_pop b' = now" "mb_time_last_time_enqueue b' = mb_time_last_time_enqueue b1" "mb_msgs_this_cycle b' = mb_msgs_this_cycle b1"
    "mb_size_at_cycle_start b' = mb_size_at_cycle_start b1" "mb_stalled_at_cycle_start b' = mb_stalled_at_cycle_start b1" "mb_prio_heap b' = mb_prio_heap b1"
    using D(5) by (simp_all add: b')
  from d obtain x h where x: "mb_prio_heap b = x # h" "mb_time_last_time_pop b \<le> now"
    "b1 = (count_pop now b)\<lparr>mb_prio_heap := heap_remove (mb_prio_heap b)\<rparr>"
    by (rule mb_dequeue_InrE) auto
  have o: "mb_time_last_time_enqueue b1 = mb_time_last_time_enqueue b" "mb_msgs_this_cycle b1 = mb_msgs_this_cycle b"
    "mb_size_at_cycle_start b1 = (if mb_time_last_time_pop b < now then length (mb_prio_heap b) else mb_size_at_cycle_start b)"
    "mb_stalled_at_cycle_start b1 = (if mb_time_last_time_pop b < now then nat (mb_stall_map_size b) else mb_stalled_at_cycle_start b)"
    by (simp_all add: x(3))
  have "nat (mb_stall_map_size b) = length (stalled b)" using inv(1) by (simp add: mb_ok_def)
  then show "mb_timed now b'" using inv(2) D(3,4) len x(2) unfolding mb_timed_def t o by auto
qed

lemma enqueue_all_inv:
  assumes "enqueue_all fl draws now delay ms b = Inr (b', reqs)" and "mb_ok b" and "mb_timed now b"
  shows "mb_ok b' \<and> mb_timed now b'"
  using assms
proof (induction ms arbitrary: b b' reqs)
  case (Cons m ms)
  from Cons.prems(1) obtain m' b1 r1 r2 where "mb_enqueue fl (draws (length ms)) now delay m b = Inr (m', b1, r1)"
    and r: "enqueue_all fl draws now delay ms b1 = Inr (b', r2)" by (auto simp: bindR_Inr_iff)
  from mb_enqueue_inv [OF Cons.prems(2,3) this(1)] show ?case by (rule Cons.IH [OF r])
qed simp

lemma mb_start_inv: "mb_start b \<Longrightarrow> mb_inv (t, b)"
  by (auto simp: mb_start_def mb_setConsumer_def MessageBuffer_new_def mb_inv_def mb_ok_def mb_timed_def stalled_def heap_upto_def)

lemma mb_delayHead_inv:
  assumes inv: "mb_ok b" "mb_timed now b" and d: "mb_delayHead fl draw now delta b = Inr (m', b', reqs)"
  shows "mb_ok b'" and "mb_timed now b'"
proof -
  let ?b = "b\<lparr>mb_prio_heap := heap_remove (mb_prio_heap b)\<rparr>"
  from d obtain m where e: "mb_enqueue fl draw now delta m ?b = Inr (m', b', reqs)" and ne: "mb_prio_heap b \<noteq> []"
    by (auto simp: mb_delayHead_def mb_front_def bindR_Inr_iff at_Inr_iff)
  have st: "stalled ?b = stalled b" by (simp add: stalled_def)
  have "mb_ok ?b" "mb_timed now ?b"
    using inv heap_remove_ok [OF _ ne] unfolding mb_ok_def mb_timed_def st by auto
  from mb_enqueue_inv [OF this e] show "mb_ok b'" "mb_timed now b'" .
qed

lemma mb_recycle_inv:
  assumes inv: "mb_ok b" "mb_timed now b" and r: "mb_recycle now latency b = Inr (b', reqs)"
  shows "mb_ok b'" and "mb_timed now b'"
proof -
  from mb_recycle_eq [OF r inv(1)] obtain x h where x: "mb_prio_heap b = x # h"
    "b' = b\<lparr>mb_prio_heap := heap_insert (x\<lparr>msg_LastEnqueueTime := now + latency\<rparr>) (heap_remove (mb_prio_heap b))\<rparr>" by blast
  have st: "stalled b' = stalled b" by (simp add: x(2) stalled_def)
  have "msg_heap (heap_remove (mb_prio_heap b))" "length (heap_remove (mb_prio_heap b)) = length h"
    using heap_remove_ok [of "mb_prio_heap b"] inv(1) x(1) by (simp_all add: mb_ok_def)
  from heap_insert_ok [OF this(1), of "x\<lparr>msg_LastEnqueueTime := now + latency\<rparr>"] this(2)
  have "msg_heap (mb_prio_heap b')" "length (mb_prio_heap b') = length (mb_prio_heap b)" by (simp_all add: x)
  then show "mb_ok b'" "mb_timed now b'" using inv unfolding mb_ok_def mb_timed_def st by (auto simp: x(2))
qed

lemma mb_reanalyze_inv:
  assumes inv: "mb_ok b" "mb_timed now b" and r: "mb_reanalyzeMessages addr now b = Inr (b', reqs)"
  shows "mb_ok b'" and "mb_timed now b'"
proof -
  from r obtain lt b1 where lt: "map_of (mb_stall_msg_map b) addr = Some lt"
    "reanalyzeList now lt (b\<lparr>mb_stall_map_size := mb_stall_map_size b - int (length lt)\<rparr>) = Inr (b1, reqs)"
    "b' = b1\<lparr>mb_stall_msg_map := filter (\<lambda>e. fst e \<noteq> addr) (mb_stall_msg_map b1)\<rparr>"
    by (auto simp: mb_reanalyzeMessages_def Let_def bindR_Inr_iff split: option.splits)
  have ok: "msg_heap (mb_prio_heap b)" "sorted_wrt (<) (map fst (mb_stall_msg_map b))" using inv(1) by (simp_all add: mb_ok_def)
  note sp = stalled_split [OF lt(1) ok(2)]
  from reanalyzeList_effect [OF lt(2)] ok(1) obtain h where
    h: "b1 = b\<lparr>mb_stall_map_size := mb_stall_map_size b - int (length lt), mb_prio_heap := h\<rparr>" "msg_heap h" "mset h = mset (mb_prio_heap b) + mset lt"
    by auto
  let ?es = "filter (\<lambda>e. fst e \<noteq> addr) (mb_stall_msg_map b)"
  have "length (stalled b) = length lt + length (concat (map snd ?es))"
    using arg_cong [OF sp(1), of size] by (simp add: stalled_def)
  then have sz: "mb_stall_map_size b - int (length lt) = int (length (concat (map snd ?es)))" using inv(1) by (simp add: mb_ok_def)
  have b': "b' = b\<lparr>mb_prio_heap := h, mb_stall_map_size := mb_stall_map_size b - int (length lt), mb_stall_msg_map := ?es\<rparr>"
    by (simp add: lt(3) h(1))
  have "mset h + mset (concat (map snd ?es)) = mset (mb_prio_heap b) + mset (stalled b)" using sp(1) h(3) by (simp add: stalled_def)
  from mb_inv_moved [OF inv b' h(2) this sz sp(2)] show "mb_ok b'" "mb_timed now b'" .
qed

lemma mb_reanalyzeAll_inv:
  assumes inv: "mb_ok b" "mb_timed now b" and r: "mb_reanalyzeAllMessages now b = Inr (b', reqs)"
  shows "mb_ok b'" and "mb_timed now b'"
proof -
  from r obtain b1 where b1: "reanalyze_lists now (mb_stall_msg_map b) b = Inr (b1, reqs)" "b' = b1\<lparr>mb_stall_msg_map := []\<rparr>"
    by (auto simp: mb_reanalyzeAllMessages_def bindR_Inr_iff)
  from reanalyze_lists_effect [OF b1(1)] inv(1) obtain h where
    h: "b1 = b\<lparr>mb_prio_heap := h, mb_stall_map_size := mb_stall_map_size b - int (length (stalled b))\<rparr>" "msg_heap h"
      "mset h = mset (mb_prio_heap b) + mset (stalled b)" unfolding stalled_def mb_ok_def by blast
  have "mb_stall_map_size b = int (length (stalled b))" using inv(1) by (simp add: mb_ok_def)
  then have b': "b' = b\<lparr>mb_prio_heap := h, mb_stall_map_size := 0, mb_stall_msg_map := []\<rparr>" by (simp add: b1(2) h(1))
  from mb_inv_moved [OF inv b' h(2)] h(3) show "mb_ok b'" "mb_timed now b'" by simp_all
qed

lemma mb_inv_other:
  assumes "mb_inv (now, b)"
  shows "now \<le> now' \<Longrightarrow> mb_inv (now', b)" and "0 < now \<Longrightarrow> mb_inv (now, mb_clear b)"
    and "mb_inv (now, mb_deferEnqueueingMessage addr m b)" and "mb_inv (now, snd (mb_areNSlotsAvailable n now b))"
    and "mb_inv (now, snd (mb_getSize now b))"
    and "mb_enqueueDeferredMessages fl draws addr now delay b = Inr (b', reqs) \<Longrightarrow> mb_inv (now, b')"
proof -
  show "mb_inv (now', b)" if "now \<le> now'" using assms that by (auto simp: mb_inv_def mb_timed_def)
  show "mb_inv (now, mb_clear b)" if "0 < now"
    using assms that by (simp add: mb_inv_def mb_timed_def mb_ok_def mb_clear_def heap_upto_def stalled_def) linarith
  show "mb_inv (now, mb_deferEnqueueingMessage addr m b)"
    using assms by (auto simp: mb_inv_def mb_timed_def mb_ok_def mb_deferEnqueueingMessage_def stalled_def)
  have "snd (mb_areNSlotsAvailable n now b) \<in> {b, b\<lparr>mb_not_avail_count := mb_not_avail_count b + 1\<rparr>}"
    by (auto simp: mb_areNSlotsAvailable_def Let_def)
  then show "mb_inv (now, snd (mb_areNSlotsAvailable n now b))" using assms by (auto simp: mb_inv_def mb_timed_def mb_ok_def stalled_def)
  have "snd (mb_getSize now b) \<in> {b, b\<lparr>mb_time_last_time_size_checked := now, mb_size_last_time_size_checked := length (mb_prio_heap b)\<rparr>}"
    by (simp add: mb_getSize_def Let_def)
  then show "mb_inv (now, snd (mb_getSize now b))" using assms by (auto simp: mb_inv_def mb_timed_def mb_ok_def stalled_def)
  show "mb_inv (now, b')" if e: "mb_enqueueDeferredMessages fl draws addr now delay b = Inr (b', reqs)"
  proof -
    from e obtain ms b1 where "enqueue_all fl draws now delay ms b = Inr (b1, reqs)"
      and b': "b' = b1\<lparr>mb_deferred_msg_map := (mb_deferred_msg_map b1)(addr := None)\<rparr>"
      by (auto simp: mb_enqueueDeferredMessages_def bindR_Inr_iff split: option.splits)
    with enqueue_all_inv assms have "mb_inv (now, b1)" unfolding mb_inv_def by fastforce
    then show ?thesis by (auto simp: b' mb_inv_def mb_ok_def mb_timed_def stalled_def)
  qed
qed

lemma mb_step_inv:
  assumes "mb_step fl s s'" and inv: "mb_inv s"
  shows "mb_inv s'"
proof -
  have ok: "mb_ok b" "mb_timed now b" if "s = (now, b)" for now b using inv that by (simp_all add: mb_inv_def)
  from assms(1) show ?thesis
  proof cases
    case (pass now now' b)
    with mb_inv_other(1) inv show ?thesis by blast
  next
    case (enqueue draw now delta m b m' b' reqs)
    with mb_enqueue_inv [OF ok [OF enqueue(1)] enqueue(3)] show ?thesis by (simp add: mb_inv_def)
  next
    case (delayHead draw now delta b m' b' reqs)
    with mb_delayHead_inv [OF ok [OF delayHead(1)] delayHead(3)] show ?thesis by (simp add: mb_inv_def)
  next
    case (dequeue tick now dec b m delay cb b')
    with mb_dequeue_inv(1,2) [OF ok [OF dequeue(1)] dequeue(3)] show ?thesis by (simp add: mb_inv_def)
  next
    case (recycle now latency b b' reqs)
    with mb_recycle_inv [OF ok [OF recycle(1)] recycle(3)] show ?thesis by (simp add: mb_inv_def)
  next
    case (stall tick addr now b cb b')
    with mb_stall_inv [OF ok [OF stall(1)] stall(3)] show ?thesis by (simp add: mb_inv_def)
  next
    case (reanalyze addr now b b' reqs)
    with mb_reanalyze_inv [OF ok [OF reanalyze(1)] reanalyze(3)] show ?thesis by (simp add: mb_inv_def)
  next
    case (reanalyzeAll now b b' reqs)
    with mb_reanalyzeAll_inv [OF ok [OF reanalyzeAll(1)] reanalyzeAll(3)] show ?thesis by (simp add: mb_inv_def)
  next
    case (put_off now b addr m)
    with mb_inv_other(3) inv show ?thesis by blast
  next
    case (deferred draws addr now delay b b' reqs)
    with mb_inv_other(6) inv show ?thesis by blast
  next
    case (slots n now b ok b')
    with mb_inv_other(4) [of now b n] inv show ?thesis by simp
  next
    case (getSize now b n b')
    with mb_inv_other(5) [of now b] inv show ?thesis by simp
  next
    case (clear now b)
    with mb_inv_other(2) inv show ?thesis by blast
  qed
qed

lemma mb_reachable_inv:
  assumes "mb_start b0" and "(mb_step fl)\<^sup>*\<^sup>* (t0, b0) s"
  shows "mb_inv s"
  using assms(2) by (induction rule: rtranclp_induct) (auto intro: mb_start_inv [OF assms(1)] mb_step_inv)

section \<open>Properties of the buffer\<close>

text \<open>Claim C27. A message buffer is a priority queue: after any sequence of operations (enqueues, dequeues, delayed,
  recycled, stalled, reanalysed and deferred messages, size queries) \<open>dequeue\<close> removes exactly one message, which
  has arrived and which no message of the buffer precedes in the order of arrival time and message counter; it returns
  that message with the waiting time added to its delay.\<close>

theorem message_buffer_priority_queue:
  assumes "mb_start b0" and "(mb_step fl)\<^sup>*\<^sup>* (t0, b0) (now, b)" and "mb_dequeue tick now dec b = Inr (m, delay, cb, b')"
  shows "\<exists>x \<in># mset (mb_prio_heap b). msg_LastEnqueueTime x \<le> now \<and> (\<forall>y \<in># mset (mb_prio_heap b). \<not> msg_greater x y)
    \<and> mset (mb_prio_heap b') = mset (mb_prio_heap b) - {#x#}
    \<and> m = x\<lparr>msg_DelayedTicks := msg_DelayedTicks x + (now - msg_LastEnqueueTime x)\<rparr>"
proof -
  have h: "msg_heap (mb_prio_heap b)" using mb_reachable_inv [OF assms(1,2)] by (simp add: mb_inv_def mb_ok_def)
  from assms(3) obtain x hs where x: "mb_prio_heap b = x # hs" "msg_LastEnqueueTime x \<le> now"
    "m = x\<lparr>msg_DelayedTicks := msg_DelayedTicks x + (now - msg_LastEnqueueTime x)\<rparr>"
    "b' = (let b1 = (count_pop now b)\<lparr>mb_prio_heap := heap_remove (mb_prio_heap b)\<rparr> in if dec then count_removed tick m b1 else b1)"
    by (rule mb_dequeue_InrE)
  have "mb_prio_heap b' = heap_remove (mb_prio_heap b)" by (simp add: x(4) Let_def count_removed_def)
  then have "mset (mb_prio_heap b') = mset (mb_prio_heap b) - {#x#}" using heap_remove_mset [OF h] x(1) by simp
  moreover have "\<not> msg_greater x y" if "y \<in># mset (mb_prio_heap b)" for y
    using heap_front_least [OF h] that by (simp add: msg_greater_key not_less x(1))
  ultimately show ?thesis using x(1-3) by (intro bexI [of _ x]) simp_all
qed

definition demo_message :: "nat \<Rightarrow> Tick \<Rightarrow> nat Message" where
  "demo_message body t = \<lparr>msg_time = t, msg_LastEnqueueTime = t, msg_DelayedTicks = 0, msg_counter = 0, msg_incoming_link = 0,
     msg_vnet = 0, msg_Destination = [], msg_MessageSize = MST_Control, msg_body = body\<rparr>"

definition demo_flags :: ruby_flags where
  "demo_flags = \<lparr>rf_randomization = False, rf_warmup = False, rf_block_size_bits = 6\<rparr>"

text \<open>An ordered buffer of two slots, and the buffer after two messages.\<close>

definition demo_buffer :: "nat MessageBuffer" where
  "demo_buffer = (MessageBuffer_new 2 0 True Rand_ruby_system False 0)\<lparr>mb_consumer := True\<rparr>"

definition demo_full :: "nat MessageBuffer" where
  "demo_full = demo_buffer\<lparr>mb_prio_heap := [(demo_message 7 0)\<lparr>msg_DelayedTicks := 10, msg_LastEnqueueTime := 15, msg_counter := 1\<rparr>,
      (demo_message 8 0)\<lparr>msg_DelayedTicks := 10, msg_LastEnqueueTime := 15, msg_counter := 2\<rparr>],
     mb_time_last_time_enqueue := 10, mb_msgs_this_cycle := 2, mb_msg_counter := 2, mb_last_arrival_time := 15, mb_buf_msgs := 2\<rparr>"

definition demo_half :: "nat MessageBuffer" where
  "demo_half = demo_buffer\<lparr>mb_prio_heap := [(demo_message 7 0)\<lparr>msg_DelayedTicks := 10, msg_LastEnqueueTime := 15, msg_counter := 1\<rparr>],
     mb_time_last_time_enqueue := 10, mb_msgs_this_cycle := 1, mb_msg_counter := 1, mb_last_arrival_time := 15, mb_buf_msgs := 1\<rparr>"

lemmas demo_buffer_defs = demo_buffer_def MessageBuffer_new_def demo_message_def demo_flags_def

lemma demo_enqueue:
  "mb_enqueue demo_flags (\<lambda>_ _. 0) 10 5 (demo_message 7 0) demo_buffer
     = Inr ((demo_message 7 0)\<lparr>msg_DelayedTicks := 10, msg_LastEnqueueTime := 15, msg_counter := 1\<rparr>, demo_half, [Consumer_at 15, Consumer_info 0])"
  "mb_enqueue demo_flags (\<lambda>_ _. 0) 10 5 (demo_message 8 0) demo_half
     = Inr ((demo_message 8 0)\<lparr>msg_DelayedTicks := 10, msg_LastEnqueueTime := 15, msg_counter := 2\<rparr>, demo_full, [Consumer_at 15, Consumer_info 0])"
  by (simp_all add: mb_enqueue_def count_enqueue_def arrival_def updateDelayedTicks_def heap_insert_def push_heap_def heap_up.simps
      heap_parent_def msg_greater_def demo_full_def demo_half_def demo_buffer_defs Let_def)

lemma demo_start: "mb_start demo_buffer"
  by (auto simp: mb_start_def mb_setConsumer_def demo_buffer_def MessageBuffer_new_def)

lemma demo_full_reachable: "(mb_step demo_flags)\<^sup>*\<^sup>* (0, demo_buffer) (15, demo_full)"
proof -
  have "mb_step demo_flags (0, demo_buffer) (10, demo_buffer)" by (rule mb_step.pass) simp
  moreover have "mb_step demo_flags (10, demo_buffer) (10, demo_half)" by (rule mb_step.enqueue [OF demo_enqueue(1)])
  moreover have "mb_step demo_flags (10, demo_half) (10, demo_full)" by (rule mb_step.enqueue [OF demo_enqueue(2)])
  moreover have "mb_step demo_flags (10, demo_full) (15, demo_full)" by (rule mb_step.pass) simp
  ultimately show ?thesis by (meson converse_rtranclp_into_rtranclp r_into_rtranclp)
qed

lemma demo_dequeue:
  "\<exists>b'. mb_dequeue 15 15 True demo_full = Inr ((demo_message 7 0)\<lparr>msg_DelayedTicks := 10, msg_LastEnqueueTime := 15, msg_counter := 1\<rparr>, 10, False, b')"
  by (simp add: mb_dequeue_def assert_ready_def mb_isReady_def mb_front_def at_def updateDelayedTicks_def demo_full_def demo_buffer_defs
      count_pop_def count_removed_def)

theorem message_buffer_priority_queue_witness:
  "\<exists>m d cb b'. mb_start demo_buffer \<and> (mb_step demo_flags)\<^sup>*\<^sup>* (0, demo_buffer) (15, demo_full)
     \<and> mb_dequeue 15 15 True demo_full = Inr (m, d, cb, b') \<and> msg_body m = 7
     \<and> (\<exists>x \<in># mset (mb_prio_heap demo_full). mset (mb_prio_heap b') = mset (mb_prio_heap demo_full) - {#x#})"
proof -
  from demo_dequeue obtain b' where d: "mb_dequeue 15 15 True demo_full
      = Inr ((demo_message 7 0)\<lparr>msg_DelayedTicks := 10, msg_LastEnqueueTime := 15, msg_counter := 1\<rparr>, 10, False, b')" by blast
  have "\<exists>x \<in># mset (mb_prio_heap demo_full). mset (mb_prio_heap b') = mset (mb_prio_heap demo_full) - {#x#}"
    using message_buffer_priority_queue [OF demo_start demo_full_reachable d] by blast
  moreover have "msg_body ((demo_message 7 0)\<lparr>msg_DelayedTicks := 10, msg_LastEnqueueTime := 15, msg_counter := 1\<rparr>) = 7"
    by (simp add: demo_message_def)
  ultimately show ?thesis using demo_start demo_full_reachable d by blast
qed

lemma slots_sound:
  assumes "mb_inv (now, b)" and "fst (mb_areNSlotsAvailable n now b)"
  shows "mb_max_size b = 0 \<or> length (mb_prio_heap b) + length (stalled b) + n \<le> mb_max_size b"
proof -
  from assms(1) have inv: "mb_stall_map_size b = int (length (stalled b))" "mb_time_last_time_pop b \<le> now" "mb_time_last_time_enqueue b \<le> now"
    "mb_time_last_time_pop b = now \<longrightarrow> length (mb_prio_heap b) + length (stalled b) \<le> mb_size_at_cycle_start b + mb_stalled_at_cycle_start b
       + (if mb_time_last_time_enqueue b = now then mb_msgs_this_cycle b else 0)"
    by (auto simp: mb_inv_def mb_ok_def mb_timed_def)
  from assms(2) show ?thesis using inv by (auto simp: mb_areNSlotsAvailable_def Let_def split: if_splits)
qed

text \<open>Claim C29. A positive answer of \<open>areNSlotsAvailable\<close> is reliable: although the buffer hides pops of the current cycle,
  whenever it says that \<open>n\<close> slots are available the messages it holds, stalled ones included, leave room for \<open>n\<close> more
  below the configured size.\<close>

theorem message_buffer_slots_sound:
  assumes "mb_start b0" and "(mb_step fl)\<^sup>*\<^sup>* (t0, b0) (now, b)" and "fst (mb_areNSlotsAvailable n now b)"
  shows "mb_max_size b = 0 \<or> length (mb_prio_heap b) + length (stalled b) + n \<le> mb_max_size b"
  by (rule slots_sound [OF mb_reachable_inv [OF assms(1,2)] assms(3)])

theorem message_buffer_slots_sound_witness:
  "mb_start demo_buffer \<and> (mb_step demo_flags)\<^sup>*\<^sup>* (0, demo_buffer) (10, demo_buffer) \<and> fst (mb_areNSlotsAvailable 2 10 demo_buffer)
     \<and> length (mb_prio_heap demo_buffer) + length (stalled demo_buffer) + 2 \<le> mb_max_size demo_buffer"
proof -
  have r: "(mb_step demo_flags)\<^sup>*\<^sup>* (0, demo_buffer) (10, demo_buffer)" by (rule r_into_rtranclp, rule mb_step.pass) simp
  have a: "fst (mb_areNSlotsAvailable 2 10 demo_buffer)" "mb_max_size demo_buffer = 2"
    by (simp_all add: mb_areNSlotsAvailable_def demo_buffer_def MessageBuffer_new_def)
  show ?thesis using message_buffer_slots_sound [OF demo_start r a(1)] demo_start r a by simp
qed

section \<open>Ordered buffers\<close>

text \<open>Runs that only enqueue and dequeue, with the messages that went in and came out.\<close>

inductive fifo_run :: "ruby_flags \<Rightarrow> 'p MessageBuffer \<Rightarrow> Tick \<Rightarrow> 'p MessageBuffer \<Rightarrow> 'p Message list \<Rightarrow> 'p Message list \<Rightarrow> bool" for fl b0 where
  start: "fifo_run fl b0 now b0 [] []"
| pass: "fifo_run fl b0 now b ins outs \<Longrightarrow> now \<le> now' \<Longrightarrow> fifo_run fl b0 now' b ins outs"
| enqueue: "fifo_run fl b0 now b ins outs \<Longrightarrow> mb_enqueue fl draw now delta m b = Inr (m', b', reqs) \<Longrightarrow> fifo_run fl b0 now b' (ins @ [m']) outs"
| dequeue: "fifo_run fl b0 now b ins outs \<Longrightarrow> mb_dequeue tick now dec b = Inr (m, delay, cb, b') \<Longrightarrow> fifo_run fl b0 now b' ins (outs @ [m])"

definition undelayed :: "'p Message \<Rightarrow> 'p Message" where
  "undelayed m = m\<lparr>msg_DelayedTicks := 0\<rparr>"

text \<open>The messages waiting, in the order they were put in, are the content of the heap in increasing order.\<close>

definition waiting :: "'p MessageBuffer \<Rightarrow> 'p Message list \<Rightarrow> bool" where
  "waiting b rest \<longleftrightarrow> mset rest = mset (mb_prio_heap b) \<and> sorted_wrt (\<lambda>x y. key_of x < key_of y) rest
     \<and> (\<forall>x \<in> set rest. msg_LastEnqueueTime x \<le> mb_last_arrival_time b \<and> msg_counter x \<le> mb_msg_counter b)"

lemma waiting_enqueue:
  assumes w: "waiting b rest" and ok: "mb_ok b" and strict: "mb_strict_fifo b" and warm: "\<not> rf_warmup fl"
    and e: "mb_enqueue fl draw now delta m b = Inr (m', b', reqs)" and c: "mb_msg_counter b < mb_msg_counter b + 1"
  shows "waiting b' (rest @ [m'])" and "mb_strict_fifo b'" and "mb_msg_counter b' = mb_msg_counter b + 1"
proof -
  from e obtain t l n where x: "arrival fl draw now delta (count_enqueue now b) = (t, l)" "mb_strict_fifo b \<longrightarrow> l \<le> t"
    "m' = m\<lparr>msg_DelayedTicks := msg_DelayedTicks m + (now - msg_LastEnqueueTime m), msg_LastEnqueueTime := t, msg_counter := mb_msg_counter b + 1\<rparr>"
    "b' = (count_enqueue now b)\<lparr>mb_last_arrival_time := (if rf_warmup fl then l else t), mb_prio_heap := heap_insert m' (mb_prio_heap b), mb_buf_msgs := n\<rparr>"
    by (rule mb_enqueue_InrE)
  have "mb_last_arrival_time b \<le> l" using x(1) strict by (auto simp: arrival_def Let_def split: if_splits)
  with x(2) strict have t: "mb_last_arrival_time b \<le> t" by simp
  have "key_of y < key_of m'" if "y \<in> set rest" for y
  proof -
    have "msg_LastEnqueueTime y \<le> t" "msg_counter y < mb_msg_counter b + 1" using w that t c by (auto simp: waiting_def)
    then show ?thesis by (auto simp: x(3) key_of_def less_msg_key_def less_eq_msg_key_def)
  qed
  moreover have "mset (heap_insert m' (mb_prio_heap b)) = add_mset m' (mset (mb_prio_heap b))" using heap_insert_ok(2) [of "mb_prio_heap b" m'] ok by (simp add: mb_ok_def)
  moreover have "\<forall>y \<in> set rest. msg_LastEnqueueTime y \<le> t \<and> msg_counter y \<le> mb_msg_counter b + 1" using w t c by (force simp: waiting_def)
  ultimately show "waiting b' (rest @ [m'])" using w warm by (auto simp: waiting_def x(4) sorted_wrt_append) (simp_all add: x(3))
  show "mb_strict_fifo b'" "mb_msg_counter b' = mb_msg_counter b + 1" using strict by (simp_all add: x(4))
qed

lemma waiting_dequeue:
  assumes w: "waiting b rest" and ok: "mb_ok b" and d: "mb_dequeue tick now dec b = Inr (m, delay, cb, b')"
  obtains x rest' where "rest = x # rest'" and "undelayed m = undelayed x" and "waiting b' rest'"
    and "mb_strict_fifo b' = mb_strict_fifo b" and "mb_msg_counter b' = mb_msg_counter b"
proof -
  have h: "msg_heap (mb_prio_heap b)" using ok by (simp add: mb_ok_def)
  from d obtain x hs where x: "mb_prio_heap b = x # hs" "m = x\<lparr>msg_DelayedTicks := msg_DelayedTicks x + (now - msg_LastEnqueueTime x)\<rparr>"
    "b' = (let b1 = (count_pop now b)\<lparr>mb_prio_heap := heap_remove (mb_prio_heap b)\<rparr> in if dec then count_removed tick m b1 else b1)"
    by (rule mb_dequeue_InrE)
  have rest: "mset rest = mset (mb_prio_heap b)" and srt: "sorted_wrt (\<lambda>x y. key_of x < key_of y) rest" using w by (simp_all add: waiting_def)
  then obtain y rest' where y: "rest = y # rest'" using x(1) by (cases rest) auto
  have "x \<in> set rest" "y \<in> set (mb_prio_heap b)" using rest x(1) y by (metis list.set_intros(1) set_mset_mset)+
  then have "key_of x \<le> key_of y" using heap_front_least [OF h] x(1) by simp
  with \<open>x \<in> set rest\<close> srt y have eq: "x = y" by auto
  have f: "mb_prio_heap b' = heap_remove (mb_prio_heap b)" "mb_last_arrival_time b' = mb_last_arrival_time b" "mb_msg_counter b' = mb_msg_counter b"
    "mb_strict_fifo b' = mb_strict_fifo b" by (simp_all add: x(3) Let_def count_removed_def)
  have "mset (heap_remove (mb_prio_heap b)) = mset (mb_prio_heap b) - {#x#}" using heap_remove_mset [OF h] x(1) by simp
  also have "\<dots> = mset rest'" using rest y eq by (metis add_mset_remove_trivial mset.simps(2))
  finally have "waiting b' rest'" using w y by (auto simp: waiting_def f)
  moreover have "undelayed m = undelayed y" by (simp add: x(2) eq undelayed_def)
  ultimately show thesis using that y f by blast
qed

lemma fifo_run_inv:
  assumes "fifo_run fl b0 now b ins outs" and b0: "mb_start b0" and strict: "mb_strict_fifo b0" and warm: "\<not> rf_warmup fl"
    and len: "length ins < 2 ^ 64"
  shows "mb_inv (now, b) \<and> mb_strict_fifo b \<and> mb_msg_counter b = of_nat (length ins)
    \<and> (\<exists>rest. waiting b rest \<and> map undelayed ins = map undelayed (outs @ rest))"
  using assms(1) len
proof induction
  case (start now)
  have "mb_prio_heap b0 = []" "mb_msg_counter b0 = 0" using b0 by (auto simp: mb_start_def mb_setConsumer_def MessageBuffer_new_def)
  then show ?case using mb_start_inv [OF b0] strict by (auto simp: waiting_def)
next
  case (pass now b ins outs now')
  then show ?case using mb_inv_other(1) by blast
next
  case (enqueue now b ins outs draw delta m m' b' reqs)
  then obtain rest where IH: "mb_inv (now, b)" "mb_strict_fifo b" "mb_msg_counter b = of_nat (length ins)" "waiting b rest"
    "map undelayed ins = map undelayed (outs @ rest)" by auto
  have ok: "mb_ok b" using IH(1) by (simp add: mb_inv_def)
  have "unat (of_nat (length ins) :: u64) = length ins" "unat (of_nat (Suc (length ins)) :: u64) = Suc (length ins)"
    using enqueue.prems by (simp_all add: unat_of_nat del: of_nat_Suc)
  then have c: "mb_msg_counter b < mb_msg_counter b + 1" by (simp add: IH(3) word_less_nat_alt add.commute)
  note W = waiting_enqueue [OF IH(4) ok IH(2) warm enqueue.hyps(2) c]
  have "mb_inv (now, b')" using mb_step_inv [OF mb_step.enqueue [OF enqueue.hyps(2)] IH(1)] .
  with W IH(3,5) show ?case by (auto intro!: exI [of _ "rest @ [m']"])
next
  case (dequeue now b ins outs tick dec m delay cb b')
  then obtain rest where IH: "mb_inv (now, b)" "mb_strict_fifo b" "mb_msg_counter b = of_nat (length ins)" "waiting b rest"
    "map undelayed ins = map undelayed (outs @ rest)" by auto
  have ok: "mb_ok b" using IH(1) by (simp add: mb_inv_def)
  from waiting_dequeue [OF IH(4) ok dequeue.hyps(2)] obtain x rest' where
    r: "rest = x # rest'" "undelayed m = undelayed x" "waiting b' rest'" "mb_strict_fifo b' = mb_strict_fifo b" "mb_msg_counter b' = mb_msg_counter b" .
  have "mb_inv (now, b')" using mb_step_inv [OF mb_step.dequeue [OF dequeue.hyps(2)] IH(1)] .
  with r IH show ?case by auto
qed

text \<open>Claim C28. An ordered message buffer is a first-in first-out queue: over any run of enqueues and dequeues (outside
  cache warm-up and before the 64-bit message counter wraps) the messages that came out, followed by the messages still
  in the buffer in some order, are the messages that went in, in the order they went in, apart from the delay recorded
  in a message.\<close>

theorem ordered_buffer_fifo:
  assumes "mb_start b0" and "mb_strict_fifo b0" and "\<not> rf_warmup fl" and "fifo_run fl b0 now b ins outs" and "length ins < 2 ^ 64"
  shows "\<exists>rest. map undelayed ins = map undelayed (outs @ rest) \<and> mset rest = mset (mb_prio_heap b)"
  using fifo_run_inv [OF assms(4,1,2,3,5)] by (auto simp: waiting_def)

theorem ordered_buffer_fifo_witness:
  "\<exists>now b ins outs. mb_start demo_buffer \<and> mb_strict_fifo demo_buffer \<and> fifo_run demo_flags demo_buffer now b ins outs
     \<and> length ins = 2 \<and> length outs = 1 \<and> undelayed (hd ins) = undelayed (hd outs)"
proof -
  from demo_dequeue obtain m d cb b' where d: "mb_dequeue 15 15 True demo_full = Inr (m, d, cb, b')" by blast
  have "fifo_run demo_flags demo_buffer 10 demo_buffer [] []" by (rule fifo_run.start)
  from fifo_run.enqueue [OF fifo_run.enqueue [OF this demo_enqueue(1)] demo_enqueue(2)] obtain ins where
    "fifo_run demo_flags demo_buffer 10 demo_full ins []" and len: "length ins = 2" by auto
  then have r: "fifo_run demo_flags demo_buffer 15 b' ins [m]"
    using fifo_run.dequeue [OF fifo_run.pass, of demo_flags demo_buffer 10 demo_full ins "[]" 15] d by force
  have s: "mb_strict_fifo demo_buffer" "\<not> rf_warmup demo_flags" "length ins < 2 ^ 64" by (simp_all add: demo_buffer_defs len)
  from ordered_buffer_fifo [OF demo_start s(1,2) r s(3)] len have "undelayed (hd ins) = undelayed m" by (cases ins) auto
  with r s demo_start len show ?thesis by (intro exI [of _ 15] exI [of _ b'] exI [of _ ins] exI [of _ "[m]"]) simp
qed

end
