(* ===== verification/Topology.thy ===== *)
theory Topology
  imports Net_Dest
begin

text \<open>
  \<open>Topology\<close>: the links of the configuration become a map from pairs of switches to links, from which
  \<open>createLinks\<close> computes the weights, the all-pairs shortest distances and the routing entry of every link. The first
  \<open>m_nodes\<close> switch numbers are the inputs of the network, the next \<open>m_nodes\<close> its outputs, the routers follow. The calls
  of the network's \<open>make...Link\<close> are returned as a list of requests. A matrix is a vector of vectors of vectors; an index
  outside is an error. The loop that relaxes distances until none changes may run forever (negative weights), so its
  result is an option.
\<close>

section \<open>Links\<close>

record BasicLink =
  bl_id :: nat                   \<comment> \<open>identity of the link object\<close>
  bl_latency :: nat
  bl_bandwidth_factor :: int
  bl_weight :: int
  bl_mVnets :: "int list"

record BasicExtLink =
  el_link :: BasicLink
  el_machine :: MachineID        \<comment> \<open>type and version of the controller\<close>
  el_int_node :: nat             \<comment> \<open>identifier of the router\<close>

record BasicIntLink =
  il_link :: BasicLink
  il_src_node :: nat
  il_dst_node :: nat
  il_src_outport :: PortDirection
  il_dst_inport :: PortDirection

record LinkEntry =
  le_link :: BasicLink
  le_src_outport_dirn :: PortDirection
  le_dst_inport_dirn :: PortDirection

type_synonym Matrix = "int list list list"
type_synonym LinkMap = "((nat \<times> nat) \<times> LinkEntry list) list"

definition INFINITE_LATENCY :: int where
  "INFINITE_LATENCY = 10000"

record Topology =
  tp_nodes :: nat
  tp_number_of_switches :: nat
  tp_vnets :: nat
  tp_ext_link_vector :: "BasicExtLink list"
  tp_int_link_vector :: "BasicIntLink list"
  tp_link_map :: LinkMap

text \<open>Adding to the sorted map: an entry of its own, or one more link between the same switches.\<close>

fun link_map_push :: "nat \<times> nat \<Rightarrow> LinkEntry \<Rightarrow> LinkMap \<Rightarrow> LinkMap" where
  "link_map_push p e [] = [(p, [e])]"
| "link_map_push p e ((q, es) # rest) =
     (if p = q then (q, es @ [e]) # rest
      else if fst p < fst q \<or> fst p = fst q \<and> snd p < snd q then (p, [e]) # (q, es) # rest
      else (q, es) # link_map_push p e rest)"

definition addLink :: "nat \<Rightarrow> nat \<Rightarrow> BasicLink \<Rightarrow> PortDirection \<Rightarrow> PortDirection \<Rightarrow> Topology \<Rightarrow> Topology res" where
  "addLink src dest link src_outport_dirn dst_inport_dirn t =
     bindR (assertR (src \<le> tp_number_of_switches t + tp_nodes t + tp_nodes t)) (\<lambda>_.
     bindR (assertR (dest \<le> tp_number_of_switches t + tp_nodes t + tp_nodes t)) (\<lambda>_.
       Inr (t\<lparr>tp_link_map := link_map_push (src, dest)
         \<lparr>le_link = link, le_src_outport_dirn = src_outport_dirn, le_dst_inport_dirn = dst_inport_dirn\<rparr> (tp_link_map t)\<rparr>)))"

definition add_ext_link :: "machine_conf \<Rightarrow> BasicExtLink \<Rightarrow> Topology \<Rightarrow> Topology res" where
  "add_ext_link mc ext_link t =
     (let machine_base_idx = MachineType_base_number mc (mach_type (el_machine ext_link));
          ext_idx1 = machine_base_idx + mach_num (el_machine ext_link); ext_idx2 = ext_idx1 + tp_nodes t;
          int_idx = el_int_node ext_link + 2 * tp_nodes t in
      bindR (addLink ext_idx1 int_idx (el_link ext_link) [] [] t) (\<lambda>t1.
        addLink int_idx ext_idx2 (el_link ext_link) [] [] t1))"

definition add_int_link :: "BasicIntLink \<Rightarrow> Topology \<Rightarrow> Topology res" where
  "add_int_link int_link t =
     (let t1 = t\<lparr>tp_int_link_vector := tp_int_link_vector t @ [int_link]\<rparr> in
      addLink (il_src_node int_link + 2 * tp_nodes t) (il_dst_node int_link + 2 * tp_nodes t) (il_link int_link)
        (il_src_outport int_link) (il_dst_inport int_link) t1)"

definition Topology_new :: "machine_conf \<Rightarrow> nat \<Rightarrow> nat \<Rightarrow> BasicExtLink list \<Rightarrow> BasicIntLink list \<Rightarrow> Topology res" where
  "Topology_new mc num_routers num_vnets ext_links int_links =
     (let t = \<lparr>tp_nodes = MachineType_base_number mc (MachineType_NUM mc), tp_number_of_switches = num_routers, tp_vnets = num_vnets,
        tp_ext_link_vector = ext_links, tp_int_link_vector = int_links, tp_link_map = []\<rparr> in
      bindR (assertR (tp_nodes t > 1)) (\<lambda>_.
      bindR (loopR (add_ext_link mc) ext_links t) (\<lambda>t1. loopR add_int_link int_links t1)))"

section \<open>Shortest paths\<close>

definition mget :: "Matrix \<Rightarrow> nat \<Rightarrow> nat \<Rightarrow> nat \<Rightarrow> int res" where
  "mget m a b c = bindR (at m (int a)) (\<lambda>r. bindR (at r (int b)) (\<lambda>s. at s (int c)))"

definition mput :: "Matrix \<Rightarrow> nat \<Rightarrow> nat \<Rightarrow> nat \<Rightarrow> int \<Rightarrow> Matrix res" where
  "mput m a b c x = bindR (at m (int a)) (\<lambda>r. bindR (at r (int b)) (\<lambda>s. bindR (put s (int c) x) (\<lambda>s'.
     bindR (put r (int b) s') (\<lambda>r'. put m (int a) r'))))"

record sp_state =
  sp_dist :: Matrix              \<comment> \<open>\<open>current_dist[v][i][j]\<close>\<close>
  sp_latencies :: Matrix         \<comment> \<open>\<open>latencies[i][j][v]\<close>\<close>
  sp_inter_switches :: Matrix    \<comment> \<open>\<open>inter_switches[i][j][v]\<close>\<close>

text \<open>The innermost loop; the minimum of the previous iteration is the one it starts from.\<close>

definition relax_via :: "Matrix \<Rightarrow> nat \<Rightarrow> nat \<Rightarrow> nat \<Rightarrow> nat \<Rightarrow> int \<times> int \<times> Matrix \<Rightarrow> (int \<times> int \<times> Matrix) res" where
  "relax_via dist v i j k = (\<lambda>(previous_minimum, intermediate_switch, inter).
     bindR (mget dist v i k) (\<lambda>a. bindR (mget dist v k j) (\<lambda>b.
       let minimum = min previous_minimum (a + b) in
       if previous_minimum \<noteq> minimum then
         bindR (mget inter i k v) (\<lambda>x. bindR (mget inter k j v) (\<lambda>y. bindR (mput inter i j v (x + y + 1)) (\<lambda>inter'.
           Inr (minimum, int k, inter'))))
       else Inr (minimum, intermediate_switch, inter))))"

definition relax_pair :: "nat \<Rightarrow> nat \<Rightarrow> nat \<times> nat \<Rightarrow> bool \<times> sp_state \<Rightarrow> (bool \<times> sp_state) res" where
  "relax_pair v nodes = (\<lambda>(i, j) (change, s).
     bindR (mget (sp_dist s) v i j) (\<lambda>d.
     bindR (loopR (relax_via (sp_dist s) v i j) [0..<nodes] (d, -1, sp_inter_switches s)) (\<lambda>(minimum, intermediate_switch, inter).
       if d \<noteq> minimum then
         bindR (mput (sp_dist s) v i j minimum) (\<lambda>dist.
         bindR (assertR (intermediate_switch \<ge> 0)) (\<lambda>_.
         bindR (at (sp_latencies s) (int i)) (\<lambda>row.
         bindR (assertR (intermediate_switch < int (length row))) (\<lambda>_.
         bindR (mget (sp_latencies s) i (nat intermediate_switch) v) (\<lambda>x.
         bindR (mget (sp_latencies s) (nat intermediate_switch) j v) (\<lambda>y.
         bindR (mput (sp_latencies s) i j v (x + y)) (\<lambda>lat.
           Inr (True, \<lparr>sp_dist = dist, sp_latencies = lat, sp_inter_switches = inter\<rparr>))))))))
       else Inr (change, s\<lparr>sp_inter_switches := inter\<rparr>))))"

definition relax_pass :: "nat \<Rightarrow> nat \<Rightarrow> sp_state \<Rightarrow> (bool \<times> sp_state) res" where
  "relax_pass v nodes s = loopR (relax_pair v nodes) (List.product [0..<nodes] [0..<nodes]) (False, s)"

partial_function (option) relax_loop :: "nat \<Rightarrow> nat \<Rightarrow> sp_state \<Rightarrow> sp_state res option" where
  "relax_loop v nodes s =
     (case relax_pass v nodes s of
        Inl e \<Rightarrow> Some (Inl e)
      | Inr r \<Rightarrow> if fst r then relax_loop v nodes (snd r) else Some (Inr (snd r)))"

declare relax_loop.simps [code]

fun relax_vnets :: "nat list \<Rightarrow> nat \<Rightarrow> sp_state \<Rightarrow> sp_state res option" where
  "relax_vnets [] nodes s = Some (Inr s)"
| "relax_vnets (v # vs) nodes s =
     (case relax_loop v nodes s of None \<Rightarrow> None | Some (Inl e) \<Rightarrow> Some (Inl e) | Some (Inr s') \<Rightarrow> relax_vnets vs nodes s')"

definition extend_shortest_path :: "nat \<Rightarrow> sp_state \<Rightarrow> sp_state res option" where
  "extend_shortest_path vnets s =
     (case sp_dist s of [] \<Rightarrow> Some (Inl Bad_index) | r # _ \<Rightarrow> relax_vnets [0..<vnets] (length r) s)"

definition shortest_path :: "nat \<Rightarrow> Matrix \<Rightarrow> Matrix \<Rightarrow> Matrix \<Rightarrow> sp_state res option" where
  "shortest_path vnets weights latencies inter_switches =
     extend_shortest_path vnets \<lparr>sp_dist = weights, sp_latencies = latencies, sp_inter_switches = inter_switches\<rparr>"

definition link_is_shortest_path_to_node :: "nat \<Rightarrow> nat \<Rightarrow> nat \<Rightarrow> Matrix \<Rightarrow> Matrix \<Rightarrow> nat \<Rightarrow> bool res" where
  "link_is_shortest_path_to_node src nxt final weights dist vnet =
     bindR (mget weights vnet src nxt) (\<lambda>w. bindR (mget dist vnet nxt final) (\<lambda>d.
     bindR (mget dist vnet src final) (\<lambda>d'. Inr (w + d = d'))))"

text \<open>The machines of all types in the order of the two loops.\<close>

definition machine_list :: "machine_conf \<Rightarrow> MachineID list" where
  "machine_list mc = concat (map (\<lambda>m. map (MachineID m) [0..<MachineType_base_count mc m]) [0..<MachineType_NUM mc])"

definition shortest_path_to_node :: "machine_conf \<Rightarrow> nat \<Rightarrow> nat \<Rightarrow> Matrix \<Rightarrow> Matrix \<Rightarrow> nat \<Rightarrow> NetDest res" where
  "shortest_path_to_node mc src nxt weights dist vnet =
     (let max_machines = MachineType_base_number mc (MachineType_NUM mc) in
      bindR (NetDest_new mc) (\<lambda>result.
        loopR (\<lambda>(d, mach) nd.
          bindR (link_is_shortest_path_to_node src nxt (d + max_machines) weights dist vnet) (\<lambda>b.
            if b then NetDest_add mc mach nd else Inr nd))
        (enumerate 0 (machine_list mc)) result))"

section \<open>Creation of the links\<close>

datatype link_req =
    Make_ext_in nat nat BasicLink "NetDest list"    \<comment> \<open>\<open>makeExtInLink(src, dest, link, routes)\<close>\<close>
  | Make_ext_out nat nat BasicLink "NetDest list"   \<comment> \<open>\<open>makeExtOutLink(src, dest, link, routes)\<close>\<close>
  | Make_internal nat nat BasicLink "NetDest list" PortDirection PortDirection

text \<open>The routes a link gets: all of them, or those of the virtual networks it supports.\<close>

definition link_routes :: "machine_conf \<Rightarrow> nat \<Rightarrow> BasicLink \<Rightarrow> NetDest list \<Rightarrow> NetDest list res" where
  "link_routes mc vnets link routing_table_entry =
     bindR (NetDest_new mc) (\<lambda>nd.
       if bl_mVnets link = [] then Inr routing_table_entry
       else loopR (\<lambda>vnet linkRoute. bindR (at routing_table_entry vnet) (\<lambda>r. put linkRoute vnet r))
              (bl_mVnets link) (replicate vnets nd))"

definition makeLink :: "machine_conf \<Rightarrow> nat \<Rightarrow> nat \<Rightarrow> NetDest list \<Rightarrow> Topology \<Rightarrow> link_req list res" where
  "makeLink mc src dest routing_table_entry t =
     (let n = tp_nodes t; links = (case map_of (tp_link_map t) (src, dest) of None \<Rightarrow> [] | Some es \<Rightarrow> es) in
      bindR (assertR (src \<ge> 2 * n \<or> dest \<ge> 2 * n)) (\<lambda>_.
      if src < n then
        mapR (\<lambda>e. bindR (link_routes mc (tp_vnets t) (le_link e) routing_table_entry) (\<lambda>rs.
          Inr (Make_ext_in src (dest - 2 * n) (le_link e) rs))) links
      else if dest < 2 * n then
        bindR (assertR (dest \<ge> n)) (\<lambda>_.
        mapR (\<lambda>e. bindR (link_routes mc (tp_vnets t) (le_link e) routing_table_entry) (\<lambda>rs.
          Inr (Make_ext_out (src - 2 * n) (dest - n) (le_link e) rs))) links)
      else
        bindR (assertR (src \<ge> 2 * n \<and> dest \<ge> 2 * n)) (\<lambda>_.
        mapR (\<lambda>e. bindR (link_routes mc (tp_vnets t) (le_link e) routing_table_entry) (\<lambda>rs.
          Inr (Make_internal (src - 2 * n) (dest - 2 * n) (le_link e) rs (le_src_outport_dirn e) (le_dst_inport_dirn e)))) links)))"

definition max_switch_id :: "LinkMap \<Rightarrow> nat" where
  "max_switch_id lm = fold (\<lambda>((src, dest), _) m. max (max m src) dest) lm 0"

definition square :: "nat \<Rightarrow> nat \<Rightarrow> nat \<Rightarrow> int \<Rightarrow> Matrix" where
  "square a b c x = replicate a (replicate b (replicate c x))"

text \<open>Weight and latency of one link on one virtual network; \<open>vnet_done\<close> tells the networks already served between
  the two switches.\<close>

definition set_link ::
  "nat \<Rightarrow> nat \<Rightarrow> BasicLink \<Rightarrow> int \<Rightarrow> bool list \<times> Matrix \<times> Matrix \<Rightarrow> (bool list \<times> Matrix \<times> Matrix) res" where
  "set_link src dst link v = (\<lambda>(vnet_done, latencies, weights).
     bindR (at vnet_done v) (\<lambda>b.
     bindR (failIf b Fatal) (\<lambda>_.
     bindR (mput latencies src dst (nat v) (int (bl_latency link))) (\<lambda>lat.
     bindR (mput weights (nat v) src dst (bl_weight link)) (\<lambda>w.
     bindR (put vnet_done v True) (\<lambda>don. Inr (don, lat, w)))))))"

definition fill_link ::
  "nat \<Rightarrow> nat \<Rightarrow> nat \<Rightarrow> LinkEntry \<Rightarrow> bool list \<times> Matrix \<times> Matrix \<Rightarrow> (bool list \<times> Matrix \<times> Matrix) res" where
  "fill_link vnets src dst e s =
     (let link = le_link e in
      if bl_mVnets link = [] then loopR (set_link src dst link) (map int [0..<vnets]) s
      else loopR (\<lambda>vnet s'. bindR (failIf (vnet \<ge> int vnets) Fatal) (\<lambda>_. set_link src dst link vnet s')) (bl_mVnets link) s)"

definition fill_group ::
  "nat \<Rightarrow> (nat \<times> nat) \<times> LinkEntry list \<Rightarrow> Matrix \<times> Matrix \<Rightarrow> (Matrix \<times> Matrix) res" where
  "fill_group vnets = (\<lambda>((src, dst), es) (latencies, weights).
     bindR (loopR (fill_link vnets src dst) es (replicate vnets False, latencies, weights)) (\<lambda>(_, lat, w). Inr (lat, w)))"

text \<open>The matrices \<open>createLinks\<close> starts from: weights and latencies of the configured links.\<close>

definition topology_matrices :: "Topology \<Rightarrow> (Matrix \<times> Matrix) res" where
  "topology_matrices t =
     (let n = max_switch_id (tp_link_map t) + 1; vnets = tp_vnets t in
      bindR (failIf (vnets = 0) Bad_index) (\<lambda>_.
      bindR (loopR (\<lambda>(i, v) w. mput w v i i 0) (List.product [0..<n] [0..<vnets]) (square vnets n n INFINITE_LATENCY)) (\<lambda>weights.
        loopR (fill_group vnets) (tp_link_map t) (square n n vnets (-1), weights))))"

definition hook_vnet ::
  "machine_conf \<Rightarrow> Matrix \<Rightarrow> Matrix \<Rightarrow> nat \<Rightarrow> nat \<Rightarrow> nat \<Rightarrow> bool \<times> NetDest list \<Rightarrow> (bool \<times> NetDest list) res" where
  "hook_vnet mc weights dist i j v = (\<lambda>(realLink, routingMap).
     bindR (mget weights v i j) (\<lambda>weight.
       if weight > 0 \<and> weight \<noteq> INFINITE_LATENCY then
         bindR (shortest_path_to_node mc i j weights dist v) (\<lambda>nd.
         bindR (put routingMap (int v) nd) (\<lambda>rm. Inr (True, rm)))
       else Inr (realLink, routingMap)))"

definition hook_pair ::
  "machine_conf \<Rightarrow> Matrix \<Rightarrow> Matrix \<Rightarrow> Topology \<Rightarrow> nat \<times> nat \<Rightarrow> link_req list \<Rightarrow> link_req list res" where
  "hook_pair mc weights dist t = (\<lambda>(i, j) reqs.
     bindR (NetDest_new mc) (\<lambda>nd.
     bindR (loopR (hook_vnet mc weights dist i j) [0..<tp_vnets t] (False, replicate (tp_vnets t) nd)) (\<lambda>(realLink, routingMap).
       if realLink then bindR (makeLink mc i j routingMap t) (\<lambda>rs. Inr (reqs @ rs)) else Inr reqs)))"

definition createLinks :: "machine_conf \<Rightarrow> Topology \<Rightarrow> link_req list res option" where
  "createLinks mc t =
     (let n = max_switch_id (tp_link_map t) + 1 in
      case topology_matrices t of
        Inl e \<Rightarrow> Some (Inl e)
      | Inr (latencies, weights) \<Rightarrow>
          (case shortest_path (tp_vnets t) weights latencies (square n n (tp_vnets t) 0) of
             None \<Rightarrow> None
           | Some (Inl e) \<Rightarrow> Some (Inl e)
           | Some (Inr s) \<Rightarrow> Some (loopR (hook_pair mc weights (sp_dist s) t) (List.product [0..<n] [0..<n]) [])))"

end
