(* ===== verification/Shortest_Paths.thy ===== *)
theory Shortest_Paths
  imports Topology
begin

text \<open>
  Correctness of the routing tables the topology computes: the relaxation terminates for non-negative weights, its
  result is the least weight of a walk between two switches, and packets that follow the table entries reach their
  destination.
\<close>

section \<open>Matrices\<close>

definition mshape :: "nat \<Rightarrow> nat \<Rightarrow> nat \<Rightarrow> Matrix \<Rightarrow> bool" where
  "mshape a b c m \<longleftrightarrow> length m = a \<and> (\<forall>r \<in> set m. length r = b \<and> (\<forall>s \<in> set r. length s = c))"

definition mupd :: "Matrix \<Rightarrow> nat \<Rightarrow> nat \<Rightarrow> nat \<Rightarrow> int \<Rightarrow> Matrix" where
  "mupd m i j k x = m[i := (m ! i)[j := (m ! i ! j)[k := x]]]"

lemma mshape_nth:
  assumes "mshape a b c m" and "i < a"
  shows "length (m ! i) = b" and "j < b \<Longrightarrow> length (m ! i ! j) = c" and "length m = a"
proof -
  have "m ! i \<in> set m" using assms by (simp add: mshape_def)
  then show b: "length (m ! i) = b" using assms(1) by (simp add: mshape_def)
  show "length (m ! i ! j) = c" if "j < b" using assms(1) \<open>m ! i \<in> set m\<close> b that by (simp add: mshape_def)
  show "length m = a" using assms(1) by (simp add: mshape_def)
qed

lemma mget_ok:
  assumes "mshape a b c m" and "i < a" and "j < b" and "k < c"
  shows "mget m i j k = Inr (m ! i ! j ! k)"
  using mshape_nth [OF assms(1,2)] assms by (simp add: mget_def)

lemma mput_ok:
  assumes "mshape a b c m" and "i < a" and "j < b" and "k < c"
  shows "mput m i j k x = Inr (mupd m i j k x)" and "mshape a b c (mupd m i j k x)"
proof -
  note n = mshape_nth [OF assms(1,2)]
  show "mput m i j k x = Inr (mupd m i j k x)" using n assms by (simp add: mput_def mupd_def)
  have "\<forall>s \<in> set ((m ! i)[j := (m ! i ! j)[k := x]]). length s = c"
  proof
    fix s
    assume "s \<in> set ((m ! i)[j := (m ! i ! j)[k := x]])"
    then have "s = (m ! i ! j)[k := x] \<or> s \<in> set (m ! i)" by (auto dest!: set_update_subset_insert [THEN subsetD])
    moreover have "m ! i \<in> set m" using assms n by simp
    ultimately show "length s = c" using assms(1) n assms(3) by (auto simp: mshape_def)
  qed
  then show "mshape a b c (mupd m i j k x)"
    using assms(1) n by (auto simp: mshape_def mupd_def dest!: set_update_subset_insert [THEN subsetD])
qed

lemma mupd_nth:
  assumes "mshape a b c m" and "i < a" and "j < b" and "k < c" and "i' < a" and "j' < b" and "k' < c"
  shows "mupd m i j k x ! i' ! j' ! k' = (if i' = i \<and> j' = j \<and> k' = k then x else m ! i' ! j' ! k')"
  using mshape_nth [OF assms(1,2)] assms by (auto simp: mupd_def nth_list_update)

lemma mupd_slice: "i' \<noteq> i \<Longrightarrow> mupd m i j k x ! i' = m ! i'"
  by (simp add: mupd_def)

lemma mupd_same:
  assumes "mshape a b c m" and "i < a" and "j < b" and "k < c"
  shows "mupd m i j k (m ! i ! j ! k) = m"
  by (simp add: mupd_def)

lemma mput_InrD:
  assumes "mput m i j k x = Inr m'" and "mshape a b c m"
  shows "mshape a b c m'" and "m' = mupd m i j k x" and "i < a" and "j < b" and "k < c"
proof -
  have r: "i < length m" "j < length (m ! i)" "k < length (m ! i ! j)" using assms(1)
    by (auto simp: mput_def bindR_Inr_iff at_Inr_iff put_Inr_iff)
  then show "i < a" "j < b" "k < c" using assms(2) mshape_nth [OF assms(2)] by (auto simp: mshape_def)
  then show "m' = mupd m i j k x" "mshape a b c m'" using mput_ok [OF assms(2)] assms(1) by auto
qed

section \<open>One relaxation step\<close>

text \<open>The new distance of a pair: the least of the old one and the detours over any switch.\<close>

definition via :: "nat \<Rightarrow> (nat \<Rightarrow> nat \<Rightarrow> int) \<Rightarrow> nat \<Rightarrow> nat \<Rightarrow> int" where
  "via n d i j = fold (\<lambda>k m. min m (d i k + d k j)) [0..<n] (d i j)"

lemma fold_min_bounds:
  fixes f :: "'a \<Rightarrow> int"
  shows "fold (\<lambda>k m. min m (f k)) ks b \<le> b" and "k \<in> set ks \<Longrightarrow> fold (\<lambda>k m. min m (f k)) ks b \<le> f k"
    and "fold (\<lambda>k m. min m (f k)) ks b = b \<or> (\<exists>k \<in> set ks. fold (\<lambda>k m. min m (f k)) ks b = f k)"
proof -
  have le: "fold (\<lambda>k m. min m (f k)) ks b \<le> b" for b ks
  proof (induction ks arbitrary: b)
    case (Cons a ks)
    then show ?case using Cons.IH [of "min b (f a)"] by simp
  qed simp
  then show "fold (\<lambda>k m. min m (f k)) ks b \<le> b" .
  show "fold (\<lambda>k m. min m (f k)) ks b \<le> f k" if "k \<in> set ks"
    using that
  proof (induction ks arbitrary: b)
    case (Cons a ks)
    then show ?case using le [of ks "min b (f a)"] by auto
  qed simp
  show "fold (\<lambda>k m. min m (f k)) ks b = b \<or> (\<exists>k \<in> set ks. fold (\<lambda>k m. min m (f k)) ks b = f k)"
  proof (induction ks arbitrary: b)
    case (Cons a ks)
    then show ?case using Cons.IH [of "min b (f a)"] by (auto simp: min_def)
  qed simp
qed

lemma via_bounds:
  "via n d i j \<le> d i j" "k < n \<Longrightarrow> via n d i j \<le> d i k + d k j"
  "via n d i j = d i j \<or> (\<exists>k < n. via n d i j = d i k + d k j)"
  using fold_min_bounds [where f = "\<lambda>k. d i k + d k j" and ks = "[0..<n]" and b = "d i j"] by (auto simp: via_def)

definition sp_ok :: "nat \<Rightarrow> nat \<Rightarrow> sp_state \<Rightarrow> bool" where
  "sp_ok V n s \<longleftrightarrow> mshape V n n (sp_dist s) \<and> mshape n n V (sp_latencies s) \<and> mshape n n V (sp_inter_switches s)"

abbreviation dist_of :: "sp_state \<Rightarrow> nat \<Rightarrow> nat \<Rightarrow> nat \<Rightarrow> int" where
  "dist_of s v i j \<equiv> sp_dist s ! v ! i ! j"

lemma relax_via_loop:
  assumes "mshape V n n dist" and "mshape n n V itr" and "v < V" and "i < n" and "j < n" and "set ks \<subseteq> {..<n}"
  shows "\<exists>isw' itr'. loopR (relax_via dist v i j) ks (m, isw, itr)
      = Inr (fold (\<lambda>k m. min m (dist ! v ! i ! k + dist ! v ! k ! j)) ks m, isw', itr')
    \<and> mshape n n V itr' \<and> (0 \<le> isw' \<and> isw' < int n \<or> isw' = isw \<and> fold (\<lambda>k m. min m (dist ! v ! i ! k + dist ! v ! k ! j)) ks m = m)"
  using assms(2,6)
proof (induction ks arbitrary: m isw itr)
  case (Cons k ks)
  let ?s = "dist ! v ! i ! k + dist ! v ! k ! j"
  have k: "k < n" using Cons.prems by simp
  have g: "mget dist v i k = Inr (dist ! v ! i ! k)" "mget dist v k j = Inr (dist ! v ! k ! j)"
    using mget_ok [OF assms(1,3)] assms(4,5) k by simp_all
  show ?case
  proof (cases "m \<le> ?s")
    case True
    then have "relax_via dist v i j k (m, isw, itr) = Inr (m, isw, itr)" by (simp add: relax_via_def g min_absorb1)
    with Cons.IH [of itr m isw] Cons.prems True show ?thesis by (simp add: min_absorb1)
  next
    case False
    let ?itr = "mupd itr i j v (itr ! i ! k ! v + itr ! k ! j ! v + 1)"
    have i: "mget itr i k v = Inr (itr ! i ! k ! v)" "mget itr k j v = Inr (itr ! k ! j ! v)"
      using mget_ok [OF Cons.prems(1)] assms(3-5) k by simp_all
    note p = mput_ok [OF Cons.prems(1) assms(4,5,3)]
    have r: "relax_via dist v i j k (m, isw, itr) = Inr (?s, int k, ?itr)"
      using False by (simp add: relax_via_def g i p(1) min_absorb2)
    from Cons.IH [of ?itr ?s "int k"] p(2) Cons.prems obtain isw' itr' where
      "loopR (relax_via dist v i j) ks (?s, int k, ?itr) = Inr (fold (\<lambda>k m. min m (dist ! v ! i ! k + dist ! v ! k ! j)) ks ?s, isw', itr')"
      "mshape n n V itr'" "0 \<le> isw' \<and> isw' < int n \<or> isw' = int k" by auto
    with r False k show ?thesis by (auto simp: min_absorb2)
  qed
qed simp

lemma relax_pair_ok:
  assumes ok: "sp_ok V n s" and v: "v < V" and i: "i < n" and j: "j < n"
  defines "x \<equiv> via n (dist_of s v) i j"
  shows "\<exists>s'. relax_pair v n (i, j) (ch, s) = Inr (ch \<or> x \<noteq> dist_of s v i j, s') \<and> sp_ok V n s' \<and> sp_dist s' = mupd (sp_dist s) v i j x"
proof -
  have sh: "mshape V n n (sp_dist s)" "mshape n n V (sp_latencies s)" "mshape n n V (sp_inter_switches s)" using ok by (simp_all add: sp_ok_def)
  have d: "mget (sp_dist s) v i j = Inr (dist_of s v i j)" by (rule mget_ok [OF sh(1) v i j])
  obtain isw itr where l: "loopR (relax_via (sp_dist s) v i j) [0..<n] (dist_of s v i j, -1, sp_inter_switches s) = Inr (x, isw, itr)"
    "mshape n n V itr" "0 \<le> isw \<and> isw < int n \<or> x = dist_of s v i j"
    using relax_via_loop [OF sh(1,3) v i j, of "[0..<n]" "dist_of s v i j" "-1"] by (auto simp: x_def via_def atLeast0LessThan)
  show ?thesis
  proof (cases "x = dist_of s v i j")
    case True
    then have "relax_pair v n (i, j) (ch, s) = Inr (ch, s\<lparr>sp_inter_switches := itr\<rparr>)" using d l(1) by (simp add: relax_pair_def)
    moreover have "mupd (sp_dist s) v i j x = sp_dist s" unfolding True by (rule mupd_same [OF sh(1) v i j])
    ultimately show ?thesis using True sh l(2) by (simp add: sp_ok_def)
  next
    case False
    then have w: "0 \<le> isw" "isw < int n" "nat isw < n" using l(3) by auto
    let ?y = "sp_latencies s ! i ! nat isw ! v + sp_latencies s ! nat isw ! j ! v"
    have "at (sp_latencies s) (int i) = Inr (sp_latencies s ! i)" "length (sp_latencies s ! i) = n"
      using mshape_nth [OF sh(2) i] i by simp_all
    then have "relax_pair v n (i, j) (ch, s) = Inr (True, \<lparr>sp_dist = mupd (sp_dist s) v i j x,
        sp_latencies = mupd (sp_latencies s) i j v ?y, sp_inter_switches = itr\<rparr>)"
      using d l(1) False w mput_ok(1) [OF sh(1) v i j] mget_ok [OF sh(2) i w(3) v] mget_ok [OF sh(2) w(3) j v] mput_ok(1) [OF sh(2) i j v]
      by (simp add: relax_pair_def)
    then show ?thesis using False l(2) mput_ok(2) [OF sh(1) v i j] mput_ok(2) [OF sh(2) i j v] by (simp add: sp_ok_def)
  qed
qed

section \<open>Walks\<close>

fun walk_weight :: "(nat \<Rightarrow> nat \<Rightarrow> int) \<Rightarrow> nat list \<Rightarrow> int" where
  "walk_weight w (a # b # xs) = w a b + walk_weight w (b # xs)"
| "walk_weight w xs = 0"

lemma walk_weight_append: "walk_weight w (xs @ k # ys) = walk_weight w (xs @ [k]) + walk_weight w (k # ys)"
proof (induction xs)
  case (Cons a xs)
  then show ?case by (cases xs) simp_all
qed simp

text \<open>The distances between the switches below \<open>n\<close> are weights of walks and at most the weights of the links.\<close>

definition walks :: "nat \<Rightarrow> (nat \<Rightarrow> nat \<Rightarrow> int) \<Rightarrow> (nat \<Rightarrow> nat \<Rightarrow> int) \<Rightarrow> bool" where
  "walks n w d \<longleftrightarrow> (\<forall>i < n. \<forall>j < n. 0 \<le> d i j \<and> d i j \<le> w i j
     \<and> (\<exists>xs. set xs \<subseteq> {..<n} \<and> walk_weight w (i # xs @ [j]) = d i j))"

definition closed :: "nat \<Rightarrow> (nat \<Rightarrow> nat \<Rightarrow> int) \<Rightarrow> bool" where
  "closed n d \<longleftrightarrow> (\<forall>i < n. \<forall>j < n. \<forall>k < n. d i j \<le> d i k + d k j)"

lemma walks_start: "\<forall>i < n. \<forall>j < n. 0 \<le> w i j \<Longrightarrow> walks n w w"
  unfolding walks_def by (auto intro!: exI [of _ "[]"])

lemma walks_via:
  assumes "walks n w d" and "i < n" and "j < n"
    and "\<forall>a < n. \<forall>b < n. d' a b = (if a = i \<and> b = j then via n d i j else d a b)"
  shows "walks n w d'"
proof -
  have nn: "0 \<le> d a b" if "a < n" "b < n" for a b using assms(1) that by (simp add: walks_def)
  have att: "\<exists>xs. set xs \<subseteq> {..<n} \<and> walk_weight w (i # xs @ [j]) = via n d i j"
  proof (cases "via n d i j = d i j")
    case True
    then show ?thesis using assms(1-3) by (simp add: walks_def)
  next
    case False
    then obtain k where k: "k < n" "via n d i j = d i k + d k j" using via_bounds(3) [of n d i j] by blast
    from assms(1-3) k(1) obtain xs ys where x: "set xs \<subseteq> {..<n}" "walk_weight w (i # xs @ [k]) = d i k"
      "set ys \<subseteq> {..<n}" "walk_weight w (k # ys @ [j]) = d k j" unfolding walks_def by meson
    then have "walk_weight w (i # (xs @ k # ys) @ [j]) = via n d i j"
      using walk_weight_append [of w "i # xs" k "ys @ [j]"] k(2) by simp
    with x(1,3) k(1) show ?thesis by (intro exI [of _ "xs @ k # ys"]) auto
  qed
  have "0 \<le> via n d i j" using via_bounds(3) [of n d i j] nn assms(2,3) by (metis add_nonneg_nonneg)
  moreover have "via n d i j \<le> w i j" using via_bounds(1) [of n d i j] assms(1-3) unfolding walks_def by (meson order_trans)
  ultimately show ?thesis using assms(1,4) att unfolding walks_def by auto
qed

lemma closed_lower:
  assumes "closed n d" and "walks n w d" and "i < n" and "j < n" and "set xs \<subseteq> {..<n}"
  shows "d i j \<le> walk_weight w (i # xs @ [j])"
  using assms(3,5)
proof (induction xs arbitrary: i)
  case Nil
  then show ?case using assms(2,4) by (simp add: walks_def)
next
  case (Cons k xs)
  have "d i j \<le> d i k + d k j" using assms(1,4) Cons.prems by (simp add: closed_def)
  also have "\<dots> \<le> w i k + walk_weight w (k # xs @ [j])"
    using Cons.IH [of k] Cons.prems assms(2) by (intro add_mono) (simp_all add: walks_def)
  finally show ?case by simp
qed

section \<open>Termination\<close>

definition dist_sum :: "nat \<Rightarrow> (nat \<Rightarrow> nat \<Rightarrow> int) \<Rightarrow> nat" where
  "dist_sum n d = (\<Sum>p \<in> {..<n} \<times> {..<n}. nat (d (fst p) (snd p)))"

lemma dist_sum_less:
  assumes "\<forall>a < n. \<forall>b < n. 0 \<le> d' a b \<and> d' a b \<le> d a b" and "i < n" and "j < n" and "d' i j < d i j"
  shows "dist_sum n d' < dist_sum n d"
  unfolding dist_sum_def
proof (rule sum_strict_mono_ex1)
  show "\<forall>p \<in> {..<n} \<times> {..<n}. nat (d' (fst p) (snd p)) \<le> nat (d (fst p) (snd p))" using assms(1) by (auto intro: nat_mono)
  show "\<exists>p \<in> {..<n} \<times> {..<n}. nat (d' (fst p) (snd p)) < nat (d (fst p) (snd p))"
  proof (intro bexI [of _ "(i, j)"])
    have "0 \<le> d' i j" using assms(1-3) by simp
    with assms(4) show "nat (d' (fst (i, j)) (snd (i, j))) < nat (d (fst (i, j)) (snd (i, j)))" by simp
  qed (use assms in simp)
qed simp

text \<open>A sweep over pairs of switches on virtual network \<open>v\<close>.\<close>

definition swept :: "nat \<Rightarrow> nat \<Rightarrow> nat \<Rightarrow> (nat \<Rightarrow> nat \<Rightarrow> int) \<Rightarrow> sp_state \<Rightarrow> sp_state \<Rightarrow> bool" where
  "swept V n v w s s' \<longleftrightarrow> sp_ok V n s' \<and> walks n w (dist_of s' v) \<and> (\<forall>u. u \<noteq> v \<longrightarrow> sp_dist s' ! u = sp_dist s ! u)"

lemma relax_pairs:
  assumes v: "v < V" and "sp_ok V n s" and "walks n w (dist_of s v)" and "set ps \<subseteq> {..<n} \<times> {..<n}"
  shows "\<exists>ch' s'. loopR (relax_pair v n) ps (ch, s) = Inr (ch', s') \<and> swept V n v w s s' \<and> (ch \<longrightarrow> ch')
    \<and> (\<forall>a < n. \<forall>b < n. dist_of s' v a b \<le> dist_of s v a b)
    \<and> (\<not> ch' \<longrightarrow> sp_dist s' = sp_dist s \<and> (\<forall>(i, j) \<in> set ps. via n (dist_of s v) i j = dist_of s v i j))
    \<and> (ch' \<and> \<not> ch \<longrightarrow> dist_sum n (dist_of s' v) < dist_sum n (dist_of s v))"
  using assms(2-)
proof (induction ps arbitrary: s ch)
  case Nil
  then show ?case by (simp add: swept_def)
next
  case (Cons p ps)
  obtain i j where p: "p = (i, j)" "i < n" "j < n" using Cons.prems by (cases p) auto
  let ?x = "via n (dist_of s v) i j"
  obtain s1 where s1: "relax_pair v n (i, j) (ch, s) = Inr (ch \<or> ?x \<noteq> dist_of s v i j, s1)" "sp_ok V n s1" "sp_dist s1 = mupd (sp_dist s) v i j ?x"
    using relax_pair_ok [OF Cons.prems(1) v p(2,3)] by blast
  have sh: "mshape V n n (sp_dist s)" using Cons.prems(1) by (simp add: sp_ok_def)
  have nth: "\<forall>a < n. \<forall>b < n. dist_of s1 v a b = (if a = i \<and> b = j then ?x else dist_of s v a b)"
    using mupd_nth [OF sh v p(2,3) v] by (simp add: s1(3))
  have w1: "walks n w (dist_of s1 v)" by (rule walks_via [OF Cons.prems(2) p(2,3) nth])
  have le1: "\<forall>a < n. \<forall>b < n. dist_of s1 v a b \<le> dist_of s v a b" using nth via_bounds(1) [of n "dist_of s v" i j] by simp
  have slice: "\<forall>u. u \<noteq> v \<longrightarrow> sp_dist s1 ! u = sp_dist s ! u" by (simp add: s1(3) mupd_slice)
  have tot1: "dist_sum n (dist_of s1 v) < dist_sum n (dist_of s v)" if "?x \<noteq> dist_of s v i j"
  proof (rule dist_sum_less [OF _ p(2,3)])
    show "\<forall>a < n. \<forall>b < n. 0 \<le> dist_of s1 v a b \<and> dist_of s1 v a b \<le> dist_of s v a b" using le1 w1 by (simp add: walks_def)
    show "dist_of s1 v i j < dist_of s v i j" using nth p(2,3) that via_bounds(1) [of n "dist_of s v" i j] by simp
  qed
  let ?ch = "ch \<or> ?x \<noteq> dist_of s v i j"
  from Cons.IH [OF s1(2) w1, of ?ch] Cons.prems(3) obtain ch' s' where
    r: "loopR (relax_pair v n) ps (?ch, s1) = Inr (ch', s')" "swept V n v w s1 s'" "?ch \<longrightarrow> ch'"
      "\<forall>a < n. \<forall>b < n. dist_of s' v a b \<le> dist_of s1 v a b"
      "\<not> ch' \<longrightarrow> sp_dist s' = sp_dist s1 \<and> (\<forall>(i, j) \<in> set ps. via n (dist_of s1 v) i j = dist_of s1 v i j)"
      "ch' \<and> \<not> ?ch \<longrightarrow> dist_sum n (dist_of s' v) < dist_sum n (dist_of s1 v)" by auto
  have same: "sp_dist s1 = sp_dist s" if "?x = dist_of s v i j" using mupd_same [OF sh v p(2,3)] that by (simp add: s1(3))
  have mono: "dist_sum n (dist_of s' v) \<le> dist_sum n (dist_of s1 v)"
    unfolding dist_sum_def using r(4) by (intro sum_mono) (auto intro: nat_mono)
  have "loopR (relax_pair v n) (p # ps) (ch, s) = Inr (ch', s')" using s1(1) r(1) by (simp add: p(1))
  moreover have "swept V n v w s s'" using r(2) slice by (simp add: swept_def)
  moreover have "\<forall>a < n. \<forall>b < n. dist_of s' v a b \<le> dist_of s v a b" using r(4) le1 by (meson order_trans)
  moreover have "\<not> ch' \<longrightarrow> sp_dist s' = sp_dist s \<and> (\<forall>(i, j) \<in> set (p # ps). via n (dist_of s v) i j = dist_of s v i j)"
    using r(3,5) same p(1) by auto
  moreover have "ch' \<and> \<not> ch \<longrightarrow> dist_sum n (dist_of s' v) < dist_sum n (dist_of s v)"
    using r(6) tot1 mono same by (cases "?x = dist_of s v i j") auto
  ultimately show ?case using r(3) by blast
qed

lemma relax_loop_ok:
  assumes v: "v < V" and "sp_ok V n s" and "walks n w (dist_of s v)"
  shows "\<exists>s'. relax_loop v n s = Some (Inr s') \<and> swept V n v w s s' \<and> closed n (dist_of s' v)"
  using assms(2-)
proof (induction "dist_sum n (dist_of s v)" arbitrary: s rule: less_induct)
  case less
  have ps: "set (List.product [0..<n] [0..<n]) = {..<n} \<times> {..<n}" by (auto simp: atLeast0LessThan)
  then obtain ch s1 where r: "relax_pass v n s = Inr (ch, s1)" "swept V n v w s s1"
      "\<not> ch \<longrightarrow> sp_dist s1 = sp_dist s \<and> (\<forall>(i, j) \<in> {..<n} \<times> {..<n}. via n (dist_of s v) i j = dist_of s v i j)"
      "ch \<longrightarrow> dist_sum n (dist_of s1 v) < dist_sum n (dist_of s v)"
    using relax_pairs [OF v less.prems, of "List.product [0..<n] [0..<n]" False] by (auto simp: relax_pass_def)
  show ?case
  proof (cases ch)
    case True
    then have "\<exists>s'. relax_loop v n s1 = Some (Inr s') \<and> swept V n v w s1 s' \<and> closed n (dist_of s' v)"
      using r(2,4) by (intro less.hyps) (auto simp: swept_def)
    then show ?thesis using True r(1,2) by (subst relax_loop.simps) (auto simp: swept_def)
  next
    case False
    have "dist_of s1 v i j \<le> dist_of s1 v i k + dist_of s1 v k j" if "i < n" "j < n" "k < n" for i j k
      using via_bounds(2) [of k n "dist_of s v" i j] r(3) False that by auto
    then have "closed n (dist_of s1 v)" by (simp add: closed_def)
    then show ?thesis using False r(1,2) by (subst relax_loop.simps) simp
  qed
qed

text \<open>All virtual networks: each gets the least distances of its own weights.\<close>

definition least_dist :: "nat \<Rightarrow> (nat \<Rightarrow> nat \<Rightarrow> int) \<Rightarrow> (nat \<Rightarrow> nat \<Rightarrow> int) \<Rightarrow> bool" where
  "least_dist n w d \<longleftrightarrow> (\<forall>i < n. \<forall>j < n. (\<exists>xs. set xs \<subseteq> {..<n} \<and> walk_weight w (i # xs @ [j]) = d i j)
     \<and> (\<forall>xs. set xs \<subseteq> {..<n} \<longrightarrow> d i j \<le> walk_weight w (i # xs @ [j])))"

lemma least_distI: "closed n d \<Longrightarrow> walks n w d \<Longrightarrow> least_dist n w d"
  using closed_lower unfolding least_dist_def walks_def by blast

lemma relax_vnets_ok:
  assumes "set vs \<subseteq> {..<V}" and "distinct vs" and "sp_ok V n s" and "\<forall>v \<in> set vs. walks n (w v) (dist_of s v)"
  shows "\<exists>s'. relax_vnets vs n s = Some (Inr s') \<and> sp_ok V n s' \<and> (\<forall>u. u \<notin> set vs \<longrightarrow> sp_dist s' ! u = sp_dist s ! u)
    \<and> (\<forall>v \<in> set vs. walks n (w v) (dist_of s' v) \<and> closed n (dist_of s' v))"
  using assms
proof (induction vs arbitrary: s)
  case (Cons v vs)
  from relax_loop_ok [of v V n s "w v"] Cons.prems obtain s1 where
    s1: "relax_loop v n s = Some (Inr s1)" "swept V n v (w v) s s1" "closed n (dist_of s1 v)" by auto
  then have "\<forall>u \<in> set vs. walks n (w u) (dist_of s1 u)" "sp_ok V n s1" using Cons.prems by (auto simp: swept_def)
  with Cons.IH [of s1] Cons.prems obtain s' where
    s': "relax_vnets vs n s1 = Some (Inr s')" "sp_ok V n s'" "\<forall>u. u \<notin> set vs \<longrightarrow> sp_dist s' ! u = sp_dist s1 ! u"
      "\<forall>v \<in> set vs. walks n (w v) (dist_of s' v) \<and> closed n (dist_of s' v)" by auto
  moreover have "walks n (w v) (dist_of s' v)" "closed n (dist_of s' v)" using s'(3) s1 Cons.prems(2) by (auto simp: swept_def)
  ultimately show ?case using s1 by (auto simp: swept_def)
qed simp

text \<open>Square matrices of non-negative weights, one per virtual network, and matrices for the latencies and the numbers of
  intermediate switches.\<close>

definition sp_input :: "nat \<Rightarrow> nat \<Rightarrow> Matrix \<Rightarrow> Matrix \<Rightarrow> Matrix \<Rightarrow> bool" where
  "sp_input V n weights latencies itr \<longleftrightarrow> 0 < V \<and> mshape V n n weights \<and> mshape n n V latencies \<and> mshape n n V itr
     \<and> (\<forall>v < V. \<forall>i < n. \<forall>j < n. 0 \<le> weights ! v ! i ! j)"

lemma shortest_path_ok:
  assumes "sp_input V n weights latencies itr"
  shows "\<exists>s. shortest_path V weights latencies itr = Some (Inr s) \<and> sp_ok V n s
    \<and> (\<forall>v < V. walks n (\<lambda>i j. weights ! v ! i ! j) (dist_of s v) \<and> closed n (dist_of s v))"
proof -
  let ?s = "\<lparr>sp_dist = weights, sp_latencies = latencies, sp_inter_switches = itr\<rparr>"
  have ok: "sp_ok V n ?s" using assms by (simp add: sp_ok_def sp_input_def)
  from assms obtain r rs where r: "weights = r # rs" "length r = n" unfolding sp_input_def mshape_def by (cases weights) auto
  have "\<forall>v \<in> set [0..<V]. walks n (\<lambda>i j. weights ! v ! i ! j) (dist_of ?s v)"
    using assms by (auto intro!: walks_start simp: sp_input_def)
  from relax_vnets_ok [OF _ _ ok this] show ?thesis
    by (auto simp: shortest_path_def extend_shortest_path_def r atLeast0LessThan)
qed

text \<open>Claim C18. The all-pairs computation of \<open>Topology::shortest_path\<close> is correct: for non-negative weights the loop that
  relaxes distances until none changes terminates, no assertion in it fails, and on every virtual network the distance
  of two switches is the least weight of a walk between them: some walk has that weight and none has less.\<close>

theorem shortest_path_correct:
  assumes "sp_input V n weights latencies itr"
  shows "\<exists>s. shortest_path V weights latencies itr = Some (Inr s)
    \<and> (\<forall>v < V. least_dist n (\<lambda>i j. weights ! v ! i ! j) (\<lambda>i j. sp_dist s ! v ! i ! j))"
  using shortest_path_ok [OF assms] least_distI by blast

definition demo_weights :: Matrix where
  "demo_weights = [[[0, 1, 5], [10000, 0, 2], [10000, 10000, 0]]]"

theorem shortest_path_correct_witness:
  "sp_input 1 3 demo_weights (square 3 3 1 (-1)) (square 3 3 1 0)
   \<and> (\<exists>s. shortest_path 1 demo_weights (square 3 3 1 (-1)) (square 3 3 1 0) = Some (Inr s) \<and> sp_dist s ! 0 ! 0 ! 2 \<le> 3)"
proof -
  have "(\<forall>v < (1::nat). P v) = P 0" "(\<forall>v < (3::nat). P v) = (P 0 \<and> P 1 \<and> P 2)" for P by (auto simp: less_Suc_eq numeral_3_eq_3 numeral_2_eq_2)
  then have i: "sp_input 1 3 demo_weights (square 3 3 1 (-1)) (square 3 3 1 0)"
    by (simp add: sp_input_def mshape_def demo_weights_def square_def)
  from shortest_path_correct [OF this] obtain s where
    s: "shortest_path 1 demo_weights (square 3 3 1 (-1)) (square 3 3 1 0) = Some (Inr s)"
    "least_dist 3 (\<lambda>i j. demo_weights ! 0 ! i ! j) (\<lambda>i j. sp_dist s ! 0 ! i ! j)" by auto
  have "walk_weight (\<lambda>i j. demo_weights ! 0 ! i ! j) [0, 1, 2] = 3" by (simp add: demo_weights_def)
  moreover have "\<forall>xs. set xs \<subseteq> {..<3} \<longrightarrow> sp_dist s ! 0 ! 0 ! 2 \<le> walk_weight (\<lambda>i j. demo_weights ! 0 ! i ! j) (0 # xs @ [2])"
    using s(2) by (simp add: least_dist_def)
  then have "sp_dist s ! 0 ! 0 ! 2 \<le> walk_weight (\<lambda>i j. demo_weights ! 0 ! i ! j) (0 # [1] @ [2])" by (rule allE [of _ "[1]"]) simp
  ultimately show ?thesis using i s(1) by auto
qed

section \<open>The matrices of a topology\<close>

lemma mshape_square: "mshape a b c (square a b c x)"
  by (auto simp: mshape_def square_def)

lemma square_nth: "i < a \<Longrightarrow> j < b \<Longrightarrow> k < c \<Longrightarrow> square a b c x ! i ! j ! k = x"
  by (simp add: square_def)

definition matrices_ok :: "nat \<Rightarrow> nat \<Rightarrow> Matrix \<times> Matrix \<Rightarrow> bool" where
  "matrices_ok V n = (\<lambda>(lat, w). mshape n n V lat \<and> mshape V n n w \<and> (\<forall>v < V. \<forall>i < n. \<forall>j < n. 0 \<le> w ! v ! i ! j))"

lemma weights_mput:
  assumes "mput w v i j x = Inr w'" and "mshape V n n w" and "0 \<le> x" and "\<forall>v < V. \<forall>i < n. \<forall>j < n. 0 \<le> w ! v ! i ! j"
  shows "mshape V n n w' \<and> (\<forall>v < V. \<forall>i < n. \<forall>j < n. 0 \<le> w' ! v ! i ! j)"
  using mput_InrD [OF assms(1,2)] mupd_nth [OF assms(2), of v i j] assms(3,4) by auto

lemma set_link_ok:
  assumes "set_link src dst link v (don, lat, w) = Inr (don', lat', w')" and "matrices_ok V n (lat, w)" and "0 \<le> bl_weight link"
  shows "matrices_ok V n (lat', w')"
proof -
  from assms(1) have "mput lat src dst (nat v) (int (bl_latency link)) = Inr lat'" and w: "mput w (nat v) src dst (bl_weight link) = Inr w'"
    by (auto simp: set_link_def bindR_Inr_iff)
  with assms(2) have "mshape n n V lat'" using mput_InrD(1) by (simp add: matrices_ok_def)
  with weights_mput [OF w, of V n] assms(2,3) show ?thesis by (simp add: matrices_ok_def)
qed

lemma fill_link_ok:
  assumes "fill_link vnets src dst e s = Inr s'" and "matrices_ok V n (snd s)" and "0 \<le> bl_weight (le_link e)"
  shows "matrices_ok V n (snd s')"
proof -
  have body: "matrices_ok V n (snd t)" if "matrices_ok V n (snd s)" "set_link src dst (le_link e) v s = Inr t" for v s t
    using set_link_ok [of src dst "le_link e" v "fst s" "fst (snd s)" "snd (snd s)" "fst t" "fst (snd t)" "snd (snd t)"] that assms(3) by simp
  show ?thesis
  proof (cases "bl_mVnets (le_link e) = []")
    case True
    then have "loopR (set_link src dst (le_link e)) (map int [0..<vnets]) s = Inr s'" using assms(1) by (simp add: fill_link_def)
    then show ?thesis by (rule loopR_invariant [where I = "\<lambda>s. matrices_ok V n (snd s)"]) (use assms(2) body in auto)
  next
    case False
    then have "loopR (\<lambda>vnet s'. bindR (failIf (vnet \<ge> int vnets) Fatal) (\<lambda>_. set_link src dst (le_link e) vnet s')) (bl_mVnets (le_link e)) s = Inr s'"
      using assms(1) by (simp add: fill_link_def Let_def)
    then show ?thesis
      by (rule loopR_invariant [where I = "\<lambda>s. matrices_ok V n (snd s)"]) (use assms(2) body in \<open>auto elim!: bindR_InrE\<close>)
  qed
qed

definition weights_nonneg :: "LinkMap \<Rightarrow> bool" where
  "weights_nonneg lm \<longleftrightarrow> (\<forall>(p, es) \<in> set lm. \<forall>e \<in> set es. 0 \<le> bl_weight (le_link e))"

lemma fill_group_ok:
  assumes "fill_group vnets g s = Inr s'" and "matrices_ok V n s" and "\<forall>e \<in> set (snd g). 0 \<le> bl_weight (le_link e)"
  shows "matrices_ok V n s'"
proof -
  from assms(1) obtain r where r: "loopR (fill_link vnets (fst (fst g)) (snd (fst g))) (snd g) (replicate vnets False, s) = Inr r" "s' = snd r"
    by (auto simp: fill_group_def bindR_Inr_iff split: prod.splits)
  from r(1) have "matrices_ok V n (snd r)"
    by (rule loopR_invariant [where I = "\<lambda>s. matrices_ok V n (snd s)"]) (use assms(2,3) fill_link_ok in auto)
  then show ?thesis by (simp add: r(2))
qed

lemma topology_matrices_ok:
  assumes "topology_matrices t = Inr (lat, w)" and "weights_nonneg (tp_link_map t)"
  defines "n \<equiv> max_switch_id (tp_link_map t) + 1"
  shows "sp_input (tp_vnets t) n w lat (square n n (tp_vnets t) 0)"
proof -
  let ?V = "tp_vnets t"
  from assms(1) obtain w0 where V: "0 < ?V" and w0: "loopR (\<lambda>(i, v) w. mput w v i i 0) (List.product [0..<n] [0..<?V]) (square ?V n n INFINITE_LATENCY) = Inr w0"
    and f: "loopR (fill_group ?V) (tp_link_map t) (square n n ?V (-1), w0) = Inr (lat, w)"
    by (auto simp: topology_matrices_def Let_def bindR_Inr_iff failIf_Inr_iff n_def)
  have "mshape ?V n n (square ?V n n INFINITE_LATENCY) \<and> (\<forall>v < ?V. \<forall>i < n. \<forall>j < n. 0 \<le> square ?V n n INFINITE_LATENCY ! v ! i ! j)"
    by (simp add: mshape_square square_nth INFINITE_LATENCY_def)
  with w0 have "mshape ?V n n w0 \<and> (\<forall>v < ?V. \<forall>i < n. \<forall>j < n. 0 \<le> w0 ! v ! i ! j)"
    by (rule loopR_invariant [where I = "\<lambda>w. mshape ?V n n w \<and> (\<forall>v < ?V. \<forall>i < n. \<forall>j < n. 0 \<le> w ! v ! i ! j)"])
      (use weights_mput in \<open>fastforce split: prod.splits\<close>)
  then have "matrices_ok ?V n (square n n ?V (-1), w0)" by (simp add: matrices_ok_def mshape_square)
  with f have "matrices_ok ?V n (lat, w)"
  proof (rule loopR_invariant [where I = "matrices_ok ?V n"])
    fix g s s'
    assume g: "g \<in> set (tp_link_map t)" and s: "matrices_ok ?V n s" and f: "fill_group ?V g s = Inr s'"
    from g have "\<forall>e \<in> set (snd g). 0 \<le> bl_weight (le_link e)" using assms(2) by (auto simp: weights_nonneg_def)
    with f s show "matrices_ok ?V n s'" by (rule fill_group_ok)
  qed
  with V show ?thesis by (simp add: sp_input_def matrices_ok_def mshape_square)
qed

text \<open>Claim C19. Building the network terminates: for a topology whose links have non-negative weights \<open>createLinks\<close>
  returns, with the list of links to make or with the error of an ill-formed configuration; its relaxation loop never
  runs forever.\<close>

theorem createLinks_terminates:
  assumes "weights_nonneg (tp_link_map t)"
  shows "\<exists>r. createLinks mc t = Some r"
proof (cases "topology_matrices t")
  case (Inr m)
  obtain lat w where m: "m = (lat, w)" by force
  from shortest_path_ok [OF topology_matrices_ok [OF Inr [unfolded m] assms]] Inr m show ?thesis by (auto simp: createLinks_def Let_def)
qed (simp add: createLinks_def)

text \<open>Three machines and two routers, with a link in each direction between the routers.\<close>

definition demo_basic_link :: "nat \<Rightarrow> BasicLink" where
  "demo_basic_link k = \<lparr>bl_id = k, bl_latency = 1, bl_bandwidth_factor = 16, bl_weight = 1, bl_mVnets = []\<rparr>"

definition demo_topology :: "Topology res" where
  "demo_topology = Topology_new small_conf 2 1
     [\<lparr>el_link = demo_basic_link 0, el_machine = MachineID 0 0, el_int_node = 0\<rparr>,
      \<lparr>el_link = demo_basic_link 1, el_machine = MachineID 0 1, el_int_node = 1\<rparr>,
      \<lparr>el_link = demo_basic_link 2, el_machine = MachineID 1 0, el_int_node = 1\<rparr>]
     [\<lparr>il_link = demo_basic_link 3, il_src_node = 0, il_dst_node = 1, il_src_outport = ''East'', il_dst_inport = ''West''\<rparr>,
      \<lparr>il_link = demo_basic_link 4, il_src_node = 1, il_dst_node = 0, il_src_outport = ''West'', il_dst_inport = ''East''\<rparr>]"

theorem createLinks_terminates_witness:
  "\<exists>t r. demo_topology = Inr t \<and> length (tp_link_map t) = 8 \<and> weights_nonneg (tp_link_map t) \<and> createLinks small_conf t = Some r"
proof -
  have num: "MachineType_base_number small_conf 0 = 0" "MachineType_base_number small_conf 1 = 2"
    "MachineType_base_number small_conf 2 = 3" "MachineType_NUM small_conf = 2"
    by (simp_all add: small_conf_def numeral_2_eq_2)
  obtain t where t: "demo_topology = Inr t" "length (tp_link_map t) = 8" "weights_nonneg (tp_link_map t)"
    by (simp add: demo_topology_def Topology_new_def add_ext_link_def add_int_link_def addLink_def num [simplified] num
        weights_nonneg_def demo_basic_link_def Let_def)
  with createLinks_terminates [OF t(3), of small_conf] show ?thesis by blast
qed

section \<open>Routing by the tables\<close>

lemma machine_index:
  assumes "machine_conf_ok mc"
  shows "map (\<lambda>m. MachineType_base_number mc (mach_type m) + mach_num m) (machine_list mc)
    = [0..<MachineType_base_number mc (MachineType_NUM mc)]"
proof -
  have base: "MachineType_base_number mc 0 = 0" "MachineType_base_number mc (Suc k) = MachineType_base_number mc k + MachineType_base_count mc k"
    if "k < MachineType_NUM mc" for k using assms that by (simp_all add: machine_conf_ok_def)
  have "map (\<lambda>m. MachineType_base_number mc (mach_type m) + mach_num m)
      (concat (map (\<lambda>m. map (MachineID m) [0..<MachineType_base_count mc m]) [0..<K])) = [0..<MachineType_base_number mc K]"
    if "K \<le> MachineType_NUM mc" for K
    using that
  proof (induction K)
    case 0
    then show ?case using assms by (simp add: machine_conf_ok_def)
  next
    case (Suc K)
    have "map (\<lambda>i. MachineType_base_number mc K + i) [0..<MachineType_base_count mc K]
        = [MachineType_base_number mc K..<MachineType_base_number mc (Suc K)]"
      using Suc.prems by (simp add: base(2) map_add_upt add.commute)
    then show ?case
      using Suc base(2) [of K] by (simp add: comp_def upt_add_eq_append [of 0, simplified])
  qed
  then show ?thesis by (simp add: machine_list_def)
qed

lemma machine_list_set: "set (machine_list mc) = {m. MachineID_ok mc m}"
proof -
  have "m \<in> set (machine_list mc) \<longleftrightarrow> MachineID_ok mc m" for m
    by (cases m) (force simp: machine_list_def MachineID_ok_def)
  then show ?thesis by blast
qed

definition final_switch :: "machine_conf \<Rightarrow> MachineID \<Rightarrow> nat" where
  "final_switch mc m = MachineType_base_number mc (mach_type m) + mach_num m + MachineType_base_number mc (MachineType_NUM mc)"

lemma loopR_filter:
  assumes "\<And>x s. x \<in> set xs \<Longrightarrow> f x s = (if P x then g x s else Inr s)"
  shows "loopR f xs s = loopR g (filter P xs) s"
  using assms
proof (induction xs arbitrary: s)
  case (Cons x xs)
  then have "loopR f xs t = loopR g (filter P xs) t" for t by simp
  then have "loopR f xs = loopR g (filter P xs)" by blast
  with Cons.prems [of x] show ?case by simp
qed simp

lemma shortest_path_to_node_elems:
  assumes mc: "machine_conf_ok mc" and V: "v < V" and sh: "mshape V n n weights" "mshape V n n dist" and "src < n" and "nxt < n"
    and N: "2 * MachineType_base_number mc (MachineType_NUM mc) \<le> n"
  shows "\<exists>nd. shortest_path_to_node mc src nxt weights dist v = Inr nd \<and> NetDest_ok mc nd
    \<and> NetDest_elems nd = {m. MachineID_ok mc m \<and> weights ! v ! src ! nxt + dist ! v ! nxt ! final_switch mc m = dist ! v ! src ! final_switch mc m}"
proof -
  let ?N = "MachineType_base_number mc (MachineType_NUM mc)"
  let ?ix = "\<lambda>m. MachineType_base_number mc (mach_type m) + mach_num m"
  let ?P = "\<lambda>m. weights ! v ! src ! nxt + dist ! v ! nxt ! final_switch mc m = dist ! v ! src ! final_switch mc m"
  note ix = machine_index [OF mc]
  have len: "length (machine_list mc) = ?N" using arg_cong [OF ix, of length] by simp
  have en: "enumerate 0 (machine_list mc) = map (\<lambda>m. (?ix m, m)) (machine_list mc)"
    unfolding enumerate_eq_zip add_0 len ix [symmetric] by (simp add: zip_map1 zip_same_conv_map)
  have lt: "final_switch mc m < n" if "m \<in> set (machine_list mc)" for m
  proof -
    have "?ix m \<in> set (map ?ix (machine_list mc))" using that by simp
    then show ?thesis using N unfolding ix by (simp add: final_switch_def)
  qed
  have step: "bindR (link_is_shortest_path_to_node src nxt (?ix m + ?N) weights dist v) (\<lambda>b. if b then NetDest_add mc m nd else Inr nd)
      = (if ?P m then NetDest_add mc m nd else Inr nd)" if "m \<in> set (machine_list mc)" for m nd
    using lt [OF that] mget_ok [OF sh(1) V assms(5,6)] mget_ok [OF sh(2) V] assms(5,6)
    by (simp add: link_is_shortest_path_to_node_def final_switch_def)
  obtain nd0 where nd0: "NetDest_new mc = Inr nd0" "NetDest_ok mc nd0" "NetDest_elems nd0 = {}" using NetDest_new_elems [OF mc] by blast
  have "\<forall>m \<in> set (filter ?P (machine_list mc)). MachineID_ok mc m" by (simp add: machine_list_set)
  from nd.add_members [OF nd0(2) this] nd0(3) obtain nd where "loopR (NetDest_add mc) (filter ?P (machine_list mc)) nd0 = Inr nd" "NetDest_ok mc nd"
    "NetDest_elems nd = set (filter ?P (machine_list mc))" by (metis Un_empty_right)
  moreover have "shortest_path_to_node mc src nxt weights dist v = loopR (NetDest_add mc) (filter ?P (machine_list mc)) nd0"
    unfolding shortest_path_to_node_def Let_def nd0(1) bindR.simps en loopR_map [symmetric] split_conv
    by (rule loopR_filter) (rule step)
  ultimately show ?thesis by (auto simp: machine_list_set)
qed

text \<open>A hop by the table: a configured link whose routing entry contains the machine.\<close>

definition table_hop :: "machine_conf \<Rightarrow> Matrix \<Rightarrow> Matrix \<Rightarrow> nat \<Rightarrow> MachineID \<Rightarrow> nat \<Rightarrow> nat \<Rightarrow> bool" where
  "table_hop mc weights dist v m src nxt \<longleftrightarrow> 0 < weights ! v ! src ! nxt \<and> weights ! v ! src ! nxt \<noteq> INFINITE_LATENCY
     \<and> (\<exists>nd. shortest_path_to_node mc src nxt weights dist v = Inr nd \<and> m \<in> NetDest_elems nd)"

inductive table_run :: "machine_conf \<Rightarrow> nat \<Rightarrow> Matrix \<Rightarrow> Matrix \<Rightarrow> nat \<Rightarrow> MachineID \<Rightarrow> nat \<Rightarrow> nat \<Rightarrow> nat \<Rightarrow> bool"
  for mc n weights dist v m src where
  here: "table_run mc n weights dist v m src 0 src"
| hop: "table_run mc n weights dist v m src k x \<Longrightarrow> table_hop mc weights dist v m x y \<Longrightarrow> y < n \<Longrightarrow>
    table_run mc n weights dist v m src (Suc k) y"

text \<open>The weights of one virtual network of a topology whose links have positive weights.\<close>

definition weights_ok :: "nat \<Rightarrow> (nat \<Rightarrow> nat \<Rightarrow> int) \<Rightarrow> bool" where
  "weights_ok n w \<longleftrightarrow> (\<forall>i < n. w i i = 0) \<and> (\<forall>i < n. \<forall>j < n. i \<noteq> j \<longrightarrow> 0 < w i j)"

lemma first_step:
  assumes "walks n w d" and "closed n d" and ok: "weights_ok n w" and f: "f < n"
    and "x < n" and "x \<noteq> f" and "set xs \<subseteq> {..<n}" and "walk_weight w (x # xs @ [f]) = d x f"
  shows "\<exists>y < n. y \<noteq> x \<and> w x y + d y f = d x f"
  using assms(5-)
proof (induction xs)
  case Nil
  have "d f f = 0" using assms(1) ok f by (force simp: walks_def weights_ok_def)
  with Nil f show ?case by (intro exI [of _ f]) simp
next
  case (Cons k xs)
  show ?case
  proof (cases "k = x")
    case True
    then have "walk_weight w (x # xs @ [f]) = d x f" using Cons.prems ok by (simp add: weights_ok_def)
    with Cons show ?thesis by simp
  next
    case False
    have k: "k < n" "set xs \<subseteq> {..<n}" using Cons.prems by simp_all
    have "d k f \<le> walk_weight w (k # xs @ [f])" by (rule closed_lower [OF assms(2,1) k(1) f k(2)])
    moreover have "d x f \<le> w x k + d k f" using assms(1,2) Cons.prems(1) k(1) f unfolding closed_def walks_def by (smt (verit))
    ultimately have "w x k + d k f = d x f" using Cons.prems(4) by simp
    with False k(1) show ?thesis by blast
  qed
qed

text \<open>Claim C17. Routing by the tables delivers: in a topology with positive link weights, a packet for a reachable machine
  that at every switch takes some link whose table entry contains the machine comes closer with every hop, so after
  \<open>k\<close> hops at most the remaining distance is left, and as long as it has not arrived there is such a link. It arrives
  after at most as many hops as the distance, whichever of the offered links it takes.\<close>

theorem table_routing_delivers:
  assumes "sp_input V n weights latencies itr" and "shortest_path V weights latencies itr = Some (Inr s)" and "v < V"
    and "weights_ok n (\<lambda>i j. weights ! v ! i ! j)" and "machine_conf_ok mc" and "2 * MachineType_base_number mc (MachineType_NUM mc) \<le> n"
    and "MachineID_ok mc m" and "src < n" and "sp_dist s ! v ! src ! final_switch mc m < INFINITE_LATENCY"
    and "table_run mc n weights (sp_dist s) v m src k x"
  shows "int k + sp_dist s ! v ! x ! final_switch mc m \<le> sp_dist s ! v ! src ! final_switch mc m
    \<and> (x \<noteq> final_switch mc m \<longrightarrow> (\<exists>y < n. table_hop mc weights (sp_dist s) v m x y))"
proof -
  let ?w = "\<lambda>i j. weights ! v ! i ! j" and ?d = "dist_of s v" and ?f = "final_switch mc m"
  have sp: "sp_ok V n s" "walks n ?w ?d" "closed n ?d" using shortest_path_ok [OF assms(1)] assms(2,3) by auto
  have sh: "mshape V n n weights" "mshape V n n (sp_dist s)" using assms(1) sp(1) by (simp_all add: sp_input_def sp_ok_def)
  have "m \<in> set (machine_list mc)" using assms(7) by (simp add: machine_list_set)
  then have "MachineType_base_number mc (mach_type m) + mach_num m \<in> set (map (\<lambda>m. MachineType_base_number mc (mach_type m) + mach_num m) (machine_list mc))"
    by simp
  then have f: "?f < n" using assms(6) unfolding machine_index [OF assms(5)] by (simp add: final_switch_def)
  have hop_iff: "table_hop mc weights (sp_dist s) v m a b \<longleftrightarrow> 0 < ?w a b \<and> ?w a b \<noteq> INFINITE_LATENCY \<and> ?w a b + ?d b ?f = ?d a ?f"
    if "a < n" "b < n" for a b
  proof -
    from shortest_path_to_node_elems [OF assms(5,3) sh that assms(6)] obtain nd where nd: "shortest_path_to_node mc a b weights (sp_dist s) v = Inr nd"
      "NetDest_elems nd = {m. MachineID_ok mc m \<and> ?w a b + ?d b (final_switch mc m) = ?d a (final_switch mc m)}" by blast
    then have "m \<in> NetDest_elems nd \<longleftrightarrow> ?w a b + ?d b ?f = ?d a ?f" using assms(7) by simp
    with nd(1) show ?thesis unfolding table_hop_def by simp
  qed
  have run: "x < n \<and> int k + ?d x ?f \<le> ?d src ?f" using assms(10)
  proof induction
    case here
    then show ?case using assms(8) by simp
  next
    case (hop k x y)
    then show ?case using hop_iff [of x y] by simp
  qed
  moreover have "\<exists>y < n. table_hop mc weights (sp_dist s) v m x y" if "x \<noteq> ?f"
  proof -
    from sp(2) run f obtain xs where "set xs \<subseteq> {..<n}" "walk_weight ?w (x # xs @ [?f]) = ?d x ?f" unfolding walks_def by meson
    from first_step [OF sp(2,3) assms(4) f conjunct1 [OF run] that this] obtain y where y: "y < n" "y \<noteq> x" "?w x y + ?d y ?f = ?d x ?f" by blast
    have "0 < ?w x y" using assms(4) y(1,2) run by (simp add: weights_ok_def)
    moreover have "0 \<le> ?d y ?f" using sp(2) y(1) f by (simp add: walks_def)
    then have "?w x y < INFINITE_LATENCY" using y(3) run assms(9) by linarith
    ultimately show ?thesis using hop_iff [of x y] run y by auto
  qed
  ultimately show ?thesis by blast
qed

text \<open>The weights of the three machines and two routers above: inputs 0 to 2, outputs 3 to 5, routers 6 and 7.\<close>

definition demo_net_weights :: Matrix where
  "demo_net_weights = [map (\<lambda>i. map (\<lambda>j. if i = j then 0
     else if (i, j) \<in> {(0, 6), (1, 7), (2, 7), (6, 3), (7, 4), (7, 5), (6, 7), (7, 6)} then 1 else 10000) [0..<8]) [0..<8]]"

theorem table_routing_delivers_witness:
  "\<exists>s. shortest_path 1 demo_net_weights (square 8 8 1 (-1)) (square 8 8 1 0) = Some (Inr s)
     \<and> table_run small_conf 8 demo_net_weights (sp_dist s) 0 (MachineID 1 0) 0 0 0
     \<and> (\<exists>y < 8. table_hop small_conf demo_net_weights (sp_dist s) 0 (MachineID 1 0) 0 y)"
proof -
  have sh: "mshape 1 8 8 demo_net_weights" by (auto simp: mshape_def demo_net_weights_def)
  have nth: "demo_net_weights ! 0 ! i ! j = (if i = j then 0
      else if (i, j) \<in> {(0, 6), (1, 7), (2, 7), (6, 3), (7, 4), (7, 5), (6, 7), (7, 6)} then 1 else 10000)" if "i < 8" "j < 8" for i j
    using that by (simp add: demo_net_weights_def)
  have i: "sp_input 1 8 demo_net_weights (square 8 8 1 (-1)) (square 8 8 1 0)" using sh nth by (simp add: sp_input_def mshape_square)
  have w: "weights_ok 8 (\<lambda>i j. demo_net_weights ! 0 ! i ! j)" using nth by (simp add: weights_ok_def)
  have mc: "machine_conf_ok small_conf" using small_dest_ok by (simp add: NetDest_ok_def)
  have num: "MachineType_base_number small_conf (Suc 0) = 2" "MachineType_base_number small_conf 2 = 3" "MachineType_NUM small_conf = 2"
    by (simp_all add: small_conf_def numeral_2_eq_2)
  have m: "MachineID_ok small_conf (MachineID 1 0)" "final_switch small_conf (MachineID 1 0) = 5"
    by (simp_all add: MachineID_ok_def final_switch_def num) (simp add: small_conf_def)
  from shortest_path_ok [OF i] obtain s where s: "shortest_path 1 demo_net_weights (square 8 8 1 (-1)) (square 8 8 1 0) = Some (Inr s)"
    "walks 8 (\<lambda>i j. demo_net_weights ! 0 ! i ! j) (dist_of s 0)" "closed 8 (dist_of s 0)" by auto
  have "walk_weight (\<lambda>i j. demo_net_weights ! 0 ! i ! j) (0 # [6, 7] @ [5]) = 3" by (simp add: nth)
  with closed_lower [OF s(3,2), of 0 5 "[6, 7]"] have d: "dist_of s 0 0 5 < INFINITE_LATENCY" by (simp add: INFINITE_LATENCY_def)
  have r: "table_run small_conf 8 demo_net_weights (sp_dist s) 0 (MachineID 1 0) 0 0 0" by (rule table_run.here)
  from table_routing_delivers [OF i s(1) _ w mc _ m(1) _ _ r] d have "\<exists>y < 8. table_hop small_conf demo_net_weights (sp_dist s) 0 (MachineID 1 0) 0 y"
    by (simp add: m(2) [simplified] num)
  with s(1) r show ?thesis by blast
qed

end
