(* ===== verification/Network_Bridge.thy ===== *)
theory Network_Bridge
  imports Virtual_Channels
begin

text \<open>
  \<open>NetworkBridge\<close>: the clock-domain crossing and serialiser between a link and a component of another clock or width.
  The bridge is a link of its own (\<open>nb_base\<close>); of the link next to it only the width is read. What it tells its
  companion bridge (\<open>neutralize\<close>) is returned, like the wake-up of its consumer; \<open>period\<close> is the clock period of that
  consumer. Quotients of \<open>float\<close> copies of sizes are rounded quotients of the integers, which they equal in the range
  where \<open>float\<close> is exact.
\<close>

datatype CDCType = LINK_OBJECT | OBJECT_LINK | Num_CDCType

record NetworkBridge =
  nb_base :: NetworkLink
  nb_nLink_bitWidth :: nat
  nb_enCdc :: bool
  nb_enSerDes :: bool
  nb_mType :: CDCType
  nb_cdcLatency :: Cycles
  nb_serDesLatency :: Cycles
  nb_lastScheduledAt :: Tick
  nb_lenBuffer :: "int list"
  nb_sizeSent :: "int list"
  nb_flitsSent :: "int list"
  nb_extraCredit :: "int list list"

definition NetworkBridge_new :: "NetworkLink \<Rightarrow> nat \<Rightarrow> CDCType \<Rightarrow> Cycles \<Rightarrow> Cycles \<Rightarrow> NetworkBridge res" where
  "NetworkBridge_new base nLink_bitWidth vtype cdc_latency serdes_latency =
     (if vtype = LINK_OBJECT \<or> vtype = OBJECT_LINK then
        Inr \<lparr>nb_base = base, nb_nLink_bitWidth = nLink_bitWidth, nb_enCdc = True, nb_enSerDes = True, nb_mType = vtype,
             nb_cdcLatency = cdc_latency, nb_serDesLatency = serdes_latency, nb_lastScheduledAt = 0, nb_lenBuffer = [],
             nb_sizeSent = [], nb_flitsSent = [], nb_extraCredit = []\<rparr>
      else Inl Panic)"

definition resize :: "nat \<Rightarrow> 'a \<Rightarrow> 'a list \<Rightarrow> 'a list" where
  "resize n x xs = take n xs @ replicate (n - length xs) x"

definition nb_setVcsPerVnet :: "nat \<Rightarrow> NetworkLink \<Rightarrow> NetworkBridge \<Rightarrow> NetworkLink \<times> NetworkBridge" where
  "nb_setVcsPerVnet consumerVcs nLink b =
     (let n = consumerVcs * nl_virt_nets (nb_base b) in
      (nl_setVcsPerVnet consumerVcs nLink,
       b\<lparr>nb_base := nl_setVcsPerVnet consumerVcs (nb_base b), nb_lenBuffer := resize n 0 (nb_lenBuffer b),
        nb_sizeSent := resize n 0 (nb_sizeSent b), nb_flitsSent := resize n 0 (nb_flitsSent b),
        nb_extraCredit := resize n [] (nb_extraCredit b)\<rparr>))"

definition initBridge :: "bool \<Rightarrow> bool \<Rightarrow> NetworkBridge \<Rightarrow> NetworkBridge" where
  "initBridge cdc_en serdes_en b = b\<lparr>nb_enCdc := cdc_en, nb_enSerDes := serdes_en\<rparr>"

definition nb_scheduleFlit :: "nat \<Rightarrow> Tick \<Rightarrow> flit \<Rightarrow> Cycles \<Rightarrow> NetworkBridge \<Rightarrow> NetworkBridge \<times> wake_req list" where
  "nb_scheduleFlit period now t_flit latency b =
     (let totLatency = (if nb_enCdc b then latency + nb_cdcLatency b else latency);
          sendTime = max (nb_lastScheduledAt b + period * 1) (clockEdge_at period now totLatency)
      in (b\<lparr>nb_lastScheduledAt := sendTime,
            nb_base := (nb_base b)\<lparr>nl_buffer := fb_insert (t_flit\<lparr>f_time := sendTime\<rparr>) (nl_buffer (nb_base b))\<rparr>\<rparr>,
          [Wake_consumer sendTime]))"

definition neutralize :: "int \<Rightarrow> int \<Rightarrow> NetworkBridge \<Rightarrow> NetworkBridge res" where
  "neutralize vc eCredit b = bindR (at (nb_extraCredit b) vc) (\<lambda>q.
     bindR (put (nb_extraCredit b) vc (q @ [eCredit])) (\<lambda>qs. Inr (b\<lparr>nb_extraCredit := qs\<rparr>)))"

text \<open>Rounded quotients; a zero width is a division by zero.\<close>

definition div_floor :: "int \<Rightarrow> nat \<Rightarrow> int res" where
  "div_floor a b = (if b = 0 then Inl Div_by_zero else Inr (a div int b))"

definition div_ceil :: "int \<Rightarrow> nat \<Rightarrow> int res" where
  "div_ceil a b = (if b = 0 then Inl Div_by_zero else Inr (- ((- a) div int b)))"

definition target_width :: "NetworkBridge \<Rightarrow> nat" where
  "target_width b = (if nb_mType b = OBJECT_LINK then nb_nLink_bitWidth b else nl_bitWidth (nb_base b))"

definition cur_width :: "NetworkBridge \<Rightarrow> nat" where
  "cur_width b = (if nb_mType b = OBJECT_LINK then nl_bitWidth (nb_base b) else nb_nLink_bitWidth b)"

text \<open>The front of the queue of credit ratios, which must not be zero.\<close>

definition front_credit :: "int \<Rightarrow> NetworkBridge \<Rightarrow> (int \<times> int list) res" where
  "front_credit vc b = bindR (at (nb_extraCredit b) vc) (\<lambda>q.
     case q of [] \<Rightarrow> Inl Bad_index | c # cs \<Rightarrow> bindR (assertR (c \<noteq> 0)) (\<lambda>_. Inr (c, cs)))"

definition pop_credit :: "int \<Rightarrow> int list \<Rightarrow> NetworkBridge \<Rightarrow> NetworkBridge res" where
  "pop_credit vc cs b = bindR (put (nb_extraCredit b) vc cs) (\<lambda>qs. Inr (b\<lparr>nb_extraCredit := qs\<rparr>))"

definition set_lenBuffer :: "int \<Rightarrow> int \<Rightarrow> NetworkBridge \<Rightarrow> NetworkBridge res" where
  "set_lenBuffer vc x b = bindR (put (nb_lenBuffer b) vc x) (\<lambda>ls. Inr (b\<lparr>nb_lenBuffer := ls\<rparr>))"

definition set_sent :: "int \<Rightarrow> int \<Rightarrow> int \<Rightarrow> NetworkBridge \<Rightarrow> NetworkBridge res" where
  "set_sent vc sz fl b = bindR (put (nb_sizeSent b) vc sz) (\<lambda>ss. bindR (put (nb_flitsSent b) vc fl) (\<lambda>fs.
     Inr (b\<lparr>nb_sizeSent := ss, nb_flitsSent := fs\<rparr>)))"

text \<open>Deserialisation, first part: how many flits can be made (at most one), and of how many.\<close>

definition deserialize_count :: "flit \<Rightarrow> NetworkBridge \<Rightarrow> (int \<times> int \<times> NetworkBridge) res" where
  "deserialize_count t_flit b =
     (let vc = f_vc t_flit; tw = target_width b in
      if f_type t_flit = CREDIT then
        bindR (at (nb_lenBuffer b) vc) (\<lambda>l.
        bindR (set_lenBuffer vc (l + 1) b) (\<lambda>b1.
        bindR (front_credit vc b1) (\<lambda>(c, cs).
          if l + 1 = c then bindR (pop_credit vc cs b1) (\<lambda>b2. bindR (set_lenBuffer vc 0 b2) (\<lambda>b3. Inr (1, 0, b3)))
          else Inr (0, 0, b1))))
      else
        bindR (at (nb_sizeSent b) vc) (\<lambda>sent.
        bindR (at (nb_flitsSent b) vc) (\<lambda>flits.
          if f_type t_flit = TAIL \<or> f_type t_flit = HEAD_TAIL then
            bindR (div_ceil (int (f_msgSize t_flit) - sent) tw) (\<lambda>flitPossible.
            bindR (assertR (flitPossible < 2)) (\<lambda>_.
            bindR (set_sent vc 0 0 b) (\<lambda>b1. Inr (flitPossible, f_id t_flit + 1 - flits, b1))))
          else
            bindR (div_floor ((f_id t_flit + 1) * int (cur_width b) - sent) tw) (\<lambda>flitPossible.
            bindR (assertR (flitPossible < 2)) (\<lambda>_.
            bindR (if flitPossible \<noteq> 0 then set_sent vc (sent + int tw) (f_id t_flit + 1) b else Inr b) (\<lambda>b1.
              Inr (flitPossible, f_id t_flit + 1 - flits, b1)))))))"

definition nb_deserialize ::
  "nat \<Rightarrow> Tick \<Rightarrow> NetDest \<Rightarrow> flit \<Rightarrow> NetworkBridge \<Rightarrow> (NetworkBridge \<times> (int \<times> int) list \<times> wake_req list) res" where
  "nb_deserialize period now nd t_flit b =
     bindR (deserialize_count t_flit b) (\<lambda>(flitPossible, num_flits, b1).
       if flitPossible \<noteq> 0 then
         bindR (at (nb_lenBuffer b1) (f_vc t_flit)) (\<lambda>l.
         bindR (deserialize nd l num_flits (target_width b) t_flit) (\<lambda>fl.
         bindR (set_lenBuffer (f_vc t_flit) 0 b1) (\<lambda>b2.
           let (b3, reqs) = nb_scheduleFlit period now fl (nb_serDesLatency b) b2
           in Inr (b3, if f_type t_flit \<noteq> CREDIT then [(f_vc t_flit, num_flits)] else [], reqs))))
       else Inr (b1, [], []))"

text \<open>Serialisation, first part: into how many flits.\<close>

definition serialize_count :: "flit \<Rightarrow> NetworkBridge \<Rightarrow> (int \<times> NetworkBridge) res" where
  "serialize_count t_flit b =
     (let vc = f_vc t_flit; tw = target_width b in
      if f_type t_flit = CREDIT then
        bindR (front_credit vc b) (\<lambda>(c, cs). bindR (pop_credit vc cs b) (\<lambda>b1. Inr (c, b1)))
      else
        bindR (at (nb_sizeSent b) vc) (\<lambda>sent.
        bindR (at (nb_flitsSent b) vc) (\<lambda>flits.
          if f_type t_flit = HEAD \<or> f_type t_flit = BODY then
            bindR (div_floor ((f_id t_flit + 1) * int (cur_width b) - sent) tw) (\<lambda>flitPossible.
            bindR (if flitPossible \<noteq> 0 then set_sent vc (sent + flitPossible * int tw) (flits + flitPossible) b else Inr b) (\<lambda>b1.
              Inr (flitPossible, b1)))
          else
            bindR (div_ceil (int (f_msgSize t_flit) - sent) tw) (\<lambda>flitPossible.
            bindR (set_sent vc 0 0 b) (\<lambda>b1. Inr (flitPossible, b1))))))"

definition send_part ::
  "nat \<Rightarrow> Tick \<Rightarrow> NetDest \<Rightarrow> flit \<Rightarrow> int \<Rightarrow> int \<Rightarrow> NetworkBridge \<times> wake_req list \<Rightarrow> (NetworkBridge \<times> wake_req list) res" where
  "send_part period now nd t_flit flitPossible i = (\<lambda>(b, reqs).
     bindR (serialize nd i flitPossible (target_width b) t_flit) (\<lambda>fl.
       let (b', rs) = nb_scheduleFlit period now fl (nb_serDesLatency b) b in Inr (b', reqs @ rs)))"

definition nb_serialize ::
  "nat \<Rightarrow> Tick \<Rightarrow> NetDest \<Rightarrow> flit \<Rightarrow> NetworkBridge \<Rightarrow> (NetworkBridge \<times> (int \<times> int) list \<times> wake_req list) res" where
  "nb_serialize period now nd t_flit b =
     bindR (serialize_count t_flit b) (\<lambda>(flitPossible, b1).
     bindR (assertR (flitPossible > 0)) (\<lambda>_.
     bindR (loopR (send_part period now nd t_flit flitPossible) (map int [0..<nat flitPossible]) (b1, [])) (\<lambda>(b2, reqs).
       Inr (b2, if f_type t_flit \<noteq> CREDIT then [(f_vc t_flit, flitPossible)] else [], reqs))))"

definition flitisizeAndSend ::
  "nat \<Rightarrow> Tick \<Rightarrow> NetDest \<Rightarrow> flit \<Rightarrow> NetworkBridge \<Rightarrow> (NetworkBridge \<times> (int \<times> int) list \<times> wake_req list) res" where
  "flitisizeAndSend period now nd t_flit b =
     (if nb_enSerDes b then
        bindR (assertR (target_width b \<noteq> cur_width b)) (\<lambda>_.
          if target_width b > cur_width b then nb_deserialize period now nd t_flit b
          else nb_serialize period now nd t_flit b)
      else let (b', reqs) = nb_scheduleFlit period now t_flit 0 b in Inr (b', [], reqs))"

text \<open>The wake-up also returns the source queue and what the companion bridge is told.\<close>

definition nb_wakeup ::
  "nat \<Rightarrow> Tick \<Rightarrow> NetDest \<Rightarrow> flitBuffer \<Rightarrow> NetworkBridge
     \<Rightarrow> (flitBuffer \<times> NetworkBridge \<times> (int \<times> int) list \<times> wake_req list) res" where
  "nb_wakeup period now nd src b =
     bindR (if fb_isReady now src then
              bindR (fb_getTopFlit src) (\<lambda>(t_flit, src').
              bindR (flitisizeAndSend period now nd t_flit b) (\<lambda>(b', told, reqs). Inr (src', b', told, reqs)))
            else Inr (src, b, [], [])) (\<lambda>(src', b', told, reqs).
       Inr (src', b', told, reqs @ (if \<not> fb_isEmpty src' then [Wake_self 1] else [])))"

end
