(* ===== verification/Bridge_Packets.thy ===== *)
theory Bridge_Packets
  imports Network_Bridge
begin

text \<open>
  What a pair of bridges does to packets and credits: for an integral ratio of the widths a packet comes out of the pair
  as it went in, the credits of the opposite direction come back one for one, and other ratios end in an error.
\<close>

section \<open>What a bridge sends\<close>

text \<open>Send times at least one period of the consumer apart, starting from \<open>t\<close>.\<close>

fun spaced :: "nat \<Rightarrow> Tick \<Rightarrow> flit list \<Rightarrow> bool" where
  "spaced period t [] = True"
| "spaced period t (f # fs) \<longleftrightarrow> t + period \<le> f_time f \<and> spaced period (f_time f) fs"

definition last_time :: "Tick \<Rightarrow> flit list \<Rightarrow> Tick" where
  "last_time t fs = (if fs = [] then t else f_time (last fs))"

lemma spaced_append: "spaced period t (xs @ ys) \<longleftrightarrow> spaced period t xs \<and> spaced period (last_time t xs) ys"
  by (induction xs arbitrary: t) (auto simp: last_time_def)

lemma last_time_append: "last_time t (xs @ ys) = last_time (last_time t xs) ys"
  by (simp add: last_time_def)

abbreviation nb_out :: "NetworkBridge \<Rightarrow> flit list" where
  "nb_out b \<equiv> fb_buffer (nl_buffer (nb_base b))"

definition same_setup :: "NetworkBridge \<Rightarrow> NetworkBridge \<Rightarrow> bool" where
  "same_setup b b' \<longleftrightarrow> nb_enSerDes b' = nb_enSerDes b \<and> target_width b' = target_width b \<and> cur_width b' = cur_width b
     \<and> nb_serDesLatency b' = nb_serDesLatency b"

definition sends :: "nat \<Rightarrow> NetworkBridge \<Rightarrow> flit list \<Rightarrow> NetworkBridge \<Rightarrow> bool" where
  "sends period b out b' \<longleftrightarrow> nb_out b' = nb_out b @ out \<and> spaced period (nb_lastScheduledAt b) out
     \<and> nb_lastScheduledAt b' = last_time (nb_lastScheduledAt b) out \<and> same_setup b b'"

lemma sends_trans: "sends period b xs b1 \<Longrightarrow> sends period b1 ys b2 \<Longrightarrow> sends period b (xs @ ys) b2"
  by (simp add: sends_def spaced_append last_time_append same_setup_def)

lemma sends_refl: "sends period b [] b"
  by (simp add: sends_def same_setup_def last_time_def)

lemma scheduleFlit_sends:
  assumes "nb_scheduleFlit period now f latency b = (b', reqs)"
  shows "\<exists>t. sends period b [f\<lparr>f_time := t\<rparr>] b'" and "nb_sizeSent b' = nb_sizeSent b" and "nb_flitsSent b' = nb_flitsSent b"
  using assms by (auto simp: nb_scheduleFlit_def Let_def sends_def same_setup_def target_width_def cur_width_def fb_insert_def last_time_def)

section \<open>Packets\<close>

text \<open>The flit number \<open>i\<close> of the packet of \<open>p\<close> when it is cut into flits of \<open>W\<close> bits, and the whole packet in order.\<close>

definition flit_of :: "flit \<Rightarrow> nat \<Rightarrow> nat \<Rightarrow> flit \<Rightarrow> bool" where
  "flit_of p W i f \<longleftrightarrow> f_id f = int i \<and> f_width f = W \<and> f_size f = int (divCeil (f_msgSize p) W)
     \<and> f_type f = flit_kind (int i) (int (divCeil (f_msgSize p) W)) \<and> f_vc f = f_vc p \<and> f_vnet f = f_vnet p
     \<and> f_route f = f_route p \<and> f_msg_ptr f = f_msg_ptr p \<and> f_msgSize f = f_msgSize p"

definition flits_from :: "flit \<Rightarrow> nat \<Rightarrow> nat \<Rightarrow> flit list \<Rightarrow> bool" where
  "flits_from p W i fs \<longleftrightarrow> (\<forall>k < length fs. flit_of p W (i + k) (fs ! k))"

definition whole_packet :: "flit \<Rightarrow> nat \<Rightarrow> flit list \<Rightarrow> bool" where
  "whole_packet p W fs \<longleftrightarrow> flits_from p W 0 fs \<and> length fs = divCeil (f_msgSize p) W"

lemma flits_from_Nil: "flits_from p W i []"
  by (simp add: flits_from_def)

lemma flits_from_Cons: "flits_from p W i (f # fs) \<longleftrightarrow> flit_of p W i f \<and> flits_from p W (Suc i) fs"
  unfolding flits_from_def by (auto simp: less_Suc_eq_0_disj)

lemma flits_from_append: "flits_from p W i (fs @ gs) \<longleftrightarrow> flits_from p W i fs \<and> flits_from p W (i + length fs) gs"
  by (induction fs arbitrary: i) (auto simp: flits_from_Nil flits_from_Cons)

lemma flit_of_time [simp]: "flit_of p W i (f\<lparr>f_time := t\<rparr>) = flit_of p W i f"
  by (simp add: flit_of_def)

lemma flit_of_type: "flit_of p W i f \<Longrightarrow> f_type f \<noteq> CREDIT"
  by (simp add: flit_of_def)

lemma flit_of_last:
  assumes "flit_of p W i f" and "i < divCeil (f_msgSize p) W"
  shows "(f_type f = TAIL \<or> f_type f = HEAD_TAIL) \<longleftrightarrow> Suc i = divCeil (f_msgSize p) W"
    and "(f_type f = HEAD \<or> f_type f = BODY) \<longleftrightarrow> Suc i < divCeil (f_msgSize p) W"
  using assms by (auto simp: flit_of_def flit_kind_def)

text \<open>The bridge over a sequence of flits, each handled at its own time; \<open>told\<close> collects what the companion is told.\<close>

definition bridge_step ::
  "nat \<Rightarrow> NetDest \<Rightarrow> Tick \<times> flit \<Rightarrow> NetworkBridge \<times> (int \<times> int) list \<Rightarrow> (NetworkBridge \<times> (int \<times> int) list) res" where
  "bridge_step period nd = (\<lambda>(now, f) (b, told).
     bindR (flitisizeAndSend period now nd f b) (\<lambda>(b', told', reqs). Inr (b', told @ told')))"

definition bridge_run ::
  "nat \<Rightarrow> NetDest \<Rightarrow> Tick list \<Rightarrow> flit list \<Rightarrow> NetworkBridge \<Rightarrow> (NetworkBridge \<times> (int \<times> int) list) res" where
  "bridge_run period nd nows fs b = loopR (bridge_step period nd) (zip nows fs) (b, [])"

text \<open>The counters of a channel.\<close>

definition tracks :: "int \<Rightarrow> int \<Rightarrow> int \<Rightarrow> NetworkBridge \<Rightarrow> bool" where
  "tracks vc s n b \<longleftrightarrow> 0 \<le> vc \<and> vc < int (length (nb_sizeSent b)) \<and> vc < int (length (nb_flitsSent b))
     \<and> vc < int (length (nb_lenBuffer b)) \<and> nb_sizeSent b ! nat vc = s \<and> nb_flitsSent b ! nat vc = n"

lemma set_sent_tracks:
  assumes "tracks vc s n b"
  shows "\<exists>b'. set_sent vc s' n' b = Inr b' \<and> tracks vc s' n' b' \<and> sends period b [] b'
    \<and> nb_lenBuffer b' = nb_lenBuffer b \<and> nb_extraCredit b' = nb_extraCredit b"
  using assms by (auto simp: tracks_def set_sent_def put_def sends_def same_setup_def target_width_def cur_width_def last_time_def)

lemma scheduleFlit_keeps:
  assumes "nb_scheduleFlit period now f latency b = (b', reqs)"
  shows "\<exists>t. sends period b [f\<lparr>f_time := t\<rparr>] b'" and "nb_lenBuffer b' = nb_lenBuffer b" and "nb_extraCredit b' = nb_extraCredit b"
    and "tracks vc s n b' = tracks vc s n b"
  using assms by (auto simp: nb_scheduleFlit_def Let_def sends_def same_setup_def target_width_def cur_width_def fb_insert_def
      last_time_def tracks_def)

section \<open>Serialising a packet\<close>

lemma send_part_sends:
  assumes W: "flit_of p (r * T) i f" "0 < T" "1 < r" and lt: "i * r + j < divCeil (f_msgSize p) T"
    and b: "target_width b = T"
  shows "\<exists>b' reqs' g. send_part period now nd f parts (int j) (b, reqs) = Inr (b', reqs') \<and> sends period b [g] b'
    \<and> flit_of p T (i * r + j) g \<and> (tracks vc s n b' = tracks vc s n b)"
proof -
  have "T < r * T" using W by simp
  have ser: "serialize nd (int j) parts T f = Inr
     ((flit_new (f_packet_id f) (int (i * r + j)) (f_vc f) (f_vnet f) (f_route f)
         (int (divCeil (f_msgSize f) T)) (f_msg_ptr f) (f_msgSize f) T (f_time f))
       \<lparr>f_enqueue_time := f_enqueue_time f, f_src_delay := f_src_delay f\<rparr>)" (is "_ = Inr ?g")
    using W lt by (intro serialize_part) (auto simp: flit_of_def)
  obtain b' rs where s: "nb_scheduleFlit period now ?g (nb_serDesLatency b) b = (b', rs)" by force
  from scheduleFlit_keeps(1) [OF s] obtain t where "sends period b [?g\<lparr>f_time := t\<rparr>] b'" by blast
  moreover have "flit_of p T (i * r + j) (?g\<lparr>f_time := t\<rparr>)" using W(1) by (simp add: flit_of_def flit_new_def)
  moreover have "send_part period now nd f parts (int j) (b, reqs) = Inr (b', reqs @ rs)"
    by (simp add: send_part_def b ser s del: of_nat_add of_nat_mult)
  ultimately show ?thesis using scheduleFlit_keeps(4) [OF s] by blast
qed

lemma send_parts:
  assumes W: "flit_of p (r * T) i f" "0 < T" "1 < r" and lt: "i * r + n \<le> divCeil (f_msgSize p) T"
    and b: "target_width b = T" "tracks vc s m b"
  shows "\<exists>b' reqs out. loopR (send_part period now nd f parts) (map int [0..<n]) (b, []) = Inr (b', reqs)
    \<and> sends period b out b' \<and> flits_from p T (i * r) out \<and> length out = n \<and> tracks vc s m b'"
proof -
  let ?I = "\<lambda>k (b', reqs :: wake_req list). \<exists>out. sends period b out b' \<and> flits_from p T (i * r) out \<and> length out = k \<and> tracks vc s m b'"
  have "\<exists>t. loopR (send_part period now nd f parts) (map int [0..<n]) (b, []) = Inr t \<and> ?I n t"
  proof (rule loopR_upto)
    show "?I 0 (b, [])" using b sends_refl by (auto simp: flits_from_Nil)
  next
    fix k t assume k: "k < n" and I: "?I k t"
    obtain b' reqs where t: "t = (b', reqs)" by force
    from I t obtain out where o: "sends period b out b'" "flits_from p T (i * r) out" "length out = k" "tracks vc s m b'" by auto
    have tw: "target_width b' = T" using b o(1) by (simp add: sends_def same_setup_def)
    have lt': "i * r + k < divCeil (f_msgSize p) T" using lt k by linarith
    from send_part_sends [OF W lt' tw, of period now nd parts reqs vc s m]
    obtain b'' reqs' g where g: "send_part period now nd f parts (int k) t = Inr (b'', reqs')" "sends period b' [g] b''"
      "flit_of p T (i * r + k) g" "tracks vc s m b'' = tracks vc s m b'" using t by blast
    have "?I (Suc k) (b'', reqs')"
      using sends_trans [OF o(1) g(2)] o g by (auto simp: flits_from_append flits_from_Cons flits_from_Nil intro!: exI [of _ "out @ [g]"])
    with g(1) show "\<exists>t'. send_part period now nd f parts (int k) t = Inr t' \<and> ?I (Suc k) t'" by blast
  qed
  then show ?thesis by (auto split: prod.splits)
qed

lemma div_ceil_nat: "0 < T \<Longrightarrow> div_ceil (int a) T = Inr (int (divCeil a T))"
proof -
  assume T: "0 < T"
  have "(- int a) div int T = - int (divCeil a T)"
  proof (rule int_div_pos_eq)
    show "- int a = int T * - int (divCeil a T) + int (divCeil a T * T - a)"
      using divCeil_mult_ge [OF T, of a] by (simp add: of_nat_diff)
    show "int (divCeil a T * T - a) < int T" using divCeil_mult_less [OF T, of a] by (simp add: less_diff_conv2 divCeil_mult_ge [OF T] del: of_nat_mult)
  qed simp
  then show ?thesis using T by (simp add: div_ceil_def)
qed

lemma divCeil_minus: "0 < T \<Longrightarrow> divCeil (M - k * T) T = divCeil M T - k"
proof -
  assume T: "0 < T"
  have "divCeil (M - k * T) T \<le> j \<longleftrightarrow> divCeil M T - k \<le> j" for j
    using T by (simp add: divCeil_le_iff le_diff_conv add_mult_distrib)
  then show ?thesis by (metis le_antisym le_refl)
qed

text \<open>What flit \<open>i\<close> of a packet of \<open>n\<close> flits leaves in the counters: the last flit resets them.\<close>

definition progress :: "nat \<Rightarrow> nat \<Rightarrow> nat" where
  "progress n i = (if Suc i = n then 0 else Suc i)"

lemma serialize_count_flit:
  assumes f: "flit_of p (r * T) i f" and T: "0 < T" "1 < r" and i: "i < divCeil (f_msgSize p) (r * T)"
    and b: "tracks (f_vc p) (int (i * (r * T))) (int (i * r)) b" "target_width b = T" "cur_width b = r * T"
  shows "\<exists>b' k. serialize_count f b = Inr (int k, b') \<and> sends period b [] b' \<and> 0 < k
    \<and> i * r + k = min (Suc i * r) (divCeil (f_msgSize p) T)
    \<and> tracks (f_vc p) (int (progress (divCeil (f_msgSize p) (r * T)) i * (r * T))) (int (progress (divCeil (f_msgSize p) (r * T)) i * r)) b'"
proof -
  let ?M = "f_msgSize p"
  let ?n = "divCeil ?M (r * T)" and ?N = "divCeil ?M T" and ?vc = "f_vc p"
  have rT: "0 < r * T" using T by simp
  have iM: "i * (r * T) < ?M" using i less_divCeil_iff [OF rT] by blast
  have iN: "i * r < ?N" using iM less_divCeil_iff [OF T(1), of "i * r" ?M] by (simp add: mult.assoc)
  have at: "at (nb_sizeSent b) ?vc = Inr (int (i * (r * T)))" "at (nb_flitsSent b) ?vc = Inr (int (i * r))"
    using b(1) by (auto simp: tracks_def at_def)
  have fp: "f_vc f = ?vc" "f_id f = int i" "f_msgSize f = ?M" "f_type f \<noteq> CREDIT" using f by (auto simp: flit_of_def)
  show ?thesis
  proof (cases "Suc i = ?n")
    case True
    have q: "int ?M - int (i * (r * T)) = int (?M - i * r * T)" using iM by (simp add: mult.assoc of_nat_diff)
    have k: "div_ceil (int ?M - int (i * (r * T))) T = Inr (int (?N - i * r))"
      unfolding q using div_ceil_nat [OF T(1)] divCeil_minus [OF T(1)] by simp
    have le: "?N \<le> Suc i * r" using True divCeil_le_iff [OF rT, of ?M "Suc i"] divCeil_le_iff [OF T(1), of ?M "Suc i * r"]
      by (simp only: mult.assoc order_refl)
    from set_sent_tracks [OF b(1), of 0 0 period] obtain b' where b': "set_sent ?vc 0 0 b = Inr b'" "tracks ?vc 0 0 b'" "sends period b [] b'" by blast
    have ty: "\<not> (f_type f = HEAD \<or> f_type f = BODY)" using flit_of_last(2) [OF f i] True by simp
    have "serialize_count f b = Inr (int (?N - i * r), b')"
      using ty fp at k b' b(2) unfolding serialize_count_def by (simp add: Let_def del: of_nat_mult of_nat_diff)
    with b' iN le True show ?thesis by (intro exI [of _ b'] exI [of _ "?N - i * r"]) (auto simp: progress_def)
  next
    case False
    with i have lt: "Suc i < ?n" by simp
    have le: "Suc i * r \<le> ?N" using lt less_divCeil_iff [OF rT, of "Suc i" ?M] less_divCeil_iff [OF T(1), of "Suc i * r" ?M]
      by (simp only: mult.assoc less_imp_le)
    have q: "(int i + 1) * int (r * T) - int (i * (r * T)) = int (r * T)" by (simp add: algebra_simps)
    have k: "div_floor ((int i + 1) * int (r * T) - int (i * (r * T))) T = Inr (int r)"
      unfolding q div_floor_def using T by simp
    let ?s = "int (i * (r * T)) + int r * int T" and ?m = "int (i * r) + int r"
    from set_sent_tracks [OF b(1), of ?s ?m period] obtain b' where b': "set_sent ?vc ?s ?m b = Inr b'" "tracks ?vc ?s ?m b'" "sends period b [] b'" by blast
    have ty: "f_type f = HEAD \<or> f_type f = BODY" using flit_of_last(2) [OF f i] lt by simp
    have "serialize_count f b = Inr (int r, b')"
      using ty fp at k b' b(2,3) T unfolding serialize_count_def by (simp add: Let_def del: of_nat_mult)
    moreover have "tracks ?vc (int (Suc i * (r * T))) (int (Suc i * r)) b'" using b'(2) by (simp add: algebra_simps)
    moreover have "i * r + r = Suc i * r" by simp
    ultimately show ?thesis using b'(3) le lt T by (intro exI [of _ b'] exI [of _ r]) (auto simp: progress_def simp del: of_nat_mult mult_Suc)
  qed
qed

text \<open>A bridge that narrows the flits of one channel by the factor \<open>r\<close>, and one that widens them back.\<close>

definition narrows :: "nat \<Rightarrow> nat \<Rightarrow> NetworkBridge \<Rightarrow> bool" where
  "narrows r T b \<longleftrightarrow> nb_enSerDes b \<and> target_width b = T \<and> cur_width b = r * T \<and> 0 < T \<and> 1 < r"

definition widens :: "nat \<Rightarrow> nat \<Rightarrow> NetworkBridge \<Rightarrow> bool" where
  "widens r T b \<longleftrightarrow> nb_enSerDes b \<and> cur_width b = T \<and> target_width b = r * T \<and> 0 < T \<and> 1 < r"

lemma sends_narrows: "sends period b out b' \<Longrightarrow> narrows r T b' = narrows r T b"
  by (auto simp: sends_def same_setup_def narrows_def)

lemma sends_widens: "sends period b out b' \<Longrightarrow> widens r T b' = widens r T b"
  by (auto simp: sends_def same_setup_def widens_def)

lemma serialize_flit:
  assumes b: "narrows r T b" and f: "flit_of p (r * T) i f" and i: "i < divCeil (f_msgSize p) (r * T)"
    and tr: "tracks (f_vc p) (int (i * (r * T))) (int (i * r)) b"
  shows "\<exists>b' k reqs out. flitisizeAndSend period now nd f b = Inr (b', [(f_vc p, int k)], reqs) \<and> sends period b out b'
    \<and> flits_from p T (i * r) out \<and> length out = k \<and> i * r + k = min (Suc i * r) (divCeil (f_msgSize p) T)
    \<and> tracks (f_vc p) (int (progress (divCeil (f_msgSize p) (r * T)) i * (r * T))) (int (progress (divCeil (f_msgSize p) (r * T)) i * r)) b'"
proof -
  from b have T: "0 < T" "1 < r" "nb_enSerDes b" "target_width b = T" "cur_width b = r * T" by (auto simp: narrows_def)
  let ?s = "int (progress (divCeil (f_msgSize p) (r * T)) i * (r * T))" and ?m = "int (progress (divCeil (f_msgSize p) (r * T)) i * r)"
  from serialize_count_flit [OF f T(1,2) i tr T(4,5), of period] obtain b1 k where
    c: "serialize_count f b = Inr (int k, b1)" "sends period b [] b1" "0 < k"
       "i * r + k = min (Suc i * r) (divCeil (f_msgSize p) T)" "tracks (f_vc p) ?s ?m b1" by blast
  have tw: "target_width b1 = T" using c(2) T(4) by (simp add: sends_def same_setup_def)
  have le: "i * r + k \<le> divCeil (f_msgSize p) T" using c(4) by simp
  from send_parts [OF f T(1,2) le tw c(5), of period now nd "int k"] obtain b2 reqs out where
    o: "loopR (send_part period now nd f (int k)) (map int [0..<k]) (b1, []) = Inr (b2, reqs)" "sends period b1 out b2"
       "flits_from p T (i * r) out" "length out = k" "tracks (f_vc p) ?s ?m b2" by blast
  have "T < r * T" using T by simp
  then have "flitisizeAndSend period now nd f b = Inr (b2, [(f_vc p, int k)], reqs)"
    using T c(1,3) o(1) f by (simp add: flitisizeAndSend_def nb_serialize_def flit_of_type [OF f]) (simp add: flit_of_def)
  moreover have "sends period b out b2" using sends_trans [OF c(2) o(2)] by simp
  ultimately show ?thesis using o c(4) by blast
qed

lemma zip_nth: "length xs = n \<Longrightarrow> length ys = n \<Longrightarrow> zip xs ys = map (\<lambda>k. (xs ! k, ys ! k)) [0..<n]"
  by (rule nth_equalityI) simp_all

lemma serialize_packet:
  assumes b: "narrows r T b" and fs: "whole_packet p (r * T) fs" and M: "0 < f_msgSize p" and l: "length nows = length fs"
    and tr: "tracks (f_vc p) 0 0 b"
  shows "\<exists>b' told out. bridge_run period nd nows fs b = Inr (b', told) \<and> sends period b out b' \<and> whole_packet p T out
    \<and> tracks (f_vc p) 0 0 b' \<and> map fst told = replicate (length fs) (f_vc p) \<and> sum_list (map snd told) = int (length out)"
proof -
  let ?n = "divCeil (f_msgSize p) (r * T)" and ?N = "divCeil (f_msgSize p) T"
  let ?h = "\<lambda>k. if k = ?n then 0 else k"
  let ?I = "\<lambda>k (b', told). \<exists>out. sends period b out b' \<and> flits_from p T 0 out \<and> length out = min (k * r) ?N
    \<and> tracks (f_vc p) (int (?h k * (r * T))) (int (?h k * r)) b' \<and> map fst told = replicate k (f_vc p) \<and> sum_list (map snd told) = int (length out)"
  have n: "length fs = ?n" "0 < r * T" "0 < T" using fs b by (auto simp: whole_packet_def narrows_def)
  have z: "zip nows fs = map (\<lambda>k. (nows ! k, fs ! k)) [0..<?n]" by (rule zip_nth) (use l n in simp_all)
  have "\<exists>t. loopR (bridge_step period nd) (zip nows fs) (b, []) = Inr t \<and> ?I ?n t"
    unfolding z
  proof (rule loopR_upto [where I = ?I])
    have "0 < ?n" using M less_divCeil_iff [OF n(2), of 0] by simp
    then show "?I 0 (b, [])" using tr sends_refl by (auto simp: flits_from_Nil)
  next
    fix k t assume k: "k < ?n" and I: "?I k t"
    obtain b' told where t: "t = (b', told)" by force
    from I t k obtain out where o: "sends period b out b'" "flits_from p T 0 out" "length out = min (k * r) ?N"
      "tracks (f_vc p) (int (k * (r * T))) (int (k * r)) b'" "map fst told = replicate k (f_vc p)" "sum_list (map snd told) = int (length out)"
      by (auto simp del: of_nat_mult)
    have f: "flit_of p (r * T) k (fs ! k)" using fs k by (simp add: whole_packet_def flits_from_def)
    have len: "length out = k * r" using k o(3) less_divCeil_iff [OF n(2), of k] less_divCeil_iff [OF n(3), of "k * r"] by (simp add: mult.assoc)
    from serialize_flit [OF _ f k o(4), of period "nows ! k" nd] o(1) b obtain b'' j reqs out' where
      s: "flitisizeAndSend period (nows ! k) nd (fs ! k) b' = Inr (b'', [(f_vc p, int j)], reqs)" "sends period b' out' b''"
        "flits_from p T (k * r) out'" "length out' = j" "k * r + j = min (Suc k * r) ?N"
        "tracks (f_vc p) (int (progress ?n k * (r * T))) (int (progress ?n k * r)) b''" by (auto simp: sends_narrows)
    have "?I (Suc k) (b'', told @ [(f_vc p, int j)])"
      using sends_trans [OF o(1) s(2)] o s(3-6) len
      by (auto simp: flits_from_append progress_def replicate_append_same [symmetric] simp del: of_nat_mult intro!: exI [of _ "out @ out'"])
    moreover have "bridge_step period nd (nows ! k, fs ! k) t = Inr (b'', told @ [(f_vc p, int j)])" by (simp add: bridge_step_def t s(1))
    ultimately show "\<exists>t'. bridge_step period nd (nows ! k, fs ! k) t = Inr t' \<and> ?I (Suc k) t'" by blast
  qed
  moreover have "?N \<le> ?n * r" using divCeil_mult_ge [OF n(2), of "f_msgSize p"] by (simp add: divCeil_le_iff n mult.assoc)
  ultimately show ?thesis using n(1) by (force simp: bridge_run_def whole_packet_def min_def)
qed

section \<open>Deserialising a packet\<close>

lemma divCeil_Suc: "0 < r \<Longrightarrow> divCeil (Suc j) r = Suc (j div r)"
  by (simp add: divCeil_def div_add_self2)

lemma divCeil_twice: "0 < T \<Longrightarrow> 0 < r \<Longrightarrow> divCeil M (r * T) = divCeil (divCeil M T) r"
proof -
  assume "0 < T" "0 < r"
  then have "divCeil M (r * T) \<le> j \<longleftrightarrow> divCeil (divCeil M T) r \<le> j" for j
    by (simp add: divCeil_le_iff mult.assoc)
  then show ?thesis by (metis le_antisym le_refl)
qed

text \<open>How many wide flits are complete when \<open>k\<close> of the \<open>N\<close> narrow flits have arrived.\<close>

definition complete :: "nat \<Rightarrow> nat \<Rightarrow> nat \<Rightarrow> nat" where
  "complete N r k = (if k = N then divCeil N r else k div r)"

lemma complete_Suc:
  assumes "0 < r" and "j < N"
  shows "complete N r (Suc j) = (if Suc j = N \<or> r dvd Suc j then Suc (j div r) else j div r)" and "complete N r j = j div r"
  using assms by (auto simp: complete_def divCeil_Suc div_Suc dvd_eq_mod_eq_0)

lemma deserialize_wide:
  assumes f: "flit_of p T j f" and T: "0 < T" "1 < r" and j: "j < divCeil (f_msgSize p) T"
  shows "\<exists>g. deserialize nd d m (r * T) f = Inr g \<and> flit_of p (r * T) (j div r) g"
proof -
  have "j div r < divCeil (divCeil (f_msgSize p) T) r"
    using j T less_mult_imp_div_less [of j "divCeil (divCeil (f_msgSize p) T) r" r] divCeil_mult_ge [of r "divCeil (f_msgSize p) T"] by simp
  then have lt: "int (j div r) < int (divCeil (f_msgSize p) (r * T))" using T by (simp add: divCeil_twice del: of_nat_div)
  have r: "divCeil (r * T) T = r" "divCeil (nat (int j + 1)) r = Suc (j div r)" using T by (simp_all add: nat_add_distrib divCeil_Suc)
  show ?thesis using f T lt
    by (simp add: deserialize_def flit_deserialize_def flit_of_def r Let_def flit_new_def del: of_nat_div)
qed

lemma deserialize_count_flit:
  assumes f: "flit_of p T j f" and T: "0 < T" "1 < r" and j: "j < divCeil (f_msgSize p) T"
    and b: "tracks (f_vc p) (int (j div r * (r * T))) (int (j div r * r)) b" "target_width b = r * T" "cur_width b = T"
  defines "N \<equiv> divCeil (f_msgSize p) T"
  shows "\<exists>b' c. deserialize_count f b = Inr (int c, int (Suc j) - int (j div r * r), b') \<and> sends period b [] b'
    \<and> c = (if Suc j = N \<or> r dvd Suc j then 1 else 0)
    \<and> tracks (f_vc p) (int ((if Suc j = N then 0 else Suc j div r) * (r * T))) (int ((if Suc j = N then 0 else Suc j div r) * r)) b'"
proof -
  let ?M = "f_msgSize p" and ?vc = "f_vc p" and ?q = "j div r"
  have at: "at (nb_sizeSent b) ?vc = Inr (int (?q * (r * T)))" "at (nb_flitsSent b) ?vc = Inr (int (?q * r))"
    using b(1) by (auto simp: tracks_def at_def)
  have fp: "f_vc f = ?vc" "f_id f = int j" "f_msgSize f = ?M" "f_type f \<noteq> CREDIT" using f by (auto simp: flit_of_def)
  have qj: "?q * r \<le> j" "j < Suc ?q * r" using T by (simp_all add: dividend_less_div_times add.commute)
  show ?thesis
  proof (cases "Suc j = N")
    case True
    have jM: "j * T < ?M" "?M \<le> Suc j * T"
      using j less_divCeil_iff [OF T(1), of j ?M] divCeil_le_iff [OF T(1), of ?M "Suc j"] True by (simp_all add: N_def)
    have qM: "?q * (r * T) < ?M" using le_less_trans [OF mult_le_mono1 [OF qj(1), of T] jM(1)] by (simp only: mult.assoc)
    have Mq: "?M \<le> Suc ?q * (r * T)" using le_trans [OF jM(2) mult_le_mono1 [OF Suc_leI [OF qj(2)], of T]] by (simp only: mult.assoc)
    have rT: "0 < r * T" using T by simp
    have "divCeil (?M - ?q * (r * T)) (r * T) = 1"
      using qM Mq less_divCeil_iff [OF rT, of 0 "?M - ?q * (r * T)"] divCeil_le_iff [OF rT, of "?M - ?q * (r * T)" 1]
      by (simp add: le_diff_conv)
    then have k: "div_ceil (int ?M - int (?q * (r * T))) (r * T) = Inr 1"
      using div_ceil_nat [OF rT, of "?M - ?q * (r * T)"] qM by (simp add: of_nat_diff del: of_nat_mult of_nat_div)
    from set_sent_tracks [OF b(1), of 0 0 period] obtain b' where b': "set_sent ?vc 0 0 b = Inr b'" "tracks ?vc 0 0 b'" "sends period b [] b'" by blast
    have ty: "f_type f = TAIL \<or> f_type f = HEAD_TAIL" using flit_of_last(1) [OF f j] True by (simp add: N_def)
    have "deserialize_count f b = Inr (1, int (Suc j) - int (?q * r), b')"
      using ty fp at k b' b(2) unfolding deserialize_count_def by (auto simp: Let_def algebra_simps simp del: of_nat_mult of_nat_div)
    with b' True show ?thesis by (intro exI [of _ b'] exI [of _ 1]) auto
  next
    case False
    have ty: "\<not> (f_type f = TAIL \<or> f_type f = HEAD_TAIL)" using flit_of_last(1) [OF f j] False by (simp add: N_def)
    let ?c = "if r dvd Suc j then 1 else 0 :: int"
    define a where "a = Suc j - ?q * r"
    have a: "Suc j = ?q * r + a" "0 < a" "a \<le> r" using qj by (simp_all only: a_def mult_Suc)
    have dvd: "r dvd Suc j \<longleftrightarrow> a = r" unfolding a(1) using a(2,3) by (auto dest: dvd_imp_le)
    have q: "(int j + 1) * int T - int (?q * (r * T)) = int (a * T)"
      using arg_cong [OF a(1), of int] by (simp add: algebra_simps del: of_nat_div)
    have k: "div_floor ((int j + 1) * int T - int (?q * (r * T))) (r * T) = Inr ?c"
      unfolding q div_floor_def dvd using a T by (auto simp flip: of_nat_div of_nat_mult)
    show ?thesis
    proof (cases "r dvd Suc j")
      case True
      then have qS: "Suc j div r = Suc ?q" by (simp add: div_Suc dvd_eq_mod_eq_0)
      let ?s = "int (?q * (r * T)) + int (r * T)" and ?m = "int j + 1"
      from set_sent_tracks [OF b(1), of ?s ?m period] obtain b' where b': "set_sent ?vc ?s ?m b = Inr b'" "tracks ?vc ?s ?m b'" "sends period b [] b'" by blast
      have "deserialize_count f b = Inr (1, int (Suc j) - int (?q * r), b')"
        using ty fp at k b' b(2,3) True unfolding deserialize_count_def by (auto simp: Let_def algebra_simps simp del: of_nat_mult of_nat_div)
      moreover have "?m = int (Suc ?q * r)" using True qS by (metis dvd_div_mult_self of_nat_Suc add.commute)
      moreover have "?s = int (Suc ?q * (r * T))" by (simp add: algebra_simps)
      ultimately show ?thesis using b'(2,3) True False unfolding qS
        by (intro exI [of _ b'] exI [of _ 1]) (simp del: of_nat_mult of_nat_div mult_Suc)
    next
      case nd: False
      then have qS: "Suc j div r = ?q" by (simp add: div_Suc dvd_eq_mod_eq_0)
      have "deserialize_count f b = Inr (0, int (Suc j) - int (?q * r), b)"
        using ty fp at k b(2,3) nd unfolding deserialize_count_def by (auto simp: Let_def algebra_simps simp del: of_nat_mult of_nat_div)
      then show ?thesis using b(1) sends_refl nd False qS by (intro exI [of _ b] exI [of _ 0]) auto
    qed
  qed
qed

lemma set_lenBuffer_tracks:
  assumes "tracks vc s n b"
  shows "\<exists>b'. set_lenBuffer vc x b = Inr b' \<and> tracks vc s n b' \<and> sends period b [] b'"
  using assms by (auto simp: tracks_def set_lenBuffer_def put_def sends_def same_setup_def target_width_def cur_width_def last_time_def)

lemma deserialize_flit:
  assumes b: "widens r T b" and f: "flit_of p T j f" and j: "j < divCeil (f_msgSize p) T"
    and tr: "tracks (f_vc p) (int (j div r * (r * T))) (int (j div r * r)) b"
  defines "N \<equiv> divCeil (f_msgSize p) T"
  shows "\<exists>b' told reqs out. flitisizeAndSend period now nd f b = Inr (b', told, reqs) \<and> sends period b out b'
    \<and> flits_from p (r * T) (j div r) out \<and> length out = (if Suc j = N \<or> r dvd Suc j then 1 else 0)
    \<and> told = map (\<lambda>_. (f_vc p, int (Suc j) - int (j div r * r))) out
    \<and> tracks (f_vc p) (int ((if Suc j = N then 0 else Suc j div r) * (r * T))) (int ((if Suc j = N then 0 else Suc j div r) * r)) b'"
proof -
  from b have T: "0 < T" "1 < r" "nb_enSerDes b" "target_width b = r * T" "cur_width b = T" by (auto simp: widens_def)
  let ?h = "if Suc j = N then 0 else Suc j div r" and ?d = "int (Suc j) - int (j div r * r)"
  from deserialize_count_flit [OF f T(1,2) j tr T(4,5), of period] obtain b1 c where
    c: "deserialize_count f b = Inr (int c, ?d, b1)" "sends period b [] b1" "c = (if Suc j = N \<or> r dvd Suc j then 1 else 0)"
       "tracks (f_vc p) (int (?h * (r * T))) (int (?h * r)) b1" unfolding N_def by blast
  have w: "r * T \<noteq> T" "T < r * T" using T by simp_all
  show ?thesis
  proof (cases "c = 0")
    case True
    then have "flitisizeAndSend period now nd f b = Inr (b1, [], [])" using T w c(1) by (simp add: flitisizeAndSend_def nb_deserialize_def)
    with c True show ?thesis by (intro exI [of _ b1] exI [of _ "[]"]) (auto simp: flits_from_Nil split: if_splits)
  next
    case False
    then have c1: "c = 1" using c(3) by (simp split: if_splits)
    have len: "at (nb_lenBuffer b1) (f_vc p) = Inr (nb_lenBuffer b1 ! nat (f_vc p))" using c(4) by (simp add: tracks_def at_def)
    from deserialize_wide [OF f T(1,2) j, of nd "nb_lenBuffer b1 ! nat (f_vc p)" ?d] obtain g where
      g: "deserialize nd (nb_lenBuffer b1 ! nat (f_vc p)) ?d (r * T) f = Inr g" "flit_of p (r * T) (j div r) g" by blast
    from set_lenBuffer_tracks [OF c(4), of 0 period] obtain b2 where
      b2: "set_lenBuffer (f_vc p) 0 b1 = Inr b2" "tracks (f_vc p) (int (?h * (r * T))) (int (?h * r)) b2" "sends period b1 [] b2" by blast
    obtain b3 reqs where s: "nb_scheduleFlit period now g (nb_serDesLatency b) b2 = (b3, reqs)" by force
    from scheduleFlit_keeps(1) [OF s] obtain t where t: "sends period b2 [g\<lparr>f_time := t\<rparr>] b3" by blast
    have vc: "f_vc f = f_vc p" using f by (simp add: flit_of_def)
    have "flitisizeAndSend period now nd f b = Inr (b3, [(f_vc p, ?d)], reqs)"
      using T w c(1) c1 len g(1) b2(1) s vc flit_of_type [OF f] by (simp add: flitisizeAndSend_def nb_deserialize_def del: of_nat_mult of_nat_Suc)
    moreover have "sends period b [g\<lparr>f_time := t\<rparr>] b3" using sends_trans [OF sends_trans [OF c(2) b2(3)] t] by simp
    moreover have "tracks (f_vc p) (int (?h * (r * T))) (int (?h * r)) b3" using scheduleFlit_keeps(4) [OF s] b2(2) by blast
    ultimately show ?thesis using g(2) c1 c(3)
      by (intro exI [of _ b3] exI [of _ "[(f_vc p, ?d)]"] exI [of _ reqs] exI [of _ "[g\<lparr>f_time := t\<rparr>]"])
         (simp add: flits_from_Cons flits_from_Nil)
  qed
qed

lemma deserialize_packet:
  assumes b: "widens r T b" and fs: "whole_packet p T fs" and M: "0 < f_msgSize p" and l: "length nows = length fs"
    and tr: "tracks (f_vc p) 0 0 b"
  shows "\<exists>b' told out. bridge_run period nd nows fs b = Inr (b', told) \<and> sends period b out b' \<and> whole_packet p (r * T) out
    \<and> tracks (f_vc p) 0 0 b' \<and> map fst told = replicate (length out) (f_vc p) \<and> sum_list (map snd told) = int (length fs)"
proof -
  let ?N = "divCeil (f_msgSize p) T" and ?h = "\<lambda>k. if k = divCeil (f_msgSize p) T then 0 else k div r"
  let ?I = "\<lambda>k (b', told). \<exists>out. sends period b out b' \<and> flits_from p (r * T) 0 out \<and> length out = complete ?N r k
    \<and> tracks (f_vc p) (int (?h k * (r * T))) (int (?h k * r)) b' \<and> map fst told = replicate (length out) (f_vc p)
    \<and> sum_list (map snd told) = (if k = ?N then int ?N else int (k div r * r))"
  have n: "length fs = ?N" "0 < T" "0 < r" using fs b by (auto simp: whole_packet_def widens_def)
  have z: "zip nows fs = map (\<lambda>k. (nows ! k, fs ! k)) [0..<?N]" by (rule zip_nth) (use l n in simp_all)
  have "\<exists>t. loopR (bridge_step period nd) (zip nows fs) (b, []) = Inr t \<and> ?I ?N t"
    unfolding z
  proof (rule loopR_upto [where I = ?I])
    have "0 < ?N" using M less_divCeil_iff [OF n(2), of 0] by simp
    then show "?I 0 (b, [])" using tr sends_refl by (auto simp: flits_from_Nil complete_def)
  next
    fix k t assume k: "k < ?N" and I: "?I k t"
    obtain b' told where t: "t = (b', told)" by force
    from I t k obtain out where o: "sends period b out b'" "flits_from p (r * T) 0 out" "length out = k div r"
      "tracks (f_vc p) (int (k div r * (r * T))) (int (k div r * r)) b'" "map fst told = replicate (length out) (f_vc p)"
      "sum_list (map snd told) = int (k div r * r)"
      by (auto simp: complete_def simp del: of_nat_mult of_nat_div)
    have f: "flit_of p T k (fs ! k)" using fs k by (simp add: whole_packet_def flits_from_def)
    have wb: "widens r T b'" using b o(1) by (simp add: sends_widens)
    from deserialize_flit [OF wb f k o(4), of period "nows ! k" nd] obtain b'' told' reqs out' where
      s: "flitisizeAndSend period (nows ! k) nd (fs ! k) b' = Inr (b'', told', reqs)" "sends period b' out' b''"
        "flits_from p (r * T) (k div r) out'" "length out' = (if Suc k = ?N \<or> r dvd Suc k then 1 else 0)"
        "told' = map (\<lambda>_. (f_vc p, int (Suc k) - int (k div r * r))) out'"
        "tracks (f_vc p) (int (?h (Suc k) * (r * T))) (int (?h (Suc k) * r)) b''" by blast
    have "map fst (told @ told') = replicate (length (out @ out')) (f_vc p)"
      using o(5) s(5) by (simp add: replicate_add map_replicate_const comp_def)
    moreover have "sum_list (map snd (told @ told')) = (if Suc k = ?N then int ?N else int (Suc k div r * r))"
    proof (cases "Suc k = ?N \<or> r dvd Suc k")
      case True
      then have "length out' = 1" using s(4) by simp
      then obtain g where "out' = [g]" by (cases out') auto
      then show ?thesis using True o(6) s(5) by (auto simp del: of_nat_mult of_nat_div of_nat_Suc)
    next
      case False
      then have "out' = []" "Suc k div r = k div r" using s(4) by (simp_all add: div_Suc dvd_eq_mod_eq_0)
      then show ?thesis using False o(6) s(5) by (simp del: of_nat_mult of_nat_div)
    qed
    moreover have "length (out @ out') = complete ?N r (Suc k)" using o(3) s(4) complete_Suc(1) [OF n(3) k] by simp
    moreover have "flits_from p (r * T) 0 (out @ out')" using o(2,3) s(3) by (simp add: flits_from_append)
    ultimately have "?I (Suc k) (b'', told @ told')" using sends_trans [OF o(1) s(2)] s(6) by blast
    moreover have "bridge_step period nd (nows ! k, fs ! k) t = Inr (b'', told @ told')" by (simp add: bridge_step_def t s(1))
    ultimately show "\<exists>t'. bridge_step period nd (nows ! k, fs ! k) t = Inr t' \<and> ?I (Suc k) t'" by blast
  qed
  then show ?thesis using n divCeil_twice [OF n(2,3), of "f_msgSize p"]
    by (force simp: bridge_run_def whole_packet_def complete_def)
qed

section \<open>Credits through the companion bridges\<close>

definition credit_of :: "int \<Rightarrow> bool \<Rightarrow> flit \<Rightarrow> bool" where
  "credit_of vc free c \<longleftrightarrow> f_type c = CREDIT \<and> f_vc c = vc \<and> f_is_free_signal c = free"

abbreviation credits_of :: "int \<Rightarrow> bool list \<Rightarrow> flit list \<Rightarrow> bool" where
  "credits_of vc \<equiv> list_all2 (credit_of vc)"

text \<open>The narrow credits that stand for a wide one: only the last carries its free signal.\<close>

definition parts_of :: "nat \<Rightarrow> bool \<Rightarrow> bool list" where
  "parts_of n free = replicate (n - 1) False @ [free]"

definition owes :: "int \<Rightarrow> int \<Rightarrow> int list \<Rightarrow> NetworkBridge \<Rightarrow> bool" where
  "owes vc k q b \<longleftrightarrow> 0 \<le> vc \<and> vc < int (length (nb_extraCredit b)) \<and> vc < int (length (nb_lenBuffer b))
     \<and> nb_lenBuffer b ! nat vc = k \<and> nb_extraCredit b ! nat vc = q"

lemma credit_of_time [simp]: "credit_of vc free (c\<lparr>f_time := t\<rparr>) = credit_of vc free c"
  by (simp add: credit_of_def)

lemma scheduleFlit_owes: "nb_scheduleFlit period now f latency b = (b', reqs) \<Longrightarrow> owes vc k q b' = owes vc k q b"
  by (auto simp: nb_scheduleFlit_def Let_def owes_def)

lemma pop_credit_owes:
  assumes "owes vc k (c # q) b"
  shows "\<exists>b'. pop_credit vc q b = Inr b' \<and> owes vc k q b' \<and> sends period b [] b'"
  using assms by (auto simp: owes_def pop_credit_def put_def sends_def same_setup_def target_width_def cur_width_def last_time_def)

lemma set_lenBuffer_owes:
  assumes "owes vc k q b"
  shows "\<exists>b'. set_lenBuffer vc k' b = Inr b' \<and> owes vc k' q b' \<and> sends period b [] b'"
  using assms by (auto simp: owes_def set_lenBuffer_def put_def sends_def same_setup_def target_width_def cur_width_def last_time_def)

lemma front_credit_owes: "owes vc k (int c # q) b \<Longrightarrow> 0 < c \<Longrightarrow> front_credit vc b = Inr (int c, q)"
  by (auto simp: owes_def front_credit_def at_def)

text \<open>One wide credit becomes the number of narrow ones at the front of the queue.\<close>

lemma serialize_credit_parts:
  assumes c: "credit_of vc free c" and b: "owes vc k q b"
  shows "\<exists>b' reqs out. loopR (send_part period now nd c (int m)) (map int [0..<m]) (b, []) = Inr (b', reqs) \<and> sends period b out b'
    \<and> owes vc k q b' \<and> credits_of vc (map (\<lambda>i. Suc i = m \<and> free) [0..<m]) out"
proof -
  let ?I = "\<lambda>i (b', reqs :: wake_req list). \<exists>out. sends period b out b' \<and> owes vc k q b' \<and> credits_of vc (map (\<lambda>i. Suc i = m \<and> free) [0..<i]) out"
  have "\<exists>t. loopR (send_part period now nd c (int m)) (map int [0..<m]) (b, []) = Inr t \<and> ?I m t"
  proof (rule loopR_upto [where I = ?I])
    show "?I 0 (b, [])" using b sends_refl by auto
  next
    fix i t assume "i < m" and I: "?I i t"
    obtain b' reqs where t: "t = (b', reqs)" by force
    from I t obtain out where o: "sends period b out b'" "owes vc k q b'" "credits_of vc (map (\<lambda>i. Suc i = m \<and> free) [0..<i]) out" by auto
    let ?g = "Credit_serialize nd (int i) (int m) (target_width b') c"
    obtain b'' rs where s: "nb_scheduleFlit period now ?g (nb_serDesLatency b') b' = (b'', rs)" by force
    from scheduleFlit_keeps(1) [OF s] obtain tt where g: "sends period b' [?g\<lparr>f_time := tt\<rparr>] b''" by blast
    have "credit_of vc (Suc i = m \<and> free) ?g"
      using c of_nat_eq_iff [of "Suc i" m, where 'a = int] by (auto simp: credit_of_def Credit_serialize_def Credit_new_def flit_new_def Let_def)
    then have "credits_of vc (map (\<lambda>i. Suc i = m \<and> free) [0..<Suc i]) (out @ [?g\<lparr>f_time := tt\<rparr>])"
      using o(3) by (simp add: list_all2_appendI)
    then have "?I (Suc i) (b'', reqs @ rs)" using sends_trans [OF o(1) g] scheduleFlit_owes [OF s] o(2) by blast
    moreover have "send_part period now nd c (int m) (int i) t = Inr (b'', reqs @ rs)"
      using c s by (simp add: send_part_def t serialize_def credit_of_def)
    ultimately show "\<exists>t'. send_part period now nd c (int m) (int i) t = Inr t' \<and> ?I (Suc i) t'" by blast
  qed
  then show ?thesis by (auto split: prod.splits)
qed

lemma parts_of_map: "0 < m \<Longrightarrow> map (\<lambda>i. Suc i = m \<and> free) [0..<m] = parts_of m free"
  by (cases m) (auto simp: parts_of_def intro!: nth_equalityI)

lemma serialize_credit:
  assumes c: "credit_of vc free c" and b: "owes vc k (int m # q) b" "0 < m" "nb_enSerDes b" "target_width b < cur_width b"
  shows "\<exists>b' reqs out. flitisizeAndSend period now nd c b = Inr (b', [], reqs) \<and> sends period b out b'
    \<and> owes vc k q b' \<and> credits_of vc (parts_of m free) out"
proof -
  from pop_credit_owes [OF b(1), of period] obtain b1 where b1: "pop_credit vc q b = Inr b1" "owes vc k q b1" "sends period b [] b1" by blast
  from serialize_credit_parts [OF c b1(2), of period now nd m] obtain b2 reqs out where
    o: "loopR (send_part period now nd c (int m)) (map int [0..<m]) (b1, []) = Inr (b2, reqs)" "sends period b1 out b2" "owes vc k q b2"
       "credits_of vc (parts_of m free) out" using parts_of_map [OF b(2)] by auto
  have "flitisizeAndSend period now nd c b = Inr (b2, [], reqs)"
    using c b b1(1) o(1) by (simp add: flitisizeAndSend_def nb_serialize_def serialize_count_def Let_def credit_of_def front_credit_owes)
  moreover have "sends period b out b2" using sends_trans [OF b1(3) o(2)] by simp
  ultimately show ?thesis using o by blast
qed

text \<open>A narrow credit is counted; the one that completes the number at the front of the queue is sent on.\<close>

lemma deserialize_credit:
  assumes c: "credit_of vc free c" and b: "owes vc (int k) (int m # q) b" "k < m" "nb_enSerDes b" "cur_width b < target_width b"
  shows "\<exists>b' reqs out. flitisizeAndSend period now nd c b = Inr (b', [], reqs) \<and> sends period b out b'
    \<and> (if Suc k = m then owes vc 0 q b' \<and> credits_of vc [free] out else owes vc (int (Suc k)) (int m # q) b' \<and> out = [])"
proof -
  have at: "at (nb_lenBuffer b) vc = Inr (int k)" using b(1) by (simp add: owes_def at_def)
  from set_lenBuffer_owes [OF b(1), of "int k + 1" period] obtain b1 where
    b1: "set_lenBuffer vc (int k + 1) b = Inr b1" "owes vc (int k + 1) (int m # q) b1" "sends period b [] b1" by blast
  have fr: "front_credit vc b1 = Inr (int m, q)" using front_credit_owes [OF b1(2)] b(2) by simp
  have eq: "int k + 1 = int m \<longleftrightarrow> Suc k = m" by linarith
  show ?thesis
  proof (cases "Suc k = m")
    case True
    from pop_credit_owes [OF b1(2), of period] obtain b2 where
      b2: "pop_credit vc q b1 = Inr b2" "owes vc (int k + 1) q b2" "sends period b1 [] b2" by blast
    from set_lenBuffer_owes [OF b2(2), of 0 period] obtain b3 where
      b3: "set_lenBuffer vc 0 b2 = Inr b3" "owes vc 0 q b3" "sends period b2 [] b3" by blast
    have cnt: "deserialize_count c b = Inr (1, 0, b3)"
      using c at b1(1) fr b2(1) b3(1) True eq by (simp add: deserialize_count_def Let_def credit_of_def)
    have at3: "at (nb_lenBuffer b3) vc = Inr 0" using b3(2) by (simp add: owes_def at_def)
    from set_lenBuffer_owes [OF b3(2), of 0 period] obtain b4 where
      b4: "set_lenBuffer vc 0 b3 = Inr b4" "owes vc 0 q b4" "sends period b3 [] b4" by blast
    let ?g = "Credit_deserialize nd 0 0 (target_width b) c"
    obtain b5 reqs where s: "nb_scheduleFlit period now ?g (nb_serDesLatency b) b4 = (b5, reqs)" by force
    from scheduleFlit_keeps(1) [OF s] obtain t where t: "sends period b4 [?g\<lparr>f_time := t\<rparr>] b5" by blast
    have g: "credit_of vc free ?g" using c by (auto simp: credit_of_def Credit_deserialize_def Credit_new_def flit_new_def)
    have "flitisizeAndSend period now nd c b = Inr (b5, [], reqs)"
      using c b cnt at3 b4(1) s by (simp add: flitisizeAndSend_def nb_deserialize_def deserialize_def credit_of_def)
    moreover have "sends period b [?g\<lparr>f_time := t\<rparr>] b5"
      using sends_trans [OF sends_trans [OF sends_trans [OF sends_trans [OF b1(3) b2(3)] b3(3)] b4(3)] t] by simp
    moreover have "owes vc 0 q b5" using scheduleFlit_owes [OF s] b4(2) by blast
    ultimately show ?thesis using True g by (intro exI [of _ b5] exI [of _ reqs] exI [of _ "[?g\<lparr>f_time := t\<rparr>]"]) simp
  next
    case False
    have "flitisizeAndSend period now nd c b = Inr (b1, [], [])"
      using c b at b1(1) fr False eq
      by (simp add: flitisizeAndSend_def nb_deserialize_def deserialize_count_def Let_def credit_of_def)
    then show ?thesis using False b1(2,3) by (auto simp: add.commute)
  qed
qed

lemma sends_setup: "sends period b out b' \<Longrightarrow> nb_enSerDes b' = nb_enSerDes b \<and> target_width b' = target_width b \<and> cur_width b' = cur_width b"
  by (simp add: sends_def same_setup_def)

lemma narrow_credits:
  assumes "list_all ((<) 0) ps" and "length free = length ps" and "credits_of vc free (map snd zs)"
    and "owes vc k (map int ps) b" and "nb_enSerDes b" and "target_width b < cur_width b"
  shows "\<exists>b' out. loopR (bridge_step period nd) zs (b, told) = Inr (b', told) \<and> sends period b out b'
    \<and> owes vc k [] b' \<and> credits_of vc (concat (map2 parts_of ps free)) out"
  using assms
proof (induction ps arbitrary: free zs b)
  case Nil
  then show ?case using sends_refl by auto
next
  case (Cons m ps)
  from Cons.prems(2) obtain fr free' where free: "free = fr # free'" by (cases free) auto
  with Cons.prems(3) obtain now c zs' where zs: "zs = (now, c) # zs'" by (cases zs) auto
  with Cons.prems(3) free have c: "credit_of vc fr c" "credits_of vc free' (map snd zs')" by auto
  from serialize_credit [OF c(1), of k m "map int ps" b period now nd] Cons.prems obtain b1 reqs out where
    b1: "flitisizeAndSend period now nd c b = Inr (b1, [], reqs)" "sends period b out b1" "owes vc k (map int ps) b1"
      "credits_of vc (parts_of m fr) out" by auto
  from Cons.IH [OF _ _ c(2) b1(3)] Cons.prems free sends_setup [OF b1(2)] obtain b2 out' where
    b2: "loopR (bridge_step period nd) zs' (b1, told) = Inr (b2, told)" "sends period b1 out' b2" "owes vc k [] b2"
      "credits_of vc (concat (map2 parts_of ps free')) out'" by auto
  have "loopR (bridge_step period nd) zs (b, told) = Inr (b2, told)" by (simp add: zs bridge_step_def b1(1)) (simp add: bridge_step_def [symmetric] b2(1))
  moreover have "credits_of vc (concat (map2 parts_of (m # ps) free)) (out @ out')" using b1(4) b2(4) by (simp add: free list_all2_appendI)
  ultimately show ?case using sends_trans [OF b1(2) b2(2)] b2(3) by blast
qed

lemma widen_group:
  assumes "length free = m - k" and "k < m" and "credits_of vc free (map snd zs)"
    and "owes vc (int k) (int m # q) b" and "nb_enSerDes b" and "cur_width b < target_width b"
  shows "\<exists>b' out. loopR (bridge_step period nd) zs (b, told) = Inr (b', told) \<and> sends period b out b'
    \<and> owes vc 0 q b' \<and> credits_of vc [last free] out"
  using assms
proof (induction free arbitrary: k zs b)
  case Nil
  then show ?case by simp
next
  case (Cons fr free)
  from Cons.prems(3) obtain now c zs' where zs: "zs = (now, c) # zs'" by (cases zs) auto
  with Cons.prems(3) have c: "credit_of vc fr c" "credits_of vc free (map snd zs')" by auto
  from deserialize_credit [OF c(1) Cons.prems(4,2,5,6), of period now nd] obtain b1 reqs out where
    b1: "flitisizeAndSend period now nd c b = Inr (b1, [], reqs)" "sends period b out b1"
      "if Suc k = m then owes vc 0 q b1 \<and> credits_of vc [fr] out else owes vc (int (Suc k)) (int m # q) b1 \<and> out = []" by blast
  have step: "loopR (bridge_step period nd) zs (b, told) = loopR (bridge_step period nd) zs' (b1, told)"
    by (simp add: zs bridge_step_def b1(1))
  show ?case
  proof (cases "Suc k = m")
    case True
    then have "free = []" using Cons.prems(1) by (simp add: True [symmetric])
    then show ?thesis using True b1(2,3) c(2) step by auto
  next
    case False
    then have k: "Suc k < m" "length free = m - Suc k" "free \<noteq> []" using Cons.prems(1,2) by auto
    have "owes vc (int (Suc k)) (int m # q) b1" "out = []" using b1(3) False by auto
    from Cons.IH [OF k(2,1) c(2) this(1)] Cons.prems(5,6) sends_setup [OF b1(2)] obtain b2 out' where
      "loopR (bridge_step period nd) zs' (b1, told) = Inr (b2, told)" "sends period b1 out' b2" "owes vc 0 q b2" "credits_of vc [last free] out'" by auto
    then show ?thesis using step sends_trans [OF b1(2)] k(3) \<open>out = []\<close> by fastforce
  qed
qed

lemma widen_credits:
  assumes "list_all ((<) 0) ps" and "length free = length ps" and "credits_of vc (concat (map2 parts_of ps free)) (map snd zs)"
    and "owes vc 0 (map int ps) b" and "nb_enSerDes b" and "cur_width b < target_width b"
  shows "\<exists>b' out. loopR (bridge_step period nd) zs (b, told) = Inr (b', told) \<and> sends period b out b'
    \<and> owes vc 0 [] b' \<and> credits_of vc free out"
  using assms
proof (induction ps arbitrary: free zs b)
  case Nil
  then show ?case using sends_refl by auto
next
  case (Cons m ps)
  from Cons.prems(2) obtain fr free' where free: "free = fr # free'" by (cases free) auto
  let ?g = "parts_of m fr"
  have l: "length ?g = m" "0 < m" "last ?g = fr" using Cons.prems(1) by (simp_all add: parts_of_def)
  have len: "m \<le> length zs" using list_all2_lengthD [OF Cons.prems(3)] l(1) by (simp add: free)
  have z: "credits_of vc ?g (map snd (take m zs))" "credits_of vc (concat (map2 parts_of ps free')) (map snd (drop m zs))"
    using list_all2_takeI [OF Cons.prems(3), of m] list_all2_dropI [OF Cons.prems(3), of m] l(1) by (simp_all add: free take_map drop_map)
  have "owes vc (int 0) (int m # map int ps) b" using Cons.prems(4) by simp
  from widen_group [OF _ l(2) z(1) this Cons.prems(5,6), of period nd told] l obtain b1 out where
    b1: "loopR (bridge_step period nd) (take m zs) (b, told) = Inr (b1, told)" "sends period b out b1" "owes vc 0 (map int ps) b1"
      "credits_of vc [fr] out" by auto
  from Cons.IH [OF _ _ z(2) b1(3)] Cons.prems(1,2,5,6) free sends_setup [OF b1(2)] obtain b2 out' where
    b2: "loopR (bridge_step period nd) (drop m zs) (b1, told) = Inr (b2, told)" "sends period b1 out' b2" "owes vc 0 [] b2"
      "credits_of vc free' out'" by auto
  have "loopR (bridge_step period nd) (take m zs @ drop m zs) (b, told) = Inr (b2, told)"
    unfolding loopR_append by (simp add: b1(1) b2(1) del: append_take_drop_id)
  moreover have "credits_of vc free (out @ out')" using list_all2_appendI [OF b1(4) b2(4)] by (simp add: free)
  ultimately show ?case using sends_trans [OF b1(2) b2(2)] b2(3) by auto
qed

section \<open>Properties of the bridge\<close>

lemma counters_keep_width:
  "set_sent vc x y b = Inr b' \<Longrightarrow> target_width b' = target_width b"
  "pop_credit vc q b = Inr b' \<Longrightarrow> target_width b' = target_width b"
  by (auto simp: set_sent_def pop_credit_def target_width_def bindR_Inr_iff)

lemma serialize_count_setup:
  assumes "serialize_count f b = Inr (k, b')"
  shows "target_width b' = target_width b"
proof (cases "f_type f = CREDIT")
  case True
  with assms show ?thesis by (auto simp: serialize_count_def Let_def bindR_Inr_iff intro: counters_keep_width)
next
  case False
  with assms show ?thesis
    by (cases "f_type f = HEAD \<or> f_type f = BODY")
       (auto simp: serialize_count_def Let_def bindR_Inr_iff intro: counters_keep_width split: if_split_asm)
qed

definition sample_bridge :: "nat \<Rightarrow> nat \<Rightarrow> NetworkBridge res" where
  "sample_bridge width nLink_width =
     bindR (NetworkBridge_new (NetworkLink_new 0 1 3 [] width) nLink_width LINK_OBJECT 1 1) (\<lambda>b.
       Inr (snd (nb_setVcsPerVnet 4 (NetworkLink_new 1 1 3 [] nLink_width) (initBridge True True b))))"

lemma sample_bridge_facts:
  assumes "sample_bridge w n = Inr b"
  shows "nb_enSerDes b" and "target_width b = w" and "cur_width b = n" and "nb_out b = []" and "tracks 2 0 0 b"
    and "nb_lenBuffer b = replicate 12 0" and "nb_extraCredit b = replicate 12 []"
  using assms by (auto simp: sample_bridge_def NetworkBridge_new_def NetworkLink_new_def nb_setVcsPerVnet_def nl_setVcsPerVnet_def
      initBridge_def target_width_def cur_width_def tracks_def resize_def Let_def flitBuffer_new_def)

lemma width_extraCredit [simp]:
  "target_width (b\<lparr>nb_extraCredit := q\<rparr>) = target_width b" "cur_width (b\<lparr>nb_extraCredit := q\<rparr>) = cur_width b"
  by (simp_all add: target_width_def cur_width_def)

lemma sample_bridge_ok: "\<exists>b. sample_bridge w n = Inr b"
  by (simp add: sample_bridge_def NetworkBridge_new_def)

definition sample_packet :: "nat \<Rightarrow> nat \<Rightarrow> flit list" where
  "sample_packet M W = map (\<lambda>i. flit_new 0 (int i) 2 0 (RouteInfo_default []) (int (divCeil M W)) None M W 0) [0..<divCeil M W]"

text \<open>Claim C21. A packet crosses a pair of bridges unchanged when the narrow width divides the wide one. Fed with the
  flits of a packet in order, the serialising bridge returns without a failed assertion and sends exactly the flits of
  the same packet cut to the narrow width, in order and at least a clock period of the consumer apart; the deserialising
  bridge turns these back into the flits of the packet at the wide width, again in order and spaced. Both tell their
  companion one number per wide flit, adding up to the number of narrow flits, and both counters are reset for the next packet.\<close>

theorem bridge_packet_roundtrip:
  assumes "narrows r T b" and "widens r T c" and "whole_packet p (r * T) fs" and "0 < f_msgSize p"
    and "length nows = length fs" and "length nows' = divCeil (f_msgSize p) T"
    and "tracks (f_vc p) 0 0 b" and "tracks (f_vc p) 0 0 c"
  shows "\<exists>b' told narrow c' told' wide.
    bridge_run period nd nows fs b = Inr (b', told) \<and> nb_out b' = nb_out b @ narrow \<and> whole_packet p T narrow
    \<and> spaced period (nb_lastScheduledAt b) narrow \<and> tracks (f_vc p) 0 0 b'
    \<and> length told = length fs \<and> sum_list (map snd told) = int (length narrow)
    \<and> bridge_run period' nd nows' narrow c = Inr (c', told') \<and> nb_out c' = nb_out c @ wide \<and> whole_packet p (r * T) wide
    \<and> spaced period' (nb_lastScheduledAt c) wide \<and> tracks (f_vc p) 0 0 c'
    \<and> length told' = length wide \<and> sum_list (map snd told') = int (length narrow)"
proof -
  from serialize_packet [OF assms(1,3,4,5,7), of period nd] obtain b' told narrow where
    b: "bridge_run period nd nows fs b = Inr (b', told)" "sends period b narrow b'" "whole_packet p T narrow" "tracks (f_vc p) 0 0 b'"
      "map fst told = replicate (length fs) (f_vc p)" "sum_list (map snd told) = int (length narrow)" by blast
  have l: "length nows' = length narrow" using assms(6) b(3) by (simp add: whole_packet_def)
  from deserialize_packet [OF assms(2) b(3) assms(4) l assms(8), of period' nd] obtain c' told' wide where
    c: "bridge_run period' nd nows' narrow c = Inr (c', told')" "sends period' c wide c'" "whole_packet p (r * T) wide" "tracks (f_vc p) 0 0 c'"
      "map fst told' = replicate (length wide) (f_vc p)" "sum_list (map snd told') = int (length narrow)" by blast
  have "length told = length fs" "length told' = length wide" using arg_cong [OF b(5), of length] arg_cong [OF c(5), of length] by simp_all
  with b c show ?thesis by (auto simp: sends_def)
qed

theorem bridge_packet_roundtrip_witness:
  "\<exists>b c b' told narrow c' told' wide. sample_bridge 64 128 = Inr b \<and> sample_bridge 128 64 = Inr c
    \<and> bridge_run 500 [] [0, 500, 1000] (sample_packet 300 128) b = Inr (b', told) \<and> length narrow = 5
    \<and> bridge_run 250 [] [9, 10, 11, 12, 13] narrow c = Inr (c', told') \<and> length wide = 3 \<and> nb_out c' = wide"
proof -
  let ?p = "hd (sample_packet 300 128)"
  obtain b c where bc: "sample_bridge 64 128 = Inr b" "sample_bridge 128 64 = Inr c" using sample_bridge_ok by blast
  note bf = sample_bridge_facts [OF bc(1)] and cf = sample_bridge_facts [OF bc(2)]
  have pk: "sample_packet 300 128 = map (\<lambda>i. flit_new 0 (int i) 2 0 (RouteInfo_default []) 3 None 300 128 0) [0, 1, 2]"
    by (simp add: sample_packet_def divCeil_def upt_rec)
  have "narrows 2 64 b" "widens 2 64 c" by (simp_all add: narrows_def widens_def bf cf)
  moreover have "whole_packet ?p (2 * 64) (sample_packet 300 128)" "f_msgSize ?p = 300" "f_vc ?p = 2"
    unfolding pk by (auto simp: whole_packet_def flits_from_def flit_of_def flit_new_def divCeil_def less_Suc_eq numeral_3_eq_3)
  moreover note bf(5) cf(4,5)
  ultimately show ?thesis
    using bridge_packet_roundtrip [of 2 64 b c ?p "sample_packet 300 128" "[0, 500, 1000]" "[9, 10, 11, 12, 13]" 500 "[]" 250]
    by (fastforce simp: whole_packet_def divCeil_def pk bc)
qed

text \<open>Claim C22. Flow control survives the change of width. When the two bridges of the credit direction hold the same
  queue of positive numbers (one per wide flit, as their data bridges told them), the credits for these wide flits pass
  through the pair without an error: the narrowing bridge sends for each as many credits as the queue says, with the free
  signal only on the last, and the widening bridge sends back exactly the original credits, free signals included. Nothing
  is owed afterwards.\<close>

theorem bridge_credits_roundtrip:
  assumes "list_all ((<) 0) ps" and "length free = length ps" and "credits_of vc free cs" and "length nows = length cs"
    and "owes vc k (map int ps) b" and "nb_enSerDes b" and "target_width b < cur_width b"
    and "owes vc 0 (map int ps) c" and "nb_enSerDes c" and "cur_width c < target_width c" and "length nows' = sum_list ps"
  shows "\<exists>b' narrow c' wide. bridge_run period nd nows cs b = Inr (b', []) \<and> nb_out b' = nb_out b @ narrow
    \<and> credits_of vc (concat (map2 parts_of ps free)) narrow \<and> length narrow = sum_list ps \<and> owes vc k [] b'
    \<and> bridge_run period' nd nows' narrow c = Inr (c', []) \<and> nb_out c' = nb_out c @ wide \<and> credits_of vc free wide \<and> owes vc 0 [] c'"
proof -
  have z: "map snd (zip nows cs) = cs" using assms(4) by simp
  from narrow_credits [OF assms(1,2) _ assms(5-7), of "zip nows cs" period nd "[]"] assms(3) obtain b' narrow where
    b: "loopR (bridge_step period nd) (zip nows cs) (b, []) = Inr (b', [])" "sends period b narrow b'" "owes vc k [] b'"
      "credits_of vc (concat (map2 parts_of ps free)) narrow" unfolding z by auto
  have "length (concat (map2 parts_of ps free)) = sum_list ps"
    using assms(2,1) by (induction free ps rule: list_induct2) (auto simp: parts_of_def)
  then have l: "length narrow = sum_list ps" using list_all2_lengthD [OF b(4)] by simp
  have z': "map snd (zip nows' narrow) = narrow" using assms(11) l by simp
  from widen_credits [OF assms(1,2) _ assms(8-10), of "zip nows' narrow" period' nd "[]"] b(4) obtain c' wide where
    c: "loopR (bridge_step period' nd) (zip nows' narrow) (c, []) = Inr (c', [])" "sends period' c wide c'" "owes vc 0 [] c'"
      "credits_of vc free wide" unfolding z' by auto
  show ?thesis using b c l by (auto simp: bridge_run_def sends_def)
qed

theorem bridge_credits_roundtrip_witness:
  "\<exists>b c b' narrow c' wide. sample_bridge 64 128 = Inr b \<and> sample_bridge 128 64 = Inr c
    \<and> owes 2 0 [2, 1] (b\<lparr>nb_extraCredit := (nb_extraCredit b)[2 := [2, 1]]\<rparr>)
    \<and> bridge_run 500 [] [0, 500] [Credit_new [] 2 False 0, Credit_new [] 2 True 0] (b\<lparr>nb_extraCredit := (nb_extraCredit b)[2 := [2, 1]]\<rparr>) = Inr (b', [])
    \<and> credits_of 2 [False, False, True] narrow
    \<and> bridge_run 500 [] [7, 8, 9] narrow (c\<lparr>nb_extraCredit := (nb_extraCredit c)[2 := [2, 1]]\<rparr>) = Inr (c', [])
    \<and> nb_out c' = wide \<and> credits_of 2 [False, True] wide"
proof -
  obtain b c where bc: "sample_bridge 64 128 = Inr b" "sample_bridge 128 64 = Inr c" using sample_bridge_ok by blast
  note bf = sample_bridge_facts [OF bc(1)] and cf = sample_bridge_facts [OF bc(2)]
  let ?b = "b\<lparr>nb_extraCredit := (nb_extraCredit b)[2 := [2, 1]]\<rparr>" and ?c = "c\<lparr>nb_extraCredit := (nb_extraCredit c)[2 := [2, 1]]\<rparr>"
  have o: "owes 2 0 (map int [2, 1]) ?b" "owes 2 0 (map int [2, 1]) ?c" "nb_enSerDes ?b" "nb_enSerDes ?c"
    "target_width ?b < cur_width ?b" "cur_width ?c < target_width ?c" "nb_out ?c = []"
    using bf cf by (simp_all add: owes_def)
  have cr: "credits_of 2 [False, True] [Credit_new [] 2 False 0, Credit_new [] 2 True 0]"
    by (simp add: credit_of_def Credit_new_def flit_new_def)
  have pt: "concat (map2 parts_of [2, 1] [False, True]) = [False, False, True]" by (simp add: parts_of_def)
  show ?thesis
    using bridge_credits_roundtrip [of "[2, 1]" "[False, True]" 2 "[Credit_new [] 2 False 0, Credit_new [] 2 True 0]" "[0, 500]" 0 ?b ?c "[7, 8, 9]" 500 "[]" 500]
      o cr unfolding pt by (fastforce simp: bc)
qed

text \<open>Claim C40. The width conversion needs an integral ratio. The part numbers of a flit are computed with the ratio of the
  widths rounded up, so in a packet whose message is no longer than \<open>i\<close> rounded-up flits, flit \<open>i\<close> gets a number beyond the
  end of the packet, and the bridge stops with an error in whatever state it is; this includes the last flit of a 384-bit
  message that goes from a link of 128 bits to one of 96.\<close>

theorem bridge_ratio_error:
  assumes "nb_enSerDes b" and "target_width b = T" and "cur_width b = W" and "0 < T" and "T < W"
    and "flit_of p W i f" and "f_msgSize p \<le> i * (divCeil W T * T)"
  shows "\<exists>e. flitisizeAndSend period now nd f b = Inl e"
proof (cases "serialize_count f b")
  case (Inl e)
  then show ?thesis using assms by (simp add: flitisizeAndSend_def nb_serialize_def)
next
  case (Inr kb)
  obtain k b1 where kb: "kb = (k, b1)" by force
  have tw: "target_width b1 = T" using serialize_count_setup [of f b k b1] Inr kb assms(2) by simp
  have "divCeil (f_msgSize p) T \<le> i * divCeil W T" using assms(4,7) by (simp add: divCeil_le_iff mult.assoc)
  then have "\<not> int i * int (divCeil W T) < int (divCeil (f_msgSize p) T)" by (metis leD of_nat_le_iff of_nat_mult)
  then have "serialize nd 0 k T f = Inl Assert_fail"
    using assms(4-6) by (simp add: serialize_def flit_serialize_def flit_of_def Let_def assertR_def)
  then have "send_part period now nd f k 0 (b1, []) = Inl Assert_fail" by (simp add: send_part_def tw)
  moreover have "0 < k \<Longrightarrow> map int [0..<nat k] = 0 # map int [1..<nat k]" by (simp add: upt_rec [of 0])
  ultimately show ?thesis
    using assms Inr kb by (cases "0 < k") (simp_all add: flitisizeAndSend_def nb_serialize_def assertR_def)
qed

theorem bridge_ratio_error_witness:
  "\<exists>b e. sample_bridge 96 128 = Inr b \<and> flitisizeAndSend 500 0 [] (last (sample_packet 384 128)) b = Inl e"
proof -
  obtain b where b: "sample_bridge 96 128 = Inr b" using sample_bridge_ok by blast
  let ?f = "last (sample_packet 384 128)"
  have f: "?f = flit_new 0 2 2 0 (RouteInfo_default []) 3 None 384 128 0" by (simp add: sample_packet_def divCeil_def upt_rec)
  note sample_bridge_facts [OF b]
  moreover have "flit_of ?f 128 2 ?f" "f_msgSize ?f \<le> 2 * (divCeil 128 96 * 96)"
    by (simp_all add: f flit_of_def flit_new_def divCeil_def)
  ultimately show ?thesis using bridge_ratio_error [of b 96 128 ?f 2 ?f 500 0 "[]"] b by auto
qed

end
