(* ===== verification/Network_Interface.thy ===== *)
theory Network_Interface
  imports Garnet_Router Message_Buffer
begin

text \<open>
  \<open>NetworkInterface\<close>: messages of the protocol are cut into flits and injected, arriving flits are exchanged for
  credits, and the message of a tail flit is handed to the protocol. The part of \<open>GarnetNetwork\<close> an interface uses
  (sizes, ordering, virtual network types, the router of a node) is the record \<open>net_env\<close>, the counters it increments
  are the record \<open>net_stats\<close>. The copies of messages that flits refer to live in a list, the message heap; a flit holds
  the position of its message. The links of the ports are passed in and returned, all requests to schedule somebody are
  returned in the order they are made. Console output is left out.
\<close>

section \<open>What the interface uses of the network\<close>

record net_env =
  ne_conf :: net_conf
  ne_machines :: machine_conf
  ne_control_msg_size :: nat
  ne_data_msg_size :: nat
  ne_ordered :: "int \<Rightarrow> bool"                 \<comment> \<open>\<open>isVNetOrdered\<close>\<close>
  ne_router_id :: "int \<Rightarrow> int \<Rightarrow> int res"      \<comment> \<open>\<open>get_router_id(ni, vnet)\<close>\<close>
  ne_flags :: ruby_flags
  ne_draw :: "int \<Rightarrow> int \<Rightarrow> int"

fun MessageSizeType_to_int :: "net_env \<Rightarrow> MessageSizeType \<Rightarrow> nat" where
  "MessageSizeType_to_int env MST_Control = ne_control_msg_size env"
| "MessageSizeType_to_int env MST_Request_Control = ne_control_msg_size env"
| "MessageSizeType_to_int env MST_Reissue_Control = ne_control_msg_size env"
| "MessageSizeType_to_int env MST_Response_Control = ne_control_msg_size env"
| "MessageSizeType_to_int env MST_Writeback_Control = ne_control_msg_size env"
| "MessageSizeType_to_int env MST_Broadcast_Control = ne_control_msg_size env"
| "MessageSizeType_to_int env MST_Multicast_Control = ne_control_msg_size env"
| "MessageSizeType_to_int env MST_Forwarded_Control = ne_control_msg_size env"
| "MessageSizeType_to_int env MST_Invalidate_Control = ne_control_msg_size env"
| "MessageSizeType_to_int env MST_Unblock_Control = ne_control_msg_size env"
| "MessageSizeType_to_int env MST_Persistent_Control = ne_control_msg_size env"
| "MessageSizeType_to_int env MST_Completion_Control = ne_control_msg_size env"
| "MessageSizeType_to_int env MST_Data = ne_data_msg_size env"
| "MessageSizeType_to_int env MST_Response_Data = ne_data_msg_size env"
| "MessageSizeType_to_int env MST_ResponseLocal_Data = ne_data_msg_size env"
| "MessageSizeType_to_int env MST_ResponseL2hit_Data = ne_data_msg_size env"
| "MessageSizeType_to_int env MST_Writeback_Data = ne_data_msg_size env"

record net_stats =
  ns_packets_received :: "nat list"
  ns_packets_injected :: "nat list"
  ns_packet_network_latency :: "nat list"
  ns_packet_queueing_latency :: "nat list"
  ns_flits_received :: "nat list"
  ns_flits_injected :: "nat list"
  ns_flit_network_latency :: "nat list"
  ns_flit_queueing_latency :: "nat list"
  ns_total_hops :: int
  ns_data_traffic :: "nat list list"
  ns_ctrl_traffic :: "nat list list"
  ns_next_packet_id :: int

text \<open>Adding to an element of a statistics vector; the difference of two ticks wraps around at 64 bits.\<close>

definition add_at :: "nat list \<Rightarrow> int \<Rightarrow> nat \<Rightarrow> nat list res" where
  "add_at xs i n = bindR (at xs i) (\<lambda>x. put xs i (x + n))"

definition tick_diff :: "Tick \<Rightarrow> Tick \<Rightarrow> Tick" where
  "tick_diff a b = nat ((int a - int b) mod 2 ^ 64)"

definition increment_injected_packets :: "int \<Rightarrow> net_stats \<Rightarrow> net_stats res" where
  "increment_injected_packets vnet s = bindR (add_at (ns_packets_injected s) vnet 1) (\<lambda>x. Inr (s\<lparr>ns_packets_injected := x\<rparr>))"

definition increment_received_packets :: "int \<Rightarrow> net_stats \<Rightarrow> net_stats res" where
  "increment_received_packets vnet s = bindR (add_at (ns_packets_received s) vnet 1) (\<lambda>x. Inr (s\<lparr>ns_packets_received := x\<rparr>))"

definition increment_packet_network_latency :: "Tick \<Rightarrow> int \<Rightarrow> net_stats \<Rightarrow> net_stats res" where
  "increment_packet_network_latency latency vnet s =
     bindR (add_at (ns_packet_network_latency s) vnet latency) (\<lambda>x. Inr (s\<lparr>ns_packet_network_latency := x\<rparr>))"

definition increment_packet_queueing_latency :: "Tick \<Rightarrow> int \<Rightarrow> net_stats \<Rightarrow> net_stats res" where
  "increment_packet_queueing_latency latency vnet s =
     bindR (add_at (ns_packet_queueing_latency s) vnet latency) (\<lambda>x. Inr (s\<lparr>ns_packet_queueing_latency := x\<rparr>))"

definition increment_injected_flits :: "int \<Rightarrow> net_stats \<Rightarrow> net_stats res" where
  "increment_injected_flits vnet s = bindR (add_at (ns_flits_injected s) vnet 1) (\<lambda>x. Inr (s\<lparr>ns_flits_injected := x\<rparr>))"

definition increment_received_flits :: "int \<Rightarrow> net_stats \<Rightarrow> net_stats res" where
  "increment_received_flits vnet s = bindR (add_at (ns_flits_received s) vnet 1) (\<lambda>x. Inr (s\<lparr>ns_flits_received := x\<rparr>))"

definition increment_flit_network_latency :: "Tick \<Rightarrow> int \<Rightarrow> net_stats \<Rightarrow> net_stats res" where
  "increment_flit_network_latency latency vnet s =
     bindR (add_at (ns_flit_network_latency s) vnet latency) (\<lambda>x. Inr (s\<lparr>ns_flit_network_latency := x\<rparr>))"

definition increment_flit_queueing_latency :: "Tick \<Rightarrow> int \<Rightarrow> net_stats \<Rightarrow> net_stats res" where
  "increment_flit_queueing_latency latency vnet s =
     bindR (add_at (ns_flit_queueing_latency s) vnet latency) (\<lambda>x. Inr (s\<lparr>ns_flit_queueing_latency := x\<rparr>))"

definition increment_total_hops :: "int \<Rightarrow> net_stats \<Rightarrow> net_stats" where
  "increment_total_hops hops s = s\<lparr>ns_total_hops := ns_total_hops s + hops\<rparr>"

definition add_traffic :: "nat list list \<Rightarrow> int \<Rightarrow> int \<Rightarrow> nat list list res" where
  "add_traffic m src_node dest_node = bindR (at m src_node) (\<lambda>row. bindR (add_at row dest_node 1) (put m src_node))"

definition update_traffic_distribution :: "net_conf \<Rightarrow> RouteInfo \<Rightarrow> net_stats \<Rightarrow> net_stats res" where
  "update_traffic_distribution nc route s =
     (if nc_vnet_type nc (r_vnet route) = DATA_VNET
      then bindR (add_traffic (ns_data_traffic s) (src_router route) (dest_router route)) (\<lambda>m. Inr (s\<lparr>ns_data_traffic := m\<rparr>))
      else bindR (add_traffic (ns_ctrl_traffic s) (src_router route) (dest_router route)) (\<lambda>m. Inr (s\<lparr>ns_ctrl_traffic := m\<rparr>)))"

definition getNextPacketID :: "net_stats \<Rightarrow> int \<times> net_stats" where
  "getNextPacketID s = (ns_next_packet_id s, s\<lparr>ns_next_packet_id := ns_next_packet_id s + 1\<rparr>)"

section \<open>Ports and interface\<close>

record OutputPort =
  op_vnets :: "int list"
  op_outFlitQueue :: flitBuffer
  op_vcRoundRobin :: int
  op_routerID :: int
  op_bitWidth :: nat

definition OutputPort_new :: "NetworkLink \<Rightarrow> int \<Rightarrow> OutputPort" where
  "OutputPort_new outLink routerID =
     \<lparr>op_vnets = nl_mVnets outLink, op_outFlitQueue = flitBuffer_new, op_vcRoundRobin = 0, op_routerID = routerID,
      op_bitWidth = nl_bitWidth outLink\<rparr>"

record InputPort =
  ip_vnets :: "int list"
  ip_outCreditQueue :: flitBuffer
  ip_bitWidth :: nat
  ip_stall_queue :: "flit list"
  ip_messageEnqueuedThisCycle :: bool

text \<open>The flag is not initialised; \<open>checkStallQueue\<close> sets it before it is read.\<close>

definition InputPort_new :: "NetworkLink \<Rightarrow> InputPort" where
  "InputPort_new inLink =
     \<lparr>ip_vnets = nl_mVnets inLink, ip_outCreditQueue = flitBuffer_new, ip_bitWidth = nl_bitWidth inLink,
      ip_stall_queue = [], ip_messageEnqueuedThisCycle = False\<rparr>"

definition isVnetSupported :: "int list \<Rightarrow> int \<Rightarrow> bool" where
  "isVnetSupported vnets pVnet = (vnets = [] \<or> pVnet \<in> set vnets)"

definition ip_sendCredit :: "flit \<Rightarrow> InputPort \<Rightarrow> InputPort" where
  "ip_sendCredit cFlit p = p\<lparr>ip_outCreditQueue := fb_insert cFlit (ip_outCreditQueue p)\<rparr>"

record 'p NetworkInterface =
  ni_id :: nat
  ni_virtual_networks :: nat
  ni_vc_per_vnet :: nat
  ni_vc_allocator :: "int list"
  ni_outPorts :: "OutputPort list"
  ni_inPorts :: "InputPort list"
  ni_deadlock_threshold :: int
  ni_outVcState :: "OutVcState list"
  ni_stall_count :: "int list"
  ni_niOutVcs :: "flitBuffer list"
  ni_out_vcs_enqueue_time :: "Tick list"
  ni_inNode :: "'p MessageBuffer option list"
  ni_outNode :: "'p MessageBuffer option list"
  ni_vc_busy_counter :: "int list"

datatype ni_req =
    Ni_self Cycles               \<comment> \<open>\<open>scheduleEvent(d)\<close>\<close>
  | Ni_self_at Tick              \<comment> \<open>\<open>scheduleEventAbsolute(t)\<close>\<close>
  | Ni_out_link nat Tick         \<comment> \<open>the same of the network link of an output port\<close>
  | Ni_credit_link nat Tick      \<comment> \<open>the same of the credit link of an input port\<close>
  | Ni_protocol int mb_req       \<comment> \<open>a request of an output message buffer to its controller\<close>
  | Ni_callback int              \<comment> \<open>the dequeue callback of an input message buffer\<close>

definition NetworkInterface_new :: "nat \<Rightarrow> nat \<Rightarrow> int \<Rightarrow> 'p NetworkInterface" where
  "NetworkInterface_new nid virt_nets threshold =
     \<lparr>ni_id = nid, ni_virtual_networks = virt_nets, ni_vc_per_vnet = 0, ni_vc_allocator = replicate virt_nets 0,
      ni_outPorts = [], ni_inPorts = [], ni_deadlock_threshold = threshold, ni_outVcState = [],
      ni_stall_count = replicate virt_nets 0, ni_niOutVcs = [], ni_out_vcs_enqueue_time = [], ni_inNode = [],
      ni_outNode = [], ni_vc_busy_counter = replicate virt_nets 0\<rparr>"

text \<open>Adding ports; the links come back with the number of their channels set.\<close>

definition ni_addInPort :: "NetworkLink \<Rightarrow> NetworkLink \<Rightarrow> 'p NetworkInterface \<Rightarrow> NetworkLink \<times> NetworkLink \<times> 'p NetworkInterface" where
  "ni_addInPort in_link credit_link ni =
     (let ni' = ni\<lparr>ni_inPorts := ni_inPorts ni @ [InputPort_new in_link]\<rparr> in
      if ni_vc_per_vnet ni \<noteq> 0
      then (nl_setVcsPerVnet (ni_vc_per_vnet ni) in_link, nl_setVcsPerVnet (ni_vc_per_vnet ni) credit_link, ni')
      else (in_link, credit_link, ni'))"

text \<open>\<open>in_links\<close> are the links of the input ports that exist already. Their credit links are not resized: the loop
  names the credit link of the new output port instead.\<close>

definition ni_addOutPort ::
  "net_conf \<Rightarrow> NetworkLink \<Rightarrow> NetworkLink \<Rightarrow> int \<Rightarrow> nat \<Rightarrow> NetworkLink list \<Rightarrow> 'p NetworkInterface
     \<Rightarrow> (NetworkLink \<times> NetworkLink \<times> NetworkLink list \<times> 'p NetworkInterface) res" where
  "ni_addOutPort nc out_link credit_link router_id consumerVcs in_links ni =
     bindR (assertR (consumerVcs > 0)) (\<lambda>_.
     bindR (if ni_niOutVcs ni = [] then
              let m_num_vcs = consumerVcs * ni_virtual_networks ni in
              bindR (mapR (\<lambda>i. OutVcState_new nc i consumerVcs) [0..<m_num_vcs]) (\<lambda>states.
                Inr (map (nl_setVcsPerVnet consumerVcs) in_links,
                     ni\<lparr>ni_vc_per_vnet := consumerVcs, ni_niOutVcs := replicate m_num_vcs flitBuffer_new,
                        ni_out_vcs_enqueue_time := replicate m_num_vcs INFINITE,
                        ni_outVcState := ni_outVcState ni @ states\<rparr>))
            else bindR (failIf (consumerVcs \<noteq> ni_vc_per_vnet ni) Fatal) (\<lambda>_. Inr (in_links, ni))) (\<lambda>(in_links', ni1).
       Inr (nl_setVcsPerVnet (ni_vc_per_vnet ni1) out_link, nl_setVcsPerVnet (ni_vc_per_vnet ni1) credit_link, in_links',
            ni1\<lparr>ni_outPorts := ni_outPorts ni1 @ [OutputPort_new out_link router_id]\<rparr>)))"

fun setConsumers :: "'p MessageBuffer option list \<Rightarrow> 'p MessageBuffer option list res" where
  "setConsumers [] = Inr []"
| "setConsumers (None # bs) = bindR (setConsumers bs) (\<lambda>bs'. Inr (None # bs'))"
| "setConsumers (Some b # bs) = bindR (mb_setConsumer b) (\<lambda>b'. bindR (setConsumers bs) (\<lambda>bs'. Inr (Some b' # bs')))"

definition ni_addNode :: "'p MessageBuffer option list \<Rightarrow> 'p MessageBuffer option list \<Rightarrow> 'p NetworkInterface \<Rightarrow> 'p NetworkInterface res" where
  "ni_addNode ins outs ni = bindR (setConsumers ins) (\<lambda>ins'. Inr (ni\<lparr>ni_inNode := ins', ni_outNode := outs\<rparr>))"

definition ni_dequeueCallback :: "nat \<Rightarrow> Tick \<Rightarrow> ni_req list" where
  "ni_dequeueCallback period now = [Ni_self_at (clockEdge_at period now 1)]"

fun port_for_vnet :: "int list list \<Rightarrow> int \<Rightarrow> nat option" where
  "port_for_vnet [] vnet = None"
| "port_for_vnet (vs # vss) vnet = (if isVnetSupported vs vnet then Some 0 else map_option Suc (port_for_vnet vss vnet))"

definition getInportForVnet :: "int \<Rightarrow> 'p NetworkInterface \<Rightarrow> nat option" where
  "getInportForVnet vnet ni = port_for_vnet (map ip_vnets (ni_inPorts ni)) vnet"

definition getOutportForVnet :: "int \<Rightarrow> 'p NetworkInterface \<Rightarrow> nat option" where
  "getOutportForVnet vnet ni = port_for_vnet (map op_vnets (ni_outPorts ni)) vnet"

definition ni_get_router_id :: "int \<Rightarrow> 'p NetworkInterface \<Rightarrow> int res" where
  "ni_get_router_id vnet ni =
     (case getOutportForVnet vnet ni of None \<Rightarrow> Inl Assert_fail | Some i \<Rightarrow> Inr (op_routerID (ni_outPorts ni ! i)))"

fun vnet_search :: "nat \<Rightarrow> int \<Rightarrow> nat list \<Rightarrow> int res" where
  "vnet_search per vc [] = Inl Fatal"
| "vnet_search per vc (i # is) = (if vc \<ge> int (i * per) \<and> vc < int ((i + 1) * per) then Inr (int i) else vnet_search per vc is)"

definition ni_get_vnet :: "int \<Rightarrow> 'p NetworkInterface \<Rightarrow> int res" where
  "ni_get_vnet vc ni = vnet_search (ni_vc_per_vnet ni) vc [0..<ni_virtual_networks ni]"

definition on_outVc :: "(OutVcState \<Rightarrow> OutVcState res) \<Rightarrow> int \<Rightarrow> 'p NetworkInterface \<Rightarrow> 'p NetworkInterface res" where
  "on_outVc f vc ni = bindR (at (ni_outVcState ni) vc) (\<lambda>w. bindR (f w) (\<lambda>w'.
     bindR (put (ni_outVcState ni) vc w') (\<lambda>ws. Inr (ni\<lparr>ni_outVcState := ws\<rparr>))))"

section \<open>Injection\<close>

text \<open>\<open>calculateVC\<close>: a rotating search for an idle channel of the virtual network.\<close>

fun vc_scan :: "Tick \<Rightarrow> int \<Rightarrow> nat \<Rightarrow> 'p NetworkInterface \<Rightarrow> (int option \<times> 'p NetworkInterface) res" where
  "vc_scan now vnet 0 ni = Inr (None, ni)"
| "vc_scan now vnet (Suc n) ni =
     bindR (at (ni_vc_allocator ni) vnet) (\<lambda>delta.
     bindR (put (ni_vc_allocator ni) vnet (if delta + 1 = int (ni_vc_per_vnet ni) then 0 else delta + 1)) (\<lambda>al.
       let ni1 = ni\<lparr>ni_vc_allocator := al\<rparr>; vc = vnet * int (ni_vc_per_vnet ni) + delta in
       bindR (at (ni_outVcState ni1) vc) (\<lambda>w.
         if ov_isInState IDLE now w
         then bindR (put (ni_vc_busy_counter ni1) vnet 0) (\<lambda>bc. Inr (Some vc, ni1\<lparr>ni_vc_busy_counter := bc\<rparr>))
         else vc_scan now vnet n ni1)))"

definition calculateVC :: "Tick \<Rightarrow> int \<Rightarrow> 'p NetworkInterface \<Rightarrow> (int \<times> 'p NetworkInterface) res" where
  "calculateVC now vnet ni =
     bindR (vc_scan now vnet (ni_vc_per_vnet ni) ni) (\<lambda>(r, ni1).
       case r of Some vc \<Rightarrow> Inr (vc, ni1)
       | None \<Rightarrow>
           bindR (at (ni_vc_busy_counter ni1) vnet) (\<lambda>c.
           bindR (put (ni_vc_busy_counter ni1) vnet (c + 1)) (\<lambda>bc.
           bindR (failIf (c + 1 > ni_deadlock_threshold ni1) Panic) (\<lambda>_.
             Inr (-1, ni1\<lparr>ni_vc_busy_counter := bc\<rparr>)))))"

text \<open>The destination set of one node; empty when the node belongs to no machine type.\<close>

fun machine_of_node :: "machine_conf \<Rightarrow> nat \<Rightarrow> nat list \<Rightarrow> MachineID option" where
  "machine_of_node mc destID [] = None"
| "machine_of_node mc destID (m # ms) =
     (if destID \<ge> MachineType_base_number mc m \<and> destID < MachineType_base_number mc (m + 1)
      then Some (MachineID m (destID - MachineType_base_number mc m)) else machine_of_node mc destID ms)"

definition personal_dest :: "machine_conf \<Rightarrow> nat \<Rightarrow> (NetDest \<times> bool) res" where
  "personal_dest mc destID =
     bindR (NetDest_new mc) (\<lambda>nd.
       case machine_of_node mc destID [0..<MachineType_NUM mc] of
         None \<Rightarrow> Inr (nd, False)
       | Some m \<Rightarrow> bindR (NetDest_add mc m (NetDest_clear nd)) (\<lambda>nd'. Inr (nd', True)))"

text \<open>The flits of one packet enter the buffer of its channel.\<close>

definition inject_flit ::
  "Tick \<Rightarrow> int \<Rightarrow> int \<Rightarrow> int \<Rightarrow> RouteInfo \<Rightarrow> nat \<Rightarrow> nat \<Rightarrow> nat \<Rightarrow> nat \<Rightarrow> Tick \<Rightarrow> nat
     \<Rightarrow> 'p NetworkInterface \<times> net_stats \<Rightarrow> ('p NetworkInterface \<times> net_stats) res" where
  "inject_flit now packet_id vc vnet route num_flits msg_ptr msgSize width src_delay i = (\<lambda>(ni, s).
     bindR (increment_injected_flits vnet s) (\<lambda>s'.
       let fl = (flit_new packet_id (int i) vc vnet route (int num_flits) (Some msg_ptr) msgSize width now)\<lparr>f_src_delay := src_delay\<rparr> in
       bindR (at (ni_niOutVcs ni) vc) (\<lambda>b.
       bindR (put (ni_niOutVcs ni) vc (fb_insert fl b)) (\<lambda>bs. Inr (ni\<lparr>ni_niOutVcs := bs\<rparr>, s')))))"

text \<open>One turn of the loop over the destinations: the channel \<open>vc\<close> is free, \<open>many\<close> says whether there are several
  destinations, \<open>msg\<close> is the message in the protocol buffer, which loses the destination.\<close>

definition inject_packet ::
  "net_env \<Rightarrow> Tick \<Rightarrow> int \<Rightarrow> OutputPort \<Rightarrow> nat \<Rightarrow> bool \<Rightarrow> int \<Rightarrow> nat
     \<Rightarrow> 'p Message \<times> 'p NetworkInterface \<times> 'p Message list \<times> net_stats
     \<Rightarrow> ('p Message \<times> 'p NetworkInterface \<times> 'p Message list \<times> net_stats) res" where
  "inject_packet env now vnet oPort num_flits many vc destID = (\<lambda>(msg, ni, heap, s).
     bindR (if many
            then bindR (personal_dest (ne_machines env) destID) (\<lambda>(pd, found).
                 bindR (NetDest_removeNetDest pd (msg_Destination msg)) (\<lambda>rest.
                   Inr (if found then msg\<lparr>msg_Destination := pd\<rparr> else msg, msg\<lparr>msg_Destination := rest\<rparr>)))
            else Inr (msg, msg)) (\<lambda>(new_msg, msg').
     bindR (ne_router_id env (int destID) vnet) (\<lambda>dest.
       let route = (RouteInfo_default (msg_Destination new_msg))
             \<lparr>r_vnet := vnet, src_ni := int (ni_id ni), src_router := op_routerID oPort, dest_ni := int destID,
              dest_router := dest, hops_traversed := -1\<rparr>;
           msgSize = MessageSizeType_to_int env (msg_MessageSize msg') in
       bindR (increment_injected_packets vnet s) (\<lambda>s1.
       bindR (update_traffic_distribution (ne_conf env) route s1) (\<lambda>s2.
       let (packet_id, s3) = getNextPacketID s2 in
       bindR (loopR (inject_flit now packet_id vc vnet route num_flits (length heap) msgSize (op_bitWidth oPort)
                       (tick_diff now (msg_time msg'))) [0..<num_flits] (ni, s3)) (\<lambda>(ni1, s4).
       bindR (put (ni_out_vcs_enqueue_time ni1) vc now) (\<lambda>ts.
       bindR (on_outVc (\<lambda>w. Inr (ov_setState ACTIVE now w)) vc (ni1\<lparr>ni_out_vcs_enqueue_time := ts\<rparr>)) (\<lambda>ni2.
         Inr (msg', ni2, heap @ [new_msg], s4)))))))))"

fun flitisize_dests ::
  "net_env \<Rightarrow> Tick \<Rightarrow> int \<Rightarrow> OutputPort \<Rightarrow> nat \<Rightarrow> bool \<Rightarrow> nat list
     \<Rightarrow> 'p Message \<times> 'p NetworkInterface \<times> 'p Message list \<times> net_stats
     \<Rightarrow> (bool \<times> 'p Message \<times> 'p NetworkInterface \<times> 'p Message list \<times> net_stats) res" where
  "flitisize_dests env now vnet oPort num_flits many [] st = Inr (True, st)"
| "flitisize_dests env now vnet oPort num_flits many (d # ds) st =
     (let (msg, ni, heap, s) = st in
      bindR (calculateVC now vnet ni) (\<lambda>(vc, ni1).
        if vc = -1 then Inr (False, msg, ni1, heap, s)
        else bindR (inject_packet env now vnet oPort num_flits many vc d (msg, ni1, heap, s))
               (flitisize_dests env now vnet oPort num_flits many ds)))"

definition flitisizeMessage ::
  "net_env \<Rightarrow> Tick \<Rightarrow> int \<Rightarrow> 'p Message \<times> 'p NetworkInterface \<times> 'p Message list \<times> net_stats
     \<Rightarrow> (bool \<times> 'p Message \<times> 'p NetworkInterface \<times> 'p Message list \<times> net_stats) res" where
  "flitisizeMessage env now vnet = (\<lambda>(msg, ni, heap, s).
     bindR (NetDest_getAllDest (ne_machines env) (msg_Destination msg)) (\<lambda>dest_nodes.
       case getOutportForVnet vnet ni of
         None \<Rightarrow> Inl Assert_fail
       | Some i \<Rightarrow>
           let oPort = ni_outPorts ni ! i in
           bindR (failIf (op_bitWidth oPort = 0) Div_by_zero) (\<lambda>_.
             flitisize_dests env now vnet oPort
               (divCeil (MessageSizeType_to_int env (msg_MessageSize msg)) (op_bitWidth oPort))
               (length dest_nodes > 1) dest_nodes (msg, ni, heap, s))))"

text \<open>The message at the head of an input buffer is changed in place.\<close>

definition set_front :: "'p Message \<Rightarrow> 'p MessageBuffer \<Rightarrow> 'p MessageBuffer" where
  "set_front m b = b\<lparr>mb_prio_heap := m # tl (mb_prio_heap b)\<rparr>"

definition self_reqs :: "mb_req list \<Rightarrow> ni_req list" where
  "self_reqs rs = concat (map (\<lambda>r. case r of Consumer_in d \<Rightarrow> [Ni_self d] | Consumer_at t \<Rightarrow> [Ni_self_at t] | Consumer_info _ \<Rightarrow> []) rs)"

definition set_inNode :: "int \<Rightarrow> 'p MessageBuffer \<Rightarrow> 'p NetworkInterface \<Rightarrow> 'p NetworkInterface res" where
  "set_inNode vnet b ni = bindR (put (ni_inNode ni) vnet (Some b)) (\<lambda>bs. Inr (ni\<lparr>ni_inNode := bs\<rparr>))"

text \<open>What \<open>wakeup\<close> does for one input message buffer.\<close>

definition take_message ::
  "net_env \<Rightarrow> nat \<Rightarrow> Tick \<Rightarrow> nat \<Rightarrow> 'p NetworkInterface \<times> 'p Message list \<times> net_stats \<times> ni_req list
     \<Rightarrow> ('p NetworkInterface \<times> 'p Message list \<times> net_stats \<times> ni_req list) res" where
  "take_message env period now vnet = (\<lambda>(ni, heap, s, reqs).
     let curTime = clockEdge_at period now 0 in
     bindR (at (ni_inNode ni) (int vnet)) (\<lambda>bo.
       case bo of None \<Rightarrow> Inr (ni, heap, s, reqs)
       | Some b \<Rightarrow>
           bindR (mb_isReady curTime b) (\<lambda>(ready, rs).
             if ready then
               bindR (mb_peek b) (\<lambda>msg.
               bindR (flitisizeMessage env now (int vnet) (msg, ni, heap, s)) (\<lambda>(sent, msg', ni1, heap1, s1).
                 let b1 = set_front msg' b in
                 if sent then
                   bindR (mb_dequeue now curTime True b1) (\<lambda>(m, delay, cb, b2).
                   bindR (set_inNode (int vnet) b2 ni1) (\<lambda>ni2.
                     Inr (ni2, heap1, s1, reqs @ self_reqs rs @ (if cb then [Ni_callback (int vnet)] else []))))
                 else bindR (set_inNode (int vnet) b1 ni1) (\<lambda>ni2. Inr (ni2, heap1, s1, reqs @ self_reqs rs))))
             else Inr (ni, heap, s, reqs @ self_reqs rs))))"

section \<open>Scheduling the output ports\<close>

definition op_insert :: "flit \<Rightarrow> OutputPort \<Rightarrow> OutputPort" where
  "op_insert t_flit p = p\<lparr>op_outFlitQueue := fb_insert t_flit (op_outFlitQueue p)\<rparr>"

definition ni_scheduleFlit :: "nat \<Rightarrow> Tick \<Rightarrow> flit \<Rightarrow> 'p NetworkInterface \<Rightarrow> ('p NetworkInterface \<times> ni_req list) res" where
  "ni_scheduleFlit period now t_flit ni =
     (case getOutportForVnet (f_vnet t_flit) ni of
        None \<Rightarrow> Inl Panic
      | Some i \<Rightarrow> Inr (ni\<lparr>ni_outPorts := (ni_outPorts ni)[i := op_insert t_flit (ni_outPorts ni ! i)]\<rparr>,
                       [Ni_out_link i (clockEdge_at period now 1)]))"

text \<open>On an ordered virtual network only the channel whose packet came first may send.\<close>

definition is_candidate_vc :: "net_env \<Rightarrow> Tick \<Rightarrow> int \<Rightarrow> int \<Rightarrow> 'p NetworkInterface \<Rightarrow> bool res" where
  "is_candidate_vc env now t_vnet vc ni =
     (if ne_ordered env t_vnet then
        bindR (existsR (\<lambda>t_vc. bindR (at (ni_niOutVcs ni) t_vc) (\<lambda>b.
                 if fb_isReady now b then
                   bindR (at (ni_out_vcs_enqueue_time ni) t_vc) (\<lambda>t. bindR (at (ni_out_vcs_enqueue_time ni) vc) (\<lambda>t'. Inr (t < t')))
                 else Inr False)) (vc_range t_vnet (ni_vc_per_vnet ni))) (\<lambda>older. Inr (\<not> older))
      else Inr True)"

text \<open>Sending the first flit of the chosen channel.\<close>

definition send_from_vc ::
  "nat \<Rightarrow> Tick \<Rightarrow> nat \<Rightarrow> int \<Rightarrow> 'p NetworkInterface \<Rightarrow> ('p NetworkInterface \<times> ni_req list) res" where
  "send_from_vc period now p vc ni =
     bindR (on_outVc ov_decrement_credit vc
              (ni\<lparr>ni_outPorts := (ni_outPorts ni)[p := (ni_outPorts ni ! p)\<lparr>op_vcRoundRobin := vc\<rparr>]\<rparr>)) (\<lambda>ni1.
     bindR (at (ni_niOutVcs ni1) vc) (\<lambda>b.
     bindR (fb_getTopFlit b) (\<lambda>(t_flit, b').
     bindR (put (ni_niOutVcs ni1) vc b') (\<lambda>bs.
     bindR (ni_scheduleFlit period now (t_flit\<lparr>f_time := clockEdge_at period now 1\<rparr>) (ni1\<lparr>ni_niOutVcs := bs\<rparr>)) (\<lambda>(ni2, reqs).
       if f_type t_flit = TAIL \<or> f_type t_flit = HEAD_TAIL
       then bindR (put (ni_out_vcs_enqueue_time ni2) vc INFINITE) (\<lambda>ts. Inr (ni2\<lparr>ni_out_vcs_enqueue_time := ts\<rparr>, reqs))
       else Inr (ni2, reqs))))))"

fun schedule_scan ::
  "net_env \<Rightarrow> nat \<Rightarrow> Tick \<Rightarrow> nat \<Rightarrow> nat \<Rightarrow> int \<Rightarrow> 'p NetworkInterface \<Rightarrow> ('p NetworkInterface \<times> ni_req list) res" where
  "schedule_scan env period now p 0 vc ni = Inr (ni, [])"
| "schedule_scan env period now p (Suc n) vc0 ni =
     (let vc = (if vc0 + 1 = int (length (ni_niOutVcs ni)) then 0 else vc0 + 1) in
      bindR (ni_get_vnet vc ni) (\<lambda>t_vnet.
      bindR (if isVnetSupported (op_vnets (ni_outPorts ni ! p)) t_vnet then
               bindR (at (ni_niOutVcs ni) vc) (\<lambda>b.
                 if fb_isReady now b then
                   bindR (at (ni_outVcState ni) vc) (\<lambda>w.
                     if ov_has_credit w then is_candidate_vc env now t_vnet vc ni else Inr False)
                 else Inr False)
             else Inr False) (\<lambda>send.
        if send then send_from_vc period now p vc ni
        else schedule_scan env period now p n vc ni)))"

definition scheduleOutputPort ::
  "net_env \<Rightarrow> nat \<Rightarrow> Tick \<Rightarrow> nat \<Rightarrow> 'p NetworkInterface \<times> ni_req list \<Rightarrow> ('p NetworkInterface \<times> ni_req list) res" where
  "scheduleOutputPort env period now p = (\<lambda>(ni, reqs).
     bindR (schedule_scan env period now p (length (ni_niOutVcs ni)) (op_vcRoundRobin (ni_outPorts ni ! p)) ni) (\<lambda>(ni', rs).
       Inr (ni', reqs @ rs)))"

definition scheduleOutputLink :: "net_env \<Rightarrow> nat \<Rightarrow> Tick \<Rightarrow> 'p NetworkInterface \<Rightarrow> ('p NetworkInterface \<times> ni_req list) res" where
  "scheduleOutputLink env period now ni =
     loopR (scheduleOutputPort env period now) [0..<length (ni_outPorts ni)] (ni, [])"

section \<open>Ejection\<close>

definition incrementStats :: "nat \<Rightarrow> Tick \<Rightarrow> flit \<Rightarrow> net_stats \<Rightarrow> net_stats res" where
  "incrementStats period now t_flit s =
     (let vnet = f_vnet t_flit;
          network_delay = tick_diff (tick_diff (f_dequeue_time t_flit) (f_enqueue_time t_flit)) period;
          dest_queueing_delay = tick_diff now (f_dequeue_time t_flit);
          queueing_delay = (f_src_delay t_flit + dest_queueing_delay) mod 2 ^ 64 in
      bindR (increment_received_flits vnet s) (\<lambda>s1.
      bindR (increment_flit_network_latency network_delay vnet s1) (\<lambda>s2.
      bindR (increment_flit_queueing_latency queueing_delay vnet s2) (\<lambda>s3.
      bindR (if f_type t_flit = TAIL \<or> f_type t_flit = HEAD_TAIL then
               bindR (increment_received_packets vnet s3) (\<lambda>s4.
               bindR (increment_packet_network_latency network_delay vnet s4) (\<lambda>s5.
                 increment_packet_queueing_latency queueing_delay vnet s5))
             else Inr s3) (\<lambda>s6.
        Inr (increment_total_hops (hops_traversed (f_route t_flit)) s6))))))"

definition outNode_at :: "int \<Rightarrow> 'p NetworkInterface \<Rightarrow> 'p MessageBuffer res" where
  "outNode_at vnet ni = bindR (at (ni_outNode ni) vnet) (\<lambda>bo. case bo of None \<Rightarrow> Inl Null_deref | Some b \<Rightarrow> Inr b)"

definition set_outNode :: "int \<Rightarrow> 'p MessageBuffer \<Rightarrow> 'p NetworkInterface \<Rightarrow> 'p NetworkInterface res" where
  "set_outNode vnet b ni = bindR (put (ni_outNode ni) vnet (Some b)) (\<lambda>bs. Inr (ni\<lparr>ni_outNode := bs\<rparr>))"

definition outNode_available :: "Tick \<Rightarrow> int \<Rightarrow> 'p NetworkInterface \<Rightarrow> (bool \<times> 'p NetworkInterface) res" where
  "outNode_available curTime vnet ni =
     bindR (outNode_at vnet ni) (\<lambda>b. let (ok, b') = mb_areNSlotsAvailable 1 curTime b in
     bindR (set_outNode vnet b' ni) (\<lambda>ni'. Inr (ok, ni')))"

text \<open>The message a flit points to.\<close>

definition flit_message :: "'p Message list \<Rightarrow> flit \<Rightarrow> 'p Message res" where
  "flit_message heap f = (case f_msg_ptr f of None \<Rightarrow> Inl Null_deref | Some p \<Rightarrow> at heap (int p))"

definition on_inPort :: "(InputPort \<Rightarrow> InputPort) \<Rightarrow> nat \<Rightarrow> 'p NetworkInterface \<Rightarrow> 'p NetworkInterface" where
  "on_inPort f i ni = ni\<lparr>ni_inPorts := (ni_inPorts ni)[i := f (ni_inPorts ni ! i)]\<rparr>"

text \<open>Handing the message of a tail flit to the protocol, with the credit that frees its channel.\<close>

definition eject ::
  "net_env \<Rightarrow> nat \<Rightarrow> Tick \<Rightarrow> NetDest \<Rightarrow> 'p Message list \<Rightarrow> nat \<Rightarrow> flit \<Rightarrow> 'p NetworkInterface \<times> net_stats
     \<Rightarrow> ('p NetworkInterface \<times> net_stats \<times> ni_req list) res" where
  "eject env period now nd heap i t_flit = (\<lambda>(ni, s).
     bindR (outNode_at (f_vnet t_flit) ni) (\<lambda>b.
     bindR (flit_message heap t_flit) (\<lambda>m.
     bindR (mb_enqueue (ne_flags env) (ne_draw env) (clockEdge_at period now 0) (period * 1) m b) (\<lambda>(m', b', rs).
     bindR (set_outNode (f_vnet t_flit) b' ni) (\<lambda>ni1.
     bindR (incrementStats period now t_flit s) (\<lambda>s'.
       Inr (on_inPort (ip_sendCredit (Credit_new nd (f_vc t_flit) True now)) i ni1, s', map (Ni_protocol (f_vnet t_flit)) rs)))))))"

text \<open>The stall queue of one input port: the first flit whose message fits is ejected.\<close>

fun stall_scan ::
  "net_env \<Rightarrow> nat \<Rightarrow> Tick \<Rightarrow> NetDest \<Rightarrow> 'p Message list \<Rightarrow> nat \<Rightarrow> flit list \<Rightarrow> flit list \<Rightarrow> 'p NetworkInterface \<times> net_stats
     \<Rightarrow> ('p NetworkInterface \<times> net_stats \<times> ni_req list) res" where
  "stall_scan env period now nd heap i before [] = (\<lambda>(ni, s). Inr (ni, s, []))"
| "stall_scan env period now nd heap i before (stallFlit # rest) = (\<lambda>(ni, s).
     bindR (outNode_available (clockEdge_at period now 0) (f_vnet stallFlit) ni) (\<lambda>(ok, ni1).
       if ok then
         bindR (eject env period now nd heap i stallFlit (ni1, s)) (\<lambda>(ni2, s', rs).
         bindR (at (ni_stall_count ni2) (f_vnet stallFlit)) (\<lambda>c.
         bindR (put (ni_stall_count ni2) (f_vnet stallFlit) (c - 1)) (\<lambda>cs.
           let ni3 = (on_inPort (\<lambda>p. p\<lparr>ip_stall_queue := before @ rest\<rparr>) i ni2)\<lparr>ni_stall_count := cs\<rparr> in
           bindR (if c - 1 = 0
                  then bindR (outNode_at (f_vnet stallFlit) ni3) (\<lambda>b. set_outNode (f_vnet stallFlit) (mb_unregisterDequeueCallback b) ni3)
                  else Inr ni3) (\<lambda>ni4.
             Inr (on_inPort (\<lambda>p. p\<lparr>ip_messageEnqueuedThisCycle := True\<rparr>) i ni4, s', rs)))))
       else stall_scan env period now nd heap i (before @ [stallFlit]) rest (ni1, s)))"

definition check_stall_port ::
  "net_env \<Rightarrow> nat \<Rightarrow> Tick \<Rightarrow> NetDest \<Rightarrow> 'p Message list \<Rightarrow> nat \<Rightarrow> 'p NetworkInterface \<times> net_stats \<times> ni_req list
     \<Rightarrow> ('p NetworkInterface \<times> net_stats \<times> ni_req list) res" where
  "check_stall_port env period now nd heap i = (\<lambda>(ni, s, reqs).
     let ni0 = on_inPort (\<lambda>p. p\<lparr>ip_messageEnqueuedThisCycle := False\<rparr>) i ni in
     bindR (stall_scan env period now nd heap i [] (ip_stall_queue (ni_inPorts ni0 ! i)) (ni0, s)) (\<lambda>(ni', s', rs).
       Inr (ni', s', reqs @ rs)))"

definition checkStallQueue ::
  "net_env \<Rightarrow> nat \<Rightarrow> Tick \<Rightarrow> NetDest \<Rightarrow> 'p Message list \<Rightarrow> 'p NetworkInterface \<times> net_stats
     \<Rightarrow> ('p NetworkInterface \<times> net_stats \<times> ni_req list) res" where
  "checkStallQueue env period now nd heap = (\<lambda>(ni, s).
     loopR (check_stall_port env period now nd heap) [0..<length (ni_inPorts ni)] (ni, s, []))"

text \<open>A tail flit whose message does not fit is stalled, and the interface asks to be called back.\<close>

definition stall_flit :: "nat \<Rightarrow> flit \<Rightarrow> 'p NetworkInterface \<Rightarrow> 'p NetworkInterface res" where
  "stall_flit i t_flit ni =
     bindR (at (ni_stall_count ni) (f_vnet t_flit)) (\<lambda>c.
     bindR (put (ni_stall_count ni) (f_vnet t_flit) (c + 1)) (\<lambda>cs.
       let ni1 = (on_inPort (\<lambda>p. p\<lparr>ip_stall_queue := ip_stall_queue p @ [t_flit]\<rparr>) i ni)\<lparr>ni_stall_count := cs\<rparr> in
       bindR (outNode_at (f_vnet t_flit) ni1) (\<lambda>b. set_outNode (f_vnet t_flit) (mb_registerDequeueCallback b) ni1)))"

text \<open>One arriving flit.\<close>

definition receive_at_port ::
  "net_env \<Rightarrow> nat \<Rightarrow> Tick \<Rightarrow> NetDest \<Rightarrow> 'p Message list \<Rightarrow> nat \<Rightarrow> flit \<Rightarrow> 'p NetworkInterface \<times> net_stats
     \<Rightarrow> ('p NetworkInterface \<times> net_stats \<times> ni_req list) res" where
  "receive_at_port env period now nd heap i t_flit0 = (\<lambda>(ni, s).
     let t_flit = t_flit0\<lparr>f_dequeue_time := now\<rparr> in
     if f_type t_flit = TAIL \<or> f_type t_flit = HEAD_TAIL then
       bindR (if \<not> ip_messageEnqueuedThisCycle (ni_inPorts ni ! i)
              then outNode_available (clockEdge_at period now 0) (f_vnet t_flit) ni else Inr (False, ni)) (\<lambda>(ok, ni1).
         if ok then eject env period now nd heap i t_flit (ni1, s)
         else bindR (stall_flit i t_flit ni1) (\<lambda>ni2. Inr (ni2, s, [])))
     else
       bindR (incrementStats period now t_flit s) (\<lambda>s'.
         Inr (on_inPort (ip_sendCredit (Credit_new nd (f_vc t_flit) False now)) i ni, s', [])))"

definition ni_wake_inport ::
  "net_env \<Rightarrow> nat \<Rightarrow> Tick \<Rightarrow> NetDest \<Rightarrow> 'p Message list \<Rightarrow> nat
     \<Rightarrow> NetworkLink list \<times> 'p NetworkInterface \<times> net_stats \<times> ni_req list
     \<Rightarrow> (NetworkLink list \<times> 'p NetworkInterface \<times> net_stats \<times> ni_req list) res" where
  "ni_wake_inport env period now nd heap i = (\<lambda>(in_links, ni, s, reqs).
     bindR (at in_links (int i)) (\<lambda>link.
       if nl_isReady now link then
         bindR (nl_consumeLink link) (\<lambda>(t_flit, link').
         bindR (assertR (f_width t_flit = ip_bitWidth (ni_inPorts ni ! i))) (\<lambda>_.
         bindR (receive_at_port env period now nd heap i t_flit (ni, s)) (\<lambda>(ni', s', rs).
           Inr (in_links[i := link'], ni', s', reqs @ rs))))
       else Inr (in_links, ni, s, reqs)))"

definition receive_credit :: "Tick \<Rightarrow> flit \<Rightarrow> 'p NetworkInterface \<Rightarrow> 'p NetworkInterface res" where
  "receive_credit now t_credit ni =
     bindR (on_outVc ov_increment_credit (f_vc t_credit) ni) (\<lambda>ni1.
       if f_is_free_signal t_credit then on_outVc (\<lambda>w. Inr (ov_setState IDLE now w)) (f_vc t_credit) ni1 else Inr ni1)"

definition ni_wake_outport ::
  "Tick \<Rightarrow> nat \<Rightarrow> NetworkLink list \<times> 'p NetworkInterface \<Rightarrow> (NetworkLink list \<times> 'p NetworkInterface) res" where
  "ni_wake_outport now p = (\<lambda>(credit_links, ni).
     bindR (at credit_links (int p)) (\<lambda>link.
       if nl_isReady now link then
         bindR (nl_consumeLink link) (\<lambda>(t_credit, link').
         bindR (receive_credit now t_credit ni) (\<lambda>ni'. Inr (credit_links[p := link'], ni')))
       else Inr (credit_links, ni)))"

definition credit_reqs :: "nat \<Rightarrow> Tick \<Rightarrow> 'p NetworkInterface \<Rightarrow> ni_req list" where
  "credit_reqs period now ni =
     concat (map (\<lambda>(i, p). if length (fb_buffer (ip_outCreditQueue p)) > 0 then [Ni_credit_link i (clockEdge_at period now 1)] else [])
       (enumerate 0 (ni_inPorts ni)))"

text \<open>\<open>checkReschedule\<close>: the first reason found requests the next cycle.\<close>

fun any_ready :: "Tick \<Rightarrow> 'p MessageBuffer option list \<Rightarrow> (bool \<times> ni_req list) res" where
  "any_ready t [] = Inr (False, [])"
| "any_ready t (None # bs) = any_ready t bs"
| "any_ready t (Some b # bs) = bindR (mb_isReady t b) (\<lambda>(ready, rs).
     if ready then Inr (True, self_reqs rs)
     else bindR (any_ready t bs) (\<lambda>(r, rs'). Inr (r, self_reqs rs @ rs')))"

definition checkReschedule ::
  "nat \<Rightarrow> Tick \<Rightarrow> NetworkLink list \<Rightarrow> NetworkLink list \<Rightarrow> 'p NetworkInterface \<Rightarrow> ni_req list res" where
  "checkReschedule period now in_links credit_links ni =
     bindR (any_ready (clockEdge_at period now 0) (ni_inNode ni)) (\<lambda>(ready, rs).
       Inr (rs @ (if ready \<or> list_ex (fb_isReady (clockEdge_at period now 1)) (ni_niOutVcs ni)
                    \<or> list_ex (nl_isReady now) in_links \<or> list_ex (nl_isReady now) credit_links
                  then [Ni_self 1] else [])))"

definition ni_wakeup ::
  "net_env \<Rightarrow> nat \<Rightarrow> Tick \<Rightarrow> NetDest \<Rightarrow> NetworkLink list \<Rightarrow> NetworkLink list
     \<Rightarrow> 'p NetworkInterface \<times> 'p Message list \<times> net_stats
     \<Rightarrow> (NetworkLink list \<times> NetworkLink list \<times> 'p NetworkInterface \<times> 'p Message list \<times> net_stats \<times> ni_req list) res" where
  "ni_wakeup env period now nd in_links credit_links = (\<lambda>(ni, heap, s).
     bindR (assertR (now = clockEdge_at period now 0)) (\<lambda>_.
     bindR (loopR (take_message env period now) [0..<length (ni_inNode ni)] (ni, heap, s, [])) (\<lambda>(ni1, heap1, s1, reqs1).
     bindR (scheduleOutputLink env period now ni1) (\<lambda>(ni2, reqs2).
     bindR (checkStallQueue env period now nd heap1 (ni2, s1)) (\<lambda>(ni3, s3, reqs3).
     bindR (loopR (ni_wake_inport env period now nd heap1) [0..<length (ni_inPorts ni3)] (in_links, ni3, s3, [])) (\<lambda>(in_links', ni4, s4, reqs4).
     bindR (loopR (ni_wake_outport now) [0..<length (ni_outPorts ni4)] (credit_links, ni4)) (\<lambda>(credit_links', ni5).
     bindR (checkReschedule period now in_links' credit_links' ni5) (\<lambda>reqs6.
       Inr (in_links', credit_links', ni5, heap1, s4, reqs1 @ reqs2 @ reqs3 @ reqs4 @ credit_reqs period now ni5 @ reqs6)))))))))"

section \<open>Functional accesses\<close>

text \<open>Only the injection buffers and the queues of the output ports are searched.\<close>

definition ni_functionalRead :: "'h access \<Rightarrow> 'p NetworkInterface \<Rightarrow> 'h \<Rightarrow> (bool \<times> 'h) res" where
  "ni_functionalRead acc ni h = bindR (read_all (fb_functionalRead acc) (ni_niOutVcs ni) False h) (\<lambda>(r, h1).
     read_all (fb_functionalRead acc) (map op_outFlitQueue (ni_outPorts ni)) r h1)"

definition ni_functionalWrite :: "'h access \<Rightarrow> 'p NetworkInterface \<Rightarrow> 'h \<Rightarrow> (nat \<times> 'h) res" where
  "ni_functionalWrite acc ni h = bindR (write_all (fb_functionalWrite acc) (ni_niOutVcs ni) 0 h) (\<lambda>(n, h1).
     write_all (fb_functionalWrite acc) (map op_outFlitQueue (ni_outPorts ni)) n h1)"

end
