(* ===== verification/Interface_Injection.thy ===== *)
theory Interface_Injection
  imports Network_Interface Message_Order
begin

text \<open>
  The injection side of a network interface: the rotating choice of a free channel and the splitting of a multicast
  message into packets.
\<close>

section \<open>The shape of an interface\<close>

definition vcs_ok :: "'p NetworkInterface \<Rightarrow> bool" where
  "vcs_ok ni \<longleftrightarrow> 0 < ni_vc_per_vnet ni
     \<and> length (ni_outVcState ni) = ni_vc_per_vnet ni * ni_virtual_networks ni
     \<and> length (ni_niOutVcs ni) = ni_vc_per_vnet ni * ni_virtual_networks ni
     \<and> length (ni_out_vcs_enqueue_time ni) = ni_vc_per_vnet ni * ni_virtual_networks ni
     \<and> length (ni_vc_allocator ni) = ni_virtual_networks ni
     \<and> length (ni_vc_busy_counter ni) = ni_virtual_networks ni
     \<and> (\<forall>a \<in> set (ni_vc_allocator ni). 0 \<le> a \<and> a < int (ni_vc_per_vnet ni))
     \<and> (\<forall>w \<in> set (ni_outVcState ni). 0 \<le> ov_credit_count w \<and> ov_credit_count w \<le> ov_max_credit_count w)"

lemma vcs_ok_alloc:
  "vcs_ok ni \<Longrightarrow> length al = ni_virtual_networks ni \<Longrightarrow> \<forall>a \<in> set al. 0 \<le> a \<and> a < int (ni_vc_per_vnet ni)
     \<Longrightarrow> vcs_ok (ni\<lparr>ni_vc_allocator := al\<rparr>)"
  by (simp add: vcs_ok_def)

text \<open>The channel at offset \<open>j\<close> behind the pointer of a virtual network.\<close>

definition rotated :: "nat \<Rightarrow> 'p NetworkInterface \<Rightarrow> nat \<Rightarrow> nat" where
  "rotated v ni j = (nat (ni_vc_allocator ni ! v) + j) mod ni_vc_per_vnet ni"

definition idle_at :: "Tick \<Rightarrow> nat \<Rightarrow> 'p NetworkInterface \<Rightarrow> nat \<Rightarrow> bool" where
  "idle_at now v ni k = ov_isInState IDLE now (ni_outVcState ni ! (v * ni_vc_per_vnet ni + k))"

lemma vc_index: "v < V \<Longrightarrow> k < per \<Longrightarrow> v * per + k < per * (V :: nat)"
proof -
  assume "v < V" "k < per"
  then have "v * per + k < Suc v * per" "Suc v * per \<le> V * per" by (simp, intro mult_le_mono1) simp
  then show ?thesis by (simp add: mult.commute)
qed

lemma find_Suc: "find P [0..<Suc n] = (if P 0 then Some 0 else map_option Suc (find (\<lambda>j. P (Suc j)) [0..<n]))"
proof -
  have m: "find P (map Suc xs) = map_option Suc (find (\<lambda>j. P (Suc j)) xs)" for xs :: "nat list"
    by (induction xs) simp_all
  have "[0..<Suc n] = 0 # map Suc [0..<n]" by (simp only: map_Suc_upt upt_conv_Cons zero_less_Suc)
  then show ?thesis by (simp only: find.simps m)
qed

text \<open>What the scan finds and how it leaves the interface.\<close>

definition scanned :: "nat \<Rightarrow> nat \<Rightarrow> nat option \<Rightarrow> 'p NetworkInterface \<Rightarrow> int option \<times> 'p NetworkInterface" where
  "scanned v n r ni =
     (if r = None then (None, ni\<lparr>ni_vc_allocator := (ni_vc_allocator ni)[v := int (rotated v ni n)]\<rparr>)
      else (Some (int (v * ni_vc_per_vnet ni + rotated v ni (the r))),
            ni\<lparr>ni_vc_allocator := (ni_vc_allocator ni)[v := int (rotated v ni (Suc (the r)))],
               ni_vc_busy_counter := (ni_vc_busy_counter ni)[v := 0]\<rparr>))"

lemma vc_scan_spec:
  assumes "vcs_ok ni" and "v < ni_virtual_networks ni"
  shows "vc_scan now (int v) n ni = Inr (scanned v n (find (\<lambda>j. idle_at now v ni (rotated v ni j)) [0..<n]) ni)"
  using assms
proof (induction n arbitrary: ni)
  case 0
  let ?a = "ni_vc_allocator ni"
  have "0 \<le> ?a ! v" "?a ! v < int (ni_vc_per_vnet ni)" "v < length ?a" using 0 by (auto simp: vcs_ok_def)
  then have "?a[v := int (rotated v ni 0)] = ?a" by (simp add: rotated_def)
  then show ?case by (simp add: scanned_def)
next
  case (Suc n)
  let ?a = "ni_vc_allocator ni" and ?per = "ni_vc_per_vnet ni"
  have a: "0 \<le> ?a ! v" "?a ! v < int ?per" "v < length ?a" "v < length (ni_vc_busy_counter ni)"
    and K: "length (ni_outVcState ni) = ?per * ni_virtual_networks ni" using Suc.prems by (auto simp: vcs_ok_def)
  define d where "d = nat (?a ! v)"
  have d: "?a ! v = int d" "d < ?per" using a by (auto simp: d_def)
  have r0: "rotated v ni 0 = d" using d by (simp add: rotated_def d_def [symmetric])
  have r1: "(if int d + 1 = int ?per then 0 else int d + 1) = int (rotated v ni (Suc 0))"
    using d by (auto simp: rotated_def d_def [symmetric] mod_Suc)
  let ?ni = "ni\<lparr>ni_vc_allocator := ?a[v := int (rotated v ni (Suc 0))]\<rparr>"
  have "\<forall>x \<in> set (?a[v := int (rotated v ni (Suc 0))]). 0 \<le> x \<and> x < int ?per"
    by (rule ball_update) (use Suc.prems(1) d(2) in \<open>auto simp: vcs_ok_def rotated_def\<close>)
  moreover have "length (?a[v := int (rotated v ni (Suc 0))]) = ni_virtual_networks ni" using Suc.prems(1) by (simp add: vcs_ok_def)
  ultimately have ok: "vcs_ok ?ni" using vcs_ok_alloc [OF Suc.prems(1)] by blast
  have vn: "v < ni_virtual_networks ?ni" using Suc.prems(2) by simp
  have rot: "rotated v ?ni j = rotated v ni (Suc j)" for j
    using a by (simp add: rotated_def mod_add_left_eq)
  have w: "at (ni_outVcState ni) (int v * int ?per + int d) = Inr (ni_outVcState ni ! (v * ?per + d))"
    using vc_index [OF Suc.prems(2) d(2)] K at_nat [of "v * ?per + d" "ni_outVcState ni"] by simp
  show ?case
  proof (cases "idle_at now v ni d")
    case True
    then show ?thesis unfolding find_Suc vc_scan.simps
      using a(3,4) w r0 r1 d(1) by (auto simp: Let_def idle_at_def scanned_def)
  next
    case False
    then have e: "vc_scan now (int v) (Suc n) ni = vc_scan now (int v) n ?ni"
      using a(3,4) w r1 d(1) by (auto simp: Let_def idle_at_def)
    have i: "(\<lambda>j. idle_at now v ?ni (rotated v ?ni j)) = (\<lambda>j. idle_at now v ni (rotated v ni (Suc j)))"
      by (simp add: rot idle_at_def)
    show ?thesis unfolding e Suc.IH [OF ok vn] find_Suc i
      using False r0 by (cases "find (\<lambda>j. idle_at now v ni (rotated v ni (Suc j))) [0..<n]") (simp_all add: rot scanned_def)
  qed
qed

lemma rotated_less: "vcs_ok ni \<Longrightarrow> rotated v ni j < ni_vc_per_vnet ni"
  by (simp add: rotated_def vcs_ok_def)

lemma rotated_onto:
  assumes "vcs_ok ni" and "k < ni_vc_per_vnet ni"
  shows "\<exists>j < ni_vc_per_vnet ni. rotated v ni j = k"
proof -
  let ?per = "ni_vc_per_vnet ni" and ?d = "nat (ni_vc_allocator ni ! v) mod ni_vc_per_vnet ni"
  let ?j = "(k + (?per - ?d)) mod ?per"
  have d: "?d < ?per" using assms(2) by simp
  have "(?d + ?j) mod ?per = (?d + (k + (?per - ?d))) mod ?per" by (simp add: mod_add_right_eq)
  also have "\<dots> = (k + ?per) mod ?per" using d by simp
  also have "\<dots> = k" using assms(2) by simp
  finally have "rotated v ni ?j = k" by (simp add: rotated_def mod_add_left_eq)
  then show ?thesis using assms(2) by (intro exI [of _ ?j]) simp
qed

lemma calculateVC_eq:
  fixes now :: Tick
  assumes "vcs_ok ni" and "v < ni_virtual_networks ni"
  defines "r \<equiv> find (\<lambda>j. idle_at now v ni (rotated v ni j)) [0..<ni_vc_per_vnet ni]"
  shows "r = Some j \<Longrightarrow> calculateVC now (int v) ni = Inr (int (v * ni_vc_per_vnet ni + rotated v ni j),
      ni\<lparr>ni_vc_allocator := (ni_vc_allocator ni)[v := int (rotated v ni (Suc j))], ni_vc_busy_counter := (ni_vc_busy_counter ni)[v := 0]\<rparr>)"
    and "r = None \<Longrightarrow> calculateVC now (int v) ni =
      (if ni_vc_busy_counter ni ! v < ni_deadlock_threshold ni
       then Inr (-1, ni\<lparr>ni_vc_busy_counter := (ni_vc_busy_counter ni)[v := ni_vc_busy_counter ni ! v + 1]\<rparr>) else Inl Panic)"
proof -
  have l: "v < length (ni_vc_busy_counter ni)" "v < length (ni_vc_allocator ni)" using assms by (auto simp: vcs_ok_def)
  have "0 \<le> ni_vc_allocator ni ! v" "ni_vc_allocator ni ! v < int (ni_vc_per_vnet ni)" using assms(1) l by (auto simp: vcs_ok_def)
  then have a: "(ni_vc_allocator ni)[v := int (rotated v ni (ni_vc_per_vnet ni))] = ni_vc_allocator ni" by (simp add: rotated_def)
  show "calculateVC now (int v) ni = Inr (int (v * ni_vc_per_vnet ni + rotated v ni j),
      ni\<lparr>ni_vc_allocator := (ni_vc_allocator ni)[v := int (rotated v ni (Suc j))], ni_vc_busy_counter := (ni_vc_busy_counter ni)[v := 0]\<rparr>)"
    if "r = Some j" using that by (simp add: calculateVC_def vc_scan_spec [OF assms(1,2)] r_def [symmetric] scanned_def)
  show "calculateVC now (int v) ni =
      (if ni_vc_busy_counter ni ! v < ni_deadlock_threshold ni
       then Inr (-1, ni\<lparr>ni_vc_busy_counter := (ni_vc_busy_counter ni)[v := ni_vc_busy_counter ni ! v + 1]\<rparr>) else Inl Panic)"
    if "r = None"
    using that l by (simp add: calculateVC_def vc_scan_spec [OF assms(1,2)] r_def [symmetric] scanned_def a failIf_def)
qed

text \<open>Claim C25. The choice of an injection channel is a fair rotation: \<open>calculateVC\<close> takes the first idle channel of
  the virtual network in cyclic order from its pointer, moves the pointer just behind it and resets the count of busy
  attempts; if no channel of the virtual network is idle it leaves the pointer, counts the attempt and answers -1, or
  stops with the panic of a suspected deadlock when the count passes the threshold.\<close>

theorem calculateVC_round_robin:
  assumes "vcs_ok ni" and "v < ni_virtual_networks ni"
  shows "(\<exists>j < ni_vc_per_vnet ni. idle_at now v ni (rotated v ni j) \<and> (\<forall>i < j. \<not> idle_at now v ni (rotated v ni i))
       \<and> calculateVC now (int v) ni = Inr (int (v * ni_vc_per_vnet ni + rotated v ni j),
           ni\<lparr>ni_vc_allocator := (ni_vc_allocator ni)[v := int (rotated v ni (Suc j))],
              ni_vc_busy_counter := (ni_vc_busy_counter ni)[v := 0]\<rparr>))
    \<or> (\<forall>k < ni_vc_per_vnet ni. \<not> idle_at now v ni k)
       \<and> calculateVC now (int v) ni =
           (if ni_vc_busy_counter ni ! v < ni_deadlock_threshold ni
            then Inr (-1, ni\<lparr>ni_vc_busy_counter := (ni_vc_busy_counter ni)[v := ni_vc_busy_counter ni ! v + 1]\<rparr>)
            else Inl Panic)"
proof (cases "find (\<lambda>j. idle_at now v ni (rotated v ni j)) [0..<ni_vc_per_vnet ni]")
  case None
  then have "\<not> idle_at now v ni k" if "k < ni_vc_per_vnet ni" for k
    using rotated_onto [OF assms(1) that, of v] by (auto simp: find_None_iff)
  then show ?thesis using calculateVC_eq(2) [OF assms None] by blast
next
  case (Some j)
  from Some have "j < ni_vc_per_vnet ni" "idle_at now v ni (rotated v ni j)" "\<forall>i < j. \<not> idle_at now v ni (rotated v ni i)"
    by (auto simp: find_Some_iff)
  then show ?thesis using calculateVC_eq(1) [OF assms Some] by blast
qed

section \<open>The nodes of a destination set\<close>

definition node_of :: "machine_conf \<Rightarrow> MachineID \<Rightarrow> nat" where
  "node_of mc m = MachineType_base_number mc (mach_type m) + mach_num m"

lemma machine_of_node_append:
  "\<forall>m \<in> set xs. \<not> (MachineType_base_number mc m \<le> d \<and> d < MachineType_base_number mc (m + 1))
     \<Longrightarrow> machine_of_node mc d (xs @ ys) = machine_of_node mc d ys"
  by (induction xs) auto

lemma base_number_mono: "machine_conf_ok mc \<Longrightarrow> i \<le> j \<Longrightarrow> j \<le> MachineType_NUM mc \<Longrightarrow> MachineType_base_number mc i \<le> MachineType_base_number mc j"
  by (auto simp: machine_conf_ok_def intro: sum_mono2)

lemma machine_of_node_of:
  assumes "machine_conf_ok mc" and "MachineID_ok mc m"
  shows "machine_of_node mc (node_of mc m) [0..<MachineType_NUM mc] = Some m"
proof -
  let ?t = "mach_type m"
  have t: "?t < MachineType_NUM mc" "mach_num m < MachineType_base_count mc ?t" using assms(2) by (auto simp: MachineID_ok_def)
  have s: "MachineType_base_number mc (?t + 1) = MachineType_base_number mc ?t + MachineType_base_count mc ?t"
    using assms(1) t(1) by (simp add: machine_conf_ok_def)
  have "\<forall>k \<in> set [0..<?t]. \<not> (MachineType_base_number mc k \<le> node_of mc m \<and> node_of mc m < MachineType_base_number mc (k + 1))"
  proof
    fix k assume "k \<in> set [0..<?t]"
    then have "MachineType_base_number mc (k + 1) \<le> MachineType_base_number mc ?t"
      using base_number_mono [OF assms(1), of "k + 1" ?t] t(1) by simp
    then show "\<not> (MachineType_base_number mc k \<le> node_of mc m \<and> node_of mc m < MachineType_base_number mc (k + 1))"
      by (simp add: node_of_def)
  qed
  moreover have "[0..<MachineType_NUM mc] = [0..<?t] @ ?t # [Suc ?t..<MachineType_NUM mc]"
    using upt_add_eq_append [of 0 ?t "MachineType_NUM mc - ?t"] t(1) by (simp add: upt_conv_Cons)
  ultimately have "machine_of_node mc (node_of mc m) [0..<MachineType_NUM mc] = machine_of_node mc (node_of mc m) (?t # [Suc ?t..<MachineType_NUM mc])"
    by (simp only: machine_of_node_append)
  then show ?thesis using t(2) s by (simp add: node_of_def)
qed

lemma node_of_inj: "machine_conf_ok mc \<Longrightarrow> MachineID_ok mc m \<Longrightarrow> MachineID_ok mc m' \<Longrightarrow> node_of mc m = node_of mc m' \<Longrightarrow> m = m'"
  by (metis machine_of_node_of option.inject)

lemma personal_dest_spec:
  assumes "machine_conf_ok mc" and "MachineID_ok mc m"
  shows "\<exists>pd. personal_dest mc (node_of mc m) = Inr (pd, True) \<and> NetDest_ok mc pd \<and> NetDest_elems pd = {m}"
proof -
  from NetDest_new_elems [OF assms(1)] obtain nd where nd: "NetDest_new mc = Inr nd" "NetDest_ok mc nd" by blast
  from NetDest_add_elems [OF _ assms(2)] NetDest_clear_elems [OF nd(2)] obtain pd where
    "NetDest_add mc m (NetDest_clear nd) = Inr pd" "NetDest_ok mc pd" "NetDest_elems pd = {m}" by fastforce
  then show ?thesis by (simp add: personal_dest_def nd(1) machine_of_node_of [OF assms])
qed

section \<open>Injecting one packet\<close>

definition stats_ok :: "nat \<Rightarrow> nat \<Rightarrow> net_stats \<Rightarrow> bool" where
  "stats_ok V R s \<longleftrightarrow> length (ns_packets_received s) = V \<and> length (ns_packets_injected s) = V
     \<and> length (ns_packet_network_latency s) = V \<and> length (ns_packet_queueing_latency s) = V
     \<and> length (ns_flits_received s) = V \<and> length (ns_flits_injected s) = V
     \<and> length (ns_flit_network_latency s) = V \<and> length (ns_flit_queueing_latency s) = V
     \<and> length (ns_data_traffic s) = R \<and> (\<forall>row \<in> set (ns_data_traffic s). length row = R)
     \<and> length (ns_ctrl_traffic s) = R \<and> (\<forall>row \<in> set (ns_ctrl_traffic s). length row = R)"

definition packet_flits ::
  "Tick \<Rightarrow> int \<Rightarrow> int \<Rightarrow> int \<Rightarrow> RouteInfo \<Rightarrow> nat \<Rightarrow> nat \<Rightarrow> nat \<Rightarrow> nat \<Rightarrow> Tick \<Rightarrow> flit list" where
  "packet_flits now packet_id vc vnet route n msg_ptr msgSize width delay =
     map (\<lambda>i. (flit_new packet_id (int i) vc vnet route (int n) (Some msg_ptr) msgSize width now)\<lparr>f_src_delay := delay\<rparr>) [0..<n]"

lemma add_at_ok: "i < length xs \<Longrightarrow> add_at xs (int i) n = Inr (xs[i := xs ! i + n])"
  by (simp add: add_at_def)

lemma inject_flits:
  assumes "c < length (ni_niOutVcs ni)" and "v < length (ns_flits_injected s)"
  shows "loopR (inject_flit now pid (int c) (int v) route n h sz w dl) [0..<k] (ni, s) =
    Inr (ni\<lparr>ni_niOutVcs := (ni_niOutVcs ni)[c := (ni_niOutVcs ni ! c)\<lparr>fb_buffer := fb_buffer (ni_niOutVcs ni ! c)
           @ map (\<lambda>i. (flit_new pid (int i) (int c) (int v) route (int n) (Some h) sz w now)\<lparr>f_src_delay := dl\<rparr>) [0..<k]\<rparr>]\<rparr>,
         s\<lparr>ns_flits_injected := (ns_flits_injected s)[v := ns_flits_injected s ! v + k]\<rparr>)"
proof (induction k)
  case 0
  then show ?case using assms by simp
next
  case (Suc k)
  then show ?case using assms
    by (simp add: loopR_append inject_flit_def increment_injected_flits_def add_at_ok fb_insert_def)
qed

lemma add_traffic_ok:
  assumes "a < length m" and "b < length (m ! a)"
  shows "add_traffic m (int a) (int b) = Inr (m[a := (m ! a)[b := m ! a ! b + 1]])"
  using assms by (simp add: add_traffic_def add_at_ok)

lemma update_traffic_ok:
  assumes "stats_ok V R s" and "src_router route = int a" "a < R" and "dest_router route = int b" "b < R"
  shows "\<exists>s'. update_traffic_distribution nc route s = Inr s' \<and> stats_ok V R s' \<and> ns_packets_injected s' = ns_packets_injected s
     \<and> ns_flits_injected s' = ns_flits_injected s"
proof -
  have r: "length (ns_data_traffic s ! a) = R" "length (ns_ctrl_traffic s ! a) = R" using assms(1,3) by (auto simp: stats_ok_def)
  let ?d = "(ns_data_traffic s)[a := (ns_data_traffic s ! a)[b := ns_data_traffic s ! a ! b + 1]]"
  let ?c = "(ns_ctrl_traffic s)[a := (ns_ctrl_traffic s ! a)[b := ns_ctrl_traffic s ! a ! b + 1]]"
  have "\<forall>row \<in> set ?d. length row = R" by (rule ball_update) (use assms(1) r in \<open>simp_all add: stats_ok_def\<close>)
  moreover have "\<forall>row \<in> set ?c. length row = R" by (rule ball_update) (use assms(1) r in \<open>simp_all add: stats_ok_def\<close>)
  ultimately show ?thesis
    using assms r by (cases "nc_vnet_type nc (r_vnet route) = DATA_VNET")
      (simp_all add: update_traffic_distribution_def add_traffic_ok stats_ok_def)
qed

text \<open>The route of a packet.\<close>

definition packet_route :: "nat \<Rightarrow> int \<Rightarrow> OutputPort \<Rightarrow> NetDest \<Rightarrow> nat \<Rightarrow> int \<Rightarrow> RouteInfo" where
  "packet_route nid vnet oPort nd destID dest = (RouteInfo_default nd)
     \<lparr>r_vnet := vnet, src_ni := int nid, src_router := op_routerID oPort, dest_ni := int destID, dest_router := dest, hops_traversed := -1\<rparr>"

text \<open>What the injection of one packet through channel \<open>c\<close> does: the copy \<open>cp\<close> of the message goes to the heap, the flits
  of the packet to the buffer of the channel, which becomes active.\<close>

definition injected ::
  "net_env \<Rightarrow> Tick \<Rightarrow> nat \<Rightarrow> OutputPort \<Rightarrow> nat \<Rightarrow> nat \<Rightarrow> int \<Rightarrow> nat \<Rightarrow> 'p Message \<Rightarrow> nat \<Rightarrow> 'p NetworkInterface \<Rightarrow> int \<Rightarrow> 'p NetworkInterface" where
  "injected env now v oPort n destID dest c cp h ni pid = ni
     \<lparr>ni_niOutVcs := (ni_niOutVcs ni)[c := (ni_niOutVcs ni ! c)\<lparr>fb_buffer := fb_buffer (ni_niOutVcs ni ! c)
        @ packet_flits now pid (int c) (int v) (packet_route (ni_id ni) (int v) oPort (msg_Destination cp) destID dest) n h
            (MessageSizeType_to_int env (msg_MessageSize cp)) (op_bitWidth oPort) (tick_diff now (msg_time cp))\<rparr>],
      ni_out_vcs_enqueue_time := (ni_out_vcs_enqueue_time ni)[c := now],
      ni_outVcState := (ni_outVcState ni)[c := ov_setState ACTIVE now (ni_outVcState ni ! c)]\<rparr>"

lemma inject_packet_spec:
  assumes vc: "vcs_ok ni" "c < ni_vc_per_vnet ni * ni_virtual_networks ni" "v < ni_virtual_networks ni"
    and st: "stats_ok (ni_virtual_networks ni) R s"
    and rt: "ne_router_id env (int d) (int v) = Inr (int r)" "r < R" "op_routerID oPort = int q" "q < R"
    and dst: "if many then \<exists>m. d = node_of (ne_machines env) m \<and> m \<in> NetDest_elems (msg_Destination msg)
           \<and> NetDest_ok (ne_machines env) (msg_Destination msg) \<and> M = {m} else M = {}"
  shows "\<exists>cp rest s' pid. inject_packet env now (int v) oPort n many (int c) d (msg, ni, heap, s) =
        Inr (msg\<lparr>msg_Destination := rest\<rparr>, injected env now v oPort n d (int r) c cp (length heap) ni pid, heap @ [cp], s')
     \<and> cp = msg\<lparr>msg_Destination := msg_Destination cp\<rparr>
     \<and> (if many then NetDest_ok (ne_machines env) (msg_Destination cp) \<and> NetDest_elems (msg_Destination cp) = M
           \<and> NetDest_ok (ne_machines env) rest \<and> NetDest_elems rest = NetDest_elems (msg_Destination msg) - M
        else cp = msg \<and> rest = msg_Destination msg)
     \<and> stats_ok (ni_virtual_networks ni) R s'
     \<and> ns_packets_injected s' = (ns_packets_injected s)[v := ns_packets_injected s ! v + 1]
     \<and> ns_flits_injected s' = (ns_flits_injected s)[v := ns_flits_injected s ! v + n]"
proof -
  let ?mc = "ne_machines env"
  obtain cp rest where split: "(if many
            then bindR (personal_dest ?mc d) (\<lambda>(pd, found).
                 bindR (NetDest_removeNetDest pd (msg_Destination msg)) (\<lambda>rest.
                   Inr (if found then msg\<lparr>msg_Destination := pd\<rparr> else msg, msg\<lparr>msg_Destination := rest\<rparr>)))
            else Inr (msg, msg)) = Inr (cp, msg\<lparr>msg_Destination := rest\<rparr>)"
      "cp = msg\<lparr>msg_Destination := msg_Destination cp\<rparr>"
      "if many then NetDest_ok ?mc (msg_Destination cp) \<and> NetDest_elems (msg_Destination cp) = M
           \<and> NetDest_ok ?mc rest \<and> NetDest_elems rest = NetDest_elems (msg_Destination msg) - M else cp = msg \<and> rest = msg_Destination msg"
  proof (cases many)
    case True
    with dst obtain m where m: "d = node_of ?mc m" "m \<in> NetDest_elems (msg_Destination msg)" "NetDest_ok ?mc (msg_Destination msg)" "M = {m}" by auto
    have mo: "machine_conf_ok ?mc" "MachineID_ok ?mc m" using m NetDest_ok_elemsD by (auto simp: NetDest_ok_def)
    from personal_dest_spec [OF mo] obtain pd where pd: "personal_dest ?mc d = Inr (pd, True)" "NetDest_ok ?mc pd" "NetDest_elems pd = {m}"
      using m(1) by blast
    from NetDest_removeNetDest_elems [OF m(3) pd(2)] obtain rest where
      "NetDest_removeNetDest pd (msg_Destination msg) = Inr rest" "NetDest_ok ?mc rest" "NetDest_elems rest = NetDest_elems (msg_Destination msg) - {m}"
      using pd(3) by auto
    then show ?thesis using True pd m(4) by (intro that [of "msg\<lparr>msg_Destination := pd\<rparr>" rest]) simp_all
  qed (intro that [of msg "msg_Destination msg"]; simp)
  let ?V = "ni_virtual_networks ni" and ?route = "packet_route (ni_id ni) (int v) oPort (msg_Destination cp) d (int r)"
  let ?s1 = "s\<lparr>ns_packets_injected := (ns_packets_injected s)[v := ns_packets_injected s ! v + 1]\<rparr>"
  have s1: "increment_injected_packets (int v) s = Inr ?s1" "stats_ok ?V R ?s1"
    using st vc(3) by (simp_all add: increment_injected_packets_def add_at_ok stats_ok_def)
  from update_traffic_ok [OF s1(2), of ?route q r "ne_conf env"] rt obtain s2 where
    s2: "update_traffic_distribution (ne_conf env) ?route ?s1 = Inr s2" "stats_ok ?V R s2" "ns_packets_injected s2 = ns_packets_injected ?s1"
      "ns_flits_injected s2 = ns_flits_injected s" by (auto simp: packet_route_def)
  obtain pid s3 where s3: "getNextPacketID s2 = (pid, s3)" "stats_ok ?V R s3" "ns_packets_injected s3 = ns_packets_injected s2" "ns_flits_injected s3 = ns_flits_injected s2"
    using s2(2) by (simp add: getNextPacketID_def stats_ok_def)
  have l: "c < length (ni_niOutVcs ni)" "v < length (ns_flits_injected s3)" "c < length (ni_out_vcs_enqueue_time ni)" "c < length (ni_outVcState ni)"
    using vc s3(2) by (auto simp: vcs_ok_def stats_ok_def)
  have eqs: "msg_MessageSize cp = msg_MessageSize msg" "msg_time cp = msg_time msg" using arg_cong [OF split(2), of msg_MessageSize] arg_cong [OF split(2), of msg_time] by simp_all
  let ?s4 = "s3\<lparr>ns_flits_injected := (ns_flits_injected s3)[v := ns_flits_injected s3 ! v + n]\<rparr>"
  have "inject_packet env now (int v) oPort n many (int c) d (msg, ni, heap, s) =
     Inr (msg\<lparr>msg_Destination := rest\<rparr>, injected env now v oPort n d (int r) c cp (length heap) ni pid, heap @ [cp], ?s4)"
    unfolding inject_packet_def
    using rt(1) s1(1) s2(1) s3(1) l
    by (simp add: split(1) Let_def packet_route_def [symmetric] inject_flits on_outVc_def injected_def packet_flits_def eqs)
  moreover have "stats_ok ?V R ?s4" using s3(2) by (simp add: stats_ok_def)
  ultimately show ?thesis using split(2,3) s2(3,4) s3(3,4) by (intro exI [of _ cp] exI [of _ rest] exI [of _ ?s4] exI [of _ pid]) simp
qed

section \<open>Splitting a multicast\<close>

text \<open>Only the channel records, their buffers and the search pointers change.\<close>

definition inj_frame :: "'p NetworkInterface \<Rightarrow> 'p NetworkInterface \<Rightarrow> bool" where
  "inj_frame ni ni' \<longleftrightarrow> ni' = ni\<lparr>ni_vc_allocator := ni_vc_allocator ni', ni_vc_busy_counter := ni_vc_busy_counter ni',
     ni_niOutVcs := ni_niOutVcs ni', ni_outVcState := ni_outVcState ni', ni_out_vcs_enqueue_time := ni_out_vcs_enqueue_time ni'\<rparr>"

lemma inj_frame_trans: "inj_frame a b \<Longrightarrow> inj_frame b c \<Longrightarrow> inj_frame a c"
  by (cases a; cases b; cases c) (simp add: inj_frame_def)

lemma inj_frameD:
  assumes "inj_frame ni ni'"
  shows "ni_id ni' = ni_id ni" "ni_virtual_networks ni' = ni_virtual_networks ni" "ni_vc_per_vnet ni' = ni_vc_per_vnet ni"
    "ni_outPorts ni' = ni_outPorts ni" "ni_inPorts ni' = ni_inPorts ni" "ni_deadlock_threshold ni' = ni_deadlock_threshold ni"
    "ni_stall_count ni' = ni_stall_count ni" "ni_inNode ni' = ni_inNode ni" "ni_outNode ni' = ni_outNode ni"
  using assms by (cases ni; cases ni'; simp add: inj_frame_def)+

text \<open>Channel number of offset \<open>k\<close> in virtual network \<open>v\<close>.\<close>

abbreviation chan :: "nat \<Rightarrow> 'p NetworkInterface \<Rightarrow> nat \<Rightarrow> nat" where
  "chan v ni k \<equiv> v * ni_vc_per_vnet ni + k"

text \<open>A copy of a message for one node.\<close>

definition copy_for :: "machine_conf \<Rightarrow> bool \<Rightarrow> 'p Message \<Rightarrow> nat \<Rightarrow> 'p Message \<Rightarrow> bool" where
  "copy_for mc many msg d cp \<longleftrightarrow> cp = msg\<lparr>msg_Destination := msg_Destination cp\<rparr>
     \<and> (if many then NetDest_elems (msg_Destination cp) = {m. MachineID_ok mc m \<and> node_of mc m = d} else cp = msg)"

text \<open>The packet for one node in a channel.\<close>

definition packet_in ::
  "net_env \<Rightarrow> Tick \<Rightarrow> nat \<Rightarrow> OutputPort \<Rightarrow> nat \<Rightarrow> 'p Message list \<Rightarrow> nat \<Rightarrow> nat \<Rightarrow> nat \<Rightarrow> 'p NetworkInterface \<Rightarrow> 'p NetworkInterface \<Rightarrow> bool" where
  "packet_in env now v oPort n heap h d c ni ni' \<longleftrightarrow>
     (\<exists>pid r. ne_router_id env (int d) (int v) = Inr r
        \<and> ni_niOutVcs ni' ! c = (ni_niOutVcs ni ! c)\<lparr>fb_buffer := fb_buffer (ni_niOutVcs ni ! c)
           @ packet_flits now pid (int c) (int v) (packet_route (ni_id ni) (int v) oPort (msg_Destination (heap ! h)) d r) n h
               (MessageSizeType_to_int env (msg_MessageSize (heap ! h))) (op_bitWidth oPort) (tick_diff now (msg_time (heap ! h)))\<rparr>)
     \<and> ni_outVcState ni' ! c = ov_setState ACTIVE now (ni_outVcState ni ! c) \<and> ni_out_vcs_enqueue_time ni' ! c = now"

definition channel_same :: "nat \<Rightarrow> 'p NetworkInterface \<Rightarrow> 'p NetworkInterface \<Rightarrow> bool" where
  "channel_same c ni ni' \<longleftrightarrow> ni_niOutVcs ni' ! c = ni_niOutVcs ni ! c \<and> ni_outVcState ni' ! c = ni_outVcState ni ! c
     \<and> ni_out_vcs_enqueue_time ni' ! c = ni_out_vcs_enqueue_time ni ! c"

definition injected_all ::
  "net_env \<Rightarrow> Tick \<Rightarrow> nat \<Rightarrow> OutputPort \<Rightarrow> nat \<Rightarrow> bool \<Rightarrow> nat list \<Rightarrow> nat list
     \<Rightarrow> 'p Message \<times> 'p NetworkInterface \<times> 'p Message list \<times> net_stats
     \<Rightarrow> 'p Message \<times> 'p NetworkInterface \<times> 'p Message list \<times> net_stats \<Rightarrow> bool" where
  "injected_all env now v oPort n many ds vcs = (\<lambda>(msg, ni, heap, s) (msg', ni', heap', s').
     length vcs = length ds \<and> distinct vcs \<and> (\<forall>k \<in> set vcs. k < ni_vc_per_vnet ni \<and> idle_at now v ni k)
     \<and> msg' = msg\<lparr>msg_Destination := msg_Destination msg'\<rparr>
     \<and> (if many then NetDest_ok (ne_machines env) (msg_Destination msg') \<and> NetDest_elems (msg_Destination msg')
           = NetDest_elems (msg_Destination msg) - {m. node_of (ne_machines env) m \<in> set ds} else msg' = msg)
     \<and> (\<exists>cps. heap' = heap @ cps \<and> length cps = length ds \<and> (\<forall>i < length ds. copy_for (ne_machines env) many msg (ds ! i) (cps ! i)))
     \<and> (\<forall>i < length ds. packet_in env now v oPort n heap' (length heap + i) (ds ! i) (chan v ni (vcs ! i)) ni ni')
     \<and> (\<forall>c. c \<notin> chan v ni ` set vcs \<longrightarrow> channel_same c ni ni')
     \<and> vcs_ok ni' \<and> inj_frame ni ni' \<and> (\<forall>u. u \<noteq> v \<longrightarrow> ni_vc_busy_counter ni' ! u = ni_vc_busy_counter ni ! u)
     \<and> stats_ok (ni_virtual_networks ni) (length (ns_data_traffic s)) s'
     \<and> ns_packets_injected s' = (ns_packets_injected s)[v := ns_packets_injected s ! v + length ds]
     \<and> ns_flits_injected s' = (ns_flits_injected s)[v := ns_flits_injected s ! v + length ds * n])"

lemma injected_all_start:
  assumes "vcs_ok ni" and "stats_ok (ni_virtual_networks ni) (length (ns_data_traffic s)) s" and "v < ni_virtual_networks ni"
    and "many \<longrightarrow> NetDest_ok (ne_machines env) (msg_Destination msg)"
  shows "injected_all env now v oPort n many [] [] (msg, ni, heap, s) (msg, ni, heap, s)"
proof -
  have "inj_frame ni ni" by (cases ni) (simp add: inj_frame_def)
  then show ?thesis using assms by (simp add: injected_all_def channel_same_def)
qed

lemma injected_all_busy:
  assumes "injected_all env now v oPort n many ds vcs init (msg, ni, heap, s)"
    and "\<forall>a \<in> set al. 0 \<le> a \<and> a < int (ni_vc_per_vnet ni)" and "length al = ni_virtual_networks ni"
  shows "injected_all env now v oPort n many ds vcs init
    (msg, ni\<lparr>ni_vc_allocator := al, ni_vc_busy_counter := (ni_vc_busy_counter ni)[v := x]\<rparr>, heap, s)"
proof -
  obtain msg0 ni0 heap0 s0 where i: "init = (msg0, ni0, heap0, s0)" by (cases init) auto
  let ?ni = "ni\<lparr>ni_vc_allocator := al, ni_vc_busy_counter := (ni_vc_busy_counter ni)[v := x]\<rparr>"
  have "vcs_ok ?ni" if "vcs_ok ni" using that assms(2,3) by (simp add: vcs_ok_def)
  moreover have "inj_frame ni ?ni" by (cases ni) (simp add: inj_frame_def)
  ultimately show ?thesis using assms(1) unfolding i injected_all_def
    by (auto simp: packet_in_def channel_same_def intro: inj_frame_trans)
qed

text \<open>What one packet does to the channels.\<close>

lemma injected_fields [simp]:
  "ni_vc_allocator (injected env now v oPort n d r c cp h ni pid) = ni_vc_allocator ni"
  "ni_vc_busy_counter (injected env now v oPort n d r c cp h ni pid) = ni_vc_busy_counter ni"
  "ni_virtual_networks (injected env now v oPort n d r c cp h ni pid) = ni_virtual_networks ni"
  "ni_vc_per_vnet (injected env now v oPort n d r c cp h ni pid) = ni_vc_per_vnet ni"
  by (simp_all add: injected_def)

lemma injected_ok:
  assumes "vcs_ok ni" and "c < ni_vc_per_vnet ni * ni_virtual_networks ni"
  shows "vcs_ok (injected env now v oPort n d r c cp h ni pid)" and "inj_frame ni (injected env now v oPort n d r c cp h ni pid)"
    and "c' \<noteq> c \<Longrightarrow> channel_same c' ni (injected env now v oPort n d r c cp h ni pid)"
    and "ne_router_id env (int d) (int v) = Inr r \<Longrightarrow> heap ! h = cp \<Longrightarrow> packet_in env now v oPort n heap h d c ni (injected env now v oPort n d r c cp h ni pid)"
proof -
  have l: "c < length (ni_outVcState ni)" "c < length (ni_niOutVcs ni)" "c < length (ni_out_vcs_enqueue_time ni)" using assms by (auto simp: vcs_ok_def)
  have "\<forall>w \<in> set ((ni_outVcState ni)[c := ov_setState ACTIVE now (ni_outVcState ni ! c)]). 0 \<le> ov_credit_count w \<and> ov_credit_count w \<le> ov_max_credit_count w"
    by (rule ball_update) (use assms l in \<open>auto simp: vcs_ok_def ov_setState_def\<close>)
  then show "vcs_ok (injected env now v oPort n d r c cp h ni pid)" using assms(1) by (simp add: vcs_ok_def) (simp add: injected_def)
  show "inj_frame ni (injected env now v oPort n d r c cp h ni pid)" by (cases ni) (simp add: inj_frame_def injected_def)
  show "channel_same c' ni (injected env now v oPort n d r c cp h ni pid)" if "c' \<noteq> c" using that by (simp add: channel_same_def injected_def)
  show "packet_in env now v oPort n heap h d c ni (injected env now v oPort n d r c cp h ni pid)" if "ne_router_id env (int d) (int v) = Inr r" "heap ! h = cp"
    using that l by (auto simp: packet_in_def injected_def)
qed

lemma packet_in_same:
  "packet_in env now v oPort n heap h d c ni ni' \<Longrightarrow> channel_same c ni' ni'' \<Longrightarrow> h < length heap \<Longrightarrow> packet_in env now v oPort n (heap @ cs) h d c ni ni''"
  by (auto simp: packet_in_def channel_same_def nth_append)

lemma packet_in_from:
  "packet_in env now v oPort n heap h d c ni' ni'' \<Longrightarrow> channel_same c ni ni' \<Longrightarrow> ni_id ni' = ni_id ni \<Longrightarrow> packet_in env now v oPort n heap h d c ni ni''"
  by (auto simp: packet_in_def channel_same_def)

lemma channel_same_trans: "channel_same c a b \<Longrightarrow> channel_same c b d \<Longrightarrow> channel_same c a d"
  by (simp add: channel_same_def)

definition routable :: "net_env \<Rightarrow> nat \<Rightarrow> nat \<Rightarrow> nat \<Rightarrow> bool" where
  "routable env R v d \<longleftrightarrow> (\<exists>r < R. ne_router_id env (int d) (int v) = Inr (int r))"

lemma injected_all_step:
  assumes I: "injected_all env now v oPort n many ds vcs (msg0, ni0, heap0, s0) (msg, ni, heap, s)"
    and v: "v < ni_virtual_networks ni0" and k: "k < ni_vc_per_vnet ni" "idle_at now v ni k"
    and rt: "routable env (length (ns_data_traffic s0)) v d" "op_routerID oPort = int q" "q < length (ns_data_traffic s0)"
    and d: "many \<longrightarrow> d \<notin> set ds \<and> NetDest_ok (ne_machines env) (msg_Destination msg0) \<and> d \<in> node_of (ne_machines env) ` NetDest_elems (msg_Destination msg0)"
  shows "\<exists>msg' ni' heap' s'. inject_packet env now (int v) oPort n many (int (chan v ni k)) d (msg, ni, heap, s) = Inr (msg', ni', heap', s')
    \<and> injected_all env now v oPort n many (ds @ [d]) (vcs @ [k]) (msg0, ni0, heap0, s0) (msg', ni', heap', s')
    \<and> ni_vc_busy_counter ni' = ni_vc_busy_counter ni"
proof -
  let ?mc = "ne_machines env" and ?R = "length (ns_data_traffic s0)"
  from I have ok: "length vcs = length ds" "distinct vcs" "\<forall>k \<in> set vcs. k < ni_vc_per_vnet ni0 \<and> idle_at now v ni0 k"
      "msg = msg0\<lparr>msg_Destination := msg_Destination msg\<rparr>" "\<forall>i < length ds. packet_in env now v oPort n heap (length heap0 + i) (ds ! i) (chan v ni0 (vcs ! i)) ni0 ni"
      "\<forall>c. c \<notin> chan v ni0 ` set vcs \<longrightarrow> channel_same c ni0 ni" "vcs_ok ni" "inj_frame ni0 ni" "\<forall>u. u \<noteq> v \<longrightarrow> ni_vc_busy_counter ni ! u = ni_vc_busy_counter ni0 ! u"
      "stats_ok (ni_virtual_networks ni0) ?R s" "ns_packets_injected s = (ns_packets_injected s0)[v := ns_packets_injected s0 ! v + length ds]"
      "ns_flits_injected s = (ns_flits_injected s0)[v := ns_flits_injected s0 ! v + length ds * n]"
    and md: "if many then NetDest_ok ?mc (msg_Destination msg) \<and> NetDest_elems (msg_Destination msg)
           = NetDest_elems (msg_Destination msg0) - {m. node_of ?mc m \<in> set ds} else msg = msg0"
    and cps: "\<exists>cps. heap = heap0 @ cps \<and> length cps = length ds \<and> (\<forall>i < length ds. copy_for ?mc many msg0 (ds ! i) (cps ! i))"
    by (auto simp: injected_all_def)
  from cps obtain cps where cps: "heap = heap0 @ cps" "length cps = length ds" "\<forall>i < length ds. copy_for ?mc many msg0 (ds ! i) (cps ! i)" by blast
  note fr = inj_frameD [OF ok(8)]
  let ?c = "chan v ni k"
  have c: "?c < ni_vc_per_vnet ni * ni_virtual_networks ni" using vc_index v k(1) fr(2) by simp
  have fresh: "k \<notin> set vcs"
  proof
    assume "k \<in> set vcs"
    then obtain i where "i < length ds" "vcs ! i = k" using ok(1) by (auto simp: in_set_conv_nth)
    then have "ni_outVcState ni ! ?c = ov_setState ACTIVE now (ni_outVcState ni0 ! ?c)" using ok(5) fr(3) by (auto simp: packet_in_def)
    with k(2) show False by (simp add: idle_at_def ov_isInState_def ov_setState_def)
  qed
  then have "chan v ni0 k \<notin> chan v ni0 ` set vcs" by auto
  then have same: "channel_same ?c ni0 ni" using ok(6) fr(3) by simp
  have idle0: "k < ni_vc_per_vnet ni0 \<and> idle_at now v ni0 k" using k same fr(3) by (simp add: idle_at_def channel_same_def)
  from rt(1) obtain r where r: "r < ?R" "ne_router_id env (int d) (int v) = Inr (int r)" by (auto simp: routable_def)
  obtain M where M: "if many then \<exists>m. d = node_of ?mc m \<and> m \<in> NetDest_elems (msg_Destination msg) \<and> NetDest_ok ?mc (msg_Destination msg) \<and> M = {m} else M = {}"
    using d md by (cases many) auto
  have st: "stats_ok (ni_virtual_networks ni) ?R s" "v < ni_virtual_networks ni" using ok(10) fr(2) v by simp_all
  from inject_packet_spec [OF ok(7) c st(2,1) r(2,1) rt(2,3) M, of now n heap] obtain cp rest s' pid where
    p: "inject_packet env now (int v) oPort n many (int ?c) d (msg, ni, heap, s) =
        Inr (msg\<lparr>msg_Destination := rest\<rparr>, injected env now v oPort n d (int r) ?c cp (length heap) ni pid, heap @ [cp], s')"
      "cp = msg\<lparr>msg_Destination := msg_Destination cp\<rparr>"
      "if many then NetDest_ok ?mc (msg_Destination cp) \<and> NetDest_elems (msg_Destination cp) = M
           \<and> NetDest_ok ?mc rest \<and> NetDest_elems rest = NetDest_elems (msg_Destination msg) - M else cp = msg \<and> rest = msg_Destination msg"
      "stats_ok (ni_virtual_networks ni) ?R s'" "ns_packets_injected s' = (ns_packets_injected s)[v := ns_packets_injected s ! v + 1]"
      "ns_flits_injected s' = (ns_flits_injected s)[v := ns_flits_injected s ! v + n]" by blast
  let ?ni = "injected env now v oPort n d (int r) ?c cp (length heap) ni pid"
  note inj = injected_ok [OF ok(7) c, where env = env and now = now and v = v and oPort = oPort and n = n and d = d
      and r = "int r" and cp = cp and h = "length heap" and pid = pid]
  have Mset: "M = {m. MachineID_ok ?mc m \<and> node_of ?mc m = d}" if many
  proof -
    from M that obtain m where m: "d = node_of ?mc m" "m \<in> NetDest_elems (msg_Destination msg)" "NetDest_ok ?mc (msg_Destination msg)" "M = {m}" by auto
    have mc: "machine_conf_ok ?mc" using m(3) by (simp add: NetDest_ok_def)
    show ?thesis using node_of_inj [OF mc _ NetDest_ok_elemsD [OF m(3,2)]] NetDest_ok_elemsD [OF m(3,2)] m(1,4) by auto
  qed
  have msg': "msg\<lparr>msg_Destination := x\<rparr> = msg0\<lparr>msg_Destination := x\<rparr>" for x by (subst ok(4)) simp
  have cp0: "cp = msg0\<lparr>msg_Destination := msg_Destination cp\<rparr>" using p(2) msg' by metis
  have dest: "if many then NetDest_ok ?mc rest \<and> NetDest_elems rest = NetDest_elems (msg_Destination msg0) - {m. node_of ?mc m \<in> set (ds @ [d])}
      else msg\<lparr>msg_Destination := rest\<rparr> = msg0"
  proof (cases many)
    case True
    then have "NetDest_elems rest = NetDest_elems (msg_Destination msg0) - {m. node_of ?mc m \<in> set ds} - {m. MachineID_ok ?mc m \<and> node_of ?mc m = d}"
      using p(3) md Mset by simp
    moreover have "\<forall>m \<in> NetDest_elems (msg_Destination msg0). MachineID_ok ?mc m" using d True NetDest_ok_elemsD by blast
    ultimately show ?thesis using True p(3) by auto
  qed (use p(3) md in simp)
  have cpn: "copy_for ?mc many msg0 d cp" using cp0 p(3) Mset md by (cases many) (simp_all add: copy_for_def)
  have copies: "\<exists>cs. heap @ [cp] = heap0 @ cs \<and> length cs = length (ds @ [d]) \<and> (\<forall>i < length (ds @ [d]). copy_for ?mc many msg0 ((ds @ [d]) ! i) (cs ! i))"
    using cps cpn by (intro exI [of _ "cps @ [cp]"]) (auto simp: nth_append less_Suc_eq)
  have pk: "packet_in env now v oPort n (heap @ [cp]) (length heap0 + i) ((ds @ [d]) ! i) (chan v ni0 ((vcs @ [k]) ! i)) ni0 ?ni" if i: "i < length (ds @ [d])" for i
  proof (cases "i < length ds")
    case True
    then have "vcs ! i \<in> set vcs" using ok(1) by simp
    then have ne: "chan v ni0 (vcs ! i) \<noteq> ?c" using fresh fr(3) by auto
    have "packet_in env now v oPort n (heap @ [cp]) (length heap0 + i) (ds ! i) (chan v ni0 (vcs ! i)) ni0 ?ni"
      by (rule packet_in_same [OF _ inj(3) [OF ne]]) (use ok(5) True cps(1,2) in auto)
    then show ?thesis using True ok(1) by (simp add: nth_append)
  next
    case False
    then have il: "i = length ds" using i by simp
    have "packet_in env now v oPort n (heap @ [cp]) (length heap) d ?c ni ?ni" by (rule inj(4) [OF r(2)]) simp
    from packet_in_from [OF this same fr(1)] show ?thesis using il ok(1) cps(1,2) fr(3) by (simp add: nth_append)
  qed
  have other: "channel_same c' ni0 ?ni" if "c' \<notin> chan v ni0 ` set (vcs @ [k])" for c'
    using that ok(6) inj(3) [of c'] fr(3) by (auto intro: channel_same_trans)
  have cnt: "ns_packets_injected s' = (ns_packets_injected s0)[v := ns_packets_injected s0 ! v + length (ds @ [d])]"
     "ns_flits_injected s' = (ns_flits_injected s0)[v := ns_flits_injected s0 ! v + length (ds @ [d]) * n]"
    using p(4-6) ok(11,12) st(2) ok(10) v by (simp_all add: stats_ok_def ac_simps)
  have "injected_all env now v oPort n many (ds @ [d]) (vcs @ [k]) (msg0, ni0, heap0, s0) (msg\<lparr>msg_Destination := rest\<rparr>, ?ni, heap @ [cp], s')"
    unfolding injected_all_def prod.case
  proof (intro conjI)
    show "\<forall>x \<in> set (vcs @ [k]). x < ni_vc_per_vnet ni0 \<and> idle_at now v ni0 x" using ok(3) idle0 by simp
    show "if many then NetDest_ok ?mc (msg_Destination (msg\<lparr>msg_Destination := rest\<rparr>))
        \<and> NetDest_elems (msg_Destination (msg\<lparr>msg_Destination := rest\<rparr>)) = NetDest_elems (msg_Destination msg0) - {m. node_of ?mc m \<in> set (ds @ [d])}
      else msg\<lparr>msg_Destination := rest\<rparr> = msg0" using dest by simp
    show "\<forall>i < length (ds @ [d]). packet_in env now v oPort n (heap @ [cp]) (length heap0 + i) ((ds @ [d]) ! i) (chan v ni0 ((vcs @ [k]) ! i)) ni0 ?ni"
      using pk by blast
    show "\<forall>c. c \<notin> chan v ni0 ` set (vcs @ [k]) \<longrightarrow> channel_same c ni0 ?ni" using other by blast
  qed (use ok(1,2,9) fresh msg' [of rest] copies inj(1) inj_frame_trans [OF ok(8) inj(2)] p(4) cnt fr(2) in simp_all)
  moreover have "ni_vc_busy_counter ?ni = ni_vc_busy_counter ni" by simp
  ultimately show ?thesis using p(1) by blast
qed

lemma find_idle_Some:
  assumes "find (\<lambda>j. idle_at now v ni (rotated v ni j)) [0..<ni_vc_per_vnet ni] = Some j" and "vcs_ok ni"
  shows "rotated v ni j < ni_vc_per_vnet ni" and "idle_at now v ni (rotated v ni j)"
  using assms by (auto simp: find_Some_iff rotated_less)

lemma find_idle_None:
  assumes "find (\<lambda>j. idle_at now v ni (rotated v ni j)) [0..<ni_vc_per_vnet ni] = None" and "vcs_ok ni" and "k < ni_vc_per_vnet ni"
  shows "\<not> idle_at now v ni k"
  using assms(1) rotated_onto [OF assms(2,3), of v] by (auto simp: find_None_iff)

lemma flitisize_dests_spec:
  assumes I: "injected_all env now v oPort n many ds0 vcs (msg0, ni0, heap0, s0) (msg, ni, heap, s)"
    and v: "v < ni_virtual_networks ni0" and th: "0 < ni_deadlock_threshold ni0" "ni_vc_busy_counter ni ! v < ni_deadlock_threshold ni0"
    and rt: "\<forall>d \<in> set ds. routable env (length (ns_data_traffic s0)) v d" "op_routerID oPort = int q" "q < length (ns_data_traffic s0)"
    and d: "many \<longrightarrow> distinct (ds0 @ ds) \<and> NetDest_ok (ne_machines env) (msg_Destination msg0)
       \<and> set ds \<subseteq> node_of (ne_machines env) ` NetDest_elems (msg_Destination msg0)"
  shows "\<exists>sent msg' ni' heap' s' k vcs'. flitisize_dests env now (int v) oPort n many ds (msg, ni, heap, s) = Inr (sent, msg', ni', heap', s')
    \<and> k \<le> length ds \<and> injected_all env now v oPort n many (ds0 @ take k ds) vcs' (msg0, ni0, heap0, s0) (msg', ni', heap', s')
    \<and> (sent \<longleftrightarrow> k = length ds) \<and> (sent \<or> (\<forall>j < ni_vc_per_vnet ni0. \<not> idle_at now v ni' j))"
  using assms
proof (induction ds arbitrary: ds0 vcs msg ni heap s)
  case Nil
  then show ?case by (intro exI [of _ True] exI [of _ msg] exI [of _ ni] exI [of _ heap] exI [of _ s] exI [of _ 0] exI [of _ vcs]) simp
next
  case (Cons d ds)
  have ok: "vcs_ok ni" "inj_frame ni0 ni" using Cons.prems(1) by (auto simp: injected_all_def)
  note fr = inj_frameD [OF ok(2)]
  have v': "v < ni_virtual_networks ni" using Cons.prems(2) fr(2) by simp
  show ?case
  proof (cases "find (\<lambda>j. idle_at now v ni (rotated v ni j)) [0..<ni_vc_per_vnet ni]")
    case None
    let ?ni = "ni\<lparr>ni_vc_busy_counter := (ni_vc_busy_counter ni)[v := ni_vc_busy_counter ni ! v + 1]\<rparr>"
    have c: "calculateVC now (int v) ni = Inr (-1, ?ni)" using calculateVC_eq(2) [OF ok(1) v' None] Cons.prems(4) fr(6) by simp
    have al: "\<forall>a \<in> set (ni_vc_allocator ni). 0 \<le> a \<and> a < int (ni_vc_per_vnet ni)" "length (ni_vc_allocator ni) = ni_virtual_networks ni"
      using ok(1) by (auto simp: vcs_ok_def)
    have upd: "ni\<lparr>ni_vc_allocator := ni_vc_allocator ni, ni_vc_busy_counter := b\<rparr> = ni\<lparr>ni_vc_busy_counter := b\<rparr>" for b by (cases ni) simp
    have I': "injected_all env now v oPort n many (ds0 @ take 0 (d # ds)) vcs (msg0, ni0, heap0, s0) (msg, ?ni, heap, s)"
      using injected_all_busy [OF Cons.prems(1) al, of "ni_vc_busy_counter ni ! v + 1"] unfolding upd by simp
    have "\<forall>j < ni_vc_per_vnet ni0. \<not> idle_at now v ?ni j" using find_idle_None [OF None ok(1)] fr(3) by (simp add: idle_at_def)
    then show ?thesis using c I' by (intro exI [of _ False] exI [of _ msg] exI [of _ ?ni] exI [of _ heap] exI [of _ s] exI [of _ 0] exI [of _ vcs]) simp
  next
    case (Some j)
    let ?k = "rotated v ni j"
    let ?al = "(ni_vc_allocator ni)[v := int (rotated v ni (Suc j))]"
    let ?ni = "ni\<lparr>ni_vc_allocator := ?al, ni_vc_busy_counter := (ni_vc_busy_counter ni)[v := 0]\<rparr>"
    note fs = find_idle_Some [OF Some ok(1)]
    have c: "calculateVC now (int v) ni = Inr (int (chan v ni ?k), ?ni)" by (rule calculateVC_eq(1) [OF ok(1) v' Some])
    have al: "\<forall>a \<in> set ?al. 0 \<le> a \<and> a < int (ni_vc_per_vnet ni)"
      by (rule ball_update) (use ok(1) rotated_less [OF ok(1)] in \<open>auto simp: vcs_ok_def\<close>)
    have "length ?al = ni_virtual_networks ni" using ok(1) by (simp add: vcs_ok_def)
    note I1 = injected_all_busy [OF Cons.prems(1) al this, of 0]
    have k: "?k < ni_vc_per_vnet ?ni" "idle_at now v ?ni ?k" using fs by (simp_all add: idle_at_def)
    have rd: "routable env (length (ns_data_traffic s0)) v d" using Cons.prems(5) by simp
    have dd: "many \<longrightarrow> d \<notin> set ds0 \<and> NetDest_ok (ne_machines env) (msg_Destination msg0) \<and> d \<in> node_of (ne_machines env) ` NetDest_elems (msg_Destination msg0)"
      using Cons.prems(8) by auto
    from injected_all_step [OF I1 Cons.prems(2) k rd Cons.prems(6,7) dd] obtain msg1 ni1 heap1 s1 where
      p: "inject_packet env now (int v) oPort n many (int (chan v ?ni ?k)) d (msg, ?ni, heap, s) = Inr (msg1, ni1, heap1, s1)"
        "injected_all env now v oPort n many (ds0 @ [d]) (vcs @ [?k]) (msg0, ni0, heap0, s0) (msg1, ni1, heap1, s1)"
        "ni_vc_busy_counter ni1 = ni_vc_busy_counter ?ni" by blast
    have "v < length (ni_vc_busy_counter ni)" using ok(1) v' by (simp add: vcs_ok_def)
    then have b1: "ni_vc_busy_counter ni1 ! v < ni_deadlock_threshold ni0" using p(3) Cons.prems(3) by simp
    from Cons.IH [OF p(2) Cons.prems(2,3) b1 _ Cons.prems(6,7)] Cons.prems(5,8) obtain sent msg' ni' heap' s' n' vcs' where
      r: "flitisize_dests env now (int v) oPort n many ds (msg1, ni1, heap1, s1) = Inr (sent, msg', ni', heap', s')"
        "n' \<le> length ds" "injected_all env now v oPort n many ((ds0 @ [d]) @ take n' ds) vcs' (msg0, ni0, heap0, s0) (msg', ni', heap', s')"
        "sent \<longleftrightarrow> n' = length ds" "sent \<or> (\<forall>j < ni_vc_per_vnet ni0. \<not> idle_at now v ni' j)" by auto
    have "int (chan v ni ?k) \<noteq> -1" by linarith
    then have "flitisize_dests env now (int v) oPort n many (d # ds) (msg, ni, heap, s) = Inr (sent, msg', ni', heap', s')"
      using c p(1) r(1) by simp
    then show ?thesis using r(2-5)
      by (intro exI [of _ sent] exI [of _ msg'] exI [of _ ni'] exI [of _ heap'] exI [of _ s'] exI [of _ "Suc n'"] exI [of _ vcs']) simp
  qed
qed

text \<open>The conditions under which an interface can inject on a virtual network: the channels are in order, the output
  port has a width and a router, the destinations have routers, and the deadlock counter is below its threshold.\<close>

definition can_inject :: "net_env \<Rightarrow> nat \<Rightarrow> NetDest \<Rightarrow> 'p NetworkInterface \<Rightarrow> net_stats \<Rightarrow> bool" where
  "can_inject env v nd ni s \<longleftrightarrow> vcs_ok ni \<and> v < ni_virtual_networks ni
     \<and> stats_ok (ni_virtual_networks ni) (length (ns_data_traffic s)) s
     \<and> (\<exists>i q. getOutportForVnet (int v) ni = Some i \<and> op_routerID (ni_outPorts ni ! i) = int q \<and> q < length (ns_data_traffic s)
            \<and> 0 < op_bitWidth (ni_outPorts ni ! i))
     \<and> (\<forall>m \<in> NetDest_elems nd. routable env (length (ns_data_traffic s)) v (node_of (ne_machines env) m))
     \<and> 0 < ni_deadlock_threshold ni \<and> ni_vc_busy_counter ni ! v < ni_deadlock_threshold ni"

definition outport :: "nat \<Rightarrow> 'p NetworkInterface \<Rightarrow> OutputPort" where
  "outport v ni = ni_outPorts ni ! the (getOutportForVnet (int v) ni)"

definition flit_count :: "net_env \<Rightarrow> nat \<Rightarrow> 'p Message \<Rightarrow> 'p NetworkInterface \<Rightarrow> nat" where
  "flit_count env v msg ni = divCeil (MessageSizeType_to_int env (msg_MessageSize msg)) (op_bitWidth (outport v ni))"

lemma flitisizeMessage_spec:
  assumes ok: "can_inject env v (msg_Destination msg) ni s" and nd: "NetDest_ok (ne_machines env) (msg_Destination msg)"
  shows "\<exists>dests k vcs sent msg' ni' heap' s'.
    flitisizeMessage env now (int v) (msg, ni, heap, s) = Inr (sent, msg', ni', heap', s')
    \<and> sorted_wrt (<) dests \<and> set dests = node_of (ne_machines env) ` NetDest_elems (msg_Destination msg)
    \<and> k \<le> length dests \<and> (sent \<longleftrightarrow> k = length dests) \<and> (sent \<or> (\<forall>j < ni_vc_per_vnet ni. \<not> idle_at now v ni' j))
    \<and> injected_all env now v (outport v ni) (flit_count env v msg ni) (length dests > 1) (take k dests) vcs (msg, ni, heap, s) (msg', ni', heap', s')"
proof -
  let ?mc = "ne_machines env" and ?R = "length (ns_data_traffic s)"
  from ok obtain i q where p: "getOutportForVnet (int v) ni = Some i" "op_routerID (ni_outPorts ni ! i) = int q" "q < ?R" "0 < op_bitWidth (ni_outPorts ni ! i)"
    and o: "vcs_ok ni" "v < ni_virtual_networks ni" "stats_ok (ni_virtual_networks ni) ?R s"
      "\<forall>m \<in> NetDest_elems (msg_Destination msg). routable env ?R v (node_of ?mc m)" "0 < ni_deadlock_threshold ni" "ni_vc_busy_counter ni ! v < ni_deadlock_threshold ni"
    by (auto simp: can_inject_def)
  from getAllDest_spec [OF nd] obtain dests where
    D: "NetDest_getAllDest ?mc (msg_Destination msg) = Inr dests" "sorted_wrt (<) dests" "set dests = node_of ?mc ` NetDest_elems (msg_Destination msg)"
    by (auto simp: node_of_def [abs_def])
  let ?many = "length dests > 1" and ?o = "ni_outPorts ni ! i"
  let ?n = "divCeil (MessageSizeType_to_int env (msg_MessageSize msg)) (op_bitWidth ?o)"
  have eq: "outport v ni = ?o" "flit_count env v msg ni = ?n" using p(1) by (simp_all add: outport_def flit_count_def)
  have I: "injected_all env now v ?o ?n ?many [] [] (msg, ni, heap, s) (msg, ni, heap, s)"
    by (rule injected_all_start) (use o nd in simp_all)
  have rt: "\<forall>d \<in> set dests. routable env ?R v d" using o(4) D(3) by auto
  have dd: "?many \<longrightarrow> distinct ([] @ dests) \<and> NetDest_ok ?mc (msg_Destination msg) \<and> set dests \<subseteq> node_of ?mc ` NetDest_elems (msg_Destination msg)"
    using D(2,3) nd by (simp add: strict_sorted_iff)
  from flitisize_dests_spec [OF I o(2,5,6) rt p(2,3) dd] obtain sent msg' ni' heap' s' k vcs' where
    r: "flitisize_dests env now (int v) ?o ?n ?many dests (msg, ni, heap, s) = Inr (sent, msg', ni', heap', s')"
      "k \<le> length dests" "injected_all env now v ?o ?n ?many ([] @ take k dests) vcs' (msg, ni, heap, s) (msg', ni', heap', s')"
      "sent \<longleftrightarrow> k = length dests" "sent \<or> (\<forall>j < ni_vc_per_vnet ni. \<not> idle_at now v ni' j)" by blast
  have "flitisizeMessage env now (int v) (msg, ni, heap, s) = Inr (sent, msg', ni', heap', s')"
    using D(1) p(1,4) r(1) by (simp add: flitisizeMessage_def Let_def)
  then show ?thesis using r(2-5) D(2,3) unfolding eq by auto
qed

text \<open>Claim C23. A multicast is split into one packet per destination. On an interface that can inject,
  \<open>flitisizeMessage\<close> returns without an error after serving some first \<open>k\<close> of the destinations in increasing node order,
  all of them exactly when it answers true. Each served destination has its own copy of the message, addressed to it
  alone, and its own channel of the virtual network, which was idle and is now active and holds the flits of the packet
  behind what it held before, routed to the router of the destination; every other channel is untouched. If the answer is
  false, the message keeps exactly the destinations that are not served yet, and no channel of the virtual network is idle.\<close>

theorem multicast_split:
  assumes "can_inject env v (msg_Destination msg) ni s" and "NetDest_ok (ne_machines env) (msg_Destination msg)"
  shows "\<exists>dests k vcs sent msg' ni' cps s'.
    flitisizeMessage env now (int v) (msg, ni, heap, s) = Inr (sent, msg', ni', heap @ cps, s')
    \<and> sorted_wrt (<) dests \<and> set dests = node_of (ne_machines env) ` NetDest_elems (msg_Destination msg)
    \<and> k \<le> length dests \<and> (sent \<longleftrightarrow> k = length dests) \<and> length cps = k \<and> length vcs = k
    \<and> (\<forall>i < k. cps ! i = msg\<lparr>msg_Destination := msg_Destination (cps ! i)\<rparr>
         \<and> NetDest_elems (msg_Destination (cps ! i)) = {m \<in> NetDest_elems (msg_Destination msg). node_of (ne_machines env) m = dests ! i})
    \<and> distinct vcs \<and> (\<forall>j \<in> set vcs. j < ni_vc_per_vnet ni \<and> idle_at now v ni j)
    \<and> (\<forall>i < k. packet_in env now v (outport v ni) (flit_count env v msg ni) (heap @ cps) (length heap + i) (dests ! i)
          (chan v ni (vcs ! i)) ni ni')
    \<and> (\<forall>c. c \<notin> chan v ni ` set vcs \<longrightarrow> channel_same c ni ni')
    \<and> ns_packets_injected s' = (ns_packets_injected s)[v := ns_packets_injected s ! v + k]
    \<and> (\<not> sent \<longrightarrow> (\<forall>j < ni_vc_per_vnet ni. \<not> idle_at now v ni' j)
         \<and> NetDest_elems (msg_Destination msg') = {m \<in> NetDest_elems (msg_Destination msg). node_of (ne_machines env) m \<notin> set (take k dests)})"
proof -
  let ?mc = "ne_machines env"
  from flitisizeMessage_spec [OF assms, of now heap] obtain dests k vcs sent msg' ni' heap' s' where
    f: "flitisizeMessage env now (int v) (msg, ni, heap, s) = Inr (sent, msg', ni', heap', s')" "sorted_wrt (<) dests"
      "set dests = node_of ?mc ` NetDest_elems (msg_Destination msg)" "k \<le> length dests" "sent \<longleftrightarrow> k = length dests"
      "sent \<or> (\<forall>j < ni_vc_per_vnet ni. \<not> idle_at now v ni' j)"
      and I: "injected_all env now v (outport v ni) (flit_count env v msg ni) (length dests > 1) (take k dests) vcs (msg, ni, heap, s) (msg', ni', heap', s')"
    by - (elim exE conjE, rule that; assumption)
  have lk: "length (take k dests) = k" using f(4) by simp
  from I obtain cps where c: "heap' = heap @ cps" "length cps = k" "\<forall>i < k. copy_for ?mc (length dests > 1) msg (take k dests ! i) (cps ! i)"
    unfolding injected_all_def prod.case lk by blast
  have one: "NetDest_elems (msg_Destination (cps ! i)) = {m \<in> NetDest_elems (msg_Destination msg). node_of ?mc m = dests ! i}" if i: "i < k" for i
  proof (cases "length dests > 1")
    case True
    have "dests ! i \<in> node_of ?mc ` NetDest_elems (msg_Destination msg)" using i f(3,4) by (metis less_le_trans nth_mem)
    then obtain x where x: "x \<in> NetDest_elems (msg_Destination msg)" "dests ! i = node_of ?mc x" by blast
    have mc: "machine_conf_ok ?mc" using assms(2) by (simp add: NetDest_ok_def)
    have "NetDest_elems (msg_Destination (cps ! i)) = {m. MachineID_ok ?mc m \<and> node_of ?mc m = dests ! i}" using c(3) i True by (auto simp: copy_for_def)
    then show ?thesis using x NetDest_ok_elemsD [OF assms(2)] node_of_inj [OF mc] by auto
  next
    case False
    then have "length dests = 1" "i = 0" using i f(4) by linarith+
    then have "set dests = {dests ! i}" by (cases dests) auto
    then have "\<forall>m \<in> NetDest_elems (msg_Destination msg). node_of ?mc m = dests ! i" using f(3) by blast
    then show ?thesis using c(3) i False by (auto simp: copy_for_def)
  qed
  have cp: "cps ! i = msg\<lparr>msg_Destination := msg_Destination (cps ! i)\<rparr>" if "i < k" for i using c(3) that by (auto simp: copy_for_def)
  have "packet_in env now v (outport v ni) (flit_count env v msg ni) (heap @ cps) (length heap + i) (dests ! i) (chan v ni (vcs ! i)) ni ni'" if "i < k" for i
    using I that unfolding injected_all_def prod.case lk c(1) by simp
  moreover have "NetDest_elems (msg_Destination msg') = {m \<in> NetDest_elems (msg_Destination msg). node_of ?mc m \<notin> set (take k dests)}" if "\<not> sent"
  proof (cases "length dests > 1")
    case True
    then show ?thesis using I unfolding injected_all_def prod.case by auto
  next
    case False
    then have "k = 0" using that f(4,5) by linarith
    then show ?thesis using I False unfolding injected_all_def prod.case by simp
  qed
  ultimately show ?thesis using I f c(1,2) one cp unfolding injected_all_def prod.case lk
    by (intro exI [of _ dests] exI [of _ k] exI [of _ vcs] exI [of _ sent] exI [of _ msg'] exI [of _ ni'] exI [of _ cps] exI [of _ s'] conjI) (simp | blast)+
qed

section \<open>A concrete interface\<close>

text \<open>Node 3 of a network with two virtual networks of one channel each, attached to router 1, and a data message for the
  nodes 0 and 2.\<close>

definition demo_env :: net_env where
  "demo_env = \<lparr>ne_conf = sample_conf, ne_machines = small_conf, ne_control_msg_size = 128, ne_data_msg_size = 576,
     ne_ordered = (\<lambda>_. False), ne_router_id = (\<lambda>n v. Inr n), ne_flags = demo_flags, ne_draw = (\<lambda>_ _. 0)\<rparr>"

definition demo_ni :: "nat NetworkInterface" where
  "demo_ni = (case ni_addOutPort sample_conf (NetworkLink_new 0 1 2 [] 128) (NetworkLink_new 1 1 2 [] 128) 1 1 [] (NetworkInterface_new 3 2 50) of
     Inr (_, _, _, ni) \<Rightarrow> ni | Inl _ \<Rightarrow> NetworkInterface_new 3 2 50)"

definition demo_stats :: "nat \<Rightarrow> nat \<Rightarrow> net_stats" where
  "demo_stats V R = \<lparr>ns_packets_received = replicate V 0, ns_packets_injected = replicate V 0, ns_packet_network_latency = replicate V 0,
     ns_packet_queueing_latency = replicate V 0, ns_flits_received = replicate V 0, ns_flits_injected = replicate V 0,
     ns_flit_network_latency = replicate V 0, ns_flit_queueing_latency = replicate V 0, ns_total_hops = 0,
     ns_data_traffic = replicate R (replicate R 0), ns_ctrl_traffic = replicate R (replicate R 0), ns_next_packet_id = 0\<rparr>"

definition demo_msg :: "nat Message" where
  "demo_msg = (demo_message 7 0)\<lparr>msg_Destination := small_dest, msg_MessageSize := MST_Data\<rparr>"

lemma demo_ni_eq: "demo_ni = (NetworkInterface_new 3 2 50)\<lparr>ni_vc_per_vnet := 1, ni_niOutVcs := [flitBuffer_new, flitBuffer_new],
    ni_out_vcs_enqueue_time := [INFINITE, INFINITE],
    ni_outVcState := [\<lparr>ov_id = 0, ov_time = 0, ov_vc_state = IDLE, ov_credit_count = 1, ov_max_credit_count = 1\<rparr>,
       \<lparr>ov_id = 1, ov_time = 0, ov_vc_state = IDLE, ov_credit_count = 1, ov_max_credit_count = 1\<rparr>],
    ni_outPorts := [OutputPort_new (NetworkLink_new 0 1 2 [] 128) 1]\<rparr>"
  by (simp add: demo_ni_def ni_addOutPort_def NetworkInterface_new_def OutVcState_new_def sample_conf_def upt_rec Let_def numeral_2_eq_2)

lemma demo_ni_facts:
  "vcs_ok demo_ni" "ni_virtual_networks demo_ni = 2" "ni_vc_per_vnet demo_ni = 1" "idle_at now 1 demo_ni 0"
  "getOutportForVnet 1 demo_ni = Some 0" "ni_outPorts demo_ni = [OutputPort_new (NetworkLink_new 0 1 2 [] 128) 1]"
  "ni_deadlock_threshold demo_ni = 50" "ni_vc_busy_counter demo_ni = [0, 0]"
  by (simp_all add: demo_ni_eq NetworkInterface_new_def vcs_ok_def idle_at_def ov_isInState_def getOutportForVnet_def OutputPort_new_def
      NetworkLink_new_def isVnetSupported_def numeral_2_eq_2)

lemma demo_stats_ok: "stats_ok V R (demo_stats V R)"
  by (simp add: stats_ok_def demo_stats_def)

lemma demo_can_inject: "can_inject demo_env 1 small_dest demo_ni (demo_stats 2 4)"
proof -
  have "node_of small_conf m < 4" if "m \<in> NetDest_elems small_dest" for m
    using NetDest_ok_elemsD [OF small_dest_ok that]
    by (cases m) (auto simp: MachineID_ok_def node_of_def small_conf_def less_2_cases_iff split: if_splits)
  then have "\<forall>m \<in> NetDest_elems small_dest. routable demo_env 4 1 (node_of small_conf m)" by (auto simp: routable_def demo_env_def)
  then show ?thesis
    using demo_stats_ok [of 2 4] unfolding can_inject_def demo_ni_facts
    by (auto simp: demo_ni_facts OutputPort_new_def NetworkLink_new_def demo_env_def demo_stats_def)
qed

theorem calculateVC_round_robin_witness:
  "vcs_ok demo_ni \<and> (\<exists>j. calculateVC 500 (int 1) demo_ni = Inr (int (1 * ni_vc_per_vnet demo_ni + rotated 1 demo_ni j),
     demo_ni\<lparr>ni_vc_allocator := (ni_vc_allocator demo_ni)[1 := int (rotated 1 demo_ni (Suc j))], ni_vc_busy_counter := (ni_vc_busy_counter demo_ni)[1 := 0]\<rparr>))"
  using calculateVC_round_robin [OF demo_ni_facts(1), of 1 500] demo_ni_facts(1-4) by auto

theorem multicast_split_witness:
  "can_inject demo_env 1 small_dest demo_ni (demo_stats 2 4) \<and> (\<exists>dests k sent msg' ni' cps s'.
     flitisizeMessage demo_env 500 (int 1) (demo_msg, demo_ni, [], demo_stats 2 4) = Inr (sent, msg', ni', [] @ cps, s')
     \<and> set dests = node_of small_conf ` NetDest_elems small_dest \<and> length cps = k \<and> (sent \<longleftrightarrow> k = length dests)
     \<and> ns_packets_injected s' = (ns_packets_injected (demo_stats 2 4))[1 := ns_packets_injected (demo_stats 2 4) ! 1 + k])"
proof -
  have d: "msg_Destination demo_msg = small_dest" "ne_machines demo_env = small_conf" by (simp_all add: demo_msg_def demo_env_def)
  show ?thesis
    using multicast_split [of demo_env 1 demo_msg demo_ni "demo_stats 2 4" 500 "[]", unfolded d, OF demo_can_inject small_dest_ok] demo_can_inject
    by (elim exE conjE) (rule conjI, assumption, intro exI conjI; assumption)
qed

end
