(* ===== verification/Interface_Safety.thy ===== *)
theory Interface_Safety
  imports Interface_Injection
begin

text \<open>
  The type invariant of a network interface (what its buffers, queues and counters hold) and its preservation by every
  part of a wake-up, none of which fails an assertion or accesses anything out of range.
\<close>

section \<open>The invariant\<close>

text \<open>A flit in the buffer of channel \<open>c\<close>.\<close>

definition flit_fits :: "'p NetworkInterface \<Rightarrow> nat \<Rightarrow> flit \<Rightarrow> bool" where
  "flit_fits ni c f \<longleftrightarrow> f_vc f = int c \<and> f_vnet f = int (c div ni_vc_per_vnet ni) \<and> f_type f \<noteq> CREDIT
     \<and> f_width f = op_bitWidth (outport (c div ni_vc_per_vnet ni) ni)"

definition bufs_ok :: "'p NetworkInterface \<Rightarrow> bool" where
  "bufs_ok ni \<longleftrightarrow> (\<forall>c < length (ni_niOutVcs ni). \<forall>f \<in> set (fb_buffer (ni_niOutVcs ni ! c)). flit_fits ni c f)"

text \<open>An output port with \<open>K\<close> channels: what waits in its queue fits its link.\<close>

definition port_ok :: "nat \<Rightarrow> OutputPort \<Rightarrow> bool" where
  "port_ok K p \<longleftrightarrow> 0 \<le> op_vcRoundRobin p \<and> op_vcRoundRobin p < int K \<and> 0 < op_bitWidth p
     \<and> (\<forall>f \<in> set (fb_buffer (op_outFlitQueue p)). f_width f = op_bitWidth p \<and> isVnetSupported (op_vnets p) (f_vnet f)
          \<and> 0 \<le> f_vc f \<and> f_vc f < int K)"

definition ports_ok :: "nat \<Rightarrow> 'p NetworkInterface \<Rightarrow> bool" where
  "ports_ok R ni \<longleftrightarrow> (\<forall>v < ni_virtual_networks ni. getOutportForVnet (int v) ni \<noteq> None)
     \<and> (\<forall>p \<in> set (ni_outPorts ni). port_ok (ni_vc_per_vnet ni * ni_virtual_networks ni) p \<and> 0 \<le> op_routerID p \<and> op_routerID p < int R)"

text \<open>The message buffers: the messages that come from the protocol have routable destinations, and an ordered buffer
  towards the protocol has promised no arrival after \<open>t\<close>.\<close>

definition msg_fits :: "net_env \<Rightarrow> nat \<Rightarrow> nat \<Rightarrow> 'p Message \<Rightarrow> bool" where
  "msg_fits env R v m \<longleftrightarrow> NetDest_ok (ne_machines env) (msg_Destination m)
     \<and> (\<forall>x \<in> NetDest_elems (msg_Destination m). routable env R v (node_of (ne_machines env) x))"

definition inNode_ok :: "net_env \<Rightarrow> nat \<Rightarrow> Tick \<Rightarrow> nat \<Rightarrow> 'p MessageBuffer option \<Rightarrow> bool" where
  "inNode_ok env R now v bo \<longleftrightarrow> (\<forall>b. bo = Some b \<longrightarrow> mb_inv (now, b) \<and> (\<forall>m \<in> set (mb_prio_heap b). msg_fits env R v m))"

definition ins_ok :: "net_env \<Rightarrow> nat \<Rightarrow> Tick \<Rightarrow> 'p NetworkInterface \<Rightarrow> bool" where
  "ins_ok env R now ni \<longleftrightarrow> length (ni_inNode ni) \<le> ni_virtual_networks ni
     \<and> (\<forall>v < length (ni_inNode ni). inNode_ok env R now v (ni_inNode ni ! v))"

definition fifo_ok :: "net_env \<Rightarrow> Tick \<Rightarrow> 'p MessageBuffer \<Rightarrow> bool" where
  "fifo_ok env t b \<longleftrightarrow> (mb_strict_fifo b \<and> (mb_randomization b = Rand_disabled
     \<or> mb_randomization b = Rand_ruby_system \<and> \<not> rf_randomization (ne_flags env)) \<longrightarrow> mb_last_arrival_time b \<le> t)"

definition outNode_ok :: "net_env \<Rightarrow> nat \<Rightarrow> Tick \<Rightarrow> 'p MessageBuffer option \<Rightarrow> bool" where
  "outNode_ok env period now bo \<longleftrightarrow> (\<exists>b. bo = Some b \<and> mb_inv (now, b) \<and> fifo_ok env (now + period) b)"

definition outs_ok :: "net_env \<Rightarrow> nat \<Rightarrow> Tick \<Rightarrow> 'p NetworkInterface \<Rightarrow> bool" where
  "outs_ok env period now ni \<longleftrightarrow> length (ni_outNode ni) = ni_virtual_networks ni \<and> length (ni_stall_count ni) = ni_virtual_networks ni
     \<and> (\<forall>bo \<in> set (ni_outNode ni). outNode_ok env period now bo)"

text \<open>A tail flit on its way to the protocol points to a message.\<close>

definition tail_ok :: "nat \<Rightarrow> Tick \<Rightarrow> 'p Message list \<Rightarrow> flit \<Rightarrow> bool" where
  "tail_ok V now heap f \<longleftrightarrow> 0 \<le> f_vnet f \<and> f_vnet f < int V
     \<and> (\<exists>p < length heap. f_msg_ptr f = Some p \<and> msg_LastEnqueueTime (heap ! p) \<le> now)"

definition stalls_ok :: "Tick \<Rightarrow> 'p Message list \<Rightarrow> 'p NetworkInterface \<Rightarrow> bool" where
  "stalls_ok now heap ni \<longleftrightarrow> (\<forall>p \<in> set (ni_inPorts ni). \<forall>f \<in> set (ip_stall_queue p). tail_ok (ni_virtual_networks ni) now heap f)"

definition ni_ok :: "net_env \<Rightarrow> nat \<Rightarrow> nat \<Rightarrow> Tick \<Rightarrow> 'p Message list \<Rightarrow> 'p NetworkInterface \<Rightarrow> bool" where
  "ni_ok env R period now heap ni \<longleftrightarrow> vcs_ok ni \<and> 0 < ni_virtual_networks ni \<and> 0 < ni_deadlock_threshold ni \<and> bufs_ok ni \<and> ports_ok R ni
     \<and> ins_ok env R now ni \<and> outs_ok env period now ni \<and> stalls_ok now heap ni"

section \<open>Message buffers\<close>

lemma msg_heap_front:
  assumes "msg_heap (m # h)" and "key_of m' = key_of m"
  shows "msg_heap (m' # h)"
proof -
  have "key_of ((m' # h) ! i) = key_of ((m # h) ! i)" for i using assms(2) by (cases i) simp_all
  then show ?thesis using assms(1) by (simp add: heap_upto_def msg_greater_key)
qed

lemma set_front_inv:
  assumes "mb_inv (now, b)" and "mb_prio_heap b = m # h" and "key_of m' = key_of m"
  shows "mb_inv (now, set_front m' b)" and "mb_prio_heap (set_front m' b) = m' # h"
proof -
  show h: "mb_prio_heap (set_front m' b) = m' # h" using assms(2) by (simp add: set_front_def)
  have s: "stalled (set_front m' b) = stalled b" by (simp add: stalled_def set_front_def)
  have "msg_heap (m' # h)" using assms msg_heap_front [OF _ assms(3), of h] by (simp add: mb_inv_def mb_ok_def)
  then have "mb_ok (set_front m' b)" using assms(1,2) s h unfolding mb_inv_def mb_ok_def by (simp add: set_front_def)
  moreover have "mb_timed now (set_front m' b)" using assms(1,2) s h unfolding mb_inv_def mb_timed_def fst_conv snd_conv by (simp add: set_front_def split: if_splits)
  ultimately show "mb_inv (now, set_front m' b)" by (simp add: mb_inv_def)
qed

lemma isReady_total:
  assumes "mb_inv (now, b)"
  shows "\<exists>r rs. mb_isReady now b = Inr (r, rs) \<and> (r \<longrightarrow> (\<exists>m h. mb_prio_heap b = m # h \<and> msg_LastEnqueueTime m \<le> now))"
proof -
  have "mb_time_last_time_pop b \<le> now" "mb_consumer b" using assms by (auto simp: mb_inv_def mb_timed_def mb_ok_def)
  then show ?thesis by (cases "mb_prio_heap b") (auto simp: mb_isReady_def Let_def)
qed

lemma isReady_set_front:
  assumes "mb_prio_heap b = m # h" and "msg_LastEnqueueTime m' = msg_LastEnqueueTime m"
  shows "mb_isReady now (set_front m' b) = mb_isReady now b"
  using assms by (simp add: mb_isReady_def set_front_def Let_def)

lemma dequeue_ready:
  assumes "mb_isReady now b = Inr (True, rs)" and "mb_inv (now, b)"
  shows "\<exists>m d cb b'. mb_dequeue tick now True b = Inr (m, d, cb, b') \<and> mb_inv (now, b') \<and> set (mb_prio_heap b') \<subseteq> set (mb_prio_heap b)"
proof -
  from isReady_total [OF assms(2)] assms(1) obtain m h where m: "mb_prio_heap b = m # h" "msg_LastEnqueueTime m \<le> now" by auto
  have "\<exists>x d cb b'. mb_dequeue tick now True b = Inr (x, d, cb, b')"
    using assms(1) m by (simp add: mb_dequeue_def assert_ready_def mb_front_def at_def updateDelayedTicks_def Let_def)
  then obtain x d cb b' where d: "mb_dequeue tick now True b = Inr (x, d, cb, b')" by blast
  have inv: "mb_ok b" "mb_timed now b" using assms(2) by (simp_all add: mb_inv_def)
  have "mb_prio_heap b' = heap_remove (mb_prio_heap b)"
    using d by (rule mb_dequeue_InrE) (simp add: Let_def count_removed_def)
  moreover have "set (heap_remove (mb_prio_heap b)) \<subseteq> set (mb_prio_heap b)"
  proof -
    have "mset (heap_remove (mb_prio_heap b)) \<subseteq># mset (mb_prio_heap b)"
      using heap_remove_mset [of "mb_prio_heap b"] inv(1) m(1) by (simp add: mb_ok_def)
    then show ?thesis by (metis set_mset_mono set_mset_mset)
  qed
  ultimately show ?thesis using d mb_dequeue_inv(1,2) [OF inv d] by (auto simp: mb_inv_def)
qed

lemma count_enqueue_randomization [simp]: "mb_randomization (count_enqueue now b) = mb_randomization b"
  "mb_allow_zero_latency (count_enqueue now b) = mb_allow_zero_latency b"
  by (simp_all add: count_enqueue_def Let_def)

lemma enqueue_succeeds:
  assumes inv: "mb_inv (now, b)" and room: "fst (mb_areNSlotsAvailable 1 now b)" and "0 < delta"
    and m: "msg_LastEnqueueTime m \<le> now" and f: "fifo_ok env (now + delta) b"
  shows "\<exists>m' b' reqs. mb_enqueue (ne_flags env) draw now delta m b = Inr (m', b', reqs) \<and> mb_inv (now, b') \<and> fifo_ok env (now + delta) b'
    \<and> length (mb_prio_heap b') = Suc (length (mb_prio_heap b))"
proof -
  obtain t l where a: "arrival (ne_flags env) draw now delta (count_enqueue now b) = (t, l)" by force
  have t: "now \<le> t" using a \<open>0 < delta\<close> by (auto simp: arrival_def Let_def split: if_splits)
  have l: "mb_strict_fifo b \<longrightarrow> l \<le> t" using a f by (auto simp: arrival_def fifo_ok_def Let_def split: if_splits)
  have h: "msg_heap (mb_prio_heap b)" "mb_consumer b" "mb_stall_map_size b = int (length (stalled b))" using inv by (auto simp: mb_inv_def mb_ok_def)
  let ?m = "m\<lparr>msg_DelayedTicks := msg_DelayedTicks m + (now - msg_LastEnqueueTime m), msg_LastEnqueueTime := t, msg_counter := mb_msg_counter b + 1\<rparr>"
  have "mb_max_size b = 0 \<or> length (mb_prio_heap b) + length (stalled b) + 1 \<le> mb_max_size b" by (rule slots_sound [OF inv room])
  then have sz: "mb_max_size b = 0 \<or> int (length (heap_insert ?m (mb_prio_heap b))) + mb_stall_map_size b \<le> int (mb_max_size b)"
    using heap_insert_ok(3) [OF h(1), of ?m] h(3) by auto
  have "failIf (mb_strict_fifo b \<and> t < l) Panic = Inr ()" using l by (auto simp: failIf_def)
  then have e: "\<exists>b' reqs. mb_enqueue (ne_flags env) draw now delta m b = Inr (?m, b', reqs)"
    unfolding mb_enqueue_def using a t h(2) sz m \<open>0 < delta\<close> by (simp add: Let_def updateDelayedTicks_def)
  then obtain b' reqs where e: "mb_enqueue (ne_flags env) draw now delta m b = Inr (?m, b', reqs)" by blast
  have "mb_ok b'" "mb_timed now b'" using mb_enqueue_inv [OF _ _ e] inv by (simp_all add: mb_inv_def)
  moreover from e obtain t' l' n where x: "arrival (ne_flags env) draw now delta (count_enqueue now b) = (t', l')"
    "b' = (count_enqueue now b)\<lparr>mb_last_arrival_time := (if rf_warmup (ne_flags env) then l' else t'), mb_prio_heap := heap_insert ?m (mb_prio_heap b), mb_buf_msgs := n\<rparr>"
    by (rule mb_enqueue_InrE)
  have "fifo_ok env (now + delta) b'"
    using f x(1) by (auto simp: x(2) fifo_ok_def arrival_def Let_def split: if_splits)
  moreover have "length (mb_prio_heap b') = Suc (length (mb_prio_heap b))" using heap_insert_ok(3) [OF h(1)] by (simp add: x(2))
  ultimately show ?thesis using e by (auto simp: mb_inv_def)
qed

lemma callback_irrelevant [simp]:
  "outNode_ok env period now (Some (mb_registerDequeueCallback b)) = outNode_ok env period now (Some b)"
  "outNode_ok env period now (Some (mb_unregisterDequeueCallback b)) = outNode_ok env period now (Some b)"
  by (simp_all add: outNode_ok_def fifo_ok_def mb_inv_def mb_ok_def mb_timed_def stalled_def mb_registerDequeueCallback_def
      mb_unregisterDequeueCallback_def)

section \<open>Taking messages from the protocol\<close>

text \<open>Credits are only spent, never gained, before the credit links are read.\<close>

definition credits_le :: "'p NetworkInterface \<Rightarrow> 'p NetworkInterface \<Rightarrow> bool" where
  "credits_le ni ni' \<longleftrightarrow> list_all2 (\<lambda>w w'. ov_credit_count w' \<le> ov_credit_count w \<and> ov_max_credit_count w' = ov_max_credit_count w)
     (ni_outVcState ni) (ni_outVcState ni')"

lemma credits_le_refl: "credits_le ni ni"
  by (simp add: credits_le_def list.rel_refl)

lemma credits_le_trans: "credits_le a b \<Longrightarrow> credits_le b c \<Longrightarrow> credits_le a c"
  unfolding credits_le_def by (rule list_all2_trans [of _ _ _ "ni_outVcState a" "ni_outVcState b" "ni_outVcState c"]) auto

lemma stalls_ok_more: "stalls_ok now heap ni \<Longrightarrow> stalls_ok now (heap @ cps) ni"
  by (fastforce simp: stalls_ok_def tail_ok_def nth_append)

lemma chan_div: "k < per \<Longrightarrow> (v * per + k) div per = (v :: nat)"
  by (cases "per = 0") simp_all

lemma packet_flits_fit:
  assumes "f \<in> set (packet_flits now pid (int c) (int v) route n h sz w dl)"
  shows "f_vc f = int c \<and> f_vnet f = int v \<and> f_type f \<noteq> CREDIT \<and> f_width f = w"
  using assms by (auto simp: packet_flits_def flit_new_def flit_kind_not_credit)

lemma injected_bufs_ok:
  assumes I: "injected_all env now v (outport v ni) n many ds vcs (msg, ni, heap, s) (msg', ni', heap', s')" and b: "bufs_ok ni"
    and ok: "vcs_ok ni"
  shows "bufs_ok ni'"
  unfolding bufs_ok_def
proof (intro allI impI ballI)
  fix c f
  assume c: "c < length (ni_niOutVcs ni')" and f: "f \<in> set (fb_buffer (ni_niOutVcs ni' ! c))"
  have fr: "inj_frame ni ni'" "vcs_ok ni'" "\<forall>k \<in> set vcs. k < ni_vc_per_vnet ni" using I by (auto simp: injected_all_def)
  have fit: "flit_fits ni' c f = flit_fits ni c f"
    by (simp add: flit_fits_def outport_def getOutportForVnet_def inj_frameD [OF fr(1)])
  have old: "flit_fits ni c f" if "f \<in> set (fb_buffer (ni_niOutVcs ni ! c))"
    using b that c ok fr(2) inj_frameD [OF fr(1)] by (simp add: bufs_ok_def vcs_ok_def)
  show "flit_fits ni' c f"
  proof (cases "c \<in> chan v ni ` set vcs")
    case True
    then obtain i where i: "i < length vcs" "c = chan v ni (vcs ! i)" by (auto simp: in_set_conv_nth)
    then have "packet_in env now v (outport v ni) n heap' (length heap + i) (ds ! i) c ni ni'"
      using I by (simp add: injected_all_def)
    then obtain pid route sz dl h where "fb_buffer (ni_niOutVcs ni' ! c) = fb_buffer (ni_niOutVcs ni ! c)
        @ packet_flits now pid (int c) (int v) route n h sz (op_bitWidth (outport v ni)) dl"
      by (auto simp: packet_in_def)
    then consider "f \<in> set (fb_buffer (ni_niOutVcs ni ! c))"
      | "f \<in> set (packet_flits now pid (int c) (int v) route n h sz (op_bitWidth (outport v ni)) dl)" using f by auto
    then show ?thesis
    proof cases
      case 2
      have "vcs ! i < ni_vc_per_vnet ni" using fr(3) i(1) by simp
      then have "c div ni_vc_per_vnet ni = v" using i(2) chan_div by simp
      then show ?thesis using packet_flits_fit [OF 2] by (simp add: fit) (simp add: flit_fits_def)
    qed (simp add: fit old)
  next
    case False
    then have "ni_niOutVcs ni' ! c = ni_niOutVcs ni ! c" using I by (simp add: injected_all_def channel_same_def)
    then show ?thesis using f fit old by simp
  qed
qed

lemma injected_credits:
  assumes I: "injected_all env now v (outport v ni) n many ds vcs (msg, ni, heap, s) (msg', ni', heap', s')" and ok: "vcs_ok ni"
  shows "credits_le ni ni'"
  unfolding credits_le_def
proof (rule list_all2_all_nthI)
  have fr: "inj_frame ni ni'" "vcs_ok ni'" using I by (auto simp: injected_all_def)
  then show "length (ni_outVcState ni) = length (ni_outVcState ni')" using ok inj_frameD [OF fr(1)] by (simp add: vcs_ok_def)
  fix c
  show "ov_credit_count (ni_outVcState ni' ! c) \<le> ov_credit_count (ni_outVcState ni ! c)
      \<and> ov_max_credit_count (ni_outVcState ni' ! c) = ov_max_credit_count (ni_outVcState ni ! c)"
  proof (cases "c \<in> chan v ni ` set vcs")
    case True
    then obtain i where i: "i < length vcs" "c = chan v ni (vcs ! i)" by (auto simp: in_set_conv_nth)
    then have "ni_outVcState ni' ! c = ov_setState ACTIVE now (ni_outVcState ni ! c)"
      using I by (simp add: injected_all_def packet_in_def)
    then show ?thesis by (simp add: ov_setState_def)
  next
    case False
    then show ?thesis using I by (simp add: injected_all_def channel_same_def)
  qed
qed

text \<open>What the message loop leaves alone.\<close>

definition took :: "nat \<Rightarrow> 'p NetworkInterface \<Rightarrow> 'p NetworkInterface \<Rightarrow> bool" where
  "took v ni ni' \<longleftrightarrow> inj_frame (ni\<lparr>ni_inNode := ni_inNode ni'\<rparr>) ni' \<and> length (ni_inNode ni') = length (ni_inNode ni)
     \<and> (\<forall>u. u \<noteq> v \<longrightarrow> ni_vc_busy_counter ni' ! u = ni_vc_busy_counter ni ! u) \<and> credits_le ni ni'"

lemma took_refl: "took v ni ni"
  by (simp add: took_def inj_frame_def credits_le_refl)

lemma tookD:
  assumes "took v ni ni'"
  shows "ni_virtual_networks ni' = ni_virtual_networks ni" "ni_vc_per_vnet ni' = ni_vc_per_vnet ni" "ni_outPorts ni' = ni_outPorts ni"
    "ni_inPorts ni' = ni_inPorts ni" "ni_deadlock_threshold ni' = ni_deadlock_threshold ni" "ni_stall_count ni' = ni_stall_count ni"
    "ni_outNode ni' = ni_outNode ni" "length (ni_inNode ni') = length (ni_inNode ni)" "credits_le ni ni'"
    "u \<noteq> v \<Longrightarrow> ni_vc_busy_counter ni' ! u = ni_vc_busy_counter ni ! u"
  using assms inj_frameD [of "ni\<lparr>ni_inNode := ni_inNode ni'\<rparr>" ni'] by (auto simp: took_def)

lemma ni_ok_took:
  assumes ok: "ni_ok env R period now heap ni" and fr: "inj_frame ni ni'" and new: "vcs_ok ni'" "bufs_ok ni'"
    and v: "v < length (ni_inNode ni)" and b: "inNode_ok env R now v (Some b)"
  shows "ni_ok env R period now (heap @ cps) (ni'\<lparr>ni_inNode := (ni_inNode ni)[v := Some b]\<rparr>)"
proof -
  let ?ni = "ni'\<lparr>ni_inNode := (ni_inNode ni)[v := Some b]\<rparr>"
  note D = inj_frameD [OF fr]
  have "vcs_ok ?ni" using new(1) by (simp add: vcs_ok_def)
  moreover have "bufs_ok ?ni" using new(2) by (simp add: bufs_ok_def flit_fits_def outport_def getOutportForVnet_def)
  moreover have "ports_ok R ?ni" using ok by (simp add: ni_ok_def ports_ok_def getOutportForVnet_def D)
  moreover have "ins_ok env R now ?ni" using ok v b by (auto simp: ni_ok_def ins_ok_def D nth_list_update)
  moreover have "outs_ok env period now ?ni" using ok by (simp add: ni_ok_def outs_ok_def D)
  moreover have "stalls_ok now (heap @ cps) ?ni" using ok stalls_ok_more [of now heap ni cps] by (simp add: ni_ok_def stalls_ok_def D)
  ultimately show ?thesis using ok by (simp add: ni_ok_def D)
qed

lemma msg_fits_subset:
  "msg_fits env R v m \<Longrightarrow> NetDest_ok (ne_machines env) (msg_Destination m') \<Longrightarrow> NetDest_elems (msg_Destination m') \<subseteq> NetDest_elems (msg_Destination m)
     \<Longrightarrow> msg_fits env R v m'"
  by (auto simp: msg_fits_def)

lemma ports_ok_at:
  assumes "ports_ok R ni" and "v < ni_virtual_networks ni"
  obtains i where "getOutportForVnet (int v) ni = Some i" "i < length (ni_outPorts ni)" "isVnetSupported (op_vnets (ni_outPorts ni ! i)) (int v)"
    "port_ok (ni_vc_per_vnet ni * ni_virtual_networks ni) (ni_outPorts ni ! i)"
    "0 \<le> op_routerID (ni_outPorts ni ! i)" "op_routerID (ni_outPorts ni ! i) < int R"
proof -
  have s: "i < length vss \<and> isVnetSupported (vss ! i) x" if "port_for_vnet vss x = Some i" for vss x i
    using that by (induction vss arbitrary: i) (auto split: if_splits)
  from assms obtain i where i: "getOutportForVnet (int v) ni = Some i" by (auto simp: ports_ok_def)
  from s [OF this [unfolded getOutportForVnet_def]] have "i < length (ni_outPorts ni)" "isVnetSupported (op_vnets (ni_outPorts ni ! i)) (int v)" by auto
  with i assms(1) show thesis by (auto simp: ports_ok_def intro: that)
qed

lemma ni_ok_can_inject:
  assumes "ni_ok env R period now heap ni" and "stats_ok (ni_virtual_networks ni) R s" and "v < ni_virtual_networks ni"
    and "ni_vc_busy_counter ni ! v < ni_deadlock_threshold ni" and "msg_fits env R v m"
  shows "can_inject env v (msg_Destination m) ni s"
proof -
  have R: "length (ns_data_traffic s) = R" using assms(2) by (simp add: stats_ok_def)
  from ports_ok_at [OF _ assms(3)] assms(1) obtain i where i: "getOutportForVnet (int v) ni = Some i"
    "port_ok (ni_vc_per_vnet ni * ni_virtual_networks ni) (ni_outPorts ni ! i)"
    "0 \<le> op_routerID (ni_outPorts ni ! i)" "op_routerID (ni_outPorts ni ! i) < int R" unfolding ni_ok_def by metis
  then have "op_routerID (ni_outPorts ni ! i) = int (nat (op_routerID (ni_outPorts ni ! i)))" "nat (op_routerID (ni_outPorts ni ! i)) < R" by auto
  then have q: "\<exists>q. op_routerID (ni_outPorts ni ! i) = int q \<and> q < R" by blast
  then show ?thesis using assms i unfolding can_inject_def R by (auto simp: ni_ok_def port_ok_def msg_fits_def)
qed

lemma take_message_ok:
  assumes ok: "ni_ok env R period now heap ni" and st: "stats_ok (ni_virtual_networks ni) R s" and v: "v < length (ni_inNode ni)"
    and busy: "ni_vc_busy_counter ni ! v < ni_deadlock_threshold ni" and edge: "clockEdge_at period now 0 = now"
  shows "\<exists>ni' cps s' reqs'. take_message env period now v (ni, heap, s, reqs) = Inr (ni', heap @ cps, s', reqs')
    \<and> ni_ok env R period now (heap @ cps) ni' \<and> stats_ok (ni_virtual_networks ni) R s' \<and> took v ni ni'"
proof -
  have V: "v < ni_virtual_networks ni" using ok v by (simp add: ni_ok_def ins_ok_def)
  have same: ?thesis if "take_message env period now v (ni, heap, s, reqs) = Inr (ni, heap, s, reqs')" for reqs'
    using that ok st took_refl by (intro exI [of _ ni] exI [of _ "[]"] exI [of _ s] exI [of _ reqs']) simp
  show ?thesis
  proof (cases "ni_inNode ni ! v")
    case None
    then show ?thesis using v by (intro same [of reqs]) (simp add: take_message_def)
  next
    case (Some b)
    have b: "mb_inv (now, b)" "\<forall>m \<in> set (mb_prio_heap b). msg_fits env R v m" using ok v Some by (auto simp: ni_ok_def ins_ok_def inNode_ok_def)
    from isReady_total [OF b(1)] obtain r rs where r: "mb_isReady now b = Inr (r, rs)" by blast
    show ?thesis
    proof (cases r)
      case False
      then show ?thesis using v Some r edge by (intro same [of "reqs @ self_reqs rs"]) (simp add: take_message_def Let_def)
    next
      case True
      with isReady_total [OF b(1)] r obtain m h where m: "mb_prio_heap b = m # h" by auto
      have fit: "msg_fits env R v m" using b(2) m by simp
      have nd: "NetDest_ok (ne_machines env) (msg_Destination m)" using fit by (simp add: msg_fits_def)
      from flitisizeMessage_spec [OF ni_ok_can_inject [OF ok st V busy fit] nd, of now heap]
      obtain dests k vcs sent msg' ni' heap' s' where
        f: "flitisizeMessage env now (int v) (m, ni, heap, s) = Inr (sent, msg', ni', heap', s')"
        and I: "injected_all env now v (outport v ni) (flit_count env v m ni) (length dests > 1) (take k dests) vcs (m, ni, heap, s) (msg', ni', heap', s')"
        by - (elim exE conjE, rule that; assumption)
      from I obtain cps where h': "heap' = heap @ cps" unfolding injected_all_def prod.case by blast
      have R: "length (ns_data_traffic s) = R" using st by (simp add: stats_ok_def)
      have J: "vcs_ok ni'" "inj_frame ni ni'" "msg' = m\<lparr>msg_Destination := msg_Destination msg'\<rparr>"
        "stats_ok (ni_virtual_networks ni) R s'" "\<forall>u. u \<noteq> v \<longrightarrow> ni_vc_busy_counter ni' ! u = ni_vc_busy_counter ni ! u"
        using I R unfolding injected_all_def prod.case by simp_all
      have vo: "vcs_ok ni" "bufs_ok ni" using ok by (simp_all add: ni_ok_def)
      have "msg_fits env R v msg'"
        by (rule msg_fits_subset [OF fit]) (use I fit in \<open>auto simp: injected_all_def msg_fits_def split: if_splits\<close>)
      moreover have key: "key_of msg' = key_of m" by (subst J(3)) (simp add: key_of_def)
      ultimately have b1: "mb_inv (now, set_front msg' b)" "\<forall>x \<in> set (mb_prio_heap (set_front msg' b)). msg_fits env R v x"
        using set_front_inv [OF b(1) m key] b(2) m by auto
      have le: "msg_LastEnqueueTime msg' = msg_LastEnqueueTime m" by (subst J(3)) simp
      have finish: ?thesis if t: "take_message env period now v (ni, heap, s, reqs) = Inr (ni'\<lparr>ni_inNode := (ni_inNode ni)[v := Some b2]\<rparr>, heap', s', reqs')"
          and b2: "inNode_ok env R now v (Some b2)" for b2 reqs'
      proof -
        let ?ni = "ni'\<lparr>ni_inNode := (ni_inNode ni)[v := Some b2]\<rparr>"
        have "credits_le ni ?ni" using injected_credits [OF I vo(1)] by (simp add: credits_le_def)
        moreover have "inj_frame (ni\<lparr>ni_inNode := (ni_inNode ni)[v := Some b2]\<rparr>) ?ni" using J(2) by (cases ni; cases ni') (simp add: inj_frame_def)
        ultimately have "took v ni ?ni" using J(5) by (simp add: took_def)
        with t ni_ok_took [OF ok J(2,1) injected_bufs_ok [OF I vo(2,1)] v b2, of cps] J(4) show ?thesis
          unfolding h' by (intro exI [of _ ?ni] exI [of _ cps] exI [of _ s'] exI [of _ reqs']) simp
      qed
      have in': "ni_inNode ni' = ni_inNode ni" using inj_frameD [OF J(2)] by simp
      show ?thesis
      proof (cases sent)
        case True
        from dequeue_ready [OF _ b1(1), of rs now] isReady_set_front [OF m le] r \<open>r\<close> obtain x d cb b2 where
          d: "mb_dequeue now now True (set_front msg' b) = Inr (x, d, cb, b2)" "mb_inv (now, b2)"
            "set (mb_prio_heap b2) \<subseteq> set (mb_prio_heap (set_front msg' b))" by auto
        show ?thesis
          by (rule finish [of b2 "reqs @ self_reqs rs @ (if cb then [Ni_callback (int v)] else [])"])
            (use v Some r \<open>r\<close> edge m f True d b1(2) in' in \<open>auto simp: take_message_def mb_peek_def mb_front_def at_def set_inNode_def inNode_ok_def Let_def put_def\<close>)
      next
        case False
        show ?thesis
          by (rule finish [of "set_front msg' b" "reqs @ self_reqs rs"])
            (use v Some r \<open>r\<close> edge m f False b1 in' in \<open>auto simp: take_message_def mb_peek_def mb_front_def at_def set_inNode_def inNode_ok_def Let_def put_def\<close>)
      qed
    qed
  qed
qed

end
