(* ===== verification/Interface_Wakeup.thy ===== *)
theory Interface_Wakeup
  imports Interface_Safety
begin

text \<open>
  The wake-up of a network interface, part by part (scheduling of the output ports, stall queues, arriving flits, arriving
  credits): every part returns on a well-formed interface and keeps it well formed, and the books of ejection are kept:
  messages handed over, tails that wait and credits sent.
\<close>

section \<open>Scheduling the output ports\<close>

definition chans_ok :: "nat \<Rightarrow> 'p NetworkInterface \<Rightarrow> bool" where
  "chans_ok R ni \<longleftrightarrow> vcs_ok ni \<and> 0 < ni_virtual_networks ni \<and> bufs_ok ni \<and> ports_ok R ni"

definition sched_frame :: "'p NetworkInterface \<Rightarrow> 'p NetworkInterface \<Rightarrow> bool" where
  "sched_frame ni ni' \<longleftrightarrow> ni' = ni\<lparr>ni_outPorts := ni_outPorts ni', ni_niOutVcs := ni_niOutVcs ni', ni_outVcState := ni_outVcState ni',
       ni_out_vcs_enqueue_time := ni_out_vcs_enqueue_time ni'\<rparr> \<and> credits_le ni ni' \<and> length (ni_outPorts ni') = length (ni_outPorts ni)"

lemma sched_frame_refl: "sched_frame ni ni"
  by (simp add: sched_frame_def credits_le_refl)

lemma sched_frame_trans: "sched_frame a b \<Longrightarrow> sched_frame b c \<Longrightarrow> sched_frame a c"
  by (cases a; cases b; cases c) (auto simp: sched_frame_def intro: credits_le_trans)

lemma sched_frameD:
  assumes "sched_frame ni ni'"
  shows "ni_virtual_networks ni' = ni_virtual_networks ni" "ni_vc_per_vnet ni' = ni_vc_per_vnet ni" "ni_inPorts ni' = ni_inPorts ni"
    "ni_deadlock_threshold ni' = ni_deadlock_threshold ni" "ni_stall_count ni' = ni_stall_count ni" "ni_inNode ni' = ni_inNode ni"
    "ni_outNode ni' = ni_outNode ni" "ni_vc_busy_counter ni' = ni_vc_busy_counter ni" "credits_le ni ni'"
    "length (ni_outPorts ni') = length (ni_outPorts ni)"
  using assms by (cases ni; cases ni'; simp add: sched_frame_def)+

lemma flit_fits_same:
  assumes "map op_vnets (ni_outPorts ni') = map op_vnets (ni_outPorts ni)" and "map op_bitWidth (ni_outPorts ni') = map op_bitWidth (ni_outPorts ni)"
    and "ni_vc_per_vnet ni' = ni_vc_per_vnet ni" and "ports_ok R ni" and "c div ni_vc_per_vnet ni < ni_virtual_networks ni"
  shows "flit_fits ni' c f \<longleftrightarrow> flit_fits ni c f"
proof -
  from ports_ok_at [OF assms(4,5)] obtain i where i: "getOutportForVnet (int (c div ni_vc_per_vnet ni)) ni = Some i" "i < length (ni_outPorts ni)" by metis
  have "length (ni_outPorts ni') = length (ni_outPorts ni)" using assms(1) by (metis length_map)
  then have "op_bitWidth (ni_outPorts ni' ! i) = op_bitWidth (ni_outPorts ni ! i)" using assms(2) i(2) by (metis nth_map)
  moreover have "getOutportForVnet (int (c div ni_vc_per_vnet ni)) ni' = Some i" using i(1) by (simp add: getOutportForVnet_def assms(1))
  ultimately show ?thesis using i(1) by (simp add: flit_fits_def outport_def assms(3))
qed

lemma port_okD: "port_ok K p \<Longrightarrow> f \<in> set (fb_buffer (op_outFlitQueue p)) \<Longrightarrow>
    f_width f = op_bitWidth p \<and> isVnetSupported (op_vnets p) (f_vnet f) \<and> 0 \<le> f_vc f \<and> f_vc f < int K"
  by (simp add: port_ok_def)

text \<open>A port takes a flit that fits it.\<close>

lemma port_ok_insert:
  "port_ok K p \<Longrightarrow> f_width f = op_bitWidth p \<Longrightarrow> isVnetSupported (op_vnets p) (f_vnet f) \<Longrightarrow> 0 \<le> f_vc f \<Longrightarrow> f_vc f < int K
     \<Longrightarrow> port_ok K (op_insert f p)"
  by (auto simp: port_ok_def op_insert_def fb_insert_def)

lemma port_ok_turn: "port_ok K p \<Longrightarrow> c < K \<Longrightarrow> port_ok K (p\<lparr>op_vcRoundRobin := int c\<rparr>)"
  by (simp add: port_ok_def)

lemma channel_vnet: "c < per * V \<Longrightarrow> c div per < (V :: nat)"
  by (metis less_mult_imp_div_less mult.commute)

lemma send_from_vc_ok:
  assumes ok: "chans_ok R ni" and p: "p < length (ni_outPorts ni)" and c: "c < length (ni_niOutVcs ni)"
    and b: "fb_buffer (ni_niOutVcs ni ! c) = f # fs" and cr: "ov_has_credit (ni_outVcState ni ! c)"
  shows "\<exists>ni' reqs. send_from_vc period now p (int c) ni = Inr (ni', reqs) \<and> chans_ok R ni' \<and> sched_frame ni ni'"
proof -
  let ?K = "ni_vc_per_vnet ni * ni_virtual_networks ni" and ?v = "c div ni_vc_per_vnet ni" and ?w = "ni_outVcState ni ! c"
  have vo: "vcs_ok ni" "bufs_ok ni" "ports_ok R ni" using ok by (simp_all add: chans_ok_def)
  have K: "c < ?K" "length (ni_niOutVcs ni) = ?K" "length (ni_outVcState ni) = ?K" "length (ni_out_vcs_enqueue_time ni) = ?K" using vo(1) c by (simp_all add: vcs_ok_def)
  have v: "?v < ni_virtual_networks ni" by (rule channel_vnet [OF K(1)])
  from ports_ok_at [OF vo(3) v] obtain i where i: "getOutportForVnet (int ?v) ni = Some i" "i < length (ni_outPorts ni)"
    "isVnetSupported (op_vnets (ni_outPorts ni ! i)) (int ?v)" "port_ok ?K (ni_outPorts ni ! i)" by metis
  have f: "f_vc f = int c" "f_vnet f = int ?v" "f_width f = op_bitWidth (ni_outPorts ni ! i)"
    using vo(2) c b i(1) by (auto simp: bufs_ok_def flit_fits_def outport_def)
  let ?ps = "(ni_outPorts ni)[p := (ni_outPorts ni ! p)\<lparr>op_vcRoundRobin := int c\<rparr>]" and ?f = "f\<lparr>f_time := clockEdge_at period now 1\<rparr>"
  let ?ps' = "?ps[i := op_insert ?f (?ps ! i)]"
  let ?ts = "if f_type f = TAIL \<or> f_type f = HEAD_TAIL then (ni_out_vcs_enqueue_time ni)[c := INFINITE] else ni_out_vcs_enqueue_time ni"
  let ?w' = "?w\<lparr>ov_credit_count := ov_credit_count ?w - 1\<rparr>"
  let ?ni = "ni\<lparr>ni_outPorts := ?ps', ni_niOutVcs := (ni_niOutVcs ni)[c := (ni_niOutVcs ni ! c)\<lparr>fb_buffer := fs\<rparr>],
     ni_outVcState := (ni_outVcState ni)[c := ?w'], ni_out_vcs_enqueue_time := ?ts\<rparr>"
  have sig: "map op_vnets ?ps = map op_vnets (ni_outPorts ni)" "map op_bitWidth ?ps = map op_bitWidth (ni_outPorts ni)"
    by (simp_all add: map_update_same)
  have sig': "map op_vnets ?ps' = map op_vnets (ni_outPorts ni)" "map op_bitWidth ?ps' = map op_bitWidth (ni_outPorts ni)"
    using map_update_same [of op_vnets "op_insert ?f (?ps ! i)" ?ps i] map_update_same [of op_bitWidth "op_insert ?f (?ps ! i)" ?ps i] sig
    by (simp_all add: op_insert_def)
  have "port_for_vnet (map op_vnets ?ps) (int ?v) = Some i" using i(1) by (simp add: getOutportForVnet_def sig)
  moreover have "ov_decrement_credit ?w = Inr ?w'" using cr by (simp add: ov_decrement_credit_def ov_has_credit_def)
  ultimately have "\<exists>reqs. send_from_vc period now p (int c) ni = Inr (?ni, reqs)"
    using K b f(2) by (simp add: send_from_vc_def on_outVc_def fb_getTopFlit_def ni_scheduleFlit_def getOutportForVnet_def)
  moreover have "chans_ok R ?ni"
  proof -
    have "\<forall>x \<in> set ((ni_outVcState ni)[c := ?w']). 0 \<le> ov_credit_count x \<and> ov_credit_count x \<le> ov_max_credit_count x"
    proof (rule ball_update)
      have "ov_credit_count ?w \<le> ov_max_credit_count ?w" using vo(1) K(1,3) by (simp add: vcs_ok_def)
      then show "0 \<le> ov_credit_count ?w' \<and> ov_credit_count ?w' \<le> ov_max_credit_count ?w'" using cr by (simp add: ov_has_credit_def)
    qed (use vo(1) in \<open>simp add: vcs_ok_def\<close>)
    then have 1: "vcs_ok ?ni" using vo(1) by (simp add: vcs_ok_def)
    have "flit_fits ?ni d g" if "d < ?K" "g \<in> set (fb_buffer (ni_niOutVcs ?ni ! d))" for d g
    proof -
      have "g \<in> set (fb_buffer (ni_niOutVcs ni ! d))" using that K b by (cases "d = c") auto
      then have "flit_fits ni d g" using vo(2) that(1) K(2) by (simp add: bufs_ok_def)
      moreover have "flit_fits ?ni d g = flit_fits ni d g"
        by (rule flit_fits_same [OF _ _ _ vo(3) channel_vnet [OF that(1)]]) (use sig' in simp_all)
      ultimately show ?thesis by simp
    qed
    then have 2: "bufs_ok ?ni" using K(2) by (simp add: bufs_ok_def)
    let ?P = "\<lambda>q. port_ok ?K q \<and> 0 \<le> op_routerID q \<and> op_routerID q < int R"
    have a: "\<forall>q \<in> set (ni_outPorts ni). ?P q" using vo(3) by (simp add: ports_ok_def)
    have a1: "\<forall>q \<in> set ?ps. ?P q" by (rule ball_update) (use a p K(1) port_ok_turn in auto)
    have w: "op_bitWidth (?ps ! i) = op_bitWidth (ni_outPorts ni ! i)" "op_vnets (?ps ! i) = op_vnets (ni_outPorts ni ! i)"
      using i(2) p by (cases "i = p"; simp)+
    have q: "?P (?ps ! i)" using a1 i(2) by (metis length_list_update nth_mem)
    have "port_ok ?K (op_insert ?f (?ps ! i))"
      by (rule port_ok_insert) (use q f i(3) K(1) w in \<open>simp_all del: of_nat_mult\<close>)
    then have "?P (op_insert ?f (?ps ! i))" using q by (simp add: op_insert_def)
    then have a2: "\<forall>q \<in> set ?ps'. ?P q" by (intro ball_update a1)
    have "getOutportForVnet x ?ni = getOutportForVnet x ni" for x using sig'(1) by (simp add: getOutportForVnet_def)
    then have "ports_ok R ?ni" using vo(3) a2 by (simp add: ports_ok_def)
    with 1 2 ok show ?thesis by (simp add: chans_ok_def)
  qed
  moreover have "sched_frame ni ?ni"
    using K(1,3) by (auto simp: sched_frame_def credits_le_def list_all2_conv_all_nth nth_list_update)
  ultimately show ?thesis by blast
qed

lemma vnet_search_ok: "a \<le> c div per \<Longrightarrow> c div per < V \<Longrightarrow> 0 < per \<Longrightarrow> vnet_search per (int c) [a..<V] = Inr (int (c div per))"
proof (induction "V - a" arbitrary: a)
  case (Suc n)
  have "c div per = a" if "a * per \<le> c" "c < (a + 1) * per" by (rule div_nat_eqI) (use that in \<open>simp_all add: mult.commute\<close>)
  then have iff: "(a * per \<le> c \<and> c < (a + 1) * per) \<longleftrightarrow> a = c div per"
    using dividend_less_div_times [OF Suc.prems(3), of c] by (auto simp: add.commute)
  have "[a..<V] = a # [Suc a..<V]" using Suc.prems by (simp add: upt_conv_Cons)
  moreover have "(int c \<ge> int (a * per) \<and> int c < int ((a + 1) * per)) \<longleftrightarrow> a = c div per" using iff by (simp only: of_nat_le_iff of_nat_less_iff)
  moreover have "vnet_search per (int c) [Suc a..<V] = Inr (int (c div per))" if "a \<noteq> c div per" using Suc.hyps Suc.prems that by simp
  ultimately show ?case by (simp only: vnet_search.simps split: if_split) auto
qed simp

lemma is_candidate_returns:
  assumes "vcs_ok ni" and "v < ni_virtual_networks ni" and "c < length (ni_niOutVcs ni)"
  shows "\<exists>b. is_candidate_vc env now (int v) (int c) ni = Inr b"
proof -
  have "\<exists>b. existsR (\<lambda>t_vc. bindR (at (ni_niOutVcs ni) t_vc) (\<lambda>b.
       if fb_isReady now b then bindR (at (ni_out_vcs_enqueue_time ni) t_vc) (\<lambda>t. bindR (at (ni_out_vcs_enqueue_time ni) (int c)) (\<lambda>t'. Inr (t < t')))
       else Inr False)) (vc_range (int v) (ni_vc_per_vnet ni)) = Inr b"
  proof (rule existsR_returns)
    fix x
    assume x: "x \<in> set (vc_range (int v) (ni_vc_per_vnet ni))"
    have "(int v + 1) * int (ni_vc_per_vnet ni) \<le> int (ni_virtual_networks ni) * int (ni_vc_per_vnet ni)"
      using assms(2) by (intro mult_right_mono) auto
    then have "0 \<le> x" "x < int (ni_vc_per_vnet ni * ni_virtual_networks ni)" using x
      by (auto simp: mult.commute intro: order.trans [rotated])
    then show "\<exists>b. bindR (at (ni_niOutVcs ni) x) (\<lambda>b.
       if fb_isReady now b then bindR (at (ni_out_vcs_enqueue_time ni) x) (\<lambda>t. bindR (at (ni_out_vcs_enqueue_time ni) (int c)) (\<lambda>t'. Inr (t < t')))
       else Inr False) = Inr b" using assms by (cases "fb_isReady now (ni_niOutVcs ni ! nat x)") (auto simp: vcs_ok_def at_ok)
  qed
  then show ?thesis by (auto simp: is_candidate_vc_def)
qed

lemma schedule_scan_ok:
  assumes "chans_ok R ni" and "p < length (ni_outPorts ni)" and "c < length (ni_niOutVcs ni)"
  shows "\<exists>ni' reqs. schedule_scan env period now p n (int c) ni = Inr (ni', reqs) \<and> chans_ok R ni' \<and> sched_frame ni ni'"
  using assms(3)
proof (induction n arbitrary: c)
  case 0
  then show ?case using assms(1) sched_frame_refl by simp
next
  case (Suc n)
  let ?K = "length (ni_niOutVcs ni)"
  define d where "d = (if c + 1 = ?K then 0 else c + 1)"
  have d: "d < ?K" using Suc.prems by (auto simp: d_def)
  have dd: "(if int c + 1 = int ?K then 0 else int c + 1) = int d" by (auto simp: d_def)
  have vo: "vcs_ok ni" using assms(1) by (simp add: chans_ok_def)
  then have K: "?K = ni_vc_per_vnet ni * ni_virtual_networks ni" "?K = length (ni_outVcState ni)" "0 < ni_vc_per_vnet ni" by (simp_all add: vcs_ok_def)
  have v: "d div ni_vc_per_vnet ni < ni_virtual_networks ni" using channel_vnet d K(1) by metis
  have g: "ni_get_vnet (int d) ni = Inr (int (d div ni_vc_per_vnet ni))"
    unfolding ni_get_vnet_def by (rule vnet_search_ok) (use v K(3) in simp_all)
  from is_candidate_returns [OF vo v d, of env now] obtain cand where
    cand: "is_candidate_vc env now (int (d div ni_vc_per_vnet ni)) (int d) ni = Inr cand" by blast
  let ?send = "isVnetSupported (op_vnets (ni_outPorts ni ! p)) (int (d div ni_vc_per_vnet ni)) \<and> fb_isReady now (ni_niOutVcs ni ! d)
     \<and> ov_has_credit (ni_outVcState ni ! d) \<and> cand"
  have step: "schedule_scan env period now p (Suc n) (int c) ni =
      (if ?send then send_from_vc period now p (int d) ni else schedule_scan env period now p n (int d) ni)"
    using g cand d K(2) unfolding schedule_scan.simps dd Let_def by simp
  show ?case
  proof (cases ?send)
    case True
    then obtain f fs where "fb_buffer (ni_niOutVcs ni ! d) = f # fs" by (auto simp: fb_isReady_def split: list.splits)
    then show ?thesis unfolding step if_P [OF True] by (rule send_from_vc_ok [OF assms(1,2) d]) (use True in simp)
  next
    case False
    then show ?thesis unfolding step if_not_P [OF False] by (intro Suc.IH [OF d])
  qed
qed

lemma scheduleOutputLink_ok:
  assumes "chans_ok R ni"
  shows "\<exists>ni' reqs. scheduleOutputLink env period now ni = Inr (ni', reqs) \<and> chans_ok R ni' \<and> sched_frame ni ni'"
proof -
  let ?I = "\<lambda>(ni', reqs). chans_ok R ni' \<and> sched_frame ni ni'"
  have "\<exists>t. loopR (scheduleOutputPort env period now) [0..<length (ni_outPorts ni)] (ni, []) = Inr t \<and> ?I t"
  proof (rule loopR_succeeds)
    show "?I (ni, [])" using assms sched_frame_refl by simp
    fix p and st :: "'a NetworkInterface \<times> ni_req list"
    assume p: "p \<in> set [0..<length (ni_outPorts ni)]" and "?I st"
    then obtain ni1 reqs where st: "st = (ni1, reqs)" "chans_ok R ni1" "sched_frame ni ni1" by (cases st) auto
    have p1: "p < length (ni_outPorts ni1)" using p sched_frameD [OF st(3)] by simp
    then have "port_ok (ni_vc_per_vnet ni1 * ni_virtual_networks ni1) (ni_outPorts ni1 ! p)" using st(2) by (simp add: chans_ok_def ports_ok_def)
    moreover have "length (ni_niOutVcs ni1) = ni_vc_per_vnet ni1 * ni_virtual_networks ni1" using st(2) by (simp add: chans_ok_def vcs_ok_def)
    ultimately have "int (nat (op_vcRoundRobin (ni_outPorts ni1 ! p))) = op_vcRoundRobin (ni_outPorts ni1 ! p)"
      "nat (op_vcRoundRobin (ni_outPorts ni1 ! p)) < length (ni_niOutVcs ni1)" by (auto simp: port_ok_def nat_less_iff)
    with schedule_scan_ok [OF st(2) p1 this(2), of env period now "length (ni_niOutVcs ni1)"] obtain ni2 rs where
      "schedule_scan env period now p (length (ni_niOutVcs ni1)) (op_vcRoundRobin (ni_outPorts ni1 ! p)) ni1 = Inr (ni2, rs)"
      "chans_ok R ni2" "sched_frame ni1 ni2" by auto
    then show "\<exists>t. scheduleOutputPort env period now p st = Inr t \<and> ?I t"
      using st sched_frame_trans by (auto simp: scheduleOutputPort_def)
  qed
  then show ?thesis by (auto simp: scheduleOutputLink_def)
qed

section \<open>Handing messages to the protocol\<close>

definition ej_frame :: "'p NetworkInterface \<Rightarrow> 'p NetworkInterface \<Rightarrow> bool" where
  "ej_frame ni ni' \<longleftrightarrow> ni' = ni\<lparr>ni_outNode := ni_outNode ni', ni_inPorts := ni_inPorts ni', ni_stall_count := ni_stall_count ni'\<rparr>
     \<and> map ip_bitWidth (ni_inPorts ni') = map ip_bitWidth (ni_inPorts ni)"

lemma ej_frame_refl: "ej_frame ni ni"
  by (simp add: ej_frame_def)

lemma ej_frame_trans: "ej_frame a b \<Longrightarrow> ej_frame b c \<Longrightarrow> ej_frame a c"
  by (cases a; cases b; cases c) (simp add: ej_frame_def)

lemma ej_frameD:
  assumes "ej_frame ni ni'"
  shows "ni_virtual_networks ni' = ni_virtual_networks ni" "ni_vc_per_vnet ni' = ni_vc_per_vnet ni" "ni_outPorts ni' = ni_outPorts ni"
    "ni_deadlock_threshold ni' = ni_deadlock_threshold ni" "ni_inNode ni' = ni_inNode ni" "ni_niOutVcs ni' = ni_niOutVcs ni"
    "ni_outVcState ni' = ni_outVcState ni" "ni_vc_busy_counter ni' = ni_vc_busy_counter ni" "ni_vc_allocator ni' = ni_vc_allocator ni"
    "ni_out_vcs_enqueue_time ni' = ni_out_vcs_enqueue_time ni" "map ip_bitWidth (ni_inPorts ni') = map ip_bitWidth (ni_inPorts ni)"
  using assms by (cases ni; cases ni'; simp add: ej_frame_def)+

lemma ej_frame_ports: "ej_frame ni ni' \<Longrightarrow> length (ni_inPorts ni') = length (ni_inPorts ni)"
  using ej_frameD(11) by (metis length_map)

text \<open>What ejection keeps.\<close>

definition ej_ok :: "net_env \<Rightarrow> nat \<Rightarrow> nat \<Rightarrow> Tick \<Rightarrow> 'p Message list \<Rightarrow> 'p NetworkInterface \<times> net_stats \<Rightarrow> bool" where
  "ej_ok env R period now heap = (\<lambda>(ni, s). outs_ok env period now ni \<and> stalls_ok now heap ni \<and> stats_ok (ni_virtual_networks ni) R s)"

text \<open>The books of an interface: messages handed to the protocol and still in its buffers, tail flits that wait, and the
  credits that leave, those that free a channel among them.\<close>

definition waiting_messages :: "'p MessageBuffer option \<Rightarrow> nat" where
  "waiting_messages bo = (case bo of None \<Rightarrow> 0 | Some b \<Rightarrow> length (mb_prio_heap b))"

definition handed :: "'p NetworkInterface \<Rightarrow> nat" where
  "handed ni = sum_list (map waiting_messages (ni_outNode ni))"

definition stalled_tails :: "'p NetworkInterface \<Rightarrow> nat" where
  "stalled_tails ni = sum_list (map (\<lambda>p. length (ip_stall_queue p)) (ni_inPorts ni))"

definition credits_out :: "'p NetworkInterface \<Rightarrow> nat" where
  "credits_out ni = sum_list (map (\<lambda>p. length (fb_buffer (ip_outCreditQueue p))) (ni_inPorts ni))"

definition frees_out :: "'p NetworkInterface \<Rightarrow> nat" where
  "frees_out ni = sum_list (map (\<lambda>p. length (filter f_is_free_signal (fb_buffer (ip_outCreditQueue p)))) (ni_inPorts ni))"

definition booked :: "nat \<Rightarrow> nat \<Rightarrow> 'p NetworkInterface \<Rightarrow> 'p NetworkInterface \<Rightarrow> bool" where
  "booked flits tails ni ni' \<longleftrightarrow> handed ni' + frees_out ni = handed ni + frees_out ni'
     \<and> handed ni' + stalled_tails ni' = handed ni + stalled_tails ni + tails
     \<and> credits_out ni' + stalled_tails ni' = credits_out ni + stalled_tails ni + flits"

lemma booked_trans: "booked a b x y \<Longrightarrow> booked c d y z \<Longrightarrow> booked (a + c) (b + d) x z"
  unfolding booked_def by linarith

lemma booked_same: "handed ni' = handed ni \<Longrightarrow> ni_inPorts ni' = ni_inPorts ni \<Longrightarrow> booked 0 0 ni ni'"
  by (simp add: booked_def stalled_tails_def credits_out_def frees_out_def)

lemma sum_list_at: "i < length xs \<Longrightarrow> sum_list (map g (xs[i := q])) + g (xs ! i) = sum_list (map g xs) + (g q :: nat)"
  using sum_list_update_nat [of i "map g xs" "g q"] by (simp add: map_update)

lemma handed_set:
  "v < length (ni_outNode ni) \<Longrightarrow> handed (ni\<lparr>ni_outNode := (ni_outNode ni)[v := bo]\<rparr>) + waiting_messages (ni_outNode ni ! v) = handed ni + waiting_messages bo"
  by (simp add: handed_def sum_list_at)

lemma handed_same:
  "v < length (ni_outNode ni) \<Longrightarrow> ni_outNode ni ! v = Some b \<Longrightarrow> mb_prio_heap b' = mb_prio_heap b
     \<Longrightarrow> handed (ni\<lparr>ni_outNode := (ni_outNode ni)[v := Some b']\<rparr>) = handed ni"
  using handed_set [of v ni "Some b'"] by (simp add: waiting_messages_def)

lemma outs_ok_set:
  assumes "outs_ok env period now ni" and "v < ni_virtual_networks ni" and "outNode_ok env period now (Some b)"
  shows "set_outNode (int v) b ni = Inr (ni\<lparr>ni_outNode := (ni_outNode ni)[v := Some b]\<rparr>)"
    and "outs_ok env period now (ni\<lparr>ni_outNode := (ni_outNode ni)[v := Some b]\<rparr>)"
proof -
  have "\<forall>x \<in> set ((ni_outNode ni)[v := Some b]). outNode_ok env period now x"
    by (rule ball_update) (use assms in \<open>simp_all add: outs_ok_def\<close>)
  then show "outs_ok env period now (ni\<lparr>ni_outNode := (ni_outNode ni)[v := Some b]\<rparr>)" using assms(1) by (simp add: outs_ok_def)
qed (use assms in \<open>simp add: set_outNode_def outs_ok_def\<close>)

lemma outs_ok_at:
  assumes "outs_ok env period now ni" and "v < ni_virtual_networks ni"
  obtains b where "outNode_at (int v) ni = Inr b" "ni_outNode ni ! v = Some b" "mb_inv (now, b)" "fifo_ok env (now + period) b"
    "outNode_ok env period now (Some b)"
proof -
  have "v < length (ni_outNode ni)" using assms by (simp add: outs_ok_def)
  moreover from this have "outNode_ok env period now (ni_outNode ni ! v)" using assms(1) by (simp add: outs_ok_def)
  ultimately show thesis using that by (auto simp: outNode_ok_def outNode_at_def)
qed

lemma slots_answer:
  assumes "outNode_ok env period now (Some b)"
  shows "outNode_ok env period now (Some (snd (mb_areNSlotsAvailable n now b)))"
    and "fst (mb_areNSlotsAvailable n now b) \<Longrightarrow> snd (mb_areNSlotsAvailable n now b) = b"
proof -
  have "fifo_ok env (now + period) (snd (mb_areNSlotsAvailable n now b)) = fifo_ok env (now + period) b"
    by (simp add: fifo_ok_def mb_areNSlotsAvailable_def Let_def)
  then show "outNode_ok env period now (Some (snd (mb_areNSlotsAvailable n now b)))"
    using assms mb_inv_other(4) [of now b n] by (simp add: outNode_ok_def)
  have "snd (if A then (True, b) else if C then (True, b) else (False, b')) = b" if "fst (if A then (True, b) else if C then (True, b) else (False, b'))" for A C b'
    using that by (cases A; cases C) simp_all
  then show "fst (mb_areNSlotsAvailable n now b) \<Longrightarrow> snd (mb_areNSlotsAvailable n now b) = b"
    unfolding mb_areNSlotsAvailable_def Let_def case_prod_beta by blast
qed

lemma outNode_available_ok:
  assumes ok: "outs_ok env period now ni" and v: "v < ni_virtual_networks ni"
  shows "\<exists>r b. outNode_available now (int v) ni = Inr (r, ni\<lparr>ni_outNode := (ni_outNode ni)[v := Some b]\<rparr>)
    \<and> outs_ok env period now (ni\<lparr>ni_outNode := (ni_outNode ni)[v := Some b]\<rparr>) \<and> (r \<longrightarrow> fst (mb_areNSlotsAvailable 1 now b))
    \<and> handed (ni\<lparr>ni_outNode := (ni_outNode ni)[v := Some b]\<rparr>) = handed ni"
proof -
  have len: "v < length (ni_outNode ni)" using ok v by (simp add: outs_ok_def)
  from outs_ok_at [OF ok v] obtain b where b: "outNode_at (int v) ni = Inr b" "outNode_ok env period now (Some b)" "ni_outNode ni ! v = Some b" by metis
  note S = slots_answer [OF b(2), of 1]
  obtain r b' where r: "mb_areNSlotsAvailable 1 now b = (r, b')" by force
  have "outNode_available now (int v) ni = Inr (r, ni\<lparr>ni_outNode := (ni_outNode ni)[v := Some b']\<rparr>)"
    using b(1) r S(1) outs_ok_set(1) [OF ok v, of b'] by (simp add: outNode_available_def)
  moreover have "r \<longrightarrow> fst (mb_areNSlotsAvailable 1 now b')" using r S(2) by auto
  moreover have "mb_prio_heap (snd (mb_areNSlotsAvailable 1 now b)) = mb_prio_heap b" by (simp add: mb_areNSlotsAvailable_def Let_def)
  then have "handed (ni\<lparr>ni_outNode := (ni_outNode ni)[v := Some b']\<rparr>) = handed ni" using handed_same [OF len b(3), of b'] r by simp
  ultimately show ?thesis using outs_ok_set(2) [OF ok v, of b'] S(1) r by auto
qed

lemma incrementStats_ok:
  assumes "stats_ok V R s" and "0 \<le> f_vnet f" and "f_vnet f < int V"
  shows "\<exists>s'. incrementStats period now f s = Inr s' \<and> stats_ok V R s'"
proof -
  define v where "v = nat (f_vnet f)"
  have v: "f_vnet f = int v" "v < V" using assms(2,3) by (auto simp: v_def nat_less_iff)
  show ?thesis using assms(1) v
    by (cases "f_type f = TAIL \<or> f_type f = HEAD_TAIL")
      (simp_all add: incrementStats_def increment_received_flits_def increment_flit_network_latency_def increment_flit_queueing_latency_def
        increment_received_packets_def increment_packet_network_latency_def increment_packet_queueing_latency_def increment_total_hops_def
        add_at_ok stats_ok_def Let_def)
qed

lemma stalls_ok_port:
  assumes "stalls_ok now heap ni" and "\<forall>f \<in> set (ip_stall_queue q). tail_ok (ni_virtual_networks ni) now heap f"
  shows "stalls_ok now heap (ni\<lparr>ni_inPorts := (ni_inPorts ni)[i := q]\<rparr>)"
  unfolding stalls_ok_def using ball_update [of "ni_inPorts ni" "\<lambda>p. \<forall>f \<in> set (ip_stall_queue p). tail_ok (ni_virtual_networks ni) now heap f" q i] assms
  by (simp add: stalls_ok_def)

lemma on_inPort_ok:
  assumes "ej_ok env R period now heap (ni, s)" and "i < length (ni_inPorts ni)" and "ip_bitWidth (g (ni_inPorts ni ! i)) = ip_bitWidth (ni_inPorts ni ! i)"
    and "\<forall>f \<in> set (ip_stall_queue (g (ni_inPorts ni ! i))). tail_ok (ni_virtual_networks ni) now heap f"
  shows "ej_ok env R period now heap (on_inPort g i ni, s)" and "ej_frame ni (on_inPort g i ni)"
  using assms stalls_ok_port [of now heap ni "g (ni_inPorts ni ! i)" i]
  by (auto simp: ej_ok_def on_inPort_def outs_ok_def ej_frame_def map_update_same)

lemma stall_queue_ok: "stalls_ok now heap ni \<Longrightarrow> i < length (ni_inPorts ni) \<Longrightarrow> f \<in> set (ip_stall_queue (ni_inPorts ni ! i))
    \<Longrightarrow> tail_ok (ni_virtual_networks ni) now heap f"
  by (meson nth_mem stalls_ok_def)

definition ejected :: "'p NetworkInterface \<Rightarrow> 'p NetworkInterface \<Rightarrow> bool" where
  "ejected ni ni' \<longleftrightarrow> handed ni' = Suc (handed ni) \<and> frees_out ni' = Suc (frees_out ni) \<and> credits_out ni' = Suc (credits_out ni)
     \<and> map ip_stall_queue (ni_inPorts ni') = map ip_stall_queue (ni_inPorts ni)"

lemma ip_sendCredit_fields [simp]:
  "ip_stall_queue (ip_sendCredit c p) = ip_stall_queue p" "ip_bitWidth (ip_sendCredit c p) = ip_bitWidth p"
  "fb_buffer (ip_outCreditQueue (ip_sendCredit c p)) = fb_buffer (ip_outCreditQueue p) @ [c]"
  by (simp_all add: ip_sendCredit_def fb_insert_def)

lemma send_credit_books:
  assumes "i < length (ni_inPorts ni)"
  shows "credits_out (on_inPort (ip_sendCredit c) i ni) = Suc (credits_out ni)"
    and "frees_out (on_inPort (ip_sendCredit c) i ni) = frees_out ni + (if f_is_free_signal c then 1 else 0)"
    and "handed (on_inPort (ip_sendCredit c) i ni) = handed ni"
    and "map ip_stall_queue (ni_inPorts (on_inPort (ip_sendCredit c) i ni)) = map ip_stall_queue (ni_inPorts ni)"
  using sum_list_at [OF assms, of "\<lambda>p. length (fb_buffer (ip_outCreditQueue p))" "ip_sendCredit c (ni_inPorts ni ! i)"]
    sum_list_at [OF assms, of "\<lambda>p. length (filter f_is_free_signal (fb_buffer (ip_outCreditQueue p)))" "ip_sendCredit c (ni_inPorts ni ! i)"]
  by (simp_all add: on_inPort_def credits_out_def frees_out_def handed_def map_update_same)

lemma stalled_tails_cong:
  fixes ni ni' :: "'p NetworkInterface"
  assumes "map ip_stall_queue (ni_inPorts ni') = map ip_stall_queue (ni_inPorts ni)"
  shows "stalled_tails ni' = stalled_tails ni"
proof -
  have eq: "stalled_tails x = sum_list (map length (map ip_stall_queue (ni_inPorts x)))" for x :: "'p NetworkInterface"
    unfolding stalled_tails_def by (simp add: o_def)
  show ?thesis unfolding eq assms ..
qed

lemma ejected_booked: "ejected ni ni' \<Longrightarrow> booked 1 1 ni ni'"
  using stalled_tails_cong [of ni' ni] by (simp add: ejected_def booked_def)

lemma eject_ok:
  assumes ok: "ej_ok env R period now heap (ni, s)" and f: "tail_ok (ni_virtual_networks ni) now heap f" and i: "i < length (ni_inPorts ni)"
    and b: "ni_outNode ni ! nat (f_vnet f) = Some b" and room: "fst (mb_areNSlotsAvailable 1 now b)"
    and clk: "0 < period" "clockEdge_at period now 0 = now"
  shows "\<exists>ni' s' rs. eject env period now nd heap i f (ni, s) = Inr (ni', s', rs) \<and> ej_ok env R period now heap (ni', s') \<and> ej_frame ni ni'
    \<and> ejected ni ni'"
proof -
  define v where "v = nat (f_vnet f)"
  have v: "f_vnet f = int v" "v < ni_virtual_networks ni" using f by (auto simp: tail_ok_def v_def nat_less_iff)
  from f obtain p where p: "p < length heap" "f_msg_ptr f = Some p" "msg_LastEnqueueTime (heap ! p) \<le> now" by (auto simp: tail_ok_def)
  have oo: "outs_ok env period now ni" and st: "stats_ok (ni_virtual_networks ni) R s" and so: "stalls_ok now heap ni" using ok by (simp_all add: ej_ok_def)
  have a: "outNode_at (int v) ni = Inr b" "mb_inv (now, b)" "fifo_ok env (now + period) b"
    by (rule outs_ok_at [OF oo v(2)], use b in \<open>simp add: v_def\<close>)+
  from enqueue_succeeds [OF a(2) room clk(1) p(3) a(3)] obtain m' b' rs where
    e: "mb_enqueue (ne_flags env) (ne_draw env) now period (heap ! p) b = Inr (m', b', rs)" "mb_inv (now, b')" "fifo_ok env (now + period) b'"
      "length (mb_prio_heap b') = Suc (length (mb_prio_heap b))" by blast
  then have b': "outNode_ok env period now (Some b')" by (simp add: outNode_ok_def)
  let ?ni = "ni\<lparr>ni_outNode := (ni_outNode ni)[v := Some b']\<rparr>" and ?c = "Credit_new nd (f_vc f) True now"
  from incrementStats_ok [OF st, of f period now] v obtain s' where s': "incrementStats period now f s = Inr s'" "stats_ok (ni_virtual_networks ni) R s'" by auto
  have ok1: "ej_ok env R period now heap (?ni, s')" using outs_ok_set(2) [OF oo v(2) b'] so s'(2) by (simp add: ej_ok_def stalls_ok_def)
  have fr1: "ej_frame ni ?ni" by (simp add: ej_frame_def)
  have "eject env period now nd heap i f (ni, s) = Inr (on_inPort (ip_sendCredit ?c) i ?ni, s', map (Ni_protocol (int v)) rs)"
    using v(1) a(1) p e(1) clk(2) outs_ok_set(1) [OF oo v(2) b'] s'(1) by (simp add: eject_def flit_message_def)
  moreover have "ej_ok env R period now heap (on_inPort (ip_sendCredit ?c) i ?ni, s')" "ej_frame ?ni (on_inPort (ip_sendCredit ?c) i ?ni)"
    by (rule on_inPort_ok [OF ok1]; use i stall_queue_ok [OF so i] in simp)+
  moreover have "ejected ni (on_inPort (ip_sendCredit ?c) i ?ni)"
  proof -
    have "v < length (ni_outNode ni)" using oo v(2) by (simp add: outs_ok_def)
    then have "handed ?ni = Suc (handed ni)" using handed_set [of v ni "Some b'"] b e(4) by (simp add: waiting_messages_def v_def)
    moreover have "f_is_free_signal ?c" by (simp add: Credit_new_def)
    ultimately show ?thesis using send_credit_books [of i ?ni ?c] i by (simp add: ejected_def credits_out_def frees_out_def)
  qed
  ultimately show ?thesis using ej_frame_trans [OF fr1] by blast
qed

lemma available_ok:
  assumes "ej_ok env R period now heap (ni, s)" and "tail_ok (ni_virtual_networks ni) now heap f"
  shows "\<exists>r ni'. outNode_available now (f_vnet f) ni = Inr (r, ni') \<and> ej_ok env R period now heap (ni', s) \<and> ej_frame ni ni'
    \<and> ni_inPorts ni' = ni_inPorts ni \<and> handed ni' = handed ni
    \<and> (r \<longrightarrow> (\<exists>b. ni_outNode ni' ! nat (f_vnet f) = Some b \<and> fst (mb_areNSlotsAvailable 1 now b)))"
proof -
  define v where "v = nat (f_vnet f)"
  have v: "f_vnet f = int v" "v < ni_virtual_networks ni" using assms(2) by (auto simp: tail_ok_def v_def nat_less_iff)
  have oo: "outs_ok env period now ni" using assms(1) by (simp add: ej_ok_def)
  then have len: "v < length (ni_outNode ni)" using v(2) by (simp add: outs_ok_def)
  from outNode_available_ok [OF oo v(2)] obtain r b where
    r: "outNode_available now (int v) ni = Inr (r, ni\<lparr>ni_outNode := (ni_outNode ni)[v := Some b]\<rparr>)"
      "outs_ok env period now (ni\<lparr>ni_outNode := (ni_outNode ni)[v := Some b]\<rparr>)" "r \<longrightarrow> fst (mb_areNSlotsAvailable 1 now b)"
      "handed (ni\<lparr>ni_outNode := (ni_outNode ni)[v := Some b]\<rparr>) = handed ni" by blast
  then show ?thesis using assms(1) v len
    by (intro exI [of _ r] exI [of _ "ni\<lparr>ni_outNode := (ni_outNode ni)[v := Some b]\<rparr>"]) (auto simp: ej_ok_def stalls_ok_def ej_frame_def)
qed

lemma callback_ok:
  assumes ok: "ej_ok env R period now heap (ni, s)" and v: "0 \<le> v" "v < int (ni_virtual_networks ni)"
    and g: "\<And>b. outNode_ok env period now (Some (g b)) = outNode_ok env period now (Some b)" "\<And>b. mb_prio_heap (g b) = mb_prio_heap b"
  shows "\<exists>ni'. bindR (outNode_at v ni) (\<lambda>b. set_outNode v (g b) ni) = Inr ni' \<and> ej_ok env R period now heap (ni', s) \<and> ej_frame ni ni'
    \<and> ni_inPorts ni' = ni_inPorts ni \<and> handed ni' = handed ni"
proof -
  obtain k where k: "v = int k" "k < ni_virtual_networks ni" using v by (metis of_nat_less_iff zero_le_imp_eq_int)
  have oo: "outs_ok env period now ni" using ok by (simp add: ej_ok_def)
  then have len: "k < length (ni_outNode ni)" using k by (simp add: outs_ok_def)
  from outs_ok_at [OF oo k(2)] obtain b where b: "outNode_at (int k) ni = Inr b" "ni_outNode ni ! k = Some b" "outNode_ok env period now (Some b)" by metis
  note S = outs_ok_set [OF oo k(2), of "g b", unfolded g(1), OF b(3)]
  have "handed (ni\<lparr>ni_outNode := (ni_outNode ni)[k := Some (g b)]\<rparr>) = handed ni" by (rule handed_same [OF len b(2) g(2)])
  then show ?thesis using S b(1) ok k(1)
    by (intro exI [of _ "ni\<lparr>ni_outNode := (ni_outNode ni)[k := Some (g b)]\<rparr>"]) (simp add: ej_ok_def stalls_ok_def ej_frame_def)
qed

lemma callback_heap [simp]:
  "mb_prio_heap (mb_registerDequeueCallback b) = mb_prio_heap b" "mb_prio_heap (mb_unregisterDequeueCallback b) = mb_prio_heap b"
  by (simp_all add: mb_registerDequeueCallback_def mb_unregisterDequeueCallback_def)

lemma set_stall_queue:
  assumes ok: "ej_ok env R period now heap (ni, s)" and i: "i < length (ni_inPorts ni)" and q: "\<forall>f \<in> set q. tail_ok (ni_virtual_networks ni) now heap f"
    and cs: "length cs = length (ni_stall_count ni)"
  defines "ni' \<equiv> (on_inPort (\<lambda>p. p\<lparr>ip_stall_queue := q\<rparr>) i ni)\<lparr>ni_stall_count := cs\<rparr>"
  shows "ej_ok env R period now heap (ni', s)" and "ej_frame ni ni'" and "handed ni' = handed ni" and "credits_out ni' = credits_out ni"
    and "frees_out ni' = frees_out ni" and "stalled_tails ni' + length (ip_stall_queue (ni_inPorts ni ! i)) = stalled_tails ni + length q"
proof -
  note P = on_inPort_ok [OF ok i, of "\<lambda>p. p\<lparr>ip_stall_queue := q\<rparr>"]
  show "ej_ok env R period now heap (ni', s)" using P(1) q cs unfolding ni'_def by (simp add: ej_ok_def outs_ok_def stalls_ok_def on_inPort_def)
  show "ej_frame ni ni'" by (simp add: ni'_def ej_frame_def on_inPort_def map_update_same)
  show "stalled_tails ni' + length (ip_stall_queue (ni_inPorts ni ! i)) = stalled_tails ni + length q"
    using sum_list_at [OF i, of "\<lambda>p. length (ip_stall_queue p)"] by (simp add: ni'_def stalled_tails_def on_inPort_def)
qed (simp_all add: ni'_def handed_def credits_out_def frees_out_def on_inPort_def map_update_same)

lemma set_flag:
  fixes x :: bool
  assumes ok: "ej_ok env R period now heap (ni, s)" and i: "i < length (ni_inPorts ni)"
  defines "ni' \<equiv> on_inPort (\<lambda>p. p\<lparr>ip_messageEnqueuedThisCycle := x\<rparr>) i ni"
  shows "ej_ok env R period now heap (ni', s)" and "ej_frame ni ni'" and "booked 0 0 ni ni'"
    and "map ip_stall_queue (ni_inPorts ni') = map ip_stall_queue (ni_inPorts ni)"
proof -
  have so: "stalls_ok now heap ni" using ok by (simp add: ej_ok_def)
  note P = on_inPort_ok [OF ok i, of "\<lambda>p. p\<lparr>ip_messageEnqueuedThisCycle := x\<rparr>"]
  show "ej_ok env R period now heap (ni', s)" "ej_frame ni ni'" using P stall_queue_ok [OF so i] by (simp_all add: ni'_def)
  show "booked 0 0 ni ni'" by (simp add: booked_def ni'_def handed_def credits_out_def frees_out_def stalled_tails_def on_inPort_def map_update_same)
  show "map ip_stall_queue (ni_inPorts ni') = map ip_stall_queue (ni_inPorts ni)" by (simp add: ni'_def on_inPort_def map_update_same)
qed

lemma nth_stall_queue:
  "map ip_stall_queue (ni_inPorts ni') = map ip_stall_queue (ni_inPorts ni) \<Longrightarrow> i < length (ni_inPorts ni) \<Longrightarrow>
     ip_stall_queue (ni_inPorts ni' ! i) = ip_stall_queue (ni_inPorts ni ! i)"
  by (metis length_map nth_map)

text \<open>A message of the stall queue is handed over: everything after the ejection itself.\<close>

lemma unstall_ok:
  assumes ok: "ej_ok env R period now heap (ni, s)" and i: "i < length (ni_inPorts ni)" and f: "0 \<le> v" "v < int (ni_virtual_networks ni)"
    and q: "ip_stall_queue (ni_inPorts ni ! i) = before @ f # rest"
  shows "\<exists>ni'. bindR (at (ni_stall_count ni) v) (\<lambda>c.
         bindR (put (ni_stall_count ni) v (c - 1)) (\<lambda>cs.
           let ni3 = (on_inPort (\<lambda>p. p\<lparr>ip_stall_queue := before @ rest\<rparr>) i ni)\<lparr>ni_stall_count := cs\<rparr> in
           bindR (if c - 1 = 0
                  then bindR (outNode_at v ni3) (\<lambda>b. set_outNode v (mb_unregisterDequeueCallback b) ni3)
                  else Inr ni3) (\<lambda>ni4.
             Inr (on_inPort (\<lambda>p. p\<lparr>ip_messageEnqueuedThisCycle := True\<rparr>) i ni4, s', rs)))) = Inr (ni', s', rs)
     \<and> ej_ok env R period now heap (ni', s) \<and> ej_frame ni ni' \<and> handed ni' = handed ni \<and> credits_out ni' = credits_out ni
     \<and> frees_out ni' = frees_out ni \<and> Suc (stalled_tails ni') = stalled_tails ni"
proof -
  have len: "length (ni_stall_count ni) = ni_virtual_networks ni" and so: "stalls_ok now heap ni" using ok by (simp_all add: ej_ok_def outs_ok_def)
  let ?c = "ni_stall_count ni ! nat v" and ?cs = "(ni_stall_count ni)[nat v := ni_stall_count ni ! nat v - 1]"
  let ?n3 = "(on_inPort (\<lambda>p. p\<lparr>ip_stall_queue := before @ rest\<rparr>) i ni)\<lparr>ni_stall_count := ?cs\<rparr>"
  have "\<forall>g \<in> set (before @ rest). tail_ok (ni_virtual_networks ni) now heap g" using stall_queue_ok [OF so i] q by auto
  note S = set_stall_queue [OF ok i this, of ?cs]
  have S6: "Suc (stalled_tails ?n3) = stalled_tails ni" using S(6) q by simp
  have V3: "ni_virtual_networks ?n3 = ni_virtual_networks ni" by (simp add: on_inPort_def)
  have "\<exists>n4. (if ?c - 1 = 0 then bindR (outNode_at v ?n3) (\<lambda>b. set_outNode v (mb_unregisterDequeueCallback b) ?n3) else Inr ?n3) = Inr n4
      \<and> ej_ok env R period now heap (n4, s) \<and> ej_frame ?n3 n4 \<and> ni_inPorts n4 = ni_inPorts ?n3 \<and> handed n4 = handed ?n3"
  proof (cases "?c - 1 = 0")
    case True
    show ?thesis unfolding if_P [OF True] by (rule callback_ok [OF S(1)]) (use f V3 in simp_all)
  next
    case False
    then show ?thesis using S(1) ej_frame_refl by auto
  qed
  then obtain n4 where n4: "(if ?c - 1 = 0 then bindR (outNode_at v ?n3) (\<lambda>b. set_outNode v (mb_unregisterDequeueCallback b) ?n3) else Inr ?n3) = Inr n4"
      "ej_ok env R period now heap (n4, s)" "ej_frame ?n3 n4" "ni_inPorts n4 = ni_inPorts ?n3" "handed n4 = handed ?n3" by blast
  have i4: "i < length (ni_inPorts n4)" using i n4(4) by (simp add: on_inPort_def)
  note F = set_flag [OF n4(2) i4, of True]
  let ?n5 = "on_inPort (\<lambda>p. p\<lparr>ip_messageEnqueuedThisCycle := True\<rparr>) i n4"
  have b4: "booked 0 0 ?n3 n4" by (rule booked_same [OF n4(5,4)])
  have "stalled_tails ?n5 = stalled_tails n4" by (rule stalled_tails_cong [OF F(4)])
  moreover have "stalled_tails n4 = stalled_tails ?n3" "credits_out n4 = credits_out ?n3" "frees_out n4 = frees_out ?n3"
    using n4(4) by (simp_all add: stalled_tails_def credits_out_def frees_out_def)
  ultimately have books: "handed ?n5 = handed ni" "credits_out ?n5 = credits_out ni" "frees_out ?n5 = frees_out ni" "Suc (stalled_tails ?n5) = stalled_tails ni"
    using F(3) n4(5) S(3-5) S6 by (auto simp: booked_def)
  have fr: "ej_frame ni ?n5" by (rule ej_frame_trans [OF ej_frame_trans [OF _ n4(3)] F(2)]) (use S(2) in simp)
  have at: "at (ni_stall_count ni) v = Inr ?c" "put (ni_stall_count ni) v (?c - 1) = Inr ?cs" using f len by (simp_all add: at_ok put_ok)
  show ?thesis unfolding at bindR.simps Let_def n4(1) using F(1) fr books by blast
qed

lemma stall_scan_ok:
  assumes "ej_ok env R period now heap (ni, s)" and "i < length (ni_inPorts ni)" and "ip_stall_queue (ni_inPorts ni ! i) = before @ todo"
    and clk: "0 < period" "clockEdge_at period now 0 = now"
  shows "\<exists>ni' s' rs. stall_scan env period now nd heap i before todo (ni, s) = Inr (ni', s', rs) \<and> ej_ok env R period now heap (ni', s')
    \<and> ej_frame ni ni' \<and> booked 0 0 ni ni'"
  using assms(1-3)
proof (induction todo arbitrary: before ni)
  case Nil
  then show ?case using ej_frame_refl booked_same by auto
next
  case (Cons f rest)
  have f: "tail_ok (ni_virtual_networks ni) now heap f" using Cons.prems stall_queue_ok [of now heap ni i f] by (simp add: ej_ok_def)
  then have v: "0 \<le> f_vnet f" "f_vnet f < int (ni_virtual_networks ni)" by (simp_all add: tail_ok_def)
  from available_ok [OF Cons.prems(1) f] obtain r ni1 where
    r: "outNode_available now (f_vnet f) ni = Inr (r, ni1)" "ej_ok env R period now heap (ni1, s)" "ej_frame ni ni1" "ni_inPorts ni1 = ni_inPorts ni" "handed ni1 = handed ni"
      "r \<longrightarrow> (\<exists>b. ni_outNode ni1 ! nat (f_vnet f) = Some b \<and> fst (mb_areNSlotsAvailable 1 now b))" by blast
  note fr1 = ej_frameD [OF r(3)]
  have b1: "booked 0 0 ni ni1" by (rule booked_same [OF r(5,4)])
  show ?case
  proof (cases r)
    case True
    with r(6) obtain b where b: "ni_outNode ni1 ! nat (f_vnet f) = Some b" "fst (mb_areNSlotsAvailable 1 now b)" by blast
    from eject_ok [OF r(2) _ _ b clk, of i nd] f Cons.prems(2) fr1(1) r(4) obtain ni2 s' rs where
      e: "eject env period now nd heap i f (ni1, s) = Inr (ni2, s', rs)" "ej_ok env R period now heap (ni2, s')" "ej_frame ni1 ni2" "ejected ni1 ni2" by auto
    have i2: "i < length (ni_inPorts ni2)" using Cons.prems(2) r(4) ej_frame_ports [OF e(3)] by simp
    have q2: "ip_stall_queue (ni_inPorts ni2 ! i) = before @ f # rest"
      using nth_stall_queue [of ni2 ni1 i] e(4) Cons.prems(2,3) r(4) by (simp add: ejected_def)
    have V2: "ni_virtual_networks ni2 = ni_virtual_networks ni" using ej_frameD(1) [OF e(3)] fr1(1) by simp
    from unstall_ok [OF e(2) i2 v(1) _ q2, of s' rs] v(2) V2 obtain ni3 where
      u: "stall_scan env period now nd heap i before (f # rest) (ni, s) = Inr (ni3, s', rs)" "ej_ok env R period now heap (ni3, s')" "ej_frame ni2 ni3"
        "handed ni3 = handed ni2" "credits_out ni3 = credits_out ni2" "frees_out ni3 = frees_out ni2" "Suc (stalled_tails ni3) = stalled_tails ni2"
      using r(1) True e(1) clk(2) by auto
    have "booked 0 0 ni1 ni3"
      using e(4) u(4-7) stalled_tails_cong [of ni2 ni1] by (simp add: booked_def ejected_def)
    then have "booked 0 0 ni ni3" using booked_trans [OF b1] by fastforce
    then show ?thesis using u(1,2) ej_frame_trans [OF ej_frame_trans [OF r(3) e(3)] u(3)] by blast
  next
    case False
    have p: "i < length (ni_inPorts ni1)" "ip_stall_queue (ni_inPorts ni1 ! i) = (before @ [f]) @ rest" using Cons.prems(2,3) r(4) by simp_all
    from Cons.IH [OF r(2) p] obtain ni' s' rs where
      "stall_scan env period now nd heap i (before @ [f]) rest (ni1, s) = Inr (ni', s', rs)" "ej_ok env R period now heap (ni', s')"
      "ej_frame ni1 ni'" "booked 0 0 ni1 ni'" by blast
    moreover from this have "booked 0 0 ni ni'" using booked_trans [OF b1] by fastforce
    ultimately show ?thesis using r(1) False clk(2) ej_frame_trans [OF r(3)] by auto
  qed
qed

lemma checkStallQueue_ok:
  assumes ok: "ej_ok env R period now heap (ni, s)" and clk: "0 < period" "clockEdge_at period now 0 = now"
  shows "\<exists>ni' s' rs. checkStallQueue env period now nd heap (ni, s) = Inr (ni', s', rs) \<and> ej_ok env R period now heap (ni', s')
    \<and> ej_frame ni ni' \<and> booked 0 0 ni ni'"
proof -
  let ?I = "\<lambda>(ni', s', rs :: ni_req list). ej_ok env R period now heap (ni', s') \<and> ej_frame ni ni' \<and> booked 0 0 ni ni'"
  have "\<exists>t. loopR (check_stall_port env period now nd heap) [0..<length (ni_inPorts ni)] (ni, s, []) = Inr t \<and> ?I t"
  proof (rule loopR_succeeds)
    show "?I (ni, s, [])" using ok ej_frame_refl booked_same by auto
    fix i and st :: "'a NetworkInterface \<times> net_stats \<times> ni_req list"
    assume i: "i \<in> set [0..<length (ni_inPorts ni)]" and "?I st"
    then obtain ni1 s1 reqs where st: "st = (ni1, s1, reqs)" "ej_ok env R period now heap (ni1, s1)" "ej_frame ni ni1" "booked 0 0 ni ni1" by (cases st) auto
    have i1: "i < length (ni_inPorts ni1)" using i ej_frame_ports [OF st(3)] by simp
    note F = set_flag [OF st(2) i1, of False]
    let ?n = "on_inPort (\<lambda>p. p\<lparr>ip_messageEnqueuedThisCycle := False\<rparr>) i ni1"
    have i2: "i < length (ni_inPorts ?n)" using i1 by (simp add: on_inPort_def)
    from stall_scan_ok [OF F(1) i2 _ clk, of "[]" "ip_stall_queue (ni_inPorts ?n ! i)" nd] obtain ni' s' rs where
      c: "stall_scan env period now nd heap i [] (ip_stall_queue (ni_inPorts ?n ! i)) (?n, s1) = Inr (ni', s', rs)"
        "ej_ok env R period now heap (ni', s')" "ej_frame ?n ni'" "booked 0 0 ?n ni'" by auto
    have "booked 0 0 ni ni'" using booked_trans [OF booked_trans [OF st(4) F(3)] c(4)] by simp
    moreover have "ej_frame ni ni'" by (rule ej_frame_trans [OF ej_frame_trans [OF st(3) F(2)] c(3)])
    ultimately show "\<exists>t. check_stall_port env period now nd heap i st = Inr t \<and> ?I t" using st(1) c(1,2) by (simp add: check_stall_port_def Let_def)
  qed
  then show ?thesis by (auto simp: checkStallQueue_def)
qed

section \<open>Arriving flits\<close>

definition is_tail :: "flit \<Rightarrow> bool" where
  "is_tail f \<longleftrightarrow> f_type f = TAIL \<or> f_type f = HEAD_TAIL"

lemma stall_flit_ok:
  assumes ok: "ej_ok env R period now heap (ni, s)" and i: "i < length (ni_inPorts ni)" and f: "tail_ok (ni_virtual_networks ni) now heap f"
  shows "\<exists>ni'. stall_flit i f ni = Inr ni' \<and> ej_ok env R period now heap (ni', s) \<and> ej_frame ni ni' \<and> booked 1 1 ni ni'"
proof -
  let ?v = "f_vnet f" and ?q = "ip_stall_queue (ni_inPorts ni ! i) @ [f]"
  have v: "0 \<le> ?v" "?v < int (ni_virtual_networks ni)" using f by (simp_all add: tail_ok_def)
  have len: "length (ni_stall_count ni) = ni_virtual_networks ni" and so: "stalls_ok now heap ni" using ok by (simp_all add: ej_ok_def outs_ok_def)
  let ?cs = "(ni_stall_count ni)[nat ?v := ni_stall_count ni ! nat ?v + 1]"
  let ?n = "(on_inPort (\<lambda>p. p\<lparr>ip_stall_queue := ?q\<rparr>) i ni)\<lparr>ni_stall_count := ?cs\<rparr>"
  have "\<forall>g \<in> set ?q. tail_ok (ni_virtual_networks ni) now heap g" using stall_queue_ok [OF so i] f by auto
  note S = set_stall_queue [OF ok i this, of ?cs]
  have eq: "on_inPort (\<lambda>p. p\<lparr>ip_stall_queue := ip_stall_queue p @ [f]\<rparr>) i ni = on_inPort (\<lambda>p. p\<lparr>ip_stall_queue := ?q\<rparr>) i ni" by (simp add: on_inPort_def)
  have "\<exists>ni'. bindR (outNode_at ?v ?n) (\<lambda>b. set_outNode ?v (mb_registerDequeueCallback b) ?n) = Inr ni' \<and> ej_ok env R period now heap (ni', s) \<and> ej_frame ?n ni'
    \<and> ni_inPorts ni' = ni_inPorts ?n \<and> handed ni' = handed ?n"
    by (rule callback_ok [OF S(1)]) (use v in \<open>simp_all add: on_inPort_def\<close>)
  then obtain ni' where c: "bindR (outNode_at ?v ?n) (\<lambda>b. set_outNode ?v (mb_registerDequeueCallback b) ?n) = Inr ni'" "ej_ok env R period now heap (ni', s)" "ej_frame ?n ni'"
    "ni_inPorts ni' = ni_inPorts ?n" "handed ni' = handed ?n" by blast
  have "stall_flit i f ni = Inr ni'" using v len c(1) unfolding stall_flit_def eq by (simp add: at_ok put_ok Let_def)
  moreover have "booked 1 1 ni ?n" using S(3-6) by (simp add: booked_def)
  then have "booked 1 1 ni ni'" using booked_trans [OF _ booked_same [OF c(5,4)], of 1 1 ni] by simp
  moreover have "ej_frame ni ni'" by (rule ej_frame_trans [OF _ c(3)]) (use S(2) in simp)
  ultimately show ?thesis using c(2) by blast
qed

lemma receive_at_port_ok:
  assumes ok: "ej_ok env R period now heap (ni, s)" and i: "i < length (ni_inPorts ni)"
    and f: "0 \<le> f_vnet f" "f_vnet f < int (ni_virtual_networks ni)" "is_tail f \<longrightarrow> tail_ok (ni_virtual_networks ni) now heap f"
    and clk: "0 < period" "clockEdge_at period now 0 = now"
  shows "\<exists>ni' s' rs. receive_at_port env period now nd heap i f (ni, s) = Inr (ni', s', rs) \<and> ej_ok env R period now heap (ni', s')
    \<and> ej_frame ni ni' \<and> booked 1 (if is_tail f then 1 else 0) ni ni'"
proof -
  let ?f = "f\<lparr>f_dequeue_time := now\<rparr>"
  have st: "stats_ok (ni_virtual_networks ni) R s" and so: "stalls_ok now heap ni" using ok by (simp_all add: ej_ok_def)
  show ?thesis
  proof (cases "is_tail f")
    case True
    then have tl: "f_type f = TAIL \<or> f_type f = HEAD_TAIL" by (simp add: is_tail_def)
    have t: "tail_ok (ni_virtual_networks ni) now heap ?f" using f(3) True by (simp add: tail_ok_def)
    let ?ask = "\<not> ip_messageEnqueuedThisCycle (ni_inPorts ni ! i)"
    have "\<exists>r ni1. (if ?ask then outNode_available now (f_vnet ?f) ni else Inr (False, ni)) = Inr (r, ni1) \<and> ej_ok env R period now heap (ni1, s) \<and> ej_frame ni ni1
      \<and> ni_inPorts ni1 = ni_inPorts ni \<and> handed ni1 = handed ni
      \<and> (r \<longrightarrow> (\<exists>b. ni_outNode ni1 ! nat (f_vnet ?f) = Some b \<and> fst (mb_areNSlotsAvailable 1 now b)))"
    proof (cases ?ask)
      case True
      show ?thesis unfolding if_P [OF True] by (rule available_ok [OF ok t])
    next
      case False
      then show ?thesis using ok ej_frame_refl by auto
    qed
    then obtain r ni1 where r: "(if ?ask then outNode_available now (f_vnet ?f) ni else Inr (False, ni)) = Inr (r, ni1)" "ej_ok env R period now heap (ni1, s)"
      "ej_frame ni ni1" "ni_inPorts ni1 = ni_inPorts ni" "handed ni1 = handed ni"
      "r \<longrightarrow> (\<exists>b. ni_outNode ni1 ! nat (f_vnet ?f) = Some b \<and> fst (mb_areNSlotsAvailable 1 now b))" by blast
    have step: "receive_at_port env period now nd heap i f (ni, s) =
        (if r then eject env period now nd heap i ?f (ni1, s) else bindR (stall_flit i ?f ni1) (\<lambda>ni2. Inr (ni2, s, [])))"
    proof -
      have tl': "f_type ?f = TAIL \<or> f_type ?f = HEAD_TAIL" using tl by simp
      show ?thesis unfolding receive_at_port_def prod.case Let_def clk(2) r(1) if_P [OF tl'] bindR.simps ..
    qed
    have t1: "tail_ok (ni_virtual_networks ni1) now heap ?f" using t ej_frameD(1) [OF r(3)] by simp
    have i1: "i < length (ni_inPorts ni1)" using i r(4) by simp
    have b1: "booked 0 0 ni ni1" by (rule booked_same [OF r(5,4)])
    show ?thesis
    proof (cases r)
      case True
      with r(6) obtain b where "ni_outNode ni1 ! nat (f_vnet ?f) = Some b" "fst (mb_areNSlotsAvailable 1 now b)" by blast
      from eject_ok [OF r(2) t1 i1 this clk, of nd] obtain ni2 s' rs where
        e: "eject env period now nd heap i ?f (ni1, s) = Inr (ni2, s', rs)" "ej_ok env R period now heap (ni2, s')" "ej_frame ni1 ni2" "ejected ni1 ni2" by blast
      have "booked 1 1 ni ni2" using booked_trans [OF b1 ejected_booked [OF e(4)]] by simp
      then show ?thesis using step True \<open>is_tail f\<close> e(1,2) ej_frame_trans [OF r(3) e(3)] by simp
    next
      case False
      from stall_flit_ok [OF r(2) i1 t1] obtain ni2 where
        e: "stall_flit i ?f ni1 = Inr ni2" "ej_ok env R period now heap (ni2, s)" "ej_frame ni1 ni2" "booked 1 1 ni1 ni2" by blast
      have "booked 1 1 ni ni2" using booked_trans [OF b1 e(4)] by simp
      then show ?thesis using step False \<open>is_tail f\<close> e(1,2) ej_frame_trans [OF r(3) e(3)] by simp
    qed
  next
    case False
    then have tl: "\<not> (f_type f = TAIL \<or> f_type f = HEAD_TAIL)" by (simp add: is_tail_def)
    from incrementStats_ok [OF st, of ?f period now] f obtain s' where s': "incrementStats period now ?f s = Inr s'" "stats_ok (ni_virtual_networks ni) R s'" by auto
    let ?c = "Credit_new nd (f_vc f) False now"
    have ok1: "ej_ok env R period now heap (ni, s')" using ok s'(2) by (simp add: ej_ok_def)
    have P: "ej_ok env R period now heap (on_inPort (ip_sendCredit ?c) i ni, s')" "ej_frame ni (on_inPort (ip_sendCredit ?c) i ni)"
      by (rule on_inPort_ok [OF ok1 i]; use stall_queue_ok [OF so i] in simp)+
    have "booked 1 0 ni (on_inPort (ip_sendCredit ?c) i ni)"
      using send_credit_books [OF i, of ?c] stalled_tails_cong [OF send_credit_books(4) [OF i, of ?c]] by (simp add: booked_def Credit_new_def)
    then show ?thesis using tl False s'(1) P by (simp add: receive_at_port_def Let_def)
  qed
qed

text \<open>The first flit of a link, and what an interface expects of the flits that have arrived at its ports.\<close>

definition front_flit :: "NetworkLink \<Rightarrow> flit" where
  "front_flit l = hd (fb_buffer (nl_buffer l))"

definition arrival_ok :: "nat \<Rightarrow> Tick \<Rightarrow> 'p Message list \<Rightarrow> InputPort \<Rightarrow> NetworkLink \<Rightarrow> bool" where
  "arrival_ok V now heap p l \<longleftrightarrow> (nl_isReady now l \<longrightarrow> f_width (front_flit l) = ip_bitWidth p
     \<and> 0 \<le> f_vnet (front_flit l) \<and> f_vnet (front_flit l) < int V
     \<and> (is_tail (front_flit l) \<longrightarrow> tail_ok V now heap (front_flit l)))"

definition arrived :: "Tick \<Rightarrow> NetworkLink list \<Rightarrow> nat" where
  "arrived now ls = length (filter (nl_isReady now) ls)"

definition arrived_tails :: "Tick \<Rightarrow> NetworkLink list \<Rightarrow> nat" where
  "arrived_tails now ls = length (filter (\<lambda>l. nl_isReady now l \<and> is_tail (front_flit l)) ls)"

lemma consume_ready:
  assumes "nl_isReady now l"
  shows "\<exists>l'. nl_consumeLink l = Inr (front_flit l, l')"
  using assms by (auto simp: nl_isReady_def fb_isReady_def nl_consumeLink_def fb_getTopFlit_def front_flit_def split: list.splits)

lemma arrivals_ok:
  assumes ok: "ej_ok env R period now heap (ni, s)" and ar: "list_all2 (arrival_ok (ni_virtual_networks ni) now heap) (ni_inPorts ni) in_links"
    and clk: "0 < period" "clockEdge_at period now 0 = now"
  shows "\<exists>ls ni' s' reqs. loopR (ni_wake_inport env period now nd heap) [0..<length (ni_inPorts ni)] (in_links, ni, s, []) = Inr (ls, ni', s', reqs)
    \<and> ej_ok env R period now heap (ni', s') \<and> ej_frame ni ni' \<and> booked (arrived now in_links) (arrived_tails now in_links) ni ni'"
proof -
  let ?n = "length (ni_inPorts ni)"
  have len: "length in_links = ?n" using ar by (simp add: list_all2_lengthD)
  let ?I = "\<lambda>k (ls, ni', s', reqs :: ni_req list). ej_ok env R period now heap (ni', s') \<and> ej_frame ni ni' \<and> length ls = ?n \<and> drop k ls = drop k in_links
     \<and> booked (arrived now (take k in_links)) (arrived_tails now (take k in_links)) ni ni'"
  have "\<exists>t. loopR (ni_wake_inport env period now nd heap) (map (\<lambda>i. i) [0..<?n]) (in_links, ni, s, []) = Inr t \<and> ?I ?n t"
  proof (rule loopR_upto [where I = ?I])
    show "?I 0 (in_links, ni, s, [])" using ok len by (simp add: arrived_def arrived_tails_def ej_frame_refl booked_same)
    fix k and st :: "NetworkLink list \<times> 'a NetworkInterface \<times> net_stats \<times> ni_req list"
    assume k: "k < ?n" and "?I k st"
    then obtain ls ni1 s1 reqs where st: "st = (ls, ni1, s1, reqs)" "ej_ok env R period now heap (ni1, s1)" "ej_frame ni ni1" "length ls = ?n"
      "drop k ls = drop k in_links" "booked (arrived now (take k in_links)) (arrived_tails now (take k in_links)) ni ni1" by (cases st) auto
    let ?l = "in_links ! k"
    have lk: "ls ! k = ?l" using st(4,5) k len by (metis hd_drop_conv_nth)
    have dk: "drop (Suc k) ls = drop (Suc k) in_links" using st(5) by (metis drop_Suc tl_drop)
    have tk: "take (Suc k) in_links = take k in_links @ [?l]" using k len by (simp add: take_Suc_conv_app_nth)
    have i1: "k < length (ni_inPorts ni1)" using k ej_frame_ports [OF st(3)] by simp
    have V1: "ni_virtual_networks ni1 = ni_virtual_networks ni" by (rule ej_frameD(1) [OF st(3)])
    have w1: "ip_bitWidth (ni_inPorts ni1 ! k) = ip_bitWidth (ni_inPorts ni ! k)" using ej_frameD(11) [OF st(3)] k i1 by (metis nth_map)
    show "\<exists>t. ni_wake_inport env period now nd heap k st = Inr t \<and> ?I (Suc k) t"
    proof (cases "nl_isReady now ?l")
      case True
      have a: "arrival_ok (ni_virtual_networks ni) now heap (ni_inPorts ni ! k) ?l" using ar k by (simp add: list_all2_conv_all_nth)
      from consume_ready [OF True] obtain l' where l': "nl_consumeLink ?l = Inr (front_flit ?l, l')" by blast
      from receive_at_port_ok [OF st(2) i1 _ _ _ clk, of "front_flit ?l" nd] a True V1 obtain ni2 s2 rs where
        r: "receive_at_port env period now nd heap k (front_flit ?l) (ni1, s1) = Inr (ni2, s2, rs)" "ej_ok env R period now heap (ni2, s2)" "ej_frame ni1 ni2"
          "booked 1 (if is_tail (front_flit ?l) then 1 else 0) ni1 ni2" by (auto simp: arrival_ok_def)
      have "ni_wake_inport env period now nd heap k st = Inr (ls[k := l'], ni2, s2, reqs @ rs)"
        using st(1,4) k lk True l' r(1) a w1 by (simp add: ni_wake_inport_def arrival_ok_def)
      moreover have "booked (arrived now (take (Suc k) in_links)) (arrived_tails now (take (Suc k) in_links)) ni ni2"
        using booked_trans [OF st(6) r(4)] True by (simp add: tk arrived_def arrived_tails_def split: if_splits)
      ultimately show ?thesis using r(2) ej_frame_trans [OF st(3) r(3)] st(4) dk by simp
    next
      case False
      then have "ni_wake_inport env period now nd heap k st = Inr st" using st(1,4) k lk by (simp add: ni_wake_inport_def)
      then show ?thesis using st dk False by (simp add: tk arrived_def arrived_tails_def)
    qed
  qed
  then show ?thesis using len by auto
qed

section \<open>Arriving credits\<close>

text \<open>The channels whose credits have arrived, and that their counters have room.\<close>

definition incoming :: "Tick \<Rightarrow> NetworkLink list \<Rightarrow> int list" where
  "incoming now ls = map (\<lambda>l. f_vc (front_flit l)) (filter (nl_isReady now) ls)"

definition credits_fit :: "Tick \<Rightarrow> NetworkLink list \<Rightarrow> OutVcState list \<Rightarrow> bool" where
  "credits_fit now ls ws \<longleftrightarrow> (\<forall>c \<in> set (incoming now ls). 0 \<le> c \<and> c < int (length ws))
     \<and> (\<forall>c < length ws. ov_credit_count (ws ! c) + int (count_list (incoming now ls) (int c)) \<le> ov_max_credit_count (ws ! c))"

lemma credits_fit_le: "credits_fit now ls (ni_outVcState ni) \<Longrightarrow> credits_le ni ni' \<Longrightarrow> credits_fit now ls (ni_outVcState ni')"
  unfolding credits_fit_def credits_le_def list_all2_conv_all_nth by fastforce

lemma receive_credit_ok:
  assumes "c < length (ni_outVcState ni)" and "f_vc f = int c" and "ov_credit_count (ni_outVcState ni ! c) < ov_max_credit_count (ni_outVcState ni ! c)"
  shows "\<exists>w. receive_credit now f ni = Inr (ni\<lparr>ni_outVcState := (ni_outVcState ni)[c := w]\<rparr>)
    \<and> ov_credit_count w = ov_credit_count (ni_outVcState ni ! c) + 1 \<and> ov_max_credit_count w = ov_max_credit_count (ni_outVcState ni ! c)"
proof -
  let ?w = "(ni_outVcState ni ! c)\<lparr>ov_credit_count := ov_credit_count (ni_outVcState ni ! c) + 1\<rparr>"
  show ?thesis using assms
    by (intro exI [of _ "if f_is_free_signal f then ov_setState IDLE now ?w else ?w"])
      (simp add: receive_credit_def on_outVc_def ov_increment_credit_def ov_setState_def Let_def)
qed

lemma credits_fit_step:
  assumes fit: "credits_fit now (l # ls) ws" and r: "nl_isReady now l" and c: "f_vc (front_flit l) = int c"
    and w: "ov_credit_count w = ov_credit_count (ws ! c) + 1" "ov_max_credit_count w = ov_max_credit_count (ws ! c)"
  shows "credits_fit now ls (ws[c := w])"
proof -
  have inc: "incoming now (l # ls) = int c # incoming now ls" using r c by (simp add: incoming_def)
  have cl: "c < length ws" using fit inc by (simp add: credits_fit_def)
  have "ov_credit_count (ws[c := w] ! d) + int (count_list (incoming now ls) (int d)) \<le> ov_max_credit_count (ws[c := w] ! d)" if d: "d < length ws" for d
  proof -
    have "ov_credit_count (ws ! d) + int (count_list (incoming now (l # ls)) (int d)) \<le> ov_max_credit_count (ws ! d)" using fit d by (simp add: credits_fit_def)
    then show ?thesis using w d cl inc by (cases "d = c") auto
  qed
  then show ?thesis using fit inc by (simp add: credits_fit_def)
qed

lemma vcs_ok_credit:
  assumes "vcs_ok ni" and "c < length (ni_outVcState ni)" and "ov_credit_count w = ov_credit_count (ni_outVcState ni ! c) + 1"
    and "ov_credit_count w \<le> ov_max_credit_count w"
  shows "vcs_ok (ni\<lparr>ni_outVcState := (ni_outVcState ni)[c := w]\<rparr>)"
proof -
  have "0 \<le> ov_credit_count (ni_outVcState ni ! c)" using assms(1,2) by (simp add: vcs_ok_def)
  then have "\<forall>x \<in> set ((ni_outVcState ni)[c := w]). 0 \<le> ov_credit_count x \<and> ov_credit_count x \<le> ov_max_credit_count x"
    by (intro ball_update) (use assms in \<open>simp_all add: vcs_ok_def\<close>)
  then show ?thesis using assms(1) by (simp add: vcs_ok_def)
qed

lemma credits_arrive:
  assumes ok: "vcs_ok ni" and fit: "credits_fit now links (ni_outVcState ni)" and len: "length links = length (ni_outPorts ni)"
  shows "\<exists>ls ws. loopR (ni_wake_outport now) [0..<length (ni_outPorts ni)] (links, ni) = Inr (ls, ni\<lparr>ni_outVcState := ws\<rparr>)
    \<and> vcs_ok (ni\<lparr>ni_outVcState := ws\<rparr>)"
proof -
  let ?n = "length (ni_outPorts ni)"
  let ?I = "\<lambda>k (ls, ni'). \<exists>ws. ni' = ni\<lparr>ni_outVcState := ws\<rparr> \<and> vcs_ok ni' \<and> length ls = ?n \<and> drop k ls = drop k links \<and> credits_fit now (drop k links) ws"
  have "\<exists>t. loopR (ni_wake_outport now) (map (\<lambda>i. i) [0..<?n]) (links, ni) = Inr t \<and> ?I ?n t"
  proof (rule loopR_upto [where I = ?I])
    show "?I 0 (links, ni)" using ok fit len by (auto intro!: exI [of _ "ni_outVcState ni"])
    fix k and st :: "NetworkLink list \<times> 'a NetworkInterface"
    assume k: "k < ?n" and "?I k st"
    then obtain ls ws where st: "st = (ls, ni\<lparr>ni_outVcState := ws\<rparr>)" "vcs_ok (ni\<lparr>ni_outVcState := ws\<rparr>)" "length ls = ?n" "drop k ls = drop k links"
      "credits_fit now (drop k links) ws" by (cases st) auto
    let ?l = "links ! k"
    have lk: "ls ! k = ?l" using st(3,4) k len by (metis hd_drop_conv_nth)
    have dk: "drop (Suc k) ls = drop (Suc k) links" using st(4) by (metis drop_Suc tl_drop)
    have cons: "drop k links = ?l # drop (Suc k) links" using k len by (simp add: Cons_nth_drop_Suc)
    show "\<exists>t. ni_wake_outport now k st = Inr t \<and> ?I (Suc k) t"
    proof (cases "nl_isReady now ?l")
      case True
      from consume_ready [OF True] obtain l' where l': "nl_consumeLink ?l = Inr (front_flit ?l, l')" by blast
      have "f_vc (front_flit ?l) \<in> set (incoming now (drop k links))" using True by (simp add: cons incoming_def)
      then obtain c where c: "f_vc (front_flit ?l) = int c" "c < length ws" using st(5) unfolding credits_fit_def by (metis nat_less_iff int_nat_eq)
      have "ov_credit_count (ws ! c) + int (count_list (incoming now (drop k links)) (int c)) \<le> ov_max_credit_count (ws ! c)"
        using st(5) c(2) by (simp add: credits_fit_def)
      then have lt: "ov_credit_count (ws ! c) < ov_max_credit_count (ws ! c)" using True c(1) by (simp add: cons incoming_def)
      from receive_credit_ok [of c "ni\<lparr>ni_outVcState := ws\<rparr>" "front_flit ?l" now] c lt obtain w where
        w: "receive_credit now (front_flit ?l) (ni\<lparr>ni_outVcState := ws\<rparr>) = Inr (ni\<lparr>ni_outVcState := ws[c := w]\<rparr>)"
          "ov_credit_count w = ov_credit_count (ws ! c) + 1" "ov_max_credit_count w = ov_max_credit_count (ws ! c)" by auto
      have "ni_wake_outport now k st = Inr (ls[k := l'], ni\<lparr>ni_outVcState := ws[c := w]\<rparr>)"
        using st(1,3) k lk True l' w(1) by (simp add: ni_wake_outport_def)
      moreover have "vcs_ok (ni\<lparr>ni_outVcState := ws[c := w]\<rparr>)" using vcs_ok_credit [OF st(2), of c w] c(2) w(2,3) lt by simp
      moreover have "credits_fit now (drop (Suc k) links) (ws[c := w])" by (rule credits_fit_step [OF st(5) [unfolded cons] True c(1) w(2,3)])
      ultimately show ?thesis using st(3) dk by auto
    next
      case False
      then have "ni_wake_outport now k st = Inr st" using st(1,3) k lk by (simp add: ni_wake_outport_def)
      moreover have "credits_fit now (drop (Suc k) links) ws" using st(5) False by (simp add: cons credits_fit_def incoming_def)
      ultimately show ?thesis using st dk by auto
    qed
  qed
  then show ?thesis using len by auto
qed

section \<open>The whole wake-up\<close>

lemma ni_ok_parts:
  "ni_ok env R period now heap ni \<longleftrightarrow> chans_ok R ni \<and> 0 < ni_deadlock_threshold ni \<and> ins_ok env R now ni \<and> outs_ok env period now ni \<and> stalls_ok now heap ni"
  by (auto simp: ni_ok_def chans_ok_def)

lemma chans_ok_frame:
  assumes "ej_frame ni ni'" shows "chans_ok R ni' = chans_ok R ni"
  by (simp add: chans_ok_def vcs_ok_def bufs_ok_def flit_fits_def outport_def getOutportForVnet_def ports_ok_def ej_frameD [OF assms])

lemma ni_ok_later:
  assumes ok: "ni_ok env R period now heap ni" and t: "now \<le> t"
  shows "ni_ok env R period t heap ni"
proof -
  have "ins_ok env R t ni" using ok mb_inv_other(1) [OF _ t] unfolding ni_ok_def ins_ok_def inNode_ok_def by blast
  moreover have "outNode_ok env period t bo" if "outNode_ok env period now bo" for bo :: "'a MessageBuffer option"
  proof -
    from that obtain b where b: "bo = Some b" "mb_inv (now, b)" "fifo_ok env (now + period) b" by (auto simp: outNode_ok_def)
    then have "fifo_ok env (t + period) b" using t by (auto simp: fifo_ok_def)
    with b mb_inv_other(1) [OF b(2) t] show ?thesis by (simp add: outNode_ok_def)
  qed
  then have "outs_ok env period t ni" using ok by (simp add: ni_ok_def outs_ok_def)
  moreover have "stalls_ok t heap ni" using ok t unfolding ni_ok_def stalls_ok_def tail_ok_def by (meson order.trans)
  ultimately show ?thesis using ok by (simp add: ni_ok_def)
qed

lemma take_messages_ok:
  assumes ok: "ni_ok env R period now heap ni" and st: "stats_ok (ni_virtual_networks ni) R s"
    and busy: "\<forall>v < length (ni_inNode ni). ni_vc_busy_counter ni ! v < ni_deadlock_threshold ni" and edge: "clockEdge_at period now 0 = now"
  shows "\<exists>ni' cps s' reqs. loopR (take_message env period now) [0..<length (ni_inNode ni)] (ni, heap, s, []) = Inr (ni', heap @ cps, s', reqs)
    \<and> ni_ok env R period now (heap @ cps) ni' \<and> stats_ok (ni_virtual_networks ni) R s' \<and> ni_virtual_networks ni' = ni_virtual_networks ni
    \<and> ni_inPorts ni' = ni_inPorts ni \<and> ni_outNode ni' = ni_outNode ni \<and> length (ni_outPorts ni') = length (ni_outPorts ni) \<and> credits_le ni ni'"
proof -
  let ?n = "length (ni_inNode ni)" and ?V = "ni_virtual_networks ni"
  let ?I = "\<lambda>k (ni', heap', s', reqs :: ni_req list). ni_ok env R period now heap' ni' \<and> stats_ok ?V R s' \<and> (\<exists>cps. heap' = heap @ cps)
     \<and> ni_virtual_networks ni' = ?V \<and> ni_inPorts ni' = ni_inPorts ni \<and> ni_outNode ni' = ni_outNode ni \<and> length (ni_outPorts ni') = length (ni_outPorts ni)
     \<and> credits_le ni ni' \<and> length (ni_inNode ni') = ?n \<and> (\<forall>v. k \<le> v \<and> v < ?n \<longrightarrow> ni_vc_busy_counter ni' ! v < ni_deadlock_threshold ni')"
  have "\<exists>t. loopR (take_message env period now) (map (\<lambda>i. i) [0..<?n]) (ni, heap, s, []) = Inr t \<and> ?I ?n t"
  proof (rule loopR_upto [where I = ?I])
    show "?I 0 (ni, heap, s, [])" using ok st busy credits_le_refl by simp
    fix k and st :: "'a NetworkInterface \<times> 'a Message list \<times> net_stats \<times> ni_req list"
    assume k: "k < ?n" and "?I k st"
    then obtain ni1 cps1 s1 reqs where st: "st = (ni1, heap @ cps1, s1, reqs)" "ni_ok env R period now (heap @ cps1) ni1" "stats_ok ?V R s1"
      "ni_virtual_networks ni1 = ?V" "ni_inPorts ni1 = ni_inPorts ni" "ni_outNode ni1 = ni_outNode ni" "length (ni_outPorts ni1) = length (ni_outPorts ni)"
      "credits_le ni ni1" "length (ni_inNode ni1) = ?n" "\<forall>v. k \<le> v \<and> v < ?n \<longrightarrow> ni_vc_busy_counter ni1 ! v < ni_deadlock_threshold ni1"
      by (cases st) auto
    have "stats_ok (ni_virtual_networks ni1) R s1" "k < length (ni_inNode ni1)" "ni_vc_busy_counter ni1 ! k < ni_deadlock_threshold ni1" using st k by simp_all
    from take_message_ok [OF st(2) this edge, of reqs] obtain ni2 cps2 s2 reqs2 where
      t: "take_message env period now k st = Inr (ni2, (heap @ cps1) @ cps2, s2, reqs2)" "ni_ok env R period now ((heap @ cps1) @ cps2) ni2"
        "stats_ok (ni_virtual_networks ni1) R s2" "took k ni1 ni2" unfolding st(1) by blast
    note D = tookD [OF t(4)]
    have "ni_vc_busy_counter ni2 ! v < ni_deadlock_threshold ni2" if "Suc k \<le> v" "v < ?n" for v
      using D(10) [of v] D(5) st(10) that by simp
    then have "?I (Suc k) (ni2, (heap @ cps1) @ cps2, s2, reqs2)"
      using t(2,3) st(4-9) D(1,3,4,7,8) credits_le_trans [OF st(8) D(9)] by simp
    then show "\<exists>t. take_message env period now k st = Inr t \<and> ?I (Suc k) t" using t(1) by blast
  qed
  then show ?thesis by auto
qed

lemma any_ready_returns:
  assumes "\<forall>bo \<in> set bs. \<forall>b. bo = Some b \<longrightarrow> mb_inv (now, b)"
  shows "\<exists>r rs. any_ready now bs = Inr (r, rs)"
  using assms
proof (induction bs)
  case (Cons bo bs)
  then obtain r rs where IH: "any_ready now bs = Inr (r, rs)" by auto
  show ?case
  proof (cases bo)
    case (Some b)
    with Cons.prems isReady_total [of now b] obtain r' rs' where "mb_isReady now b = Inr (r', rs')" by auto
    then show ?thesis using Some IH by (cases r') auto
  qed (use IH in simp)
qed auto

lemma ni_wakeup_spec:
  assumes ok: "ni_ok env R period now heap ni" and st: "stats_ok (ni_virtual_networks ni) R s" and clk: "0 < period" "clockEdge_at period now 0 = now"
    and busy: "\<forall>v < length (ni_inNode ni). ni_vc_busy_counter ni ! v < ni_deadlock_threshold ni"
    and ar: "list_all2 (arrival_ok (ni_virtual_networks ni) now heap) (ni_inPorts ni) in_links"
    and cr: "length credit_links = length (ni_outPorts ni)" "credits_fit now credit_links (ni_outVcState ni)"
  shows "\<exists>in_links' credit_links' ni' cps s' reqs.
    ni_wakeup env period now nd in_links credit_links (ni, heap, s) = Inr (in_links', credit_links', ni', heap @ cps, s', reqs)
    \<and> stats_ok (ni_virtual_networks ni) R s' \<and> ni_ok env R period now (heap @ cps) ni'
    \<and> booked (arrived now in_links) (arrived_tails now in_links) ni ni'"
proof -
  let ?V = "ni_virtual_networks ni"
  from take_messages_ok [OF ok st busy clk(2)] obtain ni1 cps s1 reqs1 where
    t: "loopR (take_message env period now) [0..<length (ni_inNode ni)] (ni, heap, s, []) = Inr (ni1, heap @ cps, s1, reqs1)"
      "ni_ok env R period now (heap @ cps) ni1" "stats_ok ?V R s1" "ni_virtual_networks ni1 = ?V" "ni_inPorts ni1 = ni_inPorts ni"
      "ni_outNode ni1 = ni_outNode ni" "length (ni_outPorts ni1) = length (ni_outPorts ni)" "credits_le ni ni1" by blast
  let ?h = "heap @ cps"
  from scheduleOutputLink_ok [of R ni1 env period now] t(2) obtain ni2 reqs2 where
    sc: "scheduleOutputLink env period now ni1 = Inr (ni2, reqs2)" "chans_ok R ni2" "sched_frame ni1 ni2" by (auto simp: ni_ok_parts)
  note D = sched_frameD [OF sc(3)]
  have ok2: "ej_ok env R period now ?h (ni2, s1)" using t(2-4) by (simp add: ej_ok_def ni_ok_parts outs_ok_def stalls_ok_def D)
  from checkStallQueue_ok [OF ok2 clk, of nd] obtain ni3 s3 reqs3 where
    q: "checkStallQueue env period now nd ?h (ni2, s1) = Inr (ni3, s3, reqs3)" "ej_ok env R period now ?h (ni3, s3)" "ej_frame ni2 ni3" "booked 0 0 ni2 ni3" by blast
  have V3: "ni_virtual_networks ni3 = ?V" using ej_frameD(1) [OF q(3)] D(1) t(4) by simp
  have "map ip_bitWidth (ni_inPorts ni3) = map ip_bitWidth (ni_inPorts ni)" using ej_frameD(11) [OF q(3)] D(3) t(5) by simp
  then have "list_all2 (arrival_ok (ni_virtual_networks ni3) now ?h) (ni_inPorts ni3) in_links"
    unfolding V3 using ar by (fastforce simp: list_all2_conv_all_nth arrival_ok_def tail_ok_def nth_append list_eq_iff_nth_eq)
  from arrivals_ok [OF q(2) this clk, of nd] obtain in_links' ni4 s4 reqs4 where
    a: "loopR (ni_wake_inport env period now nd ?h) [0..<length (ni_inPorts ni3)] (in_links, ni3, s3, []) = Inr (in_links', ni4, s4, reqs4)"
      "ej_ok env R period now ?h (ni4, s4)" "ej_frame ni3 ni4" "booked (arrived now in_links) (arrived_tails now in_links) ni3 ni4" by blast
  have fr4: "ej_frame ni2 ni4" by (rule ej_frame_trans [OF q(3) a(3)])
  note D4 = ej_frameD [OF fr4]
  have ch4: "chans_ok R ni4" using sc(2) chans_ok_frame [OF fr4] by simp
  have "credits_fit now credit_links (ni_outVcState ni2)" using credits_fit_le [OF cr(2) credits_le_trans [OF t(8) D(9)]] .
  then have fit4: "credits_fit now credit_links (ni_outVcState ni4)" by (simp add: D4)
  have "vcs_ok ni4" "length credit_links = length (ni_outPorts ni4)" using ch4 cr(1) D(10) t(7) by (simp_all add: chans_ok_def D4)
  from credits_arrive [OF this(1) fit4 this(2)] obtain credit_links' ws where
    c: "loopR (ni_wake_outport now) [0..<length (ni_outPorts ni4)] (credit_links, ni4) = Inr (credit_links', ni4\<lparr>ni_outVcState := ws\<rparr>)"
      "vcs_ok (ni4\<lparr>ni_outVcState := ws\<rparr>)" by blast
  let ?ni = "ni4\<lparr>ni_outVcState := ws\<rparr>"
  have ins: "ins_ok env R now ?ni" using t(2) by (simp add: ni_ok_parts ins_ok_def D4 D)
  have "\<forall>bo \<in> set (ni_inNode ?ni). \<forall>b. bo = Some b \<longrightarrow> mb_inv (now, b)"
    using ins unfolding ins_ok_def inNode_ok_def by (metis in_set_conv_nth)
  from any_ready_returns [OF this] obtain r rs where rr: "any_ready now (ni_inNode ?ni) = Inr (r, rs)" by blast
  have "\<exists>reqs. ni_wakeup env period now nd in_links credit_links (ni, heap, s) = Inr (in_links', credit_links', ?ni, ?h, s4, reqs)"
    unfolding ni_wakeup_def prod.case t(1) bindR.simps sc(1) q(1) a(1) c(1) checkReschedule_def clk(2) rr by simp
  moreover have "ni_ok env R period now ?h ?ni"
  proof -
    have "chans_ok R ?ni" using ch4 c(2) by (simp add: chans_ok_def bufs_ok_def flit_fits_def outport_def getOutportForVnet_def ports_ok_def)
    moreover have "0 < ni_deadlock_threshold ?ni" using t(2) by (simp add: ni_ok_parts D4 D)
    ultimately show ?thesis using a(2) ins by (simp add: ni_ok_parts ej_ok_def outs_ok_def stalls_ok_def)
  qed
  moreover have "stats_ok ?V R s4" using a(2) D(1) t(4) by (simp add: ej_ok_def D4)
  moreover have "booked (arrived now in_links) (arrived_tails now in_links) ni ?ni"
  proof -
    have 1: "booked 0 0 ni ni2" by (rule booked_same) (simp_all add: handed_def D t(5,6))
    have 2: "booked 0 0 ni4 ?ni" by (rule booked_same) (simp_all add: handed_def)
    show ?thesis using booked_trans [OF booked_trans [OF booked_trans [OF 1 q(4)] a(4)] 2] by simp
  qed
  ultimately show ?thesis by blast
qed

text \<open>Claim C7. A wake-up of a well-formed network interface returns, and leaves it well formed for every later tick. The
  invariant types the state: the sizes of all arrays and the ranges of the rotating pointers and credit counters; every
  flit in the buffer of a channel has that channel, its virtual network and the width of the output port that serves it,
  and the flits queued at a port fit its link; the messages from the protocol have routable destinations, every buffer
  towards the protocol exists and keeps its own invariant; a waiting tail flit points to a message. The hypotheses are the
  network's part: the wake-up is on a clock edge, arriving flits have the width of their port, an existing virtual network
  and, if tails, a message; arriving credits do not exceed what was spent; and no virtual network has been without a free
  channel for the deadlock threshold. No assertion fails and no array is accessed out of range.\<close>

theorem interface_wakeup_safe:
  assumes "ni_ok env R period now heap ni" and "stats_ok (ni_virtual_networks ni) R s" and "0 < period" and "clockEdge_at period now 0 = now"
    and "\<forall>v < length (ni_inNode ni). ni_vc_busy_counter ni ! v < ni_deadlock_threshold ni"
    and "list_all2 (arrival_ok (ni_virtual_networks ni) now heap) (ni_inPorts ni) in_links"
    and "length credit_links = length (ni_outPorts ni)" and "credits_fit now credit_links (ni_outVcState ni)"
  shows "\<exists>in_links' credit_links' ni' cps s' reqs.
    ni_wakeup env period now nd in_links credit_links (ni, heap, s) = Inr (in_links', credit_links', ni', heap @ cps, s', reqs)
    \<and> stats_ok (ni_virtual_networks ni) R s' \<and> (\<forall>t \<ge> now. ni_ok env R period t (heap @ cps) ni')"
  using ni_wakeup_spec [OF assms, of nd] by - (elim exE conjE, intro exI conjI allI impI; (assumption | erule (1) ni_ok_later))

text \<open>Claim C24. A network interface loses and invents nothing when it ejects. Over a wake-up of a well-formed interface, the
  messages handed to the protocol are exactly as many as the credits sent that free a channel upstream; every tail flit that
  was at an input port is handed over or waits in a stall queue, from which no other flit disappears; and every flit that
  was taken from a link has been answered by one credit, except the tails that wait, whose credits are still to come.\<close>

theorem ejection_conserves:
  assumes "ni_ok env R period now heap ni" and "stats_ok (ni_virtual_networks ni) R s" and "0 < period" and "clockEdge_at period now 0 = now"
    and "\<forall>v < length (ni_inNode ni). ni_vc_busy_counter ni ! v < ni_deadlock_threshold ni"
    and "list_all2 (arrival_ok (ni_virtual_networks ni) now heap) (ni_inPorts ni) in_links"
    and "length credit_links = length (ni_outPorts ni)" and "credits_fit now credit_links (ni_outVcState ni)"
    and "ni_wakeup env period now nd in_links credit_links (ni, heap, s) = Inr (in_links', credit_links', ni', heap', s', reqs)"
  shows "handed ni' + frees_out ni = handed ni + frees_out ni'
    \<and> handed ni' + stalled_tails ni' = handed ni + stalled_tails ni + arrived_tails now in_links
    \<and> credits_out ni' + stalled_tails ni' = credits_out ni + stalled_tails ni + arrived now in_links"
proof -
  from ni_wakeup_spec [OF assms(1-8), of nd] assms(9) have "booked (arrived now in_links) (arrived_tails now in_links) ni ni'" by auto
  then show ?thesis by (simp add: booked_def)
qed

section \<open>A concrete wake-up\<close>

text \<open>The interface of node 3 with a multicast to send on virtual network 1, while a one-flit packet arrives.\<close>

definition demo_pending :: "nat MessageBuffer" where
  "demo_pending = demo_buffer\<lparr>mb_prio_heap := [demo_msg\<lparr>msg_LastEnqueueTime := 400\<rparr>], mb_time_last_time_enqueue := 400\<rparr>"

definition demo_wake_ni :: "nat NetworkInterface" where
  "demo_wake_ni = demo_ni\<lparr>ni_inPorts := [InputPort_new (NetworkLink_new 2 1 2 [] 128)], ni_inNode := [None, Some demo_pending],
     ni_outNode := [Some demo_buffer, Some demo_buffer]\<rparr>"

definition demo_in_link :: NetworkLink where
  "demo_in_link = (NetworkLink_new 2 1 2 [] 128)\<lparr>nl_buffer := fb_insert (flit_new 9 0 1 1 (RouteInfo_default small_dest) 1 (Some 0) 128 128 500) flitBuffer_new\<rparr>"

lemma demo_buffers_ok: "mb_inv (500, demo_buffer)" "mb_inv (500, demo_pending)" "mb_last_arrival_time demo_buffer = 0"
  by (simp_all add: demo_pending_def demo_buffer_def MessageBuffer_new_def mb_inv_def mb_ok_def mb_timed_def stalled_def heap_upto_def)

lemma demo_wake_ok: "ni_ok demo_env 4 500 500 [demo_message 5 0] demo_wake_ni"
proof -
  have "vcs_ok demo_wake_ni" using demo_ni_facts(1) by (simp add: demo_wake_ni_def vcs_ok_def)
  moreover have "bufs_ok demo_wake_ni"
    by (auto simp: bufs_ok_def demo_wake_ni_def demo_ni_eq flitBuffer_new_def less_Suc_eq)
  moreover have "ports_ok 4 demo_wake_ni"
    by (simp add: ports_ok_def demo_wake_ni_def demo_ni_facts getOutportForVnet_def port_ok_def OutputPort_new_def NetworkLink_new_def
        isVnetSupported_def flitBuffer_new_def)
  moreover have "msg_fits demo_env 4 1 (demo_msg\<lparr>msg_LastEnqueueTime := 400\<rparr>)"
    using demo_can_inject small_dest_ok by (auto simp: msg_fits_def can_inject_def demo_msg_def demo_env_def demo_stats_def)
  then have "ins_ok demo_env 4 500 demo_wake_ni"
    using demo_buffers_ok(2) by (auto simp: ins_ok_def inNode_ok_def demo_wake_ni_def demo_ni_facts demo_pending_def less_Suc_eq)
  moreover have "outs_ok demo_env 500 500 demo_wake_ni"
    using demo_buffers_ok(1,3) by (simp add: outs_ok_def outNode_ok_def fifo_ok_def demo_wake_ni_def demo_ni_eq NetworkInterface_new_def)
  moreover have "stalls_ok 500 [demo_message 5 0] demo_wake_ni" by (simp add: stalls_ok_def demo_wake_ni_def InputPort_new_def)
  ultimately show ?thesis by (simp add: ni_ok_def demo_wake_ni_def demo_ni_facts)
qed

lemma demo_wake_side:
  "stats_ok (ni_virtual_networks demo_wake_ni) 4 (demo_stats 2 4)" "clockEdge_at 500 500 0 = 500"
  "\<forall>v < length (ni_inNode demo_wake_ni). ni_vc_busy_counter demo_wake_ni ! v < ni_deadlock_threshold demo_wake_ni"
  "list_all2 (arrival_ok (ni_virtual_networks demo_wake_ni) 500 [demo_message 5 0]) (ni_inPorts demo_wake_ni) [demo_in_link]"
  "length [NetworkLink_new 1 1 2 [] 128] = length (ni_outPorts demo_wake_ni)"
  "credits_fit 500 [NetworkLink_new 1 1 2 [] 128] (ni_outVcState demo_wake_ni)"
  "arrived_tails 500 [demo_in_link] = 1" "handed demo_wake_ni = 0" "stalled_tails demo_wake_ni = 0"
proof -
  show "stats_ok (ni_virtual_networks demo_wake_ni) 4 (demo_stats 2 4)" by (simp add: demo_wake_ni_def demo_ni_facts demo_stats_ok)
  show "clockEdge_at 500 500 0 = 500" by (simp add: clockEdge_at_def divCeil_def)
  show "\<forall>v < length (ni_inNode demo_wake_ni). ni_vc_busy_counter demo_wake_ni ! v < ni_deadlock_threshold demo_wake_ni"
    by (auto simp: demo_wake_ni_def demo_ni_facts less_Suc_eq)
  show "list_all2 (arrival_ok (ni_virtual_networks demo_wake_ni) 500 [demo_message 5 0]) (ni_inPorts demo_wake_ni) [demo_in_link]"
    by (simp add: demo_wake_ni_def demo_ni_facts arrival_ok_def tail_ok_def front_flit_def demo_in_link_def fb_insert_def flitBuffer_new_def
        flit_new_def InputPort_new_def NetworkLink_new_def demo_message_def)
  show "length [NetworkLink_new 1 1 2 [] 128] = length (ni_outPorts demo_wake_ni)" by (simp add: demo_wake_ni_def demo_ni_facts)
  show "credits_fit 500 [NetworkLink_new 1 1 2 [] 128] (ni_outVcState demo_wake_ni)"
    by (auto simp: credits_fit_def incoming_def nl_isReady_def fb_isReady_def NetworkLink_new_def flitBuffer_new_def demo_wake_ni_def demo_ni_eq less_Suc_eq)
  show "arrived_tails 500 [demo_in_link] = 1"
    by (simp add: arrived_tails_def nl_isReady_def fb_isReady_def is_tail_def front_flit_def demo_in_link_def fb_insert_def flitBuffer_new_def
        flit_new_def flit_kind_def)
  show "handed demo_wake_ni = 0" "stalled_tails demo_wake_ni = 0"
    by (simp_all add: handed_def stalled_tails_def waiting_messages_def demo_wake_ni_def demo_buffer_def MessageBuffer_new_def InputPort_new_def)
qed

theorem interface_wakeup_safe_witness:
  "ni_ok demo_env 4 500 500 [demo_message 5 0] demo_wake_ni \<and> (\<exists>in_links' credit_links' ni' cps s' reqs.
     ni_wakeup demo_env 500 500 small_dest [demo_in_link] [NetworkLink_new 1 1 2 [] 128] (demo_wake_ni, [demo_message 5 0], demo_stats 2 4)
       = Inr (in_links', credit_links', ni', [demo_message 5 0] @ cps, s', reqs) \<and> ni_ok demo_env 4 500 1000 ([demo_message 5 0] @ cps) ni')"
  using interface_wakeup_safe [OF demo_wake_ok demo_wake_side(1) zero_less_numeral demo_wake_side(2-6), of small_dest] demo_wake_ok
  by - (elim exE conjE, rule conjI, assumption, intro exI conjI, assumption, simp)

theorem ejection_conserves_witness:
  "\<exists>in_links' credit_links' ni' heap' s' reqs.
     ni_wakeup demo_env 500 500 small_dest [demo_in_link] [NetworkLink_new 1 1 2 [] 128] (demo_wake_ni, [demo_message 5 0], demo_stats 2 4)
       = Inr (in_links', credit_links', ni', heap', s', reqs) \<and> handed ni' + stalled_tails ni' = 1"
proof -
  note P = demo_wake_ok demo_wake_side(1) zero_less_numeral demo_wake_side(2-6)
  from ni_wakeup_spec [OF P, of small_dest] obtain in_links' credit_links' ni' heap' s' reqs where
    w: "ni_wakeup demo_env 500 500 small_dest [demo_in_link] [NetworkLink_new 1 1 2 [] 128] (demo_wake_ni, [demo_message 5 0], demo_stats 2 4)
       = Inr (in_links', credit_links', ni', heap', s', reqs)" by auto
  have "handed ni' + stalled_tails ni' = 1" using ejection_conserves [OF P w] demo_wake_side(7-9) by simp
  with w show ?thesis by simp
qed

end
