(* ===== verification/Garnet_Network.thy ===== *)
theory Garnet_Network
  imports Network_Interface Network_Bridge Topology
begin

text \<open>
  \<open>Network\<close>, \<open>GarnetNetwork\<close> and \<open>GarnetLink\<close>: the network as a whole, built from the requests of the topology. Links and
  bridges are shared objects: they live in the store \<open>gn_links\<close> and are referred to by their position there. For every
  port of a router or interface \<open>port_links\<close> records the link objects behind it, in port order. A link of the
  configuration is found by its identity through the parameter \<open>objs\<close>, which stands for the cast to its Garnet class.
  Controllers, address ranges and the fault model are parameters.
\<close>

section \<open>Network\<close>

record 'p Network =
  nw_nodes :: nat
  nw_virtual_networks :: nat
  nw_control_msg_size :: nat
  nw_data_msg_size :: nat
  nw_vnet_type_names :: "string list"
  nw_topology :: Topology
  nw_toNetQueues :: "'p MessageBuffer option list list"
  nw_fromNetQueues :: "'p MessageBuffer option list list"
  nw_ordered :: "bool list"
  nw_globalToLocalMap :: "(nat \<times> nat) list"

text \<open>The controllers of the network in the order of their local numbers: by machine type, and in the order of the
  external links within a type. \<open>emplace\<close> keeps the first entry of a key, as the lookup in the list does.\<close>

definition local_nodes :: "machine_conf \<Rightarrow> MachineID list \<Rightarrow> MachineID list" where
  "local_nodes mc machines =
     concat (map (\<lambda>m. filter (\<lambda>x. mach_type x = m) machines) [0..<MachineType_base_level mc (MachineType_NUM mc)])"

definition globalToLocal :: "machine_conf \<Rightarrow> MachineID list \<Rightarrow> (nat \<times> nat) list" where
  "globalToLocal mc machines =
     map (\<lambda>(i, x). (MachineType_base_number mc (mach_type x) + mach_num x, i)) (enumerate 0 (local_nodes mc machines))"

text \<open>The constructor without the registration with the Ruby system and the controllers, which then call \<open>setToNetQueue\<close> and
  \<open>setFromNetQueue\<close> for their queues.\<close>

definition Network_new ::
  "machine_conf \<Rightarrow> nat \<Rightarrow> nat \<Rightarrow> nat \<Rightarrow> nat \<Rightarrow> nat \<Rightarrow> BasicExtLink list \<Rightarrow> BasicIntLink list \<Rightarrow> 'p Network res" where
  "Network_new mc vnets control_msg_size data_msg_size block_bytes num_routers ext_links int_links =
     bindR (failIf (data_msg_size > block_bytes) Fatal) (\<lambda>_.
       let machines = map el_machine ext_links; nodes = length (local_nodes mc machines) in
     bindR (assertR (nodes \<noteq> 0)) (\<lambda>_.
     bindR (assertR (vnets \<noteq> 0)) (\<lambda>_.
     bindR (Topology_new mc num_routers vnets ext_links int_links) (\<lambda>t.
       Inr \<lparr>nw_nodes = nodes, nw_virtual_networks = vnets, nw_control_msg_size = control_msg_size,
            nw_data_msg_size = data_msg_size + control_msg_size, nw_vnet_type_names = replicate vnets [], nw_topology = t,
            nw_toNetQueues = replicate nodes [], nw_fromNetQueues = replicate nodes [], nw_ordered = replicate vnets False,
            nw_globalToLocalMap = globalToLocal mc machines\<rparr>))))"

definition getLocalNodeID :: "nat \<Rightarrow> 'p Network \<Rightarrow> nat res" where
  "getLocalNodeID global_id nw = (case map_of (nw_globalToLocalMap nw) global_id of None \<Rightarrow> Inl Assert_fail | Some i \<Rightarrow> Inr i)"

definition checkNetworkAllocation :: "nat \<Rightarrow> bool \<Rightarrow> nat \<Rightarrow> string \<Rightarrow> 'p Network \<Rightarrow> 'p Network res" where
  "checkNetworkAllocation local_id ordered network_num vnet_type nw =
     bindR (failIf (local_id \<ge> nw_nodes nw) Fatal) (\<lambda>_.
     bindR (failIf (network_num \<ge> nw_virtual_networks nw) Fatal) (\<lambda>_.
     bindR (if ordered then put (nw_ordered nw) (int network_num) True else Inr (nw_ordered nw)) (\<lambda>os.
     bindR (put (nw_vnet_type_names nw) (int network_num) vnet_type) (\<lambda>ns.
       Inr (nw\<lparr>nw_ordered := os, nw_vnet_type_names := ns\<rparr>)))))"

text \<open>The queue of a controller at position \<open>network_num\<close>, the list padded with null pointers as far as needed.\<close>

definition set_queue :: "nat \<Rightarrow> 'b option \<Rightarrow> 'b option list \<Rightarrow> 'b option list" where
  "set_queue network_num b qs = (qs @ replicate (Suc network_num - length qs) None)[network_num := b]"

definition setToNetQueue :: "nat \<Rightarrow> bool \<Rightarrow> nat \<Rightarrow> string \<Rightarrow> 'p MessageBuffer option \<Rightarrow> 'p Network \<Rightarrow> 'p Network res" where
  "setToNetQueue global_id ordered network_num vnet_type b nw =
     bindR (getLocalNodeID global_id nw) (\<lambda>local_id.
     bindR (checkNetworkAllocation local_id ordered network_num vnet_type nw) (\<lambda>nw1.
     bindR (at (nw_toNetQueues nw1) (int local_id)) (\<lambda>qs.
     bindR (put (nw_toNetQueues nw1) (int local_id) (set_queue network_num b qs)) (\<lambda>qss.
       Inr (nw1\<lparr>nw_toNetQueues := qss\<rparr>)))))"

definition setFromNetQueue :: "nat \<Rightarrow> bool \<Rightarrow> nat \<Rightarrow> string \<Rightarrow> 'p MessageBuffer option \<Rightarrow> 'p Network \<Rightarrow> 'p Network res" where
  "setFromNetQueue global_id ordered network_num vnet_type b nw =
     bindR (getLocalNodeID global_id nw) (\<lambda>local_id.
     bindR (checkNetworkAllocation local_id ordered network_num vnet_type nw) (\<lambda>nw1.
     bindR (at (nw_fromNetQueues nw1) (int local_id)) (\<lambda>qs.
     bindR (put (nw_fromNetQueues nw1) (int local_id) (set_queue network_num b qs)) (\<lambda>qss.
       Inr (nw1\<lparr>nw_fromNetQueues := qss\<rparr>)))))"

text \<open>\<open>addrMap\<close> lists the controllers with address ranges; \<open>ranges\<close> is \<open>getAddrRanges\<close> of a controller and \<open>holds\<close> is
  \<open>AddrRange::contains\<close>. Entries of one type are searched in the order of insertion; the library leaves this order open, which matters
  only if ranges of two controllers of a type overlap.\<close>

definition addr_map :: "(MachineID \<Rightarrow> 'r list) \<Rightarrow> BasicExtLink list \<Rightarrow> (MachineID \<times> 'r list) list" where
  "addr_map ranges ext_links = map (\<lambda>m. (m, ranges m)) (filter (\<lambda>m. ranges m \<noteq> []) (map el_machine ext_links))"

definition addressToNodeID ::
  "machine_conf \<Rightarrow> ('r \<Rightarrow> nat \<Rightarrow> bool) \<Rightarrow> (MachineID \<times> 'r list) list \<Rightarrow> nat \<Rightarrow> nat \<Rightarrow> nat" where
  "addressToNodeID mc holds addrMap addr mtype =
     (case find (\<lambda>(m, ranges). mach_type m = mtype \<and> list_ex (\<lambda>r. holds r addr) ranges) addrMap of
        Some (m, _) \<Rightarrow> mach_num m | None \<Rightarrow> MachineType_base_count mc mtype)"

section \<open>Links and bridges\<close>

datatype link_obj =
    Link_obj NetworkLink
  | Bridge_obj NetworkBridge nat         \<comment> \<open>a bridge and the link it is attached to\<close>

fun obj_link :: "link_obj \<Rightarrow> NetworkLink" where
  "obj_link (Link_obj l) = l"
| "obj_link (Bridge_obj b _) = nb_base b"

fun on_obj_link :: "(NetworkLink \<Rightarrow> NetworkLink) \<Rightarrow> link_obj \<Rightarrow> link_obj" where
  "on_obj_link f (Link_obj l) = Link_obj (f l)"
| "on_obj_link f (Bridge_obj b t) = Bridge_obj (b\<lparr>nb_base := f (nb_base b)\<rparr>) t"

text \<open>The virtual \<open>setVcsPerVnet\<close>. The link a bridge is attached to is a plain link, as the configuration builds it.\<close>

definition set_vcs :: "nat \<Rightarrow> nat \<Rightarrow> link_obj list \<Rightarrow> link_obj list res" where
  "set_vcs consumerVcs h links =
     bindR (at links (int h)) (\<lambda>x.
       case x of
         Link_obj l \<Rightarrow> Inr (links[h := Link_obj (nl_setVcsPerVnet consumerVcs l)])
       | Bridge_obj b t \<Rightarrow>
           bindR (at links (int t)) (\<lambda>y.
             case y of
               Bridge_obj _ _ \<Rightarrow> Inl Fatal
             | Link_obj nLink \<Rightarrow>
                 let (nLink', b') = nb_setVcsPerVnet consumerVcs nLink b
                 in Inr (links[h := Bridge_obj b' t, t := Link_obj nLink'])))"

record GarnetIntLink =
  gi_network_link :: nat
  gi_credit_link :: nat
  gi_srcCdcEn :: bool
  gi_dstCdcEn :: bool
  gi_srcSerdesEn :: bool
  gi_dstSerdesEn :: bool
  gi_srcBridges :: "(nat \<times> nat) option"   \<comment> \<open>\<open>srcNetBridge\<close> and \<open>srcCredBridge\<close>\<close>
  gi_dstBridges :: "(nat \<times> nat) option"

record GarnetExtLink =
  gx_network_links :: "nat \<times> nat"         \<comment> \<open>directions in and out\<close>
  gx_credit_links :: "nat \<times> nat"
  gx_extCdcEn :: bool
  gx_intCdcEn :: bool
  gx_extSerdesEn :: bool
  gx_intSerdesEn :: bool
  gx_extBridges :: "((nat \<times> nat) \<times> (nat \<times> nat)) option"   \<comment> \<open>\<open>extNetBridge\<close> and \<open>extCredBridge\<close>, each in and out\<close>
  gx_intBridges :: "((nat \<times> nat) \<times> (nat \<times> nat)) option"

text \<open>A bridge is used at an end that crosses clocks or widths; without its bridges there the initialisation stops.\<close>

definition srcBridgeEn :: "GarnetIntLink \<Rightarrow> bool" where
  "srcBridgeEn l = (gi_srcCdcEn l \<or> gi_srcSerdesEn l)"

definition dstBridgeEn :: "GarnetIntLink \<Rightarrow> bool" where
  "dstBridgeEn l = (gi_dstCdcEn l \<or> gi_dstSerdesEn l)"

definition extBridgeEn :: "GarnetExtLink \<Rightarrow> bool" where
  "extBridgeEn l = (gx_extCdcEn l \<or> gx_extSerdesEn l)"

definition intBridgeEn :: "GarnetExtLink \<Rightarrow> bool" where
  "intBridgeEn l = (gx_intCdcEn l \<or> gx_intSerdesEn l)"

definition init_bridge :: "bool \<Rightarrow> bool \<Rightarrow> nat \<Rightarrow> link_obj list \<Rightarrow> link_obj list res" where
  "init_bridge cdc_en serdes_en h links =
     bindR (at links (int h)) (\<lambda>x. case x of
         Bridge_obj b t \<Rightarrow> Inr (links[h := Bridge_obj (initBridge cdc_en serdes_en b) t])
       | Link_obj _ \<Rightarrow> Inl Assert_fail)"

definition init_pair :: "bool \<Rightarrow> bool \<Rightarrow> bool \<Rightarrow> (nat \<times> nat) option \<Rightarrow> link_obj list \<Rightarrow> link_obj list res" where
  "init_pair en cdc_en serdes_en bridges links =
     (if en then (case bridges of None \<Rightarrow> Inl Assert_fail
        | Some (net, cred) \<Rightarrow> loopR (init_bridge cdc_en serdes_en) [net, cred] links)
      else Inr links)"

definition GarnetIntLink_init :: "GarnetIntLink \<Rightarrow> link_obj list \<Rightarrow> link_obj list res" where
  "GarnetIntLink_init l links =
     bindR (init_pair (srcBridgeEn l) (gi_srcCdcEn l) (gi_srcSerdesEn l) (gi_srcBridges l) links)
       (init_pair (dstBridgeEn l) (gi_dstCdcEn l) (gi_dstSerdesEn l) (gi_dstBridges l))"

definition init_both :: "bool \<Rightarrow> bool \<Rightarrow> bool \<Rightarrow> ((nat \<times> nat) \<times> (nat \<times> nat)) option \<Rightarrow> link_obj list \<Rightarrow> link_obj list res" where
  "init_both en cdc_en serdes_en bridges links =
     (if en then (case bridges of None \<Rightarrow> Inl Assert_fail
        | Some ((net_in, net_out), (cred_in, cred_out)) \<Rightarrow>
            loopR (init_bridge cdc_en serdes_en) [net_in, cred_in, net_out, cred_out] links)
      else Inr links)"

definition GarnetExtLink_init :: "GarnetExtLink \<Rightarrow> link_obj list \<Rightarrow> link_obj list res" where
  "GarnetExtLink_init l links =
     bindR (init_both (extBridgeEn l) (gx_extCdcEn l) (gx_extSerdesEn l) (gx_extBridges l) links)
       (init_both (intBridgeEn l) (gx_intCdcEn l) (gx_intSerdesEn l) (gx_intBridges l))"

datatype garnet_link = Int_link GarnetIntLink | Ext_link GarnetExtLink

section \<open>GarnetNetwork\<close>

record port_links =
  pl_in :: "nat list"
  pl_in_credit :: "nat list"
  pl_out :: "nat list"
  pl_out_credit :: "nat list"

definition no_ports :: port_links where
  "no_ports = \<lparr>pl_in = [], pl_in_credit = [], pl_out = [], pl_out_credit = []\<rparr>"

record 'p GarnetNetwork =
  gn_base :: "'p Network"
  gn_num_rows :: int
  gn_num_cols :: int
  gn_ni_flit_size :: nat
  gn_max_vcs_per_vnet :: nat
  gn_buffers_per_ctrl_vc :: nat
  gn_buffers_per_data_vc :: nat
  gn_routing_algorithm :: int
  gn_enable_fault_model :: bool
  gn_vnet_type :: "VNET_type list"
  gn_routers :: "Router list"
  gn_nis :: "'p NetworkInterface list"
  gn_links :: "link_obj list"
  gn_networklinks :: "nat list"
  gn_networkbridges :: "nat list"
  gn_creditlinks :: "nat list"
  gn_rt_ports :: "port_links list"
  gn_ni_ports :: "port_links list"

text \<open>The constructor runs when the controllers have registered their queues with the base class.\<close>

definition GarnetNetwork_new ::
  "int \<Rightarrow> nat \<Rightarrow> nat \<Rightarrow> nat \<Rightarrow> int \<Rightarrow> bool \<Rightarrow> Router list \<Rightarrow> 'p NetworkInterface list \<Rightarrow> link_obj list \<Rightarrow> 'p Network \<Rightarrow> 'p GarnetNetwork" where
  "GarnetNetwork_new num_rows ni_flit_size data_vc ctrl_vc algorithm fault routers nis links nw =
     \<lparr>gn_base = nw, gn_num_rows = num_rows, gn_num_cols = 0, gn_ni_flit_size = ni_flit_size, gn_max_vcs_per_vnet = 0,
      gn_buffers_per_ctrl_vc = ctrl_vc, gn_buffers_per_data_vc = data_vc, gn_routing_algorithm = algorithm,
      gn_enable_fault_model = fault,
      gn_vnet_type = map (\<lambda>n. if n = ''response'' then DATA_VNET else CTRL_VNET) (nw_vnet_type_names nw),
      gn_routers = routers, gn_nis = nis, gn_links = links, gn_networklinks = [], gn_networkbridges = [], gn_creditlinks = [],
      gn_rt_ports = map (\<lambda>_. no_ports) routers, gn_ni_ports = map (\<lambda>_. no_ports) nis\<rparr>"

text \<open>What the units read of the network.\<close>

definition gn_conf :: "'p GarnetNetwork \<Rightarrow> net_conf" where
  "gn_conf gn = \<lparr>nc_num_vnets = nw_virtual_networks (gn_base gn), nc_vnet_type = (\<lambda>v. gn_vnet_type gn ! nat v),
     nc_buffers_per_data_vc = int (gn_buffers_per_data_vc gn), nc_buffers_per_ctrl_vc = int (gn_buffers_per_ctrl_vc gn)\<rparr>"

definition getNumRouters :: "'p GarnetNetwork \<Rightarrow> nat" where
  "getNumRouters gn = length (gn_routers gn)"

definition get_router_id :: "nat \<Rightarrow> int \<Rightarrow> 'p GarnetNetwork \<Rightarrow> int res" where
  "get_router_id global_ni vnet gn =
     bindR (getLocalNodeID global_ni (gn_base gn)) (\<lambda>local_ni.
     bindR (at (gn_nis gn) (int local_ni)) (ni_get_router_id vnet))"

section \<open>Wiring\<close>

text \<open>The calls of \<open>addInPort\<close> and \<open>addOutPort\<close> of a router or an interface on link objects.\<close>

definition router_addInPort :: "nat \<Rightarrow> PortDirection \<Rightarrow> nat \<Rightarrow> nat \<Rightarrow> 'p GarnetNetwork \<Rightarrow> 'p GarnetNetwork res" where
  "router_addInPort r dirn h c gn =
     bindR (at (gn_routers gn) (int r)) (\<lambda>rt.
     bindR (at (gn_links gn) (int h)) (\<lambda>lnk.
     bindR (at (gn_links gn) (int c)) (\<lambda>crd.
     bindR (addInPort dirn (obj_link lnk) (obj_link crd) rt) (\<lambda>(rt', _, _).
     bindR (loopR (set_vcs (rt_vc_per_vnet rt)) [h, c] (gn_links gn)) (\<lambda>links.
     bindR (at (gn_rt_ports gn) (int r)) (\<lambda>p.
       Inr (gn\<lparr>gn_routers := (gn_routers gn)[r := rt'], gn_links := links,
               gn_rt_ports := (gn_rt_ports gn)[r := p\<lparr>pl_in := pl_in p @ [h], pl_in_credit := pl_in_credit p @ [c]\<rparr>]\<rparr>)))))))"

definition router_addOutPort ::
  "nat \<Rightarrow> PortDirection \<Rightarrow> nat \<Rightarrow> NetDest list \<Rightarrow> int \<Rightarrow> nat \<Rightarrow> nat \<Rightarrow> 'p GarnetNetwork \<Rightarrow> 'p GarnetNetwork res" where
  "router_addOutPort r dirn h routing_table_entry weight c consumerVcs gn =
     bindR (at (gn_routers gn) (int r)) (\<lambda>rt.
     bindR (at (gn_links gn) (int h)) (\<lambda>lnk.
     bindR (at (gn_links gn) (int c)) (\<lambda>crd.
     bindR (addOutPort (gn_conf gn) dirn (obj_link lnk) routing_table_entry weight (obj_link crd) consumerVcs rt) (\<lambda>(rt', _, _).
     bindR (loopR (set_vcs consumerVcs) [h, c] (gn_links gn)) (\<lambda>links.
     bindR (at (gn_rt_ports gn) (int r)) (\<lambda>p.
       Inr (gn\<lparr>gn_routers := (gn_routers gn)[r := rt'], gn_links := links,
               gn_rt_ports := (gn_rt_ports gn)[r := p\<lparr>pl_out := pl_out p @ [h], pl_out_credit := pl_out_credit p @ [c]\<rparr>]\<rparr>)))))))"

definition netif_addInPort :: "nat \<Rightarrow> nat \<Rightarrow> nat \<Rightarrow> 'p GarnetNetwork \<Rightarrow> 'p GarnetNetwork res" where
  "netif_addInPort n h c gn =
     bindR (at (gn_nis gn) (int n)) (\<lambda>ni.
     bindR (at (gn_links gn) (int h)) (\<lambda>lnk.
     bindR (at (gn_links gn) (int c)) (\<lambda>crd.
       let (_, _, ni') = ni_addInPort (obj_link lnk) (obj_link crd) ni in
     bindR (if ni_vc_per_vnet ni \<noteq> 0 then loopR (set_vcs (ni_vc_per_vnet ni)) [h, c] (gn_links gn) else Inr (gn_links gn)) (\<lambda>links.
     bindR (at (gn_ni_ports gn) (int n)) (\<lambda>p.
       Inr (gn\<lparr>gn_nis := (gn_nis gn)[n := ni'], gn_links := links,
               gn_ni_ports := (gn_ni_ports gn)[n := p\<lparr>pl_in := pl_in p @ [h], pl_in_credit := pl_in_credit p @ [c]\<rparr>]\<rparr>))))))"

text \<open>The first output port also resizes the links of the input ports that exist already.\<close>

definition netif_addOutPort :: "nat \<Rightarrow> nat \<Rightarrow> nat \<Rightarrow> nat \<Rightarrow> nat \<Rightarrow> 'p GarnetNetwork \<Rightarrow> 'p GarnetNetwork res" where
  "netif_addOutPort n h c router_id consumerVcs gn =
     bindR (at (gn_nis gn) (int n)) (\<lambda>ni.
     bindR (at (gn_links gn) (int h)) (\<lambda>lnk.
     bindR (at (gn_links gn) (int c)) (\<lambda>crd.
     bindR (at (gn_ni_ports gn) (int n)) (\<lambda>p.
     bindR (ni_addOutPort (gn_conf gn) (obj_link lnk) (obj_link crd) (int router_id) consumerVcs [] ni) (\<lambda>(_, _, _, ni').
     bindR (if ni_niOutVcs ni = [] then loopR (set_vcs consumerVcs) (pl_in p) (gn_links gn) else Inr (gn_links gn)) (\<lambda>links1.
     bindR (loopR (set_vcs consumerVcs) [h, c] links1) (\<lambda>links.
       Inr (gn\<lparr>gn_nis := (gn_nis gn)[n := ni'], gn_links := links,
               gn_ni_ports := (gn_ni_ports gn)[n := p\<lparr>pl_out := pl_out p @ [h], pl_out_credit := pl_out_credit p @ [c]\<rparr>]\<rparr>))))))))"

text \<open>A network link and its credit link are recorded, the link gets its type.\<close>

definition record_link :: "link_type \<Rightarrow> nat \<Rightarrow> nat \<Rightarrow> nat \<Rightarrow> 'p GarnetNetwork \<Rightarrow> 'p GarnetNetwork res" where
  "record_link ty h c vcs gn =
     bindR (at (gn_links gn) (int h)) (\<lambda>x.
       Inr (gn\<lparr>gn_links := (gn_links gn)[h := on_obj_link (\<lambda>l. l\<lparr>nl_type := ty\<rparr>) x],
               gn_networklinks := gn_networklinks gn @ [h], gn_creditlinks := gn_creditlinks gn @ [c],
               gn_max_vcs_per_vnet := max (gn_max_vcs_per_vnet gn) vcs\<rparr>))"

definition record_bridge :: "nat \<Rightarrow> 'p GarnetNetwork \<Rightarrow> 'p GarnetNetwork" where
  "record_bridge h gn = gn\<lparr>gn_networkbridges := gn_networkbridges gn @ [h]\<rparr>"

definition ext_link_of :: "(nat \<Rightarrow> garnet_link option) \<Rightarrow> BasicLink \<Rightarrow> GarnetExtLink res" where
  "ext_link_of objs link = (case objs (bl_id link) of Some (Ext_link l) \<Rightarrow> Inr l | _ \<Rightarrow> Inl Assert_fail)"

definition int_link_of :: "(nat \<Rightarrow> garnet_link option) \<Rightarrow> BasicLink \<Rightarrow> GarnetIntLink res" where
  "int_link_of objs link = (case objs (bl_id link) of Some (Int_link l) \<Rightarrow> Inr l | _ \<Rightarrow> Inl Assert_fail)"

text \<open>The two objects that stand at one end of a link: its bridges if they are enabled, the link itself otherwise.\<close>

definition link_end :: "bool \<Rightarrow> (nat \<times> nat) option \<Rightarrow> nat \<Rightarrow> nat \<Rightarrow> (nat \<times> nat) res" where
  "link_end en bridges net_link credit_link =
     (if en then (case bridges of None \<Rightarrow> Inl Null_deref | Some p \<Rightarrow> Inr p) else Inr (net_link, credit_link))"

definition bridged :: "bool \<Rightarrow> nat \<Rightarrow> 'p GarnetNetwork \<Rightarrow> 'p GarnetNetwork" where
  "bridged en h gn = (if en then record_bridge h gn else gn)"

definition dir_in :: "((nat \<times> nat) \<times> (nat \<times> nat)) option \<Rightarrow> (nat \<times> nat) option" where
  "dir_in bs = map_option (\<lambda>(net, cred). (fst net, fst cred)) bs"

definition dir_out :: "((nat \<times> nat) \<times> (nat \<times> nat)) option \<Rightarrow> (nat \<times> nat) option" where
  "dir_out bs = map_option (\<lambda>(net, cred). (snd net, snd cred)) bs"

definition makeExtInLink :: "(nat \<Rightarrow> garnet_link option) \<Rightarrow> nat \<Rightarrow> nat \<Rightarrow> BasicLink \<Rightarrow> 'p GarnetNetwork \<Rightarrow> 'p GarnetNetwork res" where
  "makeExtInLink objs global_src dest link gn =
     bindR (getLocalNodeID global_src (gn_base gn)) (\<lambda>local_src.
     bindR (assertR (local_src < nw_nodes (gn_base gn))) (\<lambda>_.
     bindR (ext_link_of objs link) (\<lambda>gl.
       let net_link = fst (gx_network_links gl); credit_link = fst (gx_credit_links gl) in
     bindR (at (gn_routers gn) (int dest)) (\<lambda>rt.
     bindR (record_link EXT_IN net_link credit_link (rt_vc_per_vnet rt) gn) (\<lambda>gn1.
     bindR (link_end (extBridgeEn gl) (dir_in (gx_extBridges gl)) net_link credit_link) (\<lambda>(h, c).
     bindR (netif_addOutPort local_src h c dest (rt_vc_per_vnet rt) gn1) (\<lambda>gn2.
     bindR (link_end (intBridgeEn gl) (dir_in (gx_intBridges gl)) net_link credit_link) (\<lambda>(h', c').
     bindR (router_addInPort dest ''Local'' h' c' (bridged (extBridgeEn gl) h gn2)) (\<lambda>gn3.
       Inr (bridged (intBridgeEn gl) h' gn3))))))))))"

definition makeExtOutLink ::
  "(nat \<Rightarrow> garnet_link option) \<Rightarrow> nat \<Rightarrow> nat \<Rightarrow> BasicLink \<Rightarrow> NetDest list \<Rightarrow> 'p GarnetNetwork \<Rightarrow> 'p GarnetNetwork res" where
  "makeExtOutLink objs src global_dest link routing_table_entry gn =
     bindR (getLocalNodeID global_dest (gn_base gn)) (\<lambda>local_dest.
     bindR (assertR (local_dest < nw_nodes (gn_base gn))) (\<lambda>_.
     bindR (assertR (src < length (gn_routers gn))) (\<lambda>_.
     bindR (ext_link_of objs link) (\<lambda>gl.
       let net_link = snd (gx_network_links gl); credit_link = snd (gx_credit_links gl) in
     bindR (at (gn_routers gn) (int src)) (\<lambda>rt.
     bindR (record_link EXT_OUT net_link credit_link (rt_vc_per_vnet rt) gn) (\<lambda>gn1.
     bindR (link_end (extBridgeEn gl) (dir_out (gx_extBridges gl)) net_link credit_link) (\<lambda>(h, c).
     bindR (netif_addInPort local_dest h c gn1) (\<lambda>gn2.
     bindR (link_end (intBridgeEn gl) (dir_out (gx_intBridges gl)) net_link credit_link) (\<lambda>(h', c').
     bindR (router_addOutPort src ''Local'' h' routing_table_entry (bl_weight link) c' (rt_vc_per_vnet rt)
              (bridged (extBridgeEn gl) h gn2)) (\<lambda>gn3.
       Inr (bridged (intBridgeEn gl) h' gn3)))))))))))"

definition makeInternalLink ::
  "(nat \<Rightarrow> garnet_link option) \<Rightarrow> nat \<Rightarrow> nat \<Rightarrow> BasicLink \<Rightarrow> NetDest list \<Rightarrow> PortDirection \<Rightarrow> PortDirection
     \<Rightarrow> 'p GarnetNetwork \<Rightarrow> 'p GarnetNetwork res" where
  "makeInternalLink objs src dest link routing_table_entry src_outport_dirn dst_inport_dirn gn =
     bindR (int_link_of objs link) (\<lambda>gl.
       let net_link = gi_network_link gl; credit_link = gi_credit_link gl in
     bindR (at (gn_routers gn) (int dest)) (\<lambda>rt_dest.
     bindR (at (gn_routers gn) (int src)) (\<lambda>rt_src.
     bindR (record_link INT_link net_link credit_link (max (rt_vc_per_vnet rt_dest) (rt_vc_per_vnet rt_src)) gn) (\<lambda>gn1.
     bindR (link_end (dstBridgeEn gl) (gi_dstBridges gl) net_link credit_link) (\<lambda>(h, c).
     bindR (router_addInPort dest dst_inport_dirn h c gn1) (\<lambda>gn2.
     bindR (link_end (srcBridgeEn gl) (gi_srcBridges gl) net_link credit_link) (\<lambda>(h', c').
     bindR (router_addOutPort src src_outport_dirn h' routing_table_entry (bl_weight link) c' (rt_vc_per_vnet rt_dest)
              (bridged (dstBridgeEn gl) h gn2)) (\<lambda>gn3.
       Inr (bridged (srcBridgeEn gl) h' gn3)))))))))"

text \<open>The requests of the topology, served in order.\<close>

fun make_link :: "(nat \<Rightarrow> garnet_link option) \<Rightarrow> link_req \<Rightarrow> 'p GarnetNetwork \<Rightarrow> 'p GarnetNetwork res" where
  "make_link objs (Make_ext_in src dest link routes) gn = makeExtInLink objs src dest link gn"
| "make_link objs (Make_ext_out src dest link routes) gn = makeExtOutLink objs src dest link routes gn"
| "make_link objs (Make_internal src dest link routes out_dirn in_dirn) gn =
     makeInternalLink objs src dest link routes out_dirn in_dirn gn"

definition addNode_at :: "nat \<Rightarrow> 'p GarnetNetwork \<Rightarrow> 'p GarnetNetwork res" where
  "addNode_at i gn =
     bindR (at (gn_nis gn) (int i)) (\<lambda>ni.
     bindR (at (nw_toNetQueues (gn_base gn)) (int i)) (\<lambda>ins.
     bindR (at (nw_fromNetQueues (gn_base gn)) (int i)) (\<lambda>outs.
     bindR (ni_addNode ins outs ni) (\<lambda>ni'. Inr (gn\<lparr>gn_nis := (gn_nis gn)[i := ni']\<rparr>)))))"

text \<open>Rows and columns of a mesh.\<close>

definition set_mesh :: "'p GarnetNetwork \<Rightarrow> 'p GarnetNetwork res" where
  "set_mesh gn =
     (if gn_num_rows gn > 0 then
        let n = int (length (gn_routers gn)); cols = n sdiv gn_num_rows gn in
        bindR (assertR (gn_num_rows gn * cols = n)) (\<lambda>_. Inr (gn\<lparr>gn_num_cols := cols\<rparr>))
      else Inr (gn\<lparr>gn_num_rows := -1, gn_num_cols := -1\<rparr>))"

text \<open>\<open>declare\<close> stands for \<open>FaultModel::declare_router\<close>, with the number of routers declared before.\<close>

definition declare_routers :: "(nat \<Rightarrow> nat \<Rightarrow> nat \<Rightarrow> nat \<Rightarrow> nat \<Rightarrow> nat \<Rightarrow> int res) \<Rightarrow> 'p GarnetNetwork \<Rightarrow> unit res" where
  "declare_routers declare_router gn =
     (if gn_enable_fault_model gn then
        loopR (\<lambda>(i, rt) _.
          bindR (declare_router i (length (rt_input_unit rt)) (length (rt_output_unit rt)) (rt_vc_per_vnet rt)
                   (gn_buffers_per_data_vc gn) (gn_buffers_per_ctrl_vc gn)) (\<lambda>router_id.
            assertR (router_id = int i))) (enumerate 0 (gn_routers gn)) ()
      else Inr ())"

definition gn_init ::
  "(nat \<Rightarrow> nat \<Rightarrow> nat \<Rightarrow> nat \<Rightarrow> nat \<Rightarrow> nat \<Rightarrow> int res) \<Rightarrow> machine_conf \<Rightarrow> (nat \<Rightarrow> garnet_link option) \<Rightarrow> 'p GarnetNetwork
     \<Rightarrow> 'p GarnetNetwork res option" where
  "gn_init declare_router mc objs gn =
     (case loopR addNode_at [0..<nw_nodes (gn_base gn)] gn of
        Inl e \<Rightarrow> Some (Inl e)
      | Inr gn1 \<Rightarrow>
          (case createLinks mc (nw_topology (gn_base gn1)) of
             None \<Rightarrow> None
           | Some reqs \<Rightarrow> Some
               (bindR reqs (\<lambda>rs.
                bindR (loopR (make_link objs) rs gn1) (\<lambda>gn2.
                bindR (set_mesh gn2) (\<lambda>gn3.
                bindR (declare_routers declare_router gn3) (\<lambda>_. Inr gn3)))))))"

section \<open>Statistics and functional accesses\<close>

definition gn_resetStats :: "'p GarnetNetwork \<Rightarrow> 'p GarnetNetwork" where
  "gn_resetStats gn =
     gn\<lparr>gn_routers := map rt_resetStats (gn_routers gn),
        gn_links := fold (\<lambda>h links. links[h := on_obj_link nl_resetStats (links ! h)])
          (gn_networklinks gn @ gn_creditlinks gn) (gn_links gn)\<rparr>"

record 'd link_stats =
  ls_ext_in_utilization :: nat
  ls_ext_out_utilization :: nat
  ls_int_utilization :: nat
  ls_average_link_utilization :: 'd
  ls_average_vc_load :: "'d list"

text \<open>The statistics of one link; \<open>time_delta\<close> is the time since the start as a floating-point number.\<close>

definition collate_link :: "'d fp \<Rightarrow> 'd \<Rightarrow> NetworkLink \<Rightarrow> 'd link_stats \<Rightarrow> 'd link_stats res" where
  "collate_link F time_delta l st =
     (let activity = nl_link_utilized l;
          st1 = (case nl_type l of
                   EXT_IN \<Rightarrow> st\<lparr>ls_ext_in_utilization := ls_ext_in_utilization st + activity\<rparr>
                 | EXT_OUT \<Rightarrow> st\<lparr>ls_ext_out_utilization := ls_ext_out_utilization st + activity\<rparr>
                 | INT_link \<Rightarrow> st\<lparr>ls_int_utilization := ls_int_utilization st + activity\<rparr>
                 | NUM_LINK_TYPES \<Rightarrow> st);
          st2 = st1\<lparr>ls_average_link_utilization :=
            fp_add F (ls_average_link_utilization st1) (fp_div F (fp_of_int F (int activity)) time_delta)\<rparr>
      in bindR (loopR (\<lambda>(j, v) loads. bindR (at loads (int j)) (\<lambda>x.
                  put loads (int j) (fp_add F x (fp_div F (fp_of_int F (int v)) time_delta))))
                (enumerate 0 (nl_vc_load l)) (ls_average_vc_load st2)) (\<lambda>loads.
           Inr (st2\<lparr>ls_average_vc_load := loads\<rparr>)))"

definition gn_collateStats ::
  "'d fp \<Rightarrow> Cycles \<Rightarrow> Cycles \<Rightarrow> 'p GarnetNetwork \<Rightarrow> 'd link_stats \<times> router_stats list \<Rightarrow> ('d link_stats \<times> router_stats list) res" where
  "gn_collateStats F cur_cycle start_cycle gn = (\<lambda>(st, rss).
     bindR (loopR (\<lambda>h st'. bindR (at (gn_links gn) (int h)) (\<lambda>x.
              collate_link F (fp_of_int F (int cur_cycle - int start_cycle)) (obj_link x) st'))
            (gn_networklinks gn) st) (\<lambda>st1.
     bindR (mapR (\<lambda>(rt, rs). rt_collateStats rt rs) (zip (gn_routers gn) rss)) (\<lambda>rss1. Inr (st1, rss1))))"

definition gn_functionalRead :: "'h access \<Rightarrow> 'p GarnetNetwork \<Rightarrow> 'h \<Rightarrow> (bool \<times> 'h) res" where
  "gn_functionalRead acc gn h =
     bindR (read_all (rt_functionalRead acc) (gn_routers gn) False h) (\<lambda>(b1, h1).
     bindR (read_all (ni_functionalRead acc) (gn_nis gn) b1 h1) (\<lambda>(b2, h2).
     bindR (mapR (\<lambda>i. at (gn_links gn) (int i)) (gn_networklinks gn)) (\<lambda>links.
     bindR (read_all (\<lambda>x. nl_functionalRead acc (obj_link x)) links b2 h2) (\<lambda>(b3, h3).
     bindR (mapR (\<lambda>i. at (gn_links gn) (int i)) (gn_networkbridges gn)) (\<lambda>bridges.
       read_all (\<lambda>x. nl_functionalRead acc (obj_link x)) bridges b3 h3)))))"

definition gn_functionalWrite :: "'h access \<Rightarrow> 'p GarnetNetwork \<Rightarrow> 'h \<Rightarrow> (nat \<times> 'h) res" where
  "gn_functionalWrite acc gn h =
     bindR (write_all (rt_functionalWrite acc) (gn_routers gn) 0 h) (\<lambda>(n1, h1).
     bindR (write_all (ni_functionalWrite acc) (gn_nis gn) n1 h1) (\<lambda>(n2, h2).
     bindR (mapR (\<lambda>i. at (gn_links gn) (int i)) (gn_networklinks gn)) (\<lambda>links.
       write_all (\<lambda>x. nl_functionalWrite acc (obj_link x)) links n2 h2)))"

end
