(* ===== verification/Network_Wiring.thy ===== *)
theory Network_Wiring
  imports Garnet_Network
begin

text \<open>
  The network after its links have been made: the ports of every router and of every interface correspond, in order, to
  the requests of the topology, and the routing tables, the weights and the lookup of a node's router agree with them.
\<close>

section \<open>What a list of requests asks for\<close>

text \<open>The output ports of router \<open>r\<close>: direction, routing entries and weight.\<close>

fun out_spec :: "nat \<Rightarrow> link_req \<Rightarrow> (PortDirection \<times> NetDest list \<times> int) list" where
  "out_spec r (Make_ext_in src dest link routes) = []"
| "out_spec r (Make_ext_out src dest link routes) = (if src = r then [(''Local'', routes, bl_weight link)] else [])"
| "out_spec r (Make_internal src dest link routes out_dirn in_dirn) = (if src = r then [(out_dirn, routes, bl_weight link)] else [])"

fun in_spec :: "nat \<Rightarrow> link_req \<Rightarrow> PortDirection list" where
  "in_spec r (Make_ext_in src dest link routes) = (if dest = r then [''Local''] else [])"
| "in_spec r (Make_ext_out src dest link routes) = []"
| "in_spec r (Make_internal src dest link routes out_dirn in_dirn) = (if dest = r then [in_dirn] else [])"

text \<open>The link object at the side of the interface on the way into the network.\<close>

definition ext_in_object :: "(nat \<Rightarrow> garnet_link option) \<Rightarrow> BasicLink \<Rightarrow> nat" where
  "ext_in_object objs link = (case objs (bl_id link) of
       Some (Ext_link gl) \<Rightarrow> (case link_end (extBridgeEn gl) (dir_in (gx_extBridges gl)) (fst (gx_network_links gl)) (fst (gx_credit_links gl)) of
           Inr (h, _) \<Rightarrow> h | Inl _ \<Rightarrow> 0)
     | _ \<Rightarrow> 0)"

text \<open>The output ports of the interface of local node \<open>n\<close>: the router and the virtual networks of the link.\<close>

fun attach_spec :: "'p Network \<Rightarrow> (nat \<Rightarrow> garnet_link option) \<Rightarrow> (nat \<Rightarrow> int list) \<Rightarrow> nat \<Rightarrow> link_req \<Rightarrow> (int \<times> int list) list" where
  "attach_spec nw objs vn n (Make_ext_in src dest link routes) =
     (if getLocalNodeID src nw = Inr n then [(int dest, vn (ext_in_object objs link))] else [])"
| "attach_spec nw objs vn n (Make_ext_out src dest link routes) = []"
| "attach_spec nw objs vn n (Make_internal src dest link routes out_dirn in_dirn) = []"

fun req_routes :: "link_req \<Rightarrow> NetDest list" where
  "req_routes (Make_ext_in src dest link routes) = routes"
| "req_routes (Make_ext_out src dest link routes) = routes"
| "req_routes (Make_internal src dest link routes out_dirn in_dirn) = routes"

section \<open>Ports of a router\<close>

definition router_wired :: "nat \<Rightarrow> Router \<Rightarrow> (PortDirection \<times> NetDest list \<times> int) list \<Rightarrow> PortDirection list \<Rightarrow> bool" where
  "router_wired V rt outs ins \<longleftrightarrow> map ou_direction (rt_output_unit rt) = map fst outs
     \<and> weight_table (is_ru (rt_shared rt)) = map (\<lambda>e. snd (snd e)) outs
     \<and> (if outs = [] then routing_table (is_ru (rt_shared rt)) = []
        else routing_table (is_ru (rt_shared rt)) = map (\<lambda>v. map (\<lambda>e. fst (snd e) ! v) outs) [0..<V])
     \<and> map iu_direction (rt_input_unit rt) = ins"

lemma addRoute_table:
  assumes "length entry = V" and "if outs = [] then routing_table ru = [] else routing_table ru = map (\<lambda>v. map (\<lambda>e. fst (snd e) ! v) outs) [0..<V]"
  shows "routing_table (addRoute entry ru) = map (\<lambda>v. map (\<lambda>e. fst (snd e) ! v) (outs @ [(d, entry, w)])) [0..<V]"
  by (rule nth_equalityI) (use assms in \<open>auto simp: addRoute_def Let_def split: if_splits\<close>)

lemma addOutPort_wired:
  assumes "addOutPort nc dirn out_link entry w credit_link vcs rt = Inr (rt', l, c)" and "router_wired V rt outs ins" and "length entry = V"
  shows "router_wired V rt' (outs @ [(dirn, entry, w)]) ins"
proof -
  from assms(1) obtain ou where ou: "OutputUnit_new (nc\<lparr>nc_num_vnets := rt_virtual_networks rt\<rparr>) (int (length (rt_output_unit rt))) dirn vcs = Inr ou"
    "rt' = rt\<lparr>rt_output_unit := rt_output_unit rt @ [ou], rt_shared := (rt_shared rt)\<lparr>is_ru := addOutDirection dirn (int (length (rt_output_unit rt)))
       (addWeight w (addRoute entry (is_ru (rt_shared rt))))\<rparr>\<rparr>"
    by (auto simp: addOutPort_def Let_def bindR_Inr_iff)
  have "ou_direction ou = dirn" using ou(1) by (auto simp: OutputUnit_new_def bindR_Inr_iff)
  moreover have "routing_table (addRoute entry (is_ru (rt_shared rt))) = map (\<lambda>v. map (\<lambda>e. fst (snd e) ! v) (outs @ [(dirn, entry, w)])) [0..<V]"
    by (rule addRoute_table [OF assms(3)]) (use assms(2) in \<open>simp add: router_wired_def\<close>)
  ultimately show ?thesis using assms(2) unfolding router_wired_def ou(2)
    by (simp add: addOutDirection_def addWeight_def) (simp add: addRoute_def Let_def)
qed

lemma addInPort_wired:
  assumes "addInPort dirn in_link credit_link rt = Inr (rt', l, c)" and "router_wired V rt outs ins"
  shows "router_wired V rt' outs (ins @ [dirn])"
proof -
  from assms(1) obtain iu where iu: "InputUnit_new (int (length (rt_input_unit rt))) dirn (rt_num_vcs rt) (rt_vc_per_vnet rt) = Inr iu"
    "rt' = rt\<lparr>rt_input_unit := rt_input_unit rt @ [iu], rt_shared := (rt_shared rt)\<lparr>is_ru := addInDirection dirn (int (length (rt_input_unit rt))) (is_ru (rt_shared rt))\<rparr>\<rparr>"
    by (auto simp: addInPort_def Let_def bindR_Inr_iff)
  have "iu_direction iu = dirn" using iu(1) by (auto simp: InputUnit_new_def bindR_Inr_iff)
  then show ?thesis using assms(2) unfolding router_wired_def iu(2) by (simp add: addInDirection_def)
qed

section \<open>Links keep their virtual networks\<close>

definition obj_vnets :: "link_obj list \<Rightarrow> nat \<Rightarrow> int list" where
  "obj_vnets links h = nl_mVnets (obj_link (links ! h))"

lemma nth_update: "xs[i := x] ! j = (if i = j \<and> i < length xs then x else xs ! j)"
  by (cases "i < length xs") (simp_all add: nth_list_update list_update_beyond)

lemma set_vcs_vnets:
  assumes "set_vcs n h links = Inr links'"
  shows "obj_vnets links' = obj_vnets links" and "length links' = length links"
  using assms by (auto simp: set_vcs_def bindR_Inr_iff at_Inr_iff fun_eq_iff obj_vnets_def nth_update nb_setVcsPerVnet_def nl_setVcsPerVnet_def Let_def
      split: link_obj.splits)

lemma set_vcs_all_vnets: "loopR (set_vcs n) hs links = Inr links' \<Longrightarrow> obj_vnets links' = obj_vnets links"
  using loopR_invariant [of "set_vcs n" hs links links' "\<lambda>l. obj_vnets l = obj_vnets links"] set_vcs_vnets(1) by metis

section \<open>The whole network\<close>

definition port_sig :: "OutputPort \<Rightarrow> int \<times> int list" where
  "port_sig p = (op_routerID p, op_vnets p)"

definition wired ::
  "'p Network \<Rightarrow> (nat \<Rightarrow> garnet_link option) \<Rightarrow> (nat \<Rightarrow> int list) \<Rightarrow> nat \<Rightarrow> nat \<Rightarrow> link_req list \<Rightarrow> 'p GarnetNetwork \<Rightarrow> bool" where
  "wired nw objs vn R N reqs gn \<longleftrightarrow> gn_base gn = nw \<and> obj_vnets (gn_links gn) = vn \<and> length (gn_routers gn) = R \<and> length (gn_nis gn) = N
     \<and> (\<forall>r < R. router_wired (nw_virtual_networks nw) (gn_routers gn ! r) (concat (map (out_spec r) reqs)) (concat (map (in_spec r) reqs)))
     \<and> (\<forall>n < N. map port_sig (ni_outPorts (gn_nis gn ! n)) = concat (map (attach_spec nw objs vn n) reqs))"

text \<open>What one call adds to the network.\<close>

definition adds ::
  "(nat \<Rightarrow> (PortDirection \<times> NetDest list \<times> int) list) \<Rightarrow> (nat \<Rightarrow> PortDirection list) \<Rightarrow> (nat \<Rightarrow> (int \<times> int list) list)
     \<Rightarrow> 'p GarnetNetwork \<Rightarrow> 'p GarnetNetwork \<Rightarrow> bool" where
  "adds outs ins ats gn gn' \<longleftrightarrow> gn_base gn' = gn_base gn \<and> obj_vnets (gn_links gn') = obj_vnets (gn_links gn)
     \<and> length (gn_routers gn') = length (gn_routers gn) \<and> length (gn_nis gn') = length (gn_nis gn)
     \<and> (\<forall>r < length (gn_routers gn). \<forall>os is'. router_wired (nw_virtual_networks (gn_base gn)) (gn_routers gn ! r) os is'
          \<longrightarrow> router_wired (nw_virtual_networks (gn_base gn)) (gn_routers gn' ! r) (os @ outs r) (is' @ ins r))
     \<and> (\<forall>n < length (gn_nis gn). map port_sig (ni_outPorts (gn_nis gn' ! n)) = map port_sig (ni_outPorts (gn_nis gn ! n)) @ ats n)"

lemma adds_trans:
  assumes "adds o1 i1 a1 gn gn1" and "adds o2 i2 a2 gn1 gn2"
  shows "adds (\<lambda>r. o1 r @ o2 r) (\<lambda>r. i1 r @ i2 r) (\<lambda>n. a1 n @ a2 n) gn gn2"
  using assms unfolding adds_def by (simp flip: append_assoc)

lemma adds_nothing:
  "gn_base gn' = gn_base gn \<Longrightarrow> obj_vnets (gn_links gn') = obj_vnets (gn_links gn) \<Longrightarrow> gn_routers gn' = gn_routers gn \<Longrightarrow> gn_nis gn' = gn_nis gn
     \<Longrightarrow> adds (\<lambda>_. []) (\<lambda>_. []) (\<lambda>_. []) gn gn'"
  by (simp add: adds_def)

lemma record_link_adds: "record_link ty h c vcs gn = Inr gn' \<Longrightarrow> adds (\<lambda>_. []) (\<lambda>_. []) (\<lambda>_. []) gn gn'"
proof -
  assume "record_link ty h c vcs gn = Inr gn'"
  then have r: "h < length (gn_links gn)" "gn' = gn\<lparr>gn_links := (gn_links gn)[h := on_obj_link (\<lambda>l. l\<lparr>nl_type := ty\<rparr>) (gn_links gn ! h)],
      gn_networklinks := gn_networklinks gn @ [h], gn_creditlinks := gn_creditlinks gn @ [c], gn_max_vcs_per_vnet := max (gn_max_vcs_per_vnet gn) vcs\<rparr>"
    by (auto simp: record_link_def bindR_Inr_iff at_Inr_iff)
  have "nl_mVnets (obj_link (on_obj_link (\<lambda>l. l\<lparr>nl_type := ty\<rparr>) x)) = nl_mVnets (obj_link x)" for x by (cases x) simp_all
  then show ?thesis by (intro adds_nothing) (auto simp: r(2) obj_vnets_def nth_update)
qed

lemma bridged_adds: "adds (\<lambda>_. []) (\<lambda>_. []) (\<lambda>_. []) gn (bridged en h gn)"
  by (rule adds_nothing) (simp_all add: bridged_def record_bridge_def)

lemma bridged_vnets: "gn_base (bridged en h gn) = gn_base gn"
  by (simp add: bridged_def record_bridge_def)

lemma router_addInPort_adds:
  assumes "router_addInPort r dirn h c gn = Inr gn'"
  shows "adds (\<lambda>_. []) (\<lambda>q. if r = q then [dirn] else []) (\<lambda>_. []) gn gn'"
proof -
  from assms obtain rt' l1 l2 links p where a: "r < length (gn_routers gn)"
    "addInPort dirn (obj_link (gn_links gn ! h)) (obj_link (gn_links gn ! c)) (gn_routers gn ! r) = Inr (rt', l1, l2)"
    "loopR (set_vcs (rt_vc_per_vnet (gn_routers gn ! r))) [h, c] (gn_links gn) = Inr links"
    "gn' = gn\<lparr>gn_routers := (gn_routers gn)[r := rt'], gn_links := links, gn_rt_ports := p\<rparr>"
    unfolding router_addInPort_def by (auto simp: bindR_Inr_iff at_Inr_iff)
  have "router_wired V (gn_routers gn' ! q) (os @ []) (is' @ (if r = q then [dirn] else []))" if "router_wired V (gn_routers gn ! q) os is'" for V q os is'
    using addInPort_wired [OF a(2)] that a(1) by (cases "r = q") (simp_all add: a(4))
  then show ?thesis using set_vcs_all_vnets [OF a(3)] by (simp add: adds_def a(4))
qed

lemma router_addOutPort_adds:
  assumes "router_addOutPort r dirn h entry w c vcs gn = Inr gn'" and "length entry = nw_virtual_networks (gn_base gn)"
  shows "adds (\<lambda>q. if r = q then [(dirn, entry, w)] else []) (\<lambda>_. []) (\<lambda>_. []) gn gn'"
proof -
  from assms(1) obtain rt' l1 l2 links p where a: "r < length (gn_routers gn)"
    "addOutPort (gn_conf gn) dirn (obj_link (gn_links gn ! h)) entry w (obj_link (gn_links gn ! c)) vcs (gn_routers gn ! r) = Inr (rt', l1, l2)"
    "loopR (set_vcs vcs) [h, c] (gn_links gn) = Inr links"
    "gn' = gn\<lparr>gn_routers := (gn_routers gn)[r := rt'], gn_links := links, gn_rt_ports := p\<rparr>"
    unfolding router_addOutPort_def by (auto simp: bindR_Inr_iff at_Inr_iff)
  let ?V = "nw_virtual_networks (gn_base gn)"
  have "router_wired ?V (gn_routers gn' ! q) (os @ (if r = q then [(dirn, entry, w)] else [])) (is' @ [])" if "router_wired ?V (gn_routers gn ! q) os is'" for q os is'
    using addOutPort_wired [OF a(2)] assms(2) that a(1) by (cases "r = q") (simp_all add: a(4))
  then show ?thesis using set_vcs_all_vnets [OF a(3)] by (simp add: adds_def a(4))
qed

lemma netif_addInPort_adds:
  assumes "netif_addInPort n h c gn = Inr gn'"
  shows "adds (\<lambda>_. []) (\<lambda>_. []) (\<lambda>_. []) gn gn'"
proof -
  let ?ni = "(gn_nis gn ! n)\<lparr>ni_inPorts := ni_inPorts (gn_nis gn ! n) @ [InputPort_new (obj_link (gn_links gn ! h))]\<rparr>"
  from assms obtain links p where a: "n < length (gn_nis gn)"
    "(if ni_vc_per_vnet (gn_nis gn ! n) \<noteq> 0 then loopR (set_vcs (ni_vc_per_vnet (gn_nis gn ! n))) [h, c] (gn_links gn) else Inr (gn_links gn)) = Inr links"
    "gn' = gn\<lparr>gn_nis := (gn_nis gn)[n := ?ni], gn_links := links, gn_ni_ports := p\<rparr>"
    unfolding netif_addInPort_def by (auto simp: bindR_Inr_iff at_Inr_iff ni_addInPort_def Let_def split: if_splits)
  have "obj_vnets links = obj_vnets (gn_links gn)" using a(2) set_vcs_all_vnets by (metis sum.inject(2))
  then show ?thesis using a(1) by (auto simp: adds_def a(3) nth_list_update)
qed

lemma netif_addOutPort_adds:
  assumes "netif_addOutPort n h c dest vcs gn = Inr gn'"
  shows "adds (\<lambda>_. []) (\<lambda>_. []) (\<lambda>m. if n = m then [(int dest, obj_vnets (gn_links gn) h)] else []) gn gn'"
proof -
  let ?ni = "gn_nis gn ! n" and ?l = "obj_link (gn_links gn ! h)"
  from assms obtain ni' l1 l2 l3 links1 links p where a: "n < length (gn_nis gn)"
    "ni_addOutPort (gn_conf gn) ?l (obj_link (gn_links gn ! c)) (int dest) vcs [] ?ni = Inr (l1, l2, l3, ni')"
    "(if ni_niOutVcs ?ni = [] then loopR (set_vcs vcs) (pl_in (gn_ni_ports gn ! n)) (gn_links gn) else Inr (gn_links gn)) = Inr links1"
    "loopR (set_vcs vcs) [h, c] links1 = Inr links"
    "gn' = gn\<lparr>gn_nis := (gn_nis gn)[n := ni'], gn_links := links, gn_ni_ports := p\<rparr>"
    unfolding netif_addOutPort_def by (auto simp: bindR_Inr_iff at_Inr_iff)
  have "obj_vnets links1 = obj_vnets (gn_links gn)" using a(3) set_vcs_all_vnets by (metis sum.inject(2))
  then have v: "obj_vnets links = obj_vnets (gn_links gn)" using set_vcs_all_vnets [OF a(4)] by simp
  have "ni_outPorts ni' = ni_outPorts ?ni @ [OutputPort_new ?l (int dest)]"
    using a(2) unfolding ni_addOutPort_def by (auto simp: bindR_Inr_iff Let_def split: if_splits)
  then have "map port_sig (ni_outPorts ni') = map port_sig (ni_outPorts ?ni) @ [(int dest, obj_vnets (gn_links gn) h)]"
    by (simp add: port_sig_def OutputPort_new_def obj_vnets_def)
  then show ?thesis using a(1) v by (auto simp: adds_def a(5) nth_list_update)
qed

lemma make_link_adds:
  assumes "make_link objs req gn = Inr gn'" and "length (req_routes req) = nw_virtual_networks (gn_base gn)"
  shows "adds (\<lambda>r. out_spec r req) (\<lambda>r. in_spec r req) (\<lambda>n. attach_spec (gn_base gn) objs (obj_vnets (gn_links gn)) n req) gn gn'"
proof (cases req)
  case (Make_ext_in src dest link routes)
  from assms(1) obtain n gl gn1 h c gn2 h' c' gn3 where m:
    "getLocalNodeID src (gn_base gn) = Inr n" "objs (bl_id link) = Some (Ext_link gl)"
    "record_link EXT_IN (fst (gx_network_links gl)) (fst (gx_credit_links gl)) (rt_vc_per_vnet (gn_routers gn ! dest)) gn = Inr gn1"
    "link_end (extBridgeEn gl) (dir_in (gx_extBridges gl)) (fst (gx_network_links gl)) (fst (gx_credit_links gl)) = Inr (h, c)"
    "netif_addOutPort n h c dest (rt_vc_per_vnet (gn_routers gn ! dest)) gn1 = Inr gn2"
    "router_addInPort dest ''Local'' h' c' (bridged (extBridgeEn gl) h gn2) = Inr gn3" "gn' = bridged (intBridgeEn gl) h' gn3"
    unfolding Make_ext_in make_link.simps makeExtInLink_def Let_def ext_link_of_def
    by (auto simp: bindR_Inr_iff at_Inr_iff split: option.splits garnet_link.splits)
  note A = adds_trans [OF adds_trans [OF adds_trans [OF adds_trans [OF record_link_adds [OF m(3)] netif_addOutPort_adds [OF m(5)]]
      bridged_adds [of gn2 "extBridgeEn gl" h]] router_addInPort_adds [OF m(6)]] bridged_adds [of gn3 "intBridgeEn gl" h']]
  have e: "obj_vnets (gn_links gn1) = obj_vnets (gn_links gn)" using record_link_adds [OF m(3)] by (simp add: adds_def)
  have "ext_in_object objs link = h" by (simp add: ext_in_object_def m(2,4))
  then show ?thesis using A [unfolded e] by (simp add: Make_ext_in m(1,7) cong: if_cong)
next
  case (Make_ext_out src dest link routes)
  from assms(1) obtain n gl gn1 h c gn2 h' c' gn3 where m:
    "record_link EXT_OUT (snd (gx_network_links gl)) (snd (gx_credit_links gl)) (rt_vc_per_vnet (gn_routers gn ! src)) gn = Inr gn1"
    "netif_addInPort n h c gn1 = Inr gn2"
    "router_addOutPort src ''Local'' h' routes (bl_weight link) c' (rt_vc_per_vnet (gn_routers gn ! src)) (bridged (extBridgeEn gl) h gn2) = Inr gn3"
    "gn' = bridged (intBridgeEn gl) h' gn3"
    unfolding Make_ext_out make_link.simps makeExtOutLink_def Let_def ext_link_of_def
    by (auto simp: bindR_Inr_iff at_Inr_iff split: option.splits garnet_link.splits)
  have "gn_base (bridged (extBridgeEn gl) h gn2) = gn_base gn"
    using record_link_adds [OF m(1)] netif_addInPort_adds [OF m(2)] by (simp add: adds_def bridged_vnets)
  then have len: "length routes = nw_virtual_networks (gn_base (bridged (extBridgeEn gl) h gn2))" using assms(2) by (simp add: Make_ext_out)
  note A = adds_trans [OF adds_trans [OF adds_trans [OF adds_trans [OF record_link_adds [OF m(1)] netif_addInPort_adds [OF m(2)]]
      bridged_adds [of gn2 "extBridgeEn gl" h]] router_addOutPort_adds [OF m(3) len]] bridged_adds [of gn3 "intBridgeEn gl" h']]
  then show ?thesis by (simp add: Make_ext_out m(4))
next
  case (Make_internal src dest link routes out_dirn in_dirn)
  from assms(1) obtain gl gn1 h c gn2 h' c' gn3 vcs where m:
    "record_link INT_link (gi_network_link gl) (gi_credit_link gl) vcs gn = Inr gn1"
    "router_addInPort dest in_dirn h c gn1 = Inr gn2"
    "router_addOutPort src out_dirn h' routes (bl_weight link) c' (rt_vc_per_vnet (gn_routers gn ! dest)) (bridged (dstBridgeEn gl) h gn2) = Inr gn3"
    "gn' = bridged (srcBridgeEn gl) h' gn3"
    unfolding Make_internal make_link.simps makeInternalLink_def Let_def int_link_of_def
    by (auto simp: bindR_Inr_iff at_Inr_iff split: option.splits garnet_link.splits)
  have "gn_base (bridged (dstBridgeEn gl) h gn2) = gn_base gn"
    using record_link_adds [OF m(1)] router_addInPort_adds [OF m(2)] by (simp add: adds_def bridged_vnets)
  then have len: "length routes = nw_virtual_networks (gn_base (bridged (dstBridgeEn gl) h gn2))" using assms(2) by (simp add: Make_internal)
  note A = adds_trans [OF adds_trans [OF adds_trans [OF adds_trans [OF record_link_adds [OF m(1)] router_addInPort_adds [OF m(2)]]
      bridged_adds [of gn2 "dstBridgeEn gl" h]] router_addOutPort_adds [OF m(3) len]] bridged_adds [of gn3 "srcBridgeEn gl" h']]
  then show ?thesis by (simp add: Make_internal m(4))
qed

lemma wired_step:
  assumes "wired nw objs vn R N done_reqs gn" and "make_link objs req gn = Inr gn'" and "length (req_routes req) = nw_virtual_networks nw"
  shows "wired nw objs vn R N (done_reqs @ [req]) gn'"
proof -
  have b: "gn_base gn = nw" "obj_vnets (gn_links gn) = vn" using assms(1) by (simp_all add: wired_def)
  from make_link_adds [OF assms(2)] assms(3) b have
    "adds (\<lambda>r. out_spec r req) (\<lambda>r. in_spec r req) (\<lambda>n. attach_spec nw objs vn n req) gn gn'" by simp
  then show ?thesis using assms(1) unfolding wired_def adds_def by auto
qed

lemma wired_all:
  assumes "loopR (make_link objs) reqs gn = Inr gn'" and "wired nw objs vn R N done_reqs gn" and "\<forall>q \<in> set reqs. length (req_routes q) = nw_virtual_networks nw"
  shows "wired nw objs vn R N (done_reqs @ reqs) gn'"
  using assms
proof (induction reqs arbitrary: gn done_reqs)
  case (Cons q reqs)
  then obtain gn1 where "make_link objs q gn = Inr gn1" "loopR (make_link objs) reqs gn1 = Inr gn'" by (auto simp: bindR_Inr_iff)
  with Cons.IH [OF _ wired_step [OF Cons.prems(2)]] Cons.prems(3) show ?case by fastforce
qed simp

section \<open>Wiring succeeds\<close>

text \<open>The width of a link object and, for a bridge, the link it is attached to: what no operation of the wiring changes.\<close>

fun obj_shape :: "link_obj \<Rightarrow> nat \<times> nat option" where
  "obj_shape (Link_obj l) = (nl_bitWidth l, None)"
| "obj_shape (Bridge_obj b t) = (nl_bitWidth (nb_base b), Some t)"

definition links_ok :: "link_obj list \<Rightarrow> bool" where
  "links_ok links \<longleftrightarrow> (let shapes = map obj_shape links in
     \<forall>(w, to) \<in> set shapes. case to of None \<Rightarrow> True | Some t \<Rightarrow> t < length shapes \<and> snd (shapes ! t) = None)"

lemma obj_width: "nl_bitWidth (obj_link x) = fst (obj_shape x)"
  by (cases x) simp_all

lemma links_ok_shape: "map obj_shape links' = map obj_shape links \<Longrightarrow> links_ok links \<Longrightarrow> links_ok links'"
  unfolding links_ok_def by (simp only:)

lemma links_ok_target:
  assumes "links_ok links" and "h < length links" and "snd (obj_shape (links ! h)) = Some t"
  shows "t < length links \<and> snd (obj_shape (links ! t)) = None"
proof -
  have "obj_shape (links ! h) \<in> set (map obj_shape links)" using assms(2) by simp
  with assms(1) have "case obj_shape (links ! h) of (w, to) \<Rightarrow> case to of None \<Rightarrow> True | Some t \<Rightarrow> t < length links \<and> snd (map obj_shape links ! t) = None"
    unfolding links_ok_def Let_def length_map by (rule bspec)
  with assms(3) show ?thesis by (cases "obj_shape (links ! h)") auto
qed

lemma set_vcs_succeeds:
  assumes "links_ok links" and "h < length links"
  shows "\<exists>links'. set_vcs n h links = Inr links' \<and> map obj_shape links' = map obj_shape links"
proof (cases "links ! h")
  case (Link_obj l)
  then show ?thesis using assms(2) by (simp add: set_vcs_def map_update_same nl_setVcsPerVnet_def Let_def)
next
  case (Bridge_obj b t)
  then have t: "t < length links" "snd (obj_shape (links ! t)) = None" using links_ok_target [OF assms, of t] by simp_all
  then obtain l where l: "links ! t = Link_obj l" by (cases "links ! t") auto
  let ?b = "snd (nb_setVcsPerVnet n l b)" and ?l = "fst (nb_setVcsPerVnet n l b)"
  have "map obj_shape (links[h := Bridge_obj ?b t, t := Link_obj ?l]) = map obj_shape links"
    by (rule nth_equalityI) (use Bridge_obj l t(1) assms(2) in \<open>auto simp: nth_list_update nb_setVcsPerVnet_def nl_setVcsPerVnet_def Let_def\<close>)
  then show ?thesis using Bridge_obj l t(1) assms(2) by (simp add: set_vcs_def split_beta)
qed

lemma set_vcs_all:
  assumes "links_ok links" and "\<forall>h \<in> set hs. h < length links"
  shows "\<exists>links'. loopR (set_vcs n) hs links = Inr links' \<and> map obj_shape links' = map obj_shape links"
proof (rule loopR_succeeds)
  fix h links1
  assume "h \<in> set hs" and s: "map obj_shape links1 = map obj_shape links"
  then have "h < length links1" using assms(2) by (metis length_map)
  with set_vcs_succeeds [OF links_ok_shape [OF s assms(1)]] s show "\<exists>t. set_vcs n h links1 = Inr t \<and> map obj_shape t = map obj_shape links" by metis
qed simp

definition skeleton :: "'p GarnetNetwork \<Rightarrow> 'p Network \<times> VNET_type list \<times> nat \<times> nat \<times> (nat \<times> nat) list \<times> nat \<times> (nat \<times> nat option) list" where
  "skeleton gn = (gn_base gn, gn_vnet_type gn, gn_buffers_per_ctrl_vc gn, gn_buffers_per_data_vc gn,
     map (\<lambda>rt. (rt_bit_width rt, rt_vc_per_vnet rt)) (gn_routers gn), length (gn_nis gn), map obj_shape (gn_links gn))"

lemma skeletonD:
  assumes "skeleton gn' = skeleton gn"
  shows "gn_base gn' = gn_base gn" "gn_conf gn' = gn_conf gn" "length (gn_routers gn') = length (gn_routers gn)" "length (gn_nis gn') = length (gn_nis gn)"
    "map obj_shape (gn_links gn') = map obj_shape (gn_links gn)" "length (gn_links gn') = length (gn_links gn)"
    "r < length (gn_routers gn) \<Longrightarrow> rt_bit_width (gn_routers gn' ! r) = rt_bit_width (gn_routers gn ! r)"
    "r < length (gn_routers gn) \<Longrightarrow> rt_vc_per_vnet (gn_routers gn' ! r) = rt_vc_per_vnet (gn_routers gn ! r)"
    "h < length (gn_links gn) \<Longrightarrow> obj_shape (gn_links gn' ! h) = obj_shape (gn_links gn ! h)"
proof -
  have m: "map (\<lambda>rt. (rt_bit_width rt, rt_vc_per_vnet rt)) (gn_routers gn') = map (\<lambda>rt. (rt_bit_width rt, rt_vc_per_vnet rt)) (gn_routers gn)"
    and o: "map obj_shape (gn_links gn') = map obj_shape (gn_links gn)" using assms by (simp_all add: skeleton_def)
  show lr: "length (gn_routers gn') = length (gn_routers gn)" using m by (metis length_map)
  show ll: "length (gn_links gn') = length (gn_links gn)" using o by (metis length_map)
  show "map obj_shape (gn_links gn') = map obj_shape (gn_links gn)" by (rule o)
  show "h < length (gn_links gn) \<Longrightarrow> obj_shape (gn_links gn' ! h) = obj_shape (gn_links gn ! h)" using o ll by (metis nth_map)
  have "(rt_bit_width (gn_routers gn' ! r), rt_vc_per_vnet (gn_routers gn' ! r)) = (rt_bit_width (gn_routers gn ! r), rt_vc_per_vnet (gn_routers gn ! r))"
    if "r < length (gn_routers gn)"
    using arg_cong [OF m, of "\<lambda>xs. xs ! r"] lr that by simp
  then show "r < length (gn_routers gn) \<Longrightarrow> rt_bit_width (gn_routers gn' ! r) = rt_bit_width (gn_routers gn ! r)"
    "r < length (gn_routers gn) \<Longrightarrow> rt_vc_per_vnet (gn_routers gn' ! r) = rt_vc_per_vnet (gn_routers gn ! r)" by simp_all
qed (use assms in \<open>simp_all add: skeleton_def gn_conf_def\<close>)

text \<open>The network is ready for wiring with \<open>K\<close> channels per virtual network at every router.\<close>

definition net_ok :: "nat \<Rightarrow> 'p GarnetNetwork \<Rightarrow> bool" where
  "net_ok K gn \<longleftrightarrow> 0 < K \<and> 1 \<le> gn_buffers_per_ctrl_vc gn \<and> 1 \<le> gn_buffers_per_data_vc gn \<and> links_ok (gn_links gn)
     \<and> (\<forall>rt \<in> set (gn_routers gn). rt_vc_per_vnet rt = K) \<and> length (gn_rt_ports gn) = length (gn_routers gn)
     \<and> length (gn_ni_ports gn) = length (gn_nis gn) \<and> (\<forall>ni \<in> set (gn_nis gn). ni_niOutVcs ni = [] \<or> ni_vc_per_vnet ni = K)
     \<and> (\<forall>p \<in> set (gn_ni_ports gn). \<forall>h \<in> set (pl_in p). h < length (gn_links gn))"

text \<open>A pair of link objects in the store.\<close>

definition in_store :: "'p GarnetNetwork \<Rightarrow> nat \<times> nat \<Rightarrow> bool" where
  "in_store gn hc \<longleftrightarrow> fst hc < length (gn_links gn) \<and> snd hc < length (gn_links gn)"

lemma in_store_same:
  assumes "skeleton gn' = skeleton gn"
  shows "in_store gn' hc = in_store gn hc"
  using skeletonD(6) [OF assms] by (simp add: in_store_def)

definition goes :: "nat \<Rightarrow> 'p GarnetNetwork \<Rightarrow> 'p GarnetNetwork res \<Rightarrow> bool" where
  "goes K gn m \<longleftrightarrow> (\<exists>gn'. m = Inr gn' \<and> net_ok K gn' \<and> skeleton gn' = skeleton gn)"

lemma record_link_goes:
  assumes ok: "net_ok K gn" and h: "h < length (gn_links gn)"
  shows "goes K gn (record_link ty h c vcs gn)"
proof -
  have "obj_shape (on_obj_link (\<lambda>l. l\<lparr>nl_type := ty\<rparr>) x) = obj_shape x" for x by (cases x) simp_all
  then have s: "map obj_shape ((gn_links gn)[h := on_obj_link (\<lambda>l. l\<lparr>nl_type := ty\<rparr>) (gn_links gn ! h)]) = map obj_shape (gn_links gn)"
    by (intro map_update_same)
  show ?thesis using ok h links_ok_shape [OF s] by (simp add: goes_def record_link_def net_ok_def skeleton_def s)
qed

lemma bridged_goes: "net_ok K gn \<Longrightarrow> net_ok K (bridged en h gn) \<and> skeleton (bridged en h gn) = skeleton gn"
  by (simp add: bridged_def record_bridge_def net_ok_def skeleton_def)

lemma router_addInPort_goes:
  assumes ok: "net_ok K gn" and r: "r < length (gn_routers gn)" and hc: "in_store gn (h, c)"
    and w: "fst (obj_shape (gn_links gn ! h)) = rt_bit_width (gn_routers gn ! r)"
  shows "goes K gn (router_addInPort r dirn h c gn)"
proof -
  let ?rt = "gn_routers gn ! r"
  have K: "rt_vc_per_vnet ?rt = K" "0 < K" "r < length (gn_rt_ports gn)" using ok r by (auto simp: net_ok_def)
  have h: "h < length (gn_links gn)" "c < length (gn_links gn)" using hc by (simp_all add: in_store_def)
  have "\<exists>rt' l1 l2. addInPort dirn (obj_link (gn_links gn ! h)) (obj_link (gn_links gn ! c)) ?rt = Inr (rt', l1, l2)
      \<and> rt_bit_width rt' = rt_bit_width ?rt \<and> rt_vc_per_vnet rt' = K"
    using K w by (simp add: addInPort_def obj_width InputUnit_new_def Let_def)
  then obtain rt' l1 l2 where a: "addInPort dirn (obj_link (gn_links gn ! h)) (obj_link (gn_links gn ! c)) ?rt = Inr (rt', l1, l2)"
    "rt_bit_width rt' = rt_bit_width ?rt" "rt_vc_per_vnet rt' = K" by blast
  from set_vcs_all [of "gn_links gn" "[h, c]" K] ok h obtain links where
    l: "loopR (set_vcs K) [h, c] (gn_links gn) = Inr links" "map obj_shape links = map obj_shape (gn_links gn)" by (auto simp: net_ok_def)
  have len: "length links = length (gn_links gn)" using l(2) by (metis length_map)
  have rts: "map (\<lambda>rt. (rt_bit_width rt, rt_vc_per_vnet rt)) ((gn_routers gn)[r := rt']) = map (\<lambda>rt. (rt_bit_width rt, rt_vc_per_vnet rt)) (gn_routers gn)"
    by (rule map_update_same) (use a K(1) in simp)
  have "\<forall>rt \<in> set ((gn_routers gn)[r := rt']). rt_vc_per_vnet rt = K" by (rule ball_update) (use ok a in \<open>simp_all add: net_ok_def\<close>)
  then show ?thesis using ok r h K a(1) l len rts links_ok_shape [OF l(2)]
    by (simp add: goes_def router_addInPort_def net_ok_def skeleton_def del: loopR.simps)
qed

lemma OutVcStates_new:
  assumes "0 < K" and "1 \<le> gn_buffers_per_ctrl_vc gn" and "1 \<le> gn_buffers_per_data_vc gn"
  shows "\<exists>states. mapR (\<lambda>i. OutVcState_new ((gn_conf gn)\<lparr>nc_num_vnets := V\<rparr>) i K) is' = Inr states"
    and "\<exists>states. mapR (\<lambda>i. OutVcState_new (gn_conf gn) i K) is' = Inr states"
proof -
  have *: "\<exists>ys. mapR f xs = Inr ys" if "\<And>x. \<exists>y. f x = Inr y" for f :: "nat \<Rightarrow> OutVcState res" and xs
  proof (induction xs)
    case (Cons x xs)
    with that [of x] show ?case by auto
  qed simp
  show "\<exists>states. mapR (\<lambda>i. OutVcState_new ((gn_conf gn)\<lparr>nc_num_vnets := V\<rparr>) i K) is' = Inr states"
    "\<exists>states. mapR (\<lambda>i. OutVcState_new (gn_conf gn) i K) is' = Inr states"
    by (rule *, use assms in \<open>simp add: OutVcState_new_def gn_conf_def Let_def\<close>)+
qed

lemma router_addOutPort_goes:
  assumes ok: "net_ok K gn" and r: "r < length (gn_routers gn)" and hc: "in_store gn (h, c)"
    and w: "fst (obj_shape (gn_links gn ! h)) = rt_bit_width (gn_routers gn ! r)"
  shows "goes K gn (router_addOutPort r dirn h entry wt c K gn)"
proof -
  let ?rt = "gn_routers gn ! r"
  have K: "rt_vc_per_vnet ?rt = K" "0 < K" "r < length (gn_rt_ports gn)" "1 \<le> gn_buffers_per_ctrl_vc gn" "1 \<le> gn_buffers_per_data_vc gn"
    using ok r by (auto simp: net_ok_def)
  have h: "h < length (gn_links gn)" "c < length (gn_links gn)" using hc by (simp_all add: in_store_def)
  from OutVcStates_new(1) [OF K(2,4,5)] obtain states where
    "mapR (\<lambda>i. OutVcState_new ((gn_conf gn)\<lparr>nc_num_vnets := rt_virtual_networks ?rt\<rparr>) i K) [0..<K * rt_virtual_networks ?rt] = Inr states" by blast
  then have "\<exists>rt' l1 l2. addOutPort (gn_conf gn) dirn (obj_link (gn_links gn ! h)) entry wt (obj_link (gn_links gn ! c)) K ?rt = Inr (rt', l1, l2)
      \<and> rt_bit_width rt' = rt_bit_width ?rt \<and> rt_vc_per_vnet rt' = K"
    using K w by (simp add: addOutPort_def obj_width OutputUnit_new_def Let_def)
  then obtain rt' l1 l2 where a: "addOutPort (gn_conf gn) dirn (obj_link (gn_links gn ! h)) entry wt (obj_link (gn_links gn ! c)) K ?rt = Inr (rt', l1, l2)"
    "rt_bit_width rt' = rt_bit_width ?rt" "rt_vc_per_vnet rt' = K" by blast
  from set_vcs_all [of "gn_links gn" "[h, c]" K] ok h obtain links where
    l: "loopR (set_vcs K) [h, c] (gn_links gn) = Inr links" "map obj_shape links = map obj_shape (gn_links gn)" by (auto simp: net_ok_def)
  have len: "length links = length (gn_links gn)" using l(2) by (metis length_map)
  have rts: "map (\<lambda>rt. (rt_bit_width rt, rt_vc_per_vnet rt)) ((gn_routers gn)[r := rt']) = map (\<lambda>rt. (rt_bit_width rt, rt_vc_per_vnet rt)) (gn_routers gn)"
    by (rule map_update_same) (use a K(1) in simp)
  have "\<forall>rt \<in> set ((gn_routers gn)[r := rt']). rt_vc_per_vnet rt = K" by (rule ball_update) (use ok a in \<open>simp_all add: net_ok_def\<close>)
  then show ?thesis using ok r h K a(1) l len rts links_ok_shape [OF l(2)]
    by (simp add: goes_def router_addOutPort_def net_ok_def skeleton_def del: loopR.simps)
qed

lemma netif_addInPort_goes:
  assumes ok: "net_ok K gn" and n: "n < length (gn_nis gn)" and hc: "in_store gn (h, c)"
  shows "goes K gn (netif_addInPort n h c gn)"
proof -
  let ?ni = "gn_nis gn ! n" and ?p = "gn_ni_ports gn ! n"
  let ?ni' = "?ni\<lparr>ni_inPorts := ni_inPorts ?ni @ [InputPort_new (obj_link (gn_links gn ! h))]\<rparr>" and ?p' = "?p\<lparr>pl_in := pl_in ?p @ [h], pl_in_credit := pl_in_credit ?p @ [c]\<rparr>"
  have h: "h < length (gn_links gn)" "c < length (gn_links gn)" "n < length (gn_ni_ports gn)" using hc ok n by (simp_all add: in_store_def net_ok_def)
  have "\<exists>links. (if ni_vc_per_vnet ?ni \<noteq> 0 then loopR (set_vcs (ni_vc_per_vnet ?ni)) [h, c] (gn_links gn) else Inr (gn_links gn)) = Inr links
      \<and> map obj_shape links = map obj_shape (gn_links gn)"
    using set_vcs_all [of "gn_links gn" "[h, c]" "ni_vc_per_vnet ?ni"] ok h by (auto simp: net_ok_def simp del: loopR.simps)
  then obtain links where l: "(if ni_vc_per_vnet ?ni \<noteq> 0 then loopR (set_vcs (ni_vc_per_vnet ?ni)) [h, c] (gn_links gn) else Inr (gn_links gn)) = Inr links"
    "map obj_shape links = map obj_shape (gn_links gn)" by blast
  have len: "length links = length (gn_links gn)" using l(2) by (metis length_map)
  have ps: "\<forall>q \<in> set ((gn_ni_ports gn)[n := ?p']). \<forall>x \<in> set (pl_in q). x < length links"
  proof (rule ball_update)
    have "?p \<in> set (gn_ni_ports gn)" using h(3) by simp
    then show "\<forall>x \<in> set (pl_in ?p'). x < length links" using ok h(1) len by (auto simp: net_ok_def)
  qed (use ok len in \<open>simp add: net_ok_def\<close>)
  have nis: "\<forall>ni \<in> set ((gn_nis gn)[n := ?ni']). ni_niOutVcs ni = [] \<or> ni_vc_per_vnet ni = K"
    by (rule ball_update) (use ok n in \<open>simp_all add: net_ok_def\<close>)
  let ?gn = "gn\<lparr>gn_nis := (gn_nis gn)[n := ?ni'], gn_links := links, gn_ni_ports := (gn_ni_ports gn)[n := ?p']\<rparr>"
  have "netif_addInPort n h c gn = Inr ?gn"
    unfolding netif_addInPort_def using n h l(1) by (cases "ni_vc_per_vnet ?ni = 0") (simp_all add: ni_addInPort_def Let_def del: loopR.simps)
  moreover have "net_ok K ?gn" using ok ps nis links_ok_shape [OF l(2)] by (simp add: net_ok_def)
  ultimately show ?thesis using l(2) by (simp add: goes_def skeleton_def)
qed

lemma netif_addOutPort_goes:
  assumes ok: "net_ok K gn" and n: "n < length (gn_nis gn)" and hc: "in_store gn (h, c)"
  shows "goes K gn (netif_addOutPort n h c dest K gn)"
proof -
  let ?ni = "gn_nis gn ! n" and ?p = "gn_ni_ports gn ! n"
  let ?p' = "?p\<lparr>pl_out := pl_out ?p @ [h], pl_out_credit := pl_out_credit ?p @ [c]\<rparr>"
  have h: "h < length (gn_links gn)" "c < length (gn_links gn)" "n < length (gn_ni_ports gn)" using hc ok n by (simp_all add: in_store_def net_ok_def)
  have K: "0 < K" "1 \<le> gn_buffers_per_ctrl_vc gn" "1 \<le> gn_buffers_per_data_vc gn" "ni_niOutVcs ?ni = [] \<or> ni_vc_per_vnet ?ni = K"
    using ok n by (auto simp: net_ok_def)
  from OutVcStates_new(2) [OF K(1-3)] obtain states where st: "mapR (\<lambda>i. OutVcState_new (gn_conf gn) i K) [0..<K * ni_virtual_networks ?ni] = Inr states" by blast
  have "\<exists>l1 l2 l3 ni'. ni_addOutPort (gn_conf gn) (obj_link (gn_links gn ! h)) (obj_link (gn_links gn ! c)) (int dest) K [] ?ni = Inr (l1, l2, l3, ni')
      \<and> ni_vc_per_vnet ni' = K"
    using K(1,4) st by (auto simp: ni_addOutPort_def Let_def failIf_def)
  then obtain l1 l2 l3 ni' where a: "ni_addOutPort (gn_conf gn) (obj_link (gn_links gn ! h)) (obj_link (gn_links gn ! c)) (int dest) K [] ?ni = Inr (l1, l2, l3, ni')"
    "ni_vc_per_vnet ni' = K" by blast
  have lo: "links_ok (gn_links gn)" "\<forall>x \<in> set (pl_in ?p). x < length (gn_links gn)" using ok h(3) by (auto simp: net_ok_def)
  from set_vcs_all [OF lo, of K] have "\<exists>links1. (if ni_niOutVcs ?ni = [] then loopR (set_vcs K) (pl_in ?p) (gn_links gn) else Inr (gn_links gn)) = Inr links1
      \<and> map obj_shape links1 = map obj_shape (gn_links gn)" by auto
  then obtain links1 where l1: "(if ni_niOutVcs ?ni = [] then loopR (set_vcs K) (pl_in ?p) (gn_links gn) else Inr (gn_links gn)) = Inr links1"
      "map obj_shape links1 = map obj_shape (gn_links gn)" by blast
  have len1: "length links1 = length (gn_links gn)" using l1(2) by (metis length_map)
  from set_vcs_all [OF links_ok_shape [OF l1(2) lo(1)], of "[h, c]" K] h len1 obtain links where
    l: "loopR (set_vcs K) [h, c] links1 = Inr links" "map obj_shape links = map obj_shape links1" by (auto simp del: loopR.simps)
  have len: "length links = length (gn_links gn)" and sh: "map obj_shape links = map obj_shape (gn_links gn)" using l(2) l1(2) len1 by (metis length_map)+
  have ps: "\<forall>q \<in> set ((gn_ni_ports gn)[n := ?p']). \<forall>x \<in> set (pl_in q). x < length links"
    by (rule ball_update) (use ok lo(2) len in \<open>simp_all add: net_ok_def\<close>)
  have nis: "\<forall>ni \<in> set ((gn_nis gn)[n := ni']). ni_niOutVcs ni = [] \<or> ni_vc_per_vnet ni = K"
    by (rule ball_update) (use ok a(2) in \<open>simp_all add: net_ok_def\<close>)
  let ?gn = "gn\<lparr>gn_nis := (gn_nis gn)[n := ni'], gn_links := links, gn_ni_ports := (gn_ni_ports gn)[n := ?p']\<rparr>"
  have "netif_addOutPort n h c dest K gn = Inr ?gn"
    unfolding netif_addOutPort_def using n h by (simp add: a(1) l1(1) l(1) del: loopR.simps)
  moreover have "net_ok K ?gn" using ok ps nis links_ok_shape [OF sh] by (simp add: net_ok_def)
  ultimately show ?thesis using sh by (simp add: goes_def skeleton_def)
qed

text \<open>What a request needs: a known node with an interface, existing routers, a link of the right class, and at each end two objects of
  the store, at the side of a router of the router's width.\<close>

definition end_ok :: "'p GarnetNetwork \<Rightarrow> nat option \<Rightarrow> (nat \<times> nat) res \<Rightarrow> bool" where
  "end_ok gn router e = (case e of Inl _ \<Rightarrow> False | Inr hc \<Rightarrow> in_store gn hc \<and>
     (case router of None \<Rightarrow> True | Some r \<Rightarrow> r < length (gn_routers gn) \<and> fst (obj_shape (gn_links gn ! fst hc)) = rt_bit_width (gn_routers gn ! r)))"

definition node_ok :: "'p GarnetNetwork \<Rightarrow> nat \<Rightarrow> bool" where
  "node_ok gn g = (case getLocalNodeID g (gn_base gn) of Inl _ \<Rightarrow> False | Inr n \<Rightarrow> n < nw_nodes (gn_base gn) \<and> n < length (gn_nis gn))"

fun legal :: "(nat \<Rightarrow> garnet_link option) \<Rightarrow> 'p GarnetNetwork \<Rightarrow> link_req \<Rightarrow> bool" where
  "legal objs gn (Make_ext_in src dest link routes) = (node_ok gn src \<and> (case objs (bl_id link) of
      Some (Ext_link gl) \<Rightarrow> let net = fst (gx_network_links gl); cred = fst (gx_credit_links gl) in net < length (gn_links gn)
        \<and> end_ok gn None (link_end (extBridgeEn gl) (dir_in (gx_extBridges gl)) net cred)
        \<and> end_ok gn (Some dest) (link_end (intBridgeEn gl) (dir_in (gx_intBridges gl)) net cred)
    | _ \<Rightarrow> False))"
| "legal objs gn (Make_ext_out src dest link routes) = (node_ok gn dest \<and> (case objs (bl_id link) of
      Some (Ext_link gl) \<Rightarrow> let net = snd (gx_network_links gl); cred = snd (gx_credit_links gl) in net < length (gn_links gn)
        \<and> end_ok gn None (link_end (extBridgeEn gl) (dir_out (gx_extBridges gl)) net cred)
        \<and> end_ok gn (Some src) (link_end (intBridgeEn gl) (dir_out (gx_intBridges gl)) net cred)
    | _ \<Rightarrow> False))"
| "legal objs gn (Make_internal src dest link routes out_dirn in_dirn) = (case objs (bl_id link) of
      Some (Int_link gl) \<Rightarrow> gi_network_link gl < length (gn_links gn)
        \<and> end_ok gn (Some dest) (link_end (dstBridgeEn gl) (gi_dstBridges gl) (gi_network_link gl) (gi_credit_link gl))
        \<and> end_ok gn (Some src) (link_end (srcBridgeEn gl) (gi_srcBridges gl) (gi_network_link gl) (gi_credit_link gl))
    | _ \<Rightarrow> False)"

lemma end_ok_same:
  assumes "skeleton gn' = skeleton gn"
  shows "end_ok gn' r e = end_ok gn r e"
proof (cases e)
  case (Inr hc)
  note k = skeletonD [OF assms]
  show ?thesis
  proof (cases r)
    case (Some q)
    then show ?thesis using k(3,6) k(7) [of q] k(9) [of "fst hc"] by (auto simp: end_ok_def Inr in_store_def)
  qed (simp add: end_ok_def Inr in_store_same [OF assms])
qed (simp add: end_ok_def)

lemma legal_same:
  assumes "skeleton gn' = skeleton gn"
  shows "legal objs gn' req = legal objs gn req"
proof -
  note k = skeletonD(1,4,6) [OF assms] and e = end_ok_same [OF assms]
  show ?thesis by (cases req) (simp_all add: node_ok_def Let_def k e cong: sum.case_cong option.case_cong garnet_link.case_cong)
qed

lemma end_okD:
  assumes "end_ok gn r e"
  shows "\<exists>h c. e = Inr (h, c) \<and> in_store gn (h, c)
    \<and> (\<forall>q. r = Some q \<longrightarrow> q < length (gn_routers gn) \<and> fst (obj_shape (gn_links gn ! h)) = rt_bit_width (gn_routers gn ! q))"
  using assms by (cases e) (auto simp: end_ok_def)

lemma goes_bind:
  assumes "goes K gn m" and "\<And>gn'. net_ok K gn' \<Longrightarrow> skeleton gn' = skeleton gn \<Longrightarrow> goes K gn' (f gn')"
  shows "goes K gn (bindR m f)"
  using assms unfolding goes_def by fastforce

lemma goes_bridged: "net_ok K gn \<Longrightarrow> goes K gn (Inr (bridged en h gn))"
  using bridged_goes by (auto simp: goes_def)

text \<open>A step on a network that carries an additional bridge in its list.\<close>

lemma goes_after_bridged:
  "net_ok K gn \<Longrightarrow> (\<And>gn'. net_ok K gn' \<Longrightarrow> skeleton gn' = skeleton gn \<Longrightarrow> goes K gn' (f gn')) \<Longrightarrow> goes K gn (f (bridged en h gn))"
  using bridged_goes [of K gn en h] unfolding goes_def by metis

lemma goes_trans: "skeleton gn' = skeleton gn \<Longrightarrow> goes K gn' m = goes K gn m"
  by (simp add: goes_def)

lemma router_K: "net_ok K gn \<Longrightarrow> r < length (gn_routers gn) \<Longrightarrow> rt_vc_per_vnet (gn_routers gn ! r) = K"
  by (simp add: net_ok_def)

lemma wire_in_goes:
  assumes "net_ok K gn'" and k: "skeleton gn' = skeleton gn" and e: "end_ok gn (Some r) (Inr (h, c))"
  shows "goes K gn' (router_addInPort r dirn h c gn')"
proof -
  have "end_ok gn' (Some r) (Inr (h, c))" using e end_ok_same [OF k] by simp
  then show ?thesis by (intro router_addInPort_goes assms(1)) (simp_all add: end_ok_def)
qed

lemma wire_out_goes:
  assumes "net_ok K gn'" and k: "skeleton gn' = skeleton gn" and e: "end_ok gn (Some r) (Inr (h, c))"
  shows "goes K gn' (router_addOutPort r dirn h entry w c K gn')"
proof -
  have "end_ok gn' (Some r) (Inr (h, c))" using e end_ok_same [OF k] by simp
  then show ?thesis by (intro router_addOutPort_goes assms(1)) (simp_all add: end_ok_def)
qed

lemma make_ext_in_goes:
  assumes ok: "net_ok K gn" and leg: "legal objs gn (Make_ext_in src dest link routes)"
  shows "goes K gn (makeExtInLink objs src dest link gn)"
proof -
  obtain n where n: "getLocalNodeID src (gn_base gn) = Inr n" "n < nw_nodes (gn_base gn)" "n < length (gn_nis gn)"
    using leg by (auto simp: node_ok_def split: sum.splits)
  obtain gl where gl: "objs (bl_id link) = Some (Ext_link gl)" using leg by (auto split: option.splits garnet_link.splits)
  let ?net = "fst (gx_network_links gl)" and ?cred = "fst (gx_credit_links gl)"
  let ?e = "link_end (extBridgeEn gl) (dir_in (gx_extBridges gl)) ?net ?cred" and ?i = "link_end (intBridgeEn gl) (dir_in (gx_intBridges gl)) ?net ?cred"
  have l: "?net < length (gn_links gn)" "end_ok gn None ?e" "end_ok gn (Some dest) ?i" using leg gl by (simp_all add: Let_def)
  from end_okD [OF l(2)] obtain h c where hc: "?e = Inr (h, c)" "in_store gn (h, c)" by blast
  from end_okD [OF l(3)] obtain h' c' where hc': "?i = Inr (h', c')" "dest < length (gn_routers gn)" by blast
  have K: "rt_vc_per_vnet (gn_routers gn ! dest) = K" using router_K [OF ok hc'(2)] .
  have "makeExtInLink objs src dest link gn = bindR (record_link EXT_IN ?net ?cred K gn) (\<lambda>gn1. bindR (netif_addOutPort n h c dest K gn1) (\<lambda>gn2.
      bindR (router_addInPort dest ''Local'' h' c' (bridged (extBridgeEn gl) h gn2)) (\<lambda>gn3. Inr (bridged (intBridgeEn gl) h' gn3))))"
    by (simp add: makeExtInLink_def n(1,2) ext_link_of_def gl hc(1) hc' K at_nat Let_def)
  moreover have "goes K gn \<dots>"
  proof (rule goes_bind [OF record_link_goes [OF ok l(1)]])
    fix gn1 assume 1: "net_ok K gn1" "skeleton gn1 = skeleton gn"
    have "n < length (gn_nis gn1)" "in_store gn1 (h, c)" using n(3) skeletonD(4) [OF 1(2)] hc(2) in_store_same [OF 1(2)] by simp_all
    from netif_addOutPort_goes [OF 1(1) this]
    show "goes K gn1 (bindR (netif_addOutPort n h c dest K gn1) (\<lambda>gn2. bindR (router_addInPort dest ''Local'' h' c' (bridged (extBridgeEn gl) h gn2))
        (\<lambda>gn3. Inr (bridged (intBridgeEn gl) h' gn3))))"
    proof (rule goes_bind)
      fix gn2 assume 2: "net_ok K gn2" "skeleton gn2 = skeleton gn1"
      show "goes K gn2 (bindR (router_addInPort dest ''Local'' h' c' (bridged (extBridgeEn gl) h gn2)) (\<lambda>gn3. Inr (bridged (intBridgeEn gl) h' gn3)))"
      proof (rule goes_after_bridged [OF 2(1)])
        fix gn3 assume 3: "net_ok K gn3" "skeleton gn3 = skeleton gn2"
        then have "skeleton gn3 = skeleton gn" using 1(2) 2(2) by simp
        from wire_in_goes [OF 3(1) this] l(3) hc'(1) have "goes K gn3 (router_addInPort dest ''Local'' h' c' gn3)" by simp
        then show "goes K gn3 (bindR (router_addInPort dest ''Local'' h' c' gn3) (\<lambda>gn3. Inr (bridged (intBridgeEn gl) h' gn3)))"
          by (rule goes_bind) (rule goes_bridged)
      qed
    qed
  qed
  ultimately show ?thesis by simp
qed

lemma make_ext_out_goes:
  assumes ok: "net_ok K gn" and leg: "legal objs gn (Make_ext_out src dest link routes)"
  shows "goes K gn (makeExtOutLink objs src dest link routes gn)"
proof -
  obtain n where n: "getLocalNodeID dest (gn_base gn) = Inr n" "n < nw_nodes (gn_base gn)" "n < length (gn_nis gn)"
    using leg by (auto simp: node_ok_def split: sum.splits)
  obtain gl where gl: "objs (bl_id link) = Some (Ext_link gl)" using leg by (auto split: option.splits garnet_link.splits)
  let ?net = "snd (gx_network_links gl)" and ?cred = "snd (gx_credit_links gl)"
  let ?e = "link_end (extBridgeEn gl) (dir_out (gx_extBridges gl)) ?net ?cred" and ?i = "link_end (intBridgeEn gl) (dir_out (gx_intBridges gl)) ?net ?cred"
  have l: "?net < length (gn_links gn)" "end_ok gn None ?e" "end_ok gn (Some src) ?i" using leg gl by (simp_all add: Let_def)
  from end_okD [OF l(2)] obtain h c where hc: "?e = Inr (h, c)" "in_store gn (h, c)" by blast
  from end_okD [OF l(3)] obtain h' c' where hc': "?i = Inr (h', c')" "src < length (gn_routers gn)" by blast
  have K: "rt_vc_per_vnet (gn_routers gn ! src) = K" using router_K [OF ok hc'(2)] .
  let ?out = "\<lambda>g. bindR (router_addOutPort src ''Local'' h' routes (bl_weight link) c' K g) (\<lambda>gn3. Inr (bridged (intBridgeEn gl) h' gn3))"
  have "makeExtOutLink objs src dest link routes gn = bindR (record_link EXT_OUT ?net ?cred K gn) (\<lambda>gn1. bindR (netif_addInPort n h c gn1) (\<lambda>gn2.
      ?out (bridged (extBridgeEn gl) h gn2)))"
    by (simp add: makeExtOutLink_def n(1,2) ext_link_of_def gl hc(1) hc' K at_nat Let_def)
  moreover have "goes K gn \<dots>"
  proof (rule goes_bind [OF record_link_goes [OF ok l(1)]])
    fix gn1 assume 1: "net_ok K gn1" "skeleton gn1 = skeleton gn"
    have "n < length (gn_nis gn1)" "in_store gn1 (h, c)" using n(3) skeletonD(4) [OF 1(2)] hc(2) in_store_same [OF 1(2)] by simp_all
    from netif_addInPort_goes [OF 1(1) this]
    show "goes K gn1 (bindR (netif_addInPort n h c gn1) (\<lambda>gn2. ?out (bridged (extBridgeEn gl) h gn2)))"
    proof (rule goes_bind)
      fix gn2 assume 2: "net_ok K gn2" "skeleton gn2 = skeleton gn1"
      show "goes K gn2 (?out (bridged (extBridgeEn gl) h gn2))"
      proof (rule goes_after_bridged [OF 2(1)])
        fix gn3 assume 3: "net_ok K gn3" "skeleton gn3 = skeleton gn2"
        then have "skeleton gn3 = skeleton gn" using 1(2) 2(2) by simp
        from wire_out_goes [OF 3(1) this] l(3) hc'(1) have "goes K gn3 (router_addOutPort src ''Local'' h' routes (bl_weight link) c' K gn3)" by simp
        then show "goes K gn3 (?out gn3)" by (rule goes_bind) (rule goes_bridged)
      qed
    qed
  qed
  ultimately show ?thesis by simp
qed

lemma make_internal_goes:
  assumes ok: "net_ok K gn" and leg: "legal objs gn (Make_internal src dest link routes out_dirn in_dirn)"
  shows "goes K gn (makeInternalLink objs src dest link routes out_dirn in_dirn gn)"
proof -
  obtain gl where gl: "objs (bl_id link) = Some (Int_link gl)" using leg by (auto split: option.splits garnet_link.splits)
  let ?net = "gi_network_link gl" and ?cred = "gi_credit_link gl"
  let ?d = "link_end (dstBridgeEn gl) (gi_dstBridges gl) ?net ?cred" and ?s = "link_end (srcBridgeEn gl) (gi_srcBridges gl) ?net ?cred"
  have l: "?net < length (gn_links gn)" "end_ok gn (Some dest) ?d" "end_ok gn (Some src) ?s" using leg gl by simp_all
  from end_okD [OF l(2)] obtain h c where hc: "?d = Inr (h, c)" "dest < length (gn_routers gn)" by blast
  from end_okD [OF l(3)] obtain h' c' where hc': "?s = Inr (h', c')" "src < length (gn_routers gn)" by blast
  have K: "rt_vc_per_vnet (gn_routers gn ! dest) = K" "rt_vc_per_vnet (gn_routers gn ! src) = K" using router_K [OF ok] hc(2) hc'(2) by simp_all
  let ?out = "\<lambda>g. bindR (router_addOutPort src out_dirn h' routes (bl_weight link) c' K g) (\<lambda>gn3. Inr (bridged (srcBridgeEn gl) h' gn3))"
  have "makeInternalLink objs src dest link routes out_dirn in_dirn gn = bindR (record_link INT_link ?net ?cred K gn) (\<lambda>gn1.
      bindR (router_addInPort dest in_dirn h c gn1) (\<lambda>gn2. ?out (bridged (dstBridgeEn gl) h gn2)))"
    by (simp add: makeInternalLink_def int_link_of_def gl hc hc' K at_nat Let_def)
  moreover have "goes K gn \<dots>"
  proof (rule goes_bind [OF record_link_goes [OF ok l(1)]])
    fix gn1 assume 1: "net_ok K gn1" "skeleton gn1 = skeleton gn"
    from wire_in_goes [OF 1] l(2) hc(1) have "goes K gn1 (router_addInPort dest in_dirn h c gn1)" by simp
    then show "goes K gn1 (bindR (router_addInPort dest in_dirn h c gn1) (\<lambda>gn2. ?out (bridged (dstBridgeEn gl) h gn2)))"
    proof (rule goes_bind)
      fix gn2 assume 2: "net_ok K gn2" "skeleton gn2 = skeleton gn1"
      show "goes K gn2 (?out (bridged (dstBridgeEn gl) h gn2))"
      proof (rule goes_after_bridged [OF 2(1)])
        fix gn3 assume 3: "net_ok K gn3" "skeleton gn3 = skeleton gn2"
        then have "skeleton gn3 = skeleton gn" using 1(2) 2(2) by simp
        from wire_out_goes [OF 3(1) this] l(3) hc'(1) have "goes K gn3 (router_addOutPort src out_dirn h' routes (bl_weight link) c' K gn3)" by simp
        then show "goes K gn3 (?out gn3)" by (rule goes_bind) (rule goes_bridged)
      qed
    qed
  qed
  ultimately show ?thesis by simp
qed

lemma make_link_goes: "net_ok K gn \<Longrightarrow> legal objs gn req \<Longrightarrow> goes K gn (make_link objs req gn)"
  by (cases req) (simp_all only: make_link.simps make_ext_in_goes make_ext_out_goes make_internal_goes)

lemma make_links_goes:
  assumes "net_ok K gn" and "\<forall>q \<in> set reqs. legal objs gn q"
  shows "goes K gn (loopR (make_link objs) reqs gn)"
  using assms
proof (induction reqs arbitrary: gn)
  case (Cons q reqs)
  show ?case unfolding loopR.simps
  proof (rule goes_bind [OF make_link_goes])
    fix gn1 assume 1: "net_ok K gn1" "skeleton gn1 = skeleton gn"
    show "goes K gn1 (loopR (make_link objs) reqs gn1)"
      by (rule Cons.IH [OF 1(1)]) (use Cons.prems(2) legal_same [OF 1(2)] in simp)
  qed (use Cons.prems in simp_all)
qed (simp add: goes_def)

text \<open>The router of an interface is that of its first port that supports the virtual network.\<close>

lemma first_port:
  "(case port_for_vnet (map op_vnets ps) v of None \<Rightarrow> Inl Assert_fail | Some i \<Rightarrow> Inr (op_routerID (ps ! i))) =
   (case find (\<lambda>(r, vs). isVnetSupported vs v) (map port_sig ps) of None \<Rightarrow> Inl Assert_fail | Some (r, _) \<Rightarrow> Inr r)"
proof (induction ps)
  case (Cons p ps)
  show ?case
  proof (cases "isVnetSupported (op_vnets p) v")
    case False
    then show ?thesis using Cons.IH by (auto simp: port_sig_def split: option.splits)
  qed (simp add: port_sig_def)
qed simp

text \<open>A network before its links are made: no ports anywhere.\<close>

definition unwired :: "'p GarnetNetwork \<Rightarrow> bool" where
  "unwired gn \<longleftrightarrow> (\<forall>rt \<in> set (gn_routers gn). router_wired (nw_virtual_networks (gn_base gn)) rt [] []) \<and> (\<forall>ni \<in> set (gn_nis gn). ni_outPorts ni = [])"

text \<open>Claim C20. The network is wired as the topology asks. On a network without ports, whose routers all have the same number of channels per
  virtual network, any list of legal requests (known nodes and routers, links of the right class, at the side of a router objects of its
  width) is served without a failed assertion, null pointer or access out of range. Then the output ports of every router are, in order, those of the links that leave it, whatever bridges stand
  between: port \<open>k\<close> has the direction of the \<open>k\<close>-th of these links, its weight is entry \<open>k\<close> of the weight table, and its
  destinations on virtual network \<open>v\<close> are entry \<open>k\<close> of row \<open>v\<close> of the routing table; the input ports are those of the links
  that enter it. For every node \<open>get_router_id\<close> answers with the router of the first link from the node into the network
  that supports the virtual network, and stops with an error if there is none.\<close>

theorem network_wiring:
  assumes "unwired gn" and "net_ok K gn" and "\<forall>q \<in> set reqs. legal objs gn q \<and> length (req_routes q) = nw_virtual_networks (gn_base gn)"
  shows "\<exists>gn'. loopR (make_link objs) reqs gn = Inr gn'
    \<and> (\<forall>r < length (gn_routers gn). let rt = gn_routers gn' ! r; links = concat (map (out_spec r) reqs) in
            map ou_direction (rt_output_unit rt) = map fst links
            \<and> weight_table (is_ru (rt_shared rt)) = map (\<lambda>e. snd (snd e)) links
            \<and> (\<forall>v < nw_virtual_networks (gn_base gn). links \<noteq> [] \<longrightarrow> routing_table (is_ru (rt_shared rt)) ! v = map (\<lambda>e. fst (snd e) ! v) links)
            \<and> map iu_direction (rt_input_unit rt) = concat (map (in_spec r) reqs))
    \<and> (\<forall>g n vnet. getLocalNodeID g (gn_base gn) = Inr n \<and> n < length (gn_nis gn) \<longrightarrow>
          get_router_id g vnet gn' =
            (case find (\<lambda>(r, vs). isVnetSupported vs vnet)
                (concat (map (attach_spec (gn_base gn) objs (obj_vnets (gn_links gn)) n) reqs)) of
               None \<Rightarrow> Inl Assert_fail | Some (r, _) \<Rightarrow> Inr r))"
proof -
  let ?nw = "gn_base gn" and ?vn = "obj_vnets (gn_links gn)" and ?R = "length (gn_routers gn)" and ?N = "length (gn_nis gn)"
  have "wired ?nw objs ?vn ?R ?N [] gn" using assms(1) by (simp add: unwired_def wired_def)
  moreover from make_links_goes [OF assms(2), of reqs objs] assms(3) obtain gn' where run: "loopR (make_link objs) reqs gn = Inr gn'" by (auto simp: goes_def)
  ultimately have w: "wired ?nw objs ?vn ?R ?N reqs gn'" using wired_all [OF run, of ?nw ?vn ?R ?N "[]"] assms(3) by simp
  have "get_router_id g vnet gn' = (case find (\<lambda>(r, vs). isVnetSupported vs vnet) (concat (map (attach_spec ?nw objs ?vn n) reqs)) of
       None \<Rightarrow> Inl Assert_fail | Some (r, _) \<Rightarrow> Inr r)" if "getLocalNodeID g ?nw = Inr n" "n < ?N" for g n vnet
  proof -
    have "map port_sig (ni_outPorts (gn_nis gn' ! n)) = concat (map (attach_spec ?nw objs ?vn n) reqs)" "gn_base gn' = ?nw" "length (gn_nis gn') = ?N"
      using w that(2) by (simp_all add: wired_def)
    then show ?thesis using first_port [of "ni_outPorts (gn_nis gn' ! n)" vnet] that
      by (simp add: get_router_id_def ni_get_router_id_def getOutportForVnet_def)
  qed
  moreover have "let rt = gn_routers gn' ! r; links = concat (map (out_spec r) reqs) in
            map ou_direction (rt_output_unit rt) = map fst links
            \<and> weight_table (is_ru (rt_shared rt)) = map (\<lambda>e. snd (snd e)) links
            \<and> (\<forall>v < nw_virtual_networks ?nw. links \<noteq> [] \<longrightarrow> routing_table (is_ru (rt_shared rt)) ! v = map (\<lambda>e. fst (snd e) ! v) links)
            \<and> map iu_direction (rt_input_unit rt) = concat (map (in_spec r) reqs)" if "r < ?R" for r
  proof -
    have "router_wired (nw_virtual_networks ?nw) (gn_routers gn' ! r) (concat (map (out_spec r) reqs)) (concat (map (in_spec r) reqs))"
      using w that by (simp add: wired_def)
    then show ?thesis unfolding router_wired_def Let_def by (simp split: if_splits del: concat_eq_Nil_conv)
  qed
  ultimately show ?thesis using run by blast
qed

section \<open>A concrete network\<close>

text \<open>Two routers of 128 and 64 bits, one node, one virtual network: the external link 7 without bridges, in both directions, and the
  internal link 8 from router 0 to router 1 with serialising bridges at its source.\<close>

definition demo_objs :: "nat \<Rightarrow> garnet_link option" where
  "demo_objs k = (if k = 7 then Some (Ext_link \<lparr>gx_network_links = (0, 1), gx_credit_links = (2, 3), gx_extCdcEn = False, gx_intCdcEn = False,
       gx_extSerdesEn = False, gx_intSerdesEn = False, gx_extBridges = None, gx_intBridges = None\<rparr>)
     else if k = 8 then Some (Int_link \<lparr>gi_network_link = 4, gi_credit_link = 5, gi_srcCdcEn = False, gi_dstCdcEn = False,
       gi_srcSerdesEn = True, gi_dstSerdesEn = False, gi_srcBridges = Some (6, 7), gi_dstBridges = None\<rparr>)
     else None)"

definition demo_basic_link :: "nat \<Rightarrow> BasicLink" where
  "demo_basic_link k = \<lparr>bl_id = k, bl_latency = 1, bl_bandwidth_factor = 16, bl_weight = 1, bl_mVnets = []\<rparr>"

definition demo_requests :: "link_req list" where
  "demo_requests = [Make_ext_in 0 0 (demo_basic_link 7) [small_dest], Make_ext_out 0 0 (demo_basic_link 7) [small_dest],
     Make_internal 0 1 (demo_basic_link 8) [small_dest] ''East'' ''West'']"

definition demo_base :: "nat Network" where
  "demo_base = \<lparr>nw_nodes = 1, nw_virtual_networks = 1, nw_control_msg_size = 8, nw_data_msg_size = 72, nw_vnet_type_names = [''response''],
     nw_topology = \<lparr>tp_nodes = 2, tp_number_of_switches = 2, tp_vnets = 1, tp_ext_link_vector = [], tp_int_link_vector = [], tp_link_map = []\<rparr>,
     nw_toNetQueues = [[]], nw_fromNetQueues = [[]], nw_ordered = [False], nw_globalToLocalMap = [(0, 0)]\<rparr>"

definition demo_bridge :: "int \<Rightarrow> NetworkBridge" where
  "demo_bridge i = \<lparr>nb_base = NetworkLink_new i 1 1 [] 128, nb_nLink_bitWidth = 64, nb_enCdc = False, nb_enSerDes = True, nb_mType = LINK_OBJECT,
     nb_cdcLatency = 1, nb_serDesLatency = 1, nb_lastScheduledAt = 0, nb_lenBuffer = [], nb_sizeSent = [], nb_flitsSent = [], nb_extraCredit = []\<rparr>"

definition demo_network :: "nat GarnetNetwork" where
  "demo_network = GarnetNetwork_new 1 128 4 1 1 False [Router_new 1 1 1 128 route_glob_new tdma_new, Router_new 1 1 1 64 route_glob_new tdma_new]
     [NetworkInterface_new 0 1 50]
     [Link_obj (NetworkLink_new 0 1 1 [] 128), Link_obj (NetworkLink_new 1 1 1 [] 128), Link_obj (NetworkLink_new 2 1 1 [] 128),
      Link_obj (NetworkLink_new 3 1 1 [] 128), Link_obj (NetworkLink_new 4 1 1 [] 64), Link_obj (NetworkLink_new 5 1 1 [] 64),
      Bridge_obj (demo_bridge 6) 4, Bridge_obj (demo_bridge 7) 5] demo_base"

lemma demo_network_ok: "unwired demo_network" "net_ok 1 demo_network"
  by (simp_all add: unwired_def demo_network_def GarnetNetwork_new_def router_wired_def Router_new_def RoutingUnit_new_def NetworkInterface_new_def
      net_ok_def links_ok_def Let_def no_ports_def)

lemma demo_requests_legal:
  "\<forall>q \<in> set demo_requests. legal demo_objs demo_network q \<and> length (req_routes q) = nw_virtual_networks (gn_base demo_network)"
  by (simp add: demo_requests_def demo_network_def GarnetNetwork_new_def demo_base_def node_ok_def getLocalNodeID_def demo_objs_def demo_basic_link_def
      end_ok_def in_store_def link_end_def extBridgeEn_def intBridgeEn_def srcBridgeEn_def dstBridgeEn_def Router_new_def NetworkLink_new_def
      demo_bridge_def Let_def)

theorem network_wiring_witness:
  "\<exists>gn'. loopR (make_link demo_objs) demo_requests demo_network = Inr gn' \<and> get_router_id 0 0 gn' = Inr 0
     \<and> map ou_direction (rt_output_unit (gn_routers gn' ! 0)) = [''Local'', ''East'']
     \<and> map iu_direction (rt_input_unit (gn_routers gn' ! 1)) = [''West'']"
proof -
  have n: "getLocalNodeID 0 (gn_base demo_network) = Inr 0" "length (gn_nis demo_network) = 1" "length (gn_routers demo_network) = 2"
    by (simp_all add: demo_network_def GarnetNetwork_new_def demo_base_def getLocalNodeID_def)
  have a: "concat (map (attach_spec (gn_base demo_network) demo_objs (obj_vnets (gn_links demo_network)) 0) demo_requests) = [(0, [])]"
    using n(1) by (simp add: demo_requests_def ext_in_object_def demo_objs_def demo_basic_link_def link_end_def extBridgeEn_def obj_vnets_def
        demo_network_def GarnetNetwork_new_def NetworkLink_new_def)
  have o: "concat (map (out_spec 0) demo_requests) = [(''Local'', [small_dest], 1), (''East'', [small_dest], 1)]"
    "concat (map (in_spec 1) demo_requests) = [''West'']" by (simp_all add: demo_requests_def demo_basic_link_def)
  from network_wiring [OF demo_network_ok demo_requests_legal] obtain gn' where
    run: "loopR (make_link demo_objs) demo_requests demo_network = Inr gn'" and
    rt: "\<forall>r < length (gn_routers demo_network). let rt = gn_routers gn' ! r; links = concat (map (out_spec r) demo_requests) in
            map ou_direction (rt_output_unit rt) = map fst links
            \<and> weight_table (is_ru (rt_shared rt)) = map (\<lambda>e. snd (snd e)) links
            \<and> (\<forall>v < nw_virtual_networks (gn_base demo_network). links \<noteq> [] \<longrightarrow> routing_table (is_ru (rt_shared rt)) ! v = map (\<lambda>e. fst (snd e) ! v) links)
            \<and> map iu_direction (rt_input_unit rt) = concat (map (in_spec r) demo_requests)" and
    id: "\<forall>g n vnet. getLocalNodeID g (gn_base demo_network) = Inr n \<and> n < length (gn_nis demo_network) \<longrightarrow>
          get_router_id g vnet gn' = (case find (\<lambda>(r, vs). isVnetSupported vs vnet)
                (concat (map (attach_spec (gn_base demo_network) demo_objs (obj_vnets (gn_links demo_network)) n) demo_requests)) of
               None \<Rightarrow> Inl Assert_fail | Some (r, _) \<Rightarrow> Inr r)"
    by - (elim exE conjE, rule that; assumption)
  have "get_router_id 0 0 gn' = Inr 0" using id [rule_format, of 0 0 0] n(1,2) a by (simp add: isVnetSupported_def)
  moreover have "map ou_direction (rt_output_unit (gn_routers gn' ! 0)) = [''Local'', ''East'']"
    using rt [rule_format, of 0] n(3) o(1) by (simp add: Let_def)
  moreover have "map iu_direction (rt_input_unit (gn_routers gn' ! 1)) = [''West'']"
    using rt [rule_format, of 1] n(3) o(2) by (simp add: Let_def)
  ultimately show ?thesis using run by (intro exI [of _ gn'] conjI)
qed

end
