(* ===== verification/Spec2Isabelle.thy ===== *)
theory Spec2Isabelle
  imports Routing_Table Channel_Dependencies Mesh_Delivery Flow_Control Message_Order Shortest_Paths Bridge_Packets Interface_Wakeup Network_Wiring
begin

text \<open>
  A verification development of the network on chip of this repository: the Garnet model under
  \<^verbatim>\<open>src/src/mem/ruby/network/garnet\<close> with its detection of and defence against traffic attacks, and the parts of Ruby and of
  the simulator it rests on. Paths below are relative to \<^verbatim>\<open>src/src/mem/ruby/network/garnet\<close> unless they name a directory.

  \<^bold>\<open>The program.\<close> Coherence controllers put messages into \<open>MessageBuffer\<close>s. A \<open>NetworkInterface\<close> takes them out, cuts them
  into flits, chooses a virtual channel and sends the flits over a \<open>NetworkLink\<close> to a \<open>Router\<close>. There an \<open>InputUnit\<close> receives
  them (and, depending on how the program was compiled, inspects, deflects or schedules them by time division), the
  \<open>RoutingUnit\<close> computes the output port, the \<open>SwitchAllocator\<close> grants ports and output channels, the \<open>CrossbarSwitch\<close> moves
  the flits to the \<open>OutputUnit\<close>s and so to the next link. Credits travel the other way over \<open>CreditLink\<close>s. Links between
  different clocks or widths have \<open>NetworkBridge\<close>s at their ends. At the destination the interface hands the message of a
  tail flit to the protocol. The network is built by \<open>GarnetNetwork\<close> from the links and routing entries that \<open>Topology\<close>
  computes. Everything is driven by wake-ups of \<open>Consumer\<close>s on clock edges.

  \<^bold>\<open>Conventions.\<close> An operation is a function on explicit state records. Failed assertions, \<open>fatal\<close>, \<open>panic\<close>, null pointers,
  accesses out of range and divisions by zero are values \<open>Inl e\<close> of \<open>'a res\<close> (theory \<open>Garnet_Prelude\<close>); \<open>bindR\<close> sequences and
  \<open>loopR\<close> iterates. Ticks, cycles and sizes are natural numbers, C++ \<open>int\<close>s are integers, words are used where the source
  relies on 64 bits (bit sets, histories, the message counter). Requests to schedule somebody are returned as lists in the
  order they are made. Links are passed to the component that reads them and returned. Random draws, floating point, the
  functions SLICC generates (\<open>machine_conf\<close>) and the effect of a functional access on a message are parameters.

  \<^bold>\<open>Theories, sources, and what is shown.\<close>

  \<^item> \<open>Garnet_Prelude\<close>: results, loops, ceiling division (\<^verbatim>\<open>src/src/base/intmath.hh\<close>), the locale \<open>fifo\<close>.
  \<^item> \<open>Net_Dest\<close> (\<^verbatim>\<open>src/src/mem/ruby/common/Set.hh\<close>, \<^verbatim>\<open>NetDest.cc\<close>): destination sets as vectors of bit sets. Every
    operation refines its counterpart on finite sets of machines (\<open>NetDest_refines_sets\<close>); the locale \<open>destination_set\<close> is what
    the network uses of it.
  \<^item> \<open>Flits\<close> (\<^verbatim>\<open>flit.cc\<close>, \<^verbatim>\<open>Credit.cc\<close>, \<^verbatim>\<open>flitBuffer.cc\<close>): flits, credits, their queues; splitting and merging of flits is a
    round trip (\<open>serialize_deserialize_roundtrip\<close>).
  \<^item> \<open>Clocks\<close> (\<^verbatim>\<open>src/src/sim/clocked_object.hh\<close>, \<^verbatim>\<open>src/src/mem/ruby/common/Consumer.cc\<close>): clock edges have a closed form, no requested
    wake-up is lost and none is served that was not requested or is off a clock edge.
  \<^item> \<open>Network_Link\<close> (\<^verbatim>\<open>NetworkLink.cc\<close>, \<^verbatim>\<open>CreditLink.hh\<close>): a link delivers in order and on time.
  \<^item> \<open>Virtual_Channels\<close> (\<^verbatim>\<open>VirtualChannel.cc\<close>, \<^verbatim>\<open>OutVcState.cc\<close>, \<^verbatim>\<open>OutputUnit.cc\<close>): allocation of output channels, their exclusive use.
  \<^item> \<open>Routing_Unit\<close>, \<open>Routing_Table\<close> (\<^verbatim>\<open>RoutingUnit.cc\<close>): all routing algorithms; the table lookup is minimal.
  \<^item> \<open>Mesh_Routing\<close>, \<open>Mesh_Delivery\<close>, \<open>Channel_Dependencies\<close>: meshes of routers; XY, west-first and secure Valiant routing deliver
    in the stated number of hops (locales \<open>mesh_step\<close>, \<open>xy_step\<close>), the channel dependencies of the first two are acyclic
    (locale \<open>ranked_channels\<close>). For secure Valiant routing and for the pattern-triggered deflection it is shown exactly when the
    computed router or direction lies outside the mesh.
  \<^item> \<open>Risk_Detection\<close> (\<^verbatim>\<open>CommonTypes.hh\<close>, \<^verbatim>\<open>InputUnit.hh\<close>): the recorded output flows, the short- and long-term histories
    (locale \<open>sliding_window\<close>) and the verdict on a flow, for every floating-point arithmetic.
  \<^item> \<open>Input_Unit\<close> (\<^verbatim>\<open>InputUnit.cc\<close>): the wake-up for every compiled variant. Time division isolates the slots; the detection tags
    a packet exactly when the verdict is risky and the calibration draw is below the bound the detour rate sets.
  \<^item> \<open>Switch_Allocation\<close>, \<open>Switch_Safety\<close> (\<^verbatim>\<open>SwitchAllocator.cc\<close>, \<^verbatim>\<open>CrossbarSwitch.cc\<close>): an allocation never fails on a well-formed
    router, keeps it well formed and moves the flits of a matching of ports.
  \<^item> \<open>Garnet_Router\<close>, \<open>Router_Safety\<close> (\<^verbatim>\<open>Router.cc\<close>): construction, wake-up, statistics; a whole wake-up is safe and loses nothing,
    for any routing function that meets the locale \<open>routing_contract\<close>, interpreted for XY routing.
  \<^item> \<open>Flow_Control\<close>: one hop (output unit, link, input unit, credit link) refines an abstract credit protocol on every channel;
    bounds of the buffers and the assertions of both ends follow for every interleaving.
  \<^item> \<open>Std_Heap\<close>, \<open>Message_Buffer\<close>, \<open>Message_Order\<close> (\<^verbatim>\<open>src/src/mem/ruby/network/MessageBuffer.cc\<close>,
    \<^verbatim>\<open>src/src/mem/ruby/slicc_interface/Message.hh\<close>): the binary heaps of the standard library (locale \<open>heap_order\<close>) and the message
    buffer on top of them: a priority queue, first-in-first-out when ordered, with reliable answers about free slots.
  \<^item> \<open>Topology\<close>, \<open>Shortest_Paths\<close> (\<^verbatim>\<open>src/src/mem/ruby/network/Topology.cc\<close>): the relaxation of all pairs terminates with the least
    weights, \<open>createLinks\<close> returns, and packets that follow the resulting routing entries arrive.
  \<^item> \<open>Network_Bridge\<close>, \<open>Bridge_Packets\<close> (\<^verbatim>\<open>NetworkBridge.cc\<close>): packets and credits survive a pair of bridges of an integral ratio of
    widths; the error for other ratios is exhibited.
  \<^item> \<open>Network_Interface\<close>, \<open>Interface_Injection\<close>, \<open>Interface_Safety\<close>, \<open>Interface_Wakeup\<close> (\<^verbatim>\<open>NetworkInterface.cc\<close>, the counters of
    \<^verbatim>\<open>GarnetNetwork.hh\<close>): injection with its rotating choice of channels and the splitting of multicasts, scheduling, ejection
    with stalling, credits. A wake-up returns and keeps the type invariant \<open>ni_ok\<close>; ejection conserves messages and credits.
  \<^item> \<open>Garnet_Network\<close>, \<open>Network_Wiring\<close> (\<^verbatim>\<open>src/src/mem/ruby/network/Network.cc\<close>, \<^verbatim>\<open>GarnetNetwork.cc\<close>, \<^verbatim>\<open>GarnetLink.cc\<close>): construction of
    the network, its queues, statistics and functional accesses. Links and bridges are objects of a store. The ports,
    tables and the router of a node are those the topology asks for.

  \<^bold>\<open>Bounds and termination.\<close> All definitions are total functions by structural recursion or with a termination measure, but
  for the relaxation loop of \<open>Topology\<close>, which a negative weight can keep running: it is an option-valued
  \<^theory_text>\<open>partial_function\<close>, and \<open>createLinks_terminates\<close> shows that it returns for non-negative weights. Nothing is bounded by
  fuel; the only bound in a statement is the number of hops of a walk in a mesh, which is the distance proved sufficient.
  The arrays sized by \<open>MAXN\<close> and \<open>CORE_NUM\<close> in the source have that size here, and the theorems that use them assume that
  router numbers are below it. Integers of the source are unbounded here where no code depends on their width: sums of distances
  in \<open>relax_via\<close> (C++ overflows for weights above \<open>2 ^ 30\<close>), packet identifiers (which the constructor of a flit drops), counters of
  statistics. Bit sets have 64 bits, the default of \<open>NUMBER_BITS_PER_SET\<close>; some build options set 128. Compile-time choices are parameters
  (\<open>InputStruct\<close>, the detour rate \<open>CALI\<close>) or have the value in the source (\<open>MESS_RAND\<close> false). The quotients of widths that
  \<open>NetworkBridge\<close> computes in \<open>float\<close> are exact quotients.

  \<^bold>\<open>Not modelled, and why.\<close> Printing, debug output and the registration of statistics are input and output. The event
  queue (\<^verbatim>\<open>src/src/sim/eventq.cc\<close>) is represented by the lists of requests and the pending tick of a consumer. The fault model
  (\<^verbatim>\<open>src/src/mem/ruby/network/fault_model\<close>) is a table of measured probabilities in floating point that no decision of a router reads;
  the network declares its routers to it through a parameter. The coherence controllers are generated by SLICC when the
  simulator is built and are not part of the tree; what the network relies on (the numbering of machines, the order in
  which queues are registered) is a parameter. Address ranges enter \<open>addressToNodeID\<close> through their membership test. The simple
  network, the sequencers, caches, the classic memory system, processors and devices do not take part in the network.
  The composition of all components into one step relation of the whole simulator is not stated: the properties cover each
  component for arbitrary legal inputs, one hop of flow control for every interleaving, whole wake-ups of routers and
  interfaces, and routes across the whole network.
\<close>

end
